(* ===== verification/Prelude.thy ===== *)
theory Prelude
  imports Main "HOL-Library.Word"
begin

text \<open>
  Shared vocabulary of the development: machine integer types, the little-endian byte
  codecs that stand for \<open>memcpy\<close> of packed structs, C++ integer division, ordered
  association lists (the model of \<open>std::map\<close>, whose iteration order is the key order),
  and the named collections the component theories add to.
\<close>

unbundle bit_operations_syntax

type_synonym u8 = "8 word"
type_synonym u16 = "16 word"
type_synonym u32 = "32 word"
type_synonym u64 = "64 word"

named_theorems wire_simps \<open>equations that evaluate the byte codecs\<close>
named_theorems state_defs \<open>definitions of the handlers, unfolded in case analyses\<close>
named_theorems step_splits \<open>facts that open one step of a machine\<close>

section \<open>Undefined steps\<close>

text \<open>
  An operation that may reach undefined behaviour after it has acted returns a sum: \<open>Inl\<close> the
  effects made before that step, or \<open>Inr\<close> the new state and all effects. Earlier effects come first
  in both cases.
\<close>

definition sent_before :: "'b list \<Rightarrow> 'b list + 's \<times> 'b list \<Rightarrow> 'b list + 's \<times> 'b list" where
  "sent_before sent r = (case r of Inl s \<Rightarrow> Inl (sent @ s) | Inr (w, s) \<Rightarrow> Inr (w, sent @ s))"

lemma sent_before_simps [simp]:
  "sent_before sent (Inl s) = Inl (sent @ s)" "sent_before sent (Inr (w, s)) = Inr (w, sent @ s)"
  by (simp_all add: sent_before_def)

lemma sent_before_eq:
  "sent_before sent r = Inl s \<longleftrightarrow> (\<exists>s'. r = Inl s' \<and> s = sent @ s')"
  "sent_before sent r = Inr (w, s) \<longleftrightarrow> (\<exists>s'. r = Inr (w, s') \<and> s = sent @ s')"
  by (auto simp: sent_before_def split: sum.splits)

text \<open>The result if there is one.\<close>

definition defined :: "'e + 'a \<Rightarrow> 'a option" where
  "defined r = (case r of Inl _ \<Rightarrow> None | Inr v \<Rightarrow> Some v)"

lemma defined_simps [simp]: "defined (Inl x) = None" "defined (Inr v) = Some v"
  by (simp_all add: defined_def)

lemma defined_Some [simp]: "defined r = Some v \<longleftrightarrow> r = Inr v"
  by (cases r) simp_all

section \<open>C++ integer operations\<close>

text \<open>C++ \<open>/\<close> and \<open>%\<close> truncate towards zero.\<close>

definition c_div :: "int \<Rightarrow> int \<Rightarrow> int" where
  "c_div a b = sgn a * sgn b * (\<bar>a\<bar> div \<bar>b\<bar>)"

definition c_mod :: "int \<Rightarrow> int \<Rightarrow> int" where
  "c_mod a b = a - b * c_div a b"

lemma c_div_mod: "b * c_div a b + c_mod a b = a"
  by (simp add: c_mod_def)

lemma c_mod_abs: "c_mod a b = sgn a * (\<bar>a\<bar> mod \<bar>b\<bar>)"
proof -
  have a: "a = sgn a * \<bar>a\<bar>" by (simp add: sgn_mult_abs)
  have b: "b * sgn b = \<bar>b\<bar>" by (simp add: mult_sgn_abs abs_sgn)
  have "c_mod a b = sgn a * \<bar>a\<bar> - sgn a * (b * sgn b) * (\<bar>a\<bar> div \<bar>b\<bar>)"
    unfolding c_mod_def c_div_def using a by (simp add: algebra_simps)
  also have "\<dots> = sgn a * (\<bar>a\<bar> - \<bar>b\<bar> * (\<bar>a\<bar> div \<bar>b\<bar>))"
    by (simp add: b algebra_simps)
  also have "\<dots> = sgn a * (\<bar>a\<bar> mod \<bar>b\<bar>)"
    by (simp add: minus_mult_div_eq_mod)
  finally show ?thesis .
qed

lemma c_mod_bound: "b \<noteq> 0 \<Longrightarrow> \<bar>c_mod a b\<bar> < \<bar>b\<bar>"
  by (auto simp: c_mod_abs abs_mult sgn_if)

section \<open>Little-endian codecs\<close>

text \<open>
  The Windows targets are little-endian, so copying a packed struct of fixed-width
  integers into a byte buffer writes each field low byte first.
\<close>

definition le16 :: "u16 \<Rightarrow> u8 list" where
  "le16 w = [ucast w, ucast (drop_bit 8 w)]"

definition le32 :: "u32 \<Rightarrow> u8 list" where
  "le32 w = [ucast w, ucast (drop_bit 8 w), ucast (drop_bit 16 w), ucast (drop_bit 24 w)]"

fun rd16 :: "u8 list \<Rightarrow> (u16 \<times> u8 list) option" where
  "rd16 (a # b # r) = Some (ucast a OR push_bit 8 (ucast b), r)"
| "rd16 _ = None"

fun rd32 :: "u8 list \<Rightarrow> (u32 \<times> u8 list) option" where
  "rd32 (a # b # c # d # r) =
     Some (ucast a OR push_bit 8 (ucast b) OR push_bit 16 (ucast c) OR push_bit 24 (ucast d), r)"
| "rd32 _ = None"

lemma length_le16 [simp]: "length (le16 w) = 2"
  by (simp add: le16_def)

lemma length_le32 [simp]: "length (le32 w) = 4"
  by (simp add: le32_def)

lemma rd16_le16 [simp, wire_simps]: "rd16 (le16 w @ r) = Some (w, r)"
proof -
  have "ucast (ucast w :: u8) OR push_bit 8 (ucast (ucast (drop_bit 8 w) :: u8)) = w"
  proof (rule bit_word_eqI)
    fix n assume n: "n < LENGTH(16)"
    consider "n < 8" | "8 \<le> n" by linarith
    then show "bit (ucast (ucast w :: u8) OR push_bit 8 (ucast (ucast (drop_bit 8 w) :: u8)) :: u16) n
        = bit w n"
      using n by cases (auto simp: bit_simps)
  qed
  then show ?thesis by (simp add: le16_def)
qed

lemma rd32_le32 [simp, wire_simps]: "rd32 (le32 w @ r) = Some (w, r)"
proof -
  let ?v = "ucast (ucast w :: u8) OR push_bit 8 (ucast (ucast (drop_bit 8 w) :: u8))
    OR push_bit 16 (ucast (ucast (drop_bit 16 w) :: u8))
    OR push_bit 24 (ucast (ucast (drop_bit 24 w) :: u8)) :: u32"
  have "?v = w"
  proof (rule bit_word_eqI)
    fix n assume n: "n < LENGTH(32)"
    consider "n < 8" | "8 \<le> n" "n < 16" | "16 \<le> n" "n < 24" | "24 \<le> n" by linarith
    then show "bit ?v n = bit w n"
      using n by cases (auto simp: bit_simps)
  qed
  then show ?thesis by (simp add: le32_def)
qed

text \<open>The most significant byte first: what pushing the bytes in reverse order writes.\<close>

definition be32 :: "u32 \<Rightarrow> u8 list" where
  "be32 w = rev (le32 w)"

lemma length_be32 [simp]: "length (be32 w) = 4"
  by (simp add: be32_def)

text \<open>A list of 32-bit words, each low byte first.\<close>

definition le32s :: "u32 list \<Rightarrow> u8 list" where
  "le32s ws = concat (map le32 ws)"

fun rd32s :: "nat \<Rightarrow> u8 list \<Rightarrow> (u32 list \<times> u8 list) option" where
  "rd32s 0 r = Some ([], r)"
| "rd32s (Suc n) r = (case rd32 r of None \<Rightarrow> None
     | Some (w, r') \<Rightarrow> (case rd32s n r' of None \<Rightarrow> None | Some (ws, r'') \<Rightarrow> Some (w # ws, r'')))"

lemma length_le32s [simp]: "length (le32s ws) = 4 * length ws"
  by (induction ws) (simp_all add: le32s_def)

lemma le32s_Nil [simp]: "le32s [] = []"
  by (simp add: le32s_def)

lemma le32s_Cons [simp]: "le32s (w # ws) = le32 w @ le32s ws"
  by (simp add: le32s_def)

lemma le32s_append: "le32s (xs @ ys) = le32s xs @ le32s ys"
  by (simp add: le32s_def)

lemma rd32s_le32s [simp, wire_simps]: "rd32s (length ws) (le32s ws @ r) = Some (ws, r)"
  by (induction ws) simp_all

lemma rd32s_le32s_n: "n = length ws \<Longrightarrow> rd32s n (le32s ws @ r) = Some (ws, r)"
  by simp

section \<open>Ordered association lists\<close>

text \<open>
  \<open>std::map\<close>: iteration visits the keys in increasing order, \<open>operator[]\<close> on a present key
  replaces its value.
\<close>

fun oput :: "'k::linorder \<Rightarrow> 'v \<Rightarrow> ('k \<times> 'v) list \<Rightarrow> ('k \<times> 'v) list" where
  "oput k v [] = [(k, v)]"
| "oput k v ((k', v') # m) =
     (if k < k' then (k, v) # (k', v') # m
      else if k = k' then (k, v) # m
      else (k', v') # oput k v m)"

definition odel :: "'k \<Rightarrow> ('k \<times> 'v) list \<Rightarrow> ('k \<times> 'v) list" where
  "odel k m = filter (\<lambda>(k', _). k' \<noteq> k) m"

definition okeys :: "('k::linorder \<times> 'v) list \<Rightarrow> bool" where
  "okeys m \<longleftrightarrow> sorted_wrt (<) (map fst m)"

lemma set_oput: "fst ` set (oput k v m) = insert k (fst ` set m)"
proof (induction m)
  case Nil
  then show ?case by simp
next
  case (Cons p m)
  obtain k' v' where p: "p = (k', v')" by (cases p)
  show ?case by (simp add: p Cons.IH insert_commute)
qed

lemma okeys_oput: "okeys m \<Longrightarrow> okeys (oput k v m)"
  unfolding okeys_def
proof (induction m)
  case Nil
  then show ?case by simp
next
  case (Cons p m)
  obtain k' v' where p: "p = (k', v')" by (cases p)
  show ?case
    using Cons set_oput [of k v m] unfolding p by (auto simp: image_iff)
qed

lemma okeys_odel: "okeys m \<Longrightarrow> okeys (odel k m)"
  unfolding okeys_def odel_def
  by (induction m) auto

lemma map_of_oput [simp]: "map_of (oput k v m) = (map_of m)(k \<mapsto> v)" if "okeys m"
  using that unfolding okeys_def
proof (induction m)
  case Nil
  then show ?case by simp
next
  case (Cons p m)
  obtain k' v' where p: "p = (k', v')" by (cases p)
  show ?case using Cons by (auto simp: p fun_eq_iff)
qed

lemma map_of_odel [simp]: "map_of (odel k m) = (map_of m)(k := None)"
  unfolding odel_def by (induction m) (auto simp: fun_eq_iff)

lemma odel_Nil_iff: "odel k m = [] \<longleftrightarrow> fst ` set m \<subseteq> {k}"
  by (auto simp: odel_def filter_empty_conv)

text \<open>The interface the clients of a \<open>std::map\<close> rely on.\<close>

locale finite_map =
  fixes put :: "'k \<Rightarrow> 'v \<Rightarrow> 'm \<Rightarrow> 'm"
    and del :: "'k \<Rightarrow> 'm \<Rightarrow> 'm"
    and get :: "'m \<Rightarrow> 'k \<Rightarrow> 'v option"
    and ok :: "'m \<Rightarrow> bool"
  assumes get_put: "ok m \<Longrightarrow> get (put k v m) = (get m)(k \<mapsto> v)"
    and get_del: "ok m \<Longrightarrow> get (del k m) = (get m)(k := None)"
    and ok_put: "ok m \<Longrightarrow> ok (put k v m)"
    and ok_del: "ok m \<Longrightarrow> ok (del k m)"
begin

lemma put_same: "ok m \<Longrightarrow> get (put k v m) k = Some v"
  by (simp add: get_put)

lemma put_other: "ok m \<Longrightarrow> k' \<noteq> k \<Longrightarrow> get (put k v m) k' = get m k'"
  by (simp add: get_put)

lemma del_same: "ok m \<Longrightarrow> get (del k m) k = None"
  by (simp add: get_del)

lemma del_put: "ok m \<Longrightarrow> get (del k (put k v m)) = (get m)(k := None)"
  by (simp add: get_put get_del ok_put)

end

interpretation omap: finite_map oput odel map_of okeys
  by unfold_locales (auto simp: okeys_oput okeys_odel)

section \<open>Lists\<close>

text \<open>\<open>std::find_if\<close>: the first element with the property, with its index.\<close>

fun find_index :: "('a \<Rightarrow> bool) \<Rightarrow> 'a list \<Rightarrow> nat option" where
  "find_index p [] = None"
| "find_index p (x # xs) = (if p x then Some 0 else map_option Suc (find_index p xs))"

lemma find_index_Some:
  "find_index p xs = Some i \<Longrightarrow> i < length xs \<and> p (xs ! i) \<and> (\<forall>j < i. \<not> p (xs ! j))"
proof (induction xs arbitrary: i)
  case Nil
  then show ?case by simp
next
  case (Cons x xs)
  show ?case
  proof (cases "p x")
    case True
    with Cons.prems show ?thesis by simp
  next
    case False
    with Cons.prems obtain k where k: "find_index p xs = Some k" "i = Suc k" by auto
    from Cons.IH [OF k(1)] False show ?thesis
      by (auto simp: k(2) nth_Cons split: nat.splits)
  qed
qed

lemma find_index_None: "find_index p xs = None \<longleftrightarrow> (\<forall>x \<in> set xs. \<not> p x)"
  by (induction xs) auto

lemma find_index_SomeI:
  "k < length xs \<Longrightarrow> p (xs ! k) \<Longrightarrow> (\<And>j. j < k \<Longrightarrow> \<not> p (xs ! j)) \<Longrightarrow> find_index p xs = Some k"
proof (induction xs arbitrary: k)
  case Nil
  then show ?case by simp
next
  case (Cons x xs)
  show ?case
  proof (cases k)
    case 0
    with Cons.prems show ?thesis by simp
  next
    case (Suc m)
    have "\<not> p (xs ! j)" if "j < m" for j using Cons.prems(3) [of "Suc j"] that Suc by simp
    then have "find_index p xs = Some m" using Cons.prems(1,2) Suc by (intro Cons.IH) simp_all
    moreover have "\<not> p x" using Cons.prems(3) [of 0] Suc by simp
    ultimately show ?thesis by (simp add: Suc)
  qed
qed

section \<open>Decimal numbers\<close>

text \<open>The digits \<open>std::to_string\<close> writes and the value \<open>std::stoi\<close> and the stream operators read.\<close>

definition isdigit :: "char \<Rightarrow> bool" where
  "isdigit c \<longleftrightarrow> 48 \<le> (of_char c :: nat) \<and> (of_char c :: nat) \<le> 57"

definition digits_val :: "string \<Rightarrow> nat" where
  "digits_val ds = foldl (\<lambda>n c. 10 * n + (of_char c - 48)) 0 ds"

fun show_nat :: "nat \<Rightarrow> string" where
  "show_nat n = (if n < 10 then [char_of (48 + n)] else show_nat (n div 10) @ [char_of (48 + n mod 10)])"

declare show_nat.simps [simp del]

definition show_int :: "int \<Rightarrow> string" where
  "show_int i = (if i < 0 then CHR ''-'' # show_nat (nat (- i)) else show_nat (nat i))"

lemma isdigit_char_of: "d < 10 \<Longrightarrow> isdigit (char_of (48 + (d :: nat)))"
  by (simp add: isdigit_def)

lemma digits_val_snoc: "digits_val (ds @ [c]) = 10 * digits_val ds + (of_char c - 48)"
  by (simp add: digits_val_def)

lemma show_nat_ok: "show_nat n \<noteq> [] \<and> (\<forall>c \<in> set (show_nat n). isdigit c) \<and> digits_val (show_nat n) = n"
proof (induction n rule: less_induct)
  case (less n)
  show ?case
  proof (cases "n < 10")
    case True
    then show ?thesis by (simp add: show_nat.simps [of n] isdigit_def digits_val_def)
  next
    case False
    then have "show_nat n = show_nat (n div 10) @ [char_of (48 + n mod 10)]" by (subst show_nat.simps) simp
    with less.IH [of "n div 10"] False show ?thesis
      by (auto simp: isdigit_char_of digits_val_snoc)
  qed
qed

lemma show_nat_inj: "show_nat m = show_nat n \<Longrightarrow> m = n"
  using show_nat_ok by metis

lemma minus_no_digit [simp]: "\<not> isdigit (CHR ''-'')"
  by (simp add: isdigit_def)

lemma show_int_inj: "show_int i = show_int j \<Longrightarrow> i = j"
proof -
  assume e: "show_int i = show_int j"
  have d: "show_nat n \<noteq> CHR ''-'' # show_nat m" for n m
    using show_nat_ok [of n] minus_no_digit by (metis list.set_intros(1))
  consider "i < 0" "j < 0" | "0 \<le> i" "0 \<le> j" | "i < 0" "0 \<le> j" | "0 \<le> i" "j < 0" by linarith
  then show ?thesis
  proof cases
    case 1
    then have "show_nat (nat (- i)) = show_nat (nat (- j))" using e by (simp add: show_int_def)
    with 1 show ?thesis using show_nat_inj by fastforce
  next
    case 2
    then have "show_nat (nat i) = show_nat (nat j)" using e by (simp add: show_int_def)
    with 2 show ?thesis using show_nat_inj by fastforce
  qed (use e d in \<open>simp_all add: show_int_def\<close>, metis+)
qed

lemma show_int_chars: "c \<in> set (show_int i) \<Longrightarrow> isdigit c \<or> c = CHR ''-''"
  using show_nat_ok by (auto simp: show_int_def split: if_splits)

text \<open>A separator that no component contains splits a joined key uniquely.\<close>

lemma append_sep_inj:
  assumes "s \<notin> set xs" "s \<notin> set ys" "xs @ s # r = ys @ s # t"
  shows "xs = ys \<and> r = t"
  using assms by (induction xs arbitrary: ys) (auto simp: Cons_eq_append_conv append_eq_Cons_conv)

section \<open>Machines\<close>

text \<open>
  Components whose operations are steps that return a new state and a list of outputs. \<open>ok s (s', out)\<close>
  is a claim about a step or a run from \<open>s\<close>; a claim that composes holds of runs if it holds of steps.
  A step of a partial machine may be undefined, and a run with such a step is.
\<close>

locale partial_machine =
  fixes step :: "'e \<Rightarrow> 's \<Rightarrow> ('s \<times> 'o list) option"
    and run :: "'e list \<Rightarrow> 's \<Rightarrow> ('s \<times> 'o list) option"
  assumes run_Nil: "run [] s = Some (s, [])"
    and run_Cons: "run (e # es) s =
      (case step e s of None \<Rightarrow> None
       | Some (s1, o1) \<Rightarrow> (case run es s1 of None \<Rightarrow> None | Some (s2, o2) \<Rightarrow> Some (s2, o1 @ o2)))"
begin

lemma run_ok:
  assumes refl: "\<And>s. legal s \<Longrightarrow> ok s (s, [])"
    and trans: "\<And>s s1 o1 s2 o2. ok s (s1, o1) \<Longrightarrow> ok s1 (s2, o2) \<Longrightarrow> ok s (s2, o1 @ o2)"
    and legal: "\<And>s s1 o1. ok s (s1, o1) \<Longrightarrow> legal s1"
    and step: "\<And>e s r. legal s \<Longrightarrow> step e s = Some r \<Longrightarrow> ok s r"
  shows "legal s \<Longrightarrow> run es s = Some r \<Longrightarrow> ok s r"
proof (induction es arbitrary: s r)
  case Nil
  then show ?case using refl by (auto simp: run_Nil)
next
  case (Cons e es)
  from Cons.prems(2) obtain s1 o1 s2 o2 where
    a: "step e s = Some (s1, o1)" "run es s1 = Some (s2, o2)" "r = (s2, o1 @ o2)"
    by (auto simp: run_Cons split: option.splits)
  have f: "ok s (s1, o1)" by (rule step [OF Cons.prems(1) a(1)])
  from trans [OF f Cons.IH [OF legal [OF f] a(2)]] a(3) show ?case by simp
qed

lemma run_append:
  "run (es @ fs) s = (case run es s of None \<Rightarrow> None
     | Some (s1, o1) \<Rightarrow> (case run fs s1 of None \<Rightarrow> None | Some (s2, o2) \<Rightarrow> Some (s2, o1 @ o2)))"
  by (induction es arbitrary: s) (auto simp: run_Nil run_Cons split: option.splits)

end

locale machine =
  fixes step :: "'e \<Rightarrow> 's \<Rightarrow> 's \<times> 'o list"
    and run :: "'e list \<Rightarrow> 's \<Rightarrow> 's \<times> 'o list"
  assumes run_Nil: "run [] s = (s, [])"
    and run_Cons: "run (e # es) s = (let (s1, o1) = step e s; (s2, o2) = run es s1 in (s2, o1 @ o2))"

sublocale machine \<subseteq> partial: partial_machine "\<lambda>e s. Some (step e s)" "\<lambda>es s. Some (run es s)"
  by unfold_locales (auto simp: run_Nil run_Cons split: prod.splits)

context machine
begin

lemma run_ok:
  assumes "\<And>s. legal s \<Longrightarrow> ok s (s, [])"
    and "\<And>s s1 o1 s2 o2. ok s (s1, o1) \<Longrightarrow> ok s1 (s2, o2) \<Longrightarrow> ok s (s2, o1 @ o2)"
    and "\<And>s s1 o1. ok s (s1, o1) \<Longrightarrow> legal s1"
    and "\<And>e s. legal s \<Longrightarrow> ok s (step e s)"
    and "legal s"
  shows "ok s (run es s)"
proof (rule partial.run_ok [of legal ok])
  show "ok t r" if "legal t" "Some (step e t) = Some r" for e t r using assms(4) [OF that(1), of e] that(2) by simp
qed (use assms in auto)

lemma run_append: "run (es @ fs) s = (let (s1, o1) = run es s; (s2, o2) = run fs s1 in (s2, o1 @ o2))"
  using partial.run_append [of es fs s] by (auto split: prod.splits)

end

text \<open>Callbacks called one after the other while an operation runs.\<close>

fun deliver :: "('e \<Rightarrow> 's \<Rightarrow> 's \<times> 'o list) \<Rightarrow> 'e list \<Rightarrow> 's \<Rightarrow> 's \<times> 'o list" where
  "deliver callback [] s = (s, [])"
| "deliver callback (e # es) s =
     (let (s1, o1) = callback e s; (s2, o2) = deliver callback es s1 in (s2, o1 @ o2))"

interpretation callbacks: machine callback "deliver callback" for callback
  by unfold_locales simp_all

end
