(* ===== verification/Floats.thy ===== *)
theory Floats
  imports Prelude Complex_Main "HOL-Library.Log_Nat"
begin

text \<open>
  IEEE binary floating point as the C++ code uses it: finite values are exact rationals,
  every arithmetic result is rounded to the nearest representable value (ties to even) with
  the format's precision and least exponent, and results beyond the largest finite value
  become infinite. The two zeros are one value: no output of the modelled code depends on
  the sign of a zero.
\<close>

section \<open>Binary exponents\<close>

definition ilog2 :: "rat \<Rightarrow> int" where
  "ilog2 q = (case quotient_of q of (a, b) \<Rightarrow>
     let k = bitlen a - bitlen b in if 2 powi k \<le> q then k else k - 1)"

lemma bitlen_powi:
  assumes "0 < a"
  shows "2 powi (bitlen a - 1) \<le> (of_int a :: rat)" "(of_int a :: rat) < 2 powi bitlen a"
proof -
  have p: "0 < bitlen a" using assms bitlen_eq_zero_iff [of a] bitlen_nonneg [of a] by linarith
  have "2 ^ nat (bitlen a - 1) \<le> a" and "a < 2 ^ nat (bitlen a)"
    using bitlen_bounds [OF assms] by simp_all
  then have "(of_int (2 ^ nat (bitlen a - 1)) :: rat) \<le> of_int a"
    and "(of_int a :: rat) < of_int (2 ^ nat (bitlen a))"
    by (simp_all only: of_int_le_iff of_int_less_iff)
  with p show "2 powi (bitlen a - 1) \<le> (of_int a :: rat)" "(of_int a :: rat) < 2 powi bitlen a"
    by (simp_all add: power_int_nonneg_exp)
qed

lemma powi_diff: "(2 :: rat) powi (m - n) = 2 powi m / 2 powi n"
  by (simp add: power_int_diff)

lemma powi_pos [simp]: "0 < (2 :: rat) powi n"
  by (rule zero_less_power_int) simp

lemma powi_mono: "m \<le> n \<Longrightarrow> (2 :: rat) powi m \<le> 2 powi n"
  by (rule power_int_increasing) simp_all

lemma powi_less_cancel: "(2 :: rat) powi m < 2 powi n \<Longrightarrow> m < n"
  using powi_mono [of n m] by linarith

lemma powi_Suc: "(2 :: rat) powi (n + 1) = 2 * 2 powi n"
  by (simp add: power_int_add)

lemma powi_int: "0 \<le> n \<Longrightarrow> \<exists>k. (2 :: rat) powi n = of_int k"
  by (rule exI [of _ "2 ^ nat n"]) (simp add: power_int_nonneg_exp)

lemma ilog2_bounds:
  assumes q: "0 < q"
  shows "2 powi ilog2 q \<le> q" "q < 2 powi (ilog2 q + 1)"
proof -
  obtain a b where ab: "quotient_of q = (a, b)" by (cases "quotient_of q")
  have b: "0 < b" by (rule quotient_of_denom_pos [OF ab])
  have qab: "q = of_int a / of_int b" by (rule quotient_of_div [OF ab])
  with q b have a: "0 < a" by (simp add: zero_less_divide_iff)
  let ?k = "bitlen a - bitlen b"
  have bp: "(0 :: rat) < of_int b" using b by simp
  have lo: "2 powi (?k - 1) \<le> q"
  proof -
    have "(2 :: rat) powi (?k - 1) * of_int b \<le> 2 powi (?k - 1) * 2 powi bitlen b"
      using bitlen_powi(2) [OF b] by (intro mult_left_mono) simp_all
    also have "\<dots> = 2 powi (bitlen a - 1)"
      by (simp add: power_int_add [symmetric])
    also have "\<dots> \<le> of_int a" by (rule bitlen_powi(1) [OF a])
    finally show ?thesis using bp by (simp add: qab pos_le_divide_eq)
  qed
  have hi: "q < 2 powi (?k + 1)"
  proof -
    have "of_int a < (2 :: rat) powi bitlen a" by (rule bitlen_powi(2) [OF a])
    also have "\<dots> = 2 powi (?k + 1) * 2 powi (bitlen b - 1)"
      by (simp add: power_int_add [symmetric])
    also have "\<dots> \<le> 2 powi (?k + 1) * of_int b"
      using bitlen_powi(1) [OF b] by (intro mult_left_mono) simp_all
    finally show ?thesis using bp by (simp add: qab pos_divide_less_eq)
  qed
  show "2 powi ilog2 q \<le> q" "q < 2 powi (ilog2 q + 1)"
    using lo hi by (auto simp: ilog2_def ab Let_def)
qed

lemma ilog2_mono:
  assumes "0 < p" "p \<le> q"
  shows "ilog2 p \<le> ilog2 q"
proof -
  have "2 powi ilog2 p \<le> p" by (rule ilog2_bounds(1) [OF assms(1)])
  also have "p \<le> q" by (rule assms(2))
  also have "q < 2 powi (ilog2 q + 1)" using ilog2_bounds(2) [of q] assms by simp
  finally show ?thesis using powi_less_cancel by force
qed

section \<open>Rounding to an integer\<close>

definition rne :: "rat \<Rightarrow> int" where
  "rne x = (let f = \<lfloor>x\<rfloor>; d = x - of_int f in
     if d < 1/2 then f else if 1/2 < d then f + 1 else if even f then f else f + 1)"

lemma rne_of_int [simp]: "rne (of_int k) = k"
  by (simp add: rne_def)

lemma rne_floor: "rne x = \<lfloor>x\<rfloor> \<or> rne x = \<lfloor>x\<rfloor> + 1"
  by (simp add: rne_def Let_def)

lemma rne_near: "\<bar>of_int (rne x) - x\<bar> \<le> 1/2"
proof -
  have "of_int \<lfloor>x\<rfloor> \<le> x" "x < of_int \<lfloor>x\<rfloor> + 1" by linarith+
  then show ?thesis unfolding rne_def Let_def abs_if
    by (simp only: split: if_splits) (intro conjI impI; simp; linarith)
qed

lemma rne_mono:
  assumes "x \<le> y"
  shows "rne x \<le> rne y"
proof (cases "\<lfloor>x\<rfloor> = \<lfloor>y\<rfloor>")
  case True
  with assms show ?thesis by (auto simp: rne_def Let_def)
next
  case False
  moreover have "\<lfloor>x\<rfloor> \<le> \<lfloor>y\<rfloor>" using assms by (rule floor_mono)
  ultimately have "\<lfloor>x\<rfloor> + 1 \<le> \<lfloor>y\<rfloor>" by simp
  with rne_floor [of x] rne_floor [of y] show ?thesis by linarith
qed

lemma rne_uminus: "rne (- x) = - rne x"
proof (cases "x = of_int \<lfloor>x\<rfloor>")
  case True
  then show ?thesis by (metis rne_of_int of_int_minus)
next
  case False
  then have f: "\<lfloor>- x\<rfloor> = - \<lfloor>x\<rfloor> - 1" by linarith
  show ?thesis by (auto simp: rne_def Let_def f)
qed

text \<open>\<open>std::lround\<close>, \<open>std::round\<close>: halves away from zero. \<open>static_cast<int>\<close>: truncation.\<close>

definition lround :: "rat \<Rightarrow> int" where
  "lround x = (if 0 \<le> x then \<lfloor>x + 1/2\<rfloor> else - \<lfloor>- x + 1/2\<rfloor>)"

definition trunc :: "rat \<Rightarrow> int" where
  "trunc x = (if 0 \<le> x then \<lfloor>x\<rfloor> else - \<lfloor>- x\<rfloor>)"

lemma lround_mono: "x \<le> y \<Longrightarrow> lround x \<le> lround y"
  unfolding lround_def by (auto simp: floor_mono) linarith

lemma lround_of_int [simp]: "lround (of_int k) = k"
  by (auto simp: lround_def) linarith+

lemma lround_uminus: "lround (- x) = - lround x"
proof -
  have "\<lfloor>1 / 2 :: rat\<rfloor> = 0" by linarith
  then show ?thesis by (auto simp: lround_def)
qed

lemma lround_near: "\<bar>of_int (lround x) - x\<bar> \<le> 1/2"
  unfolding lround_def by (auto simp: abs_if) linarith+

lemma trunc_mono: "x \<le> y \<Longrightarrow> trunc x \<le> trunc y"
proof -
  assume xy: "x \<le> y"
  show "trunc x \<le> trunc y"
  proof (cases "x < 0 \<and> 0 \<le> y")
    case True
    then have "trunc x = - \<lfloor>- x\<rfloor>" "trunc y = \<lfloor>y\<rfloor>" by (simp_all add: trunc_def)
    moreover have "0 \<le> \<lfloor>- x\<rfloor>" "0 \<le> \<lfloor>y\<rfloor>" using True by simp_all
    ultimately show ?thesis by linarith
  next
    case False
    with xy show ?thesis by (auto simp: trunc_def floor_mono)
  qed
qed

lemma trunc_of_int [simp]: "trunc (of_int k) = k"
  by (auto simp: trunc_def)

lemma trunc_uminus: "trunc (- x) = - trunc x"
  by (auto simp: trunc_def)

lemma trunc_near: "\<bar>of_int (trunc x) - x\<bar> < 1"
  unfolding trunc_def abs_if by auto linarith+

section \<open>Rounding to a format\<close>

text \<open>\<open>fl p e\<close> rounds to \<open>p\<close> significant bits with least exponent \<open>e\<close>.\<close>

definition ulp_exp :: "nat \<Rightarrow> int \<Rightarrow> rat \<Rightarrow> int" where
  "ulp_exp p emin q = max emin (ilog2 \<bar>q\<bar> - (int p - 1))"

definition fl :: "nat \<Rightarrow> int \<Rightarrow> rat \<Rightarrow> rat" where
  "fl p emin q = (if q = 0 then 0
     else let e = ulp_exp p emin q in of_int (rne (q / 2 powi e)) * 2 powi e)"

lemma fl_zero [simp]: "fl p emin 0 = 0"
  by (simp add: fl_def)

lemma fl_uminus: "fl p emin (- q) = - fl p emin q"
  by (simp add: fl_def ulp_exp_def Let_def rne_uminus)

lemma ulp_exp_mono: "0 < x \<Longrightarrow> x \<le> y \<Longrightarrow> ulp_exp p emin x \<le> ulp_exp p emin y"
  using ilog2_mono [of x y] by (auto simp: ulp_exp_def)

lemma fl_nonneg: "0 \<le> q \<Longrightarrow> 0 \<le> fl p emin q"
  using rne_mono [of 0 "q / 2 powi ulp_exp p emin q"] rne_of_int [of 0]
  by (auto simp: fl_def Let_def)

lemma fl_mono_pos:
  assumes x: "0 < x" and xy: "x \<le> y" and p: "1 \<le> p"
  shows "fl p emin x \<le> fl p emin y"
proof -
  let ?e1 = "ulp_exp p emin x" and ?e2 = "ulp_exp p emin y"
  have le: "?e1 \<le> ?e2" by (rule ulp_exp_mono [OF x xy])
  show ?thesis
  proof (cases "?e1 = ?e2")
    case True
    have "x / 2 powi ?e1 \<le> y / 2 powi ?e1" using xy by (simp add: divide_right_mono)
    then have "rne (x / 2 powi ?e1) \<le> rne (y / 2 powi ?e1)" by (rule rne_mono)
    with True x xy show ?thesis by (simp add: fl_def Let_def mult_right_mono)
  next
    case False
    with le have lt: "?e1 < ?e2" by simp
    then have e2: "?e2 = ilog2 y - (int p - 1)"
      using x xy by (auto simp: ulp_exp_def)
    let ?t = "ilog2 y"
    have "ilog2 x - (int p - 1) \<le> ?e1" using x by (simp add: ulp_exp_def)
    with lt e2 have lx: "ilog2 x + 1 \<le> ?t" by linarith
    have "x < 2 powi (ilog2 x + 1)" by (rule ilog2_bounds(2) [OF x])
    also have "\<dots> \<le> 2 powi ?t" by (rule powi_mono [OF lx])
    finally have xt: "x \<le> 2 powi ?t" by simp
    obtain k where k: "(2 :: rat) powi (?t - ?e1) = of_int k"
      using powi_int [of "?t - ?e1"] lt e2 p by auto
    have "rne (x / 2 powi ?e1) \<le> rne (2 powi (?t - ?e1))"
      using xt by (intro rne_mono) (simp add: powi_diff divide_right_mono)
    then have "of_int (rne (x / 2 powi ?e1)) \<le> (2 :: rat) powi (?t - ?e1)"
      by (simp add: k)
    then have "of_int (rne (x / 2 powi ?e1)) * 2 powi ?e1 \<le> (2 :: rat) powi (?t - ?e1) * 2 powi ?e1"
      by (rule mult_right_mono) simp
    also have "\<dots> = 2 powi ?t" by (simp add: power_int_add [symmetric])
    finally have a: "fl p emin x \<le> 2 powi ?t" using x by (simp add: fl_def Let_def)
    obtain l where l: "(2 :: rat) powi (int p - 1) = of_int l"
      using powi_int [of "int p - 1"] p by auto
    have "2 powi ?t \<le> y" using ilog2_bounds(1) [of y] x xy by simp
    then have "2 powi ?t / 2 powi ?e2 \<le> y / 2 powi ?e2" by (simp add: divide_right_mono)
    then have "2 powi (int p - 1) \<le> y / 2 powi ?e2" by (simp add: powi_diff [symmetric] e2)
    then have "l \<le> rne (y / 2 powi ?e2)" using rne_mono [of "of_int l"] by (simp add: l)
    then have "2 powi (int p - 1) \<le> (of_int (rne (y / 2 powi ?e2)) :: rat)" by (simp add: l)
    then have "2 powi (int p - 1) * 2 powi ?e2 \<le> of_int (rne (y / 2 powi ?e2)) * (2 :: rat) powi ?e2"
      by (rule mult_right_mono) simp
    then have "2 powi ?t \<le> fl p emin y"
      using x xy by (simp add: fl_def Let_def power_int_add [symmetric] e2)
    with a show ?thesis by simp
  qed
qed

lemma fl_mono: "x \<le> y \<Longrightarrow> 1 \<le> p \<Longrightarrow> fl p emin x \<le> fl p emin y"
proof -
  assume xy: "x \<le> y" and p: "1 \<le> p"
  consider "0 < x" | "y < 0" | "x \<le> 0" "0 \<le> y" by linarith
  then show ?thesis
  proof cases
    case 1
    then show ?thesis by (rule fl_mono_pos [OF _ xy p])
  next
    case 2
    then have "fl p emin (- y) \<le> fl p emin (- x)" using xy p by (intro fl_mono_pos) simp_all
    then show ?thesis by (simp add: fl_uminus)
  next
    case 3
    then have "0 \<le> fl p emin y" "0 \<le> fl p emin (- x)" by (simp_all add: fl_nonneg)
    then show ?thesis by (simp add: fl_uminus)
  qed
qed

text \<open>Values with at most \<open>p\<close> significant bits above the least exponent are kept.\<close>

lemma fl_exact_pos:
  assumes m: "0 < m" "m \<le> 2 ^ p" and e: "emin \<le> e" and p: "1 \<le> p"
  shows "fl p emin (of_int m * 2 powi e) = of_int m * 2 powi e"
proof -
  let ?q = "of_int m * 2 powi e :: rat"
  let ?u = "ulp_exp p emin ?q"
  have q: "0 < ?q" using m by simp
  have "\<exists>k. ?q / 2 powi ?u = of_int k"
  proof (cases "?u \<le> e")
    case True
    then obtain k where "(2 :: rat) powi (e - ?u) = of_int k" using powi_int [of "e - ?u"] by auto
    then have "?q / 2 powi ?u = of_int (m * k)" by (simp add: powi_diff [symmetric] flip: times_divide_eq_right)
    then show ?thesis by blast
  next
    case False
    then have u: "?u = ilog2 ?q - (int p - 1)" using e q by (simp add: ulp_exp_def)
    have "2 powi ilog2 ?q \<le> ?q" by (rule ilog2_bounds(1) [OF q])
    also have "\<dots> \<le> of_int (2 ^ p) * 2 powi e" using m by (intro mult_right_mono) (simp_all only: of_int_le_iff, simp)
    also have "\<dots> = 2 powi (int p + e)" by (simp add: power_int_add)
    finally have up: "2 powi ilog2 ?q \<le> (2 :: rat) powi (int p + e)" .
    have "ilog2 ?q < int p + e + 1"
      by (rule powi_less_cancel, rule le_less_trans [OF up]) (simp add: powi_Suc)
    with False u have top: "ilog2 ?q = int p + e" by linarith
    with up ilog2_bounds(1) [OF q] have "2 powi (int p + e) \<le> ?q" by simp
    moreover have "?q \<le> of_int (2 ^ p) * 2 powi e" using m by (intro mult_right_mono) (simp_all only: of_int_le_iff, simp)
    ultimately have "?q = 2 powi (int p + e)" by (simp add: power_int_add)
    then have "?q / 2 powi ?u = 2 powi (int p - 1)" using u top by (simp add: powi_diff [symmetric])
    then show ?thesis using powi_int [of "int p - 1"] p by auto
  qed
  then obtain k where k: "?q / 2 powi ?u = of_int k" by blast
  then have "?q = of_int k * 2 powi ?u" by (simp add: divide_eq_eq)
  then show ?thesis using q k by (simp add: fl_def Let_def)
qed

lemma fl_exact:
  assumes m: "\<bar>m\<bar> \<le> 2 ^ p" and e: "emin \<le> e" and p: "1 \<le> p"
  shows "fl p emin (of_int m * 2 powi e) = of_int m * 2 powi e"
proof -
  consider "0 < m" | "m = 0" | "0 < - m" by linarith
  then show ?thesis
  proof cases
    case 1
    with m show ?thesis by (intro fl_exact_pos [OF _ _ e p]) simp_all
  next
    case 2
    then show ?thesis by simp
  next
    case 3
    have "fl p emin (of_int (- m) * 2 powi e) = of_int (- m) * 2 powi e"
      using 3 m by (intro fl_exact_pos [OF _ _ e p]) simp_all
    then show ?thesis using fl_uminus [of p emin "of_int m * 2 powi e"] by simp
  qed
qed

lemma fl_int: "\<bar>m\<bar> \<le> 2 ^ p \<Longrightarrow> emin \<le> 0 \<Longrightarrow> 1 \<le> p \<Longrightarrow> fl p emin (of_int m) = of_int m"
  using fl_exact [of m p emin 0] by simp

section \<open>The interface of a rounding operator\<close>

text \<open>
  What the coordinate and scroll conversions rely on: rounding keeps the order, keeps the
  integers of the format, and is odd.
\<close>

locale rounding =
  fixes rnd :: "rat \<Rightarrow> rat" and limit :: int
  assumes rnd_mono: "x \<le> y \<Longrightarrow> rnd x \<le> rnd y"
    and rnd_int: "\<bar>m\<bar> \<le> limit \<Longrightarrow> rnd (of_int m) = of_int m"
    and rnd_odd: "rnd (- x) = - rnd x"
begin

lemma rnd_le_int: "x \<le> of_int m \<Longrightarrow> \<bar>m\<bar> \<le> limit \<Longrightarrow> rnd x \<le> of_int m"
  using rnd_mono [of x "of_int m"] rnd_int [of m] by simp

lemma rnd_ge_int: "of_int m \<le> x \<Longrightarrow> \<bar>m\<bar> \<le> limit \<Longrightarrow> of_int m \<le> rnd x"
  using rnd_mono [of "of_int m" x] rnd_int [of m] by simp

text \<open>A share of a positive length, rounded, stays within the length.\<close>

lemma scaled_within:
  assumes "0 \<le> x" "x \<le> 1" "0 \<le> n" "n \<le> limit"
  shows "0 \<le> rnd (x * of_int n)" "rnd (x * of_int n) \<le> of_int n"
proof -
  have "of_int 0 \<le> x * of_int n" using assms by simp
  then show "0 \<le> rnd (x * of_int n)" using rnd_ge_int [of 0 "x * of_int n"] assms by simp
  have "x * of_int n \<le> of_int n" using assms by (simp add: mult_left_le_one_le)
  then show "rnd (x * of_int n) \<le> of_int n" using rnd_le_int [of "x * of_int n" n] assms by simp
qed

lemma scaled_lround_within:
  assumes "0 \<le> x" "x \<le> 1" "0 \<le> n" "n \<le> limit"
  shows "0 \<le> lround (rnd (x * of_int n))" "lround (rnd (x * of_int n)) \<le> n"
  using lround_mono [OF scaled_within(1) [OF assms]] lround_mono [OF scaled_within(2) [OF assms]]
    lround_of_int [of 0] lround_of_int [of n] by simp_all

end

interpretation fl64: rounding "fl 53 (-1074)" "2 ^ 53"
  by unfold_locales (auto simp: fl_mono fl_int fl_uminus)

interpretation fl32: rounding "fl 24 (-149)" "2 ^ 24"
  by unfold_locales (auto simp: fl_mono fl_int fl_uminus)

section \<open>Values of type double and float\<close>

datatype dbl = Fin rat | PInf | NInf | NaN

definition is_finite :: "dbl \<Rightarrow> bool" where
  "is_finite d = (case d of Fin _ \<Rightarrow> True | _ \<Rightarrow> False)"

definition to_double :: "rat \<Rightarrow> dbl" where
  "to_double q = (let r = fl 53 (-1074) q in
     if 2 ^ 1024 \<le> r then PInf else if r \<le> - (2 ^ 1024) then NInf else Fin r)"

definition to_float :: "rat \<Rightarrow> dbl" where
  "to_float q = (let r = fl 24 (-149) q in
     if 2 ^ 128 \<le> r then PInf else if r \<le> - (2 ^ 128) then NInf else Fin r)"

text \<open>Comparison is false whenever a NaN takes part.\<close>

fun dlt :: "dbl \<Rightarrow> dbl \<Rightarrow> bool" where
  "dlt (Fin x) (Fin y) = (x < y)"
| "dlt NaN _ = False"
| "dlt _ NaN = False"
| "dlt PInf _ = False"
| "dlt _ NInf = False"
| "dlt _ PInf = True"
| "dlt NInf _ = True"

text \<open>\<open>std::clamp (v, lo, hi)\<close> is \<open>v < lo ? lo : hi < v ? hi : v\<close>.\<close>

definition dclamp :: "dbl \<Rightarrow> dbl \<Rightarrow> dbl \<Rightarrow> dbl" where
  "dclamp v lo hi = (if dlt v lo then lo else if dlt hi v then hi else v)"

definition qclamp :: "rat \<Rightarrow> rat \<Rightarrow> rat \<Rightarrow> rat" where
  "qclamp v lo hi = (if v < lo then lo else if hi < v then hi else v)"

lemma dclamp_Fin [simp]: "dclamp (Fin v) (Fin lo) (Fin hi) = Fin (qclamp v lo hi)"
  by (simp add: dclamp_def qclamp_def)

lemma qclamp_bounds: "lo \<le> hi \<Longrightarrow> lo \<le> qclamp v lo hi \<and> qclamp v lo hi \<le> hi"
  by (auto simp: qclamp_def)

lemma qclamp_odd: "0 \<le> b \<Longrightarrow> qclamp (- v) (- b) b = - qclamp v (- b) b"
  by (auto simp: qclamp_def)

lemma qclamp_id: "lo \<le> v \<Longrightarrow> v \<le> hi \<Longrightarrow> qclamp v lo hi = v"
  by (simp add: qclamp_def)

lemma qclamp_mono: "v \<le> w \<Longrightarrow> lo \<le> hi \<Longrightarrow> qclamp v lo hi \<le> qclamp w lo hi"
  by (auto simp: qclamp_def)

text \<open>Multiplication by \<open>1.0\<close> or \<open>-1.0\<close> is exact.\<close>

definition dneg :: "dbl \<Rightarrow> dbl" where
  "dneg d = (case d of Fin x \<Rightarrow> Fin (- x) | PInf \<Rightarrow> NInf | NInf \<Rightarrow> PInf | NaN \<Rightarrow> NaN)"

fun dmul :: "dbl \<Rightarrow> dbl \<Rightarrow> dbl" where
  "dmul (Fin x) (Fin y) = to_double (x * y)"
| "dmul NaN _ = NaN"
| "dmul _ NaN = NaN"
| "dmul (Fin x) d = (if x = 0 then NaN else if 0 < x then d else dneg d)"
| "dmul d (Fin x) = (if x = 0 then NaN else if 0 < x then d else dneg d)"
| "dmul PInf d = d"
| "dmul NInf d = dneg d"

fun dadd :: "dbl \<Rightarrow> dbl \<Rightarrow> dbl" where
  "dadd (Fin x) (Fin y) = to_double (x + y)"
| "dadd NaN _ = NaN"
| "dadd _ NaN = NaN"
| "dadd PInf NInf = NaN"
| "dadd NInf PInf = NaN"
| "dadd (Fin _) d = d"
| "dadd d _ = d"

definition dsub :: "dbl \<Rightarrow> dbl \<Rightarrow> dbl" where
  "dsub a b = dadd a (dneg b)"

text \<open>
  \<open>std::lround\<close> and the truncating cast have no defined result outside the finite values:
  \<open>None\<close>.
\<close>

definition dlround :: "dbl \<Rightarrow> int option" where
  "dlround d = (case d of Fin x \<Rightarrow> Some (lround x) | _ \<Rightarrow> None)"

definition dtrunc :: "dbl \<Rightarrow> int option" where
  "dtrunc d = (case d of Fin x \<Rightarrow> Some (trunc x) | _ \<Rightarrow> None)"

lemma to_double_Fin:
  assumes "\<bar>q\<bar> \<le> 2 powi 1023"
  shows "to_double q = Fin (fl 53 (-1074) q)"
proof -
  have e: "fl 53 (-1074) (2 powi 1023) = 2 powi 1023" using fl_exact [of 1 53 "-1074" 1023] by simp
  have "q \<le> 2 powi 1023" "- (2 powi 1023) \<le> q" using assms by linarith+
  then have "fl 53 (-1074) q \<le> 2 powi 1023" "- (2 powi 1023) \<le> fl 53 (-1074) q"
    using fl64.rnd_mono [of q "2 powi 1023"] fl64.rnd_mono [of "- (2 powi 1023)" q]
    by (simp_all only: e fl_uminus)
  moreover have "(2 :: rat) powi 1023 < 2 ^ 1024" by simp
  ultimately have "\<not> 2 ^ 1024 \<le> fl 53 (-1074) q" "\<not> fl 53 (-1074) q \<le> - (2 ^ 1024)"
    by linarith+
  then show ?thesis by (simp only: to_double_def Let_def if_False)
qed

lemma to_double_small: "\<bar>q\<bar> \<le> 2 ^ 64 \<Longrightarrow> to_double q = Fin (fl 53 (-1074) q)"
proof (rule to_double_Fin)
  assume "\<bar>q\<bar> \<le> 2 ^ 64"
  also have "(2 :: rat) ^ 64 \<le> 2 powi 1023" by simp
  finally show "\<bar>q\<bar> \<le> 2 powi 1023" .
qed

text \<open>A finite double is a value that rounding keeps.\<close>

definition representable :: "rat \<Rightarrow> bool" where
  "representable q \<longleftrightarrow> fl 53 (-1074) q = q \<and> \<bar>q\<bar> < 2 ^ 1024"

lemma representable_int: "\<bar>m\<bar> \<le> 2 ^ 53 \<Longrightarrow> representable (of_int m)"
proof -
  assume m: "\<bar>m\<bar> \<le> 2 ^ 53"
  then have "\<bar>of_int m :: rat\<bar> \<le> 2 ^ 53"
    using of_int_le_iff [of "\<bar>m\<bar>" "2 ^ 53", where ?'a = rat] by simp
  also have "(2 :: rat) ^ 53 < 2 ^ 1024" by simp
  finally show ?thesis using fl64.rnd_int [OF m] by (simp add: representable_def)
qed

lemma representable_uminus: "representable (- q) \<longleftrightarrow> representable q"
  by (simp add: representable_def fl_uminus)

lemma to_double_representable: "representable q \<Longrightarrow> to_double q = Fin q"
  unfolding representable_def to_double_def Let_def abs_if by (auto split: if_splits)

text \<open>Rounding a value below two moves it by at most \<open>2 ^ -52\<close>.\<close>

lemma fl_err:
  assumes "q \<noteq> 0"
  shows "\<bar>fl p emin q - q\<bar> \<le> 2 powi ulp_exp p emin q / 2"
proof -
  let ?e = "2 powi ulp_exp p emin q :: rat"
  have "fl p emin q - q = (of_int (rne (q / ?e)) - q / ?e) * ?e"
    using assms by (simp add: fl_def Let_def algebra_simps)
  then have "\<bar>fl p emin q - q\<bar> = \<bar>of_int (rne (q / ?e)) - q / ?e\<bar> * ?e"
    by (simp add: abs_mult)
  also have "\<dots> \<le> 1 / 2 * ?e"
    by (rule mult_right_mono [OF rne_near]) simp
  finally show ?thesis by simp
qed

lemma fl_err_below:
  assumes "\<bar>q\<bar> < 2 powi n" "-1021 \<le> n"
  shows "\<bar>fl 53 (-1074) q - q\<bar> \<le> 2 powi (n - 54)"
proof (cases "q = 0")
  case True
  then show ?thesis by simp
next
  case False
  then have "2 powi ilog2 \<bar>q\<bar> \<le> \<bar>q\<bar>" using ilog2_bounds(1) [of "\<bar>q\<bar>"] by simp
  also have "\<dots> < 2 powi n" by (rule assms(1))
  finally have "ilog2 \<bar>q\<bar> < n" by (rule powi_less_cancel)
  then have "ulp_exp 53 (-1074) q \<le> n - 53" using assms(2) by (simp add: ulp_exp_def)
  then have "2 powi ulp_exp 53 (-1074) q / 2 \<le> (2 powi (n - 53) / 2 :: rat)"
    by (intro divide_right_mono powi_mono) simp_all
  also have "\<dots> = (2 :: rat) powi (n - 54)" using powi_Suc [of "n - 54"] by simp
  finally show ?thesis using fl_err [OF False, of 53 "-1074"] by linarith
qed

lemma trunc_le: "0 \<le> x \<Longrightarrow> of_int (trunc x) \<le> x \<and> x < of_int (trunc x) + 1"
  unfolding trunc_def by (simp, linarith)

text \<open>\<open>std::abs\<close> and \<open>std::copysign\<close> with a finite second argument.\<close>

definition dabs :: "dbl \<Rightarrow> dbl" where
  "dabs d = (case d of Fin x \<Rightarrow> Fin \<bar>x\<bar> | PInf \<Rightarrow> PInf | NInf \<Rightarrow> PInf | NaN \<Rightarrow> NaN)"

definition dcopysign :: "dbl \<Rightarrow> dbl \<Rightarrow> dbl" where
  "dcopysign a s = (if dlt s (Fin 0) then dneg (dabs a) else dabs a)"

end
