(* ===== verification/Coords.thy ===== *)
theory Coords
  imports Floats
begin

text \<open>
  Where the remote pointer lands: \<open>pointer_coordinates.h\<close>, the
  monitor lookup and the \<open>adjust_to_*\<close> functions of \<open>windows/hardware_simulator_plugin.cpp\<close>.
  \<open>LONG\<close> values are integers of 32 bits. C++ leaves it undefined when a difference of two overflows;
  the model lets it wrap, as the compilers for Windows do, and the theorems assume rectangles whose
  lengths are \<open>LONG\<close>s, which excludes it.
\<close>

section \<open>Rectangles and monitors\<close>

record rect =
  r_left :: int
  r_top :: int
  r_right :: int
  r_bottom :: int

record point =
  p_x :: int
  p_y :: int

record monitor_info =
  mi_rect :: rect
  mi_is_primary :: bool
  mi_screen_id :: int

definition MonitorRectForScreenId :: "monitor_info list \<Rightarrow> int \<Rightarrow> rect option" where
  "MonitorRectForScreenId monitors screen_id =
     (case find_index (\<lambda>info. mi_screen_id info = screen_id) monitors of
        None \<Rightarrow> None
      | Some i \<Rightarrow> Some (mi_rect (monitors ! i)))"

definition LONG :: "int \<Rightarrow> int" where
  "LONG k = signed_take_bit 31 k"

lemma LONG_id: "- (2 ^ 31) \<le> k \<Longrightarrow> k < 2 ^ 31 \<Longrightarrow> LONG k = k"
  by (simp add: LONG_def signed_take_bit_int_eq_self)

definition NormalizedPointOnMonitor :: "rect \<Rightarrow> dbl \<Rightarrow> dbl \<Rightarrow> point option" where
  "NormalizedPointOnMonitor monitor_rect x_percent y_percent =
     (if \<not> is_finite x_percent \<or> \<not> is_finite y_percent \<or>
         r_right monitor_rect \<le> r_left monitor_rect \<or>
         r_bottom monitor_rect \<le> r_top monitor_rect then None
      else
        let clamped_x = dclamp x_percent (Fin 0) (Fin 1);
            clamped_y = dclamp y_percent (Fin 0) (Fin 1);
            width = LONG (r_right monitor_rect - r_left monitor_rect);
            height = LONG (r_bottom monitor_rect - r_top monitor_rect)
        in case (dlround (dmul clamped_x (Fin (of_int (LONG (width - 1))))),
                 dlround (dmul clamped_y (Fin (of_int (LONG (height - 1)))))) of
             (Some dx, Some dy) \<Rightarrow>
               Some \<lparr>p_x = LONG (r_left monitor_rect + dx), p_y = LONG (r_top monitor_rect + dy)\<rparr>
           | _ \<Rightarrow> None)"

definition PointRelativeToVirtualDesktop :: "point \<Rightarrow> point \<Rightarrow> point" where
  "PointRelativeToVirtualDesktop pt origin =
     \<lparr>p_x = LONG (p_x pt - p_x origin), p_y = LONG (p_y pt - p_y origin)\<rparr>"

text \<open>
  The \<open>adjust\<close> functions report success and write their two out-parameters. The monitor list
  is \<open>static_monitors_\<close>; \<open>GetSystemMetrics\<close> and \<open>MulDiv\<close> belong to Windows and are arguments.
\<close>

record metrics =
  SM_XVIRTUALSCREEN :: int
  SM_YVIRTUALSCREEN :: int
  SM_CXVIRTUALSCREEN :: int
  SM_CYVIRTUALSCREEN :: int

definition adjust_to_screen ::
  "monitor_info list \<Rightarrow> int \<Rightarrow> dbl \<Rightarrow> dbl \<Rightarrow> bool \<times> point" where
  "adjust_to_screen monitors screen_id x_percent y_percent =
     (case MonitorRectForScreenId monitors screen_id of
        None \<Rightarrow> (False, \<lparr>p_x = 0, p_y = 0\<rparr>)
      | Some monitor_rect \<Rightarrow>
          (case NormalizedPointOnMonitor monitor_rect x_percent y_percent of
             None \<Rightarrow> (False, \<lparr>p_x = 0, p_y = 0\<rparr>)
           | Some pt \<Rightarrow> (True, pt)))"

definition PointerPointForScreen ::
  "monitor_info list \<Rightarrow> int \<Rightarrow> dbl \<Rightarrow> dbl \<Rightarrow> point option" where
  "PointerPointForScreen monitors screen_id x y =
     (let (ok, pt) = adjust_to_screen monitors screen_id x y in if ok then Some pt else None)"

definition adjust_to_virtual_desktop_pixels ::
  "metrics \<Rightarrow> monitor_info list \<Rightarrow> int \<Rightarrow> dbl \<Rightarrow> dbl \<Rightarrow> bool \<times> point" where
  "adjust_to_virtual_desktop_pixels sm monitors screen_id x_percent y_percent =
     (let (ok, pt) = adjust_to_screen monitors screen_id x_percent y_percent in
      if \<not> ok then (False, pt)
      else (True, PointRelativeToVirtualDesktop pt
                    \<lparr>p_x = SM_XVIRTUALSCREEN sm, p_y = SM_YVIRTUALSCREEN sm\<rparr>))"

definition adjust_to_virtual_desktop ::
  "(int \<Rightarrow> int \<Rightarrow> int \<Rightarrow> int) \<Rightarrow> metrics \<Rightarrow> monitor_info list \<Rightarrow> int \<Rightarrow> dbl \<Rightarrow> dbl \<Rightarrow> bool \<times> point" where
  "adjust_to_virtual_desktop MulDiv sm monitors screen_id x_percent y_percent =
     (let (ok, pt) = adjust_to_virtual_desktop_pixels sm monitors screen_id x_percent y_percent in
      if \<not> ok then (False, pt)
      else
        let virtual_width = max 1 (SM_CXVIRTUALSCREEN sm);
            virtual_height = max 1 (SM_CYVIRTUALSCREEN sm)
        in (True, \<lparr>p_x = MulDiv (p_x pt) 65535 (max 1 (virtual_width - 1)),
                   p_y = MulDiv (p_y pt) 65535 (max 1 (virtual_height - 1))\<rparr>))"

lemma MonitorRect_Some:
  "MonitorRectForScreenId ms i = Some r \<Longrightarrow>
     \<exists>m \<in> set ms. mi_screen_id m = i \<and> mi_rect m = r"
  by (auto simp: MonitorRectForScreenId_def split: option.splits dest!: find_index_Some
      intro: nth_mem)

lemma MonitorRect_None:
  "MonitorRectForScreenId ms i = None \<longleftrightarrow> (\<forall>m \<in> set ms. mi_screen_id m \<noteq> i)"
  by (auto simp: MonitorRectForScreenId_def find_index_None split: option.splits
      dest!: find_index_Some)

text \<open>A share of a 32-bit length: the product is finite and its rounding stays within it.\<close>

lemma scaled_share:
  assumes "0 \<le> n" "n < 2 ^ 32"
  shows "\<exists>k. dlround (dmul (Fin (qclamp x 0 1)) (Fin (of_int n))) = Some k \<and> 0 \<le> k \<and> k \<le> n"
proof -
  let ?q = "qclamp x 0 1"
  have q: "0 \<le> ?q" "?q \<le> 1" using qclamp_bounds [of 0 1 x] by simp_all
  have n: "(of_int n :: rat) \<le> 2 ^ 32" using assms of_int_le_iff [of n "2 ^ 32", where ?'a = rat] by simp
  have "0 \<le> ?q * of_int n" using q assms by simp
  moreover have "?q * of_int n \<le> of_int n" using q assms by (simp add: mult_left_le_one_le)
  ultimately have "\<bar>?q * of_int n\<bar> \<le> 2 ^ 64" using n by simp
  then have "dmul (Fin ?q) (Fin (of_int n)) = Fin (fl 53 (-1074) (?q * of_int n))"
    by (simp add: to_double_small)
  then show ?thesis
    using fl64.scaled_lround_within [OF q, of n] assms by (simp add: dlround_def)
qed

text \<open>The corners and the lengths of a rectangle are \<open>LONG\<close>s.\<close>

definition rect_fits :: "rect \<Rightarrow> bool" where
  "rect_fits r \<longleftrightarrow> - (2 ^ 31) \<le> r_left r \<and> r_right r < 2 ^ 31 \<and> - (2 ^ 31) \<le> r_top r \<and> r_bottom r < 2 ^ 31 \<and>
     r_right r - r_left r < 2 ^ 31 \<and> r_bottom r - r_top r < 2 ^ 31"

lemma NormalizedPoint_fits:
  assumes "rect_fits r" "r_left r < r_right r" "r_top r < r_bottom r"
  shows "NormalizedPointOnMonitor r (Fin x) (Fin y) =
    (case (dlround (dmul (Fin (qclamp x 0 1)) (Fin (of_int (r_right r - r_left r - 1)))),
           dlround (dmul (Fin (qclamp y 0 1)) (Fin (of_int (r_bottom r - r_top r - 1))))) of
       (Some dx, Some dy) \<Rightarrow> Some \<lparr>p_x = LONG (r_left r + dx), p_y = LONG (r_top r + dy)\<rparr>
     | _ \<Rightarrow> None)"
proof -
  have "LONG (LONG (r_right r - r_left r) - 1) = r_right r - r_left r - 1"
    "LONG (LONG (r_bottom r - r_top r) - 1) = r_bottom r - r_top r - 1"
    using assms by (simp_all add: rect_fits_def LONG_id)
  then show ?thesis
    using assms(2,3) by (simp add: NormalizedPointOnMonitor_def is_finite_def Let_def
        del: dmul.simps of_int_diff cong: option.case_cong)
qed

text \<open>The point a normalised position maps to is a pixel of the monitor.\<close>

lemma NormalizedPoint_pixel:
  assumes "NormalizedPointOnMonitor r x y = Some pt" "rect_fits r"
  shows "r_left r \<le> p_x pt \<and> p_x pt < r_right r \<and> r_top r \<le> p_y pt \<and> p_y pt < r_bottom r"
proof -
  obtain qx qy where q: "x = Fin qx" "y = Fin qy"
    using assms(1) by (cases x; cases y) (auto simp: NormalizedPointOnMonitor_def is_finite_def)
  have d: "r_left r < r_right r" "r_top r < r_bottom r"
    using assms(1) by (auto simp: NormalizedPointOnMonitor_def split: if_splits)
  note w = assms(2) [unfolded rect_fits_def]
  obtain kx where kx: "dlround (dmul (Fin (qclamp qx 0 1)) (Fin (of_int (r_right r - r_left r - 1)))) = Some kx"
      "0 \<le> kx" "kx \<le> r_right r - r_left r - 1"
    using scaled_share [of "r_right r - r_left r - 1" qx] d w by auto
  obtain ky where ky: "dlround (dmul (Fin (qclamp qy 0 1)) (Fin (of_int (r_bottom r - r_top r - 1)))) = Some ky"
      "0 \<le> ky" "ky \<le> r_bottom r - r_top r - 1"
    using scaled_share [of "r_bottom r - r_top r - 1" qy] d w by auto
  have "pt = \<lparr>p_x = LONG (r_left r + kx), p_y = LONG (r_top r + ky)\<rparr>"
    using assms(1) kx(1) ky(1) unfolding q NormalizedPoint_fits [OF assms(2) d] by simp
  moreover have "LONG (r_left r + kx) = r_left r + kx" "LONG (r_top r + ky) = r_top r + ky"
    using kx ky w by (simp_all add: LONG_id)
  ultimately show ?thesis using kx ky by simp
qed

lemma NormalizedPoint_defined:
  assumes "r_left r < r_right r" "r_top r < r_bottom r" "rect_fits r"
  shows "NormalizedPointOnMonitor r (Fin x) (Fin y) \<noteq> None"
  unfolding NormalizedPoint_fits [OF assms(3,1,2)]
  using scaled_share [of "r_right r - r_left r - 1" x] scaled_share [of "r_bottom r - r_top r - 1" y] assms
  by (auto simp: rect_fits_def simp del: dmul.simps)

text \<open>
  What Windows documents of \<open>MulDiv\<close>: the product divided by the third argument and rounded to
  the nearest integer, for operands whose quotient fits.
\<close>

definition MulDiv_rounds :: "(int \<Rightarrow> int \<Rightarrow> int \<Rightarrow> int) \<Rightarrow> bool" where
  "MulDiv_rounds MulDiv \<longleftrightarrow>
     (\<forall>a b c. 0 \<le> a \<and> a \<le> c \<and> 0 \<le> b \<and> b < 2 ^ 31 \<and> 0 < c \<and> c < 2 ^ 31 \<longrightarrow>
        2 * \<bar>MulDiv a b c * c - a * b\<bar> \<le> c)"

lemma MulDiv_range:
  assumes m: "MulDiv_rounds MulDiv" and a: "0 \<le> a" "a \<le> c" and c: "0 < c" "c < 2 ^ 31"
  shows "0 \<le> MulDiv a 65535 c \<and> MulDiv a 65535 c \<le> 65535"
proof -
  let ?m = "MulDiv a 65535 c"
  have r: "2 * \<bar>?m * c - a * 65535\<bar> \<le> c" using m a c unfolding MulDiv_rounds_def by simp
  define p where "p = ?m * c"
  have "2 * \<bar>p - a * 65535\<bar> \<le> c" using r by (simp only: p_def)
  then have "2 * (p - a * 65535) \<le> c" "2 * (a * 65535 - p) \<le> c" by presburger+
  then have "2 * p \<le> 2 * (65535 * c) + c" "- c \<le> 2 * p" using a by simp_all
  then have "2 * (?m * c) \<le> 2 * (65535 * c) + c" "- c \<le> 2 * (?m * c)" by (simp_all only: p_def)
  then have "(2 * ?m - 131071) * c \<le> 0" "0 \<le> (2 * ?m + 1) * c" by (simp_all add: algebra_simps)
  with c have "2 * ?m - 131071 \<le> 0" "0 \<le> 2 * ?m + 1"
    by (simp_all add: mult_le_0_iff zero_le_mult_iff)
  then show ?thesis by linarith
qed

section \<open>Properties\<close>



text \<open>An absolute mouse position sent to Windows stays in the range 0 to 65535 that the
  absolute coordinate system allows, whenever the screen lies inside the virtual desktop and its corners are \<open>LONG\<close>s.\<close>

theorem absolute_mouse_range:
  assumes "adjust_to_virtual_desktop MulDiv sm ms i x y = (True, pt)"
    and "MulDiv_rounds MulDiv"
    and "SM_CXVIRTUALSCREEN sm < 2 ^ 31" "SM_CYVIRTUALSCREEN sm < 2 ^ 31"
    and "\<forall>m \<in> set ms. mi_screen_id m = i \<longrightarrow> - (2 ^ 31) \<le> r_left (mi_rect m) \<and> r_right (mi_rect m) < 2 ^ 31 \<and>
      - (2 ^ 31) \<le> r_top (mi_rect m) \<and> r_bottom (mi_rect m) < 2 ^ 31 \<and>
      SM_XVIRTUALSCREEN sm \<le> r_left (mi_rect m) \<and>
      r_right (mi_rect m) \<le> SM_XVIRTUALSCREEN sm + SM_CXVIRTUALSCREEN sm \<and>
      SM_YVIRTUALSCREEN sm \<le> r_top (mi_rect m) \<and>
      r_bottom (mi_rect m) \<le> SM_YVIRTUALSCREEN sm + SM_CYVIRTUALSCREEN sm"
  shows "0 \<le> p_x pt \<and> p_x pt \<le> 65535 \<and> 0 \<le> p_y pt \<and> p_y pt \<le> 65535"
proof -
  obtain r q where r: "MonitorRectForScreenId ms i = Some r" "NormalizedPointOnMonitor r x y = Some q"
    using assms(1) by (auto simp: adjust_to_virtual_desktop_def adjust_to_virtual_desktop_pixels_def
        adjust_to_screen_def split: option.splits)
  then obtain m where m: "m \<in> set ms" "mi_screen_id m = i" "mi_rect m = r"
    using MonitorRect_Some by blast
  with assms(5) have v: "SM_XVIRTUALSCREEN sm \<le> r_left r" "r_right r \<le> SM_XVIRTUALSCREEN sm + SM_CXVIRTUALSCREEN sm"
      "SM_YVIRTUALSCREEN sm \<le> r_top r" "r_bottom r \<le> SM_YVIRTUALSCREEN sm + SM_CYVIRTUALSCREEN sm" "rect_fits r"
    using assms(3,4) by (auto simp: rect_fits_def)
  then have q: "r_left r \<le> p_x q \<and> p_x q < r_right r \<and> r_top r \<le> p_y q \<and> p_y q < r_bottom r"
    by (intro NormalizedPoint_pixel [OF r(2)])
  have "0 \<le> p_x q - SM_XVIRTUALSCREEN sm" "p_x q - SM_XVIRTUALSCREEN sm \<le> max 1 (max 1 (SM_CXVIRTUALSCREEN sm) - 1)"
    "0 \<le> p_y q - SM_YVIRTUALSCREEN sm" "p_y q - SM_YVIRTUALSCREEN sm \<le> max 1 (max 1 (SM_CYVIRTUALSCREEN sm) - 1)"
    using q v by linarith+
  moreover have "max 1 (max 1 (SM_CXVIRTUALSCREEN sm) - 1) < 2 ^ 31" "max 1 (max 1 (SM_CYVIRTUALSCREEN sm) - 1) < 2 ^ 31"
    using assms(3,4) by simp_all
  moreover have "LONG (p_x q - SM_XVIRTUALSCREEN sm) = p_x q - SM_XVIRTUALSCREEN sm"
    "LONG (p_y q - SM_YVIRTUALSCREEN sm) = p_y q - SM_YVIRTUALSCREEN sm"
    using q v assms(3,4) by (intro LONG_id; linarith)+
  then have "pt = \<lparr>p_x = MulDiv (p_x q - SM_XVIRTUALSCREEN sm) 65535 (max 1 (max 1 (SM_CXVIRTUALSCREEN sm) - 1)),
      p_y = MulDiv (p_y q - SM_YVIRTUALSCREEN sm) 65535 (max 1 (max 1 (SM_CYVIRTUALSCREEN sm) - 1))\<rparr>"
    using assms(1) by (simp add: adjust_to_virtual_desktop_def adjust_to_virtual_desktop_pixels_def
        adjust_to_screen_def r PointRelativeToVirtualDesktop_def Let_def)
  ultimately show ?thesis using MulDiv_range [OF assms(2)] by simp
qed

lemma nearest_MulDiv: "MulDiv_rounds (\<lambda>a b c. (2 * a * b + c) div (2 * c))"
proof -
  { fix a b c :: int assume c: "0 < c"
    let ?n = "2 * a * b + c" and ?q = "(2 * a * b + c) div (2 * c)"
    define n q where "n = ?n" and "q = n div (2 * c)"
    have "q * (2 * c) + n mod (2 * c) = n" unfolding q_def by (rule div_mult_mod_eq)
    moreover have "0 \<le> n mod (2 * c)" "n mod (2 * c) < 2 * c" using c by simp_all
    moreover have "q * (2 * c) = 2 * (q * c)" "n = 2 * (a * b) + c" by (simp_all add: n_def)
    moreover define p s m where "p = q * c" and "s = a * b" and "m = n mod (2 * c)"
    ultimately have "2 * p + m = 2 * s + c" "0 \<le> m" "m < 2 * c" by simp_all
    then have "2 * \<bar>p - s\<bar> \<le> c" by presburger
    then have "2 * \<bar>?q * c - a * b\<bar> \<le> c" by (simp only: p_def s_def q_def n_def) }
  then show ?thesis by (simp add: MulDiv_rounds_def)
qed

theorem absolute_mouse_range_witness:
  "\<exists>pt. adjust_to_virtual_desktop (\<lambda>a b c. (2 * a * b + c) div (2 * c))
      \<lparr>SM_XVIRTUALSCREEN = - 10, SM_YVIRTUALSCREEN = 0, SM_CXVIRTUALSCREEN = 100, SM_CYVIRTUALSCREEN = 50\<rparr>
      [\<lparr>mi_rect = \<lparr>r_left = - 10, r_top = 0, r_right = 90, r_bottom = 50\<rparr>, mi_is_primary = True, mi_screen_id = 0\<rparr>]
      0 (Fin 1) (Fin 0) = (True, pt) \<and> 0 \<le> p_x pt \<and> p_x pt \<le> 65535 \<and> 0 \<le> p_y pt \<and> p_y pt \<le> 65535"
proof -
  let ?M = "\<lambda>a b c :: int. (2 * a * b + c) div (2 * c)"
  let ?sm = "\<lparr>SM_XVIRTUALSCREEN = - 10, SM_YVIRTUALSCREEN = 0, SM_CXVIRTUALSCREEN = 100, SM_CYVIRTUALSCREEN = 50\<rparr>"
  let ?r = "\<lparr>r_left = - 10, r_top = 0, r_right = 90, r_bottom = 50\<rparr>"
  let ?ms = "[\<lparr>mi_rect = ?r, mi_is_primary = True, mi_screen_id = 0\<rparr>]"
  have "NormalizedPointOnMonitor ?r (Fin 1) (Fin 0) \<noteq> None"
    by (rule NormalizedPoint_defined) (simp_all add: rect_fits_def)
  then obtain pt where pt: "adjust_to_virtual_desktop ?M ?sm ?ms 0 (Fin 1) (Fin 0) = (True, pt)"
    by (auto simp: adjust_to_virtual_desktop_def adjust_to_virtual_desktop_pixels_def adjust_to_screen_def
        MonitorRectForScreenId_def Let_def)
  have "0 \<le> p_x pt \<and> p_x pt \<le> 65535 \<and> 0 \<le> p_y pt \<and> p_y pt \<le> 65535"
    by (rule absolute_mouse_range [OF pt nearest_MulDiv]) simp_all
  with pt show ?thesis by blast
qed

end
