(* ===== verification/Scroll.thy ===== *)
theory Scroll
  imports Floats
begin

text \<open>
  How far the wheel turns: \<open>logicalScrollToWindowsWheel\<close> of
  \<open>windows/hardware_simulator_plugin.cpp\<close>, \<open>logical_scroll_to_linux_wheel\<close> of
  \<open>linux/hardware_simulator_plugin.cc\<close> and the accumulator of
  \<open>windows/trackpad_scroll_accumulator.h\<close>, over IEEE doubles.
\<close>

section \<open>Discrete scrolling\<close>

definition kMaxWindowsWheelDistance :: rat where
  "kMaxWindowsWheelDistance = 120 * 100"

definition logicalScrollToWindowsWheel :: "dbl \<Rightarrow> bool \<Rightarrow> int option" where
  "logicalScrollToWindowsWheel logical_distance invert =
     (if \<not> is_finite logical_distance then Some 0
      else
        let direction = (if invert then Fin (- 1) else Fin 1);
            scaled = dmul logical_distance direction;
            clamped = dclamp scaled (Fin (- kMaxWindowsWheelDistance)) (Fin kMaxWindowsWheelDistance)
        in dlround clamped)"

definition kMaxLinuxWheelDistance :: rat where
  "kMaxLinuxWheelDistance = 12000"

definition logical_scroll_to_linux_wheel :: "dbl \<Rightarrow> bool \<Rightarrow> int option" where
  "logical_scroll_to_linux_wheel delta invert =
     (if \<not> is_finite delta then Some 0
      else
        let direction = (if invert then Fin (- 1) else Fin 1);
            native_distance = dclamp (dmul delta direction)
              (Fin (- kMaxLinuxWheelDistance)) (Fin kMaxLinuxWheelDistance)
        in dlround native_distance)"

section \<open>Trackpad frames\<close>

text \<open>
  The accumulator's state is \<open>residual_\<close>; \<open>None\<close> is a truncating cast of a value that is not
  finite, which has no defined result.
\<close>

definition kIntegerBoundaryTolerance :: dbl where
  "kIntegerBoundaryTolerance = to_double (1 / 10 ^ 9)"

definition Convert :: "dbl \<Rightarrow> dbl \<Rightarrow> dbl \<Rightarrow> bool \<Rightarrow> (int \<times> dbl) option" where
  "Convert max_output_distance residual logical_distance invert =
     (if \<not> is_finite logical_distance then Some (0, residual)
      else
        let direction = (if invert then Fin (- 1) else Fin 1);
            converted = dadd (dmul logical_distance direction) residual;
            clamped = dclamp converted (dneg max_output_distance) max_output_distance;
            adjusted = dadd clamped (dcopysign kIntegerBoundaryTolerance clamped)
        in case dtrunc adjusted of
             None \<Rightarrow> None
           | Some whole_units \<Rightarrow>
               let residual' = dsub clamped (Fin (of_int whole_units))
               in Some (whole_units,
                        if dlt (dabs residual') kIntegerBoundaryTolerance then Fin 0 else residual'))"

fun convert_frames :: "dbl \<Rightarrow> dbl \<Rightarrow> bool \<Rightarrow> dbl list \<Rightarrow> (int list \<times> dbl) option" where
  "convert_frames m r invert [] = Some ([], r)"
| "convert_frames m r invert (d # ds) =
     (case Convert m r d invert of
        None \<Rightarrow> None
      | Some (w, r') \<Rightarrow>
          (case convert_frames m r' invert ds of
             None \<Rightarrow> None
           | Some (ws, r'') \<Rightarrow> Some (w # ws, r'')))"

section \<open>Lemmas\<close>

lemma clamp_finite:
  assumes "0 \<le> b" "d \<noteq> NaN"
  shows "\<exists>c. dclamp d (Fin (- b)) (Fin b) = Fin c \<and> - b \<le> c \<and> c \<le> b"
  using assms qclamp_bounds [of "- b" b] by (cases d) (auto simp: dclamp_def)

lemma to_double_not_NaN: "to_double q \<noteq> NaN"
  by (simp add: to_double_def Let_def)

lemma dclamp_to_double:
  assumes "0 \<le> b" "b < 2 ^ 1024"
  shows "dclamp (to_double q) (Fin (- b)) (Fin b) = Fin (qclamp (fl 53 (-1074) q) (- b) b)"
  using assms by (auto simp: to_double_def Let_def dclamp_def qclamp_def)

lemma lround_clamped_bound:
  "\<bar>c\<bar> \<le> of_int m \<Longrightarrow> \<bar>lround c\<bar> \<le> m"
  using lround_mono [of c "of_int m"] lround_mono [of "of_int (- m)" c]
    lround_of_int [of m] lround_of_int [of "- m"] by (simp add: abs_le_iff)

lemma windows_wheel_eq:
  "logicalScrollToWindowsWheel (Fin q) iv =
     Some (lround (qclamp (fl 53 (-1074) (if iv then - q else q)) (- 12000) 12000))"
  using dclamp_to_double [of 12000 "if iv then - q else q"]
  by (cases iv) (simp_all add: logicalScrollToWindowsWheel_def kMaxWindowsWheelDistance_def
      is_finite_def Let_def dlround_def)

lemma linux_wheel_eq: "logical_scroll_to_linux_wheel d iv = logicalScrollToWindowsWheel d iv"
  by (simp add: logicalScrollToWindowsWheel_def logical_scroll_to_linux_wheel_def
      kMaxWindowsWheelDistance_def kMaxLinuxWheelDistance_def)

text \<open>The tolerance is \<open>10 ^ -9\<close> up to its own rounding.\<close>

lemma tolerance:
  "\<exists>t. kIntegerBoundaryTolerance = Fin t \<and> 9 / 10 ^ 10 < t \<and> t < 11 / 10 ^ 10"
proof -
  let ?t = "fl 53 (-1074) (1 / 10 ^ 9)"
  have "\<bar>1 / 10 ^ 9 :: rat\<bar> < 2 powi (-29)" by simp
  then have "\<bar>?t - 1 / 10 ^ 9\<bar> \<le> 2 powi (-29 - 54)" by (rule fl_err_below) simp
  also have "(2 :: rat) powi (-29 - 54) \<le> 1 / 10 ^ 11" by simp
  finally have "9 / 10 ^ 10 < ?t \<and> ?t < 11 / 10 ^ 10" unfolding abs_le_iff by simp
  moreover have "kIntegerBoundaryTolerance = Fin ?t"
    unfolding kIntegerBoundaryTolerance_def by (rule to_double_small) simp
  ultimately show ?thesis by blast
qed

text \<open>One frame after clamping, for a distance that is not negative and then for any.\<close>

lemma split_nonneg:
  assumes c: "0 \<le> c" "c \<le> 12000" and t: "9 / 10 ^ 10 < t" "t < 11 / 10 ^ 10"
  defines "w \<equiv> trunc (fl 53 (-1074) (c + t))"
  defines "r \<equiv> fl 53 (-1074) (c - of_int w)"
  shows "\<bar>w\<bar> \<le> 12000 \<and> \<bar>r\<bar> < 1 \<and> \<bar>of_int w + r - c\<bar> \<le> 1 / 10 ^ 15"
proof -
  have "\<bar>c + t\<bar> < 2 powi 14" using c t by simp
  then have "\<bar>fl 53 (-1074) (c + t) - (c + t)\<bar> \<le> 2 powi (14 - 54)" by (rule fl_err_below) simp
  also have "(2 :: rat) powi (14 - 54) \<le> 1 / 10 ^ 11" by simp
  finally have e0: "fl 53 (-1074) (c + t) \<le> c + t + 1 / 10 ^ 11"
      "c + t - 1 / 10 ^ 11 \<le> fl 53 (-1074) (c + t)"
    by linarith+
  then have f: "c < fl 53 (-1074) (c + t) \<and> fl 53 (-1074) (c + t) < c + 12 / 10 ^ 10"
    using t by simp
  then have w: "of_int w \<le> fl 53 (-1074) (c + t)" "fl 53 (-1074) (c + t) < of_int w + 1"
    using trunc_le [of "fl 53 (-1074) (c + t)"] c unfolding w_def by linarith+
  have lo: "- 1 < w"
  proof -
    have "of_int (- 1) < (of_int w :: rat)" using w(2) f c by simp
    then show ?thesis by (simp only: of_int_less_iff)
  qed
  have "of_int w < (of_int 12001 :: rat)" using w(1) f c by simp
  then have hi: "w < 12001" by (simp only: of_int_less_iff)
  have d: "- (12 / 10 ^ 10) < c - of_int w" "c - of_int w < 1" using w f by linarith+
  then have "\<bar>c - of_int w\<bar> < 2 powi 0" by (simp add: abs_less_iff)
  then have "\<bar>r - (c - of_int w)\<bar> \<le> 2 powi (0 - 54)" unfolding r_def by (rule fl_err_below) simp
  then have e: "\<bar>r - (c - of_int w)\<bar> \<le> 1 / 10 ^ 16" by simp
  have s: "c - of_int w < 1 - 8 / 10 ^ 10"
  proof -
    have "c + 8 / 10 ^ 10 < fl 53 (-1074) (c + t)"
      using e0 t by simp
    with w(2) show ?thesis by linarith
  qed
  have "r \<le> c - of_int w + 1 / 10 ^ 16" "c - of_int w - 1 / 10 ^ 16 \<le> r" using e by linarith+
  with d s have "\<bar>r\<bar> < 1" unfolding abs_less_iff by simp
  moreover have "of_int w + r - c = r - (c - of_int w)" by simp
  then have "\<bar>of_int w + r - c\<bar> \<le> 1 / 10 ^ 16" using e by (simp only:)
  then have "\<bar>of_int w + r - c\<bar> \<le> 1 / 10 ^ 15" by simp
  ultimately show ?thesis using lo hi by simp
qed

lemma split_any:
  assumes c: "\<bar>c\<bar> \<le> 12000" and t: "9 / 10 ^ 10 < t" "t < 11 / 10 ^ 10"
  defines "w \<equiv> trunc (fl 53 (-1074) (c + (if c < 0 then - t else t)))"
  defines "r \<equiv> fl 53 (-1074) (c - of_int w)"
  shows "\<bar>w\<bar> \<le> 12000 \<and> \<bar>r\<bar> < 1 \<and> \<bar>of_int w + r - c\<bar> \<le> 1 / 10 ^ 15"
proof (cases "c < 0")
  case False
  then show ?thesis using split_nonneg [OF _ _ t, of c] c unfolding w_def r_def by simp
next
  case True
  let ?w = "trunc (fl 53 (-1074) (- c + t))"
  let ?r = "fl 53 (-1074) (- c - of_int ?w)"
  have e: "c + (if c < 0 then - t else t) = - (- c + t)" using True by simp
  have "w = - ?w" unfolding w_def e by (simp only: fl_uminus trunc_uminus)
  moreover have "c - of_int (- ?w) = - (- c - of_int ?w)" by simp
  ultimately have "r = - ?r" unfolding r_def by (simp only: fl_uminus)
  with \<open>w = - ?w\<close> have "of_int w + r - c = - (of_int ?w + ?r - (- c))" by simp
  then have "\<bar>of_int w + r - c\<bar> = \<bar>of_int ?w + ?r - (- c)\<bar>" by (simp only: abs_minus_cancel)
  moreover have "0 \<le> - c" "- c \<le> 12000" using True c by linarith+
  note split_nonneg [OF this t]
  ultimately show ?thesis using \<open>w = - ?w\<close> \<open>r = - ?r\<close> by (simp only: abs_minus_cancel)
qed

lemma dcopysign_Fin: "0 \<le> t \<Longrightarrow> dcopysign (Fin t) (Fin c) = Fin (if c < 0 then - t else t)"
  by (simp add: dcopysign_def dabs_def dneg_def)

text \<open>The clamped sum of a frame and the remainder, whatever the size of the frame.\<close>

lemma clamped_large:
  assumes r: "\<bar>r\<bar> < 1" and s: "12002 < s"
  shows "dclamp (dadd (to_double s) (Fin r)) (Fin (- 12000)) (Fin 12000) = Fin 12000"
proof -
  have "of_int 12002 \<le> s" using s by simp
  from fl64.rnd_ge_int [OF this] have f: "12002 \<le> fl 53 (-1074) s" by simp
  then have "of_int 12001 \<le> fl 53 (-1074) s + r" using r by (simp add: abs_less_iff)
  from fl64.rnd_ge_int [OF this] have g: "12001 \<le> fl 53 (-1074) (fl 53 (-1074) s + r)" by simp
  show ?thesis
  proof (cases "2 ^ 1024 \<le> fl 53 (-1074) s")
    case True
    then have "to_double s = PInf" by (simp add: to_double_def)
    then show ?thesis by (simp add: dclamp_def)
  next
    case False
    moreover have "\<not> fl 53 (-1074) s \<le> - (2 ^ 1024)" using f by simp
    ultimately have "to_double s = Fin (fl 53 (-1074) s)" by (simp add: to_double_def Let_def)
    then show ?thesis using dclamp_to_double [of 12000 "fl 53 (-1074) s + r"] g by (simp add: qclamp_def)
  qed
qed

lemma dadd_uminus: "dadd (to_double (- s)) (Fin (- r)) = dneg (dadd (to_double s) (Fin r))"
proof -
  have d: "to_double (- q) = dneg (to_double q)" for q by (auto simp: to_double_def Let_def fl_uminus dneg_def)
  have "to_double (- x - r) = dneg (to_double (x + r))" for x
    using d [of "x + r"] by (simp only: minus_add_distrib diff_conv_add_uminus)
  then show ?thesis using to_double_not_NaN [of s] unfolding d by (cases "to_double s") (simp_all add: dneg_def)
qed

lemma clamped_uminus: "dclamp (dneg d) (Fin (- 12000)) (Fin 12000) = dneg (dclamp d (Fin (- 12000)) (Fin 12000))"
  by (cases d) (auto simp: dclamp_def dneg_def)

lemma clamped_sum:
  assumes r: "\<bar>r\<bar> < 1"
  shows "\<exists>c. dclamp (dadd (to_double s) (Fin r)) (Fin (- 12000)) (Fin 12000) = Fin c \<and> \<bar>c\<bar> \<le> 12000 \<and>
    \<bar>c - qclamp (s + r) (- 12000) 12000\<bar> \<le> 2 / 10 ^ 11"
proof -
  consider "12002 < s" | "12002 < - s" | "\<bar>s\<bar> \<le> 12002" by linarith
  then show ?thesis
  proof cases
    case 1
    with r have "qclamp (s + r) (- 12000) 12000 = 12000" by (simp add: qclamp_def abs_less_iff)
    with clamped_large [OF r 1] show ?thesis by simp
  next
    case 2
    have m: "\<bar>- r\<bar> < 1" using r by simp
    have "qclamp (s + r) (- 12000) 12000 = - 12000" using 2 r by (auto simp: qclamp_def abs_less_iff)
    moreover have "dclamp (dadd (to_double s) (Fin r)) (Fin (- 12000)) (Fin 12000) = Fin (- 12000)"
      using clamped_large [OF m 2] dadd_uminus [of "- s" "- r"] clamped_uminus by (simp add: dneg_def)
    ultimately show ?thesis by simp
  next
    case 3
    let ?f = "fl 53 (-1074)"
    have "\<bar>s\<bar> < 2 powi 14" using 3 by simp
    then have "\<bar>?f s - s\<bar> \<le> 2 powi (14 - 54)" by (rule fl_err_below) simp
    also have "(2 :: rat) powi (14 - 54) \<le> 1 / 10 ^ 11" by simp
    finally have e1: "\<bar>?f s - s\<bar> \<le> 1 / 10 ^ 11" .
    have "(1 :: rat) / 10 ^ 11 \<le> 1" by simp
    with e1 3 r have "\<bar>?f s + r\<bar> < 12004" by linarith
    then have "\<bar>?f s + r\<bar> < 2 powi 14" by simp
    then have "\<bar>?f (?f s + r) - (?f s + r)\<bar> \<le> 2 powi (14 - 54)" by (rule fl_err_below) simp
    also have "(2 :: rat) powi (14 - 54) \<le> 1 / 10 ^ 11" by simp
    finally have e2: "\<bar>?f (?f s + r) - (?f s + r)\<bar> \<le> 1 / 10 ^ 11" .
    have "\<bar>?f (?f s + r) - (s + r)\<bar> \<le> 1 / 10 ^ 11 + 1 / 10 ^ 11" using e1 e2 by linarith
    then have e: "\<bar>?f (?f s + r) - (s + r)\<bar> \<le> 2 / 10 ^ 11" by simp
    have "\<bar>s\<bar> \<le> 2 ^ 64" using 3 by simp
    then have "to_double s = Fin (?f s)" by (rule to_double_small)
    then have c: "dclamp (dadd (to_double s) (Fin r)) (Fin (- 12000)) (Fin 12000) =
        Fin (qclamp (?f (?f s + r)) (- 12000) 12000)"
      using dclamp_to_double [of 12000 "?f s + r"] by simp
    have "\<bar>qclamp x (- 12000) 12000 - qclamp y (- 12000) 12000\<bar> \<le> \<bar>x - y\<bar>" for x y by (auto simp: qclamp_def)
    from order_trans [OF this e] c show ?thesis
      using qclamp_bounds [of "- 12000" 12000 "?f (?f s + r)"] by (auto simp: abs_le_iff)
  qed
qed

lemma Convert_clamped:
  fixes r d :: rat and iv :: bool
  assumes r: "\<bar>r\<bar> < 1"
  shows "\<exists>w r'. Convert (Fin 12000) (Fin r) (Fin d) iv = Some (w, Fin r') \<and>
    \<bar>w\<bar> \<le> 12000 \<and> \<bar>r'\<bar> < 1 \<and>
    \<bar>of_int w + r' - qclamp ((if iv then - d else d) + r) (- 12000) 12000\<bar> \<le> 2 / 10 ^ 9"
proof -
  obtain t where t: "kIntegerBoundaryTolerance = Fin t" "9 / 10 ^ 10 < t" "t < 11 / 10 ^ 10"
    using tolerance by blast
  let ?d = "if iv then - d else d"
  have m: "dmul (Fin d) (if iv then Fin (- 1) else Fin 1) = to_double ?d" by (cases iv) simp_all
  obtain c where clamp: "dclamp (dadd (to_double ?d) (Fin r)) (Fin (- 12000)) (Fin 12000) = Fin c"
    and c: "\<bar>c\<bar> \<le> 12000" "\<bar>c - qclamp (?d + r) (- 12000) 12000\<bar> \<le> 2 / 10 ^ 11"
    using clamped_sum [OF r] by blast
  let ?a = "c + (if c < 0 then - t else t)"
  have "\<bar>?a\<bar> \<le> 2 ^ 64" using c t by (simp add: abs_le_iff)
  then have a: "dadd (Fin c) (Fin (if c < 0 then - t else t)) = Fin (fl 53 (-1074) ?a)"
    using to_double_small [of ?a] by simp
  define w where "w = trunc (fl 53 (-1074) ?a)"
  define r1 where "r1 = fl 53 (-1074) (c - of_int w)"
  have s: "\<bar>w\<bar> \<le> 12000" "\<bar>r1\<bar> < 1" "\<bar>of_int w + r1 - c\<bar> \<le> 1 / 10 ^ 15"
    using split_any [OF c(1) t(2,3)] unfolding w_def r1_def by simp_all
  have "\<bar>of_int w :: rat\<bar> \<le> 12000" using s(1) by (simp add: abs_le_iff)
  then have "\<bar>c - of_int w\<bar> \<le> 2 ^ 64" using c by (simp add: abs_le_iff)
  then have sub: "dsub (Fin c) (Fin (of_int w)) = Fin r1"
    using to_double_small [of "c - of_int w"] by (simp add: dsub_def dneg_def r1_def)
  have cv: "Convert (Fin 12000) (Fin r) (Fin d) iv = Some (w, Fin (if \<bar>r1\<bar> < t then 0 else r1))"
    using t(2) by (simp add: Convert_def is_finite_def Let_def m clamp dneg_def t(1)
        dcopysign_Fin a dtrunc_def sub dabs_def w_def [symmetric] del: dmul.simps dadd.simps)
  have "\<bar>of_int w + (if \<bar>r1\<bar> < t then 0 else r1) - c\<bar> \<le> 1 / 10 ^ 15 + 11 / 10 ^ 10"
  proof (cases "\<bar>r1\<bar> < t")
    case True
    have "\<bar>of_int w - c\<bar> \<le> 1 / 10 ^ 15 + 11 / 10 ^ 10" using s(3) t(3) True by linarith
    with True show ?thesis by simp
  next
    case False
    have "(0 :: rat) \<le> 11 / 10 ^ 10" by simp
    with False s(3) show ?thesis by simp
  qed
  with c(2) have "\<bar>of_int w + (if \<bar>r1\<bar> < t then 0 else r1) - qclamp (?d + r) (- 12000) 12000\<bar> \<le>
      1 / 10 ^ 15 + 11 / 10 ^ 10 + 2 / 10 ^ 11" by linarith
  also have "(1 :: rat) / 10 ^ 15 + 11 / 10 ^ 10 + 2 / 10 ^ 11 \<le> 2 / 10 ^ 9" by simp
  finally show ?thesis using cv s(1,2) by simp
qed

lemma wheel_defined: "\<exists>k. logicalScrollToWindowsWheel d iv = Some k"
  using windows_wheel_eq by (cases d) (auto simp: logicalScrollToWindowsWheel_def is_finite_def)

text \<open>
  How far a frame moves: as far as it asks, if that is within the Win32 range less two units. A larger frame
  moves in its direction, not further than it asks and no less than that limit, and a frame that is
  infinite or not a number does not move.
\<close>

definition frame_moves :: "bool \<Rightarrow> dbl \<Rightarrow> rat \<Rightarrow> bool" where
  "frame_moves iv d e =
     (case d of
        Fin q \<Rightarrow>
          let asked = (if iv then - q else q)
          in if \<bar>asked\<bar> \<le> 11998 then e = asked
             else if 0 < asked then 11998 \<le> e \<and> e \<le> asked
             else asked \<le> e \<and> e \<le> - 11998
      | _ \<Rightarrow> e = 0)"

lemma Convert_frame:
  fixes r :: rat and iv :: bool
  assumes r: "\<bar>r\<bar> < 1"
  shows "\<exists>w r' e. Convert (Fin 12000) (Fin r) d iv = Some (w, Fin r') \<and> \<bar>w\<bar> \<le> 12000 \<and> \<bar>r'\<bar> < 1 \<and>
    frame_moves iv d e \<and> \<bar>of_int w + r' - (e + r)\<bar> \<le> 2 / 10 ^ 9"
proof (cases d)
  case (Fin q)
  obtain w r' where w: "Convert (Fin 12000) (Fin r) (Fin q) iv = Some (w, Fin r')" "\<bar>w\<bar> \<le> 12000" "\<bar>r'\<bar> < 1"
    "\<bar>of_int w + r' - qclamp ((if iv then - q else q) + r) (- 12000) 12000\<bar> \<le> 2 / 10 ^ 9"
    using Convert_clamped [OF r] by blast
  have "frame_moves iv (Fin q) (qclamp ((if iv then - q else q) + r) (- 12000) 12000 - r)"
  proof -
    define s where "s = (if iv then - q else q)"
    have "if \<bar>s\<bar> \<le> 11998 then qclamp (s + r) (- 12000) 12000 - r = s
        else if 0 < s then 11998 \<le> qclamp (s + r) (- 12000) 12000 - r \<and> qclamp (s + r) (- 12000) 12000 - r \<le> s
        else s \<le> qclamp (s + r) (- 12000) 12000 - r \<and> qclamp (s + r) (- 12000) 12000 - r \<le> - 11998"
      using r by (auto simp: qclamp_def abs_le_iff abs_less_iff)
    then show ?thesis by (simp only: frame_moves_def dbl.case s_def [symmetric] Let_def)
  qed
  with w show ?thesis unfolding Fin
    by (intro exI [of _ w] exI [of _ r'] exI [of _ "qclamp ((if iv then - q else q) + r) (- 12000) 12000 - r"] conjI)
      (simp_all only: diff_add_cancel)
qed (simp_all add: Convert_def is_finite_def frame_moves_def assms)

section \<open>Properties\<close>

lemma convert_frames_total:
  fixes r :: rat and iv :: bool
  assumes "\<bar>r\<bar> < 1"
  shows "\<exists>ws r' es. convert_frames (Fin kMaxWindowsWheelDistance) (Fin r) iv ds = Some (ws, Fin r') \<and>
    length ws = length ds \<and> (\<forall>w \<in> set ws. \<bar>w\<bar> \<le> 12000) \<and> \<bar>r'\<bar> < 1 \<and> list_all2 (frame_moves iv) ds es \<and>
    \<bar>of_int (sum_list ws) + r' - (sum_list es + r)\<bar> \<le> of_nat (length ds) * (2 / 10 ^ 9)"
  using assms
proof (induction ds arbitrary: r)
  case Nil
  then show ?case by simp
next
  case (Cons d ds)
  have m: "kMaxWindowsWheelDistance = 12000" by (simp add: kMaxWindowsWheelDistance_def)
  from Convert_frame [OF Cons.prems, of d iv] obtain w r1 e where
    w: "Convert (Fin 12000) (Fin r) d iv = Some (w, Fin r1)" "\<bar>w\<bar> \<le> 12000" "\<bar>r1\<bar> < 1" "frame_moves iv d e"
      "\<bar>of_int w + r1 - (e + r)\<bar> \<le> 2 / 10 ^ 9" by blast
  from Cons.IH [OF w(3)] obtain ws r' es where
    ws: "convert_frames (Fin 12000) (Fin r1) iv ds = Some (ws, Fin r')"
      "length ws = length ds" "\<forall>w \<in> set ws. \<bar>w\<bar> \<le> 12000" "\<bar>r'\<bar> < 1" "list_all2 (frame_moves iv) ds es"
      "\<bar>of_int (sum_list ws) + r' - (sum_list es + r1)\<bar> \<le> of_nat (length ds) * (2 / 10 ^ 9)"
    unfolding m by auto
  let ?A = "of_int w + r1 - (e + r)"
  let ?B = "of_int (sum_list ws) + r' - (sum_list es + r1)"
  have e: "of_int (sum_list (w # ws)) + r' - (sum_list (e # es) + r) = ?A + ?B" by simp
  have "\<bar>?A + ?B\<bar> \<le> of_nat (length (d # ds)) * (2 / 10 ^ 9)"
    using abs_triangle_ineq [of ?A ?B] w(5) ws(6) by (simp add: algebra_simps)
  note this [folded e]
  then show ?case
    using w(1,2,4) ws(1-5) unfolding m
    by (intro exI [of _ "w # ws"] exI [of _ r'] exI [of _ "e # es"] conjI) simp_all
qed



text \<open>A discrete scroll is answered for every value of the argument: nothing is sent for
  infinities and NaN, otherwise the distance is within a hundred notches, reversed exactly by the
  inversion, and Linux and Windows agree.\<close>

theorem wheel_bounded_odd:
  "\<exists>k. logicalScrollToWindowsWheel d False = Some k \<and>
       logicalScrollToWindowsWheel d True = Some (- k) \<and>
       logical_scroll_to_linux_wheel d False = Some k \<and>
       \<bar>k\<bar> \<le> 12000 \<and> (\<not> is_finite d \<longrightarrow> k = 0)"
proof (cases d)
  case (Fin q)
  let ?c = "qclamp (fl 53 (-1074) q) (- 12000) 12000"
  have "\<bar>?c\<bar> \<le> of_int 12000"
    using qclamp_bounds [of "- 12000" 12000 "fl 53 (-1074) q"] by (simp add: abs_le_iff)
  then have "\<bar>lround ?c\<bar> \<le> 12000" by (rule lround_clamped_bound)
  moreover have "lround (qclamp (fl 53 (-1074) (- q)) (- 12000) 12000) = - lround ?c"
    by (simp add: fl_uminus qclamp_odd lround_uminus)
  ultimately show ?thesis
    by (intro exI [of _ "lround ?c"]) (simp add: Fin windows_wheel_eq linux_wheel_eq is_finite_def)
qed (simp_all add: logicalScrollToWindowsWheel_def logical_scroll_to_linux_wheel_def is_finite_def)

theorem wheel_bounded_odd_witness:
  "\<exists>k. logicalScrollToWindowsWheel PInf False = Some k \<and> \<bar>k\<bar> \<le> 12000 \<and> k = 0"
  using wheel_bounded_odd [of PInf] by (auto simp: is_finite_def)

end
