(* ===== verification/InputWire.thy ===== *)
theory InputWire
  imports Prelude
begin

text \<open>
  The messages that \<open>windows/desktop_service_input_client.cpp\<close> writes to the desktop service:
  the packed structs, their byte layout and the message builders. \<open>int32_t\<close> fields are 32-bit
  words, as \<open>memcpy\<close> sees them. The readers at the end are the inverse view of the same packed
  structs, which is what the service at the other end of the pipe has.
\<close>

section \<open>Constants\<close>

definition kMsgKeyInput :: u32 where "kMsgKeyInput = 0x02"
definition kMsgMouseInput :: u32 where "kMsgMouseInput = 0x03"
definition kMsgGetCustomDisplayConfigs :: u32 where "kMsgGetCustomDisplayConfigs = 0x04"
definition kMsgSetCustomDisplayConfigs :: u32 where "kMsgSetCustomDisplayConfigs = 0x05"
definition kMsgTouchInput :: u32 where "kMsgTouchInput = 0x06"
definition kMsgPenInput :: u32 where "kMsgPenInput = 0x07"
definition kMsgCustomDisplayConfigsResp :: u32 where "kMsgCustomDisplayConfigsResp = 0x84"
definition kMsgBoolResp :: u32 where "kMsgBoolResp = 0x85"
definition kMsgErrorResp :: u32 where "kMsgErrorResp = 0xFF"
definition kMaxMessageSize :: nat where "kMaxMessageSize = 4096"
definition kMaxCustomDisplayConfigs :: nat where "kMaxCustomDisplayConfigs = 5"
definition kMaxTouchContacts :: nat where "kMaxTouchContacts = 10"
definition kMsgRestoreDisplayConfig :: u32 where "kMsgRestoreDisplayConfig = 0x09"
definition kMsgRestoreDisplayConfigResp :: u32 where "kMsgRestoreDisplayConfigResp = 0x89"
definition kMsgRestoreTemporaryDisplayConfig :: u32 where
  "kMsgRestoreTemporaryDisplayConfig = 0x0a"
definition kMsgRestoreTemporaryDisplayConfigResp :: u32 where
  "kMsgRestoreTemporaryDisplayConfigResp = 0x8a"

lemmas message_types = kMsgKeyInput_def kMsgMouseInput_def kMsgGetCustomDisplayConfigs_def
  kMsgSetCustomDisplayConfigs_def kMsgTouchInput_def kMsgPenInput_def
  kMsgCustomDisplayConfigsResp_def kMsgBoolResp_def kMsgErrorResp_def
  kMsgRestoreDisplayConfig_def kMsgRestoreDisplayConfigResp_def
  kMsgRestoreTemporaryDisplayConfig_def kMsgRestoreTemporaryDisplayConfigResp_def

section \<open>Packed structs\<close>

record MsgHeader =
  hd_type :: u32
  hd_payload_size :: u32
  hd_seq :: u32

record KeyboardInputPayload =
  kb_vk :: u16
  kb_scan_code :: u16
  kb_flags :: u32

record MouseInputPayload =
  mp_dx :: u32
  mp_dy :: u32
  mp_flags :: u32
  mp_data :: u32

record TouchContactPayload =
  tc_pointer_id :: u32
  tc_pointer_flags :: u32
  tc_x :: u32
  tc_y :: u32
  tc_touch_flags :: u32
  tc_touch_mask :: u32
  tc_contact_left :: u32
  tc_contact_top :: u32
  tc_contact_right :: u32
  tc_contact_bottom :: u32
  tc_orientation :: u32
  tc_pressure :: u32

record PenInputPayload =
  pp_pointer_id :: u32
  pp_pointer_flags :: u32
  pp_x :: u32
  pp_y :: u32
  pp_pen_flags :: u32
  pp_pen_mask :: u32
  pp_pressure :: u32
  pp_rotation :: u32
  pp_tilt_x :: u32
  pp_tilt_y :: u32

record CustomDisplayConfigPayload =
  dc_width :: u32
  dc_height :: u32
  dc_refresh_rate :: u32

definition header_bytes :: "MsgHeader \<Rightarrow> u8 list" where
  "header_bytes h = le32s [hd_type h, hd_payload_size h, hd_seq h]"

definition keyboard_bytes :: "KeyboardInputPayload \<Rightarrow> u8 list" where
  "keyboard_bytes p = le16 (kb_vk p) @ le16 (kb_scan_code p) @ le32 (kb_flags p)"

definition mouse_bytes :: "MouseInputPayload \<Rightarrow> u8 list" where
  "mouse_bytes p = le32s [mp_dx p, mp_dy p, mp_flags p, mp_data p]"

definition contact_words :: "TouchContactPayload \<Rightarrow> u32 list" where
  "contact_words c = [tc_pointer_id c, tc_pointer_flags c, tc_x c, tc_y c, tc_touch_flags c,
     tc_touch_mask c, tc_contact_left c, tc_contact_top c, tc_contact_right c,
     tc_contact_bottom c, tc_orientation c, tc_pressure c]"

text \<open>\<open>TouchInputPayload\<close> always carries ten contacts; the unused ones are zero.\<close>

definition touch_bytes :: "u32 \<Rightarrow> TouchContactPayload list \<Rightarrow> u8 list" where
  "touch_bytes count cs =
     le32s (count # concat (map contact_words cs)
            @ replicate (12 * (kMaxTouchContacts - length cs)) 0)"

definition pen_bytes :: "PenInputPayload \<Rightarrow> u8 list" where
  "pen_bytes p = le32s [pp_pointer_id p, pp_pointer_flags p, pp_x p, pp_y p, pp_pen_flags p,
     pp_pen_mask p, pp_pressure p, pp_rotation p, pp_tilt_x p, pp_tilt_y p]"

definition config_words :: "CustomDisplayConfigPayload \<Rightarrow> u32 list" where
  "config_words c = [dc_width c, dc_height c, dc_refresh_rate c]"

definition config_list_bytes :: "CustomDisplayConfigPayload list \<Rightarrow> u8 list" where
  "config_list_bytes cs =
     le32s (of_nat (length cs) # concat (map config_words cs)
            @ replicate (3 * (kMaxCustomDisplayConfigs - length cs)) 0)"

section \<open>The Windows input structures\<close>

record KEYBDINPUT =
  wVk :: u16
  wScan :: u16
  ki_dwFlags :: u32

record MOUSEINPUT =
  mi_dx :: u32
  mi_dy :: u32
  mi_mouseData :: u32
  mi_dwFlags :: u32

datatype INPUT = INPUT_KEYBOARD KEYBDINPUT | INPUT_MOUSE MOUSEINPUT | INPUT_HARDWARE

datatype pointer_type = PT_TOUCH | PT_PEN | PT_OTHER

record POINTER_INFO =
  pointerId :: u32
  pointerFlags :: u32
  ptPixelLocation_x :: u32
  ptPixelLocation_y :: u32

record POINTER_TOUCH_INFO =
  ti_pointerInfo :: POINTER_INFO
  touchFlags :: u32
  touchMask :: u32
  rcContact_left :: u32
  rcContact_top :: u32
  rcContact_right :: u32
  rcContact_bottom :: u32
  ti_orientation :: u32
  ti_pressure :: u32

record POINTER_PEN_INFO =
  pi_pointerInfo :: POINTER_INFO
  penFlags :: u32
  penMask :: u32
  pi_pressure :: u32
  rotation :: u32
  tiltX :: u32
  tiltY :: u32

record POINTER_TYPE_INFO =
  pti_type :: pointer_type
  touchInfo :: POINTER_TOUCH_INFO
  penInfo :: POINTER_PEN_INFO

text \<open>Value-initialised structures, \<open>{}\<close> in the source.\<close>

definition zero_pointer_info :: POINTER_INFO where
  "zero_pointer_info = \<lparr>pointerId = 0, pointerFlags = 0, ptPixelLocation_x = 0, ptPixelLocation_y = 0\<rparr>"

definition zero_touch_info :: POINTER_TOUCH_INFO where
  "zero_touch_info = \<lparr>ti_pointerInfo = zero_pointer_info, touchFlags = 0, touchMask = 0,
     rcContact_left = 0, rcContact_top = 0, rcContact_right = 0, rcContact_bottom = 0,
     ti_orientation = 0, ti_pressure = 0\<rparr>"

definition zero_pen_info :: POINTER_PEN_INFO where
  "zero_pen_info = \<lparr>pi_pointerInfo = zero_pointer_info, penFlags = 0, penMask = 0, pi_pressure = 0,
     rotation = 0, tiltX = 0, tiltY = 0\<rparr>"

section \<open>Message builders\<close>

definition SendKeyboard_buffer :: "KEYBDINPUT \<Rightarrow> u8 list" where
  "SendKeyboard_buffer k =
     header_bytes \<lparr>hd_type = kMsgKeyInput, hd_payload_size = 8, hd_seq = 0\<rparr>
     @ keyboard_bytes \<lparr>kb_vk = wVk k, kb_scan_code = wScan k, kb_flags = ki_dwFlags k\<rparr>"

definition SendMouse_buffer :: "MOUSEINPUT \<Rightarrow> u8 list" where
  "SendMouse_buffer m =
     header_bytes \<lparr>hd_type = kMsgMouseInput, hd_payload_size = 16, hd_seq = 0\<rparr>
     @ mouse_bytes \<lparr>mp_dx = mi_dx m, mp_dy = mi_dy m, mp_flags = mi_dwFlags m, mp_data = mi_mouseData m\<rparr>"

definition touch_contact :: "POINTER_TYPE_INFO \<Rightarrow> TouchContactPayload" where
  "touch_contact p =
     (let source = touchInfo p; info = ti_pointerInfo source in
      \<lparr>tc_pointer_id = pointerId info, tc_pointer_flags = pointerFlags info,
       tc_x = ptPixelLocation_x info, tc_y = ptPixelLocation_y info,
       tc_touch_flags = touchFlags source, tc_touch_mask = touchMask source,
       tc_contact_left = rcContact_left source, tc_contact_top = rcContact_top source,
       tc_contact_right = rcContact_right source, tc_contact_bottom = rcContact_bottom source,
       tc_orientation = ti_orientation source, tc_pressure = ti_pressure source\<rparr>)"

text \<open>
  The caller passes an array and a count; the list is the part of the array the count covers.
  \<open>None\<close> is the early \<open>return false\<close>.
\<close>

definition SendTouch_buffer :: "POINTER_TYPE_INFO list \<Rightarrow> u8 list option" where
  "SendTouch_buffer pointers =
     (if pointers = [] \<or> length pointers > kMaxTouchContacts then None
      else if list_ex (\<lambda>p. pti_type p \<noteq> PT_TOUCH) pointers then None
      else Some (header_bytes \<lparr>hd_type = kMsgTouchInput, hd_payload_size = 484, hd_seq = 0\<rparr>
                 @ touch_bytes (of_nat (length pointers)) (map touch_contact pointers)))"

definition pen_payload :: "POINTER_TYPE_INFO \<Rightarrow> PenInputPayload" where
  "pen_payload p =
     (let source = penInfo p; info = pi_pointerInfo source in
      \<lparr>pp_pointer_id = pointerId info, pp_pointer_flags = pointerFlags info,
       pp_x = ptPixelLocation_x info, pp_y = ptPixelLocation_y info,
       pp_pen_flags = penFlags source, pp_pen_mask = penMask source,
       pp_pressure = pi_pressure source, pp_rotation = rotation source,
       pp_tilt_x = tiltX source, pp_tilt_y = tiltY source\<rparr>)"

definition SendPen_buffer :: "POINTER_TYPE_INFO \<Rightarrow> u8 list option" where
  "SendPen_buffer p =
     (if pti_type p \<noteq> PT_PEN then None
      else Some (header_bytes \<lparr>hd_type = kMsgPenInput, hd_payload_size = 40, hd_seq = 0\<rparr>
                 @ pen_bytes (pen_payload p)))"

section \<open>Reading the messages back\<close>

definition read_header :: "u8 list \<Rightarrow> (MsgHeader \<times> u8 list) option" where
  "read_header bs = (case rd32s 3 bs of
     Some ([t, n, s], r) \<Rightarrow> Some (\<lparr>hd_type = t, hd_payload_size = n, hd_seq = s\<rparr>, r)
   | _ \<Rightarrow> None)"

definition read_keyboard :: "u8 list \<Rightarrow> KEYBDINPUT option" where
  "read_keyboard bs = (case rd16 bs of None \<Rightarrow> None | Some (v, r) \<Rightarrow>
     (case rd16 r of None \<Rightarrow> None | Some (c, r') \<Rightarrow>
        (case rd32 r' of Some (f, []) \<Rightarrow> Some \<lparr>wVk = v, wScan = c, ki_dwFlags = f\<rparr> | _ \<Rightarrow> None)))"

definition read_mouse :: "u8 list \<Rightarrow> MOUSEINPUT option" where
  "read_mouse bs = (case rd32s 4 bs of
     Some ([x, y, f, d], []) \<Rightarrow> Some \<lparr>mi_dx = x, mi_dy = y, mi_mouseData = d, mi_dwFlags = f\<rparr>
   | _ \<Rightarrow> None)"

fun contact_of :: "u32 list \<Rightarrow> TouchContactPayload option" where
  "contact_of [i, f, x, y, tf, tm, l, t, r, b, o', p] =
     Some \<lparr>tc_pointer_id = i, tc_pointer_flags = f, tc_x = x, tc_y = y, tc_touch_flags = tf,
       tc_touch_mask = tm, tc_contact_left = l, tc_contact_top = t, tc_contact_right = r,
       tc_contact_bottom = b, tc_orientation = o', tc_pressure = p\<rparr>"
| "contact_of _ = None"

fun contacts_of :: "nat \<Rightarrow> u32 list \<Rightarrow> TouchContactPayload list option" where
  "contacts_of 0 ws = Some []"
| "contacts_of (Suc n) ws =
     (case contact_of (take 12 ws) of
        None \<Rightarrow> None
      | Some c \<Rightarrow> map_option (Cons c) (contacts_of n (drop 12 ws)))"

definition read_touch :: "u8 list \<Rightarrow> TouchContactPayload list option" where
  "read_touch bs = (case rd32s 121 bs of
     Some (n # ws, []) \<Rightarrow> if unat n \<le> kMaxTouchContacts then contacts_of (unat n) ws else None
   | _ \<Rightarrow> None)"

definition read_pen :: "u8 list \<Rightarrow> PenInputPayload option" where
  "read_pen bs = (case rd32s 10 bs of
     Some ([i, f, x, y, pf, pm, p, r, tx, ty], []) \<Rightarrow>
       Some \<lparr>pp_pointer_id = i, pp_pointer_flags = f, pp_x = x, pp_y = y, pp_pen_flags = pf,
         pp_pen_mask = pm, pp_pressure = p, pp_rotation = r, pp_tilt_x = tx, pp_tilt_y = ty\<rparr>
   | _ \<Rightarrow> None)"

lemma read_header_bytes [simp]: "read_header (header_bytes h @ r) = Some (h, r)"
proof -
  have "rd32s 3 (le32s [hd_type h, hd_payload_size h, hd_seq h] @ r)
      = Some ([hd_type h, hd_payload_size h, hd_seq h], r)"
    by (rule rd32s_le32s_n) simp
  then show ?thesis unfolding read_header_def header_bytes_def by (simp only: option.case prod.case list.case) simp
qed

lemma length_header_bytes [simp]: "length (header_bytes h) = 12"
  by (simp only: header_bytes_def length_le32s) simp

lemma length_keyboard_bytes [simp]: "length (keyboard_bytes p) = 8"
  by (simp add: keyboard_bytes_def)

lemma length_mouse_bytes [simp]: "length (mouse_bytes p) = 16"
  by (simp only: mouse_bytes_def length_le32s) simp

lemma length_pen_bytes [simp]: "length (pen_bytes p) = 40"
  by (simp only: pen_bytes_def length_le32s) simp

lemma length_contact_words [simp]: "length (contact_words c) = 12"
  by (simp add: contact_words_def)

lemma length_contacts [simp]: "length (concat (map contact_words cs)) = 12 * length cs"
  by (induction cs) simp_all

lemma length_config_words [simp]: "length (config_words c) = 3"
  by (simp add: config_words_def)

lemma length_configs [simp]: "length (concat (map config_words cs)) = 3 * length cs"
  by (induction cs) simp_all

lemma length_touch_bytes [simp]: "length cs \<le> kMaxTouchContacts \<Longrightarrow> length (touch_bytes n cs) = 484"
  unfolding touch_bytes_def length_le32s by (simp add: kMaxTouchContacts_def)

lemma length_config_list_bytes [simp]:
  "length cs \<le> kMaxCustomDisplayConfigs \<Longrightarrow> length (config_list_bytes cs) = 64"
  unfolding config_list_bytes_def length_le32s by (simp add: kMaxCustomDisplayConfigs_def)

lemma contact_of_words [simp]: "contact_of (contact_words c) = Some c"
  by (simp add: contact_words_def)

lemma contacts_of_words [simp]:
  "contacts_of (length cs) (concat (map contact_words cs) @ ws) = Some cs"
  by (induction cs) (simp_all add: contact_words_def [symmetric])

lemma read_touch_bytes:
  assumes "length cs \<le> kMaxTouchContacts"
  shows "read_touch (touch_bytes (of_nat (length cs)) cs) = Some cs"
proof -
  let ?ws = "concat (map contact_words cs) @ replicate (12 * (kMaxTouchContacts - length cs)) 0"
  have n: "unat (of_nat (length cs) :: u32) = length cs"
    using assms by (simp add: kMaxTouchContacts_def unat_of_nat take_bit_nat_eq_self)
  have "rd32s 121 (le32s (of_nat (length cs) # ?ws) @ []) = Some (of_nat (length cs) # ?ws, [])"
    using assms by (intro rd32s_le32s_n) (simp add: kMaxTouchContacts_def)
  then have "rd32s 121 (touch_bytes (of_nat (length cs)) cs) = Some (of_nat (length cs) # ?ws, [])"
    by (simp only: touch_bytes_def append_Nil2)
  then show ?thesis using assms by (simp add: read_touch_def n)
qed

lemma read_pen_bytes: "read_pen (pen_bytes p) = Some p"
proof -
  let ?ws = "[pp_pointer_id p, pp_pointer_flags p, pp_x p, pp_y p, pp_pen_flags p,
     pp_pen_mask p, pp_pressure p, pp_rotation p, pp_tilt_x p, pp_tilt_y p]"
  have "rd32s 10 (le32s ?ws @ []) = Some (?ws, [])" by (rule rd32s_le32s_n) simp
  then have "rd32s 10 (pen_bytes p) = Some (?ws, [])" by (simp only: pen_bytes_def append_Nil2)
  then show ?thesis unfolding read_pen_def by (simp only: option.case prod.case list.case) simp
qed

lemma read_mouse_bytes:
  "read_mouse (mouse_bytes \<lparr>mp_dx = x, mp_dy = y, mp_flags = f, mp_data = d\<rparr>) =
     Some \<lparr>mi_dx = x, mi_dy = y, mi_mouseData = d, mi_dwFlags = f\<rparr>"
proof -
  have "rd32s 4 (le32s [x, y, f, d] @ []) = Some ([x, y, f, d], [])" by (rule rd32s_le32s_n) simp
  then have "rd32s 4 (mouse_bytes \<lparr>mp_dx = x, mp_dy = y, mp_flags = f, mp_data = d\<rparr>) = Some ([x, y, f, d], [])"
    by (simp only: mouse_bytes_def append_Nil2 MouseInputPayload.select_convs)
  then show ?thesis unfolding read_mouse_def by (simp only: option.case prod.case list.case)
qed

lemma read_keyboard_bytes:
  "read_keyboard (keyboard_bytes \<lparr>kb_vk = v, kb_scan_code = c, kb_flags = f\<rparr>) =
     Some \<lparr>wVk = v, wScan = c, ki_dwFlags = f\<rparr>"
  using rd32_le32 [of f "[]"] by (simp add: read_keyboard_def keyboard_bytes_def)

section \<open>Properties\<close>

text \<open>Keyboard and mouse messages have the sizes the service asserts, and reading header and
  payload back gives the type, the payload size and every field of the event that was sent.\<close>

theorem key_mouse_roundtrip:
  "read_header (SendKeyboard_buffer k) =
     Some (\<lparr>hd_type = kMsgKeyInput, hd_payload_size = 8, hd_seq = 0\<rparr>, drop 12 (SendKeyboard_buffer k)) \<and>
   read_keyboard (drop 12 (SendKeyboard_buffer k)) = Some k \<and>
   read_header (SendMouse_buffer m) =
     Some (\<lparr>hd_type = kMsgMouseInput, hd_payload_size = 16, hd_seq = 0\<rparr>, drop 12 (SendMouse_buffer m)) \<and>
   read_mouse (drop 12 (SendMouse_buffer m)) = Some m \<and>
   length (SendKeyboard_buffer k) = 20 \<and> length (SendMouse_buffer m) = 28"
  by (simp add: SendKeyboard_buffer_def SendMouse_buffer_def read_keyboard_bytes read_mouse_bytes)

text \<open>The service's side: the Windows structures a contact and a pen message stand for.\<close>

definition received_touch :: "TouchContactPayload \<Rightarrow> POINTER_TOUCH_INFO" where
  "received_touch c =
     \<lparr>ti_pointerInfo = \<lparr>pointerId = tc_pointer_id c, pointerFlags = tc_pointer_flags c,
        ptPixelLocation_x = tc_x c, ptPixelLocation_y = tc_y c\<rparr>,
      touchFlags = tc_touch_flags c, touchMask = tc_touch_mask c, rcContact_left = tc_contact_left c,
      rcContact_top = tc_contact_top c, rcContact_right = tc_contact_right c, rcContact_bottom = tc_contact_bottom c,
      ti_orientation = tc_orientation c, ti_pressure = tc_pressure c\<rparr>"

definition received_pen :: "PenInputPayload \<Rightarrow> POINTER_PEN_INFO" where
  "received_pen c =
     \<lparr>pi_pointerInfo = \<lparr>pointerId = pp_pointer_id c, pointerFlags = pp_pointer_flags c,
        ptPixelLocation_x = pp_x c, ptPixelLocation_y = pp_y c\<rparr>,
      penFlags = pp_pen_flags c, penMask = pp_pen_mask c, pi_pressure = pp_pressure c, rotation = pp_rotation c,
      tiltX = pp_tilt_x c, tiltY = pp_tilt_y c\<rparr>"

lemma received_touch_contact: "received_touch (touch_contact p) = touchInfo p"
  by (simp add: received_touch_def touch_contact_def Let_def)

lemma received_pen_payload: "received_pen (pen_payload p) = penInfo p"
  by (simp add: received_pen_def pen_payload_def Let_def)

text \<open>C25: a touch frame is turned into a message exactly when it has between one and ten contacts,
  all of them touches; the message is 496 bytes, and reading it in the order of the packed structure gives
  back the touch structures of Windows of all contacts, every field and in the same order. A pen message is
  built exactly for a pen, and reading its 52 bytes gives back its whole pen structure.\<close>

theorem touch_pen_roundtrip:
  "(case SendTouch_buffer ps of
      None \<Rightarrow> length ps \<notin> {1..10} \<or> (\<exists>p \<in> set ps. pti_type p \<noteq> PT_TOUCH)
    | Some b \<Rightarrow> length ps \<in> {1..10} \<and> (\<forall>p \<in> set ps. pti_type p = PT_TOUCH) \<and> length b = 496 \<and>
        read_header b = Some (\<lparr>hd_type = kMsgTouchInput, hd_payload_size = 484, hd_seq = 0\<rparr>, drop 12 b) \<and>
        map_option (map received_touch) (read_touch (drop 12 b)) = Some (map touchInfo ps)) \<and>
   (case SendPen_buffer p of
      None \<Rightarrow> pti_type p \<noteq> PT_PEN
    | Some b \<Rightarrow> pti_type p = PT_PEN \<and> length b = 52 \<and>
        read_header b = Some (\<lparr>hd_type = kMsgPenInput, hd_payload_size = 40, hd_seq = 0\<rparr>, drop 12 b) \<and>
        map_option received_pen (read_pen (drop 12 b)) = Some (penInfo p))"
  using read_touch_bytes [of "map touch_contact ps"]
  by (auto simp: SendTouch_buffer_def SendPen_buffer_def read_pen_bytes list_ex_iff Suc_le_eq
      kMaxTouchContacts_def received_touch_contact received_pen_payload)

definition demo_touch_pointer :: POINTER_TYPE_INFO where
  "demo_touch_pointer = \<lparr>pti_type = PT_TOUCH,
     touchInfo = \<lparr>ti_pointerInfo = \<lparr>pointerId = 7, pointerFlags = 2, ptPixelLocation_x = 30, ptPixelLocation_y = 40\<rparr>,
       touchFlags = 0, touchMask = 7, rcContact_left = 26, rcContact_top = 36, rcContact_right = 34,
       rcContact_bottom = 44, ti_orientation = 90, ti_pressure = 512\<rparr>,
     penInfo = zero_pen_info\<rparr>"

theorem touch_pen_roundtrip_witness:
  "\<exists>b. SendTouch_buffer [demo_touch_pointer] = Some b \<and> length b = 496 \<and>
     map_option (map received_touch) (read_touch (drop 12 b)) = Some [touchInfo demo_touch_pointer]"
proof -
  obtain b where b: "SendTouch_buffer [demo_touch_pointer] = Some b"
    by (simp add: SendTouch_buffer_def demo_touch_pointer_def kMaxTouchContacts_def)
  with touch_pen_roundtrip [of "[demo_touch_pointer]"] show ?thesis by auto
qed

end
