(* ===== verification/InputQueue.thy ===== *)
theory InputQueue
  imports InputWire "HOL-Library.Sublist"
begin

text \<open>
  The input side of \<open>DesktopServiceInputClient\<close>
  (\<open>windows/desktop_service_input_client.cpp\<close>): the queue that the senders fill under
  \<open>mutex_\<close> and the thread \<open>InputLoop\<close> that connects to the service and writes the messages.
  A step of the machine is one stretch of code that runs with the mutex held; the places where
  \<open>InputLoop\<close> lets go of it are the values of \<open>loop_pc\<close>. What the operating system answers
  (whether a handle is created, a connection made, a write completed) labels the step. The
  build without \<open>CLOUDPLAYPLUS_DIRECT_INPUT\<close> is modelled: the class that build option adds is
  not part of the repository.
\<close>

section \<open>State\<close>

datatype loop_pc =
    NotRunning                 \<comment> \<open>no thread, or the thread has returned\<close>
  | Starting                   \<comment> \<open>before the first lock\<close>
  | WaitAvailable              \<comment> \<open>waiting for the service to be announced\<close>
  | Connecting                 \<comment> \<open>in \<open>TryConnect\<close>, unlocked\<close>
  | RetryWait                  \<comment> \<open>the timed wait after a failed connection or write\<close>
  | WaitQueue                  \<comment> \<open>waiting for a message\<close>
  | Writing "u8 list"          \<comment> \<open>in \<open>WriteMessage\<close>, unlocked, with the packet taken off the queue\<close>

record svc =
  input_queue :: "u8 list list"
  input_connected :: bool
  stop_requested :: bool
  reset_requested :: bool
  service_available :: bool
  thread_joinable :: bool      \<comment> \<open>\<open>input_thread_.joinable()\<close>\<close>
  interrupt_event :: bool      \<comment> \<open>the handle exists\<close>
  interrupt_set :: bool        \<comment> \<open>the event is signalled\<close>
  loop_at :: loop_pc
  input_pipe :: "nat option"   \<comment> \<open>the loop's pipe; each connection has a fresh number\<close>
  failure_reported :: bool
  closing :: bool              \<comment> \<open>\<open>Close\<close> is waiting for the thread\<close>
  next_pipe :: nat             \<comment> \<open>connections made so far\<close>
  closed_pipes :: "nat list"   \<comment> \<open>the \<open>CloseHandle\<close> calls on pipes, in order\<close>
  accepted :: "(nat option \<times> u8 list) list"   \<comment> \<open>what the senders were told is queued, with the connection\<close>
  delivered :: "(nat option \<times> u8 list) list"  \<comment> \<open>what the service received on each connection\<close>

definition init_svc :: svc where
  "init_svc = \<lparr>input_queue = [], input_connected = False, stop_requested = False,
     reset_requested = False, service_available = False, thread_joinable = False,
     interrupt_event = False, interrupt_set = False, loop_at = NotRunning, input_pipe = None,
     failure_reported = False, closing = False, next_pipe = 0, closed_pipes = [],
     accepted = [], delivered = []\<rparr>"

section \<open>The callers' operations\<close>

definition EnqueueLocked :: "u8 list \<Rightarrow> svc \<Rightarrow> svc \<times> bool" where
  "EnqueueLocked data s =
     (if \<not> input_connected s then (s, False)
      else (s\<lparr>input_queue := input_queue s @ [data],
              accepted := accepted s @ [(input_pipe s, data)]\<rparr>, True))"

definition SendKeyboardLocked :: "KEYBDINPUT \<Rightarrow> svc \<Rightarrow> svc \<times> bool" where
  "SendKeyboardLocked k s = EnqueueLocked (SendKeyboard_buffer k) s"

definition SendMouseLocked :: "MOUSEINPUT \<Rightarrow> svc \<Rightarrow> svc \<times> bool" where
  "SendMouseLocked m s = EnqueueLocked (SendMouse_buffer m) s"

definition SendInputMessage :: "INPUT \<Rightarrow> svc \<Rightarrow> svc \<times> bool" where
  "SendInputMessage i s =
     (if \<not> input_connected s then (s, False)
      else case i of
          INPUT_KEYBOARD k \<Rightarrow> SendKeyboardLocked k s
        | INPUT_MOUSE m \<Rightarrow> SendMouseLocked m s
        | INPUT_HARDWARE \<Rightarrow> (s, False))"

definition SendTouchInput :: "POINTER_TYPE_INFO list \<Rightarrow> svc \<Rightarrow> svc \<times> bool" where
  "SendTouchInput pointers s =
     (if pointers = [] \<or> length pointers > kMaxTouchContacts then (s, False)
      else if \<not> input_connected s then (s, False)
      else case SendTouch_buffer pointers of
          None \<Rightarrow> (s, False)
        | Some buffer \<Rightarrow> EnqueueLocked buffer s)"

definition SendPenInput :: "POINTER_TYPE_INFO \<Rightarrow> svc \<Rightarrow> svc \<times> bool" where
  "SendPenInput pointer s =
     (if pti_type pointer \<noteq> PT_PEN then (s, False)
      else if \<not> input_connected s then (s, False)
      else case SendPen_buffer pointer of
          None \<Rightarrow> (s, False)
        | Some buffer \<Rightarrow> EnqueueLocked buffer s)"

text \<open>Starting the thread: two events and the thread itself, each of which may fail.\<close>

record start_answers =
  event_ok :: bool
  write_event_ok :: bool
  thread_ok :: bool

definition StartInputThreadLocked :: "start_answers \<Rightarrow> svc \<Rightarrow> svc \<times> bool" where
  "StartInputThreadLocked a s =
     (if thread_joinable s then (s, True)
      else if \<not> event_ok a then (s\<lparr>interrupt_event := False\<rparr>, False)
      else if \<not> write_event_ok a then (s\<lparr>interrupt_event := False\<rparr>, False)
      else if \<not> thread_ok a then (s\<lparr>stop_requested := False, interrupt_event := False\<rparr>, False)
      else (s\<lparr>interrupt_event := True, interrupt_set := False, stop_requested := False,
              thread_joinable := True, loop_at := Starting, input_pipe := None,
              failure_reported := False\<rparr>, True))"

definition SetServiceAvailable :: "start_answers \<Rightarrow> bool \<Rightarrow> svc \<Rightarrow> svc" where
  "SetServiceAvailable a available s =
     (let s = s\<lparr>service_available := available\<rparr> in
      if \<not> available
      then s\<lparr>reset_requested := True, input_connected := False, input_queue := [],
             interrupt_set := interrupt_set s \<or> interrupt_event s\<rparr>
      else fst (StartInputThreadLocked a s))"

text \<open>\<open>Close\<close> up to the join, and from there on.\<close>

definition Close_request :: "svc \<Rightarrow> svc" where
  "Close_request s =
     s\<lparr>stop_requested := True, service_available := False, input_connected := False,
       input_queue := [], interrupt_set := interrupt_set s \<or> interrupt_event s,
       thread_joinable := False, closing := True\<rparr>"

definition Close_joined :: "svc \<Rightarrow> svc" where
  "Close_joined s = s\<lparr>interrupt_event := False, interrupt_set := False, closing := False\<rparr>"

section \<open>The thread\<close>

definition close_pipe :: "svc \<Rightarrow> svc" where
  "close_pipe s = (case input_pipe s of
       None \<Rightarrow> s
     | Some p \<Rightarrow> s\<lparr>input_pipe := None, closed_pipes := closed_pipes s @ [p]\<rparr>)"

text \<open>From the head of the loop to the next place where the lock is released.\<close>

definition loop_top :: "svc \<Rightarrow> svc" where
  "loop_top s =
     (if stop_requested s then
        (close_pipe (s\<lparr>input_connected := False, input_queue := []\<rparr>))\<lparr>loop_at := NotRunning\<rparr>
      else if \<not> service_available s \<or> reset_requested s then
        (close_pipe (s\<lparr>input_connected := False, input_queue := []\<rparr>))
          \<lparr>interrupt_set := False, reset_requested := False, loop_at := WaitAvailable\<rparr>
      else if input_pipe s = None then s\<lparr>loop_at := Connecting\<rparr>
      else case input_queue s of
          [] \<Rightarrow> s\<lparr>loop_at := WaitQueue\<rparr>
        | packet # rest \<Rightarrow> s\<lparr>input_queue := rest, loop_at := Writing packet\<rparr>)"

text \<open>After \<open>TryConnect\<close>: the lock is taken again and the result looked at.\<close>

definition connect_done :: "bool \<Rightarrow> svc \<Rightarrow> svc" where
  "connect_done ok s =
     (let s = (if ok then s\<lparr>input_pipe := Some (next_pipe s), next_pipe := next_pipe s + 1\<rparr> else s) in
      if stop_requested s \<or> \<not> service_available s \<or> reset_requested s then loop_top s
      else if ok then loop_top (s\<lparr>input_connected := True\<rparr>)
      else s\<lparr>input_connected := False, loop_at := RetryWait\<rparr>)"

text \<open>
  After \<open>WriteMessage\<close>. A write that failed may still have reached the service: \<open>reached\<close>.
\<close>

definition write_done :: "bool \<Rightarrow> bool \<Rightarrow> u8 list \<Rightarrow> svc \<Rightarrow> svc" where
  "write_done ok reached packet s =
     (let s = (if ok \<or> reached then s\<lparr>delivered := delivered s @ [(input_pipe s, packet)]\<rparr> else s) in
      if \<not> ok then
        (close_pipe (s\<lparr>input_connected := False, input_queue := []\<rparr>))
          \<lparr>failure_reported := True, loop_at := RetryWait\<rparr>
      else loop_top (s\<lparr>failure_reported := False\<rparr>))"

text \<open>
  The waits. \<open>wait\<close> returns only when its predicate holds, \<open>wait_for\<close> also after its 250
  milliseconds, so it can always be taken.
\<close>

definition can_wake :: "svc \<Rightarrow> bool" where
  "can_wake s = (case loop_at s of
       Starting \<Rightarrow> True
     | WaitAvailable \<Rightarrow> stop_requested s \<or> service_available s
     | RetryWait \<Rightarrow> True
     | WaitQueue \<Rightarrow> stop_requested s \<or> \<not> service_available s \<or> input_queue s \<noteq> [] \<or> reset_requested s
     | _ \<Rightarrow> False)"

section \<open>The machine\<close>

datatype label =
    Send "INPUT"
  | SendTouch "POINTER_TYPE_INFO list"
  | SendPen "POINTER_TYPE_INFO"
  | Announce start_answers bool
  | CloseRequest
  | CloseJoined
  | Wake
  | ConnectDone bool
  | WriteDone bool bool

text \<open>
  \<open>SetServiceAvailable\<close> and \<open>Close\<close> are called from the platform thread only, so an
  announcement does not fall between the two halves of \<open>Close\<close>.
\<close>

fun svc_step :: "label \<Rightarrow> svc \<Rightarrow> svc option" where
  "svc_step (Send i) s = Some (fst (SendInputMessage i s))"
| "svc_step (SendTouch ps) s = Some (fst (SendTouchInput ps s))"
| "svc_step (SendPen p) s = Some (fst (SendPenInput p s))"
| "svc_step (Announce a b) s = (if closing s then None else Some (SetServiceAvailable a b s))"
| "svc_step CloseRequest s = (if closing s then None else Some (Close_request s))"
| "svc_step CloseJoined s = (if closing s \<and> loop_at s = NotRunning then Some (Close_joined s) else None)"
| "svc_step Wake s = (if can_wake s then Some (loop_top s) else None)"
| "svc_step (ConnectDone ok) s = (if loop_at s = Connecting then Some (connect_done ok s) else None)"
| "svc_step (WriteDone ok reached) s =
     (case loop_at s of Writing packet \<Rightarrow> Some (write_done ok reached packet s) | _ \<Rightarrow> None)"

fun svc_run :: "label list \<Rightarrow> svc \<Rightarrow> svc option" where
  "svc_run [] s = Some s"
| "svc_run (l # ls) s = (case svc_step l s of None \<Rightarrow> None | Some s' \<Rightarrow> svc_run ls s')"

inductive reachable :: "svc \<Rightarrow> bool" where
  reachable_init: "reachable init_svc"
| reachable_step: "reachable s \<Longrightarrow> svc_step l s = Some s' \<Longrightarrow> reachable s'"

lemma reachable_run: "reachable s \<Longrightarrow> svc_run ls s = Some s' \<Longrightarrow> reachable s'"
  by (induction ls arbitrary: s) (auto split: option.splits intro: reachable_step)

section \<open>The invariant\<close>

text \<open>The messages of one connection, in order, and the one being written.\<close>

definition sent_on :: "nat \<Rightarrow> (nat option \<times> u8 list) list \<Rightarrow> u8 list list" where
  "sent_on c log = map snd (filter (\<lambda>e. fst e = Some c) log)"

definition in_flight :: "svc \<Rightarrow> u8 list list" where
  "in_flight s = (case loop_at s of Writing packet \<Rightarrow> [packet] | _ \<Rightarrow> [])"

lemma sent_on_append [simp]: "sent_on c (xs @ ys) = sent_on c xs @ sent_on c ys"
  by (simp add: sent_on_def)

lemma sent_on_Nil [simp]: "sent_on c [] = []"
  by (simp add: sent_on_def)

lemma sent_on_Cons [simp]:
  "sent_on c (e # log) = (if fst e = Some c then [snd e] else []) @ sent_on c log"
  by (simp add: sent_on_def)

text \<open>Which pipe the loop holds where, and that every pipe is closed exactly once.\<close>

definition pipe_list :: "nat list \<Rightarrow> nat option \<Rightarrow> nat list" where
  "pipe_list closed pipe = closed @ (case pipe of None \<Rightarrow> [] | Some c \<Rightarrow> [c])"

lemma pipe_list_closed [simp]: "pipe_list (pipe_list closed pipe) None = pipe_list closed pipe"
  by (simp add: pipe_list_def)

definition holds_pipe :: "loop_pc \<Rightarrow> bool" where
  "holds_pipe pc = (case pc of WaitQueue \<Rightarrow> True | Writing _ \<Rightarrow> True | _ \<Rightarrow> False)"

definition running :: "loop_pc \<Rightarrow> bool" where
  "running pc = (case pc of NotRunning \<Rightarrow> False | _ \<Rightarrow> True)"

lemma pc_simps [simp]:
  "\<not> holds_pipe NotRunning" "\<not> holds_pipe Starting" "\<not> holds_pipe WaitAvailable" "\<not> holds_pipe Connecting"
  "\<not> holds_pipe RetryWait" "holds_pipe WaitQueue" "holds_pipe (Writing m)"
  "\<not> running NotRunning" "running Starting" "running WaitAvailable" "running Connecting"
  "running RetryWait" "running WaitQueue" "running (Writing m)"
  by (simp_all add: holds_pipe_def running_def)

definition pipes_ok :: "svc \<Rightarrow> bool" where
  "pipes_ok s \<longleftrightarrow>
     (input_pipe s \<noteq> None) = holds_pipe (loop_at s) \<and>
     distinct (pipe_list (closed_pipes s) (input_pipe s)) \<and>
     set (pipe_list (closed_pipes s) (input_pipe s)) = {..<next_pipe s}"

text \<open>The thread object, the thread, the event and the two stop flags.\<close>

definition thread_cfg :: "bool \<Rightarrow> bool \<Rightarrow> bool \<Rightarrow> bool \<Rightarrow> bool \<Rightarrow> bool" where
  "thread_cfg joinable closing_now is_running event stop =
     (if joinable then \<not> closing_now \<and> is_running \<and> event \<and> \<not> stop
      else if closing_now then stop \<and> (is_running \<longrightarrow> event)
      else \<not> is_running \<and> \<not> event)"

definition thread_ok_inv :: "svc \<Rightarrow> bool" where
  "thread_ok_inv s \<longleftrightarrow>
     thread_cfg (thread_joinable s) (closing s) (running (loop_at s)) (interrupt_event s) (stop_requested s)"

definition connected_ok :: "svc \<Rightarrow> bool" where
  "connected_ok s \<longleftrightarrow>
     (input_connected s \<longrightarrow> input_pipe s \<noteq> None \<and> service_available s \<and> \<not> stop_requested s \<and>
        \<not> reset_requested s) \<and>
     (\<not> input_connected s \<longrightarrow> input_queue s = [])"

text \<open>
  The logs, over the number of connections, the open pipe, the message being written, the queue
  and whether senders may add to it.
\<close>

definition logs :: "nat \<Rightarrow> (nat option \<times> u8 list) list \<Rightarrow> (nat option \<times> u8 list) list \<Rightarrow>
    nat option \<Rightarrow> u8 list list \<Rightarrow> u8 list list \<Rightarrow> bool \<Rightarrow> bool" where
  "logs n acc dlv pipe fl q conn \<longleftrightarrow>
     (\<forall>c \<ge> n. sent_on c acc = [] \<and> sent_on c dlv = []) \<and>
     (\<forall>c. prefix (sent_on c dlv) (sent_on c acc)) \<and>
     (case pipe of None \<Rightarrow> \<not> conn
      | Some c \<Rightarrow> c < n \<and> prefix (sent_on c dlv @ fl @ q) (sent_on c acc) \<and>
          (conn \<longrightarrow> sent_on c dlv @ fl @ q = sent_on c acc))"

lemma logs_drop: "logs n acc dlv pipe fl q conn \<Longrightarrow> logs n acc dlv pipe fl [] False"
proof (cases pipe)
  case None
  assume "logs n acc dlv pipe fl q conn"
  with None show ?thesis by (simp add: logs_def)
next
  case (Some c)
  assume l: "logs n acc dlv pipe fl q conn"
  then have "prefix ((sent_on c dlv @ fl) @ q) (sent_on c acc)" by (simp add: logs_def Some)
  then have "prefix (sent_on c dlv @ fl) (sent_on c acc)" by (rule append_prefixD)
  with l Some show ?thesis by (simp add: logs_def)
qed

lemma logs_hangup: "logs n acc dlv pipe fl q conn \<Longrightarrow> logs n acc dlv None fl' q' False"
  by (auto simp: logs_def)

lemma logs_enqueue:
  "logs n acc dlv (Some c) fl q True \<Longrightarrow> logs n (acc @ [(Some c, d)]) dlv (Some c) fl (q @ [d]) True"
  by (auto simp: logs_def)

lemma logs_pop: "logs n acc dlv pipe [] (m # q) conn \<Longrightarrow> logs n acc dlv pipe [m] q conn"
  by (auto simp: logs_def split: option.splits)

lemma logs_deliver:
  assumes "logs n acc dlv (Some c) [m] q conn"
  shows "logs n acc (dlv @ [(Some c, m)]) (Some c) [] q conn"
proof -
  have p: "prefix (sent_on c dlv @ [m]) (sent_on c acc)"
    using assms unfolding logs_def by simp (metis append.assoc append_prefixD append_Cons append_Nil)
  show ?thesis using assms p by (auto simp: logs_def)
qed

lemma logs_fresh:
  "logs n acc dlv None fl q conn \<Longrightarrow> logs (Suc n) acc dlv (Some n) [] [] conn'"
  by (auto simp: logs_def)

definition logs_ok :: "svc \<Rightarrow> bool" where
  "logs_ok s \<longleftrightarrow> logs (next_pipe s) (accepted s) (delivered s) (input_pipe s) (in_flight s)
     (input_queue s) (input_connected s)"

definition svc_inv :: "svc \<Rightarrow> bool" where
  "svc_inv s \<longleftrightarrow> pipes_ok s \<and> thread_ok_inv s \<and> connected_ok s \<and> logs_ok s"

lemmas control_defs = pipes_ok_def thread_ok_inv_def connected_ok_def thread_cfg_def

lemma svc_inv_init: "svc_inv init_svc"
  by (simp add: svc_inv_def control_defs logs_ok_def logs_def init_svc_def pipe_list_def)

text \<open>The senders only ever append one message to an open connection.\<close>

lemma enqueue_inv:
  assumes "svc_inv s"
  shows "svc_inv (fst (EnqueueLocked data s))"
proof (cases "input_connected s")
  case False
  then show ?thesis using assms by (simp add: EnqueueLocked_def)
next
  case True
  then obtain c where c: "input_pipe s = Some c"
    using assms by (auto simp: svc_inv_def connected_ok_def)
  have "logs_ok (fst (EnqueueLocked data s))"
    using logs_enqueue [of "next_pipe s" "accepted s" "delivered s" c "in_flight s" "input_queue s"] assms True c
    by (simp add: svc_inv_def logs_ok_def EnqueueLocked_def in_flight_def)
  moreover have "pipes_ok (fst (EnqueueLocked data s))" "thread_ok_inv (fst (EnqueueLocked data s))"
    using assms True by (simp_all add: svc_inv_def pipes_ok_def thread_ok_inv_def EnqueueLocked_def)
  moreover have "connected_ok (fst (EnqueueLocked data s))"
    using assms True by (simp add: svc_inv_def connected_ok_def EnqueueLocked_def)
  ultimately show ?thesis by (simp add: svc_inv_def)
qed

lemma send_cases:
  "fst (SendInputMessage i s) = s \<or> (\<exists>d. fst (SendInputMessage i s) = fst (EnqueueLocked d s))"
  "fst (SendTouchInput ps s) = s \<or> (\<exists>d. fst (SendTouchInput ps s) = fst (EnqueueLocked d s))"
  "fst (SendPenInput p s) = s \<or> (\<exists>d. fst (SendPenInput p s) = fst (EnqueueLocked d s))"
  by (auto simp: SendInputMessage_def SendKeyboardLocked_def SendMouseLocked_def SendTouchInput_def
      SendPenInput_def split: INPUT.splits option.splits)

text \<open>Taking the connection away from the senders.\<close>

lemma logs_ok_quiet:
  "logs_ok s \<Longrightarrow> logs (next_pipe s) (accepted s) (delivered s) (input_pipe s) (in_flight s) [] False"
  unfolding logs_ok_def by (rule logs_drop)

lemma announce_inv:
  assumes i: "svc_inv s" and "\<not> closing s"
  shows "svc_inv (SetServiceAvailable a b s)"
proof -
  have q: "logs (next_pipe s) (accepted s) (delivered s) (input_pipe s) (in_flight s) [] False"
    using i logs_ok_quiet by (simp add: svc_inv_def)
  consider (off) "\<not> b" | (on) "b" "thread_joinable s" | (start) "b" "\<not> thread_joinable s" by blast
  then show ?thesis
  proof cases
    case off
    then show ?thesis using i q
      by (simp add: svc_inv_def control_defs logs_ok_def SetServiceAvailable_def in_flight_def)
  next
    case on
    then show ?thesis using i
      by (auto simp: svc_inv_def control_defs logs_ok_def SetServiceAvailable_def
          StartInputThreadLocked_def in_flight_def)
  next
    case start
    with i assms(2) have n: "loop_at s = NotRunning" "input_pipe s = None" "\<not> input_connected s"
        "input_queue s = []" "\<not> interrupt_event s"
      by (cases "loop_at s"; simp add: svc_inv_def control_defs)+
    have e: "SetServiceAvailable a b s =
        (if event_ok a \<and> write_event_ok a \<and> thread_ok a
         then s\<lparr>service_available := True, interrupt_event := True, interrupt_set := False, stop_requested := False,
                thread_joinable := True, loop_at := Starting, input_pipe := None, failure_reported := False\<rparr>
         else if event_ok a \<and> write_event_ok a
         then s\<lparr>service_available := True, stop_requested := False, interrupt_event := False\<rparr>
         else s\<lparr>service_available := True, interrupt_event := False\<rparr>)"
      using start by (simp add: SetServiceAvailable_def StartInputThreadLocked_def Let_def)
    show ?thesis
      using i assms(2) start n unfolding e
      by (simp add: svc_inv_def control_defs logs_ok_def in_flight_def)
  qed
qed

lemma close_request_inv:
  assumes "svc_inv s" "\<not> closing s"
  shows "svc_inv (Close_request s)"
proof -
  have "pipes_ok (Close_request s)"
    using assms by (simp add: svc_inv_def pipes_ok_def Close_request_def)
  moreover have "thread_ok_inv (Close_request s)"
    using assms by (simp add: svc_inv_def thread_ok_inv_def thread_cfg_def Close_request_def split: if_splits)
  moreover have "connected_ok (Close_request s)"
    using assms by (simp add: svc_inv_def connected_ok_def Close_request_def)
  moreover have "logs_ok (Close_request s)"
    using assms logs_ok_quiet [of s] by (simp add: svc_inv_def logs_ok_def Close_request_def in_flight_def)
  ultimately show ?thesis by (simp add: svc_inv_def)
qed

lemma close_joined_inv:
  assumes i: "svc_inv s" and c: "loop_at s = NotRunning" "closing s"
  shows "svc_inv (Close_joined s)"
proof -
  have p: "pipes_ok s" "thread_ok_inv s" "connected_ok s" "logs_ok s" using i by (simp_all add: svc_inv_def)
  have "pipes_ok (Close_joined s)" using p(1) by (simp add: pipes_ok_def Close_joined_def)
  moreover have "logs_ok (Close_joined s)" using p(4) by (simp add: logs_ok_def Close_joined_def in_flight_def)
  moreover have "connected_ok (Close_joined s)" using p(3) by (simp add: connected_ok_def Close_joined_def)
  moreover have "thread_ok_inv (Close_joined s)"
    using p(2) c by (simp add: thread_ok_inv_def thread_cfg_def Close_joined_def split: if_splits)
  ultimately show ?thesis by (simp add: svc_inv_def)
qed

text \<open>The loop.\<close>

lemma close_pipe_fields [simp]:
  "input_queue (close_pipe s) = input_queue s" "input_connected (close_pipe s) = input_connected s"
  "stop_requested (close_pipe s) = stop_requested s" "reset_requested (close_pipe s) = reset_requested s"
  "service_available (close_pipe s) = service_available s" "thread_joinable (close_pipe s) = thread_joinable s"
  "interrupt_event (close_pipe s) = interrupt_event s" "loop_at (close_pipe s) = loop_at s"
  "closing (close_pipe s) = closing s" "next_pipe (close_pipe s) = next_pipe s"
  "accepted (close_pipe s) = accepted s" "delivered (close_pipe s) = delivered s"
  "input_pipe (close_pipe s) = None"
  "closed_pipes (close_pipe s) = pipe_list (closed_pipes s) (input_pipe s)"
  by (auto simp: close_pipe_def pipe_list_def split: option.splits)

text \<open>
  At the head of the loop no message is being written: the invariant there, with the loop's place
  left open.
\<close>

definition at_top :: "svc \<Rightarrow> bool" where
  "at_top s \<longleftrightarrow>
     distinct (pipe_list (closed_pipes s) (input_pipe s)) \<and>
     set (pipe_list (closed_pipes s) (input_pipe s)) = {..<next_pipe s} \<and>
     thread_cfg (thread_joinable s) (closing s) True (interrupt_event s) (stop_requested s) \<and>
     connected_ok s \<and>
     (\<not> stop_requested s \<and> service_available s \<and> \<not> reset_requested s \<and> input_pipe s \<noteq> None \<longrightarrow> input_connected s) \<and>
     logs (next_pipe s) (accepted s) (delivered s) (input_pipe s) [] (input_queue s) (input_connected s)"

text \<open>The five things the head of the loop does.\<close>

lemma loop_top_stop:
  "stop_requested s \<Longrightarrow> loop_top s =
     (close_pipe (s\<lparr>input_connected := False, input_queue := []\<rparr>))\<lparr>loop_at := NotRunning\<rparr>"
  by (simp only: loop_top_def if_True)

lemma loop_top_reset:
  "\<not> stop_requested s \<Longrightarrow> \<not> service_available s \<or> reset_requested s \<Longrightarrow> loop_top s =
     (close_pipe (s\<lparr>input_connected := False, input_queue := []\<rparr>))
       \<lparr>interrupt_set := False, reset_requested := False, loop_at := WaitAvailable\<rparr>"
  by (simp only: loop_top_def if_True if_False)

lemma loop_top_live:
  assumes "\<not> stop_requested s" "service_available s" "\<not> reset_requested s"
  shows "input_pipe s = None \<Longrightarrow> loop_top s = s\<lparr>loop_at := Connecting\<rparr>"
    and "input_pipe s = Some c \<Longrightarrow> input_queue s = [] \<Longrightarrow> loop_top s = s\<lparr>loop_at := WaitQueue\<rparr>"
    and "input_pipe s = Some c \<Longrightarrow> input_queue s = m # q \<Longrightarrow>
      loop_top s = s\<lparr>input_queue := q, loop_at := Writing m\<rparr>"
  using assms by (simp_all only: loop_top_def if_True if_False simp_thms option.distinct list.case)

lemmas loop_top_cases = loop_top_stop loop_top_reset loop_top_live

lemma loop_top_split:
  obtains (stop) "stop_requested s"
  | (reset) "\<not> stop_requested s" "\<not> service_available s \<or> reset_requested s"
  | (connect) "\<not> stop_requested s" "service_available s" "\<not> reset_requested s" "input_pipe s = None"
  | (idle) c where "\<not> stop_requested s" "service_available s" "\<not> reset_requested s"
      "input_pipe s = Some c" "input_queue s = []"
  | (pop) c m q where "\<not> stop_requested s" "service_available s" "\<not> reset_requested s"
      "input_pipe s = Some c" "input_queue s = m # q"
  by (cases "input_pipe s"; cases "input_queue s") blast+

lemma at_topD:
  assumes "at_top s"
  shows "distinct (pipe_list (closed_pipes s) (input_pipe s))"
    and "set (pipe_list (closed_pipes s) (input_pipe s)) = {..<next_pipe s}"
    and "thread_cfg (thread_joinable s) (closing s) True (interrupt_event s) (stop_requested s)"
    and "connected_ok s"
    and "\<not> stop_requested s \<Longrightarrow> service_available s \<Longrightarrow> \<not> reset_requested s \<Longrightarrow>
           input_pipe s = Some c \<Longrightarrow> input_connected s"
    and "logs (next_pipe s) (accepted s) (delivered s) (input_pipe s) [] (input_queue s) (input_connected s)"
  using assms by (auto simp: at_top_def)

lemma thread_cfg_exit: "thread_cfg j c True e True \<Longrightarrow> thread_cfg j c False e True"
  by (cases j; cases c) (simp_all add: thread_cfg_def)

lemma loop_top_inv:
  assumes t: "at_top s"
  shows "svc_inv (loop_top s)"
proof -
  note p = at_topD(1,2) [OF t] and th = at_topD(3) [OF t] and co = at_topD(4) [OF t] and lg = at_topD(6) [OF t]
  note h = logs_hangup [OF lg]
  show ?thesis
  proof (cases rule: loop_top_split [of s])
    case stop
    have "thread_ok_inv (loop_top s)"
      unfolding loop_top_stop [OF stop] using th by (simp add: thread_ok_inv_def stop thread_cfg_exit)
    moreover have "pipes_ok (loop_top s)" "connected_ok (loop_top s)" "logs_ok (loop_top s)"
      unfolding loop_top_stop [OF stop] using p h by (simp_all add: pipes_ok_def connected_ok_def logs_ok_def)
    ultimately show ?thesis by (simp add: svc_inv_def)
  next
    case reset
    have "thread_ok_inv (loop_top s)"
      unfolding loop_top_reset [OF reset] using th by (simp add: thread_ok_inv_def)
    moreover have "pipes_ok (loop_top s)" "connected_ok (loop_top s)" "logs_ok (loop_top s)"
      unfolding loop_top_reset [OF reset] using p h by (simp_all add: pipes_ok_def connected_ok_def logs_ok_def)
    ultimately show ?thesis by (simp add: svc_inv_def)
  next
    case connect
    have "thread_ok_inv (loop_top s)" "connected_ok (loop_top s)"
      unfolding loop_top_live(1) [OF connect] using th co by (simp_all add: thread_ok_inv_def connected_ok_def)
    moreover have "pipes_ok (loop_top s)" "logs_ok (loop_top s)"
      unfolding loop_top_live(1) [OF connect] using p lg by (simp_all add: pipes_ok_def logs_ok_def in_flight_def connect(4))
    ultimately show ?thesis by (simp add: svc_inv_def)
  next
    case idle
    have "thread_ok_inv (loop_top s)" "connected_ok (loop_top s)"
      unfolding loop_top_live(2) [OF idle] using th co by (simp_all add: thread_ok_inv_def connected_ok_def)
    moreover have "pipes_ok (loop_top s)" "logs_ok (loop_top s)"
      unfolding loop_top_live(2) [OF idle] using p lg by (simp_all add: pipes_ok_def logs_ok_def in_flight_def idle(4,5))
    ultimately show ?thesis by (simp add: svc_inv_def)
  next
    case (pop c m q)
    have c: "input_connected s" using at_topD(5) [OF t pop(1-4)] .
    have l: "logs (next_pipe s) (accepted s) (delivered s) (input_pipe s) [m] q (input_connected s)"
      using lg pop(5) by (simp only: logs_pop)
    have "thread_ok_inv (loop_top s)" "connected_ok (loop_top s)"
      unfolding loop_top_live(3) [OF pop] using th co c by (simp_all add: thread_ok_inv_def connected_ok_def)
    moreover have "pipes_ok (loop_top s)" "logs_ok (loop_top s)"
      unfolding loop_top_live(3) [OF pop] using p l by (simp_all add: pipes_ok_def logs_ok_def in_flight_def pop(4))
    ultimately show ?thesis by (simp add: svc_inv_def)
  qed
qed

text \<open>The wakeups.\<close>

lemma thread_cfg_running: "thread_cfg j c r e stop \<Longrightarrow> r \<Longrightarrow> thread_cfg j c True e stop"
  by simp

lemma connected_gone: "connected_ok s \<Longrightarrow> input_pipe s = None \<Longrightarrow> \<not> input_connected s \<and> input_queue s = []"
  by (auto simp: connected_ok_def)

text \<open>
  While the loop waits for the queue or writes, the senders are connected unless the service was
  withdrawn.
\<close>

definition link_ok :: "svc \<Rightarrow> bool" where
  "link_ok s \<longleftrightarrow> (holds_pipe (loop_at s) \<and> \<not> stop_requested s \<and> \<not> reset_requested s \<longrightarrow>
     service_available s \<and> input_connected s)"

lemma wake_at_top:
  assumes i: "svc_inv s" "link_ok s" and r: "running (loop_at s)" and f: "in_flight s = []"
  shows "at_top s"
proof -
  have p: "pipes_ok s" "thread_ok_inv s" "connected_ok s" "logs_ok s" using i by (simp_all add: svc_inv_def)
  have "logs (next_pipe s) (accepted s) (delivered s) (input_pipe s) [] (input_queue s) (input_connected s)"
    using p(4) f by (simp add: logs_ok_def)
  moreover have "thread_cfg (thread_joinable s) (closing s) True (interrupt_event s) (stop_requested s)"
    using p(2) r by (simp add: thread_ok_inv_def)
  moreover have "input_pipe s \<noteq> None \<longrightarrow> holds_pipe (loop_at s)" using p(1) by (simp add: pipes_ok_def)
  ultimately show ?thesis
    using p(1,3) i(2) unfolding at_top_def pipes_ok_def link_ok_def by blast
qed

lemma wake_running: "can_wake s \<Longrightarrow> running (loop_at s) \<and> in_flight s = []"
  by (simp add: can_wake_def in_flight_def split: loop_pc.splits)

lemma at_topI:
  assumes "distinct (pipe_list (closed_pipes s) (input_pipe s))"
    and "set (pipe_list (closed_pipes s) (input_pipe s)) = {..<next_pipe s}"
    and "thread_cfg (thread_joinable s) (closing s) True (interrupt_event s) (stop_requested s)"
    and "connected_ok s"
    and "stop_requested s \<or> \<not> service_available s \<or> reset_requested s \<or> input_pipe s = None \<or> input_connected s"
    and "logs (next_pipe s) (accepted s) (delivered s) (input_pipe s) [] (input_queue s) (input_connected s)"
  shows "at_top s"
proof -
  have "\<not> stop_requested s \<and> service_available s \<and> \<not> reset_requested s \<and> input_pipe s \<noteq> None \<longrightarrow> input_connected s"
    using assms(5) by auto
  then show ?thesis unfolding at_top_def by (intro conjI assms(1-4,6))
qed

lemma svc_invI:
  assumes "(input_pipe s \<noteq> None) = holds_pipe (loop_at s)"
    and "distinct (pipe_list (closed_pipes s) (input_pipe s))"
    and "set (pipe_list (closed_pipes s) (input_pipe s)) = {..<next_pipe s}"
    and "thread_cfg (thread_joinable s) (closing s) (running (loop_at s)) (interrupt_event s) (stop_requested s)"
    and "connected_ok s"
    and "logs (next_pipe s) (accepted s) (delivered s) (input_pipe s) (in_flight s) (input_queue s) (input_connected s)"
  shows "svc_inv s"
  unfolding svc_inv_def pipes_ok_def thread_ok_inv_def logs_ok_def by (intro conjI assms)

lemma disconnected_ok: "\<not> input_connected s \<Longrightarrow> input_queue s = [] \<Longrightarrow> connected_ok s"
  by (simp add: connected_ok_def)

text \<open>The parts of the invariant a step of the loop starts from.\<close>

lemma svc_invD:
  assumes "svc_inv s" "running (loop_at s)"
  shows "distinct (pipe_list (closed_pipes s) (input_pipe s))"
    and "set (pipe_list (closed_pipes s) (input_pipe s)) = {..<next_pipe s}"
    and "thread_cfg (thread_joinable s) (closing s) True (interrupt_event s) (stop_requested s)"
    and "connected_ok s"
    and "logs (next_pipe s) (accepted s) (delivered s) (input_pipe s) (in_flight s) (input_queue s) (input_connected s)"
    and "(input_pipe s \<noteq> None) = holds_pipe (loop_at s)"
  using assms by (simp_all add: svc_inv_def pipes_ok_def thread_ok_inv_def logs_ok_def)

lemma pipe_list_fresh:
  assumes "distinct (pipe_list cl None)" "set (pipe_list cl None) = {..<n}"
  shows "distinct (pipe_list cl (Some n))" "set (pipe_list cl (Some n)) = {..<Suc n}"
  using assms by (simp_all add: pipe_list_def lessThan_Suc)

text \<open>The link part is kept as well.\<close>

lemma link_ok_loop_top: "at_top s \<Longrightarrow> link_ok (loop_top s)"
proof (cases rule: loop_top_split [of s])
  case stop
  then show ?thesis by (simp add: loop_top_stop link_ok_def)
next
  case reset
  then show ?thesis by (simp add: loop_top_reset link_ok_def)
next
  case connect
  then show ?thesis by (simp add: loop_top_live link_ok_def)
next
  case (idle c)
  assume "at_top s"
  from at_topD(5) [OF this idle(1-4)] idle show ?thesis by (simp add: loop_top_live link_ok_def)
next
  case (pop c m q)
  assume "at_top s"
  from at_topD(5) [OF this pop(1-4)] pop show ?thesis by (simp add: loop_top_live link_ok_def)
qed

lemma link_ok_enqueue: "link_ok s \<Longrightarrow> link_ok (fst (EnqueueLocked m s))"
  by (auto simp: link_ok_def EnqueueLocked_def)

lemma link_ok_announce:
  assumes i: "svc_inv s" "\<not> closing s" and l: "link_ok s"
  shows "link_ok (SetServiceAvailable a b s)"
proof (cases "b \<and> \<not> thread_joinable s")
  case True
  then have "loop_at s = NotRunning"
    using i by (cases "loop_at s") (simp_all add: svc_inv_def thread_ok_inv_def thread_cfg_def)
  then show ?thesis using True
    by (simp add: link_ok_def SetServiceAvailable_def StartInputThreadLocked_def Let_def)
next
  case False
  then show ?thesis using l
    by (auto simp: link_ok_def SetServiceAvailable_def StartInputThreadLocked_def Let_def)
qed

text \<open>Write and connect end at the head of the loop or in the timed wait.\<close>

definition settled :: "svc \<Rightarrow> bool" where
  "settled s \<longleftrightarrow> svc_inv s \<and> link_ok s"

lemma settled_loop_top: "at_top s \<Longrightarrow> settled (loop_top s)"
  by (simp add: settled_def loop_top_inv link_ok_loop_top)

lemma connect_done_settled:
  assumes i: "svc_inv s" and l: "loop_at s = Connecting"
  shows "settled (connect_done ok s)"
proof -
  have r: "running (loop_at s)" by (simp add: l)
  note d = svc_invD [OF i r]
  have n: "input_pipe s = None" using d(6) l by simp
  note q = connected_gone [OF d(4) n]
  have lg: "logs (next_pipe s) (accepted s) (delivered s) None [] [] False"
    using d(5) n q l by (simp add: in_flight_def)
  note fresh = pipe_list_fresh [OF d(1,2) [unfolded n]]
  let ?s = "s\<lparr>input_pipe := Some (next_pipe s), next_pipe := next_pipe s + 1\<rparr>"
  show ?thesis
  proof (cases ok)
    case True
    show ?thesis
    proof (cases "stop_requested s \<or> \<not> service_available s \<or> reset_requested s")
      case stop: True
      have "at_top ?s"
        by (rule at_topI) (use fresh d(3) logs_fresh [OF lg] q stop in \<open>simp_all add: disconnected_ok\<close>)
      then show ?thesis using settled_loop_top stop True by (simp add: connect_done_def)
    next
      case live: False
      then have "connected_ok (?s\<lparr>input_connected := True\<rparr>)" by (simp add: connected_ok_def)
      then have "at_top (?s\<lparr>input_connected := True\<rparr>)"
        by (intro at_topI) (use fresh d(3) logs_fresh [OF lg] q in simp_all)
      then show ?thesis using settled_loop_top live True by (simp add: connect_done_def)
    qed
  next
    case False
    show ?thesis
    proof (cases "stop_requested s \<or> \<not> service_available s \<or> reset_requested s")
      case stop: True
      have "at_top s" by (rule at_topI) (use d n l in \<open>simp_all add: in_flight_def\<close>)
      then show ?thesis using settled_loop_top stop False by (simp add: connect_done_def)
    next
      case live: False
      have e: "connect_done ok s = s\<lparr>input_connected := False, loop_at := RetryWait\<rparr>"
        using live False by (simp add: connect_done_def)
      have "svc_inv (connect_done ok s)" unfolding e
        by (rule svc_invI) (use d(1-3) n q lg in \<open>simp_all add: disconnected_ok in_flight_def\<close>)
      then show ?thesis unfolding settled_def by (simp add: link_ok_def e)
    qed
  qed
qed

lemma write_done_settled:
  assumes i: "svc_inv s" "link_ok s" and l: "loop_at s = Writing m"
  shows "settled (write_done ok reached m s)"
proof -
  have r: "running (loop_at s)" by (simp add: l)
  note d = svc_invD [OF i(1) r]
  obtain c where c: "input_pipe s = Some c" using d(6) l by auto
  have lg: "logs (next_pipe s) (accepted s) (delivered s) (Some c) [m] (input_queue s) (input_connected s)"
    using d(5) l c by (simp add: in_flight_def)
  let ?d = "s\<lparr>delivered := delivered s @ [(Some c, m)]\<rparr>"
  show ?thesis
  proof (cases ok)
    case True
    have "connected_ok (?d\<lparr>failure_reported := False\<rparr>)" using d(4) by (simp add: connected_ok_def)
    moreover have "stop_requested s \<or> \<not> service_available s \<or> reset_requested s \<or> input_connected s"
      using i(2) l by (auto simp: link_ok_def)
    ultimately have "at_top (?d\<lparr>failure_reported := False\<rparr>)"
      by (intro at_topI) (use d(1-3) c logs_deliver [OF lg] in simp_all)
    then show ?thesis using settled_loop_top True c by (simp add: write_done_def)
  next
    case False
    let ?s = "if reached then ?d else s"
    have e: "write_done ok reached m s =
        (close_pipe (?s\<lparr>input_connected := False, input_queue := []\<rparr>))\<lparr>failure_reported := True, loop_at := RetryWait\<rparr>"
      using False c by (simp add: write_done_def)
    have h: "logs (next_pipe s) (accepted s) (delivered ?s) None [] [] False"
      using logs_hangup [OF lg] logs_hangup [OF logs_deliver [OF lg]] by simp
    have f: "closed_pipes ?s = closed_pipes s" "input_pipe ?s = input_pipe s" "next_pipe ?s = next_pipe s"
      "thread_joinable ?s = thread_joinable s" "closing ?s = closing s" "interrupt_event ?s = interrupt_event s"
      "stop_requested ?s = stop_requested s" "accepted ?s = accepted s"
      by simp_all
    have "svc_inv (write_done ok reached m s)" unfolding e
      by (rule svc_invI) (use d(1-3) h in \<open>simp_all add: f disconnected_ok in_flight_def del: if_split\<close>)
    then show ?thesis unfolding settled_def by (simp add: link_ok_def e)
  qed
qed

lemma svc_step_settled:
  assumes s: "settled s" and st: "svc_step l s = Some s'"
  shows "settled s'"
proof -
  have i: "svc_inv s" "link_ok s" using s by (simp_all add: settled_def)
  have e: "settled s'" if "s' = s \<or> (\<exists>d. s' = fst (EnqueueLocked d s))"
    using that i s by (auto simp: settled_def enqueue_inv link_ok_enqueue)
  show ?thesis
  proof (cases l)
    case (Send x1)
    with st have "s' = fst (SendInputMessage x1 s)" by simp
    then show ?thesis using e send_cases(1) [of x1 s] by simp
  next
    case (SendTouch x2)
    with st have "s' = fst (SendTouchInput x2 s)" by simp
    then show ?thesis using e send_cases(2) [of x2 s] by simp
  next
    case (SendPen x3)
    with st have "s' = fst (SendPenInput x3 s)" by simp
    then show ?thesis using e send_cases(3) [of x3 s] by simp
  next
    case (Announce a b)
    with st have "\<not> closing s" "s' = SetServiceAvailable a b s" by (simp_all split: if_splits)
    then show ?thesis using announce_inv [OF i(1)] link_ok_announce [OF i(1) _ i(2)] by (simp add: settled_def)
  next
    case CloseRequest
    with st have "\<not> closing s" "s' = Close_request s" by (simp_all split: if_splits)
    then show ?thesis using close_request_inv [OF i(1)] by (simp add: settled_def link_ok_def Close_request_def)
  next
    case CloseJoined
    with st have c: "closing s" "loop_at s = NotRunning" "s' = Close_joined s" by (simp_all split: if_splits)
    then show ?thesis using close_joined_inv [OF i(1)] by (simp add: settled_def link_ok_def Close_joined_def)
  next
    case Wake
    with st have c: "can_wake s" "s' = loop_top s" by (simp_all split: if_splits)
    then show ?thesis using settled_loop_top wake_at_top [OF i] wake_running by blast
  next
    case (ConnectDone ok)
    with st have c: "loop_at s = Connecting" "s' = connect_done ok s" by (simp_all split: if_splits)
    show ?thesis unfolding c(2) by (rule connect_done_settled [OF i(1) c(1)])
  next
    case (WriteDone ok reached)
    with st obtain m where c: "loop_at s = Writing m" "s' = write_done ok reached m s"
      by (auto split: loop_pc.splits)
    show ?thesis unfolding c(2) by (rule write_done_settled [OF i c(1)])
  qed
qed

lemma reachable_settled: "reachable s \<Longrightarrow> settled s"
proof (induction rule: reachable.induct)
  case reachable_init
  show ?case using svc_inv_init by (simp add: settled_def link_ok_def init_svc_def)
next
  case (reachable_step s l s')
  then show ?case by (blast intro: svc_step_settled)
qed

section \<open>Draining and stopping\<close>

definition outstanding :: "svc \<Rightarrow> nat" where
  "outstanding s = length (in_flight s @ input_queue s)"

definition drain_labels :: "svc \<Rightarrow> label list" where
  "drain_labels s = (if loop_at s = WaitQueue \<and> input_queue s \<noteq> [] then [Wake] else [])
     @ replicate (outstanding s) (WriteDone True True)"

lemma drain_writing:
  assumes "settled s" "input_connected s" "loop_at s = Writing m" "input_queue s = q"
  shows "\<exists>s'. svc_run (replicate (Suc (length q)) (WriteDone True True)) s = Some s' \<and>
    accepted s' = accepted s \<and> input_pipe s' = input_pipe s \<and> input_connected s' \<and> settled s' \<and>
    in_flight s' = [] \<and> input_queue s' = []"
  using assms
proof (induction q arbitrary: s m)
  case Nil
  then have n: "\<not> stop_requested s" "service_available s" "\<not> reset_requested s"
    by (simp_all add: settled_def svc_inv_def connected_ok_def)
  obtain c where c: "input_pipe s = Some c" using Nil by (auto simp: settled_def svc_inv_def connected_ok_def)
  let ?s = "s\<lparr>delivered := delivered s @ [(input_pipe s, m)], failure_reported := False, loop_at := WaitQueue\<rparr>"
  have "write_done True True m s = ?s"
    using n c Nil.prems by (simp add: write_done_def loop_top_def)
  then have st: "svc_step (WriteDone True True) s = Some ?s" using Nil.prems by simp
  with svc_step_settled [OF Nil.prems(1) st] Nil.prems show ?case by (simp add: in_flight_def)
next
  case (Cons m' q)
  then have n: "\<not> stop_requested s" "service_available s" "\<not> reset_requested s"
    by (simp_all add: settled_def svc_inv_def connected_ok_def)
  obtain c where c: "input_pipe s = Some c" using Cons.prems by (auto simp: settled_def svc_inv_def connected_ok_def)
  let ?s = "s\<lparr>delivered := delivered s @ [(input_pipe s, m)], failure_reported := False,
    input_queue := q, loop_at := Writing m'\<rparr>"
  have "write_done True True m s = ?s"
    using n c Cons.prems by (simp add: write_done_def loop_top_def)
  then have st: "svc_step (WriteDone True True) s = Some ?s" using Cons.prems by simp
  have "settled ?s" by (rule svc_step_settled [OF Cons.prems(1) st])
  from Cons.IH [OF this, of m'] Cons.prems(2) obtain s' where
    s': "svc_run (replicate (Suc (length q)) (WriteDone True True)) ?s = Some s'"
      "accepted s' = accepted s" "input_pipe s' = input_pipe s" "input_connected s'" "settled s'"
      "in_flight s' = []" "input_queue s' = []" by auto
  have "svc_run (replicate (Suc (length (m' # q))) (WriteDone True True)) s = Some s'"
    using st s'(1) by (simp del: svc_step.simps)
  with s' show ?case by blast
qed

lemma drain_settled:
  assumes "settled s" "input_connected s"
  shows "\<exists>s'. svc_run (drain_labels s) s = Some s' \<and> accepted s' = accepted s \<and>
    input_pipe s' = input_pipe s \<and> input_connected s' \<and> settled s' \<and> in_flight s' = [] \<and> input_queue s' = []"
proof -
  have co: "connected_ok s" "pipes_ok s" using assms(1) by (simp_all add: settled_def svc_inv_def)
  then have n: "\<not> stop_requested s" "service_available s" "\<not> reset_requested s" "input_pipe s \<noteq> None"
    using assms(2) by (simp_all add: connected_ok_def)
  then have "holds_pipe (loop_at s)" using co(2) by (simp add: pipes_ok_def)
  then consider (queue) "loop_at s = WaitQueue" | (busy) m where "loop_at s = Writing m"
    by (cases "loop_at s") simp_all
  then show ?thesis
  proof cases
    case busy
    then show ?thesis using drain_writing [OF assms busy refl]
      by (simp add: drain_labels_def outstanding_def in_flight_def)
  next
    case queue
    show ?thesis
    proof (cases "input_queue s")
      case Nil
      then show ?thesis using assms queue by (simp add: drain_labels_def outstanding_def in_flight_def)
    next
      case (Cons m q)
      let ?s = "s\<lparr>input_queue := q, loop_at := Writing m\<rparr>"
      have st: "svc_step Wake s = Some ?s"
        using queue Cons n by (auto simp: can_wake_def loop_top_def)
      have "settled ?s" by (rule svc_step_settled [OF assms(1) st])
      from drain_writing [OF this, of m q] assms(2) obtain s' where
        "svc_run (replicate (Suc (length q)) (WriteDone True True)) ?s = Some s'"
        "accepted s' = accepted s" "input_pipe s' = input_pipe s" "input_connected s'" "settled s'"
        "in_flight s' = []" "input_queue s' = []" by auto
      moreover have "drain_labels s = Wake # replicate (Suc (length q)) (WriteDone True True)"
        using queue Cons by (simp add: drain_labels_def outstanding_def in_flight_def)
      ultimately show ?thesis using st by (simp del: svc_step.simps)
    qed
  qed
qed

text \<open>How far the thread is from its end once it has been told to stop.\<close>

definition stop_distance :: "loop_pc \<Rightarrow> nat" where
  "stop_distance pc = (case pc of NotRunning \<Rightarrow> 0 | Connecting \<Rightarrow> 2 | Writing _ \<Rightarrow> 2 | _ \<Rightarrow> 1)"

definition loop_label :: "label \<Rightarrow> bool" where
  "loop_label l = (case l of Wake \<Rightarrow> True | ConnectDone _ \<Rightarrow> True | WriteDone _ _ \<Rightarrow> True | _ \<Rightarrow> False)"

lemma stop_progress:
  assumes "stop_requested s" "loop_label l" "svc_step l s = Some s'"
  shows "stop_distance (loop_at s') < stop_distance (loop_at s) \<and> stop_requested s' \<and> closing s' = closing s"
  using assms
  by (cases l; cases "loop_at s")
    (auto simp: loop_label_def stop_distance_def can_wake_def loop_top_def connect_done_def write_done_def
      Let_def split: if_splits)

section \<open>Runs used as examples\<close>

definition all_ok :: start_answers where
  "all_ok = \<lparr>event_ok = True, write_event_ok = True, thread_ok = True\<rparr>"

definition demo_key :: KEYBDINPUT where
  "demo_key = \<lparr>wVk = 65, wScan = 30, ki_dwFlags = 0\<rparr>"

definition demo_run :: "label list" where
  "demo_run = [Announce all_ok True, Wake, ConnectDone True, Send (INPUT_KEYBOARD demo_key),
     Send (INPUT_KEYBOARD demo_key), Wake, WriteDone True True]"

lemma demo_state:
  "\<exists>s. svc_run demo_run init_svc = Some s \<and> reachable s \<and> input_connected s \<and>
     delivered s = [(Some 0, SendKeyboard_buffer demo_key)] \<and> loop_at s = Writing (SendKeyboard_buffer demo_key)"
proof -
  have "\<exists>s. svc_run demo_run init_svc = Some s \<and> input_connected s \<and>
     delivered s = [(Some 0, SendKeyboard_buffer demo_key)] \<and> loop_at s = Writing (SendKeyboard_buffer demo_key)"
    by (simp add: demo_run_def init_svc_def all_ok_def SetServiceAvailable_def StartInputThreadLocked_def
        can_wake_def loop_top_def connect_done_def SendInputMessage_def SendKeyboardLocked_def
        EnqueueLocked_def write_done_def)
  then show ?thesis using reachable_run [OF reachable_init, of demo_run] by blast
qed

section \<open>Properties\<close>

text \<open>C1: on every connection the service receives the messages the senders were told are queued,
  in order, each at most once and none from another connection; while the senders are connected
  nothing is missing: received, in flight and queued together are exactly what was accepted.\<close>

theorem service_fifo_exactly_once:
  assumes "reachable s"
  shows "prefix (sent_on c (delivered s)) (sent_on c (accepted s)) \<and>
    (input_connected s \<longrightarrow> (\<exists>c. input_pipe s = Some c \<and>
       sent_on c (delivered s) @ in_flight s @ input_queue s = sent_on c (accepted s)))"
proof -
  have i: "svc_inv s" using reachable_settled [OF assms] by (simp add: settled_def)
  then have l: "logs (next_pipe s) (accepted s) (delivered s) (input_pipe s) (in_flight s) (input_queue s) (input_connected s)"
    and co: "connected_ok s" by (simp_all add: svc_inv_def logs_ok_def)
  have "input_connected s \<Longrightarrow> \<exists>c. input_pipe s = Some c" using co by (auto simp: connected_ok_def)
  with l show ?thesis by (auto simp: logs_def)
qed

theorem service_fifo_exactly_once_witness:
  "\<exists>s. svc_run demo_run init_svc = Some s \<and>
     prefix (sent_on 0 (delivered s)) (sent_on 0 (accepted s)) \<and>
     (\<exists>c. input_pipe s = Some c \<and> sent_on c (delivered s) @ in_flight s @ input_queue s = sent_on c (accepted s))"
  using demo_state service_fifo_exactly_once by metis

text \<open>Without a connection nothing is queued and every send is refused and changes nothing; a
  send on an open connection is accepted exactly when the message can be built, and is then the
  last in the queue. No message can outlive the connection it was accepted on.\<close>

theorem send_refused_or_queued:
  assumes "reachable s"
  shows "(\<not> input_connected s \<longrightarrow> input_queue s = [] \<and> SendInputMessage i s = (s, False) \<and>
           SendTouchInput ps s = (s, False) \<and> SendPenInput p s = (s, False)) \<and>
    (input_connected s \<longrightarrow>
       snd (SendInputMessage i s) = (i \<noteq> INPUT_HARDWARE) \<and>
       snd (SendTouchInput ps s) = (SendTouch_buffer ps \<noteq> None) \<and>
       snd (SendPenInput p s) = (SendPen_buffer p \<noteq> None) \<and>
       (\<forall>b. SendTouch_buffer ps = Some b \<longrightarrow> input_queue (fst (SendTouchInput ps s)) = input_queue s @ [b]) \<and>
       (\<forall>k. i = INPUT_KEYBOARD k \<longrightarrow>
          input_queue (fst (SendInputMessage i s)) = input_queue s @ [SendKeyboard_buffer k]))"
proof -
  have "connected_ok s" using reachable_settled [OF assms] by (simp add: settled_def svc_inv_def)
  then have q: "\<not> input_connected s \<longrightarrow> input_queue s = []" by (auto simp: connected_ok_def)
  show ?thesis
  proof (cases "input_connected s")
    case False
    with q show ?thesis by (simp add: SendInputMessage_def SendTouchInput_def SendPenInput_def)
  next
    case True
    then show ?thesis
      by (auto simp: SendInputMessage_def SendKeyboardLocked_def SendMouseLocked_def SendTouchInput_def
          SendPenInput_def EnqueueLocked_def SendTouch_buffer_def SendPen_buffer_def split: INPUT.splits)
  qed
qed

theorem send_refused_or_queued_witness:
  "SendInputMessage (INPUT_KEYBOARD demo_key) init_svc = (init_svc, False)"
  using send_refused_or_queued [OF reachable_init, of "INPUT_KEYBOARD demo_key"] by (simp add: init_svc_def)

text \<open>C22: every pipe handle the thread opens is closed exactly once, and none is left when the thread
  has returned: the closed handles are distinct, and with the open one they are all that were made.\<close>

theorem pipes_closed_once:
  assumes "reachable s"
  shows "distinct (closed_pipes s) \<and>
    (case input_pipe s of
       None \<Rightarrow> set (closed_pipes s) = {..<next_pipe s}
     | Some c \<Rightarrow> c \<notin> set (closed_pipes s) \<and> insert c (set (closed_pipes s)) = {..<next_pipe s}) \<and>
    (loop_at s = NotRunning \<longrightarrow> input_pipe s = None)"
proof -
  have p: "pipes_ok s" using reachable_settled [OF assms] by (simp add: settled_def svc_inv_def)
  show ?thesis
  proof (cases "input_pipe s")
    case None
    with p show ?thesis by (simp add: pipes_ok_def pipe_list_def)
  next
    case (Some c)
    moreover from this p have "loop_at s \<noteq> NotRunning" by (cases "loop_at s") (simp_all add: pipes_ok_def)
    ultimately show ?thesis using p by (simp add: pipes_ok_def pipe_list_def)
  qed
qed

theorem pipes_closed_once_witness:
  "\<exists>s. svc_run demo_run init_svc = Some s \<and> distinct (closed_pipes s)"
  using demo_state pipes_closed_once by blast

text \<open>C21: the queue drains. With a connection and writes that succeed, as many writes as there are
  messages outstanding deliver every message that was accepted on it.\<close>

theorem queue_drains:
  assumes "reachable s" "input_connected s"
  shows "\<exists>s' c. svc_run (drain_labels s) s = Some s' \<and> input_pipe s = Some c \<and>
    sent_on c (delivered s') = sent_on c (accepted s) \<and> input_queue s' = [] \<and>
    length (drain_labels s) \<le> outstanding s + 1"
proof -
  obtain s' where s': "svc_run (drain_labels s) s = Some s'" "accepted s' = accepted s"
      "input_pipe s' = input_pipe s" "input_connected s'" "settled s'" "in_flight s' = []" "input_queue s' = []"
    using drain_settled [OF reachable_settled [OF assms(1)] assms(2)] by blast
  then have l: "logs (next_pipe s') (accepted s') (delivered s') (input_pipe s') [] [] True"
    by (simp add: settled_def svc_inv_def logs_ok_def)
  then obtain c where c: "input_pipe s' = Some c" by (auto simp: logs_def split: option.splits)
  from l have "sent_on c (delivered s') = sent_on c (accepted s')" by (simp add: logs_def c)
  with c s'(2,3) have "input_pipe s = Some c" "sent_on c (delivered s') = sent_on c (accepted s)"
    by simp_all
  moreover have "length (drain_labels s) \<le> outstanding s + 1" by (simp add: drain_labels_def)
  ultimately show ?thesis using s'(1,7) by blast
qed

theorem queue_drains_witness:
  "\<exists>s s' c. svc_run demo_run init_svc = Some s \<and> svc_run (drain_labels s) s = Some s' \<and>
     sent_on c (delivered s') = sent_on c (accepted s) \<and> input_queue s' = []"
  using demo_state queue_drains by metis

lemma closing_stops: "reachable s \<Longrightarrow> closing s \<Longrightarrow> stop_requested s"
proof -
  assume "reachable s" "closing s"
  then have "thread_ok_inv s" using reachable_settled [of s] by (simp add: settled_def svc_inv_def)
  then show "stop_requested s" using \<open>closing s\<close>
    by (cases "thread_joinable s") (simp_all add: thread_ok_inv_def thread_cfg_def)
qed

lemma stopping_enabled:
  assumes st: "stop_requested s" and n: "loop_at s \<noteq> NotRunning"
  shows "\<exists>l s'. loop_label l \<and> svc_step l s = Some s'"
proof -
  consider "can_wake s" | "loop_at s = Connecting" | m where "loop_at s = Writing m"
    using n st by (cases "loop_at s") (auto simp: can_wake_def)
  then show ?thesis
  proof cases
    case 1
    then have "svc_step Wake s = Some (loop_top s)" by simp
    then show ?thesis by (intro exI [of _ Wake]) (simp add: loop_label_def)
  next
    case 2
    then have "svc_step (ConnectDone True) s = Some (connect_done True s)" by simp
    then show ?thesis by (intro exI [of _ "ConnectDone True"]) (simp add: loop_label_def)
  next
    case 3
    then have "svc_step (WriteDone True True) s = Some (write_done True True m s)" by simp
    then show ?thesis by (intro exI [of _ "WriteDone True True"]) (simp add: loop_label_def)
  qed
qed

text \<open>So some steps of the thread lead to the join.\<close>

lemma closing_completes:
  "reachable s \<Longrightarrow> closing s \<Longrightarrow>
     \<exists>thread v. list_all loop_label thread \<and> length thread \<le> stop_distance (loop_at s) \<and>
       svc_run (thread @ [CloseJoined]) s = Some v"
proof (induction "stop_distance (loop_at s)" arbitrary: s rule: less_induct)
  case less
  show ?case
  proof (cases "loop_at s = NotRunning")
    case True
    then show ?thesis using less.prems by (intro exI [of _ "[]"]) simp
  next
    case False
    have st: "stop_requested s" by (rule closing_stops [OF less.prems])
    then obtain l s1 where l: "loop_label l" "svc_step l s = Some s1" using stopping_enabled False by blast
    have 1: "closing s1" "stop_distance (loop_at s1) < stop_distance (loop_at s)"
      using stop_progress [OF st l(1)] l less.prems(2) by auto
    obtain thread v where "list_all loop_label thread" "length thread \<le> stop_distance (loop_at s1)"
      "svc_run (thread @ [CloseJoined]) s1 = Some v"
      using less.hyps [OF 1(2) reachable_step [OF less.prems(1) l(2)] 1(1)] by blast
    with l 1 show ?thesis by (intro exI [of _ "l # thread"] exI [of _ v]) auto
  qed
qed

text \<open>C20: \<open>Close\<close> returns. Once it has asked the thread to stop, as long as the thread runs one of
  its steps is enabled and every step brings it strictly nearer its end, at most two steps away;
  then the join succeeds.\<close>

theorem close_terminates:
  assumes "reachable s" "closing s"
  shows "stop_distance (loop_at s) \<le> 2 \<and>
    (if loop_at s = NotRunning then svc_step CloseJoined s \<noteq> None
     else (\<exists>l s'. loop_label l \<and> svc_step l s = Some s') \<and>
          (\<forall>l s'. loop_label l \<longrightarrow> svc_step l s = Some s' \<longrightarrow>
             closing s' \<and> stop_distance (loop_at s') < stop_distance (loop_at s)))"
  using stop_progress [OF closing_stops [OF assms]] stopping_enabled [OF closing_stops [OF assms]] assms(2)
  by (auto simp: stop_distance_def split: loop_pc.splits)

lemma closing_state:
  "\<exists>s. svc_run (demo_run @ [CloseRequest]) init_svc = Some s \<and> reachable s \<and> closing s"
proof -
  have "\<exists>s. svc_run (demo_run @ [CloseRequest]) init_svc = Some s \<and> closing s"
    by (simp add: demo_run_def init_svc_def all_ok_def SetServiceAvailable_def StartInputThreadLocked_def
        can_wake_def loop_top_def connect_done_def SendInputMessage_def SendKeyboardLocked_def
        EnqueueLocked_def write_done_def Close_request_def)
  then show ?thesis using reachable_run [OF reachable_init, of "demo_run @ [CloseRequest]"] by blast
qed

theorem close_terminates_witness:
  "\<exists>s. svc_run (demo_run @ [CloseRequest]) init_svc = Some s \<and> stop_distance (loop_at s) \<le> 2"
  using closing_state close_terminates by blast

end
