(* ===== verification/PipeIo.thy ===== *)
theory PipeIo
  imports InputQueue
begin

text \<open>
  The overlapped operations of \<open>windows/desktop_service_input_client.cpp\<close>: \<open>CompleteIo\<close>, \<open>WriteMessage\<close> and
  \<open>TryConnect\<close>. While an operation is in flight the system owns its buffer and its \<open>OVERLAPPED\<close>, which lives
  on the stack of the call. What the system answers is an argument; the answers are part of the trace.
\<close>

section \<open>Completing an operation\<close>

text \<open>The outcome of \<open>WriteFile\<close>: done with that many bytes, in flight, or refused.\<close>

datatype io_begin = DoneNow nat | Pending | Refused

datatype wait_result = OperationSignalled | InterruptSignalled | WaitTimedOut | WaitFailed

datatype io_event =
    ResetsEvent
  | Begins nat io_begin
  | Waits bool nat wait_result        \<comment> \<open>for the interrupt too?, the limit\<close>
  | Cancels
  | TakesResult bool "nat option"     \<comment> \<open>waiting for it?\<close>

record io_answers =
  io_begun :: io_begin
  io_wait_fails :: bool
  io_operation :: bool                \<comment> \<open>signalled when the wait returns\<close>
  io_interrupt :: bool
  io_result :: "nat option"           \<comment> \<open>of an operation that has completed\<close>

text \<open>\<open>WaitForMultipleObjects\<close> reports the first of the events that is signalled.\<close>

definition wait_events :: "bool \<Rightarrow> io_answers \<Rightarrow> wait_result" where
  "wait_events interrupt a =
     (if io_wait_fails a then WaitFailed
      else if io_operation a then OperationSignalled
      else if interrupt \<and> io_interrupt a then InterruptSignalled
      else WaitTimedOut)"

definition CompleteIo :: "nat \<Rightarrow> bool \<Rightarrow> io_answers \<Rightarrow> bool \<times> nat \<times> io_event list" where
  "CompleteIo timeout interrupt a =
     (let result = wait_events interrupt a;
          transferred = (case io_result a of Some n \<Rightarrow> n | None \<Rightarrow> 0)
      in if result = OperationSignalled
         then (io_result a \<noteq> None, transferred, [Waits interrupt timeout result, TakesResult False (io_result a)])
         else (False, transferred, [Waits interrupt timeout result, Cancels, TakesResult True (io_result a)]))"

definition kWriteTimeoutMs :: nat where "kWriteTimeoutMs = 20"

definition WriteMessage :: "bool \<Rightarrow> nat \<Rightarrow> io_answers \<Rightarrow> bool \<times> io_event list" where
  "WriteMessage interrupt len a =
     (case io_begun a of
        DoneNow n \<Rightarrow> (n = len, [ResetsEvent, Begins len (DoneNow n)])
      | Refused \<Rightarrow> (False, [ResetsEvent, Begins len Refused])
      | Pending \<Rightarrow>
          (let (ok, transferred, events) = CompleteIo kWriteTimeoutMs interrupt a
           in (ok \<and> transferred = len, [ResetsEvent, Begins len Pending] @ events)))"

section \<open>Connecting\<close>

datatype open_result = Opens nat | PipeBusy | OpenFails

datatype connect_event = OpensPipe open_result | WaitsForPipe nat bool | SetsMessageMode nat bool | ClosesPipe nat

record connect_answers =
  ca_first :: open_result
  ca_pipe_free :: bool
  ca_second :: open_result
  ca_mode :: bool

definition kConnectBusyWaitMs :: nat where "kConnectBusyWaitMs = 2"

definition TryConnect :: "connect_answers \<Rightarrow> nat option \<times> connect_event list" where
  "TryConnect a =
     (let (opened, events) =
        (if ca_first a = PipeBusy then
           if ca_pipe_free a then (ca_second a, [OpensPipe PipeBusy, WaitsForPipe kConnectBusyWaitMs True, OpensPipe (ca_second a)])
           else (PipeBusy, [OpensPipe PipeBusy, WaitsForPipe kConnectBusyWaitMs False])
         else (ca_first a, [OpensPipe (ca_first a)]))
      in case opened of
           Opens pipe \<Rightarrow>
             if ca_mode a then (Some pipe, events @ [SetsMessageMode pipe True])
             else (None, events @ [SetsMessageMode pipe False, ClosesPipe pipe])
         | _ \<Rightarrow> (None, events))"

section \<open>What the calls leave behind\<close>

text \<open>
  Whether an operation is in flight after a trace; \<open>None\<close>: one was begun, waited for or asked for its result
  in the wrong order. A wait that reports the operation and a result that was waited for end it.
\<close>

fun in_flight_after :: "io_event list \<Rightarrow> bool \<Rightarrow> bool option" where
  "in_flight_after [] b = Some b"
| "in_flight_after (ResetsEvent # es) b = (if b then None else in_flight_after es False)"
| "in_flight_after (Begins n r # es) b = (if b then None else in_flight_after es (r = Pending))"
| "in_flight_after (Waits i t r # es) b = (if b then in_flight_after es (r \<noteq> OperationSignalled) else None)"
| "in_flight_after (Cancels # es) b = (if b then in_flight_after es True else None)"
| "in_flight_after (TakesResult waiting r # es) b = (if b \<and> \<not> waiting then None else in_flight_after es False)"

fun accepted_bytes :: "io_event list \<Rightarrow> nat" where
  "accepted_bytes [] = 0"
| "accepted_bytes (Begins k (DoneNow n) # es) = n + accepted_bytes es"
| "accepted_bytes (TakesResult waiting (Some n) # es) = n + accepted_bytes es"
| "accepted_bytes (_ # es) = accepted_bytes es"

fun waiting_limit :: "io_event list \<Rightarrow> nat" where
  "waiting_limit [] = 0"
| "waiting_limit (Waits i t r # es) = t + waiting_limit es"
| "waiting_limit (_ # es) = waiting_limit es"

text \<open>
  No operation outlives the call that began it, whatever the system answers; the wait for it is limited.
  A success means that the whole message was accepted; a failure may mean that too, if the operation
  was done while it was being cancelled.
\<close>

lemma CompleteIo_ends_operation:
  assumes "CompleteIo timeout interrupt a = (ok, transferred, events)"
  shows "in_flight_after events True = Some False" "waiting_limit events = timeout" "accepted_bytes events = transferred"
    and "ok \<longleftrightarrow> wait_events interrupt a = OperationSignalled \<and> io_result a = Some transferred"
    and "ok \<longleftrightarrow> Cancels \<notin> set events \<and> io_result a \<noteq> None"
  using assms by (auto simp: CompleteIo_def Let_def split: if_splits option.splits)

lemma WriteMessage_ends_operation:
  assumes "WriteMessage interrupt len a = (ok, events)"
  shows "in_flight_after events False = Some False" "waiting_limit events \<le> kWriteTimeoutMs" "ok \<Longrightarrow> accepted_bytes events = len"
proof -
  obtain ok' n es where c: "CompleteIo kWriteTimeoutMs interrupt a = (ok', n, es)" by (metis prod_cases3)
  note d = CompleteIo_ends_operation [OF c]
  show "in_flight_after events False = Some False" "waiting_limit events \<le> kWriteTimeoutMs" "ok \<Longrightarrow> accepted_bytes events = len"
    using assms c d(1-3) by (auto simp: WriteMessage_def split: io_begin.splits)
qed

lemma interrupt_cancels:
  assumes "io_begun a = Pending" "\<not> io_operation a" "io_interrupt a" "\<not> io_wait_fails a"
  shows "\<exists>r. WriteMessage True len a = (False, [ResetsEvent, Begins len Pending, Waits True kWriteTimeoutMs InterruptSignalled,
    Cancels, TakesResult True r])"
  using assms by (simp add: WriteMessage_def CompleteIo_def wait_events_def)

lemma accepted_but_failed:
  "\<exists>a. fst (WriteMessage True len a) = False \<and> accepted_bytes (snd (WriteMessage True len a)) = len"
  by (rule exI [of _ "\<lparr>io_begun = Pending, io_wait_fails = False, io_operation = False, io_interrupt = True, io_result = Some len\<rparr>"])
    (simp add: WriteMessage_def CompleteIo_def wait_events_def)

text \<open>The step of the input thread after a write records a packet as delivered exactly when all of it was accepted.\<close>

lemma write_step_records_accepted:
  assumes "WriteMessage True (length packet) a = (ok, events)"
  shows "delivered (write_done ok (accepted_bytes events = length packet) packet s) =
    delivered s @ (if accepted_bytes events = length packet then [(input_pipe s, packet)] else [])"
proof -
  have "delivered (loop_top t) = delivered t" for t
    by (simp add: loop_top_def close_pipe_def Let_def split: list.split option.split)
  then show ?thesis using WriteMessage_ends_operation(3) [OF assms] by (auto simp: write_done_def close_pipe_def Let_def split: option.split)
qed

text \<open>A pipe that was opened is returned, in message mode, or closed; a busy one is tried a second time at most.\<close>

lemma TryConnect_keeps_or_closes:
  assumes "TryConnect a = (r, events)"
  shows "r = Some pipe \<longleftrightarrow> SetsMessageMode pipe True \<in> set events"
    and "OpensPipe (Opens pipe) \<in> set events \<longleftrightarrow> r = Some pipe \<or> ClosesPipe pipe \<in> set events"
    and "r = Some pipe \<Longrightarrow> ClosesPipe p \<notin> set events"
    and "length (filter (\<lambda>e. \<exists>o1. e = OpensPipe o1) events) \<le> 2"
    and "WaitsForPipe ms b \<in> set events \<Longrightarrow> ms = 2"
  using assms by (auto simp: TryConnect_def kConnectBusyWaitMs_def split: if_splits open_result.splits)

end
