(* ===== verification/ControlChannel.thy ===== *)
theory ControlChannel
  imports InputWire
begin

text \<open>
  The request and response side of \<open>DesktopServiceInputClient\<close>
  (\<open>windows/desktop_service_input_client.cpp\<close>): one control pipe, opened for each call and closed
  when the call ends, over which display configurations are read, written and restored. What the
  operating system and the service answer is an argument: whether the pipe and its events can be
  made, whether a write completes, and the bytes that come back for a request.
\<close>

section \<open>State and environment\<close>

record ctl =
  pipe_open :: bool
  next_seq :: u32

record ctl_env =
  available :: bool          \<comment> \<open>\<open>service_available_ \<and> \<not> stop_requested_\<close> when looked at\<close>
  can_connect :: bool
  events_ok :: bool
  write_ok :: "u8 list \<Rightarrow> bool"
  reply :: "u8 list \<Rightarrow> u8 list option"  \<comment> \<open>\<open>None\<close>: an error, or nothing before the timeout\<close>

definition init_ctl :: ctl where
  "init_ctl = \<lparr>pipe_open = False, next_seq = 1\<rparr>"

definition ClosePipeLocked :: "ctl \<Rightarrow> ctl" where
  "ClosePipeLocked s = s\<lparr>pipe_open := False\<rparr>"

definition EnsureConnectedLocked :: "ctl_env \<Rightarrow> ctl \<Rightarrow> ctl \<times> bool" where
  "EnsureConnectedLocked e s =
     (if \<not> available e then (ClosePipeLocked s, False)
      else if pipe_open s then (s, True)
      else if can_connect e then
        (if \<not> events_ok e then (ClosePipeLocked (s\<lparr>pipe_open := True\<rparr>), False)
         else (s\<lparr>pipe_open := True\<rparr>, True))
      else (s, False))"

definition SendRawLocked :: "ctl_env \<Rightarrow> u8 list \<Rightarrow> ctl \<Rightarrow> ctl \<times> bool" where
  "SendRawLocked e data s = (if \<not> write_ok e data then (ClosePipeLocked s, False) else (s, True))"

text \<open>
  A pipe in message mode fails the read when the message is longer than the buffer; that, an error,
  a timeout and an empty message all close the pipe.
\<close>

definition ReadRawLocked :: "ctl_env \<Rightarrow> u8 list \<Rightarrow> ctl \<Rightarrow> ctl \<times> u8 list option" where
  "ReadRawLocked e request s =
     (case reply e request of
        None \<Rightarrow> (ClosePipeLocked s, None)
      | Some data \<Rightarrow>
          if kMaxMessageSize < length data then (ClosePipeLocked s, None)
          else if data = [] then (ClosePipeLocked s, None)
          else (s, Some data))"

definition request_bytes :: "u32 \<Rightarrow> u32 \<Rightarrow> u8 list \<Rightarrow> u8 list" where
  "request_bytes ty seq payload =
     header_bytes \<lparr>hd_type = ty, hd_payload_size = of_nat (length payload), hd_seq = seq\<rparr> @ payload"

definition next_sequence :: "u32 \<Rightarrow> u32" where
  "next_sequence n = (if n + 1 = 0 then 1 else n + 1)"

text \<open>The answer is the response's payload, \<open>None\<close> is \<open>return false\<close>.\<close>

definition ExchangeRawLocked ::
  "ctl_env \<Rightarrow> u32 \<Rightarrow> u8 list \<Rightarrow> u32 \<Rightarrow> nat \<Rightarrow> ctl \<Rightarrow> ctl \<times> u8 list option" where
  "ExchangeRawLocked e ty payload expected_type response_size s =
     (let seq = next_seq s;
          s = s\<lparr>next_seq := next_sequence (next_seq s)\<rparr>;
          request = request_bytes ty seq payload;
          (s, sent) = SendRawLocked e request s
      in if \<not> sent then (s, None)
         else case ReadRawLocked e request s of
             (s, None) \<Rightarrow> (s, None)
           | (s, Some response_data) \<Rightarrow>
               if length response_data < 12 then (s, None)
               else case read_header response_data of
                   None \<Rightarrow> (s, None)
                 | Some (h, body) \<Rightarrow>
                     if hd_seq h \<noteq> seq \<or> hd_payload_size h \<noteq> of_nat (length response_data - 12)
                        \<or> hd_type h = kMsgErrorResp \<or> hd_type h \<noteq> expected_type
                        \<or> hd_payload_size h \<noteq> of_nat response_size
                     then (s, None)
                     else (s, Some (take response_size body)))"

section \<open>Display configurations\<close>

record DisplayConfig =
  dcf_width :: int
  dcf_height :: int
  dcf_refresh_rate :: int

definition IsValidConfig :: "DisplayConfig \<Rightarrow> bool" where
  "IsValidConfig c \<longleftrightarrow> 0 < dcf_width c \<and> 0 < dcf_height c \<and> 0 < dcf_refresh_rate c"

definition config_payload :: "DisplayConfig \<Rightarrow> CustomDisplayConfigPayload" where
  "config_payload c = \<lparr>dc_width = of_int (dcf_width c), dc_height = of_int (dcf_height c),
     dc_refresh_rate = of_int (dcf_refresh_rate c)\<rparr>"

text \<open>
  Reading the response: \<open>configs\<close> is an out-parameter that is cleared first and keeps what was
  appended when an item is rejected.
\<close>

fun read_configs :: "nat \<Rightarrow> u32 list \<Rightarrow> DisplayConfig list \<Rightarrow> bool \<times> DisplayConfig list" where
  "read_configs 0 ws acc = (True, acc)"
| "read_configs (Suc n) (w # h # r # ws) acc =
     (if w = 0 \<or> h = 0 \<or> r = 0 then (False, acc)
      else read_configs n ws (acc @ [\<lparr>dcf_width = sint w, dcf_height = sint h, dcf_refresh_rate = sint r\<rparr>]))"
| "read_configs (Suc n) ws acc = (False, acc)"

definition GetCustomDisplayConfigs ::
  "ctl_env \<Rightarrow> DisplayConfig list \<Rightarrow> ctl \<Rightarrow> ctl \<times> bool \<times> DisplayConfig list" where
  "GetCustomDisplayConfigs e configs s =
     (let (s, connected) = EnsureConnectedLocked e s in
      if \<not> connected then (ClosePipeLocked s, False, configs)
      else case ExchangeRawLocked e kMsgGetCustomDisplayConfigs [] kMsgCustomDisplayConfigsResp 64 s of
          (s, None) \<Rightarrow> (ClosePipeLocked s, False, configs)
        | (s, Some response) \<Rightarrow>
            (case rd32s 16 response of
               Some (count # ws, _) \<Rightarrow>
                 if kMaxCustomDisplayConfigs < unat count then (ClosePipeLocked s, False, configs)
                 else (ClosePipeLocked s, read_configs (unat count) ws [])
             | _ \<Rightarrow> (ClosePipeLocked s, False, configs)))"

text \<open>The return value and the out-parameter \<open>success\<close>.\<close>

definition SetCustomDisplayConfigs :: "ctl_env \<Rightarrow> DisplayConfig list \<Rightarrow> ctl \<Rightarrow> ctl \<times> bool \<times> bool" where
  "SetCustomDisplayConfigs e configs s =
     (if kMaxCustomDisplayConfigs < length configs then (s, False, False)
      else if list_ex (\<lambda>c. \<not> IsValidConfig c) configs then (s, False, False)
      else
        let request = config_list_bytes (map config_payload configs);
            (s, connected) = EnsureConnectedLocked e s
        in if \<not> connected then (ClosePipeLocked s, False, False)
           else case ExchangeRawLocked e kMsgSetCustomDisplayConfigs request kMsgBoolResp 4 s of
               (s, None) \<Rightarrow> (ClosePipeLocked s, False, False)
             | (s, Some response) \<Rightarrow>
                 (case rd32 response of
                    Some (ok, _) \<Rightarrow> (ClosePipeLocked s, True, ok \<noteq> 0)
                  | None \<Rightarrow> (ClosePipeLocked s, False, False)))"

text \<open>
  Restoring sends the raw Windows structures: a path is 72 bytes, a mode 64. The status starts as
  \<open>ERROR_GEN_FAILURE\<close>.
\<close>

definition ERROR_GEN_FAILURE :: u32 where
  "ERROR_GEN_FAILURE = 31"

definition restore_payload :: "u8 list list \<Rightarrow> u8 list list \<Rightarrow> u8 list" where
  "restore_payload paths modes =
     le32s [of_nat (length paths), of_nat (length modes)] @ concat paths @ concat modes"

definition RestoreDisplayConfiguration_call ::
  "ctl_env \<Rightarrow> u8 list list \<Rightarrow> u8 list list \<Rightarrow> bool \<Rightarrow> ctl \<Rightarrow> ctl \<times> bool \<times> u32" where
  "RestoreDisplayConfiguration_call e paths modes persist s =
     (if paths = [] \<or> modes = [] \<or> kMaxMessageSize div 72 < length paths
         \<or> kMaxMessageSize div 64 < length modes then (s, False, ERROR_GEN_FAILURE)
      else if kMaxMessageSize < 12 + (8 + 72 * length paths + 64 * length modes)
      then (s, False, ERROR_GEN_FAILURE)
      else
        let payload = restore_payload paths modes;
            (s, connected) = EnsureConnectedLocked e s
        in if \<not> connected then (ClosePipeLocked s, False, ERROR_GEN_FAILURE)
           else case ExchangeRawLocked e
                 (if persist then kMsgRestoreDisplayConfig else kMsgRestoreTemporaryDisplayConfig) payload
                 (if persist then kMsgRestoreDisplayConfigResp else kMsgRestoreTemporaryDisplayConfigResp) 4 s of
               (s, None) \<Rightarrow> (ClosePipeLocked s, False, ERROR_GEN_FAILURE)
             | (s, Some response) \<Rightarrow>
                 (case rd32 response of
                    Some (status, _) \<Rightarrow> (ClosePipeLocked s, True, status)
                  | None \<Rightarrow> (ClosePipeLocked s, False, ERROR_GEN_FAILURE)))"

section \<open>Lemmas\<close>

lemma next_sequence_nonzero: "n \<noteq> 0 \<Longrightarrow> next_sequence n \<noteq> 0"
  by (simp add: next_sequence_def)

lemma length_request_bytes: "length (request_bytes ty seq payload) = 12 + length payload"
  by (simp add: request_bytes_def)

lemma read_request: "read_header (request_bytes ty seq payload) =
    Some (\<lparr>hd_type = ty, hd_payload_size = of_nat (length payload), hd_seq = seq\<rparr>, payload)"
  by (simp add: request_bytes_def)

lemma read_header_body: "read_header d = Some (h, b) \<Longrightarrow> length b = length d - 12 \<and> 12 \<le> length d"
proof -
  have r: "rd32s n d = Some (ws, b) \<Longrightarrow> length d = 4 * n + length b" for n d ws b
  proof (induction n arbitrary: d ws)
    case 0
    then show ?case by simp
  next
    case (Suc n)
    then obtain w d' ws' where "rd32 d = Some (w, d')" "rd32s n d' = Some (ws', b)"
      by (auto split: option.splits prod.splits)
    moreover from this(1) have "length d = 4 + length d'" by (cases d rule: rd32.cases) auto
    ultimately show ?case using Suc.IH by simp
  qed
  assume "read_header d = Some (h, b)"
  then have "\<exists>ws. rd32s 3 d = Some (ws, b)"
    by (auto simp: read_header_def split: option.splits prod.splits list.splits)
  then show ?thesis using r by fastforce
qed

text \<open>What a successful exchange is: the response answers this very request.\<close>

lemma Exchange_Some:
  assumes "ExchangeRawLocked e ty payload rty n s = (s', Some r)"
  shows "\<exists>d h b. write_ok e (request_bytes ty (next_seq s) payload) \<and>
    reply e (request_bytes ty (next_seq s) payload) = Some d \<and> length d \<le> kMaxMessageSize \<and>
    read_header d = Some (h, b) \<and> hd_seq h = next_seq s \<and> hd_type h = rty \<and> rty \<noteq> kMsgErrorResp \<and>
    hd_payload_size h = of_nat n \<and> hd_payload_size h = of_nat (length b) \<and> r = take n b \<and>
    next_seq s' = next_sequence (next_seq s)"
  using assms read_header_body
  by (auto simp: ExchangeRawLocked_def SendRawLocked_def ReadRawLocked_def Let_def
      split: option.splits prod.splits if_splits)

lemma Exchange_seq: "next_seq (fst (ExchangeRawLocked e ty payload rty n s)) = next_sequence (next_seq s)"
  by (auto simp: ExchangeRawLocked_def SendRawLocked_def ReadRawLocked_def ClosePipeLocked_def Let_def
      split: option.splits prod.splits)

lemma Exchange_honest:
  assumes "write_ok e (request_bytes ty (next_seq s) payload)"
    and "reply e (request_bytes ty (next_seq s) payload) = Some (request_bytes rty (next_seq s) r)"
    and "rty \<noteq> kMsgErrorResp" "length r = n" "n \<le> 4084"
  shows "ExchangeRawLocked e ty payload rty n s = (s\<lparr>next_seq := next_sequence (next_seq s)\<rparr>, Some r)"
  using assms length_request_bytes [of rty "next_seq s" r]
  by (simp add: ExchangeRawLocked_def SendRawLocked_def ReadRawLocked_def read_request kMaxMessageSize_def
      Let_def flip: length_0_conv)

lemma Ensure_pipe: "EnsureConnectedLocked e s = (s', True) \<Longrightarrow> pipe_open s' \<and> next_seq s' = next_seq s"
  by (auto simp: EnsureConnectedLocked_def split: if_splits)

lemma Ensure_seq: "next_seq (fst (EnsureConnectedLocked e s)) = next_seq s"
  by (auto simp: EnsureConnectedLocked_def ClosePipeLocked_def)

lemma close_simps [simp]: "pipe_open (ClosePipeLocked s) = False" "next_seq (ClosePipeLocked s) = next_seq s"
  by (simp_all add: ClosePipeLocked_def)

lemma sint_of_int_32: "0 < i \<Longrightarrow> i < 2 ^ 31 \<Longrightarrow> sint (of_int i :: u32) = i"
  by (simp add: sint_sbintrunc' signed_take_bit_int_eq_self)

lemma of_int_nonzero_32: "0 < i \<Longrightarrow> i < 2 ^ 31 \<Longrightarrow> (of_int i :: u32) \<noteq> 0"
  using sint_of_int_32 [of i] by auto

definition fits :: "DisplayConfig \<Rightarrow> bool" where
  "fits c \<longleftrightarrow> IsValidConfig c \<and> dcf_width c < 2 ^ 31 \<and> dcf_height c < 2 ^ 31 \<and> dcf_refresh_rate c < 2 ^ 31"

lemma read_configs_words:
  "\<forall>c \<in> set cs. fits c \<Longrightarrow>
     read_configs (length cs) (concat (map config_words (map config_payload cs)) @ rest) acc = (True, acc @ cs)"
proof (induction cs arbitrary: acc)
  case Nil
  then show ?case by simp
next
  case (Cons c cs)
  from Cons.prems have "fits c" by simp
  then have "\<lparr>dcf_width = sint (of_int (dcf_width c) :: u32), dcf_height = sint (of_int (dcf_height c) :: u32),
      dcf_refresh_rate = sint (of_int (dcf_refresh_rate c) :: u32)\<rparr> = c"
    by (simp add: fits_def IsValidConfig_def sint_of_int_32)
  moreover have "(of_int (dcf_width c) :: u32) \<noteq> 0" "(of_int (dcf_height c) :: u32) \<noteq> 0"
      "(of_int (dcf_refresh_rate c) :: u32) \<noteq> 0"
    using \<open>fits c\<close> by (simp_all add: fits_def IsValidConfig_def of_int_nonzero_32)
  ultimately show ?case using Cons by (simp add: config_words_def config_payload_def)
qed

text \<open>An environment whose service answers a request with a given type and payload.\<close>

definition answering :: "u32 \<Rightarrow> u8 list \<Rightarrow> u32 \<Rightarrow> ctl_env" where
  "answering ty r seq = \<lparr>available = True, can_connect = True, events_ok = True, write_ok = (\<lambda>_. True),
     reply = (\<lambda>_. Some (request_bytes ty seq r))\<rparr>"

section \<open>Properties\<close>

text \<open>Exchanges one after the other, with the number each has used. What happens between them keeps the number.\<close>

record exchange =
  ex_env :: ctl_env
  ex_type :: u32
  ex_payload :: "u8 list"
  ex_expected :: u32
  ex_size :: nat

fun exchange_run :: "exchange list \<Rightarrow> ctl \<Rightarrow> (u32 \<times> u8 list option) list" where
  "exchange_run [] s = []"
| "exchange_run (x # xs) s =
     (let (s', r) = ExchangeRawLocked (ex_env x) (ex_type x) (ex_payload x) (ex_expected x) (ex_size x) s
      in (next_seq s, r) # exchange_run xs s')"

lemma between_exchanges: "next_seq (ClosePipeLocked s) = next_seq s" "next_seq (fst (EnsureConnectedLocked e s)) = next_seq s"
  by (simp_all add: Ensure_seq ClosePipeLocked_def)

text \<open>The numbers run through 1 to \<open>2 ^ 32 - 1\<close>.\<close>

lemma next_sequence_uint:
  assumes "n \<noteq> 0"
  shows "uint (next_sequence n) = (uint n - 1 + 1) mod (2 ^ 32 - 1) + 1"
proof -
  have n: "0 < uint n" "uint n < 2 ^ 32" using assms unsigned_less [of n] by (simp_all add: word_neq_0_conv word_less_def)
  show ?thesis
  proof (cases "n + 1 = 0")
    case True
    then have "n = - 1" by (simp add: eq_neg_iff_add_eq_0)
    then have "uint n = 2 ^ 32 - 1" by (simp add: unsigned_minus_1_eq_mask mask_eq_exp_minus_1)
    with True show ?thesis by (simp add: next_sequence_def)
  next
    case False
    have "uint n \<noteq> 2 ^ 32 - 1"
    proof
      assume "uint n = 2 ^ 32 - 1"
      then have "of_int (uint n) = (of_int (2 ^ 32 - 1) :: u32)" by simp
      then have "n = - 1" by simp
      with False show False by simp
    qed
    then have "uint n + 1 < 2 ^ 32" "uint n < 2 ^ 32 - 1" using n by simp_all
    then have "uint (n + 1) = uint n + 1" "uint n mod (2 ^ 32 - 1) = uint n" using n by (simp_all add: uint_word_ariths)
    with False show ?thesis by (simp add: next_sequence_def)
  qed
qed

lemma numbers_used:
  assumes "next_seq s \<noteq> 0" "i < length xs"
  shows "uint (fst (exchange_run xs s ! i)) = (uint (next_seq s) - 1 + int i) mod (2 ^ 32 - 1) + 1"
  using assms
proof (induction xs arbitrary: s i)
  case (Cons x xs)
  obtain s' r where r: "ExchangeRawLocked (ex_env x) (ex_type x) (ex_payload x) (ex_expected x) (ex_size x) s = (s', r)"
    by (metis prod.collapse)
  then have n: "next_seq s' = next_sequence (next_seq s)"
    using Exchange_seq [of "ex_env x" "ex_type x" "ex_payload x" "ex_expected x" "ex_size x" s] by simp
  have u: "0 < uint (next_seq s)" "uint (next_seq s) < 2 ^ 32"
    using Cons.prems(1) unsigned_less [of "next_seq s"] by (simp_all add: word_neq_0_conv word_less_def)
  show ?case
  proof (cases i)
    case 0
    then show ?thesis using r u by simp
  next
    case (Suc j)
    have "uint (fst (exchange_run xs s' ! j)) = (uint (next_seq s') - 1 + int j) mod (2 ^ 32 - 1) + 1"
      using Cons Suc n next_sequence_nonzero by simp
    also have "uint (next_seq s') - 1 = (uint (next_seq s) - 1 + 1) mod (2 ^ 32 - 1)"
      using next_sequence_uint [OF Cons.prems(1)] n by simp
    also have "(((uint (next_seq s) - 1 + 1) mod (2 ^ 32 - 1)) + int j) mod (2 ^ 32 - 1) =
        (uint (next_seq s) - 1 + int i) mod (2 ^ 32 - 1)"
      unfolding mod_add_left_eq using Suc by (simp add: algebra_simps)
    finally show ?thesis using r Suc by simp
  qed
qed simp

lemma exchange_run_nth:
  "i < length xs \<Longrightarrow> \<exists>t. exchange_run xs s ! i =
    (next_seq t, snd (ExchangeRawLocked (ex_env (xs ! i)) (ex_type (xs ! i)) (ex_payload (xs ! i)) (ex_expected (xs ! i)) (ex_size (xs ! i)) t))"
proof (induction xs arbitrary: s i)
  case (Cons x xs)
  then show ?case by (cases i) (auto simp: case_prod_beta)
qed simp

lemma exchange_accepts:
  assumes "snd (ExchangeRawLocked e ty payload rty n s) = Some p"
  shows "\<exists>d b. reply e (request_bytes ty (next_seq s) payload) = Some d \<and> length d \<le> 4096 \<and>
    read_header d = Some (\<lparr>hd_type = rty, hd_payload_size = of_nat n, hd_seq = next_seq s\<rparr>, b) \<and>
    rty \<noteq> kMsgErrorResp \<and> p = take n b \<and> (of_nat (length b) :: u32) = of_nat n"
proof -
  obtain s' where r: "ExchangeRawLocked e ty payload rty n s = (s', Some p)" using assms by (metis prod.collapse)
  from Exchange_Some [OF r] obtain d h b where d:
    "reply e (request_bytes ty (next_seq s) payload) = Some d" "length d \<le> kMaxMessageSize"
    "read_header d = Some (h, b)" "hd_seq h = next_seq s" "hd_type h = rty" "rty \<noteq> kMsgErrorResp"
    "hd_payload_size h = of_nat n" "hd_payload_size h = of_nat (length b)" "p = take n b" by blast
  moreover have "h = \<lparr>hd_type = rty, hd_payload_size = of_nat n, hd_seq = next_seq s\<rparr>"
    using d by (cases h) simp
  ultimately show ?thesis by (auto simp: kMaxMessageSize_def)
qed


definition demo_exchange :: "u32 \<Rightarrow> exchange" where
  "demo_exchange seq = \<lparr>ex_env = answering 0x85 [1, 0, 0, 0] seq, ex_type = kMsgSetCustomDisplayConfigs, ex_payload = [],
     ex_expected = kMsgBoolResp, ex_size = 4\<rparr>"


text \<open>C26: custom resolutions survive the service. Setting is refused for more than five or for a
  configuration that is not positive, without a message being sent; a service that stores the
  message of a set and sends it back for a get makes the get return the same configurations, and
  no call leaves the control pipe open for a late answer.\<close>

theorem custom_configs_roundtrip:
  "(snd (SetCustomDisplayConfigs e cs s) \<noteq> (False, False) \<longrightarrow> length cs \<le> 5 \<and> (\<forall>c \<in> set cs. IsValidConfig c)) \<and>
   (length cs \<le> 5 \<and> (\<forall>c \<in> set cs. fits c) \<and> available e \<and> can_connect e \<and> events_ok e \<and>
      write_ok e (request_bytes kMsgGetCustomDisplayConfigs (next_seq s) []) \<and>
      reply e (request_bytes kMsgGetCustomDisplayConfigs (next_seq s) []) =
        Some (request_bytes kMsgCustomDisplayConfigsResp (next_seq s) (config_list_bytes (map config_payload cs)))
    \<longrightarrow> snd (GetCustomDisplayConfigs e old s) = (True, cs)) \<and>
   (length cs \<le> 5 \<and> (\<forall>c \<in> set cs. IsValidConfig c) \<and> available e \<and> can_connect e \<and> events_ok e \<and>
      (let msg = request_bytes kMsgSetCustomDisplayConfigs (next_seq s) (config_list_bytes (map config_payload cs))
       in write_ok e msg \<and> reply e msg = Some (request_bytes kMsgBoolResp (next_seq s) (le32 ok)))
    \<longrightarrow> snd (SetCustomDisplayConfigs e cs s) = (True, ok \<noteq> 0)) \<and>
   \<not> pipe_open (fst (GetCustomDisplayConfigs e old s)) \<and>
   (\<not> pipe_open s \<longrightarrow> \<not> pipe_open (fst (SetCustomDisplayConfigs e cs s)))"
proof (intro conjI impI)
  assume "snd (SetCustomDisplayConfigs e cs s) \<noteq> (False, False)"
  then show "length cs \<le> 5" "\<forall>c \<in> set cs. IsValidConfig c"
    by (auto simp: SetCustomDisplayConfigs_def kMaxCustomDisplayConfigs_def list_ex_iff split: if_splits)
next
  show "\<not> pipe_open (fst (GetCustomDisplayConfigs e old s))"
    by (simp add: GetCustomDisplayConfigs_def Let_def split: prod.split option.split list.split)
next
  assume "\<not> pipe_open s"
  then show "\<not> pipe_open (fst (SetCustomDisplayConfigs e cs s))"
    by (simp add: SetCustomDisplayConfigs_def Let_def split: prod.split option.split)
next
  assume a: "length cs \<le> 5 \<and> (\<forall>c \<in> set cs. IsValidConfig c) \<and> available e \<and> can_connect e \<and> events_ok e \<and>
      (let msg = request_bytes kMsgSetCustomDisplayConfigs (next_seq s) (config_list_bytes (map config_payload cs))
       in write_ok e msg \<and> reply e msg = Some (request_bytes kMsgBoolResp (next_seq s) (le32 ok)))"
  let ?b = "config_list_bytes (map config_payload cs)"
  obtain s1 where s1: "EnsureConnectedLocked e s = (s1, True)" "next_seq s1 = next_seq s"
    using a by (cases "pipe_open s") (simp_all add: EnsureConnectedLocked_def)
  have ex: "ExchangeRawLocked e kMsgSetCustomDisplayConfigs ?b kMsgBoolResp 4 s1 =
      (s1\<lparr>next_seq := next_sequence (next_seq s1)\<rparr>, Some (le32 ok))"
    using a s1 by (intro Exchange_honest) (simp_all add: message_types Let_def)
  show "snd (SetCustomDisplayConfigs e cs s) = (True, ok \<noteq> 0)"
    using a rd32_le32 [of ok "[]"]
    by (simp add: SetCustomDisplayConfigs_def kMaxCustomDisplayConfigs_def list_ex_iff s1 ex)
next
  assume a: "length cs \<le> 5 \<and> (\<forall>c \<in> set cs. fits c) \<and> available e \<and> can_connect e \<and> events_ok e \<and>
      write_ok e (request_bytes kMsgGetCustomDisplayConfigs (next_seq s) []) \<and>
      reply e (request_bytes kMsgGetCustomDisplayConfigs (next_seq s) []) =
        Some (request_bytes kMsgCustomDisplayConfigsResp (next_seq s) (config_list_bytes (map config_payload cs)))"
  let ?b = "config_list_bytes (map config_payload cs)"
  let ?ws = "concat (map config_words (map config_payload cs)) @ replicate (3 * (kMaxCustomDisplayConfigs - length cs)) 0"
  have l: "length cs \<le> 5" using a by blast
  have n: "unat (of_nat (length cs) :: u32) = length cs" using l by (simp add: unat_of_nat take_bit_nat_eq_self)
  obtain s1 where s1: "EnsureConnectedLocked e s = (s1, True)" "next_seq s1 = next_seq s"
    using a by (cases "pipe_open s") (simp_all add: EnsureConnectedLocked_def)
  have "length (map config_payload cs) \<le> kMaxCustomDisplayConfigs" using l by (simp add: kMaxCustomDisplayConfigs_def)
  then have lb: "length ?b = 64" by (rule length_config_list_bytes)
  have ex: "ExchangeRawLocked e kMsgGetCustomDisplayConfigs [] kMsgCustomDisplayConfigsResp 64 s1 =
      (s1\<lparr>next_seq := next_sequence (next_seq s1)\<rparr>, Some ?b)"
    using a lb s1 by (intro Exchange_honest) (simp_all add: message_types)
  have "rd32s 16 (le32s (of_nat (length cs) # ?ws) @ []) = Some (of_nat (length cs) # ?ws, [])"
    using l length_configs [of "map config_payload cs"]
    by (intro rd32s_le32s_n) (simp add: kMaxCustomDisplayConfigs_def del: length_configs)
  then have rd: "rd32s 16 ?b = Some (of_nat (length cs) # ?ws, [])"
    by (simp only: config_list_bytes_def length_map append_Nil2)
  have "read_configs (length cs) ?ws [] = (True, cs)" using a read_configs_words [of cs] by simp
  then show "snd (GetCustomDisplayConfigs e old s) = (True, cs)"
    using l by (simp add: GetCustomDisplayConfigs_def s1 ex rd n kMaxCustomDisplayConfigs_def)
qed

theorem custom_configs_roundtrip_witness:
  "snd (GetCustomDisplayConfigs
      (answering kMsgCustomDisplayConfigsResp
        (config_list_bytes (map config_payload [\<lparr>dcf_width = 1920, dcf_height = 1080, dcf_refresh_rate = 60\<rparr>])) 1)
      [] init_ctl) = (True, [\<lparr>dcf_width = 1920, dcf_height = 1080, dcf_refresh_rate = 60\<rparr>])"
  using custom_configs_roundtrip [where s = init_ctl and old = "[]" and
      cs = "[\<lparr>dcf_width = 1920, dcf_height = 1080, dcf_refresh_rate = 60\<rparr>]" and
      e = "answering kMsgCustomDisplayConfigsResp
        (config_list_bytes (map config_payload [\<lparr>dcf_width = 1920, dcf_height = 1080, dcf_refresh_rate = 60\<rparr>])) 1"]
  by (simp add: answering_def init_ctl_def fits_def IsValidConfig_def)

text \<open>C27: restoring a display configuration through the service never sends a message above the
  4096 bytes the service reads and never an empty configuration; the status is the one the service
  answered to this request, and \<open>ERROR_GEN_FAILURE\<close> whenever the call fails.\<close>

theorem restore_call_bounded:
  assumes "\<forall>p \<in> set paths. length p = 72" and "\<forall>m \<in> set modes. length m = 64"
  shows "case RestoreDisplayConfiguration_call e paths modes persist s of
      (s', False, status) \<Rightarrow> status = ERROR_GEN_FAILURE
    | (s', True, status) \<Rightarrow>
        paths \<noteq> [] \<and> modes \<noteq> [] \<and> 12 + length (restore_payload paths modes) \<le> 4096 \<and>
        (\<exists>d b r. reply e (request_bytes
              (if persist then kMsgRestoreDisplayConfig else kMsgRestoreTemporaryDisplayConfig) (next_seq s)
              (restore_payload paths modes)) = Some d \<and>
           read_header d = Some (\<lparr>hd_type = (if persist then kMsgRestoreDisplayConfigResp
                else kMsgRestoreTemporaryDisplayConfigResp), hd_payload_size = 4, hd_seq = next_seq s\<rparr>, b) \<and>
           rd32 (take 4 b) = Some (status, r))"
proof -
  have c: "length (concat xs) = n * length xs" if "\<forall>x \<in> set xs. length x = n" for n and xs :: "u8 list list"
    using that by (induction xs) simp_all
  have len: "length (restore_payload paths modes) = 8 + 72 * length paths + 64 * length modes"
    using c [OF assms(1)] c [OF assms(2)] by (simp add: restore_payload_def del: length_concat)
  let ?ty = "if persist then kMsgRestoreDisplayConfig else kMsgRestoreTemporaryDisplayConfig"
  let ?rty = "if persist then kMsgRestoreDisplayConfigResp else kMsgRestoreTemporaryDisplayConfigResp"
  obtain s' b st where r: "RestoreDisplayConfiguration_call e paths modes persist s = (s', b, st)"
    by (cases "RestoreDisplayConfiguration_call e paths modes persist s")
  show ?thesis
  proof (cases b)
    case False
    then show ?thesis using r
      by (auto simp: RestoreDisplayConfiguration_call_def Let_def split: prod.splits option.splits if_splits)
  next
    case True
    obtain s1 where s1: "EnsureConnectedLocked e s = (s1, True)"
      using r True by (cases "EnsureConnectedLocked e s")
        (auto simp: RestoreDisplayConfiguration_call_def Let_def split: if_splits)
    obtain s2 p where ex: "ExchangeRawLocked e ?ty (restore_payload paths modes) ?rty 4 s1 = (s2, Some p)"
      and p: "\<exists>x. rd32 p = Some (st, x)"
      using r True s1
      by (cases "ExchangeRawLocked e ?ty (restore_payload paths modes) ?rty 4 s1")
        (auto simp: RestoreDisplayConfiguration_call_def Let_def split: if_splits option.splits)
    have g: "paths \<noteq> []" "modes \<noteq> []" "12 + length (restore_payload paths modes) \<le> 4096"
      using r True by (auto simp: RestoreDisplayConfiguration_call_def len kMaxMessageSize_def split: if_splits)
    have n: "next_seq s1 = next_seq s" using Ensure_pipe [OF s1] by simp
    from Exchange_Some [OF ex] obtain d h bb where d:
      "reply e (request_bytes ?ty (next_seq s) (restore_payload paths modes)) = Some d"
      "read_header d = Some (h, bb)" "hd_seq h = next_seq s" "hd_type h = ?rty" "hd_payload_size h = of_nat 4"
      "p = take 4 bb" unfolding n by blast
    moreover have "h = \<lparr>hd_type = ?rty, hd_payload_size = 4, hd_seq = next_seq s\<rparr>" using d by (cases h) simp
    ultimately show ?thesis using r True g p by auto
  qed
qed

theorem restore_call_bounded_witness:
  "case RestoreDisplayConfiguration_call (answering kMsgRestoreDisplayConfigResp [0, 0, 0, 0] 1)
      [replicate 72 0] [replicate 64 0] True init_ctl of
     (s', False, status) \<Rightarrow> status = ERROR_GEN_FAILURE
   | (s', True, status) \<Rightarrow> 12 + length (restore_payload [replicate 72 0] [replicate 64 0]) \<le> 4096"
  using restore_call_bounded [of "[replicate 72 0]" "[replicate 64 0]"
      "answering kMsgRestoreDisplayConfigResp [0, 0, 0, 0] 1" True init_ctl]
  by (auto split: prod.splits bool.splits)

end
