(* ===== verification/WinInput.thy ===== *)
theory WinInput
  imports InputQueue Coords Scroll "HOL-Library.AList"
begin

text \<open>
  Keyboard, mouse and text injection of \<open>windows/hardware_simulator_plugin.cpp\<close> and
  \<open>windows/windows_text_input_injector.cc\<close>: the state the handlers keep, the inputs each handler
  builds, and the way an input travels, through the desktop service or \<open>SendInput\<close> with its retry
  loop. A handler returns its new state and the list of things it sends, in order; \<open>send_input\<close>
  and its siblings then say what becomes of each.
\<close>

section \<open>Windows constants\<close>

definition KEYEVENTF_EXTENDEDKEY :: u32 where "KEYEVENTF_EXTENDEDKEY = 0x1"
definition KEYEVENTF_KEYUP :: u32 where "KEYEVENTF_KEYUP = 0x2"
definition KEYEVENTF_UNICODE :: u32 where "KEYEVENTF_UNICODE = 0x4"
definition KEYEVENTF_SCANCODE :: u32 where "KEYEVENTF_SCANCODE = 0x8"

definition VK_PAUSE :: u16 where "VK_PAUSE = 0x13"
definition VK_LWIN :: u16 where "VK_LWIN = 0x5B"
definition VK_RWIN :: u16 where "VK_RWIN = 0x5C"

text \<open>\<open>VK_RMENU, VK_RCONTROL, VK_INSERT, VK_DELETE, VK_HOME, VK_END, VK_PRIOR, VK_NEXT, VK_UP,
  VK_DOWN, VK_LEFT, VK_RIGHT, VK_DIVIDE\<close>\<close>

definition extended_keys :: "u16 list" where
  "extended_keys = [0xA5, 0xA3, 0x2D, 0x2E, 0x24, 0x23, 0x21, 0x22, 0x26, 0x28, 0x25, 0x27, 0x6F]"

definition MOUSEEVENTF_MOVE :: u32 where "MOUSEEVENTF_MOVE = 0x1"
definition MOUSEEVENTF_LEFTDOWN :: u32 where "MOUSEEVENTF_LEFTDOWN = 0x2"
definition MOUSEEVENTF_LEFTUP :: u32 where "MOUSEEVENTF_LEFTUP = 0x4"
definition MOUSEEVENTF_RIGHTDOWN :: u32 where "MOUSEEVENTF_RIGHTDOWN = 0x8"
definition MOUSEEVENTF_RIGHTUP :: u32 where "MOUSEEVENTF_RIGHTUP = 0x10"
definition MOUSEEVENTF_MIDDLEDOWN :: u32 where "MOUSEEVENTF_MIDDLEDOWN = 0x20"
definition MOUSEEVENTF_MIDDLEUP :: u32 where "MOUSEEVENTF_MIDDLEUP = 0x40"
definition MOUSEEVENTF_XDOWN :: u32 where "MOUSEEVENTF_XDOWN = 0x80"
definition MOUSEEVENTF_XUP :: u32 where "MOUSEEVENTF_XUP = 0x100"
definition MOUSEEVENTF_WHEEL :: u32 where "MOUSEEVENTF_WHEEL = 0x800"
definition MOUSEEVENTF_HWHEEL :: u32 where "MOUSEEVENTF_HWHEEL = 0x1000"
definition MOUSEEVENTF_VIRTUALDESK :: u32 where "MOUSEEVENTF_VIRTUALDESK = 0x4000"
definition MOUSEEVENTF_ABSOLUTE :: u32 where "MOUSEEVENTF_ABSOLUTE = 0x8000"

lemmas mouse_flags = MOUSEEVENTF_MOVE_def MOUSEEVENTF_LEFTDOWN_def MOUSEEVENTF_LEFTUP_def
  MOUSEEVENTF_RIGHTDOWN_def MOUSEEVENTF_RIGHTUP_def MOUSEEVENTF_MIDDLEDOWN_def MOUSEEVENTF_MIDDLEUP_def
  MOUSEEVENTF_XDOWN_def MOUSEEVENTF_XUP_def MOUSEEVENTF_WHEEL_def MOUSEEVENTF_HWHEEL_def
  MOUSEEVENTF_VIRTUALDESK_def MOUSEEVENTF_ABSOLUTE_def

section \<open>State\<close>

text \<open>
  Times are ticks of the steady clock in nanoseconds. The two hash maps are association lists in
  their iteration order.
\<close>

record KeyState =
  ks_isDown :: bool
  ks_lastEventTime :: int

record TouchState =
  ts_isDown :: bool
  ts_x :: dbl
  ts_y :: dbl
  ts_screenId :: int
  ts_lastEventTime :: int

record win =
  g_touchInfo :: "POINTER_TYPE_INFO list"
  g_activeTouchSlots :: nat
  g_penInfo :: POINTER_TYPE_INFO
  g_auto_repeat_enabled :: bool
  g_key_states :: "(u16 \<times> KeyState) list"
  g_last_known_key_down :: u16
  g_touch_states :: "(u32 \<times> TouchState) list"
  g_last_pen_input_time :: int
  g_last_pen_refresh_time :: int

definition zero_pointer :: POINTER_TYPE_INFO where
  "zero_pointer = \<lparr>pti_type = PT_OTHER, touchInfo = zero_touch_info, penInfo = zero_pen_info\<rparr>"

definition init_win :: win where
  "init_win = \<lparr>g_touchInfo = replicate 10 zero_pointer, g_activeTouchSlots = 0, g_penInfo = zero_pointer,
     g_auto_repeat_enabled = True, g_key_states = [], g_last_known_key_down = 0, g_touch_states = [],
     g_last_pen_input_time = 0, g_last_pen_refresh_time = 0\<rparr>"

text \<open>What handlers send, and the parts of Windows they ask.\<close>

datatype effect =
    Input INPUT
  | LocalInput INPUT                       \<comment> \<open>\<open>SendInput\<close> directly, without the service\<close>
  | TouchFrame "POINTER_TYPE_INFO list"    \<comment> \<open>the first \<open>g_activeTouchSlots\<close> slots\<close>
  | PenFrame POINTER_TYPE_INFO
  | SyncCursor

record win_env =
  MapVirtualKey :: "u16 \<Rightarrow> u16"
  MulDiv :: "int \<Rightarrow> int \<Rightarrow> int \<Rightarrow> int"
  screen_metrics :: metrics
  monitors :: "monitor_info list"
  polar_tilt :: "dbl \<Rightarrow> dbl \<Rightarrow> int \<times> int"  \<comment> \<open>the trigonometry of the pen, from rotation and tilt\<close>
  async_key :: "u16 \<Rightarrow> bool"              \<comment> \<open>\<open>GetAsyncKeyState\<close> says the key is down\<close>

definition zero_mouse :: MOUSEINPUT where
  "zero_mouse = \<lparr>mi_dx = 0, mi_dy = 0, mi_mouseData = 0, mi_dwFlags = 0\<rparr>"

definition zero_key :: KEYBDINPUT where
  "zero_key = \<lparr>wVk = 0, wScan = 0, ki_dwFlags = 0\<rparr>"

section \<open>Keyboard\<close>

definition key_input :: "win_env \<Rightarrow> u16 \<Rightarrow> bool \<Rightarrow> KEYBDINPUT" where
  "key_input e modcode isDown =
     (let ki = (if modcode \<noteq> VK_LWIN \<and> modcode \<noteq> VK_RWIN \<and> modcode \<noteq> VK_PAUSE
                then zero_key\<lparr>wScan := MapVirtualKey e modcode, ki_dwFlags := KEYEVENTF_SCANCODE\<rparr>
                else zero_key\<lparr>wVk := modcode\<rparr>);
          ki = (if modcode \<in> set extended_keys
                then ki\<lparr>ki_dwFlags := ki_dwFlags ki OR KEYEVENTF_EXTENDEDKEY\<rparr> else ki)
      in if \<not> isDown then ki\<lparr>ki_dwFlags := ki_dwFlags ki OR KEYEVENTF_KEYUP\<rparr> else ki)"

definition performKeyEvent :: "win_env \<Rightarrow> int \<Rightarrow> u16 \<Rightarrow> bool \<Rightarrow> bool \<Rightarrow> win \<Rightarrow> win \<times> effect list" where
  "performKeyEvent e now modcode isDown isRepeat w =
     (let sent = [Input (INPUT_KEYBOARD (key_input e modcode isDown))] in
      if g_auto_repeat_enabled w \<and> \<not> isRepeat then
        if isDown then
          (w\<lparr>g_key_states := AList.update modcode \<lparr>ks_isDown = True, ks_lastEventTime = now\<rparr> (g_key_states w),
             g_last_known_key_down := modcode\<rparr>, sent)
        else if map_of (g_key_states w) modcode \<noteq> None then
          (w\<lparr>g_key_states := AList.delete modcode (g_key_states w)\<rparr>, sent)
        else (w, sent)
      else (w, sent))"

definition SetAutoRepeatEnabled :: "bool \<Rightarrow> win \<Rightarrow> win" where
  "SetAutoRepeatEnabled enabled w =
     (if g_auto_repeat_enabled w = enabled then w
      else
        let w = w\<lparr>g_auto_repeat_enabled := enabled\<rparr>
        in if \<not> enabled then w\<lparr>g_key_states := [], g_touch_states := []\<rparr> else w)"

section \<open>Mouse\<close>

definition performMouseButton :: "int \<Rightarrow> bool \<Rightarrow> effect list" where
  "performMouseButton button release =
     [Input (INPUT_MOUSE
       (if button = 1 then zero_mouse\<lparr>mi_dwFlags := if release then MOUSEEVENTF_LEFTUP else MOUSEEVENTF_LEFTDOWN\<rparr>
        else if button = 2 then zero_mouse\<lparr>mi_dwFlags := if release then MOUSEEVENTF_MIDDLEUP else MOUSEEVENTF_MIDDLEDOWN\<rparr>
        else if button = 3 then zero_mouse\<lparr>mi_dwFlags := if release then MOUSEEVENTF_RIGHTUP else MOUSEEVENTF_RIGHTDOWN\<rparr>
        else if button = 4 then zero_mouse\<lparr>mi_dwFlags := if release then MOUSEEVENTF_XUP else MOUSEEVENTF_XDOWN,
            mi_mouseData := 1\<rparr>
        else zero_mouse\<lparr>mi_dwFlags := if release then MOUSEEVENTF_XUP else MOUSEEVENTF_XDOWN,
            mi_mouseData := 2\<rparr>))]"

text \<open>\<open>mi.dx = x\<close> truncates the double; a value outside \<open>LONG\<close> has no defined conversion: \<open>None\<close>.\<close>

definition long_of :: "dbl \<Rightarrow> int option" where
  "long_of d = (case dtrunc d of
       Some k \<Rightarrow> if - (2 ^ 31) \<le> k \<and> k < 2 ^ 31 then Some k else None
     | None \<Rightarrow> None)"

definition performMouseMoveRelative :: "dbl \<Rightarrow> dbl \<Rightarrow> effect list option" where
  "performMouseMoveRelative x y =
     (case (long_of x, long_of y) of
        (Some dx, Some dy) \<Rightarrow> Some [Input (INPUT_MOUSE (zero_mouse\<lparr>mi_dwFlags := MOUSEEVENTF_MOVE,
            mi_dx := of_int dx, mi_dy := of_int dy\<rparr>))]
      | _ \<Rightarrow> None)"

definition absolute_flags :: u32 where
  "absolute_flags = MOUSEEVENTF_MOVE OR MOUSEEVENTF_ABSOLUTE OR MOUSEEVENTF_VIRTUALDESK"

definition performMouseMoveAbsl :: "win_env \<Rightarrow> dbl \<Rightarrow> dbl \<Rightarrow> int \<Rightarrow> effect list" where
  "performMouseMoveAbsl e x y screenId =
     (let (ok, pt) = adjust_to_virtual_desktop (MulDiv e) (screen_metrics e) (monitors e) screenId x y in
      if \<not> ok then []
      else [Input (INPUT_MOUSE (zero_mouse\<lparr>mi_dwFlags := absolute_flags, mi_dx := of_int (p_x pt),
              mi_dy := of_int (p_y pt)\<rparr>))])"

text \<open>
  Moving to a share of a window: \<open>GetClientRect\<close> and \<open>ClientToScreen\<close> answer for the target
  window, which is \<open>target_window\<close> or the one the keyboard blocker knows; \<open>None\<close> when there is no
  window or an answer fails. A clamped NaN is still NaN and \<open>lround\<close> of it has no defined result.
\<close>

record client_area =
  ca_rect :: rect
  ca_top_left :: point

definition performMouseMoveToWindowPosition ::
  "win_env \<Rightarrow> dbl \<Rightarrow> dbl \<Rightarrow> client_area option \<Rightarrow> bool \<Rightarrow> effect list option" where
  "performMouseMoveToWindowPosition e percentx percenty target reseed =
     (case target of
        None \<Rightarrow> Some []
      | Some a \<Rightarrow>
          let clamped_x = dclamp percentx (Fin 0) (Fin 1);
              clamped_y = dclamp percenty (Fin 0) (Fin 1);
              client_width = max 1 (LONG (r_right (ca_rect a) - r_left (ca_rect a)));
              client_height = max 1 (LONG (r_bottom (ca_rect a) - r_top (ca_rect a)));
              sm = screen_metrics e
          in case (dlround (dmul clamped_x (Fin (of_int (client_width - 1)))),
                   dlround (dmul clamped_y (Fin (of_int (client_height - 1))))) of
               (Some kx, Some ky) \<Rightarrow>
                 let targetX = LONG (p_x (ca_top_left a) + kx);
                     targetY = LONG (p_y (ca_top_left a) + ky);
                     virtual_width = max 1 (SM_CXVIRTUALSCREEN sm);
                     virtual_height = max 1 (SM_CYVIRTUALSCREEN sm);
                     i = INPUT_MOUSE (zero_mouse\<lparr>mi_dwFlags := absolute_flags,
                           mi_dx := of_int (MulDiv e (LONG (targetX - SM_XVIRTUALSCREEN sm)) 65535 (max 1 (virtual_width - 1))),
                           mi_dy := of_int (MulDiv e (LONG (targetY - SM_YVIRTUALSCREEN sm)) 65535 (max 1 (virtual_height - 1)))\<rparr>)
                 in Some [if reseed then LocalInput i else Input i]
             | _ \<Rightarrow> None)"

definition scroll :: "int \<Rightarrow> effect list" where
  "scroll distance =
     [Input (INPUT_MOUSE (zero_mouse\<lparr>mi_dwFlags := MOUSEEVENTF_WHEEL, mi_mouseData := of_int distance\<rparr>))]"

definition hscroll :: "int \<Rightarrow> effect list" where
  "hscroll distance =
     [Input (INPUT_MOUSE (zero_mouse\<lparr>mi_dwFlags := MOUSEEVENTF_HWHEEL, mi_mouseData := of_int distance\<rparr>))]"

definition wheel_events :: "int \<Rightarrow> int \<Rightarrow> effect list" where
  "wheel_events horizontal vertical =
     (if horizontal \<noteq> 0 then hscroll horizontal else []) @ (if vertical \<noteq> 0 then scroll vertical else [])"

definition performMouseScroll :: "dbl \<Rightarrow> dbl \<Rightarrow> effect list option" where
  "performMouseScroll dx dy =
     (case (logicalScrollToWindowsWheel dx False, logicalScrollToWindowsWheel dy True) of
        (Some horizontal_distance, Some vertical_distance) \<Rightarrow>
          Some (wheel_events horizontal_distance vertical_distance)
      | _ \<Rightarrow> None)"

text \<open>The two thread-local accumulators are the state of a trackpad.\<close>

definition performTrackpadScroll ::
  "dbl \<Rightarrow> dbl \<Rightarrow> dbl \<times> dbl \<Rightarrow> ((dbl \<times> dbl) \<times> effect list) option" where
  "performTrackpadScroll dx dy acc =
     (case (Convert (Fin kMaxWindowsWheelDistance) (fst acc) dx False,
            Convert (Fin kMaxWindowsWheelDistance) (snd acc) dy True) of
        (Some (horizontal_distance, rx), Some (vertical_distance, ry)) \<Rightarrow>
          Some ((rx, ry), wheel_events horizontal_distance vertical_distance)
      | _ \<Rightarrow> None)"

section \<open>Committed text\<close>

text \<open>
  \<open>BuildWindowsUnicodeTextInputs\<close>. \<open>MultiByteToWideChar\<close> belongs to Windows: \<open>decode\<close> yields the
  UTF-16 units, \<open>None\<close> for malformed UTF-8.
\<close>

definition kMaxTextInputUtf8Bytes :: nat where
  "kMaxTextInputUtf8Bytes = 4096"

definition unicode_pair :: "u16 \<Rightarrow> INPUT list" where
  "unicode_pair code_unit =
     (let down = zero_key\<lparr>wVk := 0, wScan := code_unit, ki_dwFlags := KEYEVENTF_UNICODE\<rparr>
      in [INPUT_KEYBOARD down,
          INPUT_KEYBOARD (down\<lparr>ki_dwFlags := ki_dwFlags down OR KEYEVENTF_KEYUP\<rparr>)])"

definition BuildWindowsUnicodeTextInputs :: "(u8 list \<Rightarrow> u16 list option) \<Rightarrow> u8 list \<Rightarrow> INPUT list option" where
  "BuildWindowsUnicodeTextInputs decode utf8_text =
     (if utf8_text = [] \<or> kMaxTextInputUtf8Bytes < length utf8_text then None
      else case decode utf8_text of
          None \<Rightarrow> None
        | Some utf16 \<Rightarrow>
            if utf16 = [] then None
            else if list_ex (\<lambda>u. u < 0x20 \<or> u = 0x7f) utf16 then None
            else Some (concat (map unicode_pair utf16)))"

section \<open>How an input travels\<close>

text \<open>
  Windows answers by the number of the call: whether \<open>SendInput\<close> or \<open>InjectSyntheticPointerInput\<close>
  took the event, which desktop \<open>OpenInputDesktop\<close> opened, whether a synthetic pointer device could
  be made.
\<close>

record os =
  sendinput_ok :: "nat \<Rightarrow> INPUT \<Rightarrow> bool"
  inject_ok :: "nat \<Rightarrow> POINTER_TYPE_INFO list \<Rightarrow> bool"
  device_ok :: "nat \<Rightarrow> bool"
  input_desktop :: "nat \<Rightarrow> nat option"

record backend =
  be_svc :: svc
  be_touch_device :: bool
  be_pen_device :: bool
  be_calls :: nat                        \<comment> \<open>system calls made so far\<close>
  be_taken :: "effect list"              \<comment> \<open>what Windows accepted, in order\<close>

definition SendInput :: "os \<Rightarrow> INPUT \<Rightarrow> backend \<Rightarrow> backend \<times> bool" where
  "SendInput os i b =
     (let ok = sendinput_ok os (be_calls b) i
      in (b\<lparr>be_calls := be_calls b + 1,
            be_taken := be_taken b @ (if ok then [LocalInput i] else [])\<rparr>, ok))"

definition sendTouchInput :: "os \<Rightarrow> POINTER_TYPE_INFO list \<Rightarrow> backend \<Rightarrow> backend \<times> bool" where
  "sendTouchInput os pointers b =
     (let (s, sent) = SendTouchInput pointers (be_svc b); b = b\<lparr>be_svc := s\<rparr> in
      if sent then (b, True)
      else
        let b = (if be_touch_device b then b
                 else b\<lparr>be_touch_device := device_ok os (be_calls b), be_calls := be_calls b + 1\<rparr>)
        in if \<not> be_touch_device b then (b, False)
           else
             let ok = inject_ok os (be_calls b) pointers
             in (b\<lparr>be_calls := be_calls b + 1,
                   be_taken := be_taken b @ (if ok then [TouchFrame pointers] else [])\<rparr>, ok))"

definition sendPenInput :: "os \<Rightarrow> POINTER_TYPE_INFO \<Rightarrow> backend \<Rightarrow> backend \<times> bool" where
  "sendPenInput os pointer b =
     (let (s, sent) = SendPenInput pointer (be_svc b); b = b\<lparr>be_svc := s\<rparr> in
      if sent then (b, True)
      else
        let b = (if be_pen_device b then b
                 else b\<lparr>be_pen_device := device_ok os (be_calls b), be_calls := be_calls b + 1\<rparr>)
        in if \<not> be_pen_device b then (b, False)
           else
             let ok = inject_ok os (be_calls b) [pointer]
             in (b\<lparr>be_calls := be_calls b + 1,
                   be_taken := be_taken b @ (if ok then [PenFrame pointer] else [])\<rparr>, ok))"

text \<open>
  The retry loops run on a fresh thread, so \<open>_lastKnownInputDesktop\<close> starts as a null handle. They
  end when the event is taken or the desktop did not change; they need not end otherwise.
\<close>

partial_function (option) retry_loop ::
  "os \<Rightarrow> (backend \<Rightarrow> backend \<times> bool) \<Rightarrow> nat option \<Rightarrow> backend \<Rightarrow> backend option" where
  "retry_loop os attempt lastKnownInputDesktop b =
     (let (b, sent) = attempt b in
      if sent then Some b
      else
        let hDesk = input_desktop os (be_calls b); b = b\<lparr>be_calls := be_calls b + 1\<rparr>
        in if lastKnownInputDesktop \<noteq> hDesk then retry_loop os attempt hDesk b else Some b)"

definition async_send_input_retry :: "os \<Rightarrow> INPUT \<Rightarrow> backend \<Rightarrow> backend option" where
  "async_send_input_retry os i b = retry_loop os (SendInput os i) None b"

definition send_input :: "os \<Rightarrow> INPUT \<Rightarrow> backend \<Rightarrow> backend option" where
  "send_input os i b =
     (let (s, sent) = SendInputMessage i (be_svc b); b = b\<lparr>be_svc := s\<rparr> in
      if sent then Some b
      else
        let (b, ok) = SendInput os i b
        in if \<not> ok then async_send_input_retry os i b else Some b)"

definition async_send_touch_input_retry :: "os \<Rightarrow> POINTER_TYPE_INFO list \<Rightarrow> backend \<Rightarrow> backend option" where
  "async_send_touch_input_retry os ps b = retry_loop os (sendTouchInput os ps) None b"

definition send_touch_input :: "os \<Rightarrow> POINTER_TYPE_INFO list \<Rightarrow> backend \<Rightarrow> backend option" where
  "send_touch_input os ps b =
     (let (b, ok) = sendTouchInput os ps b
      in if \<not> ok then async_send_touch_input_retry os ps b else Some b)"

definition async_send_pen_input_retry :: "os \<Rightarrow> POINTER_TYPE_INFO \<Rightarrow> backend \<Rightarrow> backend option" where
  "async_send_pen_input_retry os p b = retry_loop os (sendPenInput os p) None b"

definition send_pen_input :: "os \<Rightarrow> POINTER_TYPE_INFO \<Rightarrow> backend \<Rightarrow> backend option" where
  "send_pen_input os p b =
     (let (b, ok) = sendPenInput os p b
      in if \<not> ok then async_send_pen_input_retry os p b else Some b)"

text \<open>What a handler sends, one after the other; synchronising the cursor sends nothing.\<close>

fun dispatch :: "os \<Rightarrow> effect list \<Rightarrow> backend \<Rightarrow> backend option" where
  "dispatch os [] b = Some b"
| "dispatch os (out # outs) b =
     (case (case out of
              Input i \<Rightarrow> send_input os i b
            | LocalInput i \<Rightarrow> Some (fst (SendInput os i b))
            | TouchFrame ps \<Rightarrow> send_touch_input os ps b
            | PenFrame p \<Rightarrow> send_pen_input os p b
            | SyncCursor \<Rightarrow> Some b) of
        None \<Rightarrow> None
      | Some b' \<Rightarrow> dispatch os outs b')"

section \<open>The contract of one attempt to send\<close>

text \<open>
  \<open>SendInput\<close>, \<open>sendTouchInput\<close> and \<open>sendPenInput\<close> share a contract: a successful attempt hands the
  event over once, to the service or to Windows, and a failed one to nobody. The retry loop is
  proved once for every attempt with that contract.
\<close>

definition handed_over :: "backend \<Rightarrow> nat" where
  "handed_over b = length (accepted (be_svc b)) + length (be_taken b)"

locale attempt_to_send =
  fixes attempt :: "backend \<Rightarrow> backend \<times> bool"
  assumes once: "handed_over (fst (attempt b)) = handed_over b + (if snd (attempt b) then 1 else 0)"
    and counts: "be_calls b \<le> be_calls (fst (attempt b))"
begin

lemma retry_hands_over_at_most_once:
  assumes "retry_loop os attempt desk b = Some b'"
  shows "handed_over b \<le> handed_over b' \<and> handed_over b' \<le> handed_over b + 1"
proof -
  let ?P = "\<lambda>(os' :: os) attempt' (desk' :: nat option) b b'. attempt' = attempt \<longrightarrow>
    handed_over b \<le> handed_over b' \<and> handed_over b' \<le> handed_over b + 1"
  have "?P os attempt desk b b'"
  proof (rule retry_loop.raw_induct [where P = ?P])
    fix rec os' attempt' desk' b b'
    assume ih: "\<And>o1 a1 d1 b1 b1'. rec o1 a1 d1 b1 = Some b1' \<Longrightarrow> ?P o1 a1 d1 b1 b1'"
      and step: "(let (b, sent) = attempt' b
         in if sent then Some b
            else let hDesk = input_desktop os' (be_calls b); b = b\<lparr>be_calls := be_calls b + 1\<rparr>
                 in if desk' \<noteq> hDesk then rec os' attempt' hDesk b else Some b) = Some b'"
    show "?P os' attempt' desk' b b'"
    proof
      assume a: "attempt' = attempt"
      obtain c sent where c: "attempt' b = (c, sent)" by (cases "attempt' b")
      have o: "handed_over c = handed_over b + (if sent then 1 else 0)" using once [of b] c a by simp
      let ?c = "c\<lparr>be_calls := be_calls c + 1\<rparr>"
      have h: "handed_over ?c = handed_over c" by (simp add: handed_over_def)
      show "handed_over b \<le> handed_over b' \<and> handed_over b' \<le> handed_over b + 1"
      proof (cases "sent \<or> desk' = input_desktop os' (be_calls c)")
        case True
        then show ?thesis using step c o h by (auto simp: Let_def split: if_splits)
      next
        case False
        then have "rec os' attempt' (input_desktop os' (be_calls c)) ?c = Some b'" using step c by (simp add: Let_def)
        from ih [OF this] a o h False show ?thesis by simp
      qed
    qed
  qed (rule assms)
  then show ?thesis by blast
qed

lemma retry_ends_on_a_steady_desktop:
  assumes d: "\<forall>n \<ge> N. input_desktop os n = d"
  shows "\<exists>b'. retry_loop os attempt desk b = Some b'"
proof -
  have settled: "\<exists>b'. retry_loop os attempt desk b = Some b'" if n: "N \<le> be_calls b" for desk b
  proof -
    have second: "\<exists>b'. retry_loop os attempt d c = Some b'" if "N \<le> be_calls c" for c
      using counts [of c] d that by (subst retry_loop.simps) (auto simp: Let_def split: prod.split)
    obtain c sent where c: "attempt b = (c, sent)" by (cases "attempt b")
    then have "N \<le> be_calls c" using counts [of b] n by simp
    with c d second [of "c\<lparr>be_calls := be_calls c + 1\<rparr>"] show ?thesis
      by (subst retry_loop.simps) (auto simp: Let_def)
  qed
  have "\<exists>b'. retry_loop os attempt desk b = Some b'" if "N \<le> be_calls b + k" for k desk b
    using that
  proof (induction k arbitrary: desk b)
    case 0
    then show ?case using settled by simp
  next
    case (Suc k)
    obtain c sent where c: "attempt b = (c, sent)" by (cases "attempt b")
    then have "N \<le> be_calls (c\<lparr>be_calls := be_calls c + 1\<rparr>) + k" using counts [of b] Suc.prems by simp
    from Suc.IH [OF this] c show ?case by (subst retry_loop.simps) (auto simp: Let_def)
  qed
  from this [of b N] show ?thesis by simp
qed

end

lemma enqueue_accepts: "length (accepted (fst (EnqueueLocked m s))) =
    length (accepted s) + (if snd (EnqueueLocked m s) then 1 else 0)"
  by (simp add: EnqueueLocked_def)

lemma service_accepts:
  "length (accepted (fst (SendInputMessage i s))) = length (accepted s) + (if snd (SendInputMessage i s) then 1 else 0)"
  "length (accepted (fst (SendTouchInput ps s))) = length (accepted s) + (if snd (SendTouchInput ps s) then 1 else 0)"
  "length (accepted (fst (SendPenInput p s))) = length (accepted s) + (if snd (SendPenInput p s) then 1 else 0)"
  using enqueue_accepts
  by (simp_all add: SendInputMessage_def SendKeyboardLocked_def SendMouseLocked_def SendTouchInput_def
      SendPenInput_def split: INPUT.split option.split)

interpretation system_input: attempt_to_send "SendInput os i" for os i
  by unfold_locales (simp_all add: SendInput_def handed_over_def Let_def)

interpretation touch_input: attempt_to_send "sendTouchInput os ps" for os ps
proof unfold_locales
  fix b
  show "handed_over (fst (sendTouchInput os ps b)) = handed_over b + (if snd (sendTouchInput os ps b) then 1 else 0)"
    using service_accepts(2) [of ps "be_svc b"]
    by (auto simp: sendTouchInput_def handed_over_def Let_def split: prod.split)
  show "be_calls b \<le> be_calls (fst (sendTouchInput os ps b))"
    by (simp add: sendTouchInput_def Let_def split: prod.split)
qed

interpretation pen_input: attempt_to_send "sendPenInput os p" for os p
proof unfold_locales
  fix b
  show "handed_over (fst (sendPenInput os p b)) = handed_over b + (if snd (sendPenInput os p b) then 1 else 0)"
    using service_accepts(3) [of p "be_svc b"]
    by (auto simp: sendPenInput_def handed_over_def Let_def split: prod.split)
  show "be_calls b \<le> be_calls (fst (sendPenInput os p b))"
    by (simp add: sendPenInput_def Let_def split: prod.split)
qed

lemma send_input_once:
  assumes "send_input os i b = Some b'"
  shows "handed_over b \<le> handed_over b' \<and> handed_over b' \<le> handed_over b + 1"
proof -
  obtain s sent where s: "SendInputMessage i (be_svc b) = (s, sent)" by (cases "SendInputMessage i (be_svc b)")
  have h: "handed_over (b\<lparr>be_svc := s\<rparr>) = handed_over b + (if sent then 1 else 0)"
    using service_accepts(1) [of i "be_svc b"] s by (simp add: handed_over_def)
  show ?thesis
  proof (cases sent)
    case True
    then show ?thesis using assms s h by (auto simp: send_input_def)
  next
    case False
    obtain c ok where c: "SendInput os i (b\<lparr>be_svc := s\<rparr>) = (c, ok)" by (cases "SendInput os i (b\<lparr>be_svc := s\<rparr>)")
    have o: "handed_over c = handed_over b + (if ok then 1 else 0)"
      using system_input.once [of os i "b\<lparr>be_svc := s\<rparr>"] c h False by simp
    show ?thesis
    proof (cases ok)
      case True
      then show ?thesis using assms s c o False by (auto simp: send_input_def)
    next
      assume "\<not> ok"
      then have "retry_loop os (SendInput os i) None c = Some b'"
        using assms s c False by (simp add: send_input_def async_send_input_retry_def)
      from system_input.retry_hands_over_at_most_once [OF this] o \<open>\<not> ok\<close> show ?thesis by simp
    qed
  qed
qed

lemma send_pointer_once:
  "send_touch_input os ps b = Some b' \<Longrightarrow> handed_over b \<le> handed_over b' \<and> handed_over b' \<le> handed_over b + 1"
  "send_pen_input os p b = Some b' \<Longrightarrow> handed_over b \<le> handed_over b' \<and> handed_over b' \<le> handed_over b + 1"
proof -
  assume a: "send_touch_input os ps b = Some b'"
  obtain c ok where c: "sendTouchInput os ps b = (c, ok)" by (cases "sendTouchInput os ps b")
  with touch_input.once [of os ps b] have "handed_over c = handed_over b + (if ok then 1 else 0)" by simp
  with a c touch_input.retry_hands_over_at_most_once [of os os ps None c b']
  show "handed_over b \<le> handed_over b' \<and> handed_over b' \<le> handed_over b + 1"
    by (auto simp: send_touch_input_def async_send_touch_input_retry_def split: if_splits)
next
  assume a: "send_pen_input os p b = Some b'"
  obtain c ok where c: "sendPenInput os p b = (c, ok)" by (cases "sendPenInput os p b")
  with pen_input.once [of os p b] have "handed_over c = handed_over b + (if ok then 1 else 0)" by simp
  with a c pen_input.retry_hands_over_at_most_once [of os os p None c b']
  show "handed_over b \<le> handed_over b' \<and> handed_over b' \<le> handed_over b + 1"
    by (auto simp: send_pen_input_def async_send_pen_input_retry_def split: if_splits)
qed

section \<open>Properties of sending\<close>

text \<open>What has no defined result: moves whose numbers do not fit, and shares of a window that are no number.\<close>

lemma relative_undefined: "performMouseMoveRelative x y = None \<longleftrightarrow> long_of x = None \<or> long_of y = None"
  by (auto simp: performMouseMoveRelative_def split: option.split)

lemma share_defined:
  assumes "x \<noteq> NaN" "0 \<le> n" "n < 2 ^ 32"
  shows "dlround (dmul (dclamp x (Fin 0) (Fin 1)) (Fin (of_int n))) \<noteq> None"
proof -
  obtain q where q: "dclamp x (Fin 0) (Fin 1) = Fin q" "0 \<le> q" "q \<le> 1"
  proof (cases x)
    case (Fin v)
    then show ?thesis using that [of "qclamp v 0 1"] qclamp_bounds [of 0 1 v] by simp
  qed (use assms(1) that [of 0] that [of 1] in \<open>simp_all add: dclamp_def\<close>)
  have "of_int n \<le> (of_int (2 ^ 32) :: rat)" using assms(3) by (simp only: of_int_le_iff less_imp_le)
  then have n: "of_int n \<le> (2 ^ 32 :: rat)" by simp
  have "q * of_int n \<le> 1 * of_int n" using q assms(2) by (intro mult_right_mono) simp_all
  also have "\<dots> \<le> (2 ^ 64 :: rat)" using n by simp
  finally have "q * of_int n \<le> 2 ^ 64" .
  moreover have "0 \<le> q * of_int n" using q assms(2) by simp
  ultimately have "\<bar>q * of_int n\<bar> \<le> 2 ^ 64" by simp
  then show ?thesis by (simp add: q(1) to_double_small dlround_def)
qed

lemma LONG_bounds: "- (2 ^ 31) \<le> LONG k" "LONG k < 2 ^ 31"
  using signed_take_bit_int_greater_eq_minus_exp [of 31 k] signed_take_bit_int_less_exp [of 31 k]
  by (simp_all add: LONG_def)

lemma window_position_undefined:
  assumes "performMouseMoveToWindowPosition e x y target reseed = None"
  shows "x = NaN \<or> y = NaN"
proof (rule ccontr)
  assume n: "\<not> (x = NaN \<or> y = NaN)"
  obtain a where a: "target = Some a"
    using assms by (cases target) (simp_all add: performMouseMoveToWindowPosition_def)
  have "dlround (dmul (dclamp z (Fin 0) (Fin 1)) (Fin (of_int (max 1 (LONG k) - 1)))) \<noteq> None"
    if "z \<noteq> NaN" for k z
    by (rule share_defined [OF that]) (use LONG_bounds [of k] in \<open>simp_all add: max_def\<close>)
  with n have "\<And>k. dlround (dmul (dclamp x (Fin 0) (Fin 1)) (Fin (of_int (max 1 (LONG k) - 1)))) \<noteq> None"
    "\<And>k. dlround (dmul (dclamp y (Fin 0) (Fin 1)) (Fin (of_int (max 1 (LONG k) - 1)))) \<noteq> None"
    by simp_all
  then have "\<exists>f. \<forall>k. dlround (dmul (dclamp x (Fin 0) (Fin 1)) (Fin (of_int (max 1 (LONG k) - 1)))) = Some (f k)"
    "\<exists>f. \<forall>k. dlround (dmul (dclamp y (Fin 0) (Fin 1)) (Fin (of_int (max 1 (LONG k) - 1)))) = Some (f k)"
    by (intro choice allI; simp del: of_int_diff)+
  then obtain f g where "\<And>k. dlround (dmul (dclamp x (Fin 0) (Fin 1)) (Fin (of_int (max 1 (LONG k) - 1)))) = Some (f k)"
    "\<And>k. dlround (dmul (dclamp y (Fin 0) (Fin 1)) (Fin (of_int (max 1 (LONG k) - 1)))) = Some (g k)"
    by blast
  with assms a show False by (simp add: performMouseMoveToWindowPosition_def Let_def del: of_int_diff)
qed

text \<open>The remainders the trackpad carries are less than one unit, so that it never fails.\<close>

definition carry_ok :: "dbl \<times> dbl \<Rightarrow> bool" where
  "carry_ok acc \<longleftrightarrow> (\<exists>r s. acc = (Fin r, Fin s) \<and> \<bar>r\<bar> < 1 \<and> \<bar>s\<bar> < 1)"

lemma trackpad_carries:
  assumes "carry_ok acc"
  shows "\<exists>acc' fs. performTrackpadScroll dx dy acc = Some (acc', fs) \<and> carry_ok acc'"
proof -
  obtain r s where r: "acc = (Fin r, Fin s)" "\<bar>r\<bar> < 1" "\<bar>s\<bar> < 1" using assms by (auto simp: carry_ok_def)
  from Convert_frame [OF r(2), of dx False] Convert_frame [OF r(3), of dy True]
  show ?thesis by (auto simp: performTrackpadScroll_def carry_ok_def kMaxWindowsWheelDistance_def r(1))
qed

lemma scroll_defined: "performMouseScroll dx dy \<noteq> None"
  using wheel_defined [of dx False] wheel_defined [of dy True] by (auto simp: performMouseScroll_def)

text \<open>On a steady desktop every way of sending returns.\<close>

lemma send_returns:
  assumes "\<exists>N d. \<forall>n \<ge> N. input_desktop os n = d"
  shows "send_input os i b \<noteq> None" "send_touch_input os ps b \<noteq> None" "send_pen_input os p b \<noteq> None"
proof -
  obtain N d where d: "\<forall>n \<ge> N. input_desktop os n = d" using assms by blast
  show "send_input os i b \<noteq> None"
    using system_input.retry_ends_on_a_steady_desktop [OF d, of os i None]
    by (auto simp: send_input_def async_send_input_retry_def Let_def split: prod.split)
  show "send_touch_input os ps b \<noteq> None"
    using touch_input.retry_ends_on_a_steady_desktop [OF d, of os ps None]
    by (auto simp: send_touch_input_def async_send_touch_input_retry_def split: prod.split)
  show "send_pen_input os p b \<noteq> None"
    using pen_input.retry_ends_on_a_steady_desktop [OF d, of os p None]
    by (auto simp: send_pen_input_def async_send_pen_input_retry_def split: prod.split)
qed

lemma dispatch_returns:
  "\<exists>N d. \<forall>n \<ge> N. input_desktop os n = d \<Longrightarrow> dispatch os outs b \<noteq> None"
proof (induction outs arbitrary: b)
  case (Cons out outs)
  have "(case out of Input i \<Rightarrow> send_input os i b | LocalInput i \<Rightarrow> Some (fst (SendInput os i b))
      | TouchFrame ps \<Rightarrow> send_touch_input os ps b | PenFrame p \<Rightarrow> send_pen_input os p b | SyncCursor \<Rightarrow> Some b) \<noteq> None"
    using send_returns [OF Cons.prems] by (cases out) (simp_all del: not_None_eq)
  then show ?case using Cons.IH [OF Cons.prems] by auto
qed simp

text \<open>C6: an event is never injected twice. Through the service, \<open>SendInput\<close>, synthetic pointers
  and every retry together, one event reaches at most one recipient once; and as soon as the
  input desktop stops changing, sending returns, whatever \<open>SendInput\<close> answers.\<close>

theorem send_at_most_once_and_returns:
  "(send_input os i b = Some b' \<longrightarrow> handed_over b' \<in> {handed_over b, handed_over b + 1}) \<and>
   (send_touch_input os ps b = Some b' \<longrightarrow> handed_over b' \<in> {handed_over b, handed_over b + 1}) \<and>
   (send_pen_input os p b = Some b' \<longrightarrow> handed_over b' \<in> {handed_over b, handed_over b + 1}) \<and>
   ((\<exists>N d. \<forall>n \<ge> N. input_desktop os n = d) \<longrightarrow>
      send_input os i b \<noteq> None \<and> send_touch_input os ps b \<noteq> None \<and> send_pen_input os p b \<noteq> None)"
proof (intro conjI impI)
  assume "send_input os i b = Some b'"
  from send_input_once [OF this] show "handed_over b' \<in> {handed_over b, handed_over b + 1}" by auto
next
  assume "send_touch_input os ps b = Some b'"
  from send_pointer_once(1) [OF this] show "handed_over b' \<in> {handed_over b, handed_over b + 1}" by auto
next
  assume "send_pen_input os p b = Some b'"
  from send_pointer_once(2) [OF this] show "handed_over b' \<in> {handed_over b, handed_over b + 1}" by auto
next
  assume steady: "\<exists>N d. \<forall>n \<ge> N. input_desktop os n = d"
  show "send_input os i b \<noteq> None" "send_touch_input os ps b \<noteq> None" "send_pen_input os p b \<noteq> None"
    by (rule send_returns [OF steady])+
qed

theorem send_at_most_once_and_returns_witness:
  "send_input \<lparr>sendinput_ok = \<lambda>_ _. False, inject_ok = \<lambda>_ _. False, device_ok = \<lambda>_. False,
       input_desktop = \<lambda>_. Some 1\<rparr> INPUT_HARDWARE
     \<lparr>be_svc = init_svc, be_touch_device = False, be_pen_device = False, be_calls = 0, be_taken = []\<rparr> \<noteq> None"
  using send_at_most_once_and_returns [where os = "\<lparr>sendinput_ok = \<lambda>_ _. False, inject_ok = \<lambda>_ _. False,
      device_ok = \<lambda>_. False, input_desktop = \<lambda>_. Some 1\<rparr>"] by auto

section \<open>Properties of committed text\<close>

text \<open>What an application that receives the events types: pairs of a key-down and the matching key-up.\<close>

fun typed_units :: "INPUT list \<Rightarrow> u16 list option" where
  "typed_units [] = Some []"
| "typed_units (INPUT_KEYBOARD d # INPUT_KEYBOARD u # rest) =
     (if ki_dwFlags d = KEYEVENTF_UNICODE \<and> ki_dwFlags u = (KEYEVENTF_UNICODE OR KEYEVENTF_KEYUP) \<and>
         wScan u = wScan d \<and> wVk d = 0 \<and> wVk u = 0
      then map_option (Cons (wScan d)) (typed_units rest) else None)"
| "typed_units _ = None"

lemma typed_pairs: "typed_units (concat (map unicode_pair us)) = Some us"
  by (induction us) (simp_all add: unicode_pair_def zero_key_def Let_def)

text \<open>C28: committed text is injected whole or not at all: the inputs exist exactly when the text is
  not empty, within 4096 bytes, well-formed UTF-8 and free of control characters, and they then
  type exactly its UTF-16 units, each pressed and released once, in order.\<close>

theorem text_inputs_whole:
  "case BuildWindowsUnicodeTextInputs decode t of
     None \<Rightarrow> t = [] \<or> 4096 < length t \<or> decode t = None \<or> decode t = Some [] \<or>
       (\<exists>us. decode t = Some us \<and> (\<exists>u \<in> set us. u < 0x20 \<or> u = 0x7f))
   | Some inputs \<Rightarrow> \<exists>us. decode t = Some us \<and> us \<noteq> [] \<and> length t \<le> 4096 \<and>
       (\<forall>u \<in> set us. 0x20 \<le> u \<and> u \<noteq> 0x7f) \<and>
       typed_units inputs = Some us \<and> length inputs = 2 * length us"
proof (cases "decode t")
  case None
  then show ?thesis by (simp add: BuildWindowsUnicodeTextInputs_def kMaxTextInputUtf8Bytes_def)
next
  case (Some us)
  have "length (concat (map unicode_pair us)) = 2 * length us"
    by (induction us) (simp_all add: unicode_pair_def)
  then show ?thesis using Some typed_pairs [of us]
    by (auto simp: BuildWindowsUnicodeTextInputs_def kMaxTextInputUtf8Bytes_def list_ex_iff not_less)
qed

theorem text_inputs_whole_witness:
  "case BuildWindowsUnicodeTextInputs (\<lambda>_. Some [0x68, 0x69]) [0x68, 0x69] of
     None \<Rightarrow> False | Some inputs \<Rightarrow> length inputs = 4"
proof -
  have "BuildWindowsUnicodeTextInputs (\<lambda>_. Some [0x68, 0x69]) [0x68, 0x69] \<noteq> None"
    by (simp add: BuildWindowsUnicodeTextInputs_def kMaxTextInputUtf8Bytes_def)
  then show ?thesis using text_inputs_whole [where decode = "\<lambda>_. Some [0x68, 0x69]" and t = "[0x68, 0x69]"]
    by (auto split: option.splits)
qed

end
