(* ===== verification/WinPointer.thy ===== *)
theory WinPointer
  imports WinInput
begin

text \<open>
  Touch and pen injection of \<open>windows/hardware_simulator_plugin.cpp\<close>, the thread that repeats held
  input (\<open>EventMonitorThread\<close>) and \<open>clearAllPressedEvents\<close>. The touch slots are the array
  \<open>g_touchInfo\<close>, a list of length ten that is only updated in place.
\<close>

section \<open>Windows constants\<close>

definition POINTER_FLAG_NONE :: u32 where "POINTER_FLAG_NONE = 0"
definition POINTER_FLAG_INRANGE :: u32 where "POINTER_FLAG_INRANGE = 0x2"
definition POINTER_FLAG_INCONTACT :: u32 where "POINTER_FLAG_INCONTACT = 0x4"
definition POINTER_FLAG_CANCELED :: u32 where "POINTER_FLAG_CANCELED = 0x8000"
definition POINTER_FLAG_DOWN :: u32 where "POINTER_FLAG_DOWN = 0x10000"
definition POINTER_FLAG_UPDATE :: u32 where "POINTER_FLAG_UPDATE = 0x20000"
definition POINTER_FLAG_UP :: u32 where "POINTER_FLAG_UP = 0x40000"
definition TOUCHEVENTF_PRIMARY :: u32 where "TOUCHEVENTF_PRIMARY = 0x10"
definition TOUCH_MASK_ALL :: u32 where "TOUCH_MASK_ALL = 0x1 OR 0x2 OR 0x4"
definition PEN_FLAG_BARREL :: u32 where "PEN_FLAG_BARREL = 0x1"
definition PEN_FLAG_ERASER :: u32 where "PEN_FLAG_ERASER = 0x4"
definition PEN_MASK_PRESSURE :: u32 where "PEN_MASK_PRESSURE = 0x1"
definition PEN_MASK_ROTATION :: u32 where "PEN_MASK_ROTATION = 0x2"
definition PEN_MASK_TILT_X :: u32 where "PEN_MASK_TILT_X = 0x4"
definition PEN_MASK_TILT_Y :: u32 where "PEN_MASK_TILT_Y = 0x8"

lemmas pointer_flags = POINTER_FLAG_NONE_def POINTER_FLAG_INRANGE_def POINTER_FLAG_INCONTACT_def
  POINTER_FLAG_CANCELED_def POINTER_FLAG_DOWN_def POINTER_FLAG_UPDATE_def POINTER_FLAG_UP_def
  TOUCHEVENTF_PRIMARY_def

definition EDGE_TRIGGERED_POINTER_FLAGS :: u32 where
  "EDGE_TRIGGERED_POINTER_FLAGS =
     POINTER_FLAG_DOWN OR POINTER_FLAG_UP OR POINTER_FLAG_CANCELED OR POINTER_FLAG_UPDATE"

definition ms :: "int \<Rightarrow> int" where
  "ms n = n * 1000000"

definition PEN_REPEAT_INTERVAL :: int where "PEN_REPEAT_INTERVAL = ms 50"
definition PEN_HOVER_IDLE_TIMEOUT :: int where "PEN_HOVER_IDLE_TIMEOUT = ms 250"

section \<open>Touch\<close>

definition slot_id :: "POINTER_TYPE_INFO \<Rightarrow> u32" where
  "slot_id p = pointerId (ti_pointerInfo (touchInfo p))"

definition slot_flags :: "POINTER_TYPE_INFO \<Rightarrow> u32" where
  "slot_flags p = pointerFlags (ti_pointerInfo (touchInfo p))"

definition set_slot_id :: "u32 \<Rightarrow> POINTER_TYPE_INFO \<Rightarrow> POINTER_TYPE_INFO" where
  "set_slot_id i p = p\<lparr>touchInfo := (touchInfo p)
     \<lparr>ti_pointerInfo := (ti_pointerInfo (touchInfo p))\<lparr>pointerId := i\<rparr>\<rparr>\<rparr>"

definition set_slot_type :: "POINTER_TYPE_INFO \<Rightarrow> POINTER_TYPE_INFO" where
  "set_slot_type p = p\<lparr>pti_type := PT_TOUCH\<rparr>"

text \<open>Position, flags and contact rectangle.\<close>

definition set_contact :: "point \<Rightarrow> u32 \<Rightarrow> POINTER_TYPE_INFO \<Rightarrow> POINTER_TYPE_INFO" where
  "set_contact pt flags p =
     p\<lparr>touchInfo := (touchInfo p)
       \<lparr>ti_pointerInfo := (ti_pointerInfo (touchInfo p))
          \<lparr>ptPixelLocation_x := of_int (p_x pt), ptPixelLocation_y := of_int (p_y pt), pointerFlags := flags\<rparr>,
        rcContact_left := of_int (p_x pt - 10), rcContact_right := of_int (p_x pt + 10),
        rcContact_top := of_int (p_y pt - 10), rcContact_bottom := of_int (p_y pt + 10)\<rparr>\<rparr>"

definition set_pressure :: "POINTER_TYPE_INFO \<Rightarrow> POINTER_TYPE_INFO" where
  "set_pressure p = p\<lparr>touchInfo := (touchInfo p)\<lparr>touchMask := TOUCH_MASK_ALL, ti_pressure := 1024\<rparr>\<rparr>"

definition touch_frame :: "win \<Rightarrow> effect" where
  "touch_frame w = TouchFrame (take (g_activeTouchSlots w) (g_touchInfo w))"

text \<open>The slot of a touch: one that carries its id, else the first whose flags are clear.\<close>

definition find_slot :: "u32 \<Rightarrow> win \<Rightarrow> win \<times> nat option" where
  "find_slot touchId w =
     (case find_index (\<lambda>p. slot_id p = touchId) (g_touchInfo w) of
        Some i \<Rightarrow> (w, Some i)
      | None \<Rightarrow>
          (case find_index (\<lambda>p. slot_flags p = POINTER_FLAG_NONE) (g_touchInfo w) of
             None \<Rightarrow> (w, None)
           | Some i \<Rightarrow>
               (w\<lparr>g_touchInfo := (g_touchInfo w)[i := set_slot_id touchId (g_touchInfo w ! i)],
                  g_activeTouchSlots := max (g_activeTouchSlots w) (i + 1)\<rparr>, Some i)))"

definition performTouchEvent ::
  "win_env \<Rightarrow> int \<Rightarrow> int \<Rightarrow> dbl \<Rightarrow> dbl \<Rightarrow> u32 \<Rightarrow> bool \<Rightarrow> bool \<Rightarrow> win \<Rightarrow> win \<times> effect list" where
  "performTouchEvent e now screenId x y touchId isDown isRepeat w =
     (case find_slot touchId w of
        (w, None) \<Rightarrow> (w, [])
      | (w, Some i) \<Rightarrow>
          let w = w\<lparr>g_touchInfo := (g_touchInfo w)[i := set_slot_type (g_touchInfo w ! i)]\<rparr>;
              (ok, pt) = adjust_to_virtual_desktop_pixels (screen_metrics e) (monitors e) screenId x y
          in if \<not> ok then (w, [])
             else
               let flags = (if isDown then TOUCHEVENTF_PRIMARY OR POINTER_FLAG_INRANGE OR
                                           POINTER_FLAG_INCONTACT OR POINTER_FLAG_DOWN
                            else POINTER_FLAG_UP);
                   w = w\<lparr>g_touchInfo := (g_touchInfo w)
                           [i := set_pressure (set_contact pt flags (g_touchInfo w ! i))]\<rparr>;
                   sent = [touch_frame w]
               in if g_auto_repeat_enabled w \<and> \<not> isRepeat then
                    if isDown then
                      (w\<lparr>g_touch_states := AList.update touchId
                           \<lparr>ts_isDown = True, ts_x = x, ts_y = y, ts_screenId = screenId, ts_lastEventTime = now\<rparr>
                           (g_touch_states w)\<rparr>, sent)
                    else if map_of (g_touch_states w) touchId \<noteq> None then
                      (w\<lparr>g_touch_states := AList.delete touchId (g_touch_states w)\<rparr>, sent)
                    else (w, sent)
                  else (w, sent))"

definition performTouchMove :: "win_env \<Rightarrow> int \<Rightarrow> int \<Rightarrow> dbl \<Rightarrow> dbl \<Rightarrow> u32 \<Rightarrow> win \<Rightarrow> win \<times> effect list" where
  "performTouchMove e now screenId x y touchId w =
     (case find_index (\<lambda>p. slot_id p = touchId) (g_touchInfo w) of
        None \<Rightarrow> (w, [])
      | Some i \<Rightarrow>
          let (ok, pt) = adjust_to_virtual_desktop_pixels (screen_metrics e) (monitors e) screenId x y
          in if \<not> ok then (w, [])
             else
               let w = w\<lparr>g_touchInfo := (g_touchInfo w)
                     [i := set_contact pt (POINTER_FLAG_INRANGE OR POINTER_FLAG_INCONTACT OR POINTER_FLAG_UPDATE)
                             (g_touchInfo w ! i)]\<rparr>;
                   w = (if g_auto_repeat_enabled w \<and> map_of (g_touch_states w) touchId \<noteq> None
                        then w\<lparr>g_touch_states := AList.update touchId
                           \<lparr>ts_isDown = True, ts_x = x, ts_y = y, ts_screenId = screenId, ts_lastEventTime = now\<rparr>
                           (g_touch_states w)\<rparr>
                        else w)
               in (w, [touch_frame w]))"

section \<open>Pen\<close>

definition pen_flags_of :: "win \<Rightarrow> u32" where
  "pen_flags_of w = pointerFlags (pi_pointerInfo (penInfo (g_penInfo w)))"

definition map_pen :: "(POINTER_PEN_INFO \<Rightarrow> POINTER_PEN_INFO) \<Rightarrow> win \<Rightarrow> win" where
  "map_pen f w = w\<lparr>g_penInfo := (g_penInfo w)\<lparr>penInfo := f (penInfo (g_penInfo w))\<rparr>\<rparr>"

definition set_pen_flags :: "u32 \<Rightarrow> win \<Rightarrow> win" where
  "set_pen_flags flags = map_pen (\<lambda>p. p\<lparr>pi_pointerInfo := (pi_pointerInfo p)\<lparr>pointerFlags := flags\<rparr>\<rparr>)"

definition clearPenEdgeTriggeredFlags :: "win \<Rightarrow> win" where
  "clearPenEdgeTriggeredFlags w = set_pen_flags (pen_flags_of w AND NOT EDGE_TRIGGERED_POINTER_FLAGS) w"

definition hasActivePenPointer :: "win \<Rightarrow> bool" where
  "hasActivePenPointer w \<longleftrightarrow> pen_flags_of w \<noteq> POINTER_FLAG_NONE"

definition hasHoverOnlyPenPointer :: "win \<Rightarrow> bool" where
  "hasHoverOnlyPenPointer w \<longleftrightarrow>
     pen_flags_of w AND POINTER_FLAG_INRANGE \<noteq> 0 \<and> pen_flags_of w AND POINTER_FLAG_INCONTACT = 0"

definition clearActivePenPointer :: "win \<Rightarrow> win \<times> effect list" where
  "clearActivePenPointer w =
     (if \<not> hasActivePenPointer w then (w, [])
      else
        let wasInContact = (pen_flags_of w AND POINTER_FLAG_INCONTACT \<noteq> 0);
            flags = (pen_flags_of w AND NOT (POINTER_FLAG_INCONTACT OR POINTER_FLAG_INRANGE))
                      OR (if wasInContact then POINTER_FLAG_UP else POINTER_FLAG_UPDATE);
            w = set_pen_flags flags w;
            sent = [PenFrame (g_penInfo w)];
            w = clearPenEdgeTriggeredFlags w
        in (w\<lparr>g_last_pen_input_time := 0, g_last_pen_refresh_time := 0\<rparr>, sent))"

definition recordPenInputAfterSend :: "int \<Rightarrow> win \<Rightarrow> win" where
  "recordPenInputAfterSend now w =
     (if \<not> hasActivePenPointer w then w\<lparr>g_last_pen_input_time := 0, g_last_pen_refresh_time := 0\<rparr>
      else w\<lparr>g_last_pen_input_time := now, g_last_pen_refresh_time := now\<rparr>)"

text \<open>Type, id and position, common to the three pen handlers.\<close>

definition pen_begin :: "win \<Rightarrow> win" where
  "pen_begin w = map_pen (\<lambda>p. p\<lparr>pi_pointerInfo := (pi_pointerInfo p)\<lparr>pointerId := 0\<rparr>\<rparr>)
     (w\<lparr>g_penInfo := (g_penInfo w)\<lparr>pti_type := PT_PEN\<rparr>\<rparr>)"

definition pen_at :: "point \<Rightarrow> win \<Rightarrow> win" where
  "pen_at pt = map_pen (\<lambda>p. p\<lparr>pi_pointerInfo := (pi_pointerInfo p)
     \<lparr>ptPixelLocation_x := of_int (p_x pt), ptPixelLocation_y := of_int (p_y pt)\<rparr>\<rparr>)"

text \<open>
  Pressure, rotation and tilt. A pressure whose product with 1024 does not fit \<open>UINT32\<close> has no
  defined conversion: \<open>None\<close>. The comparisons are false for NaN.
\<close>

definition pen_pressure :: "bool \<Rightarrow> dbl \<Rightarrow> (u32 \<times> u32) option" where
  "pen_pressure in_contact pressure =
     (if in_contact \<and> dlt (Fin 0) pressure then
        (case dtrunc (dmul pressure (Fin 1024)) of
           Some k \<Rightarrow> if 0 \<le> k \<and> k < 2 ^ 32 then Some (PEN_MASK_PRESSURE, of_int k) else None
         | None \<Rightarrow> None)
      else Some (0, 0))"

definition in_degrees :: "dbl \<Rightarrow> bool" where
  "in_degrees r = (case r of Fin q \<Rightarrow> 0 \<le> q \<and> q \<le> 360 | _ \<Rightarrow> False)"

definition pen_rotation :: "dbl \<Rightarrow> u32 \<times> u32" where
  "pen_rotation r = (case r of
       Fin q \<Rightarrow> if 0 \<le> q \<and> q \<le> 360 then (PEN_MASK_ROTATION, of_int (trunc q)) else (0, 0)
     | _ \<Rightarrow> (0, 0))"

definition nonneg :: "dbl \<Rightarrow> bool" where
  "nonneg d = (case d of Fin q \<Rightarrow> 0 \<le> q | PInf \<Rightarrow> True | _ \<Rightarrow> False)"

definition pen_tilt :: "win_env \<Rightarrow> dbl \<Rightarrow> dbl \<Rightarrow> u32 \<times> u32 \<times> u32" where
  "pen_tilt e r t =
     (if nonneg t \<and> in_degrees r
      then let (tx, ty) = polar_tilt e r t in (PEN_MASK_TILT_X OR PEN_MASK_TILT_Y, of_int tx, of_int ty)
      else (0, 0, 0))"

definition pen_state :: "win_env \<Rightarrow> bool \<Rightarrow> bool \<Rightarrow> dbl \<Rightarrow> dbl \<Rightarrow> dbl \<Rightarrow> win \<Rightarrow> win option" where
  "pen_state e in_contact hasButton pressure r t w =
     (case pen_pressure in_contact pressure of
        None \<Rightarrow> None
      | Some (pm, pv) \<Rightarrow>
          let (rm, rv) = pen_rotation r; (tm, tx, ty) = pen_tilt e r t
          in Some (map_pen (\<lambda>p. p\<lparr>
               penFlags := (if hasButton then penFlags p OR PEN_FLAG_BARREL
                            else penFlags p AND NOT PEN_FLAG_BARREL),
               penMask := pm OR rm OR tm, pi_pressure := pv, rotation := rv, tiltX := tx, tiltY := ty\<rparr>) w))"

definition pen_send :: "int \<Rightarrow> win \<Rightarrow> win \<times> effect list" where
  "pen_send now w =
     (recordPenInputAfterSend now (clearPenEdgeTriggeredFlags w), [PenFrame (g_penInfo w), SyncCursor])"

definition performPenEvent ::
  "win_env \<Rightarrow> int \<Rightarrow> int \<Rightarrow> dbl \<Rightarrow> dbl \<Rightarrow> bool \<Rightarrow> bool \<Rightarrow> dbl \<Rightarrow> dbl \<Rightarrow> dbl \<Rightarrow> win \<Rightarrow> (win \<times> effect list) option" where
  "performPenEvent e now screenId x y isDown hasButton pressure r t w =
     (let w = pen_begin w;
          (ok, pt) = adjust_to_virtual_desktop_pixels (screen_metrics e) (monitors e) screenId x y
      in if \<not> ok then Some (w, [])
         else
           let w = pen_at pt w;
               flags = (if isDown then POINTER_FLAG_INRANGE OR POINTER_FLAG_INCONTACT OR POINTER_FLAG_DOWN
                        else (pen_flags_of w AND NOT (POINTER_FLAG_INCONTACT OR POINTER_FLAG_INRANGE))
                               OR POINTER_FLAG_UP);
               w = set_pen_flags flags w
           in (case pen_state e (flags AND POINTER_FLAG_INCONTACT \<noteq> 0) hasButton pressure r t w of
                 None \<Rightarrow> None
               | Some w \<Rightarrow> Some (pen_send now
                   (map_pen (\<lambda>p. p\<lparr>penFlags := penFlags p AND NOT PEN_FLAG_ERASER\<rparr>) w))))"

definition performPenMove ::
  "win_env \<Rightarrow> int \<Rightarrow> int \<Rightarrow> dbl \<Rightarrow> dbl \<Rightarrow> bool \<Rightarrow> dbl \<Rightarrow> dbl \<Rightarrow> dbl \<Rightarrow> win \<Rightarrow> (win \<times> effect list) option" where
  "performPenMove e now screenId x y hasButton pressure r t w =
     (if pen_flags_of w = POINTER_FLAG_NONE then Some (w, [])
      else
        let w = pen_begin w;
            (ok, pt) = adjust_to_virtual_desktop_pixels (screen_metrics e) (monitors e) screenId x y
        in if \<not> ok then Some (w, [])
           else
             let w = set_pen_flags (POINTER_FLAG_INRANGE OR POINTER_FLAG_INCONTACT OR POINTER_FLAG_UPDATE)
                       (pen_at pt w)
             in map_option (pen_send now) (pen_state e True hasButton pressure r t w))"

definition performPenHover :: "win_env \<Rightarrow> int \<Rightarrow> int \<Rightarrow> dbl \<Rightarrow> dbl \<Rightarrow> win \<Rightarrow> win \<times> effect list" where
  "performPenHover e now screenId x y w =
     (let w = pen_begin w;
          (ok, pt) = adjust_to_virtual_desktop_pixels (screen_metrics e) (monitors e) screenId x y
      in if \<not> ok then (w, [])
         else
           let w = set_pen_flags (POINTER_FLAG_INRANGE OR POINTER_FLAG_UPDATE) (pen_at pt w);
               w = map_pen (\<lambda>p. p\<lparr>penFlags := penFlags p AND NOT (PEN_FLAG_BARREL OR PEN_FLAG_ERASER),
                     penMask := 0, pi_pressure := 0, rotation := 0, tiltX := 0, tiltY := 0\<rparr>) w
           in pen_send now w)"

section \<open>Repeating held input\<close>

definition elapsed_ms :: "int \<Rightarrow> int \<Rightarrow> int" where
  "elapsed_ms now since = c_div (now - since) 1000000"

definition repeat_key :: "win_env \<Rightarrow> int \<Rightarrow> win \<Rightarrow> win \<times> effect list" where
  "repeat_key e now w =
     (case map_of (g_key_states w) (g_last_known_key_down w) of
        Some st \<Rightarrow>
          if ks_isDown st \<and> 500 \<le> elapsed_ms now (ks_lastEventTime st)
          then performKeyEvent e now (g_last_known_key_down w) True True w
          else (w, [])
      | None \<Rightarrow> (w, []))"

fun repeat_touches :: "win_env \<Rightarrow> int \<Rightarrow> (u32 \<times> TouchState) list \<Rightarrow> win \<Rightarrow> win \<times> effect list" where
  "repeat_touches e now [] w = (w, [])"
| "repeat_touches e now ((i, st) # rest) w =
     (if ts_isDown st \<and> 300 \<le> elapsed_ms now (ts_lastEventTime st) then
        let (w, sent) = performTouchEvent e now (ts_screenId st) (ts_x st) (ts_y st) i True True w;
            w = w\<lparr>g_touch_states := AList.update i (st\<lparr>ts_lastEventTime := now\<rparr>) (g_touch_states w)\<rparr>;
            (w, sent') = repeat_touches e now rest w
        in (w, sent @ sent')
      else repeat_touches e now rest w)"

definition refresh_pen :: "int \<Rightarrow> win \<Rightarrow> win \<times> effect list" where
  "refresh_pen now w =
     (if hasActivePenPointer w then
        if hasHoverOnlyPenPointer w \<and> PEN_HOVER_IDLE_TIMEOUT \<le> now - g_last_pen_input_time w
        then clearActivePenPointer w
        else if PEN_REPEAT_INTERVAL \<le> now - g_last_pen_refresh_time w
        then (w\<lparr>g_last_pen_refresh_time := now\<rparr>, [PenFrame (g_penInfo w)])
        else (w, [])
      else (w, []))"

text \<open>One round of \<open>EventMonitorThread\<close>, between two sleeps.\<close>

definition monitor_tick :: "win_env \<Rightarrow> int \<Rightarrow> win \<Rightarrow> win \<times> effect list" where
  "monitor_tick e now w =
     (if \<not> g_auto_repeat_enabled w then (w, [])
      else
        let (w, k) = repeat_key e now w;
            (w, t) = repeat_touches e now (g_touch_states w) w;
            (w, p) = refresh_pen now w
        in (w, k @ t @ p))"

section \<open>Releasing everything\<close>

text \<open>
  The loops walk a hash map by iterator while the handler they call may erase the element the
  iterator stands on; going on from it is undefined behaviour. The value is then \<open>Inl\<close> with what
  was sent up to that step, the key or touch that was just lifted included.
\<close>

fun release_keys :: "win_env \<Rightarrow> int \<Rightarrow> (u16 \<times> KeyState) list \<Rightarrow> win \<Rightarrow> effect list + win \<times> effect list" where
  "release_keys e now [] w = Inr (w, [])"
| "release_keys e now ((k, st) # rest) w =
     (if ks_isDown st then
        let (w', sent) = performKeyEvent e now k False False w
        in if map_of (g_key_states w') k = None then Inl sent
           else sent_before sent (release_keys e now rest w')
      else release_keys e now rest w)"

fun release_touches :: "win_env \<Rightarrow> int \<Rightarrow> (u32 \<times> TouchState) list \<Rightarrow> win \<Rightarrow> effect list + win \<times> effect list" where
  "release_touches e now [] w = Inr (w, [])"
| "release_touches e now ((i, st) # rest) w =
     (if ts_isDown st then
        let (w', sent) = performTouchEvent e now (ts_screenId st) (ts_x st) (ts_y st) i False False w
        in if map_of (g_touch_states w') i = None then Inl sent
           else sent_before sent (release_touches e now rest w')
      else release_touches e now rest w)"

text \<open>\<open>VK_LBUTTON, VK_RBUTTON, VK_MBUTTON, VK_XBUTTON1, VK_XBUTTON2\<close> and the buttons they release.\<close>

definition release_buttons :: "win_env \<Rightarrow> effect list" where
  "release_buttons e =
     concat (map (\<lambda>(vk, button). if async_key e vk then performMouseButton button True else [])
       [(1, 1), (2, 3), (4, 2), (5, 4), (6, 5)])"

definition clearAllPressedEvents :: "win_env \<Rightarrow> int \<Rightarrow> win \<Rightarrow> effect list + win \<times> effect list" where
  "clearAllPressedEvents e now w =
     (case release_keys e now (g_key_states w) w of
        Inl s1 \<Rightarrow> Inl s1
      | Inr (w, s1) \<Rightarrow>
          let w = w\<lparr>g_key_states := [], g_last_known_key_down := 0\<rparr> in
          (case release_touches e now (g_touch_states w) w of
             Inl s2 \<Rightarrow> Inl (s1 @ s2)
           | Inr (w, s2) \<Rightarrow>
               let w = w\<lparr>g_touch_states := []\<rparr>;
                   shouldSyncCursor = hasActivePenPointer w;
                   (w, s3) = clearActivePenPointer w
               in Inr (w, s1 @ s2 @ s3 @ release_buttons e @ (if shouldSyncCursor then [SyncCursor] else []))))"

text \<open>\<open>destroyPenDevice\<close> forgets the pen.\<close>

definition destroyPenDevice :: "win \<Rightarrow> win" where
  "destroyPenDevice w = w\<lparr>g_penInfo := zero_pointer, g_last_pen_input_time := 0, g_last_pen_refresh_time := 0\<rparr>"

section \<open>Lemmas on keys\<close>

fun key_run :: "win_env \<Rightarrow> (int \<times> u16 \<times> bool) list \<Rightarrow> win \<Rightarrow> win \<times> effect list" where
  "key_run e [] w = (w, [])"
| "key_run e ((now, k, d) # evs) w =
     (let (w, s) = performKeyEvent e now k d False w; (w, s') = key_run e evs w in (w, s @ s'))"

text \<open>What the tracked state of a key should be: pressed at the time of its last event, if that was down.\<close>

definition held :: "u16 \<Rightarrow> (int \<times> u16 \<times> bool) list \<Rightarrow> KeyState option" where
  "held k evs = (case find (\<lambda>(_, c, _). c = k) (rev evs) of
       Some (now, _, True) \<Rightarrow> Some \<lparr>ks_isDown = True, ks_lastEventTime = now\<rparr>
     | _ \<Rightarrow> None)"

lemma key_run_append: "key_run e (xs @ ys) w =
    (let (w1, s1) = key_run e xs w; (w2, s2) = key_run e ys w1 in (w2, s1 @ s2))"
proof (induction xs arbitrary: w)
  case Nil
  then show ?case by (simp split: prod.split)
next
  case (Cons x xs)
  obtain now k d where x: "x = (now, k, d)" by (cases x)
  show ?case by (simp add: x Cons.IH Let_def split: prod.split)
qed

lemma performKeyEvent_states:
  assumes "g_auto_repeat_enabled w"
  shows "map_of (g_key_states (fst (performKeyEvent e now k d False w))) =
      (map_of (g_key_states w))(k := if d then Some \<lparr>ks_isDown = True, ks_lastEventTime = now\<rparr> else None)"
    and "snd (performKeyEvent e now k d r w) = [Input (INPUT_KEYBOARD (key_input e k d))]"
    and "g_auto_repeat_enabled (fst (performKeyEvent e now k d r w))"
  using assms by (auto simp: performKeyEvent_def update_conv delete_conv' fun_eq_iff Let_def)

lemma key_run_tracks:
  "g_auto_repeat_enabled (fst (key_run e evs init_win)) \<and>
   map_of (g_key_states (fst (key_run e evs init_win))) = (\<lambda>k. held k evs) \<and>
   snd (key_run e evs init_win) = map (\<lambda>(t, k, d). Input (INPUT_KEYBOARD (key_input e k d))) evs"
proof (induction evs rule: rev_induct)
  case Nil
  then show ?case by (simp add: init_win_def held_def)
next
  case (snoc x evs)
  obtain now k d where x: "x = (now, k, d)" by (cases x)
  obtain w s where ws: "key_run e evs init_win = (w, s)" by (cases "key_run e evs init_win")
  note st = performKeyEvent_states [where w = w and e = e and now = now and k = k and d = d]
  have r: "g_auto_repeat_enabled w" using snoc.IH ws by simp
  have "fst (key_run e (evs @ [x]) init_win) = fst (performKeyEvent e now k d False w)"
    and "snd (key_run e (evs @ [x]) init_win) = s @ snd (performKeyEvent e now k d False w)"
    by (simp_all add: key_run_append ws x Let_def split: prod.split)
  moreover have "held k' (evs @ [x]) = (if k' = k then if d then Some \<lparr>ks_isDown = True, ks_lastEventTime = now\<rparr> else None
      else held k' evs)" for k'
    by (auto simp: held_def x)
  ultimately show ?case using snoc.IH ws st [OF r] by (auto simp: x fun_eq_iff)
qed

lemma key_run_last:
  "g_last_known_key_down (fst (key_run e evs init_win)) =
     (case filter (\<lambda>(t, k, d). d) (rev evs) of [] \<Rightarrow> 0 | (t, k, d) # _ \<Rightarrow> k)"
proof (induction evs rule: rev_induct)
  case Nil
  then show ?case by (simp add: init_win_def)
next
  case (snoc x evs)
  obtain now k d where x: "x = (now, k, d)" by (cases x)
  have r: "g_auto_repeat_enabled (fst (key_run e evs init_win))" using key_run_tracks by blast
  have "fst (key_run e (evs @ [x]) init_win) = fst (performKeyEvent e now k d False (fst (key_run e evs init_win)))"
    by (simp add: key_run_append x Let_def split: prod.split)
  then have "g_last_known_key_down (fst (key_run e (evs @ [x]) init_win)) =
      (if d then k else g_last_known_key_down (fst (key_run e evs init_win)))"
    using r by (simp add: performKeyEvent_def Let_def)
  then show ?case using snoc.IH by (simp add: x)
qed

lemma held_down: "held k evs = Some st \<Longrightarrow> ks_isDown st"
  by (auto simp: held_def split: option.splits bool.splits)

lemma find_in_set: "find p xs = Some x \<Longrightarrow> x \<in> set xs \<and> p x"
  by (induction xs) (auto split: if_splits)

lemma held_some: "held k evs = Some st \<Longrightarrow> \<exists>t. (t, k, True) \<in> set evs"
  by (auto simp: held_def split: option.splits bool.splits dest!: find_in_set)

lemma held_none: "filter (\<lambda>(t, k, d). d) (rev evs) = [] \<Longrightarrow> held k evs = None"
  using held_some [of k evs] by (cases "held k evs") (auto simp: filter_empty_conv)

text \<open>If the key pressed last is still held, it is held since that press.\<close>

lemma held_time:
  "filter (\<lambda>(t, k, d). d) (rev evs) = (t, k, d) # rest \<Longrightarrow> held k evs = Some st \<Longrightarrow> ks_lastEventTime st = t"
proof (induction evs rule: rev_induct)
  case Nil
  then show ?case by simp
next
  case (snoc x evs)
  obtain now c b where x: "x = (now, c, b)" by (cases x)
  show ?case using snoc by (cases b) (auto simp: x held_def split: if_splits)
qed

section \<open>Lemmas on touch slots\<close>

datatype touch_op =
    TouchEvent int int dbl dbl u32 bool   \<comment> \<open>time, screen, position, id, down\<close>
  | TouchMove int int dbl dbl u32

fun touch_step :: "win_env \<Rightarrow> touch_op \<Rightarrow> win \<Rightarrow> win \<times> effect list" where
  "touch_step e (TouchEvent now sc x y i d) w = performTouchEvent e now sc x y i d False w"
| "touch_step e (TouchMove now sc x y i) w = performTouchMove e now sc x y i w"

fun touch_run :: "win_env \<Rightarrow> touch_op list \<Rightarrow> win \<Rightarrow> win \<times> effect list" where
  "touch_run e [] w = (w, [])"
| "touch_run e (op # ops) w =
     (let (w, s) = touch_step e op w; (w, s') = touch_run e ops w in (w, s @ s'))"

lemma touch_run_Cons:
  "fst (touch_run e (op # ops) w) = fst (touch_run e ops (fst (touch_step e op w)))"
  "snd (touch_run e (op # ops) w) = snd (touch_step e op w) @ snd (touch_run e ops (fst (touch_step e op w)))"
  by (simp_all add: case_prod_beta Let_def)

declare touch_run.simps(2) [simp del]

fun op_id :: "touch_op \<Rightarrow> u32" where
  "op_id (TouchEvent now sc x y i d) = i"
| "op_id (TouchMove now sc x y i) = i"

definition screen_ok :: "win_env \<Rightarrow> int \<Rightarrow> dbl \<Rightarrow> dbl \<Rightarrow> bool" where
  "screen_ok e sc x y = fst (adjust_to_virtual_desktop_pixels (screen_metrics e) (monitors e) sc x y)"

lemma slot_simps [simp]:
  "slot_id (set_slot_id i p) = i" "slot_id (set_slot_type p) = slot_id p"
  "slot_id (set_contact pt f p) = slot_id p" "slot_id (set_pressure p) = slot_id p"
  "slot_flags (set_slot_id i p) = slot_flags p" "slot_flags (set_slot_type p) = slot_flags p"
  "slot_flags (set_contact pt f p) = f" "slot_flags (set_pressure p) = slot_flags p"
  "pti_type (set_slot_id i p) = pti_type p" "pti_type (set_slot_type p) = PT_TOUCH"
  "pti_type (set_contact pt f p) = pti_type p" "pti_type (set_pressure p) = pti_type p"
  by (simp_all add: slot_id_def slot_flags_def set_slot_id_def set_slot_type_def set_contact_def set_pressure_def)

lemma touch_flags_set:
  "TOUCHEVENTF_PRIMARY OR POINTER_FLAG_INRANGE OR POINTER_FLAG_INCONTACT OR POINTER_FLAG_DOWN \<noteq> POINTER_FLAG_NONE"
  "POINTER_FLAG_UP \<noteq> POINTER_FLAG_NONE"
  "POINTER_FLAG_INRANGE OR POINTER_FLAG_INCONTACT OR POINTER_FLAG_UPDATE \<noteq> POINTER_FLAG_NONE"
  by (simp_all add: pointer_flags)

text \<open>What a handler does to the slots: it writes one slot, and keeps its id.\<close>

definition event_flags :: "bool \<Rightarrow> u32" where
  "event_flags d = (if d then TOUCHEVENTF_PRIMARY OR POINTER_FLAG_INRANGE OR
     POINTER_FLAG_INCONTACT OR POINTER_FLAG_DOWN else POINTER_FLAG_UP)"

lemma event_flags_set: "event_flags d \<noteq> POINTER_FLAG_NONE"
  using touch_flags_set by (simp add: event_flags_def)

lemma touch_event_none:
  "find_slot i w = (w', None) \<Longrightarrow> performTouchEvent e now sc x y i d r w = (w', [])"
  by (simp add: performTouchEvent_def)

lemma touch_event_some:
  fixes e :: win_env and now sc :: int and x y :: dbl and d r :: bool
  assumes "find_slot i w = (w1, Some k)" and "k < length (g_touchInfo w1)"
  defines "w' \<equiv> fst (performTouchEvent e now sc x y i d r w)"
    and "sent \<equiv> snd (performTouchEvent e now sc x y i d r w)"
  shows "g_activeTouchSlots w' = g_activeTouchSlots w1"
    and "\<exists>p. g_touchInfo w' = (g_touchInfo w1)[k := p] \<and> slot_id p = slot_id (g_touchInfo w1 ! k) \<and>
      pti_type p = PT_TOUCH \<and>
      slot_flags p = (if screen_ok e sc x y then event_flags d else slot_flags (g_touchInfo w1 ! k))"
    and "sent = (if screen_ok e sc x y then [touch_frame w'] else [])"
proof -
  obtain ok pt where a: "adjust_to_virtual_desktop_pixels (screen_metrics e) (monitors e) sc x y = (ok, pt)"
    by (cases "adjust_to_virtual_desktop_pixels (screen_metrics e) (monitors e) sc x y")
  have ok: "screen_ok e sc x y = ok" by (simp add: screen_ok_def a)
  let ?q = "set_slot_type (g_touchInfo w1 ! k)"
  let ?p = "set_pressure (set_contact pt (event_flags d) ?q)"
  have w': "g_touchInfo w' = (g_touchInfo w1)[k := if ok then ?p else ?q]"
    using assms(2) by (simp add: w'_def performTouchEvent_def assms(1) a Let_def event_flags_def)
  show "g_activeTouchSlots w' = g_activeTouchSlots w1"
    by (simp add: w'_def performTouchEvent_def assms(1) a Let_def)
  then show "sent = (if screen_ok e sc x y then [touch_frame w'] else [])"
    using w' assms(2) unfolding ok sent_def
    by (simp add: performTouchEvent_def assms(1) a Let_def event_flags_def touch_frame_def)
  show "\<exists>p. g_touchInfo w' = (g_touchInfo w1)[k := p] \<and> slot_id p = slot_id (g_touchInfo w1 ! k) \<and>
      pti_type p = PT_TOUCH \<and>
      slot_flags p = (if screen_ok e sc x y then event_flags d else slot_flags (g_touchInfo w1 ! k))"
    using w' by (intro exI [of _ "if ok then ?p else ?q"]) (simp add: ok)
qed

lemma touch_move_cases:
  fixes e :: win_env and now sc :: int and x y :: dbl and i :: u32 and w :: win
  defines "w' \<equiv> fst (performTouchMove e now sc x y i w)"
    and "sent \<equiv> snd (performTouchMove e now sc x y i w)"
  shows "g_activeTouchSlots w' = g_activeTouchSlots w"
    and "(g_touchInfo w' = g_touchInfo w \<and> sent = []) \<or>
      (\<exists>k p. find_index (\<lambda>p. slot_id p = i) (g_touchInfo w) = Some k \<and> screen_ok e sc x y \<and>
         g_touchInfo w' = (g_touchInfo w)[k := p] \<and> slot_id p = slot_id (g_touchInfo w ! k) \<and>
         pti_type p = pti_type (g_touchInfo w ! k) \<and> slot_flags p \<noteq> POINTER_FLAG_NONE \<and>
         sent = [touch_frame w'])"
  using find_index_Some [of "\<lambda>p. slot_id p = i" "g_touchInfo w"] touch_flags_set(3)
  by (auto simp: w'_def sent_def performTouchMove_def Let_def screen_ok_def touch_frame_def
      split: option.split prod.split)

text \<open>
  The invariant of runs whose ids are not zero: below \<open>g_activeTouchSlots\<close> every slot belongs to a
  touch, from there on every slot is untouched.
\<close>

definition slots_ok :: "win \<Rightarrow> bool" where
  "slots_ok w \<longleftrightarrow> length (g_touchInfo w) = 10 \<and> g_activeTouchSlots w \<le> 10 \<and>
     (\<forall>k < g_activeTouchSlots w. slot_id (g_touchInfo w ! k) \<noteq> 0 \<and> pti_type (g_touchInfo w ! k) = PT_TOUCH) \<and>
     (\<forall>k < 10. g_activeTouchSlots w \<le> k \<longrightarrow>
        slot_id (g_touchInfo w ! k) = 0 \<and> slot_flags (g_touchInfo w ! k) = POINTER_FLAG_NONE)"

lemma slots_ok_init: "slots_ok init_win"
  by (simp add: slots_ok_def init_win_def slot_id_def slot_flags_def zero_pointer_def zero_touch_info_def
      zero_pointer_info_def POINTER_FLAG_NONE_def)

lemma find_known_slot:
  assumes "slots_ok w" "i \<noteq> 0" "find_index (\<lambda>p. slot_id p = i) (g_touchInfo w) = Some k"
  shows "k < g_activeTouchSlots w" "k < 10" "slot_id (g_touchInfo w ! k) = i"
proof -
  have k: "k < length (g_touchInfo w)" "slot_id (g_touchInfo w ! k) = i"
    using find_index_Some [OF assms(3)] by simp_all
  then show "k < 10" "slot_id (g_touchInfo w ! k) = i" using assms(1) by (simp_all add: slots_ok_def)
  then show "k < g_activeTouchSlots w" using assms(1,2) by (auto simp: slots_ok_def not_less [symmetric])
qed

text \<open>Writing a slot that keeps its id and type, or takes the next one.\<close>

lemma slots_ok_write:
  assumes "slots_ok w" "k < g_activeTouchSlots w" "slot_id p \<noteq> 0" "pti_type p = PT_TOUCH"
    and "g_touchInfo w' = (g_touchInfo w)[k := p]" "g_activeTouchSlots w' = g_activeTouchSlots w"
  shows "slots_ok w'"
  using assms by (auto simp: slots_ok_def nth_list_update)

lemma slots_ok_take:
  assumes w: "slots_ok w" and k: "k \<le> g_activeTouchSlots w" "k < 10" and p: "slot_id p \<noteq> 0" "pti_type p = PT_TOUCH"
    and w': "g_touchInfo w' = (g_touchInfo w)[k := p]" "g_activeTouchSlots w' = max (g_activeTouchSlots w) (k + 1)"
  shows "slots_ok w'"
proof -
  let ?g = "g_touchInfo w"
  have l: "length ?g = 10" "g_activeTouchSlots w \<le> 10" using w by (simp_all add: slots_ok_def)
  have "slot_id (g_touchInfo w' ! j) \<noteq> 0 \<and> pti_type (g_touchInfo w' ! j) = PT_TOUCH"
    if "j < g_activeTouchSlots w'" for j
    using w that k p l w' by (cases "j = k") (simp_all add: slots_ok_def max_def split: if_splits)
  moreover have "slot_id (g_touchInfo w' ! j) = 0 \<and> slot_flags (g_touchInfo w' ! j) = POINTER_FLAG_NONE"
    if "j < 10" "g_activeTouchSlots w' \<le> j" for j
    using w that w' by (simp add: slots_ok_def)
  ultimately show ?thesis using l k w' by (simp add: slots_ok_def)
qed

lemma find_slot_cases:
  assumes "find_slot i w = (w1, Some k)"
  shows "(find_index (\<lambda>p. slot_id p = i) (g_touchInfo w) = Some k \<and> w1 = w) \<or>
    (find_index (\<lambda>p. slot_flags p = POINTER_FLAG_NONE) (g_touchInfo w) = Some k \<and>
       w1 = w\<lparr>g_touchInfo := (g_touchInfo w)[k := set_slot_id i (g_touchInfo w ! k)],
              g_activeTouchSlots := max (g_activeTouchSlots w) (k + 1)\<rparr>)"
  using assms by (simp add: find_slot_def split: option.splits)

lemma free_slot_next:
  assumes w: "slots_ok w" and f: "find_index (\<lambda>p. slot_flags p = POINTER_FLAG_NONE) (g_touchInfo w) = Some k"
  shows "k < 10" "k \<le> g_activeTouchSlots w"
proof -
  have k: "k < length (g_touchInfo w)" "\<forall>j < k. slot_flags (g_touchInfo w ! j) \<noteq> POINTER_FLAG_NONE"
    using find_index_Some [OF f] by simp_all
  show k10: "k < 10" using k(1) w by (simp add: slots_ok_def)
  show "k \<le> g_activeTouchSlots w"
  proof (rule ccontr)
    assume "\<not> k \<le> g_activeTouchSlots w"
    then have a: "g_activeTouchSlots w < k" "g_activeTouchSlots w < 10" using k10 by simp_all
    with w have "slot_flags (g_touchInfo w ! g_activeTouchSlots w) = POINTER_FLAG_NONE" by (simp add: slots_ok_def)
    with k(2) a(1) show False by simp
  qed
qed

lemma find_slot_ok:
  assumes w: "slots_ok w" and i: "i \<noteq> 0" and f: "find_slot i w = (w1, Some k)"
  shows "k < 10" "k < g_activeTouchSlots w1" "length (g_touchInfo w1) = 10" "slot_id (g_touchInfo w1 ! k) = i"
proof -
  have l: "length (g_touchInfo w) = 10" using w by (simp add: slots_ok_def)
  have "k < 10 \<and> k < g_activeTouchSlots w1 \<and> length (g_touchInfo w1) = 10 \<and> slot_id (g_touchInfo w1 ! k) = i"
    using find_slot_cases [OF f]
  proof (elim disjE conjE)
    assume k: "find_index (\<lambda>p. slot_id p = i) (g_touchInfo w) = Some k" "w1 = w"
    then show ?thesis using find_known_slot [OF w i k(1)] l by simp
  next
    assume k: "find_index (\<lambda>p. slot_flags p = POINTER_FLAG_NONE) (g_touchInfo w) = Some k"
      "w1 = w\<lparr>g_touchInfo := (g_touchInfo w)[k := set_slot_id i (g_touchInfo w ! k)],
              g_activeTouchSlots := max (g_activeTouchSlots w) (k + 1)\<rparr>"
    show ?thesis using free_slot_next [OF w k(1)] l unfolding k(2) by simp
  qed
  then show "k < 10" "k < g_activeTouchSlots w1" "length (g_touchInfo w1) = 10" "slot_id (g_touchInfo w1 ! k) = i"
    by simp_all
qed

lemma find_slot_write:
  assumes w: "slots_ok w" and i: "i \<noteq> 0" and f: "find_slot i w = (w1, Some k)"
    and p: "slot_id p = i" "pti_type p = PT_TOUCH"
    and w': "g_touchInfo w' = (g_touchInfo w1)[k := p]" "g_activeTouchSlots w' = g_activeTouchSlots w1"
  shows "slots_ok w'"
  using find_slot_cases [OF f]
proof (elim disjE conjE)
  assume k: "find_index (\<lambda>p. slot_id p = i) (g_touchInfo w) = Some k" "w1 = w"
  show ?thesis
    by (rule slots_ok_write [OF w find_known_slot(1) [OF w i k(1)] _ p(2)]) (simp_all add: p(1) i w' k(2))
next
  assume k: "find_index (\<lambda>p. slot_flags p = POINTER_FLAG_NONE) (g_touchInfo w) = Some k"
    "w1 = w\<lparr>g_touchInfo := (g_touchInfo w)[k := set_slot_id i (g_touchInfo w ! k)],
            g_activeTouchSlots := max (g_activeTouchSlots w) (k + 1)\<rparr>"
  note n = free_slot_next [OF w k(1)]
  show ?thesis
    by (rule slots_ok_take [OF w n(2,1) _ p(2)]) (simp_all add: p(1) i w' k(2))
qed

text \<open>
  What a frame should be. The contact of the touch the operation is about stands where the operation
  says, with the flags of a press, a lift or a move; the contacts of the other touches, as the slots
  held them before, are all in the frame.
\<close>

fun op_place :: "touch_op \<Rightarrow> int \<times> dbl \<times> dbl" where
  "op_place (TouchEvent now sc x y i d) = (sc, x, y)"
| "op_place (TouchMove now sc x y i) = (sc, x, y)"

fun op_flags :: "touch_op \<Rightarrow> u32" where
  "op_flags (TouchEvent now sc x y i d) = (if d then 0x10016 else 0x40000)"
| "op_flags (TouchMove now sc x y i) = 0x20006"

fun may_take_free :: "touch_op \<Rightarrow> bool" where
  "may_take_free (TouchEvent now sc x y i d) = True"
| "may_take_free (TouchMove now sc x y i) = False"

definition op_point :: "win_env \<Rightarrow> touch_op \<Rightarrow> point option" where
  "op_point e op = (case op_place op of (sc, x, y) \<Rightarrow>
     (let (ok, pt) = adjust_to_virtual_desktop_pixels (screen_metrics e) (monitors e) sc x y
      in if ok then Some pt else None))"

definition used_slots :: "win \<Rightarrow> POINTER_TYPE_INFO list" where
  "used_slots w = take (g_activeTouchSlots w) (g_touchInfo w)"

definition op_contact :: "win_env \<Rightarrow> touch_op \<Rightarrow> POINTER_TYPE_INFO \<Rightarrow> bool" where
  "op_contact e op p \<longleftrightarrow> slot_id p = op_id op \<and> slot_flags p = op_flags op \<and>
     (case op_point e op of None \<Rightarrow> False | Some pt \<Rightarrow>
        ptPixelLocation_x (ti_pointerInfo (touchInfo p)) = of_int (p_x pt) \<and>
        ptPixelLocation_y (ti_pointerInfo (touchInfo p)) = of_int (p_y pt))"

definition good_frame :: "win_env \<Rightarrow> win \<Rightarrow> touch_op \<Rightarrow> effect \<Rightarrow> bool" where
  "good_frame e w op f = (case f of
       TouchFrame ps \<Rightarrow> SendTouch_buffer ps \<noteq> None \<and> (\<exists>p \<in> set ps. op_contact e op p) \<and>
         (\<forall>q \<in> set (used_slots w). slot_id q \<noteq> op_id op \<and> slot_flags q \<noteq> POINTER_FLAG_NONE \<longrightarrow> q \<in> set ps)
     | _ \<Rightarrow> False)"

text \<open>The operation has a slot to write: one that carries its id or, for a press or lift, a free one.\<close>

definition has_slot :: "win \<Rightarrow> touch_op \<Rightarrow> bool" where
  "has_slot w op \<longleftrightarrow> (\<exists>q \<in> set (g_touchInfo w). slot_id q = op_id op \<or>
     may_take_free op \<and> slot_flags q = POINTER_FLAG_NONE)"

text \<open>A step writes one slot of its own and sends one frame, or does nothing.\<close>

definition writes_slot :: "win_env \<Rightarrow> touch_op \<Rightarrow> win \<Rightarrow> win \<Rightarrow> effect list \<Rightarrow> nat \<Rightarrow> POINTER_TYPE_INFO \<Rightarrow> bool" where
  "writes_slot e op w w' sent k p \<longleftrightarrow>
     k < length (g_touchInfo w) \<and> g_touchInfo w' = (g_touchInfo w)[k := p] \<and> slot_id p = op_id op \<and>
     (slot_id (g_touchInfo w ! k) = op_id op \<or> slot_flags (g_touchInfo w ! k) = POINTER_FLAG_NONE) \<and>
     g_activeTouchSlots w \<le> g_activeTouchSlots w' \<and> k < g_activeTouchSlots w' \<and>
     (if op_point e op = None then sent = [] else sent = [touch_frame w'] \<and> op_contact e op p)"

lemma writes_slot_sent: "writes_slot e op w w' sent k p \<Longrightarrow> op_point e op \<noteq> None \<Longrightarrow> sent = [touch_frame w']"
  by (simp add: writes_slot_def)

lemma frame_of_write:
  assumes s: "slots_ok w'" and u: "writes_slot e op w w' sent k p" and o: "op_point e op \<noteq> None"
  shows "good_frame e w op (touch_frame w')"
proof -
  let ?ps = "take (g_activeTouchSlots w') (g_touchInfo w')"
  note u = u [unfolded writes_slot_def]
  have l: "length ?ps = g_activeTouchSlots w'" using s by (simp add: slots_ok_def)
  have t: "\<forall>p \<in> set ?ps. pti_type p = PT_TOUCH"
    using s by (auto simp: slots_ok_def in_set_conv_nth)
  have "p \<in> set ?ps" using u l by (metis nth_mem nth_take nth_list_update_eq)
  moreover have "op_contact e op p" using u o by simp
  moreover have "SendTouch_buffer ?ps \<noteq> None"
    using l t u s by (auto simp: SendTouch_buffer_def list_ex_iff kMaxTouchContacts_def slots_ok_def)
  moreover have "q \<in> set ?ps"
    if q: "q \<in> set (used_slots w)" "slot_id q \<noteq> op_id op" "slot_flags q \<noteq> POINTER_FLAG_NONE" for q
  proof -
    obtain j where j: "j < g_activeTouchSlots w" "j < length (g_touchInfo w)" "q = g_touchInfo w ! j"
      using q(1) by (auto simp: used_slots_def in_set_conv_nth)
    have "j \<noteq> k" using q(2,3) u j(3) by auto
    then have "?ps ! j = q" using j u by simp
    moreover have "j < length ?ps" using j(1) u l by simp
    ultimately show ?thesis by (metis nth_mem)
  qed
  ultimately show ?thesis by (auto simp: good_frame_def touch_frame_def)
qed

lemma touch_event_contact:
  fixes e :: win_env and now sc :: int and x y :: dbl and d r :: bool
  assumes f: "find_slot i w = (w1, Some k)" and k: "k < length (g_touchInfo w1)"
  defines "w' \<equiv> fst (performTouchEvent e now sc x y i d r w)"
  shows "slot_id (g_touchInfo w1 ! k) = i \<Longrightarrow> op_point e (TouchEvent now sc x y i d) \<noteq> None \<Longrightarrow>
    op_contact e (TouchEvent now sc x y i d) (g_touchInfo w' ! k)"
proof -
  assume i: "slot_id (g_touchInfo w1 ! k) = i" and o: "op_point e (TouchEvent now sc x y i d) \<noteq> None"
  then obtain pt where a: "adjust_to_virtual_desktop_pixels (screen_metrics e) (monitors e) sc x y = (True, pt)"
    by (auto simp: op_point_def split: prod.splits if_splits)
  have "g_touchInfo w' ! k = set_pressure (set_contact pt (event_flags d) (set_slot_type (g_touchInfo w1 ! k)))"
    using k by (simp add: w'_def performTouchEvent_def f a Let_def event_flags_def)
  then show ?thesis using i
    by (simp add: op_contact_def op_point_def a event_flags_def pointer_flags)
      (simp add: set_pressure_def set_contact_def)
qed

lemma op_point_ok: "op_point e op \<noteq> None \<longleftrightarrow> (case op_place op of (sc, x, y) \<Rightarrow> screen_ok e sc x y)"
  by (simp add: op_point_def screen_ok_def split: prod.split)

lemma find_slot_none:
  assumes "find_slot i w = (w1, None)"
  shows "w1 = w" "\<forall>q \<in> set (g_touchInfo w). slot_id q \<noteq> i \<and> slot_flags q \<noteq> POINTER_FLAG_NONE"
  using assms by (auto simp: find_slot_def find_index_None split: option.splits)

lemma touch_event_writes:
  assumes w: "slots_ok w" and i: "i \<noteq> 0" and f: "find_slot i w = (w1, Some k)"
  shows "\<exists>p. writes_slot e (TouchEvent now sc x y i d) w (fst (performTouchEvent e now sc x y i d False w))
      (snd (performTouchEvent e now sc x y i d False w)) k p \<and> pti_type p = PT_TOUCH"
    and "slots_ok (fst (performTouchEvent e now sc x y i d False w))"
proof -
  let ?op = "TouchEvent now sc x y i d" and ?w' = "fst (performTouchEvent e now sc x y i d False w)"
  note ok = find_slot_ok [OF w i f]
  have j: "k < length (g_touchInfo w1)" using ok(1,3) by simp
  note ev = touch_event_some [OF f j, where e = e and now = now and sc = sc and x = x and y = y and d = d and r = False]
  obtain p where p: "g_touchInfo ?w' = (g_touchInfo w1)[k := p]" "slot_id p = i" "pti_type p = PT_TOUCH"
    using ev(2) ok(4) by auto
  show "slots_ok ?w'" by (rule find_slot_write [OF w i f p(2,3,1) ev(1)])
  have pk: "p = g_touchInfo ?w' ! k" using p(1) j by simp
  have c: "op_point e ?op \<noteq> None \<Longrightarrow> op_contact e ?op p"
    unfolding pk by (rule touch_event_contact [OF f j ok(4)])
  have s: "screen_ok e sc x y \<longleftrightarrow> op_point e ?op \<noteq> None" by (simp only: op_point_ok) simp
  have "writes_slot e ?op w ?w' (snd (performTouchEvent e now sc x y i d False w)) k p"
    using find_slot_cases [OF f]
  proof (elim disjE conjE)
    assume a: "find_index (\<lambda>p. slot_id p = i) (g_touchInfo w) = Some k" "w1 = w"
    show ?thesis
      using find_known_slot [OF w i a(1)] p ev c s j a(2) by (simp add: writes_slot_def)
  next
    assume a: "find_index (\<lambda>p. slot_flags p = POINTER_FLAG_NONE) (g_touchInfo w) = Some k"
      "w1 = w\<lparr>g_touchInfo := (g_touchInfo w)[k := set_slot_id i (g_touchInfo w ! k)],
              g_activeTouchSlots := max (g_activeTouchSlots w) (k + 1)\<rparr>"
    have g: "g_touchInfo ?w' = (g_touchInfo w)[k := p]" "g_activeTouchSlots ?w' = max (g_activeTouchSlots w) (k + 1)"
      using p(1) ev(1) a(2) by simp_all
    have "slot_flags (g_touchInfo w ! k) = POINTER_FLAG_NONE" "k < length (g_touchInfo w)"
      using find_index_Some [OF a(1)] by simp_all
    then show ?thesis using g p(2) ev(3) c s by (auto simp: writes_slot_def)
  qed
  then show "\<exists>p. writes_slot e ?op w ?w' (snd (performTouchEvent e now sc x y i d False w)) k p \<and> pti_type p = PT_TOUCH"
    using p(3) by blast
qed

lemma touch_move_contact:
  assumes f: "find_index (\<lambda>p. slot_id p = i) (g_touchInfo w) = Some k"
    and o: "op_point e (TouchMove now sc x y i) \<noteq> None"
  shows "op_contact e (TouchMove now sc x y i) (g_touchInfo (fst (performTouchMove e now sc x y i w)) ! k)"
proof -
  obtain pt where a: "adjust_to_virtual_desktop_pixels (screen_metrics e) (monitors e) sc x y = (True, pt)"
    using o by (auto simp: op_point_def split: prod.splits if_splits)
  have k: "k < length (g_touchInfo w)" "slot_id (g_touchInfo w ! k) = i" using find_index_Some [OF f] by simp_all
  have "g_touchInfo (fst (performTouchMove e now sc x y i w)) ! k =
      set_contact pt (POINTER_FLAG_INRANGE OR POINTER_FLAG_INCONTACT OR POINTER_FLAG_UPDATE) (g_touchInfo w ! k)"
    using k(1) by (simp add: performTouchMove_def f a Let_def)
  then show ?thesis using k(2)
    by (simp add: op_contact_def op_point_def a pointer_flags) (simp add: set_contact_def)
qed

lemma touch_step_ok:
  fixes e :: win_env
  assumes w: "slots_ok w" and i: "op_id op \<noteq> 0"
  defines "w' \<equiv> fst (touch_step e op w)" and "sent \<equiv> snd (touch_step e op w)"
  shows "slots_ok w'"
    and "sent = (if has_slot w op \<and> op_point e op \<noteq> None then [touch_frame w'] else [])"
    and "has_slot w op \<Longrightarrow> op_point e op \<noteq> None \<Longrightarrow> \<exists>k p. writes_slot e op w w' sent k p"
proof -
  have "slots_ok w' \<and> (if has_slot w op \<and> op_point e op \<noteq> None then \<exists>k p. writes_slot e op w w' sent k p else sent = [])"
  proof (cases op)
    case (TouchEvent now sc x y t d)
    have w': "w' = fst (performTouchEvent e now sc x y t d False w)"
      "sent = snd (performTouchEvent e now sc x y t d False w)" by (simp_all add: w'_def sent_def TouchEvent)
    have t: "t \<noteq> 0" using i TouchEvent by simp
    obtain w1 k where f: "find_slot t w = (w1, k)" by (cases "find_slot t w")
    show ?thesis
    proof (cases k)
      case None
      note n = find_slot_none [OF f [unfolded None]]
      have "\<not> has_slot w op" using n(2) by (simp add: has_slot_def TouchEvent)
      then show ?thesis using w n(1) touch_event_none [OF f [unfolded None]] by (simp add: w')
    next
      case (Some j)
      note tw = touch_event_writes [OF w t f [unfolded Some], where e = e and now = now and sc = sc and x = x and y = y and d = d]
      obtain p where p: "writes_slot e op w w' sent j p" using tw(1) by (auto simp: w' TouchEvent)
      have so: "slots_ok w'" using tw(2) by (simp add: w')
      have hs: "has_slot w op" using p by (auto simp: writes_slot_def has_slot_def TouchEvent)
      show ?thesis
      proof (cases "op_point e op = None")
        case True
        then show ?thesis using p so by (simp add: writes_slot_def)
      next
        case False
        then show ?thesis using p so hs by auto
      qed
    qed
  next
    case (TouchMove now sc x y t)
    have w': "w' = fst (performTouchMove e now sc x y t w)"
      "sent = snd (performTouchMove e now sc x y t w)" by (simp_all add: w'_def sent_def TouchMove)
    have t: "t \<noteq> 0" using i TouchMove by simp
    note known = find_known_slot [OF w t]
    note mv = touch_move_cases [where e = e and now = now and sc = sc and x = x and y = y and i = t and w = w, folded w']
    have o: "op_point e op \<noteq> None \<longleftrightarrow> screen_ok e sc x y" by (simp only: op_point_ok) (simp add: TouchMove)
    show ?thesis
    proof (cases "find_index (\<lambda>p. slot_id p = t) (g_touchInfo w)")
      case None
      then have "\<not> has_slot w op" by (simp add: has_slot_def TouchMove find_index_None)
      then show ?thesis using None mv w by (auto simp: slots_ok_def)
    next
      case (Some k)
      note kn = known [OF Some]
      from mv(2) show ?thesis
      proof (elim disjE exE conjE)
        assume "g_touchInfo w' = g_touchInfo w" "sent = []"
        moreover have "op_point e op = None" if "sent = []"
        proof (rule ccontr)
          assume "op_point e op \<noteq> None"
          then have "screen_ok e sc x y" using o by simp
          with that Some show False
            by (simp add: w' performTouchMove_def screen_ok_def Let_def split: prod.splits)
        qed
        ultimately show ?thesis using w mv(1) by (simp add: slots_ok_def)
      next
        fix j p
        assume "find_index (\<lambda>p. slot_id p = t) (g_touchInfo w) = Some j"
          and u: "screen_ok e sc x y" "g_touchInfo w' = (g_touchInfo w)[j := p]"
            "slot_id p = slot_id (g_touchInfo w ! j)" "pti_type p = pti_type (g_touchInfo w ! j)"
            "sent = [touch_frame w']"
        then have j: "j = k" using Some by simp
        have ty: "pti_type p = PT_TOUCH" "slot_id p = t" using u kn w j by (simp_all add: slots_ok_def)
        have s: "slots_ok w'"
          by (rule slots_ok_write [OF w kn(1) _ ty(1) u(2) [unfolded j]]) (use ty t mv(1) in simp_all)
        have kl: "k < length (g_touchInfo w)" using kn(2) w by (simp add: slots_ok_def)
        have "op_contact e op (g_touchInfo w' ! k)"
          using touch_move_contact [OF Some] o u(1) by (simp add: w' TouchMove)
        then have "op_contact e op p" using u(2) j kl by simp
        then have "writes_slot e op w w' sent k p"
          using kn kl u o ty(2) mv(1) j by (auto simp: writes_slot_def TouchMove)
        moreover have "has_slot w op" using kn(3) kl by (auto simp: has_slot_def TouchMove)
        ultimately show ?thesis using s o u(1) by auto
      qed
    qed
  qed
  then show "slots_ok w'" "sent = (if has_slot w op \<and> op_point e op \<noteq> None then [touch_frame w'] else [])"
    "has_slot w op \<Longrightarrow> op_point e op \<noteq> None \<Longrightarrow> \<exists>k p. writes_slot e op w w' sent k p"
    using writes_slot_sent [of e op w w' sent] by (auto split: if_splits)
qed

text \<open>A run, with each operation, the state it met and what it sent.\<close>

fun touch_trace :: "win_env \<Rightarrow> touch_op list \<Rightarrow> win \<Rightarrow> (win \<times> touch_op \<times> effect list) list" where
  "touch_trace e [] w = []"
| "touch_trace e (op # ops) w = (w, op, snd (touch_step e op w)) # touch_trace e ops (fst (touch_step e op w))"

lemma touch_trace_run:
  "snd (touch_run e ops w) = concat (map (\<lambda>(w, op, sent). sent) (touch_trace e ops w))"
  by (induction ops arbitrary: w) (simp_all add: touch_run_Cons)

lemma touch_trace_ops: "map (\<lambda>(w, op, sent). op) (touch_trace e ops w) = ops"
  by (induction ops arbitrary: w) simp_all

lemma touch_trace_ok:
  "slots_ok w \<Longrightarrow> \<forall>op \<in> set ops. op_id op \<noteq> 0 \<Longrightarrow> (w', op, sent) \<in> set (touch_trace e ops w) \<Longrightarrow>
     (if has_slot w' op \<and> op_point e op \<noteq> None then \<exists>f. sent = [f] \<and> good_frame e w' op f else sent = [])"
proof (induction ops arbitrary: w)
  case Nil
  then show ?case by simp
next
  case (Cons o' ops)
  note s = touch_step_ok [OF Cons.prems(1), of o' e]
  show ?case
  proof (cases "(w', op, sent) = (w, o', snd (touch_step e o' w))")
    case True
    then show ?thesis using s Cons.prems(2) frame_of_write [of "fst (touch_step e o' w)" e o' w] by auto
  next
    case False
    then show ?thesis using Cons.IH [OF s(1)] Cons.prems by auto
  qed
qed

section \<open>Lemmas on slots that fill up\<close>

text \<open>Every slot below \<open>g_activeTouchSlots\<close> was used, by the given ids in order.\<close>

definition filled :: "u32 list \<Rightarrow> win \<Rightarrow> bool" where
  "filled ids w \<longleftrightarrow> slots_ok w \<and> g_activeTouchSlots w = length ids \<and>
     (\<forall>k < length ids. slot_id (g_touchInfo w ! k) = ids ! k \<and> slot_flags (g_touchInfo w ! k) \<noteq> POINTER_FLAG_NONE)"

lemma filled_base:
  "filled ids w \<Longrightarrow> slots_ok w \<and> g_activeTouchSlots w = length ids \<and> length (g_touchInfo w) = 10 \<and> length ids \<le> 10"
  by (auto simp: filled_def slots_ok_def)

lemma filled_write:
  assumes f: "filled ids w" and k: "k < length ids" "g_touchInfo w' = (g_touchInfo w)[k := p]"
    "g_activeTouchSlots w' = g_activeTouchSlots w" "slot_id p = ids ! k" "slot_flags p \<noteq> POINTER_FLAG_NONE"
    and s: "slots_ok w'"
  shows "filled ids w'"
proof -
  have l: "length (g_touchInfo w) = 10" "length ids \<le> 10" using filled_base [OF f] by simp_all
  have "slot_id (g_touchInfo w' ! j) = ids ! j \<and> slot_flags (g_touchInfo w' ! j) \<noteq> POINTER_FLAG_NONE"
    if "j < length ids" for j
    using f that k l by (cases "j = k") (simp_all add: filled_def)
  then show ?thesis using f k s by (simp add: filled_def)
qed

text \<open>A new touch takes the next slot; when there is none left it is dropped.\<close>

lemma filled_new:
  assumes f: "filled ids w" and t: "t \<notin> set ids" "t \<noteq> 0"
  shows "length ids < 10 \<Longrightarrow> find_slot t w =
      (w\<lparr>g_touchInfo := (g_touchInfo w)[length ids := set_slot_id t (g_touchInfo w ! length ids)],
         g_activeTouchSlots := length ids + 1\<rparr>, Some (length ids))"
    and "length ids = 10 \<Longrightarrow> find_slot t w = (w, None)"
proof -
  have w: "slots_ok w" "g_activeTouchSlots w = length ids" "length (g_touchInfo w) = 10"
    using filled_base [OF f] by simp_all
  have id: "slot_id p \<noteq> t" if p: "p \<in> set (g_touchInfo w)" for p
  proof -
    obtain k where k: "k < 10" "p = g_touchInfo w ! k" using p w(3) by (auto simp: in_set_conv_nth)
    show ?thesis
    proof (cases "k < length ids")
      case True
      then show ?thesis using f t(1) k(2) by (auto simp: filled_def)
    next
      case False
      then show ?thesis using w t(2) k by (simp add: slots_ok_def)
    qed
  qed
  then have n: "find_index (\<lambda>p. slot_id p = t) (g_touchInfo w) = None" by (simp add: find_index_None)
  { assume l: "length ids < 10"
    have "find_index (\<lambda>p. slot_flags p = POINTER_FLAG_NONE) (g_touchInfo w) = Some (length ids)"
      using f w l by (intro find_index_SomeI) (simp_all add: filled_def slots_ok_def)
    then show "find_slot t w =
      (w\<lparr>g_touchInfo := (g_touchInfo w)[length ids := set_slot_id t (g_touchInfo w ! length ids)],
         g_activeTouchSlots := length ids + 1\<rparr>, Some (length ids))"
      using n w(2) by (simp add: find_slot_def) }
  { assume l: "length ids = 10"
    have "slot_flags p \<noteq> POINTER_FLAG_NONE" if p: "p \<in> set (g_touchInfo w)" for p
    proof -
      obtain k where "k < 10" "p = g_touchInfo w ! k" using p w(3) by (auto simp: in_set_conv_nth)
      then show ?thesis using f l by (simp add: filled_def)
    qed
    then have "find_index (\<lambda>p. slot_flags p = POINTER_FLAG_NONE) (g_touchInfo w) = None"
      by (simp add: find_index_None)
    then show "find_slot t w = (w, None)" using n by (simp add: find_slot_def) }
qed

lemma filled_known:
  assumes f: "filled ids w" and k: "k < length ids" and "distinct ids" and z: "0 \<notin> set ids"
  shows "find_slot (ids ! k) w = (w, Some k)"
proof -
  have w: "slots_ok w" "g_activeTouchSlots w = length ids" "length (g_touchInfo w) = 10" "length ids \<le> 10"
    using filled_base [OF f] by simp_all
  have "find_index (\<lambda>p. slot_id p = ids ! k) (g_touchInfo w) = Some k"
  proof (rule find_index_SomeI)
    show "k < length (g_touchInfo w)" "slot_id (g_touchInfo w ! k) = ids ! k" using f k w by (simp_all add: filled_def)
    fix j assume "j < k"
    then show "slot_id (g_touchInfo w ! j) \<noteq> ids ! k"
      using f k \<open>distinct ids\<close> by (simp add: filled_def nth_eq_iff_index_eq)
  qed
  then show ?thesis by (simp add: find_slot_def)
qed

text \<open>Pressing and lifting a finger with a fresh id leaves its slot in use.\<close>

lemma filled_event:
  assumes f: "filled ids w" and s: "screen_ok e sc x y" and t: "t \<noteq> 0"
    and k: "find_slot t w = (w1, Some k)" and ids: "ids' = ids \<and> k < length ids \<and> ids ! k = t \<and> w1 = w \<or>
      ids' = ids @ [t] \<and> k = length ids \<and> k < 10 \<and> g_activeTouchSlots w1 = k + 1 \<and>
      g_touchInfo w1 = (g_touchInfo w)[k := set_slot_id t (g_touchInfo w ! k)]"
  shows "filled ids' (fst (performTouchEvent e now sc x y t d False w))"
proof -
  let ?w = "fst (performTouchEvent e now sc x y t d False w)"
  have w: "slots_ok w" "g_activeTouchSlots w = length ids" "length (g_touchInfo w) = 10" "length ids \<le> 10"
    using filled_base [OF f] by simp_all
  note ok = find_slot_ok [OF w(1) t k]
  have j: "k < length (g_touchInfo w1)" using ok(1,3) by simp
  note ev = touch_event_some [OF k j, where e = e and now = now and sc = sc and x = x and y = y and d = d and r = False]
  obtain p where p: "g_touchInfo ?w = (g_touchInfo w1)[k := p]" "slot_id p = t" "pti_type p = PT_TOUCH"
      "slot_flags p = event_flags d"
    using ev(2) ok(4) s by auto
  have so: "slots_ok ?w" by (rule find_slot_write [OF w(1) t k p(2,3,1) ev(1)])
  from ids show ?thesis
  proof (elim disjE conjE)
    assume a: "ids' = ids" "k < length ids" "ids ! k = t" "w1 = w"
    have "slot_flags p \<noteq> POINTER_FLAG_NONE" unfolding p(4) by (rule event_flags_set)
    then show ?thesis unfolding a(1)
      by (intro filled_write [OF f a(2) _ _ _ _ so]) (use p(1,2) ev(1) a in simp_all)
  next
    assume a: "ids' = ids @ [t]" "k = length ids" "k < 10" "g_activeTouchSlots w1 = k + 1"
      "g_touchInfo w1 = (g_touchInfo w)[k := set_slot_id t (g_touchInfo w ! k)]"
    have g: "g_touchInfo ?w = (g_touchInfo w)[k := p]" using p(1) a(5) by simp
    have fl: "slot_flags p \<noteq> POINTER_FLAG_NONE" unfolding p(4) by (rule event_flags_set)
    have "slot_id (g_touchInfo ?w ! j) = ids' ! j \<and> slot_flags (g_touchInfo ?w ! j) \<noteq> POINTER_FLAG_NONE"
      if "j < length ids'" for j
    proof (cases "j = k")
      case True
      then show ?thesis using g a(1,2,3) p(2) w(3) fl by (simp add: nth_append)
    next
      case False
      then show ?thesis using that f g a(1,2) by (simp add: filled_def nth_append)
    qed
    then show ?thesis using so ev(1) a by (simp add: filled_def)
  qed
qed

definition tap :: "int \<Rightarrow> int \<Rightarrow> dbl \<Rightarrow> dbl \<Rightarrow> u32 \<Rightarrow> touch_op list" where
  "tap now sc x y t = [TouchEvent now sc x y t True, TouchEvent now sc x y t False]"

lemma touch_run_append: "fst (touch_run e (xs @ ys) w) = fst (touch_run e ys (fst (touch_run e xs w)))"
  by (induction xs arbitrary: w) (simp_all add: touch_run_Cons)

lemma filled_tap:
  assumes f: "filled ids w" and s: "screen_ok e sc x y" and t: "t \<notin> set ids" "t \<noteq> 0"
    and l: "length ids < 10" and d: "distinct ids" "0 \<notin> set ids"
  shows "filled (ids @ [t]) (fst (touch_run e (tap now sc x y t) w))"
proof -
  let ?w1 = "fst (performTouchEvent e now sc x y t True False w)"
  let ?w2 = "fst (performTouchEvent e now sc x y t False False ?w1)"
  have one: "filled (ids @ [t]) ?w1"
    by (rule filled_event [OF f s t(2) filled_new(1) [OF f t l]]) (use l in simp)
  have n: "find_slot ((ids @ [t]) ! length ids) ?w1 = (?w1, Some (length ids))"
    by (rule filled_known [OF one]) (use d t in auto)
  then have "find_slot t ?w1 = (?w1, Some (length ids))" by simp
  then have "filled (ids @ [t]) ?w2"
    by (rule filled_event [OF one s t(2)]) simp
  then show ?thesis by (simp add: tap_def touch_run_Cons)
qed

lemma filled_taps:
  assumes "filled ids w" "screen_ok e sc x y" "distinct (ids @ ts)" "0 \<notin> set (ids @ ts)" "length (ids @ ts) \<le> 10"
  shows "filled (ids @ ts) (fst (touch_run e (concat (map (tap now sc x y) ts)) w))"
  using assms
proof (induction ts arbitrary: ids w)
  case Nil
  then show ?case by simp
next
  case (Cons t ts)
  have "filled (ids @ [t]) (fst (touch_run e (tap now sc x y t) w))"
    using Cons.prems by (intro filled_tap) auto
  from Cons.IH [OF this] Cons.prems show ?case by (simp add: touch_run_append)
qed

text \<open>Full slots stay full, whatever happens.\<close>

lemma full_stays:
  assumes f: "filled ids w" and l: "length ids = 10" and i: "op_id op \<noteq> 0" and d: "distinct ids" "0 \<notin> set ids"
  shows "filled ids (fst (touch_step e op w))"
proof -
  have s: "slots_ok (fst (touch_step e op w))" using touch_step_ok(1) [OF _ i] f by (simp add: filled_def)
  show ?thesis
  proof (cases op)
    case (TouchEvent now sc x y t dn)
    show ?thesis
    proof (cases "t \<in> set ids")
      case False
      then have "find_slot t w = (w, None)" using filled_new(2) [OF f _ _ l] i TouchEvent by simp
      then show ?thesis using f touch_event_none by (simp add: TouchEvent)
    next
      case True
      then obtain k where k: "k < length ids" "ids ! k = t" by (auto simp: in_set_conv_nth)
      have fs: "find_slot t w = (w, Some k)" using filled_known [OF f k(1) d] k(2) by simp
      have kl: "k < length (g_touchInfo w)" using k l filled_base [OF f] by simp
      note ev = touch_event_some [OF fs kl, where e = e and now = now and sc = sc and x = x and y = y and d = dn and r = False]
      obtain p where p: "g_touchInfo (fst (performTouchEvent e now sc x y t dn False w)) = (g_touchInfo w)[k := p]"
          "slot_id p = slot_id (g_touchInfo w ! k)"
          "slot_flags p = (if screen_ok e sc x y then event_flags dn else slot_flags (g_touchInfo w ! k))"
        using ev(2) by auto
      have "slot_id p = ids ! k" using f p(2) k by (simp add: filled_def)
      moreover have "slot_flags p \<noteq> POINTER_FLAG_NONE"
        using f p(3) k event_flags_set [of dn] by (simp add: filled_def)
      ultimately show ?thesis
        using filled_write [OF f k(1) p(1) ev(1)] s by (simp add: TouchEvent)
    qed
  next
    case (TouchMove now sc x y t)
    note mv = touch_move_cases [where e = e and now = now and sc = sc and x = x and y = y and i = t and w = w]
    from mv(2) show ?thesis
    proof (elim disjE exE conjE)
      assume "g_touchInfo (fst (performTouchMove e now sc x y t w)) = g_touchInfo w"
      then show ?thesis using f mv(1) s by (simp add: TouchMove filled_def)
    next
      fix k p
      assume k: "find_index (\<lambda>p. slot_id p = t) (g_touchInfo w) = Some k"
        and u: "g_touchInfo (fst (performTouchMove e now sc x y t w)) = (g_touchInfo w)[k := p]"
          "slot_id p = slot_id (g_touchInfo w ! k)" "slot_flags p \<noteq> POINTER_FLAG_NONE"
      have kl: "k < length ids" using find_index_Some [OF k] filled_base [OF f] l by simp
      have "slot_id p = ids ! k" using f u(2) kl by (simp add: filled_def)
      then show ?thesis using filled_write [OF f kl u(1) mv(1) _ u(3)] s by (simp add: TouchMove)
    qed
  qed
qed

lemma full_stays_run:
  assumes "length ids = 10" "distinct ids" "0 \<notin> set ids"
  shows "filled ids w \<Longrightarrow> \<forall>op \<in> set ops. op_id op \<noteq> 0 \<Longrightarrow> filled ids (fst (touch_run e ops w))"
  using full_stays [OF _ assms(1) _ assms(2,3)]
  by (induction ops arbitrary: w) (simp_all add: touch_run_Cons)

text \<open>The id zero: it matches the untouched first slot, and no slot is ever counted.\<close>

definition zero_only :: "win \<Rightarrow> bool" where
  "zero_only w \<longleftrightarrow> g_activeTouchSlots w = 0 \<and> (\<exists>p ps. g_touchInfo w = p # ps \<and> slot_id p = 0)"

lemma zero_event:
  assumes "zero_only w"
  shows "zero_only (fst (performTouchEvent e now sc x y 0 d False w)) \<and>
    set (snd (performTouchEvent e now sc x y 0 d False w)) \<subseteq> {TouchFrame []}"
proof -
  obtain p ps where p: "g_touchInfo w = p # ps" "slot_id p = 0" "g_activeTouchSlots w = 0"
    using assms by (auto simp: zero_only_def)
  then have f: "find_slot 0 w = (w, Some 0)" by (simp add: find_slot_def)
  have k: "0 < length (g_touchInfo w)" using p by simp
  note ev = touch_event_some [OF f k, where e = e and now = now and sc = sc and x = x and y = y and d = d and r = False]
  show ?thesis using ev p by (auto simp: zero_only_def touch_frame_def split: if_splits)
qed

lemma zero_move:
  assumes "zero_only w"
  shows "zero_only (fst (performTouchMove e now sc x y 0 w)) \<and>
    set (snd (performTouchMove e now sc x y 0 w)) \<subseteq> {TouchFrame []}"
proof -
  note mv = touch_move_cases [where e = e and now = now and sc = sc and x = x and y = y and i = 0 and w = w]
  from mv assms show ?thesis by (auto simp: zero_only_def touch_frame_def)
qed

lemma zero_run:
  "zero_only w \<Longrightarrow> \<forall>op \<in> set ops. op_id op = 0 \<Longrightarrow>
     zero_only (fst (touch_run e ops w)) \<and> set (snd (touch_run e ops w)) \<subseteq> {TouchFrame []}"
proof (induction ops arbitrary: w)
  case Nil
  then show ?case by simp
next
  case (Cons op ops)
  have "zero_only (fst (touch_step e op w)) \<and> set (snd (touch_step e op w)) \<subseteq> {TouchFrame []}"
    using Cons.prems zero_event zero_move by (cases op) simp_all
  with Cons.IH [of "fst (touch_step e op w)"] Cons.prems show ?case by (simp add: touch_run_Cons)
qed

section \<open>Lemmas on the pen\<close>

text \<open>Between two handlers the pen is away, hovering or in contact; the edges are never kept.\<close>

definition pen_ok :: "win \<Rightarrow> bool" where
  "pen_ok w \<longleftrightarrow> pen_flags_of w \<in> {POINTER_FLAG_NONE, POINTER_FLAG_INRANGE,
     POINTER_FLAG_INRANGE OR POINTER_FLAG_INCONTACT}"

lemma pen_flags_map [simp]:
  "(\<And>p. pointerFlags (pi_pointerInfo (f p)) = pointerFlags (pi_pointerInfo p)) \<Longrightarrow>
     pen_flags_of (map_pen f w) = pen_flags_of w"
  by (simp add: pen_flags_of_def map_pen_def)

lemma pen_flags_set [simp]: "pen_flags_of (set_pen_flags flags w) = flags"
  by (simp add: set_pen_flags_def pen_flags_of_def map_pen_def)

lemma pen_flags_at [simp]: "pen_flags_of (pen_at pt w) = pen_flags_of w"
  unfolding pen_at_def by (rule pen_flags_map) simp

lemma pen_flags_begin [simp]: "pen_flags_of (pen_begin w) = pen_flags_of w"
  by (simp add: pen_begin_def pen_flags_of_def map_pen_def)

lemma pen_flags_times [simp]:
  "pen_flags_of (w\<lparr>g_last_pen_input_time := t\<rparr>) = pen_flags_of w"
  "pen_flags_of (w\<lparr>g_last_pen_refresh_time := t\<rparr>) = pen_flags_of w"
  by (simp_all add: pen_flags_of_def)

lemma pen_flags_clear [simp]:
  "pen_flags_of (clearPenEdgeTriggeredFlags w) = pen_flags_of w AND NOT EDGE_TRIGGERED_POINTER_FLAGS"
  by (simp add: clearPenEdgeTriggeredFlags_def)

lemma pen_flags_record [simp]: "pen_flags_of (recordPenInputAfterSend now w) = pen_flags_of w"
  by (simp add: recordPenInputAfterSend_def)

lemma pen_flags_send [simp]:
  "pen_flags_of (fst (pen_send now w)) = pen_flags_of w AND NOT EDGE_TRIGGERED_POINTER_FLAGS"
  by (simp add: pen_send_def)

lemma pen_state_flags: "pen_state e c b pr r t w = Some w' \<Longrightarrow> pen_flags_of w' = pen_flags_of w"
  by (auto simp: pen_state_def split: option.splits prod.splits)

lemmas all_flags = pointer_flags EDGE_TRIGGERED_POINTER_FLAGS_def

abbreviation hover_flags :: u32 where "hover_flags \<equiv> POINTER_FLAG_INRANGE"
abbreviation contact_flags :: u32 where "contact_flags \<equiv> POINTER_FLAG_INRANGE OR POINTER_FLAG_INCONTACT"

lemma edge_masks:
  "(POINTER_FLAG_INRANGE OR POINTER_FLAG_INCONTACT OR POINTER_FLAG_DOWN) AND NOT EDGE_TRIGGERED_POINTER_FLAGS = contact_flags"
  "(POINTER_FLAG_INRANGE OR POINTER_FLAG_INCONTACT OR POINTER_FLAG_UPDATE) AND NOT EDGE_TRIGGERED_POINTER_FLAGS = contact_flags"
  "(POINTER_FLAG_INRANGE OR POINTER_FLAG_UPDATE) AND NOT EDGE_TRIGGERED_POINTER_FLAGS = hover_flags"
  "POINTER_FLAG_UP AND NOT EDGE_TRIGGERED_POINTER_FLAGS = POINTER_FLAG_NONE"
  "POINTER_FLAG_UPDATE AND NOT EDGE_TRIGGERED_POINTER_FLAGS = POINTER_FLAG_NONE"
  by (simp_all add: all_flags)

lemma range_masks:
  "POINTER_FLAG_NONE AND NOT contact_flags = POINTER_FLAG_NONE"
  "hover_flags AND NOT contact_flags = POINTER_FLAG_NONE"
  "contact_flags AND NOT contact_flags = POINTER_FLAG_NONE"
  "POINTER_FLAG_INCONTACT OR POINTER_FLAG_INRANGE = contact_flags"
  "POINTER_FLAG_NONE OR f = f"
  by (simp_all add: pointer_flags)

lemma pen_kinds:
  "hover_flags \<noteq> POINTER_FLAG_NONE" "contact_flags \<noteq> POINTER_FLAG_NONE"
  "hover_flags AND POINTER_FLAG_INRANGE \<noteq> 0" "hover_flags AND POINTER_FLAG_INCONTACT = 0"
  "contact_flags AND POINTER_FLAG_INCONTACT \<noteq> 0" "hover_flags \<noteq> 0" "POINTER_FLAG_INCONTACT \<noteq> 0"
  by (simp_all add: pointer_flags)

lemma pen_event_flags:
  assumes "performPenEvent e now sc x y d b pr r t w = Some (w', sent)" "pen_ok w"
  shows "pen_flags_of w' = (if screen_ok e sc x y then if d then contact_flags else POINTER_FLAG_NONE else pen_flags_of w)"
    and "sent = (if screen_ok e sc x y then sent else [])"
proof -
  obtain ok pt where a: "adjust_to_virtual_desktop_pixels (screen_metrics e) (monitors e) sc x y = (ok, pt)"
    by (cases "adjust_to_virtual_desktop_pixels (screen_metrics e) (monitors e) sc x y")
  have g: "pen_flags_of w AND NOT (POINTER_FLAG_INCONTACT OR POINTER_FLAG_INRANGE) = POINTER_FLAG_NONE"
    using assms(2) by (auto simp: pen_ok_def pointer_flags)
  have snd: "pen_send now v = (w', s) \<Longrightarrow> pen_flags_of w' = pen_flags_of v AND NOT EDGE_TRIGGERED_POINTER_FLAGS" for v s
    using pen_flags_send [of now v] by simp
  show "pen_flags_of w' = (if screen_ok e sc x y then if d then contact_flags else POINTER_FLAG_NONE else pen_flags_of w)"
    using assms(1) g
    by (auto simp: performPenEvent_def a screen_ok_def Let_def edge_masks range_masks(5) dest!: pen_state_flags snd
        split: if_splits option.splits)
  show "sent = (if screen_ok e sc x y then sent else [])"
    using assms(1) by (auto simp: performPenEvent_def a screen_ok_def Let_def)
qed

lemma pen_move_flags:
  assumes "performPenMove e now sc x y b pr r t w = Some (w', sent)"
  shows "pen_flags_of w' = (if pen_flags_of w \<noteq> POINTER_FLAG_NONE \<and> screen_ok e sc x y then contact_flags
    else pen_flags_of w)"
proof -
  obtain ok pt where a: "adjust_to_virtual_desktop_pixels (screen_metrics e) (monitors e) sc x y = (ok, pt)"
    by (cases "adjust_to_virtual_desktop_pixels (screen_metrics e) (monitors e) sc x y")
  show ?thesis
  proof (cases "pen_flags_of w \<noteq> POINTER_FLAG_NONE \<and> ok")
    case False
    then show ?thesis using assms by (auto simp: performPenMove_def a screen_ok_def Let_def split: if_splits)
  next
    case True
    then obtain w2 where w2: "pen_state e True b pr r t (set_pen_flags
        (POINTER_FLAG_INRANGE OR POINTER_FLAG_INCONTACT OR POINTER_FLAG_UPDATE) (pen_at pt (pen_begin w))) = Some w2"
      "w' = fst (pen_send now w2)"
      using assms by (auto simp: performPenMove_def a Let_def)
    then show ?thesis using True pen_state_flags [OF w2(1)] by (simp add: a screen_ok_def edge_masks)
  qed
qed

lemma pen_hover_flags:
  "pen_flags_of (fst (performPenHover e now sc x y w)) = (if screen_ok e sc x y then hover_flags else pen_flags_of w)"
  by (simp add: performPenHover_def screen_ok_def Let_def edge_masks split: prod.split)

lemma clear_pen_flags: "pen_ok w \<Longrightarrow> pen_flags_of (fst (clearActivePenPointer w)) = POINTER_FLAG_NONE"
  by (auto simp: clearActivePenPointer_def hasActivePenPointer_def pen_ok_def Let_def all_flags)

lemma refresh_pen_flags:
  "pen_ok w \<Longrightarrow> pen_flags_of (fst (refresh_pen now w)) \<in> {pen_flags_of w, POINTER_FLAG_NONE}"
  using clear_pen_flags [of w] by (simp add: refresh_pen_def)

text \<open>The other handlers leave the pen alone.\<close>

lemma key_pen [simp]: "pen_flags_of (fst (performKeyEvent e now k d r w)) = pen_flags_of w"
  by (simp add: performKeyEvent_def pen_flags_of_def Let_def)

lemma touch_pen [simp]: "pen_flags_of (fst (performTouchEvent e now sc x y i d r w)) = pen_flags_of w"
  by (auto simp: performTouchEvent_def find_slot_def pen_flags_of_def Let_def split: option.split prod.split)

text \<open>Releasing a held key or touch while its loop stands on it: only the first one is lifted.\<close>

lemma release_keys_held:
  "g_auto_repeat_enabled w \<Longrightarrow> find (\<lambda>(k, st). ks_isDown st) ks = Some (k, st) \<Longrightarrow>
     release_keys e now ks w = Inl [Input (INPUT_KEYBOARD (key_input e k False))]"
proof (induction ks)
  case Nil
  then show ?case by simp
next
  case (Cons p ks)
  obtain c cs where p: "p = (c, cs)" by (cases p)
  show ?case
  proof (cases "ks_isDown cs")
    case False
    then show ?thesis using Cons p by simp
  next
    case True
    then have "c = k" using Cons.prems(2) p by simp
    then show ?thesis
      using performKeyEvent_states(1,2) [OF Cons.prems(1), where e = e and now = now and k = k and d = False]
      by (simp add: p case_prod_beta True)
  qed
qed

lemma release_keys_none:
  "find (\<lambda>(k, st). ks_isDown st) ks = None \<Longrightarrow> release_keys e now ks w = Inr (w, [])"
  by (induction ks) (auto split: if_splits)

lemma release_touches_none:
  "find (\<lambda>(i, st). ts_isDown st) ts = None \<Longrightarrow> release_touches e now ts w = Inr (w, [])"
  by (induction ts) (auto split: if_splits)

text \<open>Lifting a tracked touch that has a slot and is on a screen erases it.\<close>

lemma touch_lift_erases:
  assumes "g_auto_repeat_enabled w" "map_of (g_touch_states w) i \<noteq> None" "slots_ok w" "i \<noteq> 0"
    and "has_slot w (TouchEvent now sc x y i False)" "screen_ok e sc x y"
  shows "map_of (g_touch_states (fst (performTouchEvent e now sc x y i False False w))) i = None"
    and "\<exists>f. snd (performTouchEvent e now sc x y i False False w) = [f] \<and> good_frame e w (TouchEvent now sc x y i False) f"
proof -
  let ?op = "TouchEvent now sc x y i False"
  have "find_slot i w \<noteq> (w, None)"
  proof
    assume "find_slot i w = (w, None)"
    from find_slot_none(2) [OF this] assms(5) show False by (auto simp: has_slot_def)
  qed
  then obtain w1 k where f: "find_slot i w = (w1, Some k)"
    by (auto simp: find_slot_def split: option.splits)
  have w1: "g_auto_repeat_enabled w1" "g_touch_states w1 = g_touch_states w"
    using f assms(1) by (auto simp: find_slot_def split: option.splits)
  obtain pt where a: "adjust_to_virtual_desktop_pixels (screen_metrics e) (monitors e) sc x y = (True, pt)"
    using assms(6) by (cases "adjust_to_virtual_desktop_pixels (screen_metrics e) (monitors e) sc x y") (simp add: screen_ok_def)
  show "map_of (g_touch_states (fst (performTouchEvent e now sc x y i False False w))) i = None"
    using w1 assms(2) by (simp add: performTouchEvent_def f a Let_def delete_conv')
  have o: "op_point e ?op \<noteq> None" using assms(6) by (simp only: op_point_ok) simp
  have "touch_step e ?op w = performTouchEvent e now sc x y i False False w" by simp
  moreover note s = touch_step_ok [OF assms(3), of ?op e]
  ultimately show "\<exists>f. snd (performTouchEvent e now sc x y i False False w) = [f] \<and> good_frame e w ?op f"
    using frame_of_write [of "fst (touch_step e ?op w)" e ?op w] assms(4,5) o by auto
qed

lemma release_touches_held:
  assumes "g_auto_repeat_enabled w" "slots_ok w" and t: "find (\<lambda>(i, st). ts_isDown st) ts = Some (i, st)"
    and "map_of (g_touch_states w) i \<noteq> None" "i \<noteq> 0"
    and "has_slot w (TouchEvent now (ts_screenId st) (ts_x st) (ts_y st) i False)"
    and "screen_ok e (ts_screenId st) (ts_x st) (ts_y st)"
  shows "\<exists>f. release_touches e now ts w = Inl [f] \<and>
    good_frame e w (TouchEvent now (ts_screenId st) (ts_x st) (ts_y st) i False) f"
  using t
proof (induction ts)
  case Nil
  then show ?case by simp
next
  case (Cons p ts)
  obtain c cs where p: "p = (c, cs)" by (cases p)
  show ?case
  proof (cases "ts_isDown cs")
    case False
    then show ?thesis using Cons p by simp
  next
    case True
    then have "c = i" "cs = st" using Cons.prems p by simp_all
    then show ?thesis
      using touch_lift_erases [OF assms(1,4,2,5,6,7)] True by (auto simp: p case_prod_beta)
  qed
qed

lemma released_buttons:
  "release_buttons e =
     (if async_key e 1 then [Input (INPUT_MOUSE (zero_mouse\<lparr>mi_dwFlags := 0x4\<rparr>))] else []) @
     (if async_key e 2 then [Input (INPUT_MOUSE (zero_mouse\<lparr>mi_dwFlags := 0x10\<rparr>))] else []) @
     (if async_key e 4 then [Input (INPUT_MOUSE (zero_mouse\<lparr>mi_dwFlags := 0x40\<rparr>))] else []) @
     (if async_key e 5 then [Input (INPUT_MOUSE (zero_mouse\<lparr>mi_dwFlags := 0x100, mi_mouseData := 1\<rparr>))] else []) @
     (if async_key e 6 then [Input (INPUT_MOUSE (zero_mouse\<lparr>mi_dwFlags := 0x100, mi_mouseData := 2\<rparr>))] else [])"
  by (simp add: release_buttons_def performMouseButton_def MOUSEEVENTF_LEFTUP_def MOUSEEVENTF_RIGHTUP_def
      MOUSEEVENTF_MIDDLEUP_def MOUSEEVENTF_XUP_def)

lemma clear_pen_sent:
  assumes "pen_ok w"
  shows "if hasActivePenPointer w then \<exists>p. snd (clearActivePenPointer w) = [PenFrame p] \<and>
      pointerFlags (pi_pointerInfo (penInfo p)) = (if pen_flags_of w = contact_flags then 0x40000 else 0x20000)
    else snd (clearActivePenPointer w) = []"
proof -
  have p: "pointerFlags (pi_pointerInfo (penInfo (g_penInfo (set_pen_flags fl w)))) = fl" for fl
    by (simp add: set_pen_flags_def map_pen_def)
  show ?thesis using assms
    by (auto simp: clearActivePenPointer_def pen_ok_def hasActivePenPointer_def Let_def p pointer_flags)
qed

section \<open>Properties of keys\<close>

text \<open>C29: the keyboard state the repeat thread works on is exact. After any sequence of key events a
  key is recorded as held, with the time of its last press, exactly when its last event was a
  press; every event is sent once, in order; and the thread presses again only the key pressed
  last, only while it is held, and only after half a second.\<close>

theorem key_tracking:
  "map_of (g_key_states (fst (key_run e evs init_win))) = (\<lambda>k. held k evs) \<and>
   g_last_known_key_down (fst (key_run e evs init_win)) =
     (case filter (\<lambda>(t, k, d). d) (rev evs) of [] \<Rightarrow> 0 | (t, k, d) # _ \<Rightarrow> k) \<and>
   snd (key_run e evs init_win) = map (\<lambda>(t, k, d). Input (INPUT_KEYBOARD (key_input e k d))) evs \<and>
   repeat_key e now (fst (key_run e evs init_win)) = (fst (key_run e evs init_win),
     case filter (\<lambda>(t, k, d). d) (rev evs) of
       [] \<Rightarrow> []
     | (t, k, d) # _ \<Rightarrow>
         if held k evs \<noteq> None \<and> 500 \<le> elapsed_ms now t then [Input (INPUT_KEYBOARD (key_input e k True))] else [])"
proof -
  let ?w = "fst (key_run e evs init_win)"
  note t = key_run_tracks [of e evs] and l = key_run_last [of e evs]
  have "repeat_key e now ?w = (?w, case held (g_last_known_key_down ?w) evs of
      Some st \<Rightarrow> if 500 \<le> elapsed_ms now (ks_lastEventTime st)
                 then [Input (INPUT_KEYBOARD (key_input e (g_last_known_key_down ?w) True))] else []
    | None \<Rightarrow> [])"
    using t held_down by (auto simp: repeat_key_def Let_def performKeyEvent_def split: option.splits)
  also have "\<dots> = (?w, case filter (\<lambda>(t, k, d). d) (rev evs) of
       [] \<Rightarrow> []
     | (t, k, d) # _ \<Rightarrow>
         if held k evs \<noteq> None \<and> 500 \<le> elapsed_ms now t then [Input (INPUT_KEYBOARD (key_input e k True))] else [])"
    using held_time [of evs] held_none [of evs] unfolding l by (auto split: list.splits option.splits)
  finally show ?thesis using t l by simp
qed

section \<open>Properties of touch\<close>

text \<open>C18: with identifiers other than zero every touch event and move that finds a slot and lies on
  a screen sends exactly one frame, and the others send none. The frame is one the service accepts,
  one to ten contacts, all of them touches; it holds the contact of the very touch the operation is
  about, at the operation's point and with the flags of a press, a lift or a move, and beside it
  every other contact in use just as it was.\<close>

theorem touch_frames_valid:
  assumes "\<forall>op \<in> set ops. op_id op \<noteq> 0"
  shows "map (\<lambda>(w, op, sent). op) (touch_trace e ops init_win) = ops \<and>
    snd (touch_run e ops init_win) = concat (map (\<lambda>(w, op, sent). sent) (touch_trace e ops init_win)) \<and>
    (\<forall>(w, op, sent) \<in> set (touch_trace e ops init_win).
       if has_slot w op \<and> op_point e op \<noteq> None then \<exists>f. sent = [f] \<and> good_frame e w op f else sent = [])"
proof (intro conjI)
  show "map (\<lambda>(w, op, sent). op) (touch_trace e ops init_win) = ops" by (rule touch_trace_ops)
  show "snd (touch_run e ops init_win) = concat (map (\<lambda>(w, op, sent). sent) (touch_trace e ops init_win))"
    by (rule touch_trace_run)
  show "\<forall>(w, op, sent) \<in> set (touch_trace e ops init_win).
       if has_slot w op \<and> op_point e op \<noteq> None then \<exists>f. sent = [f] \<and> good_frame e w op f else sent = []"
    using touch_trace_ok [OF slots_ok_init assms] by blast
qed

definition demo_env :: win_env where
  "demo_env = \<lparr>MapVirtualKey = (\<lambda>k. k), MulDiv = (\<lambda>a b c. (2 * a * b + c) div (2 * c)),
     screen_metrics = \<lparr>SM_XVIRTUALSCREEN = 0, SM_YVIRTUALSCREEN = 0, SM_CXVIRTUALSCREEN = 100, SM_CYVIRTUALSCREEN = 50\<rparr>,
     monitors = [\<lparr>mi_rect = \<lparr>r_left = 0, r_top = 0, r_right = 100, r_bottom = 50\<rparr>, mi_is_primary = True, mi_screen_id = 0\<rparr>],
     polar_tilt = (\<lambda>_ _. (0, 0)), async_key = (\<lambda>_. False)\<rparr>"

lemma demo_screen: "screen_ok demo_env 0 (Fin x) (Fin y)"
proof -
  let ?r = "\<lparr>r_left = 0, r_top = 0, r_right = 100, r_bottom = 50\<rparr>"
  have "NormalizedPointOnMonitor ?r (Fin x) (Fin y) \<noteq> None" by (rule NormalizedPoint_defined) (simp_all add: rect_fits_def)
  then show ?thesis
    by (auto simp: screen_ok_def demo_env_def adjust_to_virtual_desktop_pixels_def adjust_to_screen_def
        MonitorRectForScreenId_def)
qed

theorem touch_frames_valid_witness:
  "list_all (\<lambda>(w, op, sent). if has_slot w op \<and> op_point demo_env op \<noteq> None
      then \<exists>f. sent = [f] \<and> good_frame demo_env w op f else sent = [])
    (touch_trace demo_env (tap 0 0 (Fin 0) (Fin 0) 7 @ tap 0 0 (Fin 1) (Fin 0) 8) init_win)"
  unfolding list_all_iff
  by (rule touch_frames_valid [THEN conjunct2, THEN conjunct2]) (simp add: tap_def)

text \<open>C30: a touch slot is never given back. Once ten different fingers have each been put down and
  lifted, a touch with an eleventh identifier is dropped without being sent, and it stays so after
  any further touch input.\<close>

theorem touch_slots_never_freed:
  assumes "screen_ok e sc x y" "distinct (t # ids)" "0 \<notin> set (t # ids)" "length ids = 10"
    and "\<forall>op \<in> set ops. op_id op \<noteq> 0"
  shows "let w = fst (touch_run e (concat (map (tap now sc x y) ids) @ ops) init_win)
    in performTouchEvent e now' sc' x' y' t d r w = (w, [])"
proof -
  have "filled [] init_win" using slots_ok_init by (simp add: filled_def init_win_def)
  from filled_taps [OF this assms(1), of ids] assms
  have "filled ids (fst (touch_run e (concat (map (tap now sc x y) ids)) init_win))" by simp
  from full_stays_run [OF _ _ _ this assms(5)] assms
  have "filled ids (fst (touch_run e (concat (map (tap now sc x y) ids) @ ops) init_win))"
    by (simp add: touch_run_append)
  from filled_new(2) [OF this, of t] assms show ?thesis
    by (simp add: touch_event_none Let_def)
qed

theorem touch_slots_never_freed_witness:
  "let w = fst (touch_run demo_env (concat (map (tap 0 0 (Fin 0) (Fin 0)) [1,2,3,4,5,6,7,8,9,10]) @ []) init_win)
    in performTouchEvent demo_env 0 0 (Fin 0) (Fin 0) 11 True False w = (w, [])"
  by (rule touch_slots_never_freed [OF demo_screen]) simp_all

text \<open>The touch identifier zero is never injected: it matches the untouched first slot, which is
  not counted, so that every frame sent for it is empty, and empty frames are refused.\<close>

theorem touch_id_zero_lost:
  assumes "\<forall>op \<in> set ops. op_id op = 0"
  shows "set (snd (touch_run e ops init_win)) \<subseteq> {TouchFrame []} \<and> SendTouchInput [] s = (s, False)"
proof -
  have "zero_only init_win"
    by (simp add: zero_only_def init_win_def slot_id_def zero_pointer_def zero_touch_info_def
        zero_pointer_info_def numeral_eq_Suc)
  from zero_run [OF this assms, of e] show ?thesis by (simp add: SendTouchInput_def)
qed

theorem touch_id_zero_lost_witness:
  "set (snd (touch_run demo_env (tap 0 0 (Fin 0) (Fin 0) 0) init_win)) \<subseteq> {TouchFrame []}"
  using touch_id_zero_lost [of "tap 0 0 (Fin 0) (Fin 0) 0" demo_env init_svc] by (simp add: tap_def)

section \<open>Properties of the pen\<close>

text \<open>C17: the pen is a three-state machine. Between handlers it is away, hovering or in contact; a
  press or a move puts it in contact (a move only if it was not away), a lift takes it away, a
  hover brings it in range, and a position off every screen changes nothing; the edge flags that
  were sent are never kept for the refresh thread.\<close>

theorem pen_state_machine:
  assumes "pen_ok w"
  shows "(performPenEvent e now sc x y d b pr r t w = Some (w1, s1) \<longrightarrow> pen_ok w1 \<and>
           pen_flags_of w1 = (if screen_ok e sc x y then if d then contact_flags else POINTER_FLAG_NONE else pen_flags_of w)) \<and>
    (performPenMove e now sc x y b pr r t w = Some (w2, s2) \<longrightarrow> pen_ok w2 \<and>
           pen_flags_of w2 = (if pen_flags_of w \<noteq> POINTER_FLAG_NONE \<and> screen_ok e sc x y then contact_flags
              else pen_flags_of w)) \<and>
    pen_flags_of (fst (performPenHover e now sc x y w)) = (if screen_ok e sc x y then hover_flags else pen_flags_of w) \<and>
    pen_ok (fst (performPenHover e now sc x y w)) \<and>
    pen_ok (fst (refresh_pen now w)) \<and> \<not> hasActivePenPointer (fst (clearActivePenPointer w))"
proof (intro conjI impI)
  assume "performPenEvent e now sc x y d b pr r t w = Some (w1, s1)"
  note f = pen_event_flags(1) [OF this assms]
  show "pen_flags_of w1 = (if screen_ok e sc x y then if d then contact_flags else POINTER_FLAG_NONE else pen_flags_of w)"
    by (rule f)
  then show "pen_ok w1" using assms by (simp add: pen_ok_def)
next
  assume "performPenMove e now sc x y b pr r t w = Some (w2, s2)"
  note f = pen_move_flags [OF this]
  show "pen_flags_of w2 = (if pen_flags_of w \<noteq> POINTER_FLAG_NONE \<and> screen_ok e sc x y then contact_flags else pen_flags_of w)"
    by (rule f)
  then show "pen_ok w2" using assms by (simp add: pen_ok_def)
next
  show "pen_flags_of (fst (performPenHover e now sc x y w)) = (if screen_ok e sc x y then hover_flags else pen_flags_of w)"
    by (rule pen_hover_flags)
  then show "pen_ok (fst (performPenHover e now sc x y w))" using assms by (simp add: pen_ok_def)
next
  show "pen_ok (fst (refresh_pen now w))" using refresh_pen_flags [OF assms, of now] assms by (auto simp: pen_ok_def)
  show "\<not> hasActivePenPointer (fst (clearActivePenPointer w))"
    by (simp add: hasActivePenPointer_def clear_pen_flags [OF assms])
qed

lemma pen_ok_init: "pen_ok init_win"
  by (simp add: pen_ok_def init_win_def pen_flags_of_def zero_pointer_def zero_pen_info_def
      zero_pointer_info_def POINTER_FLAG_NONE_def)

theorem pen_state_machine_witness:
  "pen_flags_of (fst (performPenHover demo_env 0 0 (Fin 0) (Fin 0) init_win)) = hover_flags"
  using pen_state_machine [OF pen_ok_init, where e = demo_env and sc = 0 and x = "Fin 0" and y = "Fin 0" and now = 0]
    demo_screen by simp

text \<open>A hover that the real pen left behind dies. A hovering pen without input for a quarter of a
  second is sent out of range once and never refreshed again, while a pen in contact is refreshed
  at most every fifty milliseconds and never lifted by the thread.\<close>

theorem pen_hover_expires:
  assumes "pen_ok w"
  shows "(pen_flags_of w = hover_flags \<and> PEN_HOVER_IDLE_TIMEOUT \<le> now - g_last_pen_input_time w \<longrightarrow>
      (\<exists>w' p. refresh_pen now w = (w', [PenFrame p]) \<and>
         pointerFlags (pi_pointerInfo (penInfo p)) = POINTER_FLAG_UPDATE \<and>
         \<not> hasActivePenPointer w' \<and> (\<forall>later. refresh_pen later w' = (w', [])))) \<and>
    (pen_flags_of w = contact_flags \<longrightarrow>
      pen_flags_of (fst (refresh_pen now w)) = contact_flags \<and>
      snd (refresh_pen now w) = (if PEN_REPEAT_INTERVAL \<le> now - g_last_pen_refresh_time w
                                 then [PenFrame (g_penInfo w)] else []))"
proof (intro conjI impI)
  assume a: "pen_flags_of w = hover_flags \<and> PEN_HOVER_IDLE_TIMEOUT \<le> now - g_last_pen_input_time w"
  then have r: "refresh_pen now w = clearActivePenPointer w"
    by (simp add: refresh_pen_def hasActivePenPointer_def hasHoverOnlyPenPointer_def pen_kinds)
  let ?w' = "fst (clearActivePenPointer w)"
  let ?p = "g_penInfo (set_pen_flags POINTER_FLAG_UPDATE w)"
  have "snd (clearActivePenPointer w) = [PenFrame ?p]"
    using a by (simp add: clearActivePenPointer_def hasActivePenPointer_def Let_def pointer_flags)
  then have "clearActivePenPointer w = (?w', [PenFrame ?p])" by (simp add: prod_eq_iff)
  moreover have "pointerFlags (pi_pointerInfo (penInfo ?p)) = POINTER_FLAG_UPDATE"
    by (simp add: set_pen_flags_def map_pen_def)
  moreover have n: "\<not> hasActivePenPointer ?w'" by (simp add: hasActivePenPointer_def clear_pen_flags [OF assms])
  moreover have "refresh_pen later ?w' = (?w', [])" for later using n by (simp add: refresh_pen_def)
  ultimately show "\<exists>w' p. refresh_pen now w = (w', [PenFrame p]) \<and>
         pointerFlags (pi_pointerInfo (penInfo p)) = POINTER_FLAG_UPDATE \<and>
         \<not> hasActivePenPointer w' \<and> (\<forall>later. refresh_pen later w' = (w', []))"
    unfolding r by blast
next
  assume a: "pen_flags_of w = contact_flags"
  have h: "hasActivePenPointer w" "\<not> hasHoverOnlyPenPointer w"
    using a by (simp_all add: hasActivePenPointer_def hasHoverOnlyPenPointer_def pen_kinds)
  then show "pen_flags_of (fst (refresh_pen now w)) = contact_flags" using a by (simp add: refresh_pen_def)
  show "snd (refresh_pen now w) = (if PEN_REPEAT_INTERVAL \<le> now - g_last_pen_refresh_time w
                                 then [PenFrame (g_penInfo w)] else [])"
    using h by (simp add: refresh_pen_def)
qed

theorem pen_hover_expires_witness:
  "pen_flags_of (fst (refresh_pen 7 (set_pen_flags contact_flags init_win))) = contact_flags"
proof -
  have "pen_ok (set_pen_flags contact_flags init_win)" by (simp add: pen_ok_def)
  from pen_hover_expires [OF this, of 7] show ?thesis by simp
qed

section \<open>Releasing everything, as written\<close>



end
