(* ===== verification/Gamepad.thy ===== *)
theory Gamepad
  imports Prelude
begin

text \<open>
  Virtual gamepads (\<open>windows/gamecontroller_manager.cc\<close>) and the registry through which motor
  feedback finds its subscription (\<open>windows/rumble_callback_registry.h\<close>). The ViGEm SDK is a
  parameter: the answers its calls give are a record passed to each operation, and the calls made
  are returned in order. A handle is \<open>None\<close> for a null pointer. The action string is read with the
  formatted input of \<open>std::istringstream\<close>, whose failures leave a field unset: the contents of the
  uninitialised \<open>_XINPUT_GAMEPAD\<close> are a parameter too.
\<close>

section \<open>The callback registry\<close>

record RumbleCallbackData =
  rd_window :: nat
  rd_message :: u32
  rd_token :: int
  rd_controller_id :: int

record RumbleCallbackRegistry =
  reg_next :: u64
  reg_entries :: "(u64 \<times> RumbleCallbackData) list"

text \<open>\<open>std::map::emplace\<close> keeps an entry that is already there.\<close>

definition Register :: "RumbleCallbackData \<Rightarrow> RumbleCallbackRegistry \<Rightarrow> u64 \<times> RumbleCallbackRegistry" where
  "Register d r =
     (if reg_next r = - 1 then (0, r)
      else let cookie = reg_next r + 1;
               es = (case map_of (reg_entries r) cookie of None \<Rightarrow> oput cookie d (reg_entries r)
                     | Some _ \<Rightarrow> reg_entries r)
           in (cookie, r\<lparr>reg_next := cookie, reg_entries := es\<rparr>))"

definition Lookup :: "RumbleCallbackRegistry \<Rightarrow> u64 \<Rightarrow> RumbleCallbackData option" where
  "Lookup r cookie = map_of (reg_entries r) cookie"

definition Remove :: "u64 \<Rightarrow> RumbleCallbackRegistry \<Rightarrow> RumbleCallbackRegistry" where
  "Remove cookie r = r\<lparr>reg_entries := odel cookie (reg_entries r)\<rparr>"

definition registry_ok :: "RumbleCallbackRegistry \<Rightarrow> bool" where
  "registry_ok r \<longleftrightarrow> okeys (reg_entries r)
     \<and> (\<forall>c \<in> fst ` set (reg_entries r). 0 < c \<and> c \<le> reg_next r)"

definition issued :: "RumbleCallbackRegistry \<Rightarrow> u64 \<Rightarrow> bool" where
  "issued r c \<longleftrightarrow> c \<le> reg_next r"

lemma succ_nonzero: "(n :: u64) \<noteq> - 1 \<Longrightarrow> n + 1 \<noteq> 0"
  using add_right_cancel [of n 1 "- 1"] by simp

lemma next_word_gt: "(n :: u64) \<noteq> - 1 \<Longrightarrow> n < n + 1"
  using succ_nonzero [of n] unatSuc [of n] by (simp add: word_less_nat_alt add.commute)

text \<open>
  What a subscriber relies on: a cookie is 0 exactly when none could be issued, an issued one is
  new, it resolves to what was registered until it is removed, and removal is final.
\<close>

locale callback_registry =
  fixes reg :: "'d \<Rightarrow> 's \<Rightarrow> 'c::zero \<times> 's"
    and look :: "'s \<Rightarrow> 'c \<Rightarrow> 'd option"
    and rem :: "'c \<Rightarrow> 's \<Rightarrow> 's"
    and iss :: "'s \<Rightarrow> 'c \<Rightarrow> bool"
    and ok :: "'s \<Rightarrow> bool"
  assumes reg_ok: "ok s \<Longrightarrow> reg d s = (c, s') \<Longrightarrow> ok s'"
    and rem_ok: "ok s \<Longrightarrow> ok (rem c s)"
    and reg_fails: "ok s \<Longrightarrow> reg d s = (0, s') \<Longrightarrow> s' = s"
    and reg_new: "ok s \<Longrightarrow> reg d s = (c, s') \<Longrightarrow> c \<noteq> 0 \<Longrightarrow>
      \<not> iss s c \<and> iss s' c \<and> look s' = (look s)(c \<mapsto> d)"
    and reg_mono: "ok s \<Longrightarrow> reg d s = (c, s') \<Longrightarrow> iss s c' \<Longrightarrow> iss s' c'"
    and rem_look: "ok s \<Longrightarrow> look (rem c s) = (look s)(c := None)"
    and rem_iss: "iss (rem c s) c' \<longleftrightarrow> iss s c'"
    and look_iss: "ok s \<Longrightarrow> look s c = Some d \<Longrightarrow> iss s c \<and> c \<noteq> 0"
begin

lemma zero_unresolved: "ok s \<Longrightarrow> look s 0 = None"
  using look_iss by (metis not_None_eq)

lemma reg_keeps:
  assumes "ok s" "reg d s = (c, s')" "iss s c'"
  shows "look s' c' = look s c'"
proof (cases "c = 0")
  case True
  with reg_fails assms show ?thesis by metis
next
  case False
  from reg_new [OF assms(1,2) False] assms(3) have "c' \<noteq> c" "look s' = (look s)(c \<mapsto> d)" by auto
  then show ?thesis by simp
qed

text \<open>An issued cookie keeps its meaning or loses it, under either operation.\<close>

lemma keep_reg: "ok s \<Longrightarrow> reg d s = (c, s') \<Longrightarrow> iss s k \<Longrightarrow>
    iss s' k \<and> (look s' k = None \<or> look s' k = look s k)"
  using reg_mono reg_keeps by metis

lemma keep_rem: "ok s \<Longrightarrow> iss s k \<Longrightarrow>
    iss (rem c s) k \<and> (look (rem c s) k = None \<or> look (rem c s) k = look s k)"
  by (simp add: rem_iss rem_look)

end

lemma Register_cases:
  assumes "Register d r = (c, r')"
  obtains "c = 0" "r' = r" "reg_next r = - 1"
  | "c = reg_next r + 1" "reg_next r \<noteq> - 1" "reg_next r' = c"
    "reg_entries r' = (case map_of (reg_entries r) c of None \<Rightarrow> oput c d (reg_entries r) | Some _ \<Rightarrow> reg_entries r)"
  using assms by (auto simp: Register_def Let_def split: if_splits)

lemma fresh_cookie:
  assumes "registry_ok r" "reg_next r \<noteq> - 1"
  shows "map_of (reg_entries r) (reg_next r + 1) = None"
  using assms next_word_gt [OF assms(2)] unfolding registry_ok_def
  by (metis (no_types, lifting) map_of_eq_None_iff not_le)

lemma Register_ok:
  assumes r: "registry_ok r" and reg: "Register d r = (c, r')"
  shows "registry_ok r'"
  using reg
proof (cases rule: Register_cases)
  case 1
  with r show ?thesis by simp
next
  case 2
  have n: "reg_entries r' = oput c d (reg_entries r)" using fresh_cookie [OF r 2(2)] 2 by simp
  have lt: "reg_next r < c" using next_word_gt [OF 2(2)] 2(1) by simp
  have pos: "0 < c" using succ_nonzero [OF 2(2)] 2(1) by (simp add: word_gt_0)
  have "0 < k \<and> k \<le> c" if "k \<in> fst ` set (reg_entries r')" for k
  proof (cases "k = c")
    case True
    with pos show ?thesis by simp
  next
    case False
    with that n have "k \<in> fst ` set (reg_entries r)" by (simp add: set_oput)
    with r have "0 < k" "k \<le> reg_next r" by (auto simp: registry_ok_def)
    with lt show ?thesis by (metis order.trans less_imp_le)
  qed
  moreover have "okeys (reg_entries r')" using r by (simp add: n okeys_oput registry_ok_def)
  ultimately show ?thesis by (simp add: registry_ok_def 2(3))
qed

lemma Register_new:
  assumes r: "registry_ok r" and reg: "Register d r = (c, r')" and "c \<noteq> 0"
  shows "\<not> issued r c \<and> issued r' c \<and> Lookup r' = (Lookup r)(c \<mapsto> d)"
  using reg
proof (cases rule: Register_cases)
  case 1
  with \<open>c \<noteq> 0\<close> show ?thesis by simp
next
  case 2
  have n: "reg_entries r' = oput c d (reg_entries r)" using fresh_cookie [OF r 2(2)] 2 by simp
  show ?thesis
    using next_word_gt [OF 2(2)] 2(1,3) r by (auto simp: issued_def Lookup_def n registry_ok_def fun_eq_iff)
qed

interpretation rumble: callback_registry Register Lookup Remove issued registry_ok
proof
  fix s d c s' assume "registry_ok s" "Register d s = (c, s')"
  then show "registry_ok s'" by (rule Register_ok)
next
  fix s :: RumbleCallbackRegistry and c assume "registry_ok s"
  then show "registry_ok (Remove c s)"
    by (auto simp: registry_ok_def Remove_def okeys_odel) (auto simp: odel_def)
next
  fix s d s' assume "Register d s = (0, s')"
  then show "s' = s" by (cases rule: Register_cases) (auto dest: succ_nonzero)
next
  fix s d s' and c :: u64 assume "registry_ok s" "Register d s = (c, s')" "c \<noteq> 0"
  then show "\<not> issued s c \<and> issued s' c \<and> Lookup s' = (Lookup s)(c \<mapsto> d)" by (rule Register_new)
next
  fix s d c s' c' assume "Register d s = (c, s')" "issued s c'"
  then show "issued s' c'"
    by (cases rule: Register_cases) (auto simp: issued_def dest: next_word_gt intro: order.trans less_imp_le)
next
  fix s :: RumbleCallbackRegistry and c show "Lookup (Remove c s) = (Lookup s)(c := None)"
    by (simp add: Lookup_def Remove_def fun_eq_iff)
next
  fix c s c' show "issued (Remove c s) c' = issued s c'" by (simp add: issued_def Remove_def)
next
  fix s c d assume "registry_ok s" "Lookup s c = Some d"
  then show "issued s c \<and> c \<noteq> 0"
    unfolding registry_ok_def Lookup_def issued_def by (metis (no_types, lifting) fst_conv image_eqI map_of_SomeD word_gt_0)
qed

section \<open>Controllers and rumble subscriptions\<close>

record RumbleContext =
  rc_window :: "nat option"
  rc_message :: u32
  rc_token :: int
  rc_id :: int
  rc_registered :: bool
  rc_cookie :: u64

definition no_context :: RumbleContext where
  "no_context = \<lparr>rc_window = None, rc_message = 0, rc_token = 0, rc_id = 0, rc_registered = False, rc_cookie = 0\<rparr>"

record Gamepads =
  vigem_client :: "nat option"
  initialized :: bool
  controllers :: "nat option list"
  rumble_contexts :: "RumbleContext list"
  RumbleCallbacks :: RumbleCallbackRegistry

definition init_gamepads :: Gamepads where
  "init_gamepads = \<lparr>vigem_client = None, initialized = False, controllers = replicate 4 None,
     rumble_contexts = replicate 4 no_context, RumbleCallbacks = \<lparr>reg_next = 0, reg_entries = []\<rparr>\<rparr>"

text \<open>What the SDK answers to the calls of one operation.\<close>

record vigem_answers =
  va_alloc :: "nat option"
  va_connect :: bool
  va_target_alloc :: "nat option"
  va_target_add :: bool
  va_register :: bool
  va_target_remove :: bool
  va_update :: bool

record XINPUT_GAMEPAD =
  wButtons :: u16
  bLeftTrigger :: u8
  bRightTrigger :: u8
  sThumbLX :: int
  sThumbLY :: int
  sThumbRX :: int
  sThumbRY :: int

datatype vigem_call =
    target_add "nat option"
  | register_notification "nat option" u64
  | unregister_notification "nat option"
  | target_remove "nat option"
  | target_free "nat option"
  | x360_update "nat option" XINPUT_GAMEPAD

definition UnregisterRumble :: "nat \<Rightarrow> Gamepads \<Rightarrow> Gamepads \<times> vigem_call list" where
  "UnregisterRumble i g =
     (let c = rumble_contexts g ! i in
      (g\<lparr>RumbleCallbacks := Remove (rc_cookie c) (RumbleCallbacks g),
         rumble_contexts := (rumble_contexts g)[i := c\<lparr>rc_cookie := 0, rc_registered := False\<rparr>]\<rparr>,
       if rc_registered c then [unregister_notification (controllers g ! i)] else []))"

text \<open>The callback the SDK runs on its own thread: the posted message, if any.\<close>

record posted_message =
  pm_window :: nat
  pm_message :: u32
  pm_wparam :: u64
  pm_lparam :: u64

definition OnRumble :: "RumbleCallbackRegistry \<Rightarrow> u64 \<Rightarrow> u8 \<Rightarrow> u8 \<Rightarrow> posted_message option" where
  "OnRumble r user large_motor small_motor =
     (case Lookup r user of None \<Rightarrow> None
      | Some context \<Rightarrow> Some \<lparr>pm_window = rd_window context, pm_message = rd_message context, pm_wparam = user,
          pm_lparam = (push_bit 8 (ucast large_motor) OR ucast small_motor)\<rparr>)"

definition ResolveRumble :: "Gamepads \<Rightarrow> u64 \<Rightarrow> (int \<times> int) option" where
  "ResolveRumble g cookie =
     (case Lookup (RumbleCallbacks g) cookie of None \<Rightarrow> None
      | Some context \<Rightarrow> Some (rd_controller_id context, rd_token context))"

definition SubscribeRumble :: "vigem_answers \<Rightarrow> int \<Rightarrow> int \<Rightarrow> nat option \<Rightarrow> u32 \<Rightarrow> Gamepads \<Rightarrow> bool \<times> Gamepads \<times> vigem_call list" where
  "SubscribeRumble a cid token window message g =
     (if cid < 1 \<or> cid > 4 \<or> controllers g ! nat (cid - 1) = None \<or> window = None \<or> message = 0 then (False, g, [])
      else let i = nat (cid - 1);
               (g1, out1) = UnregisterRumble i g;
               (cookie, r) = Register \<lparr>rd_window = the window, rd_message = message, rd_token = token,
                 rd_controller_id = cid\<rparr> (RumbleCallbacks g1);
               g2 = g1\<lparr>RumbleCallbacks := r\<rparr>
           in if cookie = 0 then (False, g2, out1)
              else let c = \<lparr>rc_window = window, rc_message = message, rc_token = token, rc_id = cid,
                       rc_registered = va_register a, rc_cookie = cookie\<rparr>;
                       out2 = out1 @ [register_notification (controllers g ! i) cookie]
                   in if va_register a then (True, g2\<lparr>rumble_contexts := (rumble_contexts g2)[i := c]\<rparr>, out2)
                      else (False, g2\<lparr>rumble_contexts := (rumble_contexts g2)[i := c\<lparr>rc_cookie := 0\<rparr>],
                               RumbleCallbacks := Remove cookie r\<rparr>, out2))"

fun stop_from :: "nat list \<Rightarrow> Gamepads \<Rightarrow> Gamepads \<times> vigem_call list" where
  "stop_from [] g = (g, [])"
| "stop_from (i # is) g =
     (let (g1, o1) = (if controllers g ! i \<noteq> None \<and> rc_registered (rumble_contexts g ! i)
                      then UnregisterRumble i g else (g, []));
          (g2, o2) = stop_from is g1
      in (g2, o1 @ o2))"

definition StopRumbleNotifications :: "Gamepads \<Rightarrow> Gamepads \<times> vigem_call list" where
  "StopRumbleNotifications g = stop_from [0, 1, 2, 3] g"

definition InitializeVigem :: "vigem_answers \<Rightarrow> Gamepads \<Rightarrow> int \<times> Gamepads" where
  "InitializeVigem a g =
     (let g1 = g\<lparr>vigem_client := va_alloc a\<rparr> in
      if va_alloc a = None then (-1, g1)
      else if \<not> va_connect a then (-1, g1)
      else (0, g1\<lparr>initialized := True\<rparr>))"

fun create_from :: "nat list \<Rightarrow> vigem_answers \<Rightarrow> Gamepads \<Rightarrow> int \<times> Gamepads \<times> vigem_call list" where
  "create_from [] a g = (-1, g, [])"
| "create_from (i # is) a g =
     (if controllers g ! i = None then
        let pad = va_target_alloc a; g1 = g\<lparr>controllers := (controllers g)[i := pad]\<rparr> in
        if va_target_add a then (int i + 1, g1, [target_add pad]) else (-1, g1, [target_add pad])
      else create_from is a g)"

definition CreateGameController :: "vigem_answers \<Rightarrow> Gamepads \<Rightarrow> int \<times> Gamepads \<times> vigem_call list" where
  "CreateGameController a g =
     (if initialized g then create_from [0, 1, 2, 3] a g
      else let (r, g1) = InitializeVigem a g in
        if r \<noteq> 0 then (-1, g1, []) else create_from [0, 1, 2, 3] a g1)"

definition RemoveGameController :: "vigem_answers \<Rightarrow> int \<Rightarrow> Gamepads \<Rightarrow> bool \<times> Gamepads \<times> vigem_call list" where
  "RemoveGameController a cid g =
     (if cid < 1 \<or> cid > 4 then (False, g, [])
      else let i = nat (cid - 1) in
      (case controllers g ! i of
         None \<Rightarrow> (False, g, [])
       | Some pad \<Rightarrow>
           let had_rumble = rc_registered (rumble_contexts g ! i);
               (g1, out1) = (if had_rumble then UnregisterRumble i g else (g, []));
               out2 = out1 @ [target_remove (Some pad)]
           in if \<not> va_target_remove a then
                let c = rumble_contexts g1 ! i in
                if had_rumble then
                  let (ok, g2, out3) = SubscribeRumble a cid (rc_token c) (rc_window c) (rc_message c) g1
                  in (False, g2, out2 @ out3)
                else (False, g1, out2)
              else (True, g1\<lparr>controllers := (controllers g1)[i := None]\<rparr>, out2 @ [target_free (Some pad)])))"

section \<open>Reading the action string\<close>

text \<open>
  Formatted extraction of integers from a string stream. The stream is the unread part, or \<open>None\<close>
  once \<open>failbit\<close> is set; extraction from a failed or exhausted stream leaves the variable as it
  was, a field without digits stores 0 and one out of range stores the nearest limit, and both fail
  the stream.
\<close>

definition isspace :: "char \<Rightarrow> bool" where
  "isspace c \<longleftrightarrow> (of_char c :: nat) \<in> {9, 10, 11, 12, 13, 32}"

definition read_field :: "string \<Rightarrow> (bool \<times> string \<times> string) option" where
  "read_field s =
     (case dropWhile isspace s of [] \<Rightarrow> None
      | c # r \<Rightarrow> let body = (if c = CHR ''-'' \<or> c = CHR ''+'' then r else c # r)
          in Some (c = CHR ''-'', takeWhile isdigit body, dropWhile isdigit body))"

definition get_signed :: "int \<Rightarrow> int \<Rightarrow> string option \<Rightarrow> int \<Rightarrow> int \<times> string option" where
  "get_signed lo hi st v =
     (case st of None \<Rightarrow> (v, None)
      | Some s \<Rightarrow> (case read_field s of None \<Rightarrow> (v, None)
        | Some (neg, ds, r) \<Rightarrow>
            if ds = [] then (0, None)
            else let n = (if neg then - int (digits_val ds) else int (digits_val ds)) in
              if n < lo then (lo, None) else if hi < n then (hi, None) else (n, Some r)))"

text \<open>An unsigned field may carry a minus sign and then wraps.\<close>

definition get_u16 :: "string option \<Rightarrow> u16 \<Rightarrow> u16 \<times> string option" where
  "get_u16 st v =
     (case st of None \<Rightarrow> (v, None)
      | Some s \<Rightarrow> (case read_field s of None \<Rightarrow> (v, None)
        | Some (neg, ds, r) \<Rightarrow>
            if ds = [] then (0, None)
            else if 0xFFFF < digits_val ds then (0xFFFF, None)
            else let n = word_of_nat (digits_val ds) in (if neg then - n else n, Some r)))"

definition parse_action :: "XINPUT_GAMEPAD \<Rightarrow> int \<Rightarrow> string \<Rightarrow> XINPUT_GAMEPAD" where
  "parse_action gamepad nextparam action =
     (let (b, s1) = get_u16 (Some action) (wButtons gamepad);
          (n1, s2) = get_signed (- (2 ^ 31)) (2 ^ 31 - 1) s1 nextparam;
          (n2, s3) = get_signed (- (2 ^ 31)) (2 ^ 31 - 1) s2 n1;
          (lx, s4) = get_signed (- 32768) 32767 s3 (sThumbLX gamepad);
          (ly, s5) = get_signed (- 32768) 32767 s4 (sThumbLY gamepad);
          (rx, s6) = get_signed (- 32768) 32767 s5 (sThumbRX gamepad);
          (ry, s7) = get_signed (- 32768) 32767 s6 (sThumbRY gamepad)
      in \<lparr>wButtons = b, bLeftTrigger = word_of_int n1, bRightTrigger = word_of_int n2,
          sThumbLX = lx, sThumbLY = ly, sThumbRX = rx, sThumbRY = ry\<rparr>)"

definition DoControllerAction ::
    "vigem_answers \<Rightarrow> XINPUT_GAMEPAD \<Rightarrow> int \<Rightarrow> int \<Rightarrow> string \<Rightarrow> Gamepads \<Rightarrow> bool \<times> vigem_call list" where
  "DoControllerAction a gamepad nextparam cid action g =
     (if cid < 1 \<or> cid > 4 \<or> controllers g ! nat (cid - 1) = None then (False, [])
      else (va_update a, [x360_update (controllers g ! nat (cid - 1)) (parse_action gamepad nextparam action)]))"

text \<open>The string a client writes for a report: seven decimal fields with a blank between them.\<close>

definition action_string :: "XINPUT_GAMEPAD \<Rightarrow> string" where
  "action_string g = show_nat (unat (wButtons g)) @ '' '' @ show_nat (unat (bLeftTrigger g)) @ '' ''
     @ show_nat (unat (bRightTrigger g)) @ '' '' @ show_int (sThumbLX g) @ '' '' @ show_int (sThumbLY g) @ '' ''
     @ show_int (sThumbRX g) @ '' '' @ show_int (sThumbRY g)"

lemma digit_no_space: "isdigit c \<Longrightarrow> \<not> isspace c \<and> c \<noteq> CHR ''-'' \<and> c \<noteq> CHR ''+''"
  by (auto simp: isdigit_def isspace_def)

definition ends_field :: "string \<Rightarrow> bool" where
  "ends_field r \<longleftrightarrow> r = [] \<or> \<not> isdigit (hd r)"

lemma ends_field_blank [simp]: "ends_field (CHR '' '' # r)" "ends_field []"
  by (simp_all add: ends_field_def isdigit_def)

lemma span_digits:
  assumes "\<forall>c \<in> set ds. isdigit c" "ends_field r"
  shows "takeWhile isdigit (ds @ r) = ds" "dropWhile isdigit (ds @ r) = r"
  using assms by (induction ds) (auto simp: ends_field_def takeWhile_eq_Nil_iff dropWhile_eq_self_iff)

lemma read_blank [simp]: "read_field (CHR '' '' # s) = read_field s"
  by (simp add: read_field_def isspace_def)

lemma read_show_nat: "ends_field r \<Longrightarrow> read_field (show_nat n @ r) = Some (False, show_nat n, r)"
proof -
  assume r: "ends_field r"
  obtain c ds where s: "show_nat n = c # ds" using show_nat_ok [of n] by (cases "show_nat n") auto
  have c: "isdigit c" "\<forall>x \<in> set ds. isdigit x" using show_nat_ok [of n] s by auto
  from span_digits [of "c # ds" r] c r digit_no_space [OF c(1)] show ?thesis
    by (auto simp: read_field_def s Let_def)
qed

lemma read_show_int:
  assumes r: "ends_field r"
  shows "read_field (show_int i @ r) = Some (i < 0, show_nat (nat \<bar>i\<bar>), r)"
proof (cases "i < 0")
  case True
  have "\<not> isspace CHR ''-''" by (simp add: isspace_def)
  then show ?thesis
    using True span_digits [of "show_nat (nat (- i))" r] show_nat_ok [of "nat (- i)"] r
    by (simp add: read_field_def show_int_def Let_def)
next
  case False
  then show ?thesis using read_show_nat [OF r, of "nat i"] by (simp add: show_int_def)
qed

lemma get_signed_show:
  assumes "ends_field r" "lo \<le> i" "i \<le> hi"
  shows "get_signed lo hi (Some (show_int i @ r)) v = (i, Some r)"
    and "get_signed lo hi (Some (CHR '' '' # show_int i @ r)) v = (i, Some r)"
proof -
  have "(if i < 0 then - int (nat \<bar>i\<bar>) else int (nat \<bar>i\<bar>)) = i" by simp
  moreover have "digits_val (show_nat (nat \<bar>i\<bar>)) = nat \<bar>i\<bar>" "show_nat (nat \<bar>i\<bar>) \<noteq> []"
    using show_nat_ok by simp_all
  ultimately have "get_signed lo hi (Some (show_int i @ r)) v = (i, Some r)"
    using assms by (simp only: get_signed_def read_show_int option.case prod.case Let_def if_False)
      (simp add: Let_def)
  moreover have "get_signed lo hi (Some (CHR '' '' # s)) v = get_signed lo hi (Some s) v" for s
    by (simp add: get_signed_def)
  ultimately show "get_signed lo hi (Some (show_int i @ r)) v = (i, Some r)"
    "get_signed lo hi (Some (CHR '' '' # show_int i @ r)) v = (i, Some r)" by simp_all
qed

lemma get_u16_show:
  assumes "ends_field r"
  shows "get_u16 (Some (show_nat (unat w) @ r)) v = (w, Some r)"
  using assms show_nat_ok [of "unat w"] unsigned_less [of w, where 'a = nat]
  by (simp add: get_u16_def read_show_nat Let_def)

lemma show_unat: "show_nat (unat (w :: u8)) = show_int (uint w)"
  by (simp add: show_int_def)

definition thumb_ok :: "int \<Rightarrow> bool" where
  "thumb_ok i \<longleftrightarrow> - 32768 \<le> i \<and> i \<le> 32767"

section \<open>The invariant of contexts and registry\<close>

definition ctx_data :: "RumbleContext \<Rightarrow> RumbleCallbackData" where
  "ctx_data c = \<lparr>rd_window = the (rc_window c), rd_message = rc_message c, rd_token = rc_token c,
     rd_controller_id = rc_id c\<rparr>"

definition slot_ok :: "nat option list \<Rightarrow> RumbleCallbackRegistry \<Rightarrow> nat \<Rightarrow> RumbleContext \<Rightarrow> bool" where
  "slot_ok ctl r i c \<longleftrightarrow> (rc_registered c \<longleftrightarrow> rc_cookie c \<noteq> 0)
     \<and> (rc_registered c \<longrightarrow> ctl ! i \<noteq> None \<and> rc_window c \<noteq> None \<and> rc_id c = int i + 1
          \<and> Lookup r (rc_cookie c) = Some (ctx_data c))"

definition gp_inv :: "Gamepads \<Rightarrow> bool" where
  "gp_inv g \<longleftrightarrow> length (controllers g) = 4 \<and> length (rumble_contexts g) = 4
     \<and> registry_ok (RumbleCallbacks g)
     \<and> (\<forall>i < 4. slot_ok (controllers g) (RumbleCallbacks g) i (rumble_contexts g ! i))
     \<and> (\<forall>k d. Lookup (RumbleCallbacks g) k = Some d \<longrightarrow> (\<exists>i < 4. rc_cookie (rumble_contexts g ! i) = k))"

lemma gp_invD:
  assumes "gp_inv g"
  shows "length (controllers g) = 4" "length (rumble_contexts g) = 4" "registry_ok (RumbleCallbacks g)"
    "i < 4 \<Longrightarrow> slot_ok (controllers g) (RumbleCallbacks g) i (rumble_contexts g ! i)"
    "Lookup (RumbleCallbacks g) k = Some d \<Longrightarrow> \<exists>i < 4. rc_cookie (rumble_contexts g ! i) = k"
  using assms unfolding gp_inv_def by blast+

lemma gp_invI:
  assumes "length (controllers g) = 4" "length (rumble_contexts g) = 4" "registry_ok (RumbleCallbacks g)"
    "\<And>i. i < 4 \<Longrightarrow> slot_ok (controllers g) (RumbleCallbacks g) i (rumble_contexts g ! i)"
    "\<And>k d. Lookup (RumbleCallbacks g) k = Some d \<Longrightarrow> \<exists>i < 4. rc_cookie (rumble_contexts g ! i) = k"
  shows "gp_inv g"
  using assms unfolding gp_inv_def by blast

text \<open>Two slots never hold the same nonzero cookie, because the entry names its controller.\<close>

lemma cookies_distinct:
  assumes g: "gp_inv g" and "i < 4" "j < 4" "rc_cookie (rumble_contexts g ! i) = rc_cookie (rumble_contexts g ! j)"
    "rc_cookie (rumble_contexts g ! i) \<noteq> 0"
  shows "i = j"
proof -
  from gp_invD(4) [OF g assms(2)] gp_invD(4) [OF g assms(3)] assms(4,5)
  have "ctx_data (rumble_contexts g ! i) = ctx_data (rumble_contexts g ! j)"
    "rc_id (rumble_contexts g ! i) = int i + 1" "rc_id (rumble_contexts g ! j) = int j + 1"
    by (auto simp: slot_ok_def)
  then show ?thesis by (simp add: ctx_data_def)
qed

lemma UnregisterRumble_inv:
  assumes g: "gp_inv g" and i: "i < 4" and u: "UnregisterRumble i g = (g1, out)"
  shows "gp_inv g1" "controllers g1 = controllers g"
    "rumble_contexts g1 = (rumble_contexts g)[i := (rumble_contexts g ! i)\<lparr>rc_cookie := 0, rc_registered := False\<rparr>]"
    "RumbleCallbacks g1 = Remove (rc_cookie (rumble_contexts g ! i)) (RumbleCallbacks g)"
proof -
  let ?c = "rumble_contexts g ! i"
  have e: "g1 = g\<lparr>RumbleCallbacks := Remove (rc_cookie ?c) (RumbleCallbacks g),
         rumble_contexts := (rumble_contexts g)[i := ?c\<lparr>rc_cookie := 0, rc_registered := False\<rparr>]\<rparr>"
    using u by (simp add: UnregisterRumble_def Let_def)
  show "controllers g1 = controllers g"
    "rumble_contexts g1 = (rumble_contexts g)[i := ?c\<lparr>rc_cookie := 0, rc_registered := False\<rparr>]"
    "RumbleCallbacks g1 = Remove (rc_cookie ?c) (RumbleCallbacks g)"
    by (simp_all add: e)
  note d = gp_invD [OF g]
  have lk: "Lookup (RumbleCallbacks g1) = (Lookup (RumbleCallbacks g))(rc_cookie ?c := None)"
    by (simp add: e rumble.rem_look [OF d(3)])
  show "gp_inv g1"
  proof (rule gp_invI)
    show "registry_ok (RumbleCallbacks g1)" by (simp add: e rumble.rem_ok d(3))
    fix j :: nat assume j: "j < 4"
    show "slot_ok (controllers g1) (RumbleCallbacks g1) j (rumble_contexts g1 ! j)"
    proof (cases "j = i")
      case True
      then show ?thesis using i d(2) by (simp add: e slot_ok_def)
    next
      case False
      with cookies_distinct [OF g j i] d(4) [OF j]
      have "rc_registered (rumble_contexts g ! j) \<Longrightarrow> rc_cookie (rumble_contexts g ! j) \<noteq> rc_cookie ?c"
        by (auto simp: slot_ok_def)
      with False d(4) [OF j] show ?thesis unfolding slot_ok_def lk by (simp add: e)
    qed
  next
    fix k d' assume "Lookup (RumbleCallbacks g1) k = Some d'"
    with lk have "Lookup (RumbleCallbacks g) k = Some d'" "k \<noteq> rc_cookie ?c" by (simp_all split: if_splits)
    with d(5) obtain j where "j < 4" "rc_cookie (rumble_contexts g ! j) = k" by blast
    with \<open>k \<noteq> rc_cookie ?c\<close> have "rc_cookie (rumble_contexts g1 ! j) = k"
      by (cases "j = i") (simp_all add: e)
    with \<open>j < 4\<close> show "\<exists>i<4. rc_cookie (rumble_contexts g1 ! i) = k" by blast
  qed (simp_all add: e d)
qed

text \<open>The slot a fresh cookie goes to: its own context is clear, so the new entry is its only change.\<close>

lemma occupy_inv:
  assumes g: "gp_inv g" and i: "i < 4" and clear: "rc_cookie (rumble_contexts g ! i) = 0"
    and r: "Register (ctx_data c) (RumbleCallbacks g) = (k, r)" "k \<noteq> 0"
    and c: "rc_registered c" "rc_cookie c = k" "rc_window c \<noteq> None" "rc_id c = int i + 1" "controllers g ! i \<noteq> None"
  shows "gp_inv (g\<lparr>RumbleCallbacks := r, rumble_contexts := (rumble_contexts g)[i := c]\<rparr>)" (is "gp_inv ?g")
proof -
  note d = gp_invD [OF g]
  from rumble.reg_new [OF d(3) r] have new: "\<not> issued (RumbleCallbacks g) k"
    and lk: "Lookup r = (Lookup (RumbleCallbacks g))(k \<mapsto> ctx_data c)" by auto
  show ?thesis
  proof (rule gp_invI)
    show "registry_ok (RumbleCallbacks ?g)" using rumble.reg_ok [OF d(3) r(1)] by simp
    fix j :: nat assume j: "j < 4"
    show "slot_ok (controllers ?g) (RumbleCallbacks ?g) j (rumble_contexts ?g ! j)"
    proof (cases "j = i")
      case True
      with j c r(2) d(2) show ?thesis by (simp add: slot_ok_def lk)
    next
      case False
      have "rc_registered (rumble_contexts g ! j) \<Longrightarrow> rc_cookie (rumble_contexts g ! j) \<noteq> k"
        using d(4) [OF j] new rumble.look_iss [OF d(3)] by (auto simp: slot_ok_def)
      with False d(4) [OF j] show ?thesis unfolding slot_ok_def by (simp add: lk)
    qed
  next
    fix k' d' assume "Lookup (RumbleCallbacks ?g) k' = Some d'"
    then consider "k' = k" | "Lookup (RumbleCallbacks g) k' = Some d'" by (auto simp: lk split: if_splits)
    then show "\<exists>j<4. rc_cookie (rumble_contexts ?g ! j) = k'"
    proof cases
      case 1
      with i c(2) d(2) show ?thesis by (intro exI [of _ i]) simp
    next
      case 2
      with d(5) obtain j where j: "j < 4" "rc_cookie (rumble_contexts g ! j) = k'" by blast
      from rumble.look_iss [OF d(3) 2] clear j have "j \<noteq> i" by auto
      with j show ?thesis by (intro exI [of _ j]) simp
    qed
  qed (simp_all add: d)
qed

lemma nth_slot: "\<not> (cid < 1 \<or> cid > 4) \<Longrightarrow> nat (cid - 1) < 4 \<and> int (nat (cid - 1)) + 1 = (cid :: int)"
  by linarith

lemma SubscribeRumble_inv:
  assumes g: "gp_inv g"
  shows "gp_inv (fst (snd (SubscribeRumble a cid token window message g)))"
proof (cases "cid < 1 \<or> cid > 4 \<or> controllers g ! nat (cid - 1) = None \<or> window = None \<or> message = 0")
  case True
  then show ?thesis using g by (simp add: SubscribeRumble_def)
next
  case False
  define i where "i = nat (cid - 1)"
  have i: "i < 4" "int i + 1 = cid" using False nth_slot [of cid] by (simp_all add: i_def)
  obtain g1 out1 where u: "UnregisterRumble i g = (g1, out1)" by fastforce
  note g1 = UnregisterRumble_inv [OF g i(1) u]
  let ?d = "\<lparr>rd_window = the window, rd_message = message, rd_token = token, rd_controller_id = cid\<rparr>"
  obtain k r where r: "Register ?d (RumbleCallbacks g1) = (k, r)" by fastforce
  have clear: "rc_cookie (rumble_contexts g1 ! i) = 0" using g1(3) gp_invD(2) [OF g] i by simp
  let ?c = "\<lparr>rc_window = window, rc_message = message, rc_token = token, rc_id = cid,
                       rc_registered = True, rc_cookie = k\<rparr>"
  have cd: "ctx_data ?c = ?d" by (simp add: ctx_data_def)
  have e: "SubscribeRumble a cid token window message g = (if k = 0 then (False, g1\<lparr>RumbleCallbacks := r\<rparr>, out1)
     else let out2 = out1 @ [register_notification (controllers g ! i) k] in
       if va_register a then (True, g1\<lparr>RumbleCallbacks := r, rumble_contexts := (rumble_contexts g1)[i := ?c]\<rparr>, out2)
       else (False, g1\<lparr>RumbleCallbacks := Remove k r,
          rumble_contexts := (rumble_contexts g1)[i := ?c\<lparr>rc_cookie := 0, rc_registered := False\<rparr>]\<rparr>, out2))"
    using False unfolding SubscribeRumble_def i_def [symmetric]
    by (simp only: if_False u r Let_def prod.case) (simp add: Let_def)
  have rin: "gp_inv (g1\<lparr>RumbleCallbacks := r, rumble_contexts := (rumble_contexts g1)[i := ?c]\<rparr>)" if "k \<noteq> 0"
    using False i that g1(2) by (intro occupy_inv [OF g1(1) i(1) clear]) (simp_all add: r cd i_def)
  consider "k = 0" | "k \<noteq> 0" "va_register a" | "k \<noteq> 0" "\<not> va_register a" by blast
  then show ?thesis
  proof cases
    case 1
    with r rumble.reg_fails [OF gp_invD(3) [OF g1(1)]] have "r = RumbleCallbacks g1" by simp
    with g1(1) 1 show ?thesis by (simp add: e)
  next
    case 2
    then show ?thesis using rin by (simp add: e Let_def)
  next
    case 3
    let ?g2 = "g1\<lparr>RumbleCallbacks := r, rumble_contexts := (rumble_contexts g1)[i := ?c]\<rparr>"
    have l: "length (rumble_contexts g1) = 4" by (rule gp_invD(2) [OF g1(1)])
    obtain g3 o3 where u3: "UnregisterRumble i ?g2 = (g3, o3)" by fastforce
    have "g3 = g1\<lparr>RumbleCallbacks := Remove k r,
          rumble_contexts := (rumble_contexts g1)[i := ?c\<lparr>rc_cookie := 0, rc_registered := False\<rparr>]\<rparr>"
      using u3 i(1) l by (simp add: UnregisterRumble_def Let_def)
    with UnregisterRumble_inv(1) [OF rin [OF 3(1)] i(1) u3] 3 show ?thesis by (simp add: e Let_def)
  qed
qed

lemma stop_from_inv: "gp_inv g \<Longrightarrow> set is \<subseteq> {0..<4} \<Longrightarrow> gp_inv (fst (stop_from is g))"
proof (induction "is" arbitrary: g)
  case Nil
  then show ?case by simp
next
  case (Cons i "is")
  obtain g1 o1 where u: "UnregisterRumble i g = (g1, o1)" by fastforce
  have "gp_inv g1" using UnregisterRumble_inv(1) [OF Cons.prems(1) _ u] Cons.prems(2) by simp
  with Cons show ?case by (simp add: u Let_def split_beta)
qed

lemma set_controller_inv:
  assumes g: "gp_inv g" and "i < 4" and "rc_registered (rumble_contexts g ! i) \<Longrightarrow> pad \<noteq> None"
  shows "gp_inv (g\<lparr>controllers := (controllers g)[i := pad]\<rparr>)"
proof (rule gp_invI)
  fix j :: nat assume j: "j < 4"
  with gp_invD(4) [OF g j] gp_invD(1) [OF g] assms(2,3)
  show "slot_ok (controllers (g\<lparr>controllers := (controllers g)[i := pad]\<rparr>))
      (RumbleCallbacks (g\<lparr>controllers := (controllers g)[i := pad]\<rparr>)) j
      (rumble_contexts (g\<lparr>controllers := (controllers g)[i := pad]\<rparr>) ! j)"
    by (cases "j = i") (auto simp: slot_ok_def)
qed (use gp_invD [OF g] in simp_all)

lemma free_slot: "gp_inv g \<Longrightarrow> i < 4 \<Longrightarrow> controllers g ! i = None \<Longrightarrow> \<not> rc_registered (rumble_contexts g ! i)"
  using gp_invD(4) [of g i] by (auto simp: slot_ok_def)

lemma create_from_inv: "gp_inv g \<Longrightarrow> set is \<subseteq> {0..<4} \<Longrightarrow> gp_inv (fst (snd (create_from is a g)))"
  by (induction "is") (auto simp: Let_def free_slot intro: set_controller_inv)

lemma gp_inv_client [simp]:
  "gp_inv (g\<lparr>vigem_client := v\<rparr>) = gp_inv g" "gp_inv (g\<lparr>initialized := b\<rparr>) = gp_inv g"
  by (simp_all add: gp_inv_def)

lemma CreateGameController_inv: "gp_inv g \<Longrightarrow> gp_inv (fst (snd (CreateGameController a g)))"
  by (auto simp: CreateGameController_def InitializeVigem_def Let_def create_from_inv simp del: create_from.simps)

lemma RemoveGameController_inv:
  assumes g: "gp_inv g"
  shows "gp_inv (fst (snd (RemoveGameController a cid g)))"
proof (cases "cid < 1 \<or> cid > 4 \<or> controllers g ! nat (cid - 1) = None")
  case True
  with g show ?thesis by (auto simp: RemoveGameController_def)
next
  case False
  define i where "i = nat (cid - 1)"
  have i: "i < 4" "int i + 1 = cid" using False nth_slot [of cid] by (simp_all add: i_def)
  from False obtain pad where pad: "controllers g ! i = Some pad" by (auto simp: i_def)
  obtain g1 out1 where u: "(if rc_registered (rumble_contexts g ! i) then UnregisterRumble i g else (g, [])) = (g1, out1)"
    by fastforce
  have g1: "gp_inv g1" "\<not> rc_registered (rumble_contexts g1 ! i)"
    using u UnregisterRumble_inv [OF g i(1)] g gp_invD(2) [OF g] i(1) by (auto split: if_splits)
  show ?thesis
  proof (cases "va_target_remove a")
    case True
    then show ?thesis using False g1 i set_controller_inv [OF g1(1) i(1), of None]
      by (simp add: RemoveGameController_def i_def [symmetric] pad u Let_def)
  next
    case no: False
    note s = SubscribeRumble_inv [OF g1(1), of a cid "rc_token (rumble_contexts g1 ! i)"
          "rc_window (rumble_contexts g1 ! i)" "rc_message (rumble_contexts g1 ! i)"]
    show ?thesis
    proof (cases "rc_registered (rumble_contexts g ! i)")
      case True
      with u have "UnregisterRumble i g = (g1, out1)" by simp
      with False no s True show ?thesis
        by (simp add: RemoveGameController_def i_def [symmetric] pad Let_def split_beta)
    next
      case had: False
      with u have "g1 = g" by simp
      with False no g had show ?thesis
        by (simp add: RemoveGameController_def i_def [symmetric] pad Let_def)
    qed
  qed
qed

section \<open>Runs\<close>

datatype gp_op =
    CreateOp vigem_answers
  | RemoveOp vigem_answers int
  | SubscribeOp vigem_answers int int "nat option" u32
  | StopOp

fun gp_step :: "gp_op \<Rightarrow> Gamepads \<Rightarrow> Gamepads" where
  "gp_step (CreateOp a) g = fst (snd (CreateGameController a g))"
| "gp_step (RemoveOp a cid) g = fst (snd (RemoveGameController a cid g))"
| "gp_step (SubscribeOp a cid token window message) g = fst (snd (SubscribeRumble a cid token window message g))"
| "gp_step StopOp g = fst (StopRumbleNotifications g)"

definition gp_run :: "gp_op list \<Rightarrow> Gamepads \<Rightarrow> Gamepads" where
  "gp_run ops g = fold gp_step ops g"

lemma gp_step_inv: "gp_inv g \<Longrightarrow> gp_inv (gp_step op g)"
  by (cases op) (simp_all add: CreateGameController_inv RemoveGameController_inv SubscribeRumble_inv
      StopRumbleNotifications_def stop_from_inv del: stop_from.simps)

lemma gp_run_inv: "gp_inv g \<Longrightarrow> gp_inv (gp_run ops g)"
  unfolding gp_run_def by (induction ops arbitrary: g) (simp_all add: gp_step_inv)

lemma init_gamepads_inv: "gp_inv init_gamepads"
proof -
  have "i < 4 \<Longrightarrow> i = 0 \<or> i = 1 \<or> i = 2 \<or> i = (3::nat)" for i by linarith
  then show ?thesis
    by (auto simp: gp_inv_def init_gamepads_def registry_ok_def okeys_def Lookup_def slot_ok_def no_context_def
        numeral_eq_Suc nth_Cons')
qed

section \<open>Cookies over a run\<close>

definition evolves :: "Gamepads \<Rightarrow> Gamepads \<Rightarrow> bool" where
  "evolves g g' \<longleftrightarrow> (\<forall>k. issued (RumbleCallbacks g) k \<longrightarrow> issued (RumbleCallbacks g') k
     \<and> (Lookup (RumbleCallbacks g') k = None \<or> Lookup (RumbleCallbacks g') k = Lookup (RumbleCallbacks g) k))"

lemma evolves_refl [simp, intro]: "evolves g g"
  by (simp add: evolves_def)

lemma evolves_same: "RumbleCallbacks g' = RumbleCallbacks g \<Longrightarrow> evolves g g'"
  by (simp add: evolves_def)

lemma evolves_trans: "evolves g g' \<Longrightarrow> evolves g' g'' \<Longrightarrow> evolves g g''"
  unfolding evolves_def by metis

lemma UnregisterRumble_evolves: "gp_inv g \<Longrightarrow> evolves g (fst (UnregisterRumble i g))"
  using rumble.keep_rem [OF gp_invD(3)] by (simp add: evolves_def UnregisterRumble_def Let_def)

lemma SubscribeRumble_evolves:
  assumes g: "gp_inv g"
  shows "evolves g (fst (snd (SubscribeRumble a cid token window message g)))"
proof (cases "cid < 1 \<or> cid > 4 \<or> controllers g ! nat (cid - 1) = None \<or> window = None \<or> message = 0")
  case True
  then show ?thesis by (simp add: SubscribeRumble_def)
next
  case False
  define i where "i = nat (cid - 1)"
  have i: "i < 4" using False nth_slot [of cid] by (simp_all add: i_def)
  obtain g1 out1 where u: "UnregisterRumble i g = (g1, out1)" by fastforce
  note g1 = UnregisterRumble_inv [OF g i u]
  let ?d = "\<lparr>rd_window = the window, rd_message = message, rd_token = token, rd_controller_id = cid\<rparr>"
  let ?g' = "fst (snd (SubscribeRumble a cid token window message g))"
  obtain k r where r: "Register ?d (RumbleCallbacks g1) = (k, r)" by fastforce
  have "RumbleCallbacks ?g' = r \<or> RumbleCallbacks ?g' = Remove k r"
    using False unfolding SubscribeRumble_def i_def [symmetric]
    by (simp only: if_False u r Let_def prod.case) simp
  moreover have "evolves g1 (g1\<lparr>RumbleCallbacks := r\<rparr>)"
    using rumble.keep_reg [OF gp_invD(3) [OF g1(1)] r] by (simp add: evolves_def)
  moreover have "evolves (g1\<lparr>RumbleCallbacks := r\<rparr>) (g1\<lparr>RumbleCallbacks := Remove k r\<rparr>)"
    using rumble.keep_rem [OF rumble.reg_ok [OF gp_invD(3) [OF g1(1)] r]] by (simp add: evolves_def)
  ultimately have "evolves g1 ?g'"
    using evolves_trans by (metis Gamepads.select_convs(5) Gamepads.surjective Gamepads.update_convs(5) evolves_same)
  moreover have "evolves g g1" using UnregisterRumble_evolves [OF g, of i] u by simp
  ultimately show ?thesis using evolves_trans by blast
qed

lemma stop_from_evolves: "gp_inv g \<Longrightarrow> set is \<subseteq> {0..<4} \<Longrightarrow> evolves g (fst (stop_from is g))"
proof (induction "is" arbitrary: g)
  case Nil
  then show ?case by simp
next
  case (Cons i "is")
  obtain g1 o1 where u: "UnregisterRumble i g = (g1, o1)" by fastforce
  have "gp_inv g1" using UnregisterRumble_inv(1) [OF Cons.prems(1) _ u] Cons.prems(2) by simp
  moreover have "evolves g g1" using UnregisterRumble_evolves [OF Cons.prems(1), of i] u by simp
  ultimately show ?case using Cons by (auto simp: u Let_def split_beta intro: evolves_trans)
qed

lemma create_from_same: "RumbleCallbacks (fst (snd (create_from is a g))) = RumbleCallbacks g"
  by (induction "is") (auto simp: Let_def)

lemma CreateGameController_same:
  "RumbleCallbacks (fst (snd (CreateGameController a g))) = RumbleCallbacks g"
  by (auto simp: CreateGameController_def InitializeVigem_def Let_def create_from_same simp del: create_from.simps)

lemma RemoveGameController_evolves:
  assumes g: "gp_inv g"
  shows "evolves g (fst (snd (RemoveGameController a cid g)))"
proof (cases "cid < 1 \<or> cid > 4 \<or> controllers g ! nat (cid - 1) = None")
  case True
  with g show ?thesis by (auto simp: RemoveGameController_def)
next
  case False
  define i where "i = nat (cid - 1)"
  have i: "i < 4" using False nth_slot [of cid] by (simp_all add: i_def)
  from False obtain pad where pad: "controllers g ! i = Some pad" by (auto simp: i_def)
  obtain g1 out1 where u: "UnregisterRumble i g = (g1, out1)" by fastforce
  have inv1: "gp_inv g1" by (rule UnregisterRumble_inv(1) [OF g i u])
  have e1: "evolves g g1" using UnregisterRumble_evolves [OF g, of i] u by simp
  note s = SubscribeRumble_evolves [OF inv1, of a cid "rc_token (rumble_contexts g1 ! i)"
          "rc_window (rumble_contexts g1 ! i)" "rc_message (rumble_contexts g1 ! i)"]
  have e2: "evolves g (g1\<lparr>controllers := c\<rparr>)" "evolves g (g\<lparr>controllers := c\<rparr>)" for c
    using e1 by (simp_all add: evolves_def)
  show ?thesis
  proof (cases "rc_registered (rumble_contexts g ! i)")
    case True
    with False e1 e2 evolves_trans [OF e1 s] show ?thesis
      by (simp add: RemoveGameController_def i_def [symmetric] pad u Let_def split_beta)
  next
    case had: False
    with False e2 show ?thesis
      by (simp add: RemoveGameController_def i_def [symmetric] pad Let_def)
  qed
qed

lemma gp_step_evolves: "gp_inv g \<Longrightarrow> evolves g (gp_step op g)"
  by (cases op) (simp_all add: RemoveGameController_evolves SubscribeRumble_evolves CreateGameController_same
      evolves_same StopRumbleNotifications_def stop_from_evolves del: stop_from.simps)

lemma gp_run_evolves: "gp_inv g \<Longrightarrow> evolves g (gp_run ops g)"
  unfolding gp_run_def
proof (induction ops arbitrary: g)
  case Nil
  then show ?case by simp
next
  case (Cons op ops)
  then show ?case using gp_step_inv gp_step_evolves evolves_trans by (metis fold_simps(2))
qed

lemma gp_run_append: "gp_run (ops1 @ ops2) g = gp_run ops2 (gp_run ops1 g)"
  by (simp add: gp_run_def)

section \<open>Delivery of motor feedback\<close>

text \<open>
  The window procedure delegate of \<open>subscribeGamepadRumble\<close>: \<open>None\<close> when the message is not the
  rumble message, otherwise the event sent to Dart, if the cookie still resolves.
\<close>

record GamepadRumbleEvent =
  ev_id :: int
  ev_token :: int
  ev_low :: int
  ev_high :: int

definition rumble_delegate :: "u32 \<Rightarrow> Gamepads \<Rightarrow> u32 \<Rightarrow> u64 \<Rightarrow> u64 \<Rightarrow> GamepadRumbleEvent option option" where
  "rumble_delegate rumble_message_id g message cookie motors =
     (if message \<noteq> rumble_message_id then None
      else Some (case ResolveRumble g cookie of None \<Rightarrow> None
        | Some (cid, token) \<Rightarrow> Some \<lparr>ev_id = cid, ev_token = token,
            ev_low = uint ((drop_bit 8 motors AND 255) * 257), ev_high = uint ((motors AND 255) * 257)\<rparr>))"

lemma motors_low: "drop_bit 8 (push_bit 8 (ucast (l :: u8)) OR ucast (s :: u8) :: u64) AND 255 = ucast l"
proof (rule bit_word_eqI)
  fix n assume "n < LENGTH(64)"
  have m: "(255 :: u64) = mask 8" by (simp add: mask_eq_exp_minus_1)
  show "bit (drop_bit 8 (push_bit 8 (ucast l) OR ucast s :: u64) AND 255) n = bit (ucast l :: u64) n"
    unfolding m by (auto simp: bit_simps dest: bit_imp_le_length)
qed

lemma motors_high: "(push_bit 8 (ucast (l :: u8)) OR ucast (s :: u8) :: u64) AND 255 = ucast s"
proof (rule bit_word_eqI)
  fix n assume "n < LENGTH(64)"
  have m: "(255 :: u64) = mask 8" by (simp add: mask_eq_exp_minus_1)
  show "bit ((push_bit 8 (ucast l) OR ucast s :: u64) AND 255) n = bit (ucast s :: u64) n"
    unfolding m by (auto simp: bit_simps dest: bit_imp_le_length)
qed

lemma motor_scale: "uint ((ucast (l :: u8) :: u64) * 257) = 257 * uint l"
proof -
  have l: "uint l < 256" using unsigned_less [of l, where 'a = int] by simp
  have "take_bit 64 (uint l) = uint l" using l by (intro take_bit_int_eq_self) simp_all
  then have "uint (ucast l :: u64) = uint l" by (simp add: unsigned_ucast_eq)
  moreover have "take_bit 64 (uint l * 257) = uint l * 257" using l by (intro take_bit_int_eq_self) simp_all
  ultimately show ?thesis by (simp add: uint_word_ariths take_bit_eq_mod mult.commute)
qed

section \<open>Properties\<close>

text \<open>C14: after any sequence of creating and removing controllers, subscribing and stopping, a cookie
  resolves exactly when it is the cookie of a registered subscription of one of the four slots, whose
  controller exists; the entry then carries that subscription's window, message, token and controller
  number. No registry entry is left behind by any path, failures of the SDK included.\<close>

theorem rumble_registry_matches:
  "Lookup (RumbleCallbacks (gp_run ops init_gamepads)) k = Some d \<longleftrightarrow>
     (\<exists>i < 4. let c = rumble_contexts (gp_run ops init_gamepads) ! i in
        rc_registered c \<and> rc_cookie c = k \<and> d = ctx_data c \<and> rc_id c = int i + 1
        \<and> controllers (gp_run ops init_gamepads) ! i \<noteq> None)"
proof -
  let ?g = "gp_run ops init_gamepads"
  note d = gp_invD [OF gp_run_inv [OF init_gamepads_inv, of ops]]
  show ?thesis
  proof
    assume l: "Lookup (RumbleCallbacks ?g) k = Some d"
    with d(5) obtain i where i: "i < 4" "rc_cookie (rumble_contexts ?g ! i) = k" by blast
    moreover have "k \<noteq> 0" using rumble.look_iss [OF d(3) l] by simp
    ultimately show "\<exists>i < 4. let c = rumble_contexts ?g ! i in
        rc_registered c \<and> rc_cookie c = k \<and> d = ctx_data c \<and> rc_id c = int i + 1 \<and> controllers ?g ! i \<noteq> None"
      using d(4) [OF i(1)] l by (intro exI [of _ i]) (simp add: slot_ok_def Let_def)
  next
    assume "\<exists>i < 4. let c = rumble_contexts ?g ! i in
        rc_registered c \<and> rc_cookie c = k \<and> d = ctx_data c \<and> rc_id c = int i + 1 \<and> controllers ?g ! i \<noteq> None"
    then show "Lookup (RumbleCallbacks ?g) k = Some d" using d(4) by (auto simp: slot_ok_def Let_def)
  qed
qed

text \<open>A cookie keeps its meaning for ever or loses it for ever. Once it has been handed out, what it
  resolves to later is the same controller and token, or nothing: a motor callback that arrives late
  can never be attributed to another subscription.\<close>

theorem cookie_meaning_stable:
  assumes "issued (RumbleCallbacks (gp_run ops1 init_gamepads)) k"
  shows "ResolveRumble (gp_run (ops1 @ ops2) init_gamepads) k
     \<in> {None, ResolveRumble (gp_run ops1 init_gamepads) k}"
proof -
  have "evolves (gp_run ops1 init_gamepads) (gp_run (ops1 @ ops2) init_gamepads)"
    unfolding gp_run_append by (rule gp_run_evolves [OF gp_run_inv [OF init_gamepads_inv]])
  with assms show ?thesis by (auto simp: evolves_def ResolveRumble_def split: option.splits)
qed

definition sdk_ok :: vigem_answers where
  "sdk_ok = \<lparr>va_alloc = Some 1, va_connect = True, va_target_alloc = Some 2, va_target_add = True,
     va_register = True, va_target_remove = True, va_update = True\<rparr>"

definition subscribe_demo :: "gp_op list" where
  "subscribe_demo = [CreateOp sdk_ok, SubscribeOp sdk_ok 1 77 (Some 9) 1024]"

lemma subscribe_demo_issued:
  "issued (RumbleCallbacks (gp_run subscribe_demo init_gamepads)) 1
   \<and> ResolveRumble (gp_run subscribe_demo init_gamepads) 1 = Some (1, 77)
   \<and> ResolveRumble (gp_run (subscribe_demo @ [RemoveOp sdk_ok 1]) init_gamepads) 1 = None"
  by code_simp

theorem cookie_meaning_stable_witness:
  "ResolveRumble (gp_run (subscribe_demo @ [RemoveOp sdk_ok 1]) init_gamepads) 1
     \<in> {None, ResolveRumble (gp_run subscribe_demo init_gamepads) 1}"
  by (rule cookie_meaning_stable) (simp add: subscribe_demo_issued)

text \<open>A report written as seven decimal fields arrives unchanged: the update handed to the SDK holds
  exactly the buttons, triggers and thumb sticks, whatever the uninitialised report held before.\<close>

theorem gamepad_action_roundtrip:
  assumes "thumb_ok (sThumbLX r)" "thumb_ok (sThumbLY r)" "thumb_ok (sThumbRX r)" "thumb_ok (sThumbRY r)"
    and "1 \<le> cid" "cid \<le> 4" "controllers g ! nat (cid - 1) = Some pad"
  shows "DoControllerAction a junk n cid (action_string r) g = (va_update a, [x360_update (Some pad) r])"
proof -
  have u: "- (2 ^ 31) \<le> uint w \<and> uint w \<le> 2 ^ 31 - 1" for w :: u8
    using unsigned_less [of w, where 'a = int] uint_ge_0 [of w] by (auto intro: order.trans [of _ 0])
  have "get_signed (- (2 ^ 31)) (2 ^ 31 - 1) (Some (CHR '' '' # show_int (uint w) @ CHR '' '' # s)) v
      = (uint w, Some (CHR '' '' # s))" for w :: u8 and s v
    using u [of w] by (intro get_signed_show(2)) simp_all
  moreover have "get_signed (- 32768) 32767 (Some (CHR '' '' # show_int i @ CHR '' '' # s)) v = (i, Some (CHR '' '' # s))"
    if "thumb_ok i" for i s v
    using that by (intro get_signed_show(2)) (simp_all add: thumb_ok_def)
  moreover have "get_signed (- 32768) 32767 (Some (CHR '' '' # show_int i)) v = (i, Some [])"
    if "thumb_ok i" for i v
    using that get_signed_show(2) [of "[]" "- 32768" i 32767 v] by (simp add: thumb_ok_def)
  ultimately have "parse_action junk n (action_string r) = r"
    using assms(1-4) unfolding parse_action_def action_string_def show_unat
    by (simp add: get_u16_show)
  with assms(5-7) show ?thesis by (simp add: DoControllerAction_def)
qed

definition demo_report :: XINPUT_GAMEPAD where
  "demo_report = \<lparr>wButtons = 4096, bLeftTrigger = 255, bRightTrigger = 0, sThumbLX = -32768, sThumbLY = 32767,
     sThumbRX = 0, sThumbRY = -1\<rparr>"

theorem gamepad_action_roundtrip_witness:
  "DoControllerAction sdk_ok (demo_report\<lparr>wButtons := 7\<rparr>) 99 1 (action_string demo_report)
     (gp_run [CreateOp sdk_ok] init_gamepads) = (True, [x360_update (Some 2) demo_report])"
proof -
  have "controllers (gp_run [CreateOp sdk_ok] init_gamepads) ! nat (1 - 1) = Some 2" by code_simp
  from gamepad_action_roundtrip [OF _ _ _ _ _ _ this, of demo_report sdk_ok]
  show ?thesis by (simp add: thumb_ok_def demo_report_def sdk_ok_def)
qed

text \<open>A string with fewer fields hands the SDK whatever the uninitialised report contained.\<close>

lemma short_action_sends_junk:
  "parse_action junk n '''' = junk\<lparr>bLeftTrigger := word_of_int n, bRightTrigger := word_of_int n\<rparr>"
  by (simp add: parse_action_def get_u16_def get_signed_def read_field_def)

text \<open>A target that could not be plugged in stays in its slot: after four such failures no controller
  can be created any more, whatever the SDK answers later.\<close>

definition add_fails :: vigem_answers where
  "add_fails = sdk_ok\<lparr>va_target_add := False\<rparr>"

lemma failed_adds_leak_slots:
  "fst (CreateGameController a (gp_run (replicate 4 (CreateOp add_fails)) init_gamepads)) = -1"
proof -
  define g where "g = gp_run (replicate 4 (CreateOp add_fails)) init_gamepads"
  have "controllers g = [Some 2, Some 2, Some 2, Some 2]" "initialized g" unfolding g_def by code_simp+
  then show ?thesis unfolding g_def [symmetric] by (simp add: CreateGameController_def)
qed

text \<open>What a motor callback delivers: the scaled strengths with the subscription's own numbers.\<close>

lemma rumble_delivery:
  assumes "OnRumble (RumbleCallbacks g) cookie large_motor small_motor = Some m"
  shows "rumble_delegate (pm_message m) g (pm_message m) (pm_wparam m) (pm_lparam m) =
    Some (map_option (\<lambda>(cid, token). \<lparr>ev_id = cid, ev_token = token, ev_low = 257 * uint large_motor,
      ev_high = 257 * uint small_motor\<rparr>) (ResolveRumble g cookie))"
  using assms by (auto simp: OnRumble_def rumble_delegate_def motors_low motors_high motor_scale ResolveRumble_def
      simp del: drop_bit_or split: option.splits)

end
