(* ===== verification/KeyBlocker.thy ===== *)
theory KeyBlocker
  imports Prelude "HOL-Library.AList"
begin

text \<open>
  The low-level keyboard hook of the immersive mode (\<open>windows/SmartKeyboardBlocker.cpp\<close>) and the
  methods that switch it (\<open>SetImmersiveMode\<close>, \<open>OnKeyBlocked\<close> of
  \<open>windows/hardware_simulator_plugin.cpp\<close>). What the window system answers is a parameter: the
  desktop's windows, the key state at the time of an event and whether a hook could be installed.
  A window handle is a number, 0 for null. The climb through the parents of the foreground window
  is a loop of the source that ends only if the parents form no cycle, so it is a partial function.
\<close>

section \<open>Windows and keys\<close>

record top_window =
  tw_hwnd :: nat
  tw_process :: nat
  tw_visible :: bool
  tw_title_length :: int

record desktop =
  GetForegroundWindow :: nat
  GetParent :: "nat \<Rightarrow> nat"
  top_windows :: "top_window list"
  current_process :: nat
  alt_down :: bool
  ctrl_down :: bool

definition VK_TAB :: u32 where "VK_TAB = 0x09"
definition VK_ESCAPE :: u32 where "VK_ESCAPE = 0x1B"
definition VK_LWIN :: u32 where "VK_LWIN = 0x5B"
definition VK_RWIN :: u32 where "VK_RWIN = 0x5C"
definition VK_F4 :: u32 where "VK_F4 = 0x73"
definition VK_RCONTROL :: u32 where "VK_RCONTROL = 0xA3"
definition VK_LMENU :: u32 where "VK_LMENU = 0xA4"
definition VK_RMENU :: u32 where "VK_RMENU = 0xA5"
definition WM_KEYDOWN :: u64 where "WM_KEYDOWN = 0x100"
definition WM_KEYUP :: u64 where "WM_KEYUP = 0x101"
definition WM_SYSKEYDOWN :: u64 where "WM_SYSKEYDOWN = 0x104"

lemmas vk_defs = VK_TAB_def VK_ESCAPE_def VK_LWIN_def VK_RWIN_def VK_F4_def VK_RCONTROL_def VK_LMENU_def
  VK_RMENU_def WM_KEYDOWN_def WM_KEYUP_def WM_SYSKEYDOWN_def

section \<open>State\<close>

text \<open>The callback is the plugin's own lambda when it is set.\<close>

record Blocker =
  hook_handle :: "nat option"
  target_window :: nat
  callback :: bool
  key_states :: "(u32 \<times> bool) list"
  immersive_mode_enabled :: bool

definition init_blocker :: Blocker where
  "init_blocker = \<lparr>hook_handle = None, target_window = 0, callback = False, key_states = [],
     immersive_mode_enabled = False\<rparr>"

datatype blocker_effect =
    disable_ime nat
  | restore_ime nat
  | install_hook
  | unhook "nat option"
  | onKeyBlocked u32 bool

section \<open>Operations\<close>

fun GetMainWindow :: "nat \<Rightarrow> (nat \<Rightarrow> nat) \<Rightarrow> top_window list \<Rightarrow> nat" where
  "GetMainWindow pid parent [] = 0"
| "GetMainWindow pid parent (w # ws) =
     (if tw_process w = pid \<and> tw_visible w \<and> parent (tw_hwnd w) = 0 \<and> tw_title_length w > 0 then tw_hwnd w
      else GetMainWindow pid parent ws)"

definition StartBlocking :: "desktop \<Rightarrow> nat option \<Rightarrow> nat \<Rightarrow> bool \<Rightarrow> Blocker \<Rightarrow> bool \<times> Blocker \<times> blocker_effect list" where
  "StartBlocking d hook target cb b =
     (if hook_handle b \<noteq> None then (True, b, [])
      else let tw = (if target = 0 then GetMainWindow (current_process d) (GetParent d) (top_windows d) else target);
               b1 = b\<lparr>target_window := tw, callback := cb\<rparr>
           in if tw = 0 then (False, b1, [])
              else (hook \<noteq> None, b1\<lparr>hook_handle := hook\<rparr>, [disable_ime tw, install_hook]))"

definition StopBlocking :: "Blocker \<Rightarrow> Blocker \<times> blocker_effect list" where
  "StopBlocking b =
     (if hook_handle b = None then (b, [])
      else (b\<lparr>hook_handle := None, target_window := 0, callback := False, key_states := []\<rparr>,
            unhook (hook_handle b) # (if target_window b \<noteq> 0 then [restore_ime (target_window b)] else [])))"

definition ShouldBlockKey :: "desktop \<Rightarrow> u32 \<Rightarrow> bool" where
  "ShouldBlockKey d vk =
     (if vk = VK_LWIN \<or> vk = VK_RWIN then True
      else if vk = VK_LMENU then True
      else if vk = VK_RMENU then True
      else if vk = VK_RCONTROL then True
      else if vk = VK_TAB then alt_down d
      else if vk = VK_F4 then alt_down d
      else if vk = VK_ESCAPE then ctrl_down d \<and> alt_down d
      else False)"

partial_function (option) climbs :: "(nat \<Rightarrow> nat) \<Rightarrow> nat \<Rightarrow> nat \<Rightarrow> bool option" where
  "climbs parent target current =
     (if current = 0 then Some False
      else if current = target then Some True
      else climbs parent target (parent current))"

definition IsTargetWindowActive :: "desktop \<Rightarrow> Blocker \<Rightarrow> bool option" where
  "IsTargetWindowActive d b =
     (if target_window b = 0 then Some False
      else climbs (GetParent d) (target_window b) (GetForegroundWindow d))"

record hook_event =
  he_code :: int
  he_message :: u64
  he_vkCode :: u32

definition OnKeyBlocked :: "bool \<Rightarrow> u32 \<Rightarrow> bool \<Rightarrow> blocker_effect list" where
  "OnKeyBlocked channel vk down = (if channel then [onKeyBlocked vk down] else [])"

text \<open>
  The hook procedure: whether the key is withheld from the system, the new state and the
  notifications. \<open>None\<close> when the climb does not end.
\<close>

definition KeyboardHookProc :: "desktop \<Rightarrow> bool \<Rightarrow> hook_event \<Rightarrow> Blocker \<Rightarrow> (bool \<times> Blocker \<times> blocker_effect list) option" where
  "KeyboardHookProc d channel ev b =
     (if he_code ev < 0 \<or> hook_handle b = None then Some (False, b, [])
      else case IsTargetWindowActive d b of None \<Rightarrow> None
      | Some active \<Rightarrow>
          if \<not> active then Some (False, b, [])
          else let vk = he_vkCode ev; is_key_down = (he_message ev = WM_KEYDOWN \<or> he_message ev = WM_SYSKEYDOWN) in
            if ShouldBlockKey d vk then
              let was_down = (case map_of (key_states b) vk of Some s \<Rightarrow> s | None \<Rightarrow> False) in
              if was_down \<noteq> is_key_down then
                Some (True, b\<lparr>key_states := AList.update vk is_key_down (key_states b)\<rparr>,
                  if callback b then OnKeyBlocked channel vk is_key_down else [])
              else Some (True, b, [])
            else Some (False, b, []))"

definition SetImmersiveMode :: "desktop \<Rightarrow> nat option \<Rightarrow> bool \<Rightarrow> Blocker \<Rightarrow> Blocker \<times> blocker_effect list" where
  "SetImmersiveMode d hook enabled b =
     (let b0 = b\<lparr>immersive_mode_enabled := enabled\<rparr> in
      if enabled then
        if hook_handle b0 = None then
          let (ok, b1, out) = StartBlocking d hook 0 False b0 in (b1\<lparr>callback := True\<rparr>, out)
        else (b0, [])
      else let (b1, out) = StopBlocking b0 in (b1\<lparr>callback := False\<rparr>, out))"

section \<open>The climb ends\<close>

text \<open>In a finite window tree every chain of parents reaches the null window.\<close>

definition parents_wf :: "(nat \<Rightarrow> nat) \<Rightarrow> (nat \<Rightarrow> nat) \<Rightarrow> bool" where
  "parents_wf depth parent \<longleftrightarrow> (\<forall>w. w \<noteq> 0 \<longrightarrow> parent w \<noteq> 0 \<longrightarrow> depth (parent w) < depth w)"

lemma climbs_ends:
  assumes "parents_wf depth parent"
  shows "\<exists>r. climbs parent target w = Some r"
proof (induction "depth w" arbitrary: w rule: less_induct)
  case less
  show ?case
  proof (cases "w = 0 \<or> w = target \<or> parent w = 0")
    case True
    then show ?thesis
      by (subst climbs.simps) (auto simp: climbs.simps [of _ _ 0])
  next
    case False
    with assms have "depth (parent w) < depth w" by (simp add: parents_wf_def)
    from less [OF this] False show ?thesis by (subst climbs.simps) simp
  qed
qed

lemma IsTargetWindowActive_ends: "parents_wf depth (GetParent d) \<Longrightarrow> \<exists>r. IsTargetWindowActive d b = Some r"
  using climbs_ends [of depth "GetParent d" "target_window b" "GetForegroundWindow d"]
  by (cases "target_window b = 0") (auto simp: IsTargetWindowActive_def)

section \<open>Sessions\<close>

fun hook_run :: "bool \<Rightarrow> (desktop \<times> hook_event) list \<Rightarrow> Blocker \<Rightarrow> (Blocker \<times> blocker_effect list) option" where
  "hook_run channel [] b = Some (b, [])"
| "hook_run channel ((d, ev) # evs) b =
     (case KeyboardHookProc d channel ev b of None \<Rightarrow> None
      | Some (blocked, b1, out1) \<Rightarrow> (case hook_run channel evs b1 of None \<Rightarrow> None
          | Some (b2, out2) \<Rightarrow> Some (b2, out1 @ out2)))"

definition reports :: "u32 \<Rightarrow> blocker_effect list \<Rightarrow> bool list" where
  "reports vk out = List.map_filter (\<lambda>e. case e of onKeyBlocked k dn \<Rightarrow> if k = vk then Some dn else None | _ \<Rightarrow> None) out"

lemma reports_append [simp]: "reports vk (xs @ ys) = reports vk xs @ reports vk ys"
  by (simp add: reports_def List.map_filter_def)

lemma reports_Nil [simp]: "reports vk [] = []"
  by (simp add: reports_def List.map_filter_def)

lemma reports_one [simp]: "reports vk [onKeyBlocked k dn] = (if k = vk then [dn] else [])"
  by (simp add: reports_def List.map_filter_def)

fun alternating :: "bool \<Rightarrow> bool list \<Rightarrow> bool" where
  "alternating held [] \<longleftrightarrow> True"
| "alternating held (dn # r) \<longleftrightarrow> dn \<noteq> held \<and> alternating dn r"

definition tracked :: "Blocker \<Rightarrow> u32 \<Rightarrow> bool" where
  "tracked b vk = (case map_of (key_states b) vk of Some s \<Rightarrow> s | None \<Rightarrow> False)"

lemma alternating_append:
  "alternating h (xs @ ys) \<longleftrightarrow> alternating h xs \<and> alternating (if xs = [] then h else last xs) ys"
  by (induction xs arbitrary: h) auto

lemma KeyboardHookProc_reports:
  assumes "KeyboardHookProc d True ev b = Some (blocked, b1, out)" "callback b"
  shows "alternating (tracked b vk) (reports vk out)
     \<and> tracked b1 vk = (if reports vk out = [] then tracked b vk else last (reports vk out))
     \<and> callback b1 \<and> hook_handle b1 = hook_handle b"
  using assms
  by (auto simp: KeyboardHookProc_def Let_def tracked_def OnKeyBlocked_def update_conv split: option.splits if_splits)

lemma hook_run_reports:
  assumes "hook_run True evs b = Some (b', out)" "callback b"
  shows "alternating (tracked b vk) (reports vk out)
     \<and> tracked b' vk = (if reports vk out = [] then tracked b vk else last (reports vk out))"
  using assms
proof (induction evs arbitrary: b out)
  case Nil
  then show ?case by simp
next
  case (Cons p evs)
  obtain d ev where p: "p = (d, ev)" by fastforce
  from Cons.prems(1) obtain bl b1 out1 out2 where
    h: "KeyboardHookProc d True ev b = Some (bl, b1, out1)" "hook_run True evs b1 = Some (b', out2)" "out = out1 @ out2"
    by (auto simp: p split: option.splits)
  note k = KeyboardHookProc_reports [OF h(1) Cons.prems(2), of vk]
  with Cons.IH [OF h(2)] show ?case
    by (auto simp: h(3) alternating_append)
qed

lemma hook_run_ends:
  assumes "\<forall>(d, ev) \<in> set evs. \<exists>depth. parents_wf depth (GetParent d)"
  shows "\<exists>b' out. hook_run channel evs b = Some (b', out)"
  using assms
proof (induction evs arbitrary: b)
  case Nil
  then show ?case by simp
next
  case (Cons p evs)
  obtain d ev where p: "p = (d, ev)" by fastforce
  from Cons.prems p obtain depth where "parents_wf depth (GetParent d)" by auto
  from IsTargetWindowActive_ends [OF this] obtain r where "IsTargetWindowActive d b = Some r" by blast
  then have "KeyboardHookProc d channel ev b \<noteq> None"
    by (auto simp: KeyboardHookProc_def Let_def)
  then obtain bl b1 o1 where "KeyboardHookProc d channel ev b = Some (bl, b1, o1)" by (metis not_None_eq prod_cases3)
  with Cons.IH [of b1] Cons.prems p show ?case by fastforce
qed

section \<open>Properties\<close>

text \<open>C32: from the moment the immersive mode is switched on, whatever windows and keys do, handling
  every event returns, and the notifications Dart gets for a key alternate: a press first, then a
  release, a press, and so on, never the same twice.\<close>

theorem blocked_keys_alternate:
  assumes "SetImmersiveMode d0 hook True init_blocker = (b, out0)"
    and "\<forall>(d, ev) \<in> set evs. \<exists>depth. parents_wf depth (GetParent d)"
  shows "\<exists>b' out. hook_run True evs b = Some (b', out) \<and> alternating False (reports vk out)"
proof -
  from hook_run_ends [OF assms(2)] obtain b' out where r: "hook_run True evs b = Some (b', out)" by blast
  have "callback b" "tracked b vk = False"
    using assms(1) by (auto simp: SetImmersiveMode_def StartBlocking_def init_blocker_def tracked_def Let_def
        split: if_splits)
  with hook_run_reports [OF r, of vk] r show ?thesis by auto
qed

definition demo_desktop :: desktop where
  "demo_desktop = \<lparr>GetForegroundWindow = 5, GetParent = (\<lambda>_. 0),
     top_windows = [\<lparr>tw_hwnd = 5, tw_process = 1, tw_visible = True, tw_title_length = 3\<rparr>],
     current_process = 1, alt_down = True, ctrl_down = False\<rparr>"

definition demo_event :: "u64 \<Rightarrow> u32 \<Rightarrow> hook_event" where
  "demo_event m vk = \<lparr>he_code = 0, he_message = m, he_vkCode = vk\<rparr>"

theorem blocked_keys_alternate_witness:
  "\<exists>b' out. hook_run True [(demo_desktop, demo_event WM_SYSKEYDOWN VK_TAB), (demo_desktop, demo_event WM_SYSKEYDOWN VK_TAB)]
      (fst (SetImmersiveMode demo_desktop (Some 1) True init_blocker)) = Some (b', out)
    \<and> alternating False (reports VK_TAB out)"
  by (rule blocked_keys_alternate [OF prod.collapse [symmetric]])
    (auto simp: demo_desktop_def parents_wf_def)

text \<open>The release of a combination key is missed when Alt is let go first: the next Alt+Tab is then
  taken for a repetition and not reported.\<close>

definition alt_up :: desktop where "alt_up = demo_desktop\<lparr>alt_down := False\<rparr>"


lemma alt_tab_release_missed:
  "\<exists>b. hook_run True
      [(demo_desktop, demo_event WM_SYSKEYDOWN VK_TAB), (alt_up, demo_event WM_KEYUP VK_TAB),
       (demo_desktop, demo_event WM_SYSKEYDOWN VK_TAB)]
      (fst (SetImmersiveMode demo_desktop (Some 1) True init_blocker)) = Some (b, [onKeyBlocked VK_TAB True])"
  by (simp add: demo_desktop_def alt_up_def SetImmersiveMode_def StartBlocking_def init_blocker_def Let_def
      KeyboardHookProc_def IsTargetWindowActive_def climbs.simps ShouldBlockKey_def vk_defs demo_event_def OnKeyBlocked_def)

text \<open>The input method is switched off before the hook is known to be installed; when it is not,
  leaving the immersive mode does not switch it on again.\<close>

lemma ime_lost_without_hook:
  "let (b1, out1) = SetImmersiveMode demo_desktop None True init_blocker;
       (b2, out2) = SetImmersiveMode demo_desktop None False b1
   in out1 @ out2 = [disable_ime 5, install_hook]"
  by (simp add: demo_desktop_def SetImmersiveMode_def StartBlocking_def StopBlocking_def init_blocker_def Let_def)

end
