(* ===== verification/DisplayTopology.thy ===== *)
theory DisplayTopology
  imports Prelude "HOL-Library.AList"
begin

text \<open>
  The display paths and modes of the system and what \<open>windows/virtual_display_control.cc\<close> and
  \<open>windows/virtual_display.cc\<close> do with them: reading the multi-display mode, choosing a topology,
  switching to one display only, and the backup that restores the earlier layout. The
  \<open>DisplayConfig\<close> functions of Windows are parameters: the answers to the queries are given for each
  attempt, the configurations the program sets are returned in order.
\<close>

section \<open>Paths and modes\<close>

record path_info =
  p_flags :: u32
  p_adapter_high :: int
  p_adapter_low :: u32
  p_source_id :: u32
  p_source_mode :: u32
  p_target :: u64

record mode_info =
  m_infoType :: u32
  m_x :: int
  m_y :: int
  m_rest :: u64

definition PATH_ACTIVE :: u32 where "PATH_ACTIVE = 1"
definition PATH_PRIMARY_VIEW :: u32 where "PATH_PRIMARY_VIEW = 1"
definition PATH_CLONE_GROUP_INVALID :: u32 where "PATH_CLONE_GROUP_INVALID = 0xFFFF"
definition MODE_INFO_TYPE_SOURCE :: u32 where "MODE_INFO_TYPE_SOURCE = 1"
definition SDC_TOPOLOGY_INTERNAL :: u32 where "SDC_TOPOLOGY_INTERNAL = 0x1"
definition SDC_TOPOLOGY_CLONE :: u32 where "SDC_TOPOLOGY_CLONE = 0x2"
definition SDC_TOPOLOGY_EXTEND :: u32 where "SDC_TOPOLOGY_EXTEND = 0x4"
definition SDC_TOPOLOGY_EXTERNAL :: u32 where "SDC_TOPOLOGY_EXTERNAL = 0x8"
definition SDC_USE_SUPPLIED :: u32 where "SDC_USE_SUPPLIED = 0x20"
definition SDC_APPLY :: u32 where "SDC_APPLY = 0x80"
definition SDC_NO_OPTIMIZATION :: u32 where "SDC_NO_OPTIMIZATION = 0x100"
definition SDC_SAVE_TO_DATABASE :: u32 where "SDC_SAVE_TO_DATABASE = 0x200"
definition SDC_ALLOW_CHANGES :: u32 where "SDC_ALLOW_CHANGES = 0x400"
definition SDC_PATH_PERSIST_IF_REQUIRED :: u32 where "SDC_PATH_PERSIST_IF_REQUIRED = 0x800"
definition ERROR_SUCCESS :: int where "ERROR_SUCCESS = 0"
definition ERROR_ACCESS_DENIED :: int where "ERROR_ACCESS_DENIED = 5"
definition ERROR_INSUFFICIENT_BUFFER :: int where "ERROR_INSUFFICIENT_BUFFER = 122"

lemmas display_consts = PATH_ACTIVE_def PATH_PRIMARY_VIEW_def MODE_INFO_TYPE_SOURCE_def ERROR_SUCCESS_def
  ERROR_ACCESS_DENIED_def ERROR_INSUFFICIENT_BUFFER_def

definition active :: "path_info \<Rightarrow> bool" where
  "active p \<longleftrightarrow> p_flags p AND PATH_ACTIVE \<noteq> 0"

text \<open>
  One pair of calls \<open>GetDisplayConfigBufferSizes\<close> and \<open>QueryDisplayConfig\<close>: whether the first
  succeeded, the result of the second and the elements it delivered.
\<close>

record query_answer =
  qa_sizes_ok :: bool
  qa_path_count :: nat
  qa_result :: int
  qa_paths :: "path_info list"
  qa_modes :: "mode_info list"

datatype display_call =
    SetDisplayConfig "path_info list" "mode_info list" u32
  | ServiceRestore "path_info list" "mode_info list" bool

section \<open>Reading the mode\<close>

datatype MultiDisplayMode = Extend | PrimaryOnly | SecondaryOnly | Duplicate | UnknownMode

definition source_key :: "path_info \<Rightarrow> string" where
  "source_key p = show_int (p_adapter_high p) @ ''_'' @ show_nat (unat (p_adapter_low p)) @ ''_''
     @ show_nat (unat (p_source_id p))"

fun count_paths :: "path_info list \<Rightarrow> nat \<Rightarrow> (string \<times> nat) list \<Rightarrow> nat \<times> (string \<times> nat) list" where
  "count_paths [] n m = (n, m)"
| "count_paths (p # ps) n m =
     (if active p then count_paths ps (n + 1)
        (AList.update (source_key p) ((case map_of m (source_key p) of Some k \<Rightarrow> k | None \<Rightarrow> 0) + 1) m)
      else count_paths ps n m)"

definition GetCurrentMultiDisplayMode :: "query_answer \<Rightarrow> MultiDisplayMode" where
  "GetCurrentMultiDisplayMode a =
     (if \<not> qa_sizes_ok a then UnknownMode
      else if qa_path_count a = 0 then UnknownMode
      else if qa_result a \<noteq> ERROR_SUCCESS then UnknownMode
      else let (active_paths, unique_sources) = count_paths (qa_paths a) 0 [] in
        if active_paths \<le> 1 then PrimaryOnly
        else if length unique_sources = 1 \<and> active_paths > 1 then Duplicate
        else if length unique_sources > 1 \<and> length unique_sources = active_paths then Extend
        else SecondaryOnly)"

definition SetMultiDisplayMode :: "MultiDisplayMode \<Rightarrow> int \<Rightarrow> bool \<times> display_call list" where
  "SetMultiDisplayMode mode os_result =
     (let flags = SDC_APPLY OR SDC_NO_OPTIMIZATION;
          go = (\<lambda>f. (os_result = ERROR_SUCCESS, [SetDisplayConfig [] [] (flags OR f)]))
      in case mode of
        Extend \<Rightarrow> go (SDC_TOPOLOGY_EXTEND OR SDC_PATH_PERSIST_IF_REQUIRED)
      | Duplicate \<Rightarrow> go SDC_TOPOLOGY_CLONE
      | PrimaryOnly \<Rightarrow> go SDC_TOPOLOGY_INTERNAL
      | SecondaryOnly \<Rightarrow> go SDC_TOPOLOGY_EXTERNAL
      | UnknownMode \<Rightarrow> (False, []))"

text \<open>\<open>VirtualDisplay::SetSystemDisplayTopology\<close> and \<open>GetSystemDisplayTopology\<close>.\<close>

datatype TopologyMode = TExtend | TDuplicate | TInternal | TExternal | TClone

definition SetSystemDisplayTopology :: "query_answer \<Rightarrow> TopologyMode \<Rightarrow> int \<Rightarrow> bool \<times> display_call list" where
  "SetSystemDisplayTopology a mode os_result =
     (if \<not> qa_sizes_ok a then (False, [])
      else if qa_result a \<noteq> ERROR_SUCCESS then (False, [])
      else let flags = SDC_APPLY OR SDC_USE_SUPPLIED;
               f = (case mode of TExtend \<Rightarrow> SDC_TOPOLOGY_EXTEND | TDuplicate \<Rightarrow> SDC_TOPOLOGY_CLONE
                    | TInternal \<Rightarrow> SDC_TOPOLOGY_INTERNAL | TExternal \<Rightarrow> SDC_TOPOLOGY_EXTERNAL
                    | TClone \<Rightarrow> SDC_TOPOLOGY_CLONE)
           in (os_result = ERROR_SUCCESS, [SetDisplayConfig (qa_paths a) (qa_modes a) (flags OR f)]))"

fun scan_topology :: "path_info list \<Rightarrow> nat \<Rightarrow> bool \<Rightarrow> nat \<times> bool" where
  "scan_topology [] n c = (n, c)"
| "scan_topology (p # ps) n c =
     (if active p then scan_topology ps (n + 1) (if p_flags p AND PATH_CLONE_GROUP_INVALID \<noteq> 0 then True else c)
      else scan_topology ps n c)"

definition GetSystemDisplayTopology :: "query_answer \<Rightarrow> TopologyMode" where
  "GetSystemDisplayTopology a =
     (if \<not> qa_sizes_ok a then TExtend
      else if qa_result a \<noteq> ERROR_SUCCESS then TExtend
      else let (active_displays, has_clone) = scan_topology (qa_paths a) 0 False in
        if active_displays \<le> 1 then TInternal else if has_clone then TDuplicate else TExtend)"

section \<open>The backup\<close>

record DisplayBackup =
  original_paths :: "path_info list"
  original_modes :: "mode_info list"
  persistent_paths :: "path_info list"
  persistent_modes :: "mode_info list"
  has_backup :: bool

definition no_backup :: DisplayBackup where
  "no_backup = \<lparr>original_paths = [], original_modes = [], persistent_paths = [], persistent_modes = [],
     has_backup = False\<rparr>"

text \<open>
  The query of \<open>SaveDisplayConfiguration\<close>: five attempts while the buffer is too small. The vectors
  it leaves are those of the last attempt that got as far as the query.
\<close>

fun query_attempts :: "nat \<Rightarrow> query_answer list \<Rightarrow> path_info list \<times> mode_info list \<Rightarrow> bool \<times> path_info list \<times> mode_info list" where
  "query_attempts 0 as v = (False, v)"
| "query_attempts (Suc n) [] v = (False, v)"
| "query_attempts (Suc n) (a # as) v =
     (if \<not> qa_sizes_ok a then (False, v)
      else let v' = (qa_paths a, qa_modes a) in
        if qa_result a = ERROR_INSUFFICIENT_BUFFER then query_attempts n as v'
        else if qa_result a \<noteq> ERROR_SUCCESS \<or> qa_paths a = [] \<or> qa_modes a = [] then (False, v')
        else (True, v'))"

definition SaveDisplayConfiguration :: "query_answer list \<Rightarrow> query_answer list \<Rightarrow> DisplayBackup \<Rightarrow> bool \<times> DisplayBackup" where
  "SaveDisplayConfiguration database now b =
     (let (ok1, ps1, ms1) = query_attempts 5 database (persistent_paths b, persistent_modes b);
          b1 = b\<lparr>persistent_paths := ps1, persistent_modes := ms1\<rparr>
      in if \<not> ok1 then (False, b1)
         else let (ok2, ps2, ms2) = query_attempts 5 now (original_paths b1, original_modes b1);
                  b2 = b1\<lparr>original_paths := ps2, original_modes := ms2\<rparr>
              in if \<not> ok2 then (False, b2) else (True, b2\<lparr>has_backup := True\<rparr>))"

text \<open>
  Applying one layout: the system call, and on a refusal the desktop service, whose status replaces
  the result when it answered.
\<close>

record apply_answer =
  aa_result :: int
  aa_service :: "int option"

definition apply_config :: "apply_answer \<Rightarrow> path_info list \<Rightarrow> mode_info list \<Rightarrow> bool \<Rightarrow> bool \<times> display_call list" where
  "apply_config a paths modes persist =
     (let call = SetDisplayConfig paths modes
            (SDC_APPLY OR SDC_USE_SUPPLIED OR SDC_ALLOW_CHANGES OR (if persist then SDC_SAVE_TO_DATABASE else 0))
      in if aa_result a = ERROR_ACCESS_DENIED then
           let r = (case aa_service a of Some s \<Rightarrow> s | None \<Rightarrow> aa_result a)
           in (r = ERROR_SUCCESS, [call, ServiceRestore paths modes persist])
         else (aa_result a = ERROR_SUCCESS, [call]))"

definition RestoreDisplayConfiguration :: "apply_answer \<Rightarrow> apply_answer \<Rightarrow> DisplayBackup \<Rightarrow> bool \<times> DisplayBackup \<times> display_call list" where
  "RestoreDisplayConfiguration a1 a2 b =
     (if \<not> has_backup b then (True, b, [])
      else let (ok1, out1) = apply_config a1 (persistent_paths b) (persistent_modes b) True in
        if \<not> ok1 then (False, b, out1)
        else let (ok2, out2) = apply_config a2 (original_paths b) (original_modes b) False in
          if \<not> ok2 then (False, b, out1 @ out2)
          else (True, b\<lparr>has_backup := False, original_paths := [], original_modes := [],
                  persistent_paths := [], persistent_modes := []\<rparr>, out1 @ out2))"

section \<open>One display only\<close>

text \<open>
  A managed display as this operation sees it, its identifier and device name. \<open>source_name\<close> is
  \<open>DisplayConfigGetDeviceInfo\<close> for the source of a path.
\<close>

type_synonym source_names = "int \<Rightarrow> u32 \<Rightarrow> u32 \<Rightarrow> string option"

definition target_by_name :: "source_names \<Rightarrow> string \<Rightarrow> path_info list \<Rightarrow> nat option" where
  "target_by_name name target ps =
     find_index (\<lambda>p. active p \<and> name (p_adapter_high p) (p_adapter_low p) (p_source_id p) = Some target) ps"

fun target_by_index :: "nat \<Rightarrow> nat \<Rightarrow> nat \<Rightarrow> path_info list \<Rightarrow> nat option" where
  "target_by_index k n i [] = None"
| "target_by_index k n i (p # ps) =
     (if active p then if n = k then Some i else target_by_index k (n + 1) (i + 1) ps
      else target_by_index k n (i + 1) ps)"

definition only_path :: "nat \<Rightarrow> path_info list \<Rightarrow> path_info list" where
  "only_path t ps = map (\<lambda>(i, p). p\<lparr>p_flags := (if i = t then PATH_ACTIVE OR PATH_PRIMARY_VIEW else 0)\<rparr>)
     (List.enumerate 0 ps)"

definition home_modes :: "nat \<Rightarrow> path_info list \<Rightarrow> mode_info list \<Rightarrow> mode_info list" where
  "home_modes t ps ms = map (\<lambda>(i, m).
     if m_infoType m = MODE_INFO_TYPE_SOURCE \<and> p_source_mode (ps ! t) = word_of_nat i
     then m\<lparr>m_x := 0, m_y := 0\<rparr> else m) (List.enumerate 0 ms)"

definition SetPrimaryDisplayOnly ::
    "query_answer list \<Rightarrow> query_answer list \<Rightarrow> query_answer \<Rightarrow> source_names \<Rightarrow> int \<Rightarrow> (int \<times> string) list \<Rightarrow> int \<Rightarrow>
     DisplayBackup \<Rightarrow> bool \<times> DisplayBackup \<times> display_call list" where
  "SetPrimaryDisplayOnly database now cur name os_result displays display_uid b =
     (if has_backup b then (False, b, [])
      else let (saved, b1) = SaveDisplayConfiguration database now b in
        if \<not> saved then (False, b1, [])
        else if \<not> qa_sizes_ok cur then (False, b1, [])
        else if qa_result cur \<noteq> ERROR_SUCCESS then (False, b1, [])
        else case find_index (\<lambda>(uid, _). uid = display_uid) displays of
          None \<Rightarrow> (False, b1, [])
        | Some d \<Rightarrow>
            let ps = qa_paths cur;
                t = (case target_by_name name (snd (displays ! d)) ps of Some i \<Rightarrow> Some i
                     | None \<Rightarrow> target_by_index d 0 0 ps)
            in case t of None \<Rightarrow> (False, b1, [])
               | Some i \<Rightarrow> (os_result = ERROR_SUCCESS, b1,
                   [SetDisplayConfig (only_path i ps) (home_modes i ps (qa_modes cur))
                      (SDC_APPLY OR SDC_USE_SUPPLIED OR SDC_ALLOW_CHANGES OR SDC_SAVE_TO_DATABASE)]))"

section \<open>The mode read is the mode that is set\<close>

definition source_of :: "path_info \<Rightarrow> int \<times> u32 \<times> u32" where
  "source_of p = (p_adapter_high p, p_adapter_low p, p_source_id p)"

lemma underscore_digit [simp]: "\<not> isdigit (CHR ''_'')"
  by (simp add: isdigit_def)

lemma no_underscore: "CHR ''_'' \<notin> set (show_int i)" "CHR ''_'' \<notin> set (show_nat n)"
proof -
  show "CHR ''_'' \<notin> set (show_int i)" using show_int_chars [of "CHR ''_''" i] by auto
  show "CHR ''_'' \<notin> set (show_nat n)" using show_nat_ok [of n] by auto
qed

definition key_of :: "int \<times> u32 \<times> u32 \<Rightarrow> string" where
  "key_of s = (case s of (h, l, i) \<Rightarrow> show_int h @ ''_'' @ show_nat (unat l) @ ''_'' @ show_nat (unat i))"

lemma source_key_of: "source_key = key_of \<circ> source_of"
  by (simp add: fun_eq_iff source_key_def key_of_def source_of_def)

lemma key_of_inj: "inj key_of"
proof (rule injI)
  fix x y assume e: "key_of x = key_of y"
  obtain h l i h' l' i' where x: "x = (h, l, i)" and y: "y = (h', l', i')" by (metis prod_cases3)
  have a: "show_int h = show_int h' \<and> show_nat (unat l) @ ''_'' @ show_nat (unat i)
      = show_nat (unat l') @ ''_'' @ show_nat (unat i')"
    using e by (intro append_sep_inj [where s = "CHR ''_''"] no_underscore) (simp_all add: key_of_def x y)
  then have b: "show_nat (unat l) = show_nat (unat l') \<and> show_nat (unat i) = show_nat (unat i')"
    by (intro append_sep_inj [where s = "CHR ''_''"] no_underscore) simp_all
  from a b have "h = h'" "unat l = unat l'" "unat i = unat i'"
    by (blast dest: show_int_inj show_nat_inj)+
  then show "x = y" by (simp add: x y word_unat_eq_iff)
qed

lemma count_paths_spec:
  assumes "count_paths ps n m = (n', m')" "distinct (map fst m)"
  shows "n' = n + length (filter active ps) \<and> distinct (map fst m')
     \<and> fst ` set m' = fst ` set m \<union> source_key ` set (filter active ps)"
  using assms
proof (induction ps arbitrary: n m)
  case Nil
  then show ?case by simp
next
  case (Cons p ps)
  show ?case
  proof (cases "active p")
    case True
    with Cons.prems have "count_paths ps (n + 1)
        (AList.update (source_key p) ((case map_of m (source_key p) of Some k \<Rightarrow> k | None \<Rightarrow> 0) + 1) m) = (n', m')"
      by simp
    from Cons.IH [OF this] Cons.prems(2) True show ?thesis
      by (simp add: distinct_update dom_update del: update.simps)
  next
    case False
    with Cons show ?thesis by simp
  qed
qed

lemma count_paths_length:
  assumes "count_paths ps 0 [] = (n, m)"
  shows "n = length (filter active ps)" "length m = card (source_of ` set (filter active ps))"
proof -
  have "distinct (map fst ([] :: (string \<times> nat) list))" by simp
  note s = count_paths_spec [OF assms this]
  then show "n = length (filter active ps)" by simp
  have d: "distinct (map fst m)" and k: "fst ` set m = source_key ` set (filter active ps)" using s by simp_all
  have "length m = card (source_key ` set (filter active ps))"
    using distinct_card [OF d] k by simp
  also have "\<dots> = card (key_of ` source_of ` set (filter active ps))"
    by (simp add: source_key_of image_comp)
  also have "\<dots> = card (source_of ` set (filter active ps))"
    by (intro card_image inj_on_subset [OF key_of_inj]) simp
  finally show "length m = card (source_of ` set (filter active ps))" .
qed

text \<open>Several active paths: one source among them means a duplicate, as many as paths means an extension.\<close>

definition active_sources :: "path_info list \<Rightarrow> (int \<times> u32 \<times> u32) list" where
  "active_sources ps = map source_of (filter active ps)"

lemma card_active_sources: "card (source_of ` set (filter active ps)) = card (set (active_sources ps))"
  by (simp add: active_sources_def)

lemma mode_unfold:
  assumes "qa_sizes_ok a" "qa_path_count a \<noteq> 0" "qa_result a = ERROR_SUCCESS"
  shows "GetCurrentMultiDisplayMode a = (let xs = active_sources (qa_paths a) in
    if length xs \<le> 1 then PrimaryOnly else if card (set xs) = 1 then Duplicate
    else if distinct xs then Extend else SecondaryOnly)"
proof -
  obtain n m where c: "count_paths (qa_paths a) 0 [] = (n, m)" by fastforce
  let ?xs = "active_sources (qa_paths a)"
  have n: "n = length ?xs" and m: "length m = card (set ?xs)"
    using count_paths_length [OF c] by (simp_all add: active_sources_def)
  have d: "distinct ?xs \<longleftrightarrow> length m = n" by (metis card_distinct distinct_card m n)
  show ?thesis
  proof (cases "n \<le> 1 \<or> length m = 1")
    case True
    then show ?thesis using assms n m by (auto simp: GetCurrentMultiDisplayMode_def c Let_def)
  next
    case False
    then have "?xs \<noteq> []" using n by auto
    then have "card (set ?xs) \<noteq> 0" by simp
    with False m have "length m > 1" by linarith
    with False show ?thesis using assms n m d by (simp add: GetCurrentMultiDisplayMode_def c Let_def)
  qed
qed

section \<open>The backup over a run\<close>

datatype backup_op =
    PrimaryOp "query_answer list" "query_answer list" query_answer source_names int "(int \<times> string) list" int
  | RestoreOp apply_answer apply_answer

fun backup_step :: "backup_op \<Rightarrow> DisplayBackup \<Rightarrow> bool \<times> DisplayBackup \<times> display_call list" where
  "backup_step (PrimaryOp database now cur name r ds uid) b = SetPrimaryDisplayOnly database now cur name r ds uid b"
| "backup_step (RestoreOp a1 a2) b = RestoreDisplayConfiguration a1 a2 b"

text \<open>The operations that run until a restoration succeeds, with what each of them called.\<close>

fun until_restored :: "backup_op list \<Rightarrow> DisplayBackup \<Rightarrow> bool \<times> DisplayBackup \<times> display_call list list" where
  "until_restored [] b = (False, b, [])"
| "until_restored (op # ops) b =
     (let (ok, b1, out) = backup_step op b in
      if ok then (True, b1, [out])
      else let (r, b2, outs) = until_restored ops b1 in (r, b2, out # outs))"

lemma Primary_refused: "has_backup b \<Longrightarrow> SetPrimaryDisplayOnly db now cur name r ds uid b = (False, b, [])"
  by (simp add: SetPrimaryDisplayOnly_def)

lemma Restore_cases:
  assumes "has_backup b" "RestoreDisplayConfiguration a1 a2 b = (ok, b', out)"
  shows "if ok then b' = no_backup else b' = b"
  using assms by (cases b) (auto simp: RestoreDisplayConfiguration_def no_backup_def Let_def split: prod.splits if_splits)

text \<open>What a layout in force is: the last call that could have set it, with its status.\<close>

definition applied :: "apply_answer \<Rightarrow> path_info list \<Rightarrow> mode_info list \<Rightarrow> bool \<Rightarrow> display_call list \<Rightarrow> bool" where
  "applied a ps ms persist out \<longleftrightarrow>
     (let direct = SetDisplayConfig ps ms
        (SDC_APPLY OR SDC_USE_SUPPLIED OR SDC_ALLOW_CHANGES OR (if persist then SDC_SAVE_TO_DATABASE else 0)) in
      aa_result a = ERROR_SUCCESS \<and> out = [direct]
      \<or> aa_result a = ERROR_ACCESS_DENIED \<and> aa_service a = Some ERROR_SUCCESS
         \<and> out = [direct, ServiceRestore ps ms persist])"

lemma apply_config_applied: "apply_config a ps ms persist = (True, out) \<Longrightarrow> applied a ps ms persist out"
  by (auto simp: apply_config_def applied_def Let_def display_consts split: if_splits option.splits)

lemma Restore_applies:
  assumes "has_backup b" "RestoreDisplayConfiguration a1 a2 b = (True, b', out)"
  shows "\<exists>o1 o2. out = o1 @ o2 \<and> applied a1 (persistent_paths b) (persistent_modes b) True o1
    \<and> applied a2 (original_paths b) (original_modes b) False o2"
proof -
  obtain ok1 o1 where 1: "apply_config a1 (persistent_paths b) (persistent_modes b) True = (ok1, o1)" by fastforce
  obtain ok2 o2 where 2: "apply_config a2 (original_paths b) (original_modes b) False = (ok2, o2)" by fastforce
  have "ok1 \<and> ok2 \<and> out = o1 @ o2"
    using assms by (auto simp: RestoreDisplayConfiguration_def 1 2 split: if_splits)
  with apply_config_applied 1 2 show ?thesis by metis
qed

section \<open>One display only\<close>

lemma target_by_index_Some:
  "target_by_index k n i ps = Some t \<Longrightarrow> i \<le> t \<and> t < i + length ps \<and> active (ps ! (t - i))"
proof (induction ps arbitrary: n i)
  case Nil
  then show ?case by simp
next
  case (Cons p ps)
  show ?case
  proof (cases "active p \<and> n = k")
    case True
    with Cons.prems show ?thesis by simp
  next
    case False
    then obtain n' where "target_by_index k n' (i + 1) ps = Some t"
      using Cons.prems by (auto split: if_splits)
    from Cons.IH [OF this] have "i + 1 \<le> t" "t < i + 1 + length ps" "active (ps ! (t - (i + 1)))" by auto
    then show ?thesis by (simp add: nth_Cons' less_diff_conv)
  qed
qed

lemma active_flags: "active (p\<lparr>p_flags := PATH_ACTIVE OR PATH_PRIMARY_VIEW\<rparr>)" "\<not> active (p\<lparr>p_flags := 0\<rparr>)"
  by (simp_all add: active_def display_consts)

lemma only_path_nth:
  "i < length ps \<Longrightarrow> only_path t ps ! i = (ps ! i)\<lparr>p_flags := (if i = t then PATH_ACTIVE OR PATH_PRIMARY_VIEW else 0)\<rparr>"
  by (simp add: only_path_def nth_enumerate_eq)

lemma only_path_length [simp]: "length (only_path t ps) = length ps"
  by (simp add: only_path_def)

lemma home_modes_length [simp]: "length (home_modes t ps ms) = length ms"
  by (simp add: home_modes_def)

lemma home_modes_nth:
  "i < length ms \<Longrightarrow> home_modes t ps ms ! i =
    (if m_infoType (ms ! i) = MODE_INFO_TYPE_SOURCE \<and> p_source_mode (ps ! t) = word_of_nat i
     then (ms ! i)\<lparr>m_x := 0, m_y := 0\<rparr> else ms ! i)"
  by (simp add: home_modes_def nth_enumerate_eq)

text \<open>The layout asked for: one path active, the others off, nothing else about the paths changed.\<close>

definition only_active :: "nat \<Rightarrow> path_info list \<Rightarrow> path_info list \<Rightarrow> bool" where
  "only_active t ps ps' \<longleftrightarrow> length ps' = length ps \<and> t < length ps \<and> active (ps ! t)
     \<and> (\<forall>i < length ps. (active (ps' ! i) \<longleftrightarrow> i = t) \<and> (ps' ! i)\<lparr>p_flags := 0\<rparr> = (ps ! i)\<lparr>p_flags := 0\<rparr>)"

lemma only_path_active: "t < length ps \<Longrightarrow> active (ps ! t) \<Longrightarrow> only_active t ps (only_path t ps)"
  by (simp add: only_active_def only_path_nth active_flags)

lemma Primary_unfold:
  assumes "SetPrimaryDisplayOnly database now cur name r displays uid b = (True, b', out)"
  shows "\<exists>d t. find_index (\<lambda>(u, _). u = uid) displays = Some d
    \<and> \<not> has_backup b \<and> SaveDisplayConfiguration database now b = (True, b')
    \<and> (target_by_name name (snd (displays ! d)) (qa_paths cur) = Some t
       \<or> target_by_name name (snd (displays ! d)) (qa_paths cur) = None \<and> target_by_index d 0 0 (qa_paths cur) = Some t)
    \<and> out = [SetDisplayConfig (only_path t (qa_paths cur)) (home_modes t (qa_paths cur) (qa_modes cur))
         (SDC_APPLY OR SDC_USE_SUPPLIED OR SDC_ALLOW_CHANGES OR SDC_SAVE_TO_DATABASE)]"
proof -
  obtain saved b1 where s: "SaveDisplayConfiguration database now b = (saved, b1)" by fastforce
  show ?thesis using assms
    by (simp add: SetPrimaryDisplayOnly_def s Let_def split: if_splits option.splits)
qed

lemma Save_has_backup: "SaveDisplayConfiguration database now b = (True, b') \<Longrightarrow> has_backup b'"
  by (auto simp: SaveDisplayConfiguration_def Let_def split: prod.splits if_splits)

section \<open>Properties\<close>

text \<open>The mode reported for a readable display configuration is exact: a single display when at most
  one path is active, duplicated when several active paths share one source, extended when every active
  path has a source of its own, and the mixed configurations in between otherwise.\<close>

theorem multi_mode_exact:
  assumes "qa_sizes_ok a" "qa_path_count a \<noteq> 0" "qa_result a = ERROR_SUCCESS"
  shows "let xs = active_sources (qa_paths a); m = GetCurrentMultiDisplayMode a in
    (m = PrimaryOnly) = (length xs \<le> 1)
    \<and> (m = Duplicate) = (2 \<le> length xs \<and> card (set xs) = 1)
    \<and> (m = Extend) = (2 \<le> length xs \<and> distinct xs)
    \<and> (m = SecondaryOnly) = (2 \<le> length xs \<and> card (set xs) \<noteq> 1 \<and> \<not> distinct xs)"
proof -
  define xs where "xs = active_sources (qa_paths a)"
  have m: "GetCurrentMultiDisplayMode a = (if length xs \<le> 1 then PrimaryOnly else if card (set xs) = 1 then Duplicate
      else if distinct xs then Extend else SecondaryOnly)"
    using mode_unfold [OF assms] by (simp add: xs_def Let_def)
  have "distinct xs \<Longrightarrow> card (set xs) = length xs" by (rule distinct_card)
  then have "\<not> length xs \<le> 1 \<Longrightarrow> card (set xs) = 1 \<Longrightarrow> \<not> distinct xs" by auto
  then show ?thesis unfolding Let_def xs_def [symmetric] m by (auto simp: not_le)
qed

definition demo_path :: "u32 \<Rightarrow> u32 \<Rightarrow> path_info" where
  "demo_path f s = \<lparr>p_flags = f, p_adapter_high = 0, p_adapter_low = 7, p_source_id = s, p_source_mode = s, p_target = 0\<rparr>"

definition demo_modes :: "mode_info list" where
  "demo_modes = [\<lparr>m_infoType = 1, m_x = -5, m_y = 0, m_rest = 0\<rparr>, \<lparr>m_infoType = 1, m_x = 100, m_y = 0, m_rest = 0\<rparr>]"

definition demo_query :: query_answer where
  "demo_query = \<lparr>qa_sizes_ok = True, qa_path_count = 2, qa_result = 0,
     qa_paths = [demo_path 1 0, demo_path 1 1], qa_modes = demo_modes\<rparr>"

theorem multi_mode_exact_witness:
  "(GetCurrentMultiDisplayMode demo_query = Extend)
     = (2 \<le> length (active_sources (qa_paths demo_query)) \<and> distinct (active_sources (qa_paths demo_query)))
   \<and> length (active_sources (qa_paths demo_query)) = 2"
proof -
  have "qa_sizes_ok demo_query" "qa_path_count demo_query \<noteq> 0" "qa_result demo_query = ERROR_SUCCESS"
    by (simp_all add: demo_query_def display_consts)
  from multi_mode_exact [OF this] show ?thesis
    by (simp add: Let_def active_sources_def demo_query_def demo_path_def active_def display_consts)
qed

text \<open>C13: a saved layout survives everything but its own restoration. While no restoration has
  succeeded, requests for a single display are refused and failed restorations change nothing; the one
  that succeeds first applies the saved default layout persistently, then the layout that was active,
  each directly or through the service, and only then forgets both.\<close>

theorem backup_restored_exactly:
  assumes "has_backup b0" "until_restored ops b0 = (restored, b, outs)"
  shows "if restored then b = no_backup
       \<and> (\<exists>a1 a2 o1 o2. RestoreOp a1 a2 \<in> set ops \<and> last outs = o1 @ o2
            \<and> applied a1 (persistent_paths b0) (persistent_modes b0) True o1
            \<and> applied a2 (original_paths b0) (original_modes b0) False o2)
     else b = b0 \<and> length outs = length ops"
  using assms(2)
proof (induction ops arbitrary: outs)
  case Nil
  then show ?case by simp
next
  case (Cons op ops)
  obtain ok b1 out where s: "backup_step op b0 = (ok, b1, out)" by (metis prod_cases3)
  have step: "if ok then b1 = no_backup \<and> (\<exists>a1 a2. op = RestoreOp a1 a2 \<and> (\<exists>o1 o2. out = o1 @ o2
      \<and> applied a1 (persistent_paths b0) (persistent_modes b0) True o1
      \<and> applied a2 (original_paths b0) (original_modes b0) False o2)) else b1 = b0"
  proof (cases op)
    case (PrimaryOp db now cur name r ds uid)
    with s Primary_refused [OF assms(1)] show ?thesis by simp
  next
    case (RestoreOp a1 a2)
    with s have r: "RestoreDisplayConfiguration a1 a2 b0 = (ok, b1, out)" by simp
    note c = Restore_cases [OF assms(1) r]
    show ?thesis
    proof (cases ok)
      case True
      with Restore_applies [OF assms(1), of a1 a2 b1 out] r c RestoreOp show ?thesis by auto
    next
      case False
      with c show ?thesis by simp
    qed
  qed
  show ?case
  proof (cases ok)
    case True
    with Cons.prems s have e: "restored = True" "b = b1" "outs = [out]" by simp_all
    from True step obtain a1 a2 o1 o2 where "op = RestoreOp a1 a2" "out = o1 @ o2" "b1 = no_backup"
      "applied a1 (persistent_paths b0) (persistent_modes b0) True o1"
      "applied a2 (original_paths b0) (original_modes b0) False o2" by auto
    with e show ?thesis by auto
  next
    case False
    obtain r b2 os where u: "until_restored ops b0 = (r, b2, os)" by (metis prod_cases3)
    with Cons.prems s step False have e: "restored = r" "b = b2" "outs = out # os" by simp_all
    note ih = Cons.IH [OF u [folded e(1,2)]]
    show ?thesis
    proof (cases restored)
      case True
      then have "os \<noteq> []" using u e(1) by (cases ops) (auto simp: Let_def split: prod.splits if_splits)
      with ih True e show ?thesis by auto
    next
      case False
      with ih e show ?thesis by simp
    qed
  qed
qed

definition demo_backup :: DisplayBackup where
  "demo_backup = snd (SaveDisplayConfiguration [demo_query] [demo_query] no_backup)"

lemma demo_has_backup: "has_backup demo_backup"
  by (simp add: demo_backup_def SaveDisplayConfiguration_def demo_query_def demo_modes_def display_consts eval_nat_numeral)

theorem backup_restored_exactly_witness:
  "let fail = \<lparr>aa_result = 1, aa_service = None\<rparr>; fine = \<lparr>aa_result = 0, aa_service = None\<rparr>;
       ops = [RestoreOp fine fail, RestoreOp fine fine]
   in fst (snd (until_restored ops demo_backup)) = no_backup"
proof -
  note h = demo_has_backup
  define ops where "ops = [RestoreOp \<lparr>aa_result = 0, aa_service = None\<rparr> \<lparr>aa_result = 1, aa_service = None\<rparr>,
    RestoreOp \<lparr>aa_result = 0, aa_service = None\<rparr> \<lparr>aa_result = 0, aa_service = None\<rparr>]"
  obtain b outs where u: "until_restored ops demo_backup = (True, b, outs)"
    using h by (simp add: ops_def RestoreDisplayConfiguration_def apply_config_def display_consts)
  from backup_restored_exactly [OF h u] have "b = no_backup" by simp
  with u show ?thesis by (simp add: ops_def)
qed


definition demo_names :: source_names where
  "demo_names _ _ s = (if s = 1 then Some ''B'' else Some ''A'')"

definition demo_displays :: "(int \<times> string) list" where
  "demo_displays = [(1024, ''A''), (3, ''B'')]"

lemma demo_saves: "\<exists>b. SaveDisplayConfiguration [demo_query] [demo_query] no_backup = (True, b)"
  by (simp add: SaveDisplayConfiguration_def no_backup_def demo_query_def demo_modes_def display_consts eval_nat_numeral)

lemma demo_selects:
  "\<exists>b' out. SetPrimaryDisplayOnly [demo_query] [demo_query] demo_query demo_names 0 demo_displays 3 no_backup = (True, b', out)"
proof -
  obtain b where s: "SaveDisplayConfiguration [demo_query] [demo_query] no_backup = (True, b)" using demo_saves by blast
  have f: "find_index (\<lambda>(uid, _). uid = 3) demo_displays = Some 1" "snd (demo_displays ! Suc 0) = ''B''"
    by (simp_all add: demo_displays_def)
  have t: "target_by_name demo_names ''B'' (qa_paths demo_query) = Some 1"
    by (simp add: target_by_name_def demo_names_def demo_query_def demo_path_def active_def display_consts)
  have q: "qa_sizes_ok demo_query" "qa_result demo_query = ERROR_SUCCESS" "\<not> has_backup no_backup"
    by (simp_all add: demo_query_def display_consts no_backup_def)
  show ?thesis unfolding SetPrimaryDisplayOnly_def
    by (simp add: s f t q Let_def ERROR_SUCCESS_def [symmetric])
qed


text \<open>A request that fails after the layout was saved keeps the backup, so the next one is refused
  without a call, although nothing was changed.\<close>

lemma failed_request_locks:
  assumes "\<not> has_backup b" "SaveDisplayConfiguration database now b = (True, b1)"
    and "find_index (\<lambda>(u, _). u = uid) displays = None"
  shows "SetPrimaryDisplayOnly database now cur name r displays uid b = (False, b1, [])
    \<and> SetPrimaryDisplayOnly database' now' cur' name' r' displays' uid' b1 = (False, b1, [])"
  using assms Save_has_backup [OF assms(2)] by (simp add: SetPrimaryDisplayOnly_def)

text \<open>\<open>DISPLAYCONFIG_PATH_CLONE_GROUP_INVALID\<close> is not a flag but an all-ones group number, so every
  active path passes the test for it and an extended desktop is never recognised.\<close>

lemma scan_topology_spec:
  "scan_topology ps n c = (n + length (filter active ps), c \<or> filter active ps \<noteq> [])"
proof (induction ps arbitrary: n c)
  case Nil
  then show ?case by simp
next
  case (Cons p ps)
  have "bit (p_flags p) 0" if "active p" using that by (simp add: active_def PATH_ACTIVE_def and_one_eq odd_iff_mod_2_eq_one bit_0 split: if_splits)
  then have "p_flags p AND PATH_CLONE_GROUP_INVALID \<noteq> 0" if "active p"
    using that bit_and_iff [of "p_flags p" PATH_CLONE_GROUP_INVALID 0] bit_0_eq
    by (auto simp: PATH_CLONE_GROUP_INVALID_def bit_0)
  with Cons show ?case by simp
qed

lemma topology_never_extend:
  assumes "qa_sizes_ok a" "qa_result a = ERROR_SUCCESS"
  shows "GetSystemDisplayTopology a = (if length (filter active (qa_paths a)) \<le> 1 then TInternal else TDuplicate)"
  using assms by (auto simp: GetSystemDisplayTopology_def scan_topology_spec Let_def)

end
