(* ===== verification/VddDevice.thy ===== *)
theory VddDevice
  imports Prelude
begin

text \<open>
  The driver helpers of \<open>windows/parsec-vdd.h\<close>: the status query over the present devices, opening
  the first interface that can be opened, and the control codes with their 32-byte input buffer. The
  device tree and the answers of the driver are parameters; an invalid handle is \<open>None\<close>.
\<close>

section \<open>Driver status\<close>

datatype DeviceStatus = DEVICE_OK | DEVICE_INACCESSIBLE | DEVICE_UNKNOWN | DEVICE_UNKNOWN_PROBLEM
  | DEVICE_DISABLED | DEVICE_DRIVER_ERROR | DEVICE_RESTART_REQUIRED | DEVICE_DISABLED_SERVICE | DEVICE_NOT_INSTALLED

definition CM_PROB_NEED_RESTART :: u32 where "CM_PROB_NEED_RESTART = 0x0E"
definition CM_PROB_DISABLED :: u32 where "CM_PROB_DISABLED = 0x16"
definition CM_PROB_HARDWARE_DISABLED :: u32 where "CM_PROB_HARDWARE_DISABLED = 0x1D"
definition CM_PROB_DISABLED_SERVICE :: u32 where "CM_PROB_DISABLED_SERVICE = 0x20"
definition CM_PROB_FAILED_POST_START :: u32 where "CM_PROB_FAILED_POST_START = 0x2B"

text \<open>\<open>DN_DRIVER_LOADED | DN_STARTED\<close> and \<open>DN_HAS_PROBLEM\<close>.\<close>

definition DN_RUNNING :: u32 where "DN_RUNNING = 0x2 OR 0x8"
definition DN_HAS_PROBLEM :: u32 where "DN_HAS_PROBLEM = 0x400"

text \<open>
  One present device: its hardware identifiers, \<open>None\<close> when the property is missing or cannot be read,
  whether it is of a string type, and its status and problem, \<open>None\<close> when they cannot be read.
\<close>

record device =
  dev_ids :: "string list option"
  dev_is_string :: bool
  dev_status :: "(u32 \<times> u32) option"

definition status_of :: "(u32 \<times> u32) option \<Rightarrow> DeviceStatus" where
  "status_of st = (case st of None \<Rightarrow> DEVICE_NOT_INSTALLED
     | Some (devStatus, problem) \<Rightarrow>
         if devStatus AND DN_RUNNING \<noteq> 0 then DEVICE_OK
         else if devStatus AND DN_HAS_PROBLEM \<noteq> 0 then
           (if problem = CM_PROB_NEED_RESTART then DEVICE_RESTART_REQUIRED
            else if problem = CM_PROB_DISABLED \<or> problem = CM_PROB_HARDWARE_DISABLED then DEVICE_DISABLED
            else if problem = CM_PROB_DISABLED_SERVICE then DEVICE_DISABLED_SERVICE
            else if problem = CM_PROB_FAILED_POST_START then DEVICE_DRIVER_ERROR
            else DEVICE_UNKNOWN_PROBLEM)
         else DEVICE_UNKNOWN)"

text \<open>The walk over the devices: the status so far and whether a device with the identifier was found.\<close>

fun walk_devices :: "string \<Rightarrow> device list \<Rightarrow> DeviceStatus \<Rightarrow> DeviceStatus \<times> bool" where
  "walk_devices ident [] st = (st, False)"
| "walk_devices ident (d # ds) st =
     (case dev_ids d of None \<Rightarrow> walk_devices ident ds st
      | Some ids \<Rightarrow>
          if \<not> dev_is_string d then walk_devices ident ds st
          else if ident \<in> set ids then (status_of (dev_status d), True)
          else walk_devices ident ds DEVICE_NOT_INSTALLED)"

text \<open>\<open>info\<close> is the device list, \<open>None\<close> when it cannot be obtained.\<close>

definition QueryDeviceStatus :: "device list option \<Rightarrow> u32 \<Rightarrow> string \<Rightarrow> DeviceStatus" where
  "QueryDeviceStatus info last_error ident =
     (case info of None \<Rightarrow> DEVICE_INACCESSIBLE
      | Some ds \<Rightarrow> let (st, found) = walk_devices ident ds DEVICE_INACCESSIBLE in
          if \<not> found \<and> last_error \<noteq> 0 then DEVICE_NOT_INSTALLED else st)"

lemma walk_devices_ok:
  "st \<noteq> DEVICE_OK \<Longrightarrow> fst (walk_devices ident ds st) = DEVICE_OK \<Longrightarrow>
   snd (walk_devices ident ds st) \<and> (\<exists>d \<in> set ds. \<exists>ids. dev_ids d = Some ids \<and> dev_is_string d \<and> ident \<in> set ids
     \<and> status_of (dev_status d) = DEVICE_OK)"
  by (induction ds arbitrary: st) (auto split: option.splits if_splits)

text \<open>\<open>OpenDeviceHandle\<close>: each interface with the handle that opening it gives, \<open>None\<close> when its detail or
  the file cannot be obtained. The search ends with the first that opens.\<close>

fun OpenDeviceHandle :: "nat option list \<Rightarrow> nat option" where
  "OpenDeviceHandle [] = None"
| "OpenDeviceHandle (h # hs) = (case h of Some v \<Rightarrow> Some v | None \<Rightarrow> OpenDeviceHandle hs)"

section \<open>Control codes\<close>

datatype VddCtlCode = VDD_IOCTL_ADD | VDD_IOCTL_REMOVE | VDD_IOCTL_UPDATE | VDD_IOCTL_VERSION

text \<open>The input buffer: the first bytes of the data, zero to its end.\<close>

definition in_buffer :: "u8 list \<Rightarrow> u8 list" where
  "in_buffer data = take 32 (data @ replicate 32 0)"

text \<open>
  The result is the driver's word, or -1 when there is no handle or the driver does not answer in
  time; the calls are what the driver is sent.
\<close>

definition VddIoControl :: "nat option \<Rightarrow> VddCtlCode \<Rightarrow> u8 list \<Rightarrow> u32 option \<Rightarrow> u32 \<times> (VddCtlCode \<times> u8 list) list" where
  "VddIoControl vdd code data reply =
     (case vdd of None \<Rightarrow> (- 1, [])
      | Some _ \<Rightarrow> (case reply of Some w \<Rightarrow> w | None \<Rightarrow> - 1, [(code, in_buffer data)]))"

definition VddUpdate :: "nat option \<Rightarrow> (VddCtlCode \<times> u8 list) list" where
  "VddUpdate vdd = snd (VddIoControl vdd VDD_IOCTL_UPDATE [] (Some 0))"

definition VddVersion :: "nat option \<Rightarrow> u32 option \<Rightarrow> int" where
  "VddVersion vdd reply = sint (fst (VddIoControl vdd VDD_IOCTL_VERSION [] reply))"

definition VddAddDisplay :: "nat option \<Rightarrow> u32 option \<Rightarrow> int \<times> (VddCtlCode \<times> u8 list) list" where
  "VddAddDisplay vdd reply =
     (let (idx, out) = VddIoControl vdd VDD_IOCTL_ADD [] reply in (sint idx, out @ VddUpdate vdd))"

text \<open>The index with its bytes swapped, copied low byte first.\<close>

definition index_data :: "int \<Rightarrow> u16" where
  "index_data index = (let i = word_of_int index :: u32 in
     ucast (push_bit 8 (i AND 0xFF) OR (drop_bit 8 i AND 0xFF)))"

definition VddRemoveDisplay :: "nat option \<Rightarrow> int \<Rightarrow> (VddCtlCode \<times> u8 list) list" where
  "VddRemoveDisplay vdd index =
     snd (VddIoControl vdd VDD_IOCTL_REMOVE (le16 (index_data index)) (Some 0)) @ VddUpdate vdd"

lemma index_data_bytes:
  "le16 (index_data index) = [ucast (drop_bit 8 (word_of_int index :: u32)), ucast (word_of_int index :: u32)]"
proof -
  define i :: u32 where "i = word_of_int index"
  have m: "(0xFF :: u32) = mask 8" by (simp add: mask_eq_exp_minus_1)
  have d: "index_data index = ucast (push_bit 8 (i AND mask 8) OR (drop_bit 8 i AND mask 8))"
    by (simp add: index_data_def Let_def i_def m)
  have "ucast (index_data index) = (ucast (drop_bit 8 i) :: u8)"
    unfolding d by (rule bit_word_eqI) (auto simp: bit_simps)
  moreover have "ucast (drop_bit 8 (index_data index)) = (ucast i :: u8)"
    unfolding d by (rule bit_word_eqI) (auto simp: bit_simps)
  ultimately show ?thesis unfolding le16_def i_def by simp
qed

lemma in_buffer_pad: "length data \<le> 32 \<Longrightarrow> in_buffer data = data @ replicate (32 - length data) 0"
  by (simp add: in_buffer_def)

text \<open>The driver receives the index as two bytes, the high byte first.\<close>

lemma index_bytes:
  assumes "0 \<le> index" "index < 2 ^ 16"
  shows "le16 (index_data index) = [word_of_int (index div 256), word_of_int index]"
proof -
  have r: "uint (word_of_int index :: u32) = index"
    using assms by (simp add: uint_word_of_int)
  have "uint (drop_bit 8 (word_of_int index :: u32)) = index div 256"
    by (simp only: unsigned_drop_bit_eq r) (use assms in \<open>simp add: drop_bit_eq_div take_bit_eq_mod\<close>)
  then show ?thesis unfolding index_data_bytes by (simp only: ucast_eq r)
qed

lemma remove_request:
  assumes "0 \<le> index" "index < 2 ^ 16"
  shows "VddRemoveDisplay (Some h) index =
    [(VDD_IOCTL_REMOVE, [word_of_int (index div 256), word_of_int index] @ replicate 30 0),
     (VDD_IOCTL_UPDATE, replicate 32 0)]"
  by (simp add: VddRemoveDisplay_def VddIoControl_def VddUpdate_def in_buffer_pad index_bytes [OF assms])

end
