(* ===== verification/Displays.thy ===== *)
theory Displays
  imports DisplayTopology ControlChannel VddDevice Coords "HOL-Library.List_Lexorder" "HOL-Library.Char_ord"
begin

text \<open>
  The displays the plugin manages: \<open>windows/virtual_display.cc\<close> and the enumeration, creation,
  removal and settings of \<open>windows/virtual_display_control.cc\<close>, with the console switch and the
  registry list of custom configurations. The device enumeration, the display settings, the sessions,
  the registry and the driver are parameters; the system calls that change something are returned in
  order. Names are taken as their UTF-8 text, on which the conversions to wide strings and back are
  the identity. \<open>std::sort\<close> is the stable sort that a short vector gets.
\<close>

section \<open>The outside world\<close>

record devmode =
  dmPelsWidth :: u32
  dmPelsHeight :: u32
  dmDisplayFrequency :: u32
  dmDisplayOrientation :: u32
  dmX :: int
  dmY :: int

record monitor_device =
  mon_DeviceID :: string
  mon_StateFlags :: u32

record adapter_device =
  ad_DeviceName :: string
  ad_StateFlags :: u32
  ad_monitors :: "monitor_device list"

text \<open>
  \<open>dw_registry\<close> is the number of monitor paths with the value of each, \<open>dw_device\<close> what the
  configuration manager knows of a path: its arrival time and its description where readable.
  \<open>dw_modes\<close> lists what \<open>EnumDisplaySettings\<close> delivers from index 0 on.
\<close>

record display_world =
  dw_registry :: "(nat \<times> (nat \<Rightarrow> string option)) option"
  dw_adapters :: "adapter_device list"
  dw_current :: "string \<Rightarrow> devmode option"
  dw_modes :: "string \<Rightarrow> devmode list"
  dw_device :: "string \<Rightarrow> (u64 option \<times> string option) option"
  dw_monitors :: "(string \<times> rect \<times> bool) option list"
  dw_junk_time :: u64

definition DEVICE_ACTIVE :: u32 where "DEVICE_ACTIVE = 0x1"
definition DEVICE_ATTACHED :: u32 where "DEVICE_ATTACHED = 0x2"
definition DEVICE_PRIMARY :: u32 where "DEVICE_PRIMARY = 0x4"

definition has_flag :: "u32 \<Rightarrow> u32 \<Rightarrow> bool" where
  "has_flag w f \<longleftrightarrow> w AND f \<noteq> 0"

section \<open>Names and addresses\<close>

definition GetDisplayPaths :: "display_world \<Rightarrow> string list" where
  "GetDisplayPaths w =
     (case dw_registry w of None \<Rightarrow> []
      | Some (count, val) \<Rightarrow> List.map_filter (\<lambda>i. case val i of None \<Rightarrow> None
          | Some s \<Rightarrow> Some (if s \<noteq> [] \<and> last s = CHR 0x00 then butlast s else s)) [0..<count])"

fun prefix_of :: "string \<Rightarrow> string \<Rightarrow> bool" where
  "prefix_of [] s = True"
| "prefix_of (c # p) [] = False"
| "prefix_of (c # p) (d # s) = (c = d \<and> prefix_of p s)"

text \<open>\<open>std::string::find\<close>: what follows the first occurrence.\<close>

fun after_first :: "string \<Rightarrow> string \<Rightarrow> string option" where
  "after_first p [] = (if p = [] then Some [] else None)"
| "after_first p (c # s) = (if prefix_of p (c # s) then Some (drop (length p) (c # s)) else after_first p s)"

definition ParseDisplayAddress :: "string \<Rightarrow> int" where
  "ParseDisplayAddress path =
     (case after_first ''UID'' path of None \<Rightarrow> 0
      | Some s \<Rightarrow> let ds = takeWhile isdigit s in
          if ds = [] then 0 else if int (digits_val ds) \<le> 2147483647 then int (digits_val ds) else 0)"

fun split_hash :: "string \<Rightarrow> string list" where
  "split_hash [] = [[]]"
| "split_hash (c # s) = (if c = CHR ''#'' then [] # split_hash s
     else (case split_hash s of [] \<Rightarrow> [[c]] | t # ts \<Rightarrow> (c # t) # ts))"

definition ParseDisplayCode :: "string \<Rightarrow> string" where
  "ParseDisplayCode ident = (let tok = split_hash ident in if 2 \<le> length tok then tok ! 1 else tok ! 0)"

definition VDD_DISPLAY_ID :: string where "VDD_DISPLAY_ID = ''PSCCDD0''"

section \<open>One display\<close>

record DisplayInfo =
  di_active :: bool
  di_is_virtual :: bool
  di_display_uid :: int
  di_raw_screen_id :: int
  di_device_name :: string
  di_display_name :: string
  di_description :: string
  di_last_arrival :: u64
  di_rect :: rect
  di_is_primary :: bool

record VirtualDisplay =
  vd_config :: DisplayConfig
  vd_info :: DisplayInfo
  vd_uid :: int
  vd_config_list :: "DisplayConfig list"
  vd_orientation :: u32

datatype system_call =
    ChangeDisplaySettingsEx string devmode "string list"
  | vdd_request VddCtlCode "u8 list"
  | topology_call display_call
  | run_tscon string
  | close_vdd nat

definition mode_config :: "devmode \<Rightarrow> DisplayConfig" where
  "mode_config m = \<lparr>dcf_width = sint (dmPelsWidth m), dcf_height = sint (dmPelsHeight m),
     dcf_refresh_rate = sint (dmDisplayFrequency m)\<rparr>"

definition zero_mode :: devmode where
  "zero_mode = \<lparr>dmPelsWidth = 0, dmPelsHeight = 0, dmDisplayFrequency = 0, dmDisplayOrientation = 0, dmX = 0, dmY = 0\<rparr>"

text \<open>\<open>ok\<close> is whether the system accepts the change.\<close>

definition VirtualDisplay_ChangeDisplaySettings :: "bool \<Rightarrow> DisplayConfig \<Rightarrow> VirtualDisplay \<Rightarrow> bool \<times> system_call list" where
  "VirtualDisplay_ChangeDisplaySettings ok c d =
     (ok, [ChangeDisplaySettingsEx (di_device_name (vd_info d))
        (zero_mode\<lparr>dmPelsWidth := word_of_int (dcf_width c), dmPelsHeight := word_of_int (dcf_height c),
           dmDisplayFrequency := word_of_int (dcf_refresh_rate c)\<rparr>)
        [''DM_PELSWIDTH'', ''DM_PELSHEIGHT'', ''DM_DISPLAYFREQUENCY'']])"

definition config_key :: "DisplayConfig \<Rightarrow> int list" where
  "config_key c = [dcf_width c, dcf_height c, dcf_refresh_rate c]"

definition FetchAllDisplayConfigs :: "display_world \<Rightarrow> VirtualDisplay \<Rightarrow> VirtualDisplay" where
  "FetchAllDisplayConfigs w d =
     (let n = di_device_name (vd_info d) in
      case dw_current w n of None \<Rightarrow> d\<lparr>vd_config_list := []\<rparr>
      | Some m \<Rightarrow> d\<lparr>vd_config := mode_config m, vd_orientation := dmDisplayOrientation m,
          vd_config_list := sort_key config_key (map mode_config (dw_modes w n))\<rparr>)"

fun primary_flag :: "string \<Rightarrow> adapter_device list \<Rightarrow> bool option" where
  "primary_flag n [] = None"
| "primary_flag n (a # as) = (if ad_DeviceName a = n then Some (has_flag (ad_StateFlags a) DEVICE_PRIMARY) else primary_flag n as)"

fun monitor_of :: "string \<Rightarrow> (string \<times> rect \<times> bool) option list \<Rightarrow> (rect \<times> bool) option" where
  "monitor_of n [] = None"
| "monitor_of n (m # ms) = (case m of Some (n', r, p) \<Rightarrow> if n' = n then Some (r, p) else monitor_of n ms
     | None \<Rightarrow> monitor_of n ms)"

definition UpdateDisplayBounds :: "display_world \<Rightarrow> VirtualDisplay \<Rightarrow> VirtualDisplay" where
  "UpdateDisplayBounds w d =
     (let i = vd_info d; n = di_device_name i in
      case dw_current w n of
        Some m \<Rightarrow>
          let i1 = i\<lparr>di_rect := \<lparr>r_left = dmX m, r_top = dmY m, r_right = dmX m + sint (dmPelsWidth m),
                 r_bottom = dmY m + sint (dmPelsHeight m)\<rparr>\<rparr>
          in d\<lparr>vd_info := (case primary_flag n (dw_adapters w) of Some p \<Rightarrow> i1\<lparr>di_is_primary := p\<rparr> | None \<Rightarrow> i1)\<rparr>
      | None \<Rightarrow> (case monitor_of n (dw_monitors w) of
            Some (r, p) \<Rightarrow> d\<lparr>vd_info := i\<lparr>di_rect := r, di_is_primary := p\<rparr>\<rparr>
          | None \<Rightarrow> d))"

definition GetDisplayConfigList :: "display_world \<Rightarrow> VirtualDisplay \<Rightarrow> DisplayConfig list \<times> VirtualDisplay" where
  "GetDisplayConfigList w d = (let d1 = FetchAllDisplayConfigs w d in (vd_config_list d1, d1))"

definition is_portrait :: "u32 \<Rightarrow> bool" where
  "is_portrait o1 \<longleftrightarrow> o1 = 1 \<or> o1 = 3"

definition SetOrientation :: "display_world \<Rightarrow> bool \<Rightarrow> u32 \<Rightarrow> VirtualDisplay \<Rightarrow> bool \<times> VirtualDisplay \<times> system_call list" where
  "SetOrientation w ok orientation d =
     (if vd_orientation d = orientation then (True, d, [])
      else let n = di_device_name (vd_info d) in
      case dw_current w n of None \<Rightarrow> (False, d, [])
      | Some m \<Rightarrow>
          let m1 = m\<lparr>dmDisplayOrientation := orientation\<rparr>;
              m2 = (if is_portrait (vd_orientation d) \<noteq> is_portrait orientation
                    then m1\<lparr>dmPelsWidth := dmPelsHeight m, dmPelsHeight := dmPelsWidth m\<rparr>
                    else m1\<lparr>dmPelsWidth := dmPelsWidth m, dmPelsHeight := dmPelsHeight m\<rparr>);
              call = ChangeDisplaySettingsEx n m2 [''DM_DISPLAYORIENTATION'', ''DM_PELSWIDTH'', ''DM_PELSHEIGHT'']
          in if ok then (True, d\<lparr>vd_orientation := orientation\<rparr>, [call]) else (False, d, [call]))"

section \<open>Enumeration\<close>

definition hash_slashes :: "string \<Rightarrow> string" where
  "hash_slashes p = map (\<lambda>c. if c = CHR 0x5C then CHR ''#'' else c) p"

definition contains_str :: "string \<Rightarrow> string \<Rightarrow> bool" where
  "contains_str s p \<longleftrightarrow> after_first p s \<noteq> None"

fun match_path :: "string \<Rightarrow> string list \<Rightarrow> string option" where
  "match_path device_id [] = None"
| "match_path device_id (p # ps) =
     (if contains_str device_id (hash_slashes p) then Some p else match_path device_id ps)"

text \<open>The display built for a monitor on the adapter with index \<open>ai\<close>.\<close>

definition build_info :: "display_world \<Rightarrow> nat \<Rightarrow> adapter_device \<Rightarrow> monitor_device \<Rightarrow> string \<Rightarrow> DisplayInfo" where
  "build_info w ai a m path =
     \<lparr>di_active = has_flag (ad_StateFlags a) DEVICE_ACTIVE,
      di_is_virtual = (ParseDisplayCode (mon_DeviceID m) = VDD_DISPLAY_ID),
      di_display_uid = ParseDisplayAddress path, di_raw_screen_id = int ai,
      di_device_name = ad_DeviceName a, di_display_name = ParseDisplayCode (mon_DeviceID m),
      di_description = (case dw_device w path of Some (_, Some s) \<Rightarrow> s | _ \<Rightarrow> []),
      di_last_arrival = (case dw_device w path of None \<Rightarrow> dw_junk_time w
         | Some (arr, _) \<Rightarrow> (case arr of Some t \<Rightarrow> t | None \<Rightarrow> 0)),
      di_rect = \<lparr>r_left = 0, r_top = 0, r_right = 0, r_bottom = 0\<rparr>, di_is_primary = False\<rparr>"

definition build_display :: "display_world \<Rightarrow> nat \<Rightarrow> adapter_device \<Rightarrow> monitor_device \<Rightarrow> string \<Rightarrow> VirtualDisplay" where
  "build_display w ai a m path =
     (let d = build_info w ai a m path;
          cur = dw_current w (ad_DeviceName a);
          config = (case cur of Some dm \<Rightarrow> mode_config dm
             | None \<Rightarrow> \<lparr>dcf_width = 0, dcf_height = 0, dcf_refresh_rate = 0\<rparr>);
          orient = (case cur of Some dm \<Rightarrow> dmDisplayOrientation dm | None \<Rightarrow> 0);
          uid = (if di_is_virtual d then di_display_uid d - 256 else di_display_uid d + 1024)
      in UpdateDisplayBounds w \<lparr>vd_config = config, vd_info = d, vd_uid = uid, vd_config_list = [],
           vd_orientation = orient\<rparr>)"

fun scan_monitors :: "display_world \<Rightarrow> string list \<Rightarrow> nat \<Rightarrow> adapter_device \<Rightarrow> monitor_device list
    \<Rightarrow> (string \<times> VirtualDisplay) list \<Rightarrow> (string \<times> VirtualDisplay) list" where
  "scan_monitors w paths ai a [] acc = acc"
| "scan_monitors w paths ai a (m # ms) acc =
     (if \<not> has_flag (mon_StateFlags m) DEVICE_ATTACHED then scan_monitors w paths ai a ms acc
      else case match_path (mon_DeviceID m) paths of
        None \<Rightarrow> scan_monitors w paths ai a ms acc
      | Some path \<Rightarrow>
          if map_of acc path \<noteq> None then scan_monitors w paths ai a ms acc
          else scan_monitors w paths ai a ms (oput path (build_display w ai a m path) acc))"

fun scan_adapters :: "display_world \<Rightarrow> string list \<Rightarrow> nat \<Rightarrow> adapter_device list
    \<Rightarrow> (string \<times> VirtualDisplay) list \<Rightarrow> (string \<times> VirtualDisplay) list" where
  "scan_adapters w paths ai [] acc = acc"
| "scan_adapters w paths ai (a # as) acc =
     scan_adapters w paths (ai + 1) as (scan_monitors w paths ai a (ad_monitors a) acc)"

definition arrival :: "VirtualDisplay \<Rightarrow> u64" where
  "arrival d = di_last_arrival (vd_info d)"

definition GetAllDisplays :: "display_world \<Rightarrow> VirtualDisplay list" where
  "GetAllDisplays w = sort_key arrival (map snd (scan_adapters w (GetDisplayPaths w) 0 (dw_adapters w) []))"

section \<open>The controller\<close>

record VddState =
  vs_initialized :: bool
  vs_handle :: "nat option"
  vs_displays :: "VirtualDisplay list"
  vs_backup :: DisplayBackup

definition init_vdd :: VddState where
  "init_vdd = \<lparr>vs_initialized = False, vs_handle = None, vs_displays = [], vs_backup = no_backup\<rparr>"

definition find_display :: "int \<Rightarrow> VddState \<Rightarrow> nat option" where
  "find_display uid s = find_index (\<lambda>d. vd_uid d = uid) (vs_displays s)"

text \<open>\<open>worlds\<close> is what each attempt to enumerate finds; the second result counts the attempts.\<close>

fun await_display :: "nat \<Rightarrow> nat \<Rightarrow> nat \<Rightarrow> (nat \<Rightarrow> display_world) \<Rightarrow> VirtualDisplay list \<Rightarrow> VirtualDisplay list \<times> nat" where
  "await_display 0 k prev worlds ds = (ds, k)"
| "await_display (Suc n) k prev worlds ds =
     (let ds1 = GetAllDisplays (worlds k) in
      if prev < length ds1 then (ds1, k + 1) else await_display n (k + 1) prev worlds ds1)"

definition AddDisplay :: "u32 option \<Rightarrow> (nat \<Rightarrow> display_world) \<Rightarrow> VddState \<Rightarrow> int \<times> VddState \<times> system_call list" where
  "AddDisplay driver worlds s =
     (if \<not> vs_initialized s \<or> vs_handle s = None then (-1, s, [])
      else let (vdd_index, out) = VddAddDisplay (vs_handle s) driver;
               calls = map (\<lambda>(c, b). vdd_request c b) out
           in if 0 \<le> vdd_index
              then (vdd_index, s\<lparr>vs_displays := fst (await_display 5 0 (length (vs_displays s)) worlds (vs_displays s))\<rparr>, calls)
              else (-1, s, calls))"

definition RemoveDisplay :: "int \<Rightarrow> VddState \<Rightarrow> bool \<times> VddState \<times> system_call list" where
  "RemoveDisplay display_uid s =
     (if \<not> vs_initialized s \<or> vs_handle s = None then (False, s, [])
      else case find_display display_uid s of None \<Rightarrow> (False, s, [])
      | Some i \<Rightarrow>
          if \<not> di_is_virtual (vd_info (vs_displays s ! i)) then (False, s, [])
          else (True, s\<lparr>vs_displays := take i (vs_displays s) @ drop (i + 1) (vs_displays s)\<rparr>,
                map (\<lambda>(c, b). vdd_request c b) (VddRemoveDisplay (vs_handle s) display_uid)))"

definition GetDisplayCount :: "VddState \<Rightarrow> nat" where
  "GetDisplayCount s = length (vs_displays s)"

definition GetDisplayList :: "VddState \<Rightarrow> int list" where
  "GetDisplayList s = map vd_uid (vs_displays s)"

definition ChangeDisplaySettings :: "bool \<Rightarrow> int \<Rightarrow> DisplayConfig \<Rightarrow> VddState \<Rightarrow> bool \<times> system_call list" where
  "ChangeDisplaySettings ok display_uid config s =
     (case find_display display_uid s of None \<Rightarrow> (False, [])
      | Some i \<Rightarrow> VirtualDisplay_ChangeDisplaySettings ok config (vs_displays s ! i))"

definition GetDisplayConfigs :: "display_world \<Rightarrow> int \<Rightarrow> VddState \<Rightarrow> DisplayConfig list \<times> VddState" where
  "GetDisplayConfigs w display_uid s =
     (case find_display display_uid s of None \<Rightarrow> ([], s)
      | Some i \<Rightarrow> let (cs, d) = GetDisplayConfigList w (vs_displays s ! i)
          in (cs, s\<lparr>vs_displays := (vs_displays s)[i := d]\<rparr>))"

definition SetDisplayOrientation :: "display_world \<Rightarrow> bool \<Rightarrow> int \<Rightarrow> u32 \<Rightarrow> VddState \<Rightarrow> bool \<times> VddState \<times> system_call list" where
  "SetDisplayOrientation w ok display_uid orientation s =
     (case find_display display_uid s of None \<Rightarrow> (False, s, [])
      | Some i \<Rightarrow> let (r, d, out) = SetOrientation w ok orientation (vs_displays s ! i)
          in (r, s\<lparr>vs_displays := (vs_displays s)[i := d]\<rparr>, out))"

definition GetDisplayOrientation :: "int \<Rightarrow> VddState \<Rightarrow> u32" where
  "GetDisplayOrientation display_uid s =
     (case find_display display_uid s of None \<Rightarrow> 0 | Some i \<Rightarrow> vd_orientation (vs_displays s ! i))"

record DetailedDisplayInfo =
  ddi_index :: nat
  ddi_config :: DisplayConfig
  ddi_info :: DisplayInfo
  ddi_uid :: int
  ddi_orientation :: u32

definition GetDetailedDisplayList :: "display_world \<Rightarrow> VddState \<Rightarrow> DetailedDisplayInfo list \<times> VddState" where
  "GetDetailedDisplayList w s =
     (let ds = GetAllDisplays w in
      (map (\<lambda>(i, d). \<lparr>ddi_index = i, ddi_config = vd_config d, ddi_info = vd_info d, ddi_uid = vd_uid d,
          ddi_orientation = vd_orientation d\<rparr>) (List.enumerate 0 ds), s\<lparr>vs_displays := ds\<rparr>))"

section \<open>The console session\<close>

datatype session_state = WTSActive | WTSDisconnected | WTSOther

record session =
  ses_id :: u32
  ses_state :: session_state
  ses_user :: "string option"
  ses_protocol :: "u16 option"
  ses_station :: "string option"

definition HasActiveDisplay :: "adapter_device list \<Rightarrow> bool" where
  "HasActiveDisplay as \<longleftrightarrow> list_ex (\<lambda>a. has_flag (ad_StateFlags a) DEVICE_ACTIVE) as"

fun scan_sessions :: "session list \<Rightarrow> u32 \<Rightarrow> u32 \<times> u32" where
  "scan_sessions [] firstUser = (0, firstUser)"
| "scan_sessions (s # ss) firstUser =
     (let sid = ses_id s in
      if sid = 0 then scan_sessions ss firstUser
      else if \<not> (case ses_user s of Some u \<Rightarrow> u \<noteq> [] | None \<Rightarrow> False) then scan_sessions ss firstUser
      else let f = (if firstUser = 0 then sid else firstUser) in
        if ses_state s = WTSDisconnected then (sid, f) else scan_sessions ss f)"

definition FindTargetSession :: "session list option \<Rightarrow> u32" where
  "FindTargetSession sessions =
     (case sessions of None \<Rightarrow> 0
      | Some ss \<Rightarrow> let (chosen, firstUser) = scan_sessions ss 0 in if chosen \<noteq> 0 then chosen else firstUser)"

definition is_rdp :: "session \<Rightarrow> bool" where
  "is_rdp s \<longleftrightarrow> ses_state s = WTSActive \<and> (ses_protocol s = Some 2
     \<or> (case ses_station s of Some n \<Rightarrow> prefix_of ''RDP-'' n | None \<Rightarrow> False))"

definition HasActiveRdpSession :: "session list option \<Rightarrow> bool" where
  "HasActiveRdpSession sessions = (case sessions of None \<Rightarrow> False | Some ss \<Rightarrow> list_ex is_rdp ss)"

text \<open>The directory \<open>GetSystemDirectory\<close> finds, whether the process starts and its exit code.\<close>

record tscon_answer =
  tc_directory :: "string option"
  tc_started :: bool
  tc_exit_code :: u32

definition RunTscon :: "tscon_answer \<Rightarrow> u32 \<Rightarrow> bool \<times> system_call list" where
  "RunTscon t sid =
     (case tc_directory t of None \<Rightarrow> (False, [])
      | Some dir \<Rightarrow>
          if \<not> tc_started t then (False, [])
          else (tc_exit_code t = 0, [run_tscon (''tscon.exe '' @ show_nat (unat sid) @ '' /dest:console'')]))"

record console_world =
  cw_adapters :: "adapter_device list"
  cw_sessions :: "session list option"
  cw_console :: u32
  cw_sessions_rdp :: "session list option"
  cw_tscon :: tscon_answer

definition EnsureConsoleForDisplay :: "console_world \<Rightarrow> bool \<times> system_call list" where
  "EnsureConsoleForDisplay w =
     (if HasActiveDisplay (cw_adapters w) then (True, [])
      else let target = FindTargetSession (cw_sessions w) in
        if target = 0 then (False, [])
        else if cw_console w = target then (True, [])
        else if HasActiveRdpSession (cw_sessions_rdp w) then (False, [])
        else RunTscon (cw_tscon w) target)"

section \<open>Start and shutdown\<close>

text \<open>The detached thread that keeps the displays alive sends only update requests and is not modelled.\<close>

definition Initialize :: "console_world \<Rightarrow> DeviceStatus \<Rightarrow> nat option list \<Rightarrow> VddState \<Rightarrow> bool \<times> VddState \<times> system_call list" where
  "Initialize cw status interfaces s =
     (if vs_initialized s then (True, s, [])
      else let out = snd (EnsureConsoleForDisplay cw) in
        if status = DEVICE_NOT_INSTALLED \<or> status = DEVICE_DISABLED then (False, s, out)
        else let s1 = s\<lparr>vs_handle := OpenDeviceHandle interfaces\<rparr> in
          if vs_handle s1 = None then (False, s1, out)
          else (True, s1\<lparr>vs_initialized := True, vs_displays := []\<rparr>,
             out @ [vdd_request VDD_IOCTL_VERSION (replicate 32 0)]))"

definition Shutdown :: "apply_answer \<Rightarrow> apply_answer \<Rightarrow> VddState \<Rightarrow> VddState \<times> system_call list" where
  "Shutdown a1 a2 s =
     (let (ok, b, calls) = RestoreDisplayConfiguration a1 a2 (vs_backup s);
          s1 = s\<lparr>vs_backup := b\<rparr>; out = map topology_call calls
      in if \<not> ok then (s1, out)
         else if \<not> vs_initialized s1 then (s1, out)
         else (s1\<lparr>vs_handle := None, vs_initialized := False, vs_displays := []\<rparr>,
               out @ concat (map (\<lambda>d. map (\<lambda>(c, b). vdd_request c b) (VddRemoveDisplay (vs_handle s1) (vd_uid d))) (vs_displays s1))
               @ (case vs_handle s1 of Some h \<Rightarrow> [close_vdd h] | None \<Rightarrow> [])))"

definition CheckVddStatus :: "DeviceStatus \<Rightarrow> bool" where
  "CheckVddStatus status \<longleftrightarrow> status = DEVICE_OK"

section \<open>Custom configurations in the registry\<close>

text \<open>
  The subkeys of the driver's key: the values width, height and hz of each index, \<open>None\<close> when the
  subkey does not exist; a value is \<open>None\<close> when it cannot be read.
\<close>

type_synonym vdd_registry = "nat \<Rightarrow> (u32 option \<times> u32 option \<times> u32 option) option"

definition read_subkey :: "(u32 option \<times> u32 option \<times> u32 option) option \<Rightarrow> DisplayConfig option" where
  "read_subkey k = (case k of Some (Some width, Some height, Some hz) \<Rightarrow>
       Some \<lparr>dcf_width = sint width, dcf_height = sint height, dcf_refresh_rate = sint hz\<rparr> | _ \<Rightarrow> None)"

definition RegGetCustomDisplayConfigs :: "bool \<Rightarrow> vdd_registry \<Rightarrow> DisplayConfig list" where
  "RegGetCustomDisplayConfigs opened reg =
     (if \<not> opened then [] else List.map_filter (\<lambda>i. read_subkey (reg i)) [0..<5])"

text \<open>\<open>created i\<close> is whether the subkey can be created, \<open>deleted i\<close> whether it could be deleted.\<close>

fun write_subkeys :: "nat list \<Rightarrow> (nat \<Rightarrow> bool) \<Rightarrow> (nat \<Rightarrow> bool) \<Rightarrow> DisplayConfig list \<Rightarrow> vdd_registry \<Rightarrow> bool \<times> vdd_registry" where
  "write_subkeys [] created deleted configs reg = (True, reg)"
| "write_subkeys (i # is) created deleted configs reg =
     (if length configs \<le> i then
        write_subkeys is created deleted configs (if deleted i then reg(i := None) else reg)
      else if created i then
        let c = configs ! i in
        write_subkeys is created deleted configs (reg(i := Some (Some (word_of_int (dcf_width c)),
          Some (word_of_int (dcf_height c)), Some (word_of_int (dcf_refresh_rate c)))))
      else (False, reg))"

definition RegSetCustomDisplayConfigs ::
    "bool \<Rightarrow> (nat \<Rightarrow> bool) \<Rightarrow> (nat \<Rightarrow> bool) \<Rightarrow> DisplayConfig list \<Rightarrow> vdd_registry \<Rightarrow> bool \<times> vdd_registry" where
  "RegSetCustomDisplayConfigs opened created deleted configs reg =
     (if \<not> opened then (False, reg) else write_subkeys [0, 1, 2, 3, 4] created deleted configs reg)"

section \<open>What the enumeration delivers\<close>

text \<open>The registry path a monitor stands for, when it is attached and has one.\<close>

definition monitor_path :: "string list \<Rightarrow> monitor_device \<Rightarrow> string option" where
  "monitor_path paths m = (if has_flag (mon_StateFlags m) DEVICE_ATTACHED then match_path (mon_DeviceID m) paths else None)"

lemma scan_monitors_step:
  "scan_monitors w paths ai a (m # ms) acc = scan_monitors w paths ai a ms
     (case monitor_path paths m of None \<Rightarrow> acc
      | Some path \<Rightarrow> if map_of acc path \<noteq> None then acc else oput path (build_display w ai a m path) acc)"
  by (auto simp: monitor_path_def split: option.splits)

declare scan_monitors.simps(2) [simp del]

definition scanned :: "display_world \<Rightarrow> string list \<Rightarrow> nat \<Rightarrow> adapter_device list \<Rightarrow> string \<Rightarrow> VirtualDisplay \<Rightarrow> bool" where
  "scanned w paths ai as path d \<longleftrightarrow> (\<exists>k < length as. \<exists>m \<in> set (ad_monitors (as ! k)).
     monitor_path paths m = Some path \<and> d = build_display w (ai + k) (as ! k) m path)"

lemma scan_monitors_spec:
  assumes "okeys acc" "acc' = scan_monitors w paths ai a ms acc"
  shows "okeys acc' \<and> fst ` set acc' = fst ` set acc \<union> {p. \<exists>m \<in> set ms. monitor_path paths m = Some p}
    \<and> (\<forall>(p, d) \<in> set acc'. (p, d) \<in> set acc \<or> (\<exists>m \<in> set ms. monitor_path paths m = Some p \<and> d = build_display w ai a m p))"
  using assms
proof (induction ms arbitrary: acc)
  case Nil
  then show ?case by auto
next
  case (Cons m ms)
  define acc1 where "acc1 = (case monitor_path paths m of None \<Rightarrow> acc
      | Some path \<Rightarrow> if map_of acc path \<noteq> None then acc else oput path (build_display w ai a m path) acc)"
  have put: "set (oput p d acc) \<subseteq> insert (p, d) (set acc)" for p d
    by (induction acc rule: oput.induct [of _ p d]) auto
  have ok1: "okeys acc1" using Cons.prems(1) by (auto simp: acc1_def okeys_oput split: option.splits)
  have k1: "fst ` set acc1 = fst ` set acc \<union> {p. monitor_path paths m = Some p}"
    by (auto simp: acc1_def set_oput split: option.splits) (metis domI dom_map_of_conv_image_fst)
  have b1: "\<forall>(p, d) \<in> set acc1. (p, d) \<in> set acc \<or> monitor_path paths m = Some p \<and> d = build_display w ai a m p"
    using put by (auto simp: acc1_def split: option.splits if_splits)
  have "acc' = scan_monitors w paths ai a ms acc1"
    using Cons.prems(2) by (simp add: scan_monitors_step acc1_def)
  note ih = Cons.IH [OF ok1 this]
  show ?case
  proof (intro conjI)
    show "okeys acc'" using ih by blast
    show "fst ` set acc' = fst ` set acc \<union> {p. \<exists>m \<in> set (m # ms). monitor_path paths m = Some p}"
      using ih k1 by auto
    show "\<forall>(p, d) \<in> set acc'. (p, d) \<in> set acc
        \<or> (\<exists>m \<in> set (m # ms). monitor_path paths m = Some p \<and> d = build_display w ai a m p)"
      using ih b1 by fastforce
  qed
qed

lemma scan_adapters_spec:
  assumes "okeys acc" "acc' = scan_adapters w paths ai as acc"
  shows "okeys acc' \<and> fst ` set acc' = fst ` set acc \<union> {p. \<exists>a \<in> set as. \<exists>m \<in> set (ad_monitors a). monitor_path paths m = Some p}
    \<and> (\<forall>(p, d) \<in> set acc'. (p, d) \<in> set acc \<or> scanned w paths ai as p d)"
  using assms
proof (induction as arbitrary: acc ai)
  case Nil
  then show ?case by auto
next
  case (Cons a as)
  define acc1 where "acc1 = scan_monitors w paths ai a (ad_monitors a) acc"
  note m = scan_monitors_spec [OF Cons.prems(1) acc1_def]
  have "acc' = scan_adapters w paths (ai + 1) as acc1" using Cons.prems(2) by (simp add: acc1_def)
  note ih = Cons.IH [OF conjunct1 [OF m] this]
  have s0: "scanned w paths ai (a # as) p d" if "m \<in> set (ad_monitors a)" "monitor_path paths m = Some p"
    "d = build_display w ai a m p" for m p d
    using that unfolding scanned_def by (intro exI [of _ 0]) auto
  have s1: "scanned w paths ai (a # as) p d" if "scanned w paths (ai + 1) as p d" for p d
  proof -
    from that obtain k m where "k < length as" "m \<in> set (ad_monitors (as ! k))" "monitor_path paths m = Some p"
      "d = build_display w (ai + 1 + k) (as ! k) m p" by (auto simp: scanned_def)
    then show ?thesis unfolding scanned_def by (intro exI [of _ "Suc k"]) auto
  qed
  show ?case
  proof (intro conjI)
    show "okeys acc'" using ih by blast
    show "fst ` set acc' = fst ` set acc \<union> {p. \<exists>a \<in> set (a # as). \<exists>m \<in> set (ad_monitors a). monitor_path paths m = Some p}"
      using ih m by auto
    show "\<forall>(p, d) \<in> set acc'. (p, d) \<in> set acc \<or> scanned w paths ai (a # as) p d"
      using ih m s0 s1 by fastforce
  qed
qed

lemma build_display_fields:
  "di_is_virtual (vd_info (build_display w ai a m p)) = (ParseDisplayCode (mon_DeviceID m) = VDD_DISPLAY_ID)"
  "di_display_uid (vd_info (build_display w ai a m p)) = ParseDisplayAddress p"
  "vd_uid (build_display w ai a m p) = (if ParseDisplayCode (mon_DeviceID m) = VDD_DISPLAY_ID
     then ParseDisplayAddress p - 256 else ParseDisplayAddress p + 1024)"
  by (auto simp: build_display_def UpdateDisplayBounds_def build_info_def Let_def split: option.splits)

lemma ParseDisplayAddress_nonneg: "0 \<le> ParseDisplayAddress p"
  by (simp add: ParseDisplayAddress_def Let_def split: option.splits)

lemma GetAllDisplays_set: "set (GetAllDisplays w) = snd ` set (scan_adapters w (GetDisplayPaths w) 0 (dw_adapters w) [])"
  by (simp add: GetAllDisplays_def)

lemma GetAllDisplays_scanned:
  assumes "d \<in> set (GetAllDisplays w)"
  shows "\<exists>p. scanned w (GetDisplayPaths w) 0 (dw_adapters w) p d"
  using assms scan_adapters_spec [of "[]", OF _ refl, of w "GetDisplayPaths w" 0 "dw_adapters w"]
  unfolding GetAllDisplays_set by (fastforce simp: okeys_def)

lemma GetAllDisplays_length:
  "length (GetAllDisplays w) = card {p. \<exists>a \<in> set (dw_adapters w). \<exists>m \<in> set (ad_monitors a). monitor_path (GetDisplayPaths w) m = Some p}"
proof -
  let ?r = "scan_adapters w (GetDisplayPaths w) 0 (dw_adapters w) []"
  have s: "okeys ?r" "fst ` set ?r = {p. \<exists>a \<in> set (dw_adapters w). \<exists>m \<in> set (ad_monitors a). monitor_path (GetDisplayPaths w) m = Some p}"
    using scan_adapters_spec [of "[]", OF _ refl, of w "GetDisplayPaths w" 0 "dw_adapters w"] by (simp_all add: okeys_def)
  from s(1) have "distinct (map fst ?r)" by (simp add: okeys_def strict_sorted_iff)
  then have "length ?r = card (fst ` set ?r)" using distinct_card [of "map fst ?r"] by simp
  with s(2) show ?thesis by (simp add: GetAllDisplays_def)
qed

section \<open>The session brought to the console\<close>

definition user_session :: "session \<Rightarrow> bool" where
  "user_session s \<longleftrightarrow> ses_id s \<noteq> 0 \<and> (case ses_user s of Some u \<Rightarrow> u \<noteq> [] | None \<Rightarrow> False)"

lemma scan_sessions_skip: "\<not> user_session s \<Longrightarrow> scan_sessions (s # ss) f = scan_sessions ss f"
  by (auto simp: user_session_def Let_def)

lemma scan_sessions_user:
  "user_session s \<Longrightarrow> scan_sessions (s # ss) f = (let f' = (if f = 0 then ses_id s else f) in
     if ses_state s = WTSDisconnected then (ses_id s, f') else scan_sessions ss f')"
  by (simp add: user_session_def Let_def)

declare scan_sessions.simps(2) [simp del]

text \<open>The first user session that is disconnected, otherwise the first user session.\<close>

lemma scan_sessions_spec:
  "scan_sessions ss f =
    (case filter (\<lambda>s. user_session s \<and> ses_state s = WTSDisconnected) ss of [] \<Rightarrow> 0 | s # _ \<Rightarrow> ses_id s,
     if f \<noteq> 0 then f else case filter user_session ss of [] \<Rightarrow> 0 | s # _ \<Rightarrow> ses_id s)"
proof (induction ss arbitrary: f)
  case Nil
  then show ?case by simp
next
  case (Cons s ss)
  show ?case
  proof (cases "user_session s")
    case True
    then have "ses_id s \<noteq> 0" by (simp add: user_session_def)
    with True Cons.IH show ?thesis by (simp add: scan_sessions_user Let_def)
  next
    case False
    with Cons.IH show ?thesis by (simp add: scan_sessions_skip)
  qed
qed

lemma FindTargetSession_Some:
  assumes "FindTargetSession (Some ss) = t" "t \<noteq> 0"
  shows "\<exists>s \<in> set ss. user_session s \<and> ses_id s = t
    \<and> ((\<exists>s' \<in> set ss. user_session s' \<and> ses_state s' = WTSDisconnected) \<longrightarrow> ses_state s = WTSDisconnected)"
proof (cases "filter (\<lambda>s. user_session s \<and> ses_state s = WTSDisconnected) ss")
  case Nil
  then have none: "\<not> (\<exists>s' \<in> set ss. user_session s' \<and> ses_state s' = WTSDisconnected)" by (auto simp: filter_empty_conv)
  from Nil assms obtain s ys where f: "filter user_session ss = s # ys" "ses_id s = t"
    by (auto simp: FindTargetSession_def scan_sessions_spec split: list.splits)
  then have "s \<in> set ss" "user_session s" by (auto dest!: filter_eq_ConsD)
  with f(2) none show ?thesis by blast
next
  case (Cons s ys)
  then have s: "s \<in> set ss" "user_session s" "ses_state s = WTSDisconnected" by (auto dest!: filter_eq_ConsD)
  then have "ses_id s \<noteq> 0" by (simp add: user_session_def)
  with Cons assms have "ses_id s = t" by (simp add: FindTargetSession_def scan_sessions_spec)
  with s show ?thesis by blast
qed

section \<open>Properties\<close>


definition demo_world :: display_world where
  "demo_world = \<lparr>dw_registry = Some (2, \<lambda>i. Some (if i = 0 then ''A#PSCCDD0#UID257'' else ''A#DELL#UID0'')),
     dw_adapters = [\<lparr>ad_DeviceName = ''D1'', ad_StateFlags = 5, ad_monitors = [\<lparr>mon_DeviceID = ''A#PSCCDD0#UID257'', mon_StateFlags = 3\<rparr>]\<rparr>,
       \<lparr>ad_DeviceName = ''D2'', ad_StateFlags = 1, ad_monitors = [\<lparr>mon_DeviceID = ''A#DELL#UID0'', mon_StateFlags = 2\<rparr>]\<rparr>],
     dw_current = (\<lambda>_. None), dw_modes = (\<lambda>_. []), dw_device = (\<lambda>p. Some (Some (if p = ''A#DELL#UID0'' then 5 else 9), None)),
     dw_monitors = [], dw_junk_time = 0\<rparr>"

lemma demo_world_uids: "map vd_uid (GetAllDisplays demo_world) = [1024, 1]"
  by code_simp

lemma demo_world_kinds: "map (\<lambda>d. di_is_virtual (vd_info d)) (GetAllDisplays demo_world) = [False, True]"
  by code_simp

lemma demo_world_addresses: "map (\<lambda>d. di_display_uid (vd_info d)) (GetAllDisplays demo_world) = [0, 257]"
  by code_simp


text \<open>C35: a removal succeeds only for a managed virtual display: exactly that display leaves the list,
  the driver is sent its index, high byte first, then one update; any other request changes nothing and
  sends nothing.\<close>

theorem remove_display_exact:
  assumes "RemoveDisplay uid s = (ok, s', out)" "0 \<le> uid" "uid < 2 ^ 16"
  shows "if ok then vs_initialized s \<and> (\<exists>xs d ys. vs_displays s = xs @ d # ys \<and> vs_displays s' = xs @ ys
       \<and> vd_uid d = uid \<and> di_is_virtual (vd_info d) \<and> (\<forall>x \<in> set xs. vd_uid x \<noteq> uid)
       \<and> out = [vdd_request VDD_IOCTL_REMOVE ([word_of_int (uid div 256), word_of_int uid] @ replicate 30 0),
                vdd_request VDD_IOCTL_UPDATE (replicate 32 0)])
     else s' = s \<and> out = []"
proof (cases "vs_initialized s \<and> vs_handle s \<noteq> None")
  case False
  with assms(1) show ?thesis by (auto simp: RemoveDisplay_def)
next
  case True
  then obtain h where h: "vs_handle s = Some h" by blast
  show ?thesis
  proof (cases "find_display uid s")
    case None
    with True assms(1) show ?thesis by (auto simp: RemoveDisplay_def)
  next
    case (Some i)
    from find_index_Some [OF Some [unfolded find_display_def]]
    have i: "i < length (vs_displays s)" "vd_uid (vs_displays s ! i) = uid"
      "\<forall>j < i. vd_uid (vs_displays s ! j) \<noteq> uid" by simp_all
    show ?thesis
    proof (cases "di_is_virtual (vd_info (vs_displays s ! i))")
      case False
      with True Some assms(1) show ?thesis by (auto simp: RemoveDisplay_def)
    next
      case virt: True
      have "\<forall>x \<in> set (take i (vs_displays s)). vd_uid x \<noteq> uid" using i by (auto simp: in_set_conv_nth)
      moreover have "vs_displays s = take i (vs_displays s) @ vs_displays s ! i # drop (i + 1) (vs_displays s)"
        using i by (simp add: id_take_nth_drop)
      moreover have "ok" "vs_displays s' = take i (vs_displays s) @ drop (i + 1) (vs_displays s)"
        "out = [vdd_request VDD_IOCTL_REMOVE ([word_of_int (uid div 256), word_of_int uid] @ replicate 30 0),
                vdd_request VDD_IOCTL_UPDATE (replicate 32 0)]"
        using True Some assms(1) virt h by (auto simp: RemoveDisplay_def remove_request [OF assms(2,3)])
      ultimately show ?thesis using True virt i(2) by metis
    qed
  qed
qed

definition demo_display :: VirtualDisplay where
  "demo_display = \<lparr>vd_config = \<lparr>dcf_width = 1, dcf_height = 1, dcf_refresh_rate = 1\<rparr>,
     vd_info = \<lparr>di_active = True, di_is_virtual = True, di_display_uid = 259, di_raw_screen_id = 0, di_device_name = [],
       di_display_name = [], di_description = [], di_last_arrival = 0,
       di_rect = \<lparr>r_left = 0, r_top = 0, r_right = 1, r_bottom = 1\<rparr>, di_is_primary = False\<rparr>,
     vd_uid = 3, vd_config_list = [], vd_orientation = 0\<rparr>"

theorem remove_display_exact_witness:
  "RemoveDisplay 3 (init_vdd\<lparr>vs_initialized := True, vs_handle := Some 7, vs_displays := [demo_display]\<rparr>)
     = (True, init_vdd\<lparr>vs_initialized := True, vs_handle := Some 7\<rparr>,
        [vdd_request VDD_IOCTL_REMOVE ([0, 3] @ replicate 30 0), vdd_request VDD_IOCTL_UPDATE (replicate 32 0)])"
proof -
  let ?s = "init_vdd\<lparr>vs_initialized := True, vs_handle := Some 7, vs_displays := [demo_display]\<rparr>"
  obtain ok s' out where r: "RemoveDisplay 3 ?s = (ok, s', out)" by (metis prod_cases3)
  have "ok \<and> s' = init_vdd\<lparr>vs_initialized := True, vs_handle := Some 7\<rparr>"
    using r by (simp add: RemoveDisplay_def find_display_def demo_display_def init_vdd_def)
  with remove_display_exact [OF r] have "out = [vdd_request VDD_IOCTL_REMOVE ([0, 3] @ replicate 30 0),
    vdd_request VDD_IOCTL_UPDATE (replicate 32 0)]" by auto
  with r \<open>ok \<and> s' = _\<close> show ?thesis by simp
qed

text \<open>The console is switched at most once per request and only when it helps and harms nobody: no
  display is active, the chosen session belongs to a logged-on user (a disconnected one if there is
  one), it is not on the console already, and no remote desktop session is active.\<close>

theorem console_switch_guarded:
  assumes "EnsureConsoleForDisplay w = (ok, out)"
  shows "out = [] \<or> (\<exists>ss s. cw_sessions w = Some ss \<and> s \<in> set ss \<and> user_session s
      \<and> ((\<exists>s' \<in> set ss. user_session s' \<and> ses_state s' = WTSDisconnected) \<longrightarrow> ses_state s = WTSDisconnected)
      \<and> out = [run_tscon (''tscon.exe '' @ show_nat (unat (ses_id s)) @ '' /dest:console'')]
      \<and> ses_id s \<noteq> cw_console w \<and> \<not> HasActiveDisplay (cw_adapters w)
      \<and> \<not> HasActiveRdpSession (cw_sessions_rdp w) \<and> ok = (tc_exit_code (cw_tscon w) = 0))"
proof (cases "HasActiveDisplay (cw_adapters w) \<or> FindTargetSession (cw_sessions w) = 0
    \<or> cw_console w = FindTargetSession (cw_sessions w) \<or> HasActiveRdpSession (cw_sessions_rdp w)")
  case True
  with assms show ?thesis by (auto simp: EnsureConsoleForDisplay_def Let_def split: if_splits)
next
  case False
  then obtain ss where ss: "cw_sessions w = Some ss" by (auto simp: FindTargetSession_def split: option.splits)
  with False have "FindTargetSession (Some ss) \<noteq> 0" by auto
  from FindTargetSession_Some [OF refl this] obtain s where
    s: "s \<in> set ss" "user_session s" "ses_id s = FindTargetSession (Some ss)"
    "(\<exists>s' \<in> set ss. user_session s' \<and> ses_state s' = WTSDisconnected) \<longrightarrow> ses_state s = WTSDisconnected" by blast
  from False assms have "RunTscon (cw_tscon w) (ses_id s) = (ok, out)"
    by (simp add: EnsureConsoleForDisplay_def Let_def ss s(3))
  with False ss s show ?thesis by (auto simp: RunTscon_def split: option.splits if_splits)
qed

definition demo_console :: console_world where
  "demo_console = \<lparr>cw_adapters = [], cw_sessions = Some [\<lparr>ses_id = 2, ses_state = WTSDisconnected, ses_user = Some ''u'',
       ses_protocol = None, ses_station = None\<rparr>], cw_console = 1, cw_sessions_rdp = Some [],
     cw_tscon = \<lparr>tc_directory = Some ''S'', tc_started = True, tc_exit_code = 0\<rparr>\<rparr>"

theorem console_switch_guarded_witness:
  "fst (EnsureConsoleForDisplay demo_console) \<and> ses_id (hd (the (cw_sessions demo_console))) \<noteq> cw_console demo_console"
proof -
  have "EnsureConsoleForDisplay demo_console = (True, [run_tscon (''tscon.exe '' @ show_nat 2 @ '' /dest:console'')])"
    by (simp add: demo_console_def EnsureConsoleForDisplay_def HasActiveDisplay_def FindTargetSession_def
        scan_sessions_user user_session_def HasActiveRdpSession_def RunTscon_def Let_def)
  from console_switch_guarded [OF this] this show ?thesis by (auto simp: demo_console_def)
qed

text \<open>C36: shutting down restores the layout before anything else. When the restoration fails the
  displays, the handle and the backup stay as they were for another attempt and the driver is sent
  nothing; when it succeeds an initialised controller sends one removal and one update per display, in
  the order of the list, closes its handle, and is left with neither displays nor a backup.\<close>

theorem shutdown_restores_first:
  assumes "Shutdown a1 a2 s = (s', out)" "RestoreDisplayConfiguration a1 a2 (vs_backup s) = (ok, b, calls)"
  shows "if \<not> ok then s' = s \<and> out = map topology_call calls
    else \<not> has_backup b
      \<and> (if vs_initialized s then s' = s\<lparr>vs_backup := b, vs_handle := None, vs_initialized := False, vs_displays := []\<rparr>
           \<and> out = map topology_call calls
              @ concat (map (\<lambda>d. map (\<lambda>(c, b). vdd_request c b) (VddRemoveDisplay (vs_handle s) (vd_uid d))) (vs_displays s))
              @ (case vs_handle s of Some h \<Rightarrow> [close_vdd h] | None \<Rightarrow> [])
         else s' = s\<lparr>vs_backup := b\<rparr> \<and> out = map topology_call calls)"
proof -
  have b: "if ok then \<not> has_backup b else b = vs_backup s"
  proof (cases "has_backup (vs_backup s)")
    case True
    from Restore_cases [OF True assms(2)] show ?thesis by (auto simp: no_backup_def split: if_splits)
  next
    case False
    with assms(2) show ?thesis by (simp add: RestoreDisplayConfiguration_def)
  qed
  have same: "s\<lparr>vs_backup := vs_backup s\<rparr> = s" by simp
  show ?thesis
  proof (cases ok)
    case True
    with assms b show ?thesis by (cases "vs_initialized s") (auto simp: Shutdown_def Let_def)
  next
    case False
    with assms b same show ?thesis by (auto simp: Shutdown_def Let_def)
  qed
qed

theorem shutdown_restores_first_witness:
  "fst (Shutdown \<lparr>aa_result = 0, aa_service = None\<rparr> \<lparr>aa_result = 0, aa_service = None\<rparr>
      (init_vdd\<lparr>vs_initialized := True, vs_handle := Some 7, vs_displays := [demo_display], vs_backup := demo_backup\<rparr>))
   = init_vdd"
proof -
  define a where "a = \<lparr>aa_result = 0, aa_service = None\<rparr>"
  define s where "s = init_vdd\<lparr>vs_initialized := True, vs_handle := Some 7, vs_displays := [demo_display], vs_backup := demo_backup\<rparr>"
  obtain s' out where e: "Shutdown a a s = (s', out)" by fastforce
  obtain ok b calls where r: "RestoreDisplayConfiguration a a demo_backup = (ok, b, calls)" by (metis prod_cases3)
  have ok using r demo_has_backup
    by (simp add: RestoreDisplayConfiguration_def apply_config_def a_def display_consts)
  moreover from this Restore_cases [OF demo_has_backup r] have "b = no_backup" by simp
  moreover have "RestoreDisplayConfiguration a a (vs_backup s) = (ok, b, calls)" using r by (simp add: s_def)
  ultimately have "s' = init_vdd"
    using shutdown_restores_first [OF e, of ok b calls] by (simp add: s_def init_vdd_def)
  with e show ?thesis by (simp add: a_def s_def)
qed

text \<open>The configurations written to the registry are the ones read back, up to the five it holds.\<close>

lemma write_subkeys_spec:
  assumes "\<forall>i \<in> set is. i < length cs \<longrightarrow> created i" "\<forall>i \<in> set is. length cs \<le> i \<longrightarrow> deleted i \<or> reg i = None" "distinct is"
  shows "fst (write_subkeys is created deleted cs reg) \<and> (\<forall>i. read_subkey (snd (write_subkeys is created deleted cs reg) i)
    = (if i \<in> set is then if i < length cs then Some \<lparr>dcf_width = sint (word_of_int (dcf_width (cs ! i)) :: u32),
         dcf_height = sint (word_of_int (dcf_height (cs ! i)) :: u32),
         dcf_refresh_rate = sint (word_of_int (dcf_refresh_rate (cs ! i)) :: u32)\<rparr> else None else read_subkey (reg i)))"
  using assms
proof (induction "is" arbitrary: reg)
  case Nil
  then show ?case by simp
next
  case (Cons k "is")
  define reg1 where "reg1 = (if length cs \<le> k then (if deleted k then reg(k := None) else reg)
    else reg(k := Some (Some (word_of_int (dcf_width (cs ! k))), Some (word_of_int (dcf_height (cs ! k))),
      Some (word_of_int (dcf_refresh_rate (cs ! k))))))"
  have w: "write_subkeys (k # is) created deleted cs reg = write_subkeys is created deleted cs reg1"
    using Cons.prems by (simp add: reg1_def Let_def)
  have "fst (write_subkeys is created deleted cs reg1) \<and> (\<forall>i. read_subkey (snd (write_subkeys is created deleted cs reg1) i)
    = (if i \<in> set is then if i < length cs then Some \<lparr>dcf_width = sint (word_of_int (dcf_width (cs ! i)) :: u32),
         dcf_height = sint (word_of_int (dcf_height (cs ! i)) :: u32),
         dcf_refresh_rate = sint (word_of_int (dcf_refresh_rate (cs ! i)) :: u32)\<rparr> else None else read_subkey (reg1 i)))"
    using Cons.prems by (intro Cons.IH) (auto simp: reg1_def)
  moreover have "read_subkey (reg1 i) = (if i = k then if i < length cs then Some \<lparr>dcf_width = sint (word_of_int (dcf_width (cs ! i)) :: u32),
         dcf_height = sint (word_of_int (dcf_height (cs ! i)) :: u32),
         dcf_refresh_rate = sint (word_of_int (dcf_refresh_rate (cs ! i)) :: u32)\<rparr> else None else read_subkey (reg i))" for i
    using Cons.prems(2) by (auto simp: reg1_def read_subkey_def)
  ultimately show ?case unfolding w by simp
qed

lemma map_filter_upto: "List.map_filter (\<lambda>i. if i < n then Some (g i) else None) [0..<m] = map g [0..<min n m]"
proof (induction m)
  case 0
  then show ?case by (simp add: List.map_filter_def)
next
  case (Suc m)
  have "min n (Suc m) = (if m < n then Suc m else min n m)" by simp
  moreover have "m < n \<Longrightarrow> min n m = m" by simp
  ultimately show ?case using Suc by (simp add: List.map_filter_def)
qed

lemma map_filter_same: "(\<And>x. x \<in> set xs \<Longrightarrow> f x = g x) \<Longrightarrow> List.map_filter f xs = List.map_filter g xs"
  by (induction xs) (simp_all add: List.map_filter_def)

lemma registry_roundtrip:
  assumes "\<forall>i < 5. created i \<and> deleted i" "\<forall>c \<in> set cs. fits c"
  shows "RegGetCustomDisplayConfigs True (snd (RegSetCustomDisplayConfigs True created deleted cs reg)) = take 5 cs"
proof -
  let ?reg = "snd (RegSetCustomDisplayConfigs True created deleted cs reg)"
  have s: "read_subkey (?reg i) = (if i < length cs then Some (cs ! i) else None)" if "i < 5" for i
  proof -
    have m: "i \<in> set [0, 1, 2, 3, 4]" using that by auto
    have k: "fits (cs ! i)" if "i < length cs" using assms(2) that by simp
    have e: "\<lparr>dcf_width = sint (word_of_int (dcf_width c) :: u32), dcf_height = sint (word_of_int (dcf_height c) :: u32),
         dcf_refresh_rate = sint (word_of_int (dcf_refresh_rate c) :: u32)\<rparr> = c" if "fits c" for c
      using that by (cases c) (auto simp: fits_def IsValidConfig_def signed_of_int signed_take_bit_int_eq_self)
    show ?thesis
      using write_subkeys_spec [of "[0, 1, 2, 3, 4]" cs created deleted reg] assms(1) m e k
      by (auto simp: RegSetCustomDisplayConfigs_def)
  qed
  have "RegGetCustomDisplayConfigs True ?reg = List.map_filter (\<lambda>i. if i < length cs then Some (cs ! i) else None) [0..<5]"
    unfolding RegGetCustomDisplayConfigs_def using s by (auto intro: map_filter_same)
  also have "\<dots> = take 5 cs" unfolding map_filter_upto by (rule nth_equalityI) (auto simp: min_def split: if_splits)
  finally show ?thesis .
qed

text \<open>A display whose device node cannot be found is ordered by whatever its arrival time happens to hold.\<close>

lemma missing_device_ordered_by_junk:
  "dw_device w p = None \<Longrightarrow> arrival (build_display w ai a m p) = dw_junk_time w"
  by (auto simp: arrival_def build_display_def UpdateDisplayBounds_def build_info_def Let_def split: option.splits)

end
