(* ===== verification/CursorImage.thy ===== *)
theory CursorImage
  imports Coords Floats
begin

text \<open>
  The cursor picture of \<open>windows/cursor_monitor.cc\<close> and the snapshots of
  \<open>windows/cursor_position_snapshot.h\<close> and \<open>windows/cursor_visibility_snapshot.h\<close>: converting a
  cursor's bitmaps into premultiplied pixels with an outline, hashing them, and the bytes of the
  frame and of the position sent to a viewer. The bitmaps, cursor handles and screen queries of
  Windows are parameters. The machine is little-endian.
\<close>

section \<open>Pixels\<close>

text \<open>A pixel is an \<open>RGBQUAD\<close>: blue, green, red and alpha from the low byte up.\<close>

definition px_blue :: "u32 \<Rightarrow> u8" where "px_blue p = ucast p"
definition px_green :: "u32 \<Rightarrow> u8" where "px_green p = ucast (drop_bit 8 p)"
definition px_red :: "u32 \<Rightarrow> u8" where "px_red p = ucast (drop_bit 16 p)"
definition px_alpha :: "u32 \<Rightarrow> u8" where "px_alpha p = ucast (drop_bit 24 p)"

definition rgbquad :: "u8 \<Rightarrow> u8 \<Rightarrow> u8 \<Rightarrow> u8 \<Rightarrow> u32" where
  "rgbquad b g r a = ucast b OR push_bit 8 (ucast g) OR push_bit 16 (ucast r) OR push_bit 24 (ucast a)"

definition kPixelRgbaBlack :: u32 where "kPixelRgbaBlack = 0xFF000000"
definition kPixelRgbaWhite :: u32 where "kPixelRgbaWhite = 0xFFFFFFFF"
definition kPixelRgbaTransparent :: u32 where "kPixelRgbaTransparent = 0"
definition kPixelRgbWhite :: u32 where "kPixelRgbWhite = 0x00FFFFFF"

lemmas pixel_consts = kPixelRgbaBlack_def kPixelRgbaWhite_def kPixelRgbaTransparent_def kPixelRgbWhite_def

definition HasAlphaChannel :: "u32 list \<Rightarrow> bool" where
  "HasAlphaChannel data \<longleftrightarrow> list_ex (\<lambda>p. px_alpha p \<noteq> 0) data"

text \<open>One step of the outline pass at column \<open>x\<close> and row \<open>y\<close>, on the picture as it is then.\<close>

definition outline_at :: "nat \<Rightarrow> nat \<Rightarrow> nat \<Rightarrow> u32 list \<Rightarrow> u32 list" where
  "outline_at width height i data =
     (let x = i mod width; y = i div width in
      if data ! i = kPixelRgbaTransparent
         \<and> (y > 0 \<and> data ! (i - width) = kPixelRgbaBlack
            \<or> y < height - 1 \<and> data ! (i + width) = kPixelRgbaBlack
            \<or> x > 0 \<and> data ! (i - 1) = kPixelRgbaBlack
            \<or> x < width - 1 \<and> data ! (i + 1) = kPixelRgbaBlack)
      then data[i := kPixelRgbaWhite] else data)"

definition AddCursorOutline :: "nat \<Rightarrow> nat \<Rightarrow> u32 list \<Rightarrow> u32 list" where
  "AddCursorOutline width height data = fold (outline_at width height) [0..<width * height] data"

definition premultiply :: "u8 \<Rightarrow> u8 \<Rightarrow> u8" where
  "premultiply c a = word_of_int (uint c * uint a div 255)"

definition AlphaMul :: "u32 list \<Rightarrow> u32 list" where
  "AlphaMul data = map (\<lambda>p. rgbquad (premultiply (px_blue p) (px_alpha p)) (premultiply (px_green p) (px_alpha p))
     (premultiply (px_red p) (px_alpha p)) (px_alpha p)) data"

section \<open>From a cursor to pixels\<close>

text \<open>
  What Windows answers: \<open>GetIconInfo\<close>, \<open>GetObject\<close> and the two \<open>GetDIBits\<close>; the mask of a
  monochrome cursor has both halves one above the other. A query that fails is \<open>None\<close>.
\<close>

record icon_bitmaps =
  ic_hotspot :: "nat \<times> nat"
  ic_size :: "(nat \<times> nat) option"
  ic_is_color :: bool
  ic_mask :: "u32 list option"
  ic_color :: "u32 list option"

record cursor_image =
  ci_width :: nat
  ci_height :: nat
  ci_hotspot :: "nat \<times> nat"
  ci_pixels :: "u32 list"

definition mask_pixel :: "u32 \<Rightarrow> u32 \<Rightarrow> u32" where
  "mask_pixel m d = (if m = kPixelRgbWhite then if d \<noteq> 0 then kPixelRgbaBlack else kPixelRgbaTransparent
     else kPixelRgbaBlack XOR d)"

definition apply_mask :: "nat \<Rightarrow> nat \<Rightarrow> u32 list \<Rightarrow> u32 list \<Rightarrow> u32 list" where
  "apply_mask width height msk color =
     (let n = width * height;
          pairs = zip (take n msk) (take n color);
          add_outline = list_ex (\<lambda>(m, d). m = kPixelRgbWhite \<and> d \<noteq> 0) pairs;
          data = map (\<lambda>(m, d). mask_pixel m d) pairs
      in if add_outline then AddCursorOutline width height data else data)"

definition CreateMouseCursorFromHCursor :: "icon_bitmaps option \<Rightarrow> cursor_image option" where
  "CreateMouseCursorFromHCursor info =
     (case info of None \<Rightarrow> None
      | Some i \<Rightarrow> (case ic_size i of None \<Rightarrow> None
        | Some (width, full) \<Rightarrow> (case ic_mask i of None \<Rightarrow> None
          | Some msk \<Rightarrow>
              let height = (if ic_is_color i then full else full div 2);
                  color = (if ic_is_color i then ic_color i
                           else Some (take (width * height) (drop (width * height) msk)))
              in case color of None \<Rightarrow> None
                 | Some c \<Rightarrow>
                     let c1 = take (width * height) c;
                         data = (if ic_is_color i \<and> HasAlphaChannel c1 then c1 else apply_mask width height msk c1)
                     in Some \<lparr>ci_width = width, ci_height = height, ci_hotspot = ic_hotspot i, ci_pixels = AlphaMul data\<rparr>)))"

text \<open>The system cursor a handle stands for; \<open>loaded\<close> is what \<open>LoadCursor\<close> gives for each identifier.\<close>

definition system_cursor_ids :: "nat list" where
  "system_cursor_ids = [32512, 32513, 32514, 32515, 32516, 32640, 32641, 32642, 32643, 32644, 32645, 32646, 32648,
     32649, 32650, 32651, 32671, 32672]"

definition GetCursorHandle :: "(nat \<Rightarrow> nat) \<Rightarrow> nat \<Rightarrow> nat" where
  "GetCursorHandle loaded hCursor =
     (case find (\<lambda>k. loaded k = hCursor) system_cursor_ids of Some k \<Rightarrow> k | None \<Rightarrow> 0)"

section \<open>Hash and frame\<close>

text \<open>The bits of a value of type \<open>float\<close>.\<close>

definition float_bits :: "dbl \<Rightarrow> u32" where
  "float_bits d = (case d of NaN \<Rightarrow> 0x7FC00000 | PInf \<Rightarrow> 0x7F800000 | NInf \<Rightarrow> 0xFF800000
     | Fin q \<Rightarrow> if q = 0 then 0
         else let s = (if q < 0 then 0x80000000 else 0); m = \<bar>q\<bar>; e = ilog2 m in
           if -126 \<le> e then s OR word_of_int ((e + 127) * 2 ^ 23 + \<lfloor>(m / 2 powi e - 1) * 2 ^ 23\<rfloor>)
           else s OR word_of_int \<lfloor>m * 2 ^ 149\<rfloor>)"

definition hash_mix :: "u32 \<Rightarrow> u32 \<Rightarrow> u32" where
  "hash_mix v h = h XOR (push_bit 5 h + v + drop_bit 2 h)"

definition CursorBitmapHash :: "u32 list \<Rightarrow> u32 \<Rightarrow> u32 \<Rightarrow> u32 \<Rightarrow> u32 \<Rightarrow> u32 \<Rightarrow> dbl \<Rightarrow> u32" where
  "CursorBitmapHash pixels width height hotx hoty system_cursor_id ratio =
     fold hash_mix ([width, height, hotx, hoty, system_cursor_id, float_bits ratio] @ pixels) 1315423911 AND 0x7FFFFFFF"

definition EncodeCursorBitmapFrame :: "u32 list \<Rightarrow> u32 \<Rightarrow> u32 \<Rightarrow> u32 \<Rightarrow> u32 \<Rightarrow> u32 \<Rightarrow> u32 \<Rightarrow> dbl \<Rightarrow> u8 list" where
  "EncodeCursorBitmapFrame inputArray width height hotx hoty hash system_cursor_id ratio =
     9 # be32 width @ be32 height @ be32 hotx @ be32 hoty @ be32 hash @ le32 system_cursor_id @ le32 (float_bits ratio)
     @ le32s (take (unat (width * height)) inputArray)"

text \<open>A window's dots per inch, those of the screen, or 96.\<close>

definition sourceDevicePixelRatioForWindow :: "u32 option \<Rightarrow> u32 option \<Rightarrow> dbl" where
  "sourceDevicePixelRatioForWindow window_dpi screen_dpi =
     (let d0 = (case window_dpi of Some d \<Rightarrow> d | None \<Rightarrow> 0);
          d1 = (if d0 = 0 then (case screen_dpi of Some d \<Rightarrow> d | None \<Rightarrow> 0) else d0);
          d2 = (if d1 = 0 then 96 else d1)
      in dclamp (to_float (fl 24 (-149) (of_int (uint d2)) / 96)) (Fin (1/4)) (Fin 8))"

section \<open>Position and visibility\<close>

record CursorPositionSnapshot =
  cps_position :: point
  cps_monitor :: rect
  cps_x_percent :: dbl
  cps_y_percent :: dbl

definition float_quot :: "int \<Rightarrow> int \<Rightarrow> dbl" where
  "float_quot n d = to_float (fl 24 (-149) (of_int n) / fl 24 (-149) (of_int d))"

text \<open>\<open>position\<close> is \<open>GetCursorPos\<close>, \<open>monitor\<close> the rectangle of the nearest monitor.\<close>

definition ReadCursorPositionSnapshot :: "point option \<Rightarrow> rect option \<Rightarrow> CursorPositionSnapshot option" where
  "ReadCursorPositionSnapshot position monitor =
     (case position of None \<Rightarrow> None
      | Some p \<Rightarrow> (case monitor of None \<Rightarrow> None
        | Some r \<Rightarrow> let width = r_right r - r_left r; height = r_bottom r - r_top r in
            if width \<le> 0 \<or> height \<le> 0 then None
            else Some \<lparr>cps_position = p, cps_monitor = r, cps_x_percent = float_quot (p_x p - r_left r) width,
                   cps_y_percent = float_quot (p_y p - r_top r) height\<rparr>))"

definition CURSOR_SHOWING :: u32 where "CURSOR_SHOWING = 1"
definition CURSOR_SUPPRESSED :: u32 where "CURSOR_SUPPRESSED = 2"

definition ReadCursorVisibilitySnapshot :: "u32 option \<Rightarrow> bool option" where
  "ReadCursorVisibilitySnapshot flags = (case flags of None \<Rightarrow> None
     | Some f \<Rightarrow> Some (f AND CURSOR_SHOWING \<noteq> 0 \<and> f AND CURSOR_SUPPRESSED = 0))"

record MousePosition =
  mp_screenId :: int
  mp_x :: dbl
  mp_y :: dbl
  mp_position :: point

definition GetMousePositionAndScreenId :: "monitor_info list \<Rightarrow> CursorPositionSnapshot option \<Rightarrow> MousePosition option" where
  "GetMousePositionAndScreenId monitors_info snapshot =
     (case snapshot of None \<Rightarrow> None
      | Some s \<Rightarrow> Some \<lparr>mp_screenId = (case find (\<lambda>m. mi_rect m = cps_monitor s) monitors_info of
            Some m \<Rightarrow> mi_screen_id m | None \<Rightarrow> -1),
          mp_x = cps_x_percent s, mp_y = cps_y_percent s, mp_position = cps_position s\<rparr>)"

definition EncodeUnitU16 :: "dbl \<Rightarrow> u16" where
  "EncodeUnitU16 d = (case d of NaN \<Rightarrow> 0 | NInf \<Rightarrow> 0 | PInf \<Rightarrow> 0xFFFF
     | Fin v \<Rightarrow> if v \<le> 0 then 0 else if 1 \<le> v then 0xFFFF
         else word_of_int (trunc (fl 24 (-149) (fl 24 (-149) (v * 65535) + 1/2))))"

definition PushUint16Le :: "u16 \<Rightarrow> u8 list" where
  "PushUint16Le v = le16 v"

definition CursorPositionPayload :: "dbl \<Rightarrow> dbl \<Rightarrow> u8 list" where
  "CursorPositionPayload x y = PushUint16Le (EncodeUnitU16 x) @ PushUint16Le (EncodeUnitU16 y)"

section \<open>The outline pass\<close>

text \<open>The outline of the original picture, pixel by pixel.\<close>

definition outline_pixel :: "nat \<Rightarrow> nat \<Rightarrow> u32 list \<Rightarrow> nat \<Rightarrow> u32" where
  "outline_pixel width height data i =
     (let x = i mod width; y = i div width in
      if data ! i = kPixelRgbaTransparent
         \<and> (y > 0 \<and> data ! (i - width) = kPixelRgbaBlack
            \<or> y < height - 1 \<and> data ! (i + width) = kPixelRgbaBlack
            \<or> x > 0 \<and> data ! (i - 1) = kPixelRgbaBlack
            \<or> x < width - 1 \<and> data ! (i + 1) = kPixelRgbaBlack)
      then kPixelRgbaWhite else data ! i)"

text \<open>A picture that may only have gained outline pixels.\<close>

definition outlined_from :: "u32 list \<Rightarrow> u32 list \<Rightarrow> bool" where
  "outlined_from data s \<longleftrightarrow> length s = length data
     \<and> (\<forall>j < length data. s ! j = data ! j \<or> data ! j = kPixelRgbaTransparent \<and> s ! j = kPixelRgbaWhite)"

lemma outlined_black:
  "outlined_from data s \<Longrightarrow> j < length data \<Longrightarrow> s ! j = kPixelRgbaBlack \<longleftrightarrow> data ! j = kPixelRgbaBlack"
  by (auto simp: outlined_from_def pixel_consts)

lemma neighbours:
  fixes i width height :: nat
  assumes "i < width * height"
  shows "i div width > 0 \<Longrightarrow> i - width < width * height"
    "i div width < height - 1 \<Longrightarrow> i + width < width * height"
    "i - 1 < width * height"
    "i mod width < width - 1 \<Longrightarrow> i + 1 < width * height"
proof -
  have w: "0 < width" using assms by (cases "width = 0") auto
  show "i - width < width * height" using assms by linarith
  show "i - 1 < width * height" using assms by linarith
  have d: "i = width * (i div width) + i mod width" by simp
  have m: "i mod width < width" using w by simp
  show "i + width < width * height" if "i div width < height - 1"
  proof -
    from that have "i div width + 2 \<le> height" by linarith
    then have "width * (i div width + 2) \<le> width * height" by (rule mult_le_mono2)
    then have "width * (i div width) + 2 * width \<le> width * height" by (simp add: algebra_simps)
    with d m show ?thesis by linarith
  qed
  show "i + 1 < width * height" if "i mod width < width - 1"
  proof -
    have "i div width < height" using assms w by (simp add: less_mult_imp_div_less mult.commute)
    then have "width * (i div width + 1) \<le> width * height" by (intro mult_le_mono2) linarith
    then have "width * (i div width) + width \<le> width * height" by (simp add: algebra_simps)
    with d that show ?thesis by linarith
  qed
qed

lemma update_if: "s[i := d] = s \<Longrightarrow> (if C then s[i := a] else s) = s[i := if C then a else d]"
  by simp

lemma outline_at_pixel:
  assumes s: "outlined_from data s" and l: "length data = width * height" and i: "i < width * height"
    and same: "s ! i = data ! i"
  shows "outline_at width height i s = s[i := outline_pixel width height data i]"
proof -
  note b = outlined_black [OF s] and n = neighbours [OF i]
  have c: "(i div width > 0 \<and> s ! (i - width) = kPixelRgbaBlack) = (i div width > 0 \<and> data ! (i - width) = kPixelRgbaBlack)"
    "(i div width < height - 1 \<and> s ! (i + width) = kPixelRgbaBlack) = (i div width < height - 1 \<and> data ! (i + width) = kPixelRgbaBlack)"
    "(i mod width > 0 \<and> s ! (i - 1) = kPixelRgbaBlack) = (i mod width > 0 \<and> data ! (i - 1) = kPixelRgbaBlack)"
    "(i mod width < width - 1 \<and> s ! (i + 1) = kPixelRgbaBlack) = (i mod width < width - 1 \<and> data ! (i + 1) = kPixelRgbaBlack)"
    using b n l by auto
  have "s[i := data ! i] = s" using same by (metis list_update_id)
  then show ?thesis unfolding outline_at_def outline_pixel_def Let_def same c by (rule update_if)
qed

lemma outline_prefix:
  assumes "length data = width * height" "k \<le> width * height"
  shows "fold (outline_at width height) [0..<k] data = map (outline_pixel width height data) [0..<k] @ drop k data"
  using assms(2)
proof (induction k)
  case 0
  then show ?case by simp
next
  case (Suc k)
  let ?s = "map (outline_pixel width height data) [0..<k] @ drop k data"
  have k: "k < width * height" using Suc.prems by simp
  have "outlined_from data ?s"
    using k assms(1) by (auto simp: outlined_from_def nth_append outline_pixel_def Let_def)
  moreover have "?s ! k = data ! k" using k assms(1) by (simp add: nth_append)
  ultimately have "outline_at width height k ?s = ?s[k := outline_pixel width height data k]"
    using outline_at_pixel k assms(1) by blast
  moreover have "drop k data = data ! k # drop (Suc k) data" using k assms(1) by (simp add: Cons_nth_drop_Suc)
  ultimately show ?case using Suc by (simp add: list_update_append)
qed

section \<open>Premultiplied pixels\<close>

lemma rgbquad_parts:
  "px_blue (rgbquad b g r a) = b" "px_green (rgbquad b g r a) = g" "px_red (rgbquad b g r a) = r"
  "px_alpha (rgbquad b g r a) = a"
  unfolding px_blue_def px_green_def px_red_def px_alpha_def rgbquad_def
  by (rule bit_word_eqI; auto simp: bit_simps dest: bit_imp_le_length)+

lemma premultiply_le: "premultiply c a \<le> a"
proof -
  have c: "uint c \<le> 255" and a: "0 \<le> uint a" "uint a \<le> 255"
    using unsigned_less [of c, where 'a = int] unsigned_less [of a, where 'a = int] by simp_all
  have "uint c * uint a \<le> 255 * uint a" using c a(1) by (intro mult_right_mono) simp_all
  then have q: "uint c * uint a div 255 \<le> uint a" by linarith
  moreover have "0 \<le> uint c * uint a div 255" by (simp add: pos_imp_zdiv_nonneg_iff)
  ultimately have "uint (premultiply c a) = uint c * uint a div 255"
    using a by (simp add: premultiply_def uint_word_of_int)
  with q show ?thesis by (simp add: word_le_def)
qed

definition premultiplied :: "u32 \<Rightarrow> bool" where
  "premultiplied p \<longleftrightarrow> px_blue p \<le> px_alpha p \<and> px_green p \<le> px_alpha p \<and> px_red p \<le> px_alpha p"

lemma AlphaMul_premultiplied: "p \<in> set (AlphaMul data) \<Longrightarrow> premultiplied p"
  by (auto simp: AlphaMul_def premultiplied_def rgbquad_parts premultiply_le)

lemma AlphaMul_length [simp]: "length (AlphaMul data) = length data"
  by (simp add: AlphaMul_def)

section \<open>Reading a frame\<close>

fun rd_be32 :: "u8 list \<Rightarrow> (u32 \<times> u8 list) option" where
  "rd_be32 (a # b # c # d # r) = (case rd32 [d, c, b, a] of Some (w, _) \<Rightarrow> Some (w, r) | None \<Rightarrow> None)"
| "rd_be32 _ = None"

lemma rd_be32_be32 [simp, wire_simps]: "rd_be32 (be32 w @ r) = Some (w, r)"
  using rd32_le32 [of w "[]"] by (simp add: be32_def le32_def)

record cursor_frame =
  cf_width :: u32
  cf_height :: u32
  cf_hotx :: u32
  cf_hoty :: u32
  cf_hash :: u32
  cf_system_id :: u32
  cf_ratio_bits :: u32
  cf_pixels :: "u32 list"

text \<open>What a viewer reads from a frame.\<close>

definition decode_frame :: "u8 list \<Rightarrow> cursor_frame option" where
  "decode_frame bs = (case bs of [] \<Rightarrow> None | t # b0 \<Rightarrow> if t \<noteq> 9 then None else
     (case rd_be32 b0 of None \<Rightarrow> None | Some (w, b1) \<Rightarrow>
     (case rd_be32 b1 of None \<Rightarrow> None | Some (h, b2) \<Rightarrow>
     (case rd_be32 b2 of None \<Rightarrow> None | Some (hx, b3) \<Rightarrow>
     (case rd_be32 b3 of None \<Rightarrow> None | Some (hy, b4) \<Rightarrow>
     (case rd_be32 b4 of None \<Rightarrow> None | Some (hash, b5) \<Rightarrow>
     (case rd32s 2 b5 of Some ([sid, ratio], b6) \<Rightarrow>
       (case rd32s (unat (w * h)) b6 of Some (ps, []) \<Rightarrow>
          Some \<lparr>cf_width = w, cf_height = h, cf_hotx = hx, cf_hoty = hy, cf_hash = hash, cf_system_id = sid,
             cf_ratio_bits = ratio, cf_pixels = ps\<rparr> | _ \<Rightarrow> None) | _ \<Rightarrow> None)))))))"

section \<open>Properties\<close>

text \<open>C37: the in-place outline pass computes the outline of the original picture: every transparent
  pixel with a black neighbour above, below, left or right becomes white and no other pixel changes,
  although the pass overwrites the picture it is reading.\<close>

theorem outline_in_place:
  assumes "length data = width * height"
  shows "AddCursorOutline width height data = map (outline_pixel width height data) [0..<width * height]"
  using outline_prefix [OF assms, of "width * height"] assms by (simp add: AddCursorOutline_def)

theorem outline_in_place_witness:
  "AddCursorOutline 3 1 [0, 0xFF000000, 0] = map (outline_pixel 3 1 [0, 0xFF000000, 0]) [0..<3]
   \<and> outline_pixel 3 1 [0, 0xFF000000, 0] 2 = kPixelRgbaWhite"
  using outline_in_place [of "[0, 0xFF000000, 0]" 3 1]
  by (simp add: outline_pixel_def pixel_consts)

text \<open>A picture that can be made has one pixel per position, each with no colour above its alpha.\<close>

lemma AddCursorOutline_length: "length data = width * height \<Longrightarrow> length (AddCursorOutline width height data) = width * height"
  by (simp add: outline_prefix AddCursorOutline_def)

lemma apply_mask_length:
  "width * height \<le> length msk \<Longrightarrow> length c = width * height \<Longrightarrow> length (apply_mask width height msk c) = width * height"
  by (auto simp: apply_mask_def Let_def AddCursorOutline_length)

lemma cursor_image_wf:
  assumes "CreateMouseCursorFromHCursor (Some i) = Some img" "ic_size i = Some (w, full)"
    and "ic_mask i = Some m" "length m = w * full" "\<And>c. ic_color i = Some c \<Longrightarrow> length c = w * full"
  shows "length (ci_pixels img) = ci_width img * ci_height img \<and> (\<forall>p \<in> set (ci_pixels img). premultiplied p)"
proof -
  have half: "w * (full div 2) + w * (full div 2) \<le> w * full"
    by (metis add_mult_distrib2 div_times_less_eq_dividend mult_2_right mult_le_mono2)
  show ?thesis
  proof (cases "ic_is_color i")
    case True
    with assms obtain c where "ic_color i = Some c" by (auto simp: CreateMouseCursorFromHCursor_def Let_def split: option.splits)
    with assms True show ?thesis
      by (auto simp: CreateMouseCursorFromHCursor_def Let_def apply_mask_length dest: AlphaMul_premultiplied)
  next
    case False
    let ?c = "take (w * (full div 2)) (drop (w * (full div 2)) m)"
    have "length ?c = w * (full div 2)" using half assms(4) by simp
    moreover have "w * (full div 2) \<le> length m" using half assms(4) by linarith
    ultimately have "length (apply_mask w (full div 2) m ?c) = w * (full div 2)" by (intro apply_mask_length)
    with assms False show ?thesis
      by (auto simp: CreateMouseCursorFromHCursor_def Let_def dest: AlphaMul_premultiplied)
  qed
qed



text \<open>The hash fits the signed number the callback takes.\<close>

lemma hash_nonneg: "uint (CursorBitmapHash ps w h hx hy sid ratio) < 2 ^ 31"
proof -
  have m: "(0x7FFFFFFF :: u32) = Bit_Operations.mask 31" by (simp add: mask_eq_exp_minus_1)
  show ?thesis
    unfolding CursorBitmapHash_def m take_bit_eq_mask [symmetric] unsigned_take_bit_eq by (rule take_bit_int_less_exp)
qed

text \<open>A share of the screen is encoded without leaving the range of 16 bits.\<close>

lemma encode_unit_range:
  assumes "0 < v" "v < 1"
  shows "uint (EncodeUnitU16 (Fin v)) = trunc (fl 24 (-149) (fl 24 (-149) (v * 65535) + 1/2))"
proof -
  let ?x = "fl 24 (-149) (v * 65535)"
  have x: "0 \<le> ?x" "?x \<le> 65535"
    using fl32.scaled_within [of v 65535] assms by simp_all
  have e: "fl 24 (-149) (131071 / 2) = 131071 / 2"
    using fl_exact [of 131071 24 "-149" "-1"] by (simp add: power_int_minus)
  have "fl 24 (-149) (?x + 1/2) \<le> fl 24 (-149) (131071 / 2)"
    using x by (intro fl32.rnd_mono) simp
  then have "fl 24 (-149) (?x + 1/2) \<le> 131071 / 2" by (simp add: e)
  moreover have "0 \<le> fl 24 (-149) (?x + 1/2)" using x by (intro fl_nonneg) simp
  ultimately have "0 \<le> trunc (fl 24 (-149) (?x + 1/2))" "trunc (fl 24 (-149) (?x + 1/2)) \<le> trunc (131071 / 2)"
    using trunc_mono [of 0] trunc_of_int [of 0] by (auto intro: trunc_mono)
  moreover have "\<lfloor>131071 / 2 :: rat\<rfloor> = 65535" by (rule floor_unique) simp_all
  then have "trunc (131071 / 2 :: rat) = 65535" by (simp add: trunc_def)
  ultimately show ?thesis using assms by (simp add: EncodeUnitU16_def uint_word_of_int)
qed

end
