(* ===== verification/CursorHooks.thy ===== *)
theory CursorHooks
  imports CursorImage "HOL-Library.AList"
begin

text \<open>
  The state of \<open>windows/cursor_monitor.cc\<close>: the subscribed callbacks with their options and the
  pictures each has been sent, the last cursor, visibility and position, and the one event hook. Every
  operation is given what Windows answers while it runs and returns what it calls, in order. A callback
  is named by its identifier; the maps are iterated in key order.
\<close>

section \<open>State and world\<close>

record Monitor =
  cm_hook :: "nat option"
  cm_callbacks :: "(int \<times> unit) list"
  cm_hookAll :: "(int \<times> bool) list"
  cm_ratios :: "(int \<times> dbl) list"
  cm_cached :: "(int \<times> u32 list) list"
  cm_positions :: "(int \<times> unit) list"
  cm_lastVisible :: bool
  cm_hasVisible :: bool
  cm_lastPos :: point
  cm_hasPos :: bool
  cm_lastHCursor :: nat

definition init_monitor :: Monitor where
  "init_monitor = \<lparr>cm_hook = None, cm_callbacks = [], cm_hookAll = [], cm_ratios = [], cm_cached = [],
     cm_positions = [], cm_lastVisible = True, cm_hasVisible = False, cm_lastPos = \<lparr>p_x = 0, p_y = 0\<rparr>,
     cm_hasPos = False, cm_lastHCursor = 0\<rparr>"

record cursor_world =
  cw_info :: "(u32 \<times> nat) option"
  cw_icon :: "icon_bitmaps option"
  cw_loaded :: "nat \<Rightarrow> nat"
  cw_snapshot :: "CursorPositionSnapshot option"
  cw_screens :: "monitor_info list"
  cw_new_hook :: "nat option"

datatype cursor_msg =
    CURSOR_INVISIBLE int "u8 list"
  | CURSOR_VISIBLE int "u8 list"
  | UPDATED_DEFAULT nat
  | UPDATED_IMAGE u32 "u8 list"
  | UPDATED_CACHED u32
  | POSITION_CHANGED int dbl dbl

datatype cursor_effect =
    callback_call int cursor_msg
  | SetWinEventHook
  | UnhookWinEvent nat

section \<open>Pictures\<close>

text \<open>Pixels, size and hot spot; after a failure an empty picture, whose hot spot is set if the icon was read.\<close>

definition image_fields :: "icon_bitmaps option \<Rightarrow> u32 list \<times> u32 \<times> u32 \<times> u32 \<times> u32" where
  "image_fields icon =
     (case CreateMouseCursorFromHCursor icon of
        Some img \<Rightarrow> (ci_pixels img, word_of_nat (ci_width img), word_of_nat (ci_height img),
          word_of_nat (fst (ci_hotspot img)), word_of_nat (snd (ci_hotspot img)))
      | None \<Rightarrow> ([], 0, 0, case icon of Some i \<Rightarrow> word_of_nat (fst (ic_hotspot i)) | None \<Rightarrow> 0,
          case icon of Some i \<Rightarrow> word_of_nat (snd (ic_hotspot i)) | None \<Rightarrow> 0))"

definition ratio_for :: "Monitor \<Rightarrow> int \<Rightarrow> dbl" where
  "ratio_for s cid = (case map_of (cm_ratios s) cid of Some r \<Rightarrow> r | None \<Rightarrow> Fin 1)"

definition BindCursorSourceDevicePixelRatio :: "int \<Rightarrow> dbl \<Rightarrow> Monitor \<Rightarrow> Monitor" where
  "BindCursorSourceDevicePixelRatio cid r s =
     s\<lparr>cm_ratios := oput cid (dclamp r (Fin (1/4)) (Fin 8)) (cm_ratios s)\<rparr>"

definition cached_for :: "Monitor \<Rightarrow> int \<Rightarrow> u32 list" where
  "cached_for s cid = (case map_of (cm_cached s) cid of Some hs \<Rightarrow> hs | None \<Rightarrow> [])"

definition hookAll_for :: "Monitor \<Rightarrow> int \<Rightarrow> bool" where
  "hookAll_for s cid = (case map_of (cm_hookAll s) cid of Some b \<Rightarrow> b | None \<Rightarrow> False)"

text \<open>The picture for one callback: a reference when it has it already, otherwise the frame.\<close>

definition send_picture :: "icon_bitmaps option \<Rightarrow> u32 \<Rightarrow> int \<Rightarrow> Monitor \<Rightarrow> Monitor \<times> cursor_effect list" where
  "send_picture icon sysid cid s =
     (let (ps, w, h, hx, hy) = image_fields icon; r = ratio_for s cid;
          hash = CursorBitmapHash (take (unat (w * h)) ps) w h hx hy sysid r
      in if hash \<in> set (cached_for s cid) then (s, [callback_call cid (UPDATED_CACHED hash)])
         else (s\<lparr>cm_cached := oput cid (hash # cached_for s cid) (cm_cached s)\<rparr>,
               [callback_call cid (UPDATED_IMAGE hash (EncodeCursorBitmapFrame ps w h hx hy hash sysid r))]))"

text \<open>\<open>h\<close> is the system cursor, 0 for none.\<close>

definition sync_callback :: "icon_bitmaps option \<Rightarrow> nat \<Rightarrow> int \<Rightarrow> Monitor \<Rightarrow> Monitor \<times> cursor_effect list" where
  "sync_callback icon h cid s =
     (if h \<noteq> 0 \<and> \<not> hookAll_for s cid then (s, [callback_call cid (UPDATED_DEFAULT h)])
      else send_picture icon (word_of_nat h) cid s)"

fun sync_callbacks :: "icon_bitmaps option \<Rightarrow> nat \<Rightarrow> int list \<Rightarrow> Monitor \<Rightarrow> Monitor \<times> cursor_effect list" where
  "sync_callbacks icon h [] s = (s, [])"
| "sync_callbacks icon h (cid # ids) s =
     (let (s1, o1) = sync_callback icon h cid s; (s2, o2) = sync_callbacks icon h ids s1 in (s2, o1 @ o2))"

definition SyncCursorImage :: "cursor_world \<Rightarrow> Monitor \<Rightarrow> Monitor \<times> cursor_effect list" where
  "SyncCursorImage w s =
     (if cm_callbacks s = [] then (s, [])
      else case cw_info w of None \<Rightarrow> (s, [])
      | Some (_, hCursor) \<Rightarrow>
          if hCursor = cm_lastHCursor s then (s, [])
          else sync_callbacks (cw_icon w) (GetCursorHandle (cw_loaded w) hCursor) (map fst (cm_callbacks s))
                 (s\<lparr>cm_lastHCursor := hCursor\<rparr>))"

section \<open>Visibility\<close>

definition IsCursorVisible :: "cursor_world \<Rightarrow> bool option" where
  "IsCursorVisible w = ReadCursorVisibilitySnapshot (map_option fst (cw_info w))"

definition mouse_pos :: "cursor_world \<Rightarrow> MousePosition option" where
  "mouse_pos w = GetMousePositionAndScreenId (cw_screens w) (cw_snapshot w)"

definition visibility_msg :: "bool \<Rightarrow> MousePosition \<Rightarrow> cursor_msg" where
  "visibility_msg visible p =
     (if visible then CURSOR_VISIBLE else CURSOR_INVISIBLE) (mp_screenId p) (CursorPositionPayload (mp_x p) (mp_y p))"

definition tell_all :: "cursor_msg \<Rightarrow> Monitor \<Rightarrow> cursor_effect list" where
  "tell_all m s = map (\<lambda>(cid, _). callback_call cid m) (cm_callbacks s)"

definition SyncCursorVisibility :: "cursor_world \<Rightarrow> Monitor \<Rightarrow> Monitor \<times> cursor_effect list" where
  "SyncCursorVisibility w s =
     (case IsCursorVisible w of None \<Rightarrow> (s, [])
      | Some visible \<Rightarrow>
          if cm_hasVisible s \<and> visible = cm_lastVisible s then (s, [])
          else case mouse_pos w of None \<Rightarrow> (s, [])
          | Some p \<Rightarrow> (s\<lparr>cm_hasVisible := True, cm_lastVisible := visible\<rparr>, tell_all (visibility_msg visible p) s))"

definition syncNow :: "cursor_world \<Rightarrow> Monitor \<Rightarrow> Monitor \<times> cursor_effect list" where
  "syncNow w s =
     (if cm_callbacks s = [] then (s, [])
      else let (s1, o1) = SyncCursorVisibility w s in
        if cm_lastVisible s1 then let (s2, o2) = SyncCursorImage w s1 in (s2, o1 @ o2) else (s1, o1))"

section \<open>Events\<close>

datatype cursor_event = EVENT_OBJECT_SHOW | EVENT_OBJECT_HIDE | EVENT_OBJECT_LOCATIONCHANGE
  | EVENT_OBJECT_NAMECHANGE | EVENT_OTHER

definition location_changed :: "cursor_world \<Rightarrow> Monitor \<Rightarrow> (Monitor \<times> cursor_effect list) option" where
  "location_changed w s =
     (if cm_positions s = [] then Some (s, [])
      else case mouse_pos w of None \<Rightarrow> None
      | Some p \<Rightarrow>
          if \<not> cm_hasPos s \<or> mp_position p \<noteq> cm_lastPos s
          then Some (s\<lparr>cm_lastPos := mp_position p, cm_hasPos := True\<rparr>,
            map (\<lambda>(cid, _). callback_call cid (POSITION_CHANGED (mp_screenId p) (mp_x p) (mp_y p))) (cm_positions s))
          else Some (s, []))"

text \<open>\<open>about_cursor\<close>: no window, the cursor object, the object itself.\<close>

definition CursorChangedEventProc :: "cursor_world \<Rightarrow> cursor_event \<Rightarrow> bool \<Rightarrow> Monitor \<Rightarrow> Monitor \<times> cursor_effect list" where
  "CursorChangedEventProc w event about_cursor s =
     (if \<not> about_cursor then (s, [])
      else if event = EVENT_OBJECT_HIDE \<or> event = EVENT_OBJECT_SHOW then
        (case mouse_pos w of None \<Rightarrow> (s, [])
         | Some p \<Rightarrow>
             let visible = (event = EVENT_OBJECT_SHOW);
                 s1 = s\<lparr>cm_hasVisible := True, cm_lastVisible := visible\<rparr>;
                 o1 = tell_all (visibility_msg visible p) s1
             in if visible then let (s2, o2) = SyncCursorImage w s1 in (s2, o1 @ o2) else (s1, o1))
      else if event = EVENT_OBJECT_NAMECHANGE then SyncCursorImage w s
      else if event = EVENT_OBJECT_LOCATIONCHANGE then
        (case location_changed w s of None \<Rightarrow> (s, [])
         | Some (s1, o1) \<Rightarrow> let (s2, o2) = SyncCursorImage w s1 in (s2, o1 @ o2))
      else (s, []))"

section \<open>Subscriptions\<close>

definition EnsureCursorEventHook :: "cursor_world \<Rightarrow> Monitor \<Rightarrow> Monitor \<times> cursor_effect list" where
  "EnsureCursorEventHook w s =
     (if cm_hook s \<noteq> None then (s, []) else (s\<lparr>cm_hook := cw_new_hook w\<rparr>, [SetWinEventHook]))"

definition ReleaseCursorEventHookIfUnused :: "Monitor \<Rightarrow> Monitor \<times> cursor_effect list" where
  "ReleaseCursorEventHookIfUnused s =
     (if cm_callbacks s \<noteq> [] \<or> cm_positions s \<noteq> [] then (s, [])
      else case cm_hook s of None \<Rightarrow> (s, [])
      | Some h \<Rightarrow> (s\<lparr>cm_hook := None\<rparr>, [UnhookWinEvent h]))"

text \<open>The picture a new subscription starts from.\<close>

definition seed_picture :: "cursor_world \<Rightarrow> int \<Rightarrow> bool \<Rightarrow> dbl \<Rightarrow> Monitor \<Rightarrow> Monitor \<times> cursor_effect list" where
  "seed_picture w cid hookAll ratio s =
     (case cw_info w of None \<Rightarrow> (s, [])
      | Some (_, hCursor) \<Rightarrow>
          let h = GetCursorHandle (cw_loaded w) hCursor in
          if \<not> hookAll \<and> h \<noteq> 0 then (s, [callback_call cid (UPDATED_DEFAULT h)])
          else (case CreateMouseCursorFromHCursor (cw_icon w) of None \<Rightarrow> (s, [])
            | Some img \<Rightarrow>
                if ci_width img > 0 \<and> ci_height img > 0 then
                  let (ps, iw, ih, hx, hy) = image_fields (cw_icon w);
                      hash = CursorBitmapHash (take (unat (iw * ih)) ps) iw ih hx hy (word_of_nat h) ratio
                  in (s\<lparr>cm_cached := oput cid (hash # cached_for s cid) (cm_cached s)\<rparr>,
                      [callback_call cid (UPDATED_IMAGE hash (EncodeCursorBitmapFrame ps iw ih hx hy hash (word_of_nat h) ratio))])
                else (s, [])))"

definition startHook :: "cursor_world \<Rightarrow> int \<Rightarrow> bool \<Rightarrow> dbl \<Rightarrow> Monitor \<Rightarrow> Monitor \<times> cursor_effect list" where
  "startHook w cid hookAll ratio s =
     (let (s0, o0) = EnsureCursorEventHook w s;
          s1 = BindCursorSourceDevicePixelRatio cid ratio
                 (s0\<lparr>cm_callbacks := oput cid () (cm_callbacks s0), cm_hookAll := oput cid hookAll (cm_hookAll s0)\<rparr>);
          s2 = s1\<lparr>cm_cached := oput cid [] (cm_cached s1)\<rparr>;
          (s3, o3) = seed_picture w cid hookAll ratio s2;
          o4 = (case IsCursorVisible w of None \<Rightarrow> []
             | Some visible \<Rightarrow> (case mouse_pos w of None \<Rightarrow> []
                 | Some p \<Rightarrow> [callback_call cid (visibility_msg visible p)]))
      in (s3, o0 @ o3 @ o4))"

definition endHook :: "int \<Rightarrow> Monitor \<Rightarrow> Monitor \<times> cursor_effect list" where
  "endHook cid s = ReleaseCursorEventHookIfUnused
     (s\<lparr>cm_callbacks := odel cid (cm_callbacks s), cm_hookAll := odel cid (cm_hookAll s),
        cm_ratios := odel cid (cm_ratios s), cm_cached := odel cid (cm_cached s)\<rparr>)"

definition startPositionHook :: "cursor_world \<Rightarrow> int \<Rightarrow> Monitor \<Rightarrow> Monitor \<times> cursor_effect list" where
  "startPositionHook w cid s =
     (let wasEmpty = (cm_positions s = []);
          (s1, o1) = EnsureCursorEventHook w (s\<lparr>cm_positions := oput cid () (cm_positions s)\<rparr>);
          s2 = (if wasEmpty then s1\<lparr>cm_hasPos := False\<rparr> else s1)
      in case mouse_pos w of None \<Rightarrow> (s2, o1)
         | Some p \<Rightarrow> (if wasEmpty then s2\<lparr>cm_lastPos := mp_position p, cm_hasPos := True\<rparr> else s2,
             o1 @ [callback_call cid (POSITION_CHANGED (mp_screenId p) (mp_x p) (mp_y p))]))"

definition endPositionHook :: "int \<Rightarrow> Monitor \<Rightarrow> Monitor \<times> cursor_effect list" where
  "endPositionHook cid s = ReleaseCursorEventHookIfUnused (s\<lparr>cm_positions := odel cid (cm_positions s)\<rparr>)"

section \<open>Runs\<close>

datatype cursor_op =
    StartOp cursor_world int bool dbl
  | EndOp int
  | StartPositionOp cursor_world int
  | EndPositionOp int
  | SyncOp cursor_world
  | EventOp cursor_world cursor_event bool

fun cursor_step :: "cursor_op \<Rightarrow> Monitor \<Rightarrow> Monitor \<times> cursor_effect list" where
  "cursor_step (StartOp w cid a r) s = startHook w cid a r s"
| "cursor_step (EndOp cid) s = endHook cid s"
| "cursor_step (StartPositionOp w cid) s = startPositionHook w cid s"
| "cursor_step (EndPositionOp cid) s = endPositionHook cid s"
| "cursor_step (SyncOp w) s = syncNow w s"
| "cursor_step (EventOp w e b) s = CursorChangedEventProc w e b s"

fun cursor_run :: "cursor_op list \<Rightarrow> Monitor \<Rightarrow> Monitor \<times> cursor_effect list list" where
  "cursor_run [] s = (s, [])"
| "cursor_run (op # ops) s =
     (let (s1, o1) = cursor_step op s; (s2, os) = cursor_run ops s1 in (s2, o1 # os))"

section \<open>Tables and hook\<close>

definition keys :: "('k \<times> 'v) list \<Rightarrow> 'k set" where
  "keys m = fst ` set m"

lemma keys_oput [simp]: "keys (oput k v m) = insert k (keys m)"
  by (simp add: keys_def set_oput)

lemma keys_odel [simp]: "keys (odel k m) = keys m - {k}"
  by (auto simp: keys_def odel_def image_iff)

lemma keys_Nil [simp]: "keys [] = {}" "keys m = {} \<longleftrightarrow> m = []"
  by (simp_all add: keys_def)

lemma map_of_keys: "map_of m k = None \<longleftrightarrow> k \<notin> keys m"
  by (simp add: keys_def map_of_eq_None_iff)

definition tables_ok :: "Monitor \<Rightarrow> bool" where
  "tables_ok s \<longleftrightarrow> okeys (cm_callbacks s) \<and> okeys (cm_hookAll s) \<and> okeys (cm_ratios s) \<and> okeys (cm_cached s)
     \<and> okeys (cm_positions s) \<and> keys (cm_hookAll s) = keys (cm_callbacks s) \<and> keys (cm_ratios s) = keys (cm_callbacks s)
     \<and> keys (cm_cached s) = keys (cm_callbacks s)"

definition hook_ok :: "Monitor \<Rightarrow> bool" where
  "hook_ok s \<longleftrightarrow> (cm_hook s \<noteq> None \<longrightarrow> cm_callbacks s \<noteq> [] \<or> cm_positions s \<noteq> [])"

text \<open>What a viewer has: it takes every frame once and only references to frames it took.\<close>

fun see :: "cursor_msg list \<Rightarrow> u32 set \<Rightarrow> u32 set option" where
  "see [] S = Some S"
| "see (UPDATED_IMAGE h _ # ms) S = (if h \<in> S then None else see ms (insert h S))"
| "see (UPDATED_CACHED h # ms) S = (if h \<in> S then see ms S else None)"
| "see (_ # ms) S = see ms S"

fun picture :: "cursor_msg \<Rightarrow> bool" where
  "picture (UPDATED_IMAGE _ _) = True"
| "picture (UPDATED_CACHED _) = True"
| "picture _ = False"

definition msgs :: "int \<Rightarrow> cursor_effect list \<Rightarrow> cursor_msg list" where
  "msgs cid out = List.map_filter (\<lambda>e. case e of callback_call k m \<Rightarrow> if k = cid then Some m else None | _ \<Rightarrow> None) out"

lemma msgs_simps [simp]:
  "msgs cid [] = []" "msgs cid (xs @ ys) = msgs cid xs @ msgs cid ys"
  "msgs cid (callback_call k m # xs) = (if k = cid then m # msgs cid xs else msgs cid xs)"
  "msgs cid (SetWinEventHook # xs) = msgs cid xs" "msgs cid (UnhookWinEvent h # xs) = msgs cid xs"
  by (simp_all add: msgs_def List.map_filter_def)

definition quiet :: "cursor_msg list \<Rightarrow> bool" where
  "quiet ms \<longleftrightarrow> (\<forall>m \<in> set ms. \<not> picture m)"

lemma quiet_simps [simp]: "quiet []" "quiet (m # ms) \<longleftrightarrow> \<not> picture m \<and> quiet ms" "quiet (xs @ ys) \<longleftrightarrow> quiet xs \<and> quiet ys"
  by (auto simp: quiet_def)

lemma see_append: "see (xs @ ys) S = (case see xs S of None \<Rightarrow> None | Some T \<Rightarrow> see ys T)"
  by (induction xs S rule: see.induct) auto

lemma see_quiet: "quiet ms \<Longrightarrow> see ms S = Some S"
  by (induction ms S rule: see.induct) auto

lemma quiet_visibility [simp]: "\<not> picture (visibility_msg v p)"
  by (simp add: visibility_msg_def)

lemma quiet_tell_all: "\<not> picture m \<Longrightarrow> quiet (msgs cid (tell_all m s))"
proof -
  have "quiet (msgs cid (map (\<lambda>(k, _). callback_call k m) cs))" if "\<not> picture m" for cs :: "(int \<times> unit) list"
    using that by (induction cs) (auto simp: case_prod_beta)
  then show "\<not> picture m \<Longrightarrow> ?thesis" by (simp add: tell_all_def)
qed

text \<open>
  A step that keeps the subscriptions and the hook, and whose messages every subscriber can follow.
\<close>

definition follows :: "Monitor \<Rightarrow> cursor_effect list \<Rightarrow> Monitor \<Rightarrow> bool" where
  "follows s out s' \<longleftrightarrow> cm_callbacks s' = cm_callbacks s \<and> cm_hookAll s' = cm_hookAll s \<and> cm_ratios s' = cm_ratios s
     \<and> cm_positions s' = cm_positions s \<and> cm_hook s' = cm_hook s \<and> okeys (cm_cached s') \<and> keys (cm_cached s') = keys (cm_cached s)
     \<and> (\<forall>cid. if cid \<in> keys (cm_callbacks s) then see (msgs cid out) (set (cached_for s cid)) = Some (set (cached_for s' cid))
              else quiet (msgs cid out))"

lemma follows_trans: "follows s o1 s1 \<Longrightarrow> follows s1 o2 s2 \<Longrightarrow> follows s (o1 @ o2) s2"
  unfolding follows_def by (auto simp: see_append)

lemma follows_quiet:
  assumes "cm_callbacks s' = cm_callbacks s" "cm_hookAll s' = cm_hookAll s" "cm_ratios s' = cm_ratios s"
    "cm_positions s' = cm_positions s" "cm_hook s' = cm_hook s" "cm_cached s' = cm_cached s" "okeys (cm_cached s)"
    "\<And>cid. quiet (msgs cid out)"
  shows "follows s out s'"
  using assms by (simp add: follows_def see_quiet cached_for_def)

lemma follows_tables: "follows s out s' \<Longrightarrow> tables_ok s \<Longrightarrow> tables_ok s'"
  unfolding follows_def tables_ok_def by metis

lemma follows_hook: "follows s out s' \<Longrightarrow> hook_ok s \<Longrightarrow> hook_ok s'"
  unfolding follows_def hook_ok_def by metis

lemma cached_oput: "okeys (cm_cached s) \<Longrightarrow> cached_for (s\<lparr>cm_cached := oput cid hs (cm_cached s)\<rparr>) k = (if k = cid then hs else cached_for s k)"
  by (simp add: cached_for_def)

lemma send_picture_follows:
  assumes "tables_ok s" "cid \<in> keys (cm_callbacks s)" "send_picture icon sysid cid s = (s', out)"
  shows "follows s out s'"
proof -
  obtain ps w h hx hy where f: "image_fields icon = (ps, w, h, hx, hy)" by (metis prod_cases5)
  define hash where "hash = CursorBitmapHash (take (unat (w * h)) ps) w h hx hy sysid (ratio_for s cid)"
  have ok: "okeys (cm_cached s)" "keys (cm_cached s) = keys (cm_callbacks s)" using assms(1) by (simp_all add: tables_ok_def)
  show ?thesis
  proof (cases "hash \<in> set (cached_for s cid)")
    case True
    with assms(3) have "s' = s" "out = [callback_call cid (UPDATED_CACHED hash)]"
      by (auto simp: send_picture_def f Let_def hash_def [symmetric])
    with True ok assms(2) show ?thesis by (auto simp: follows_def)
  next
    case False
    with assms(3) have "s' = s\<lparr>cm_cached := oput cid (hash # cached_for s cid) (cm_cached s)\<rparr>"
      "out = [callback_call cid (UPDATED_IMAGE hash (EncodeCursorBitmapFrame ps w h hx hy hash sysid (ratio_for s cid)))]"
      by (auto simp: send_picture_def f Let_def hash_def [symmetric])
    with False ok assms(2) show ?thesis by (auto simp: follows_def cached_oput okeys_oput)
  qed
qed

lemma sync_callback_follows:
  assumes "tables_ok s" "cid \<in> keys (cm_callbacks s)" "sync_callback icon h cid s = (s', out)"
  shows "follows s out s'"
proof (cases "h \<noteq> 0 \<and> \<not> hookAll_for s cid")
  case True
  with assms show ?thesis by (auto simp: sync_callback_def tables_ok_def intro: follows_quiet)
next
  case False
  with assms(3) have "send_picture icon (word_of_nat h) cid s = (s', out)" by (auto simp: sync_callback_def)
  with assms show ?thesis by (intro send_picture_follows)
qed

lemma sync_callbacks_follows:
  assumes "tables_ok s" "set ids \<subseteq> keys (cm_callbacks s)" "sync_callbacks icon h ids s = (s', out)"
  shows "follows s out s'"
  using assms
proof (induction ids arbitrary: s s' out)
  case Nil
  then show ?case by (auto simp: tables_ok_def intro: follows_quiet)
next
  case (Cons cid ids)
  obtain s1 o1 where 1: "sync_callback icon h cid s = (s1, o1)" by fastforce
  obtain s2 o2 where 2: "sync_callbacks icon h ids s1 = (s2, o2)" by fastforce
  have f1: "follows s o1 s1" using Cons.prems(1,2) 1 by (intro sync_callback_follows) auto
  have "cm_callbacks s1 = cm_callbacks s" using f1 by (simp add: follows_def)
  with Cons.prems(1,2) follows_tables [OF f1] 2 have "follows s1 o2 s2" by (intro Cons.IH) auto
  with f1 follows_trans Cons.prems(3) 1 2 show ?case by (auto simp: Let_def)
qed

lemma follows_fields:
  "follows (s\<lparr>cm_lastHCursor := x\<rparr>) out s' = follows s out s'"
  "follows (s\<lparr>cm_hasVisible := a, cm_lastVisible := b\<rparr>) out s' = follows s out s'"
  "tables_ok (s\<lparr>cm_lastHCursor := x\<rparr>) = tables_ok s"
  "tables_ok (s\<lparr>cm_hasVisible := a, cm_lastVisible := b\<rparr>) = tables_ok s"
  by (simp_all add: follows_def cached_for_def tables_ok_def)

lemma SyncCursorImage_follows:
  assumes "tables_ok s" "SyncCursorImage w s = (s', out)"
  shows "follows s out s'"
proof (cases "cm_callbacks s = [] \<or> cw_info w = None \<or> snd (the (cw_info w)) = cm_lastHCursor s")
  case True
  with assms have "s' = s" "out = []" by (auto simp: SyncCursorImage_def split: if_splits option.splits)
  with assms(1) show ?thesis by (auto simp: tables_ok_def intro: follows_quiet)
next
  case False
  then obtain fl c where "cw_info w = Some (fl, c)" "c \<noteq> cm_lastHCursor s" by auto
  with False assms(2) have "sync_callbacks (cw_icon w) (GetCursorHandle (cw_loaded w) c) (map fst (cm_callbacks s))
      (s\<lparr>cm_lastHCursor := c\<rparr>) = (s', out)" by (simp add: SyncCursorImage_def)
  from sync_callbacks_follows [OF _ _ this] assms(1) show ?thesis by (simp add: follows_fields keys_def)
qed

lemma tables_cached: "tables_ok s \<Longrightarrow> okeys (cm_cached s)"
  by (simp add: tables_ok_def)

lemma SyncCursorVisibility_follows:
  assumes "tables_ok s" "SyncCursorVisibility w s = (s', out)"
  shows "follows s out s'"
  using assms by (auto simp: SyncCursorVisibility_def tables_cached quiet_tell_all split: option.splits if_splits
      intro!: follows_quiet)

lemma syncNow_follows:
  assumes "tables_ok s" "syncNow w s = (s', out)"
  shows "follows s out s'"
proof (cases "cm_callbacks s = []")
  case True
  with assms show ?thesis by (auto simp: syncNow_def tables_cached intro: follows_quiet)
next
  case False
  obtain s1 o1 where 1: "SyncCursorVisibility w s = (s1, o1)" by fastforce
  obtain s2 o2 where 2: "SyncCursorImage w s1 = (s2, o2)" by fastforce
  note f1 = SyncCursorVisibility_follows [OF assms(1) 1]
  note f2 = SyncCursorImage_follows [OF follows_tables [OF f1 assms(1)] 2]
  from assms(2) False f1 follows_trans [OF f1 f2] show ?thesis by (auto simp: syncNow_def 1 2 split: if_splits)
qed

lemma location_changed_follows:
  assumes "tables_ok s" "location_changed w s = Some (s', out)"
  shows "follows s out s'"
proof -
  have q: "quiet (msgs cid (map (\<lambda>(k, _). callback_call k (POSITION_CHANGED a b c)) ps))" for cid a b c and ps :: "(int \<times> unit) list"
    by (induction ps) (auto simp: case_prod_beta)
  show ?thesis using assms q
    by (auto simp: location_changed_def tables_cached split: option.splits if_splits intro!: follows_quiet)
qed

lemma event_follows:
  assumes "tables_ok s" "CursorChangedEventProc w e b s = (s', out)"
  shows "follows s out s'"
proof -
  have none: "follows s [] s" using assms(1) by (auto simp: tables_cached intro: follows_quiet)
  have shown: "follows s (tell_all (visibility_msg v p) (s\<lparr>cm_hasVisible := True, cm_lastVisible := v\<rparr>))
      (s\<lparr>cm_hasVisible := True, cm_lastVisible := v\<rparr>)" for v p
    using assms(1) by (intro follows_quiet) (simp_all add: tables_cached quiet_tell_all)
  show ?thesis
  proof (cases e)
    case EVENT_OBJECT_SHOW
    let ?s1 = "s\<lparr>cm_hasVisible := True, cm_lastVisible := True\<rparr>"
    obtain s2 o2 where 2: "SyncCursorImage w ?s1 = (s2, o2)" by fastforce
    have t: "tables_ok ?s1" using assms(1) by (simp only: follows_fields)
    show ?thesis using assms(2) EVENT_OBJECT_SHOW none follows_trans [OF shown SyncCursorImage_follows [OF t 2]]
      by (auto simp: CursorChangedEventProc_def 2 Let_def split: option.splits if_splits)
  next
    case EVENT_OBJECT_HIDE
    with assms(2) none shown show ?thesis
      by (auto simp: CursorChangedEventProc_def Let_def split: option.splits if_splits)
  next
    case EVENT_OBJECT_LOCATIONCHANGE
    show ?thesis
    proof (cases "location_changed w s")
      case None
      with assms(2) EVENT_OBJECT_LOCATIONCHANGE none show ?thesis
        by (auto simp: CursorChangedEventProc_def split: if_splits)
    next
      case (Some p)
      obtain s1 o1 where p: "p = (s1, o1)" by fastforce
      obtain s2 o2 where 2: "SyncCursorImage w s1 = (s2, o2)" by fastforce
      note f1 = location_changed_follows [OF assms(1) Some [unfolded p]]
      from assms(2) EVENT_OBJECT_LOCATIONCHANGE none Some p
        follows_trans [OF f1 SyncCursorImage_follows [OF follows_tables [OF f1 assms(1)] 2]]
      show ?thesis by (auto simp: CursorChangedEventProc_def 2 split: if_splits)
    qed
  next
    case EVENT_OBJECT_NAMECHANGE
    with assms none SyncCursorImage_follows [OF assms(1)] show ?thesis
      by (auto simp: CursorChangedEventProc_def split: if_splits)
  next
    case EVENT_OTHER
    with assms(2) none show ?thesis by (auto simp: CursorChangedEventProc_def split: if_splits)
  qed
qed

section \<open>Subscribing and leaving\<close>

lemma seed_picture_follows:
  assumes "tables_ok s" "cid \<in> keys (cm_callbacks s)" "cached_for s cid = []" "seed_picture w cid a r s = (s', out)"
  shows "follows s out s'"
proof -
  have none: "follows s [] s" using assms(1) by (auto simp: tables_cached intro: follows_quiet)
  have dflt: "follows s [callback_call cid (UPDATED_DEFAULT h)] s" for h
    using assms(1) by (auto simp: tables_cached intro: follows_quiet)
  have pic: "follows s [callback_call cid (UPDATED_IMAGE h bs)] (s\<lparr>cm_cached := oput cid (h # cached_for s cid) (cm_cached s)\<rparr>)" for h bs
    using assms(1-3) by (auto simp: follows_def cached_oput tables_ok_def okeys_oput)
  show ?thesis using assms(4) none dflt pic
    by (auto simp: seed_picture_def Let_def split: option.splits if_splits prod.splits)
qed

lemma Ensure_fields:
  assumes "EnsureCursorEventHook w s = (s', out)"
  shows "\<exists>h. s' = s\<lparr>cm_hook := h\<rparr>" "msgs cid out = []"
  using assms by (auto simp: EnsureCursorEventHook_def split: if_splits) (metis Monitor.surjective Monitor.update_convs(1))

lemma startHook_unfold:
  assumes "tables_ok s" "startHook w cid a r s = (s', out)"
  shows "\<exists>s2 o3. tables_ok s2 \<and> hook_ok s2 \<and> keys (cm_callbacks s2) = insert cid (keys (cm_callbacks s))
    \<and> (\<forall>k. cached_for s2 k = (if k = cid then [] else cached_for s k)) \<and> follows s2 o3 s'
    \<and> (\<forall>k. \<exists>v. quiet v \<and> msgs k out = msgs k o3 @ v)"
proof -
  obtain s0 o0 where e: "EnsureCursorEventHook w s = (s0, o0)" by fastforce
  then obtain hk where s0: "s0 = s\<lparr>cm_hook := hk\<rparr>" using Ensure_fields(1) by blast
  define s2 where "s2 = (BindCursorSourceDevicePixelRatio cid r
    (s0\<lparr>cm_callbacks := oput cid () (cm_callbacks s0), cm_hookAll := oput cid a (cm_hookAll s0)\<rparr>))
      \<lparr>cm_cached := oput cid [] (cm_cached s0)\<rparr>"
  obtain s3 o3 where sd: "seed_picture w cid a r s2 = (s3, o3)" by fastforce
  define o4 where "o4 = (case IsCursorVisible w of None \<Rightarrow> []
     | Some visible \<Rightarrow> (case mouse_pos w of None \<Rightarrow> []
         | Some p \<Rightarrow> [callback_call cid (visibility_msg visible p)]))"
  have cc: "cm_cached (BindCursorSourceDevicePixelRatio cid r
    (s0\<lparr>cm_callbacks := oput cid () (cm_callbacks s0), cm_hookAll := oput cid a (cm_hookAll s0)\<rparr>)) = cm_cached s0"
    by (simp add: BindCursorSourceDevicePixelRatio_def)
  have out: "s' = s3" "out = o0 @ o3 @ o4"
    using assms(2) sd unfolding startHook_def Let_def e prod.case cc s2_def [symmetric] o4_def [symmetric] by simp_all
  have t2: "tables_ok s2" using assms(1)
    by (simp add: s2_def BindCursorSourceDevicePixelRatio_def s0 tables_ok_def okeys_oput)
  have h2: "hook_ok s2" by (simp add: s2_def BindCursorSourceDevicePixelRatio_def hook_ok_def flip: keys_Nil(2))
  have k2: "keys (cm_callbacks s2) = insert cid (keys (cm_callbacks s))"
    by (simp add: s2_def BindCursorSourceDevicePixelRatio_def s0)
  have c2: "cached_for s2 k = (if k = cid then [] else cached_for s k)" for k
    using assms(1) by (simp add: s2_def s0 cached_for_def tables_ok_def BindCursorSourceDevicePixelRatio_def)
  have "follows s2 o3 s'" using seed_picture_follows [OF t2 _ _ sd] k2 c2 out by simp
  moreover have "quiet (msgs k o4) \<and> msgs k out = msgs k o3 @ msgs k o4" for k
    using Ensure_fields(2) [OF e, of k] by (auto simp: out o4_def split: option.splits)
  ultimately show ?thesis using t2 h2 k2 c2 by blast
qed

lemma Release_spec:
  assumes "ReleaseCursorEventHookIfUnused s = (s', out)"
  shows "(\<exists>h. s' = s\<lparr>cm_hook := h\<rparr>) \<and> hook_ok s' \<and> msgs cid out = []"
proof -
  have same: "\<exists>h. s = s\<lparr>cm_hook := h\<rparr>" by (rule exI [of _ "cm_hook s"]) simp
  consider "s' = s" "out = []" "cm_callbacks s \<noteq> [] \<or> cm_positions s \<noteq> [] \<or> cm_hook s = None"
    | h where "s' = s\<lparr>cm_hook := None\<rparr>" "out = [UnhookWinEvent h]"
    using assms by (auto simp: ReleaseCursorEventHookIfUnused_def split: if_splits option.splits)
  then show ?thesis
  proof cases
    case 1
    with same show ?thesis by (auto simp: hook_ok_def)
  next
    case 2
    then show ?thesis by (auto simp: hook_ok_def)
  qed
qed

lemma hook_only_tables: "tables_ok (s\<lparr>cm_hook := h\<rparr>) = tables_ok s"
  by (simp add: tables_ok_def)

lemma endHook_spec:
  assumes "tables_ok s" "endHook cid s = (s', out)"
  shows "tables_ok s' \<and> hook_ok s' \<and> keys (cm_callbacks s') = keys (cm_callbacks s) - {cid}
    \<and> (\<forall>k. k \<noteq> cid \<longrightarrow> cached_for s' k = cached_for s k) \<and> (\<forall>k. msgs k out = [])"
proof -
  let ?s = "s\<lparr>cm_callbacks := odel cid (cm_callbacks s), cm_hookAll := odel cid (cm_hookAll s),
        cm_ratios := odel cid (cm_ratios s), cm_cached := odel cid (cm_cached s)\<rparr>"
  have r: "ReleaseCursorEventHookIfUnused ?s = (s', out)" using assms(2) by (simp add: endHook_def)
  note p = Release_spec [OF r]
  then obtain h where h: "s' = ?s\<lparr>cm_hook := h\<rparr>" by blast
  have "tables_ok s'" using assms(1) by (simp add: h tables_ok_def okeys_odel)
  moreover have "hook_ok s'" "\<forall>k. msgs k out = []" using p by blast+
  ultimately show ?thesis using h by (simp add: cached_for_def)
qed

lemma position_frames:
  assumes "tables_ok s"
  shows "startPositionHook w cid s = (s', out) \<Longrightarrow> tables_ok s' \<and> hook_ok s' \<and> keys (cm_callbacks s') = keys (cm_callbacks s)
      \<and> (\<forall>k. cached_for s' k = cached_for s k) \<and> (\<forall>k. quiet (msgs k out))"
    and "endPositionHook cid s = (s', out) \<Longrightarrow> tables_ok s' \<and> hook_ok s' \<and> keys (cm_callbacks s') = keys (cm_callbacks s)
      \<and> (\<forall>k. cached_for s' k = cached_for s k) \<and> (\<forall>k. quiet (msgs k out))"
proof -
  assume a: "startPositionHook w cid s = (s', out)"
  obtain s1 o1 where e: "EnsureCursorEventHook w (s\<lparr>cm_positions := oput cid () (cm_positions s)\<rparr>) = (s1, o1)" by fastforce
  from Ensure_fields [OF e] obtain h where s1: "s1 = s\<lparr>cm_positions := oput cid () (cm_positions s), cm_hook := h\<rparr>"
    and q: "\<And>k. msgs k o1 = []" by auto
  have t: "tables_ok s1" using assms by (simp add: s1 tables_ok_def okeys_oput)
  have n: "cm_positions s1 \<noteq> []" by (simp add: s1 flip: keys_Nil(2))
  from a show "tables_ok s' \<and> hook_ok s' \<and> keys (cm_callbacks s') = keys (cm_callbacks s)
      \<and> (\<forall>k. cached_for s' k = cached_for s k) \<and> (\<forall>k. quiet (msgs k out))"
    using t n q by (auto simp: startPositionHook_def e Let_def hook_ok_def cached_for_def tables_ok_def s1
        split: option.splits if_splits)
next
  assume a: "endPositionHook cid s = (s', out)"
  then have r: "ReleaseCursorEventHookIfUnused (s\<lparr>cm_positions := odel cid (cm_positions s)\<rparr>) = (s', out)"
    by (simp add: endPositionHook_def)
  note p = Release_spec [OF r]
  then obtain h where "s' = s\<lparr>cm_positions := odel cid (cm_positions s), cm_hook := h\<rparr>" by blast
  moreover have "hook_ok s'" "\<forall>k. msgs k out = []" using p by blast+
  ultimately show "tables_ok s' \<and> hook_ok s' \<and> keys (cm_callbacks s') = keys (cm_callbacks s)
      \<and> (\<forall>k. cached_for s' k = cached_for s k) \<and> (\<forall>k. quiet (msgs k out))"
    using assms by (simp add: tables_ok_def okeys_odel cached_for_def)
qed

section \<open>One step\<close>

text \<open>A subscription begins with nothing seen.\<close>

fun seen_before :: "cursor_op \<Rightarrow> int \<Rightarrow> u32 set \<Rightarrow> u32 set" where
  "seen_before (StartOp _ k _ _) cid S = (if k = cid then {} else S)"
| "seen_before _ cid S = S"

definition viewer_at :: "int \<Rightarrow> u32 set \<Rightarrow> Monitor \<Rightarrow> bool" where
  "viewer_at cid S s \<longleftrightarrow> (cid \<in> keys (cm_callbacks s) \<longrightarrow> S = set (cached_for s cid))"

lemma follows_viewer:
  assumes "follows s out s'" "viewer_at cid S s"
  shows "\<exists>S'. see (msgs cid out) S = Some S' \<and> viewer_at cid S' s'"
  using assms see_quiet [of "msgs cid out" S] unfolding follows_def viewer_at_def by (auto split: if_splits)

lemma cursor_step_ok:
  assumes t: "tables_ok s" and h: "hook_ok s" and v: "viewer_at cid S s" and st: "cursor_step op s = (s', out)"
  shows "tables_ok s' \<and> hook_ok s' \<and> (\<exists>S'. see (msgs cid out) (seen_before op cid S) = Some S' \<and> viewer_at cid S' s')"
proof (cases op)
  case (StartOp w k a r)
  with st have "startHook w k a r s = (s', out)" by simp
  from startHook_unfold [OF t this] obtain s2 o3 v' where
    2: "tables_ok s2" "hook_ok s2" "keys (cm_callbacks s2) = insert k (keys (cm_callbacks s))"
    "\<forall>j. cached_for s2 j = (if j = k then [] else cached_for s j)" "follows s2 o3 s'"
    "quiet v'" "msgs cid out = msgs cid o3 @ v'" by metis
  have "viewer_at cid (seen_before op cid S) s2" using v 2(3,4) StartOp by (auto simp: viewer_at_def)
  from follows_viewer [OF 2(5) this] 2 follows_tables [OF 2(5)] follows_hook [OF 2(5)]
  show ?thesis by (auto simp: see_append see_quiet)
next
  case (EndOp k)
  with st have e: "endHook k s = (s', out)" by simp
  have "viewer_at cid S s'" using endHook_spec [OF t e] v by (auto simp: viewer_at_def)
  with endHook_spec [OF t e] EndOp show ?thesis by simp
next
  case (StartPositionOp w k)
  with st have "startPositionHook w k s = (s', out)" by simp
  from position_frames(1) [OF t this] v StartPositionOp show ?thesis by (auto simp: viewer_at_def see_quiet)
next
  case (EndPositionOp k)
  with st have "endPositionHook k s = (s', out)" by simp
  from position_frames(2) [OF t this] v EndPositionOp show ?thesis by (auto simp: viewer_at_def see_quiet)
next
  case (SyncOp w)
  with st have "syncNow w s = (s', out)" by simp
  from syncNow_follows [OF t this] SyncOp follows_tables follows_hook follows_viewer [OF _ v] t h show ?thesis by fastforce
next
  case (EventOp w e b)
  with st have "CursorChangedEventProc w e b s = (s', out)" by simp
  from event_follows [OF t this] EventOp follows_tables follows_hook follows_viewer [OF _ v] t h show ?thesis by fastforce
qed

section \<open>Properties\<close>

text \<open>One viewer's account of a run: every message can be followed.\<close>

fun viewer :: "int \<Rightarrow> u32 set \<Rightarrow> cursor_op list \<Rightarrow> Monitor \<Rightarrow> bool" where
  "viewer cid S [] s \<longleftrightarrow> True"
| "viewer cid S (op # ops) s \<longleftrightarrow>
     (let (s', out) = cursor_step op s in
      case see (msgs cid out) (seen_before op cid S) of None \<Rightarrow> False | Some S' \<Rightarrow> viewer cid S' ops s')"

lemma viewer_run:
  assumes "tables_ok s" "hook_ok s" "viewer_at cid S s"
  shows "viewer cid S ops s"
  using assms
proof (induction ops arbitrary: s S)
  case Nil
  then show ?case by simp
next
  case (Cons op ops)
  obtain s' out where st: "cursor_step op s = (s', out)" by fastforce
  from cursor_step_ok [OF Cons.prems st] obtain S' where
    "tables_ok s'" "hook_ok s'" "see (msgs cid out) (seen_before op cid S) = Some S'" "viewer_at cid S' s'" by blast
  with Cons.IH show ?case by (simp add: st)
qed

lemma init_monitor_ok: "tables_ok init_monitor" "hook_ok init_monitor" "viewer_at cid S init_monitor"
  by (simp_all add: init_monitor_def tables_ok_def hook_ok_def viewer_at_def okeys_def)

lemma cursor_run_ok:
  "tables_ok s \<Longrightarrow> hook_ok s \<Longrightarrow> tables_ok (fst (cursor_run ops s)) \<and> hook_ok (fst (cursor_run ops s))"
proof (induction ops arbitrary: s)
  case Nil
  then show ?case by simp
next
  case (Cons op ops)
  obtain s' out where st: "cursor_step op s = (s', out)" by fastforce
  have "viewer_at 0 (set (cached_for s 0)) s" by (simp add: viewer_at_def)
  from cursor_step_ok [OF Cons.prems this st] Cons.IH show ?case by (simp add: st split_beta)
qed

text \<open>C15: whatever subscriptions, events and answers of Windows occur, a viewer is sent the frame of a
  picture at most once per subscription, and a reference by hash only to a frame it was sent since it
  subscribed.\<close>

theorem viewer_can_follow:
  "viewer cid {} ops init_monitor"
  by (rule viewer_run) (rule init_monitor_ok)+

text \<open>The four tables always describe exactly the subscribed callbacks, and the event hook is
  installed only while somebody is subscribed to the cursor or to its position.\<close>

theorem cursor_tables_agree:
  "let s = fst (cursor_run ops init_monitor); ids = fst ` set (cm_callbacks s) in
     fst ` set (cm_hookAll s) = ids \<and> fst ` set (cm_ratios s) = ids \<and> fst ` set (cm_cached s) = ids
     \<and> (cm_callbacks s = [] \<and> cm_positions s = [] \<longrightarrow> cm_hook s = None)"
  using cursor_run_ok [OF init_monitor_ok(1,2), of ops]
  by (auto simp: Let_def tables_ok_def hook_ok_def keys_def)

definition demo_cursor :: cursor_world where
  "demo_cursor = \<lparr>cw_info = None, cw_icon = None, cw_loaded = (\<lambda>_. 0), cw_snapshot = None, cw_screens = [], cw_new_hook = Some 4\<rparr>"

theorem cursor_tables_agree_witness:
  "cm_hook (fst (cursor_run [StartOp demo_cursor 5 True (Fin 1), EndOp 5] init_monitor)) = None
   \<and> cm_hook (fst (cursor_run [StartOp demo_cursor 5 True (Fin 1)] init_monitor)) = Some 4"
proof -
  let ?ops = "[StartOp demo_cursor 5 True (Fin 1), EndOp 5]"
  have "cm_callbacks (fst (cursor_run ?ops init_monitor)) = [] \<and> cm_positions (fst (cursor_run ?ops init_monitor)) = []
    \<and> cm_hook (fst (cursor_run [StartOp demo_cursor 5 True (Fin 1)] init_monitor)) = Some 4"
    by (simp add: startHook_def EnsureCursorEventHook_def BindCursorSourceDevicePixelRatio_def seed_picture_def
        IsCursorVisible_def ReadCursorVisibilitySnapshot_def demo_cursor_def init_monitor_def endHook_def odel_def
        ReleaseCursorEventHookIfUnused_def)
  with cursor_tables_agree [of ?ops] show ?thesis by (simp add: Let_def)
qed

text \<open>When the cursor's bitmaps cannot be read, a subscriber without pictures is sent an empty one, and as
  the cursor has been recorded, the real one is not sent until the cursor changes again.\<close>

lemma unreadable_picture_is_empty:
  "cached_for s cid = [] \<Longrightarrow> \<exists>h. snd (send_picture None sysid cid s)
     = [callback_call cid (UPDATED_IMAGE h (EncodeCursorBitmapFrame [] 0 0 0 0 h sysid (ratio_for s cid)))]"
  by (simp add: send_picture_def image_fields_def CreateMouseCursorFromHCursor_def Let_def)

lemma recorded_cursor_not_resent:
  "cw_info w = Some (flags, cm_lastHCursor s) \<Longrightarrow> SyncCursorImage w s = (s, [])"
  by (simp add: SyncCursorImage_def)

end
