(* ===== verification/EditFocus.thy ===== *)
theory EditFocus
  imports Coords "HOL-Library.Sublist"
begin

text \<open>
  Deciding whether a remote click landed in a text input, \<open>windows/windows_editing_event_monitor.cc\<close> and
  its users in \<open>windows/hardware_simulator_plugin.cpp\<close>: the classification of an element and the walk up
  its ancestors, the worker thread that inspects the last click once the focus has settled, and the one
  window message that brings a decision to the platform thread. What UI Automation answers about an
  element is a parameter; the two threads are interleaved steps over the shared state.
\<close>

section \<open>Classification\<close>

datatype control_type = EditControl | ComboBoxControl | DocumentControl | OtherControl

record WindowsTextInputTraits =
  control_type_id :: control_type
  supports_text_pattern :: bool
  supports_value_pattern :: bool
  supports_text_edit_pattern :: bool
  has_active_text_caret :: bool
  read_only :: bool
  known_rich_text_editor :: bool

definition IsWindowsTextInputCandidate :: "WindowsTextInputTraits \<Rightarrow> bool" where
  "IsWindowsTextInputCandidate traits =
     (let is_edit = (control_type_id traits = EditControl);
          is_combo = (control_type_id traits = ComboBoxControl \<and> supports_value_pattern traits);
          is_document = (control_type_id traits = DocumentControl \<and>
            (has_active_text_caret traits \<or> (supports_text_pattern traits \<and> known_rich_text_editor traits)));
          supports_editing = (supports_text_edit_pattern traits \<or> has_active_text_caret traits);
          likely_text_input = (is_edit \<or> is_combo \<or> is_document \<or> supports_editing)
      in if \<not> likely_text_input then False
         else if \<not> read_only traits then True
         else is_document \<and> (has_active_text_caret traits \<or> known_rich_text_editor traits))"

definition kPointerHitTolerancePx :: int where "kPointerHitTolerancePx = 8"

definition RectContainsPointWithTolerance :: "rect \<Rightarrow> point \<Rightarrow> bool" where
  "RectContainsPointWithTolerance bounds pt =
     (if r_right bounds \<le> r_left bounds \<or> r_bottom bounds \<le> r_top bounds then False
      else p_x pt \<ge> r_left bounds - kPointerHitTolerancePx \<and> p_x pt \<le> r_right bounds + kPointerHitTolerancePx
         \<and> p_y pt \<ge> r_top bounds - kPointerHitTolerancePx \<and> p_y pt \<le> r_bottom bounds + kPointerHitTolerancePx)"

definition IsWindowsTextInputElementEligible :: "WindowsTextInputTraits \<Rightarrow> bool \<Rightarrow> bool \<Rightarrow> rect \<Rightarrow> point \<Rightarrow> bool" where
  "IsWindowsTextInputElementEligible traits enabled keyboard_focusable bounds pt =
     (IsWindowsTextInputCandidate traits \<and> enabled \<and> keyboard_focusable \<and> RectContainsPointWithTolerance bounds pt)"

section \<open>Process names\<close>

text \<open>ASCII letters only; other characters are outside the range of \<open>tolower\<close>'s change in the C locale.\<close>

definition to_lower :: "nat \<Rightarrow> nat" where
  "to_lower c = (if 65 \<le> c \<and> c \<le> 90 then c + 32 else c)"

definition ToLowerAscii :: "nat list \<Rightarrow> nat list" where
  "ToLowerAscii s = map to_lower s"

definition file_name :: "nat list \<Rightarrow> nat list" where
  "file_name full_path = rev (takeWhile (\<lambda>c. c \<noteq> 92 \<and> c \<noteq> 47) (rev full_path))"

text \<open>\<open>img\<close>: the path of the process's image, if the process can be opened and asked.\<close>

definition ProcessNameFromPid :: "(nat list \<Rightarrow> nat list) \<Rightarrow> (int \<Rightarrow> nat list option) \<Rightarrow> int \<Rightarrow> nat list" where
  "ProcessNameFromPid WideToUtf8 img process_id =
     (if process_id \<le> 0 then []
      else case img process_id of None \<Rightarrow> []
      | Some path \<Rightarrow> if path = [] then [] else
          let name = file_name path in if name = [] then [] else WideToUtf8 name)"

definition winword :: "nat list" where
  "winword = map of_char ''winword.exe''"

definition IsKnownRichTextEditor :: "nat list \<Rightarrow> bool" where
  "IsKnownRichTextEditor process_name = (ToLowerAscii process_name = winword)"

section \<open>Walking up from an element\<close>

text \<open>The properties UI Automation has cached for an element; a failed query leaves its default.\<close>

record uia_element =
  ue_enabled :: bool
  ue_focusable :: bool
  ue_control_type :: control_type
  ue_process_id :: int
  ue_bounds :: rect
  ue_text :: "bool option"
  ue_value :: "bool option"
  ue_text_edit :: "bool option"
  ue_read_only :: "bool option"
  ue_password :: "bool option"
  ue_caret :: "bool option"

definition cached_bool :: "bool option \<Rightarrow> bool" where
  "cached_bool v = (case v of None \<Rightarrow> False | Some b \<Rightarrow> b)"

text \<open>\<open>ue_caret\<close>: the answer of the text pattern about its caret, if it has the pattern and answers.\<close>

definition HasActiveTextCaret :: "uia_element \<Rightarrow> bool" where
  "HasActiveTextCaret e = (case ue_caret e of None \<Rightarrow> False | Some active \<Rightarrow> active)"

definition element_traits :: "(nat list \<Rightarrow> nat list) \<Rightarrow> (int \<Rightarrow> nat list option) \<Rightarrow> uia_element \<Rightarrow> WindowsTextInputTraits" where
  "element_traits wide img e =
     (let supports_text = cached_bool (ue_text e); supports_value = cached_bool (ue_value e);
          supports_text_edit = cached_bool (ue_text_edit e);
          ro = (supports_value \<and> cached_bool (ue_read_only e));
          needs_caret = (ue_control_type e = DocumentControl \<or> supports_text \<or> supports_text_edit);
          active_caret = (needs_caret \<and> HasActiveTextCaret e);
          known = (ue_control_type e = DocumentControl
            \<and> IsKnownRichTextEditor (ProcessNameFromPid wide img (ue_process_id e)))
      in \<lparr>control_type_id = ue_control_type e, supports_text_pattern = supports_text,
          supports_value_pattern = supports_value, supports_text_edit_pattern = supports_text_edit,
          has_active_text_caret = active_caret, read_only = ro, known_rich_text_editor = known\<rparr>)"

definition eligible :: "(nat list \<Rightarrow> nat list) \<Rightarrow> (int \<Rightarrow> nat list option) \<Rightarrow> point \<Rightarrow> uia_element \<Rightarrow> bool" where
  "eligible wide img pt e =
     IsWindowsTextInputElementEligible (element_traits wide img e) (ue_enabled e) (ue_focusable e) (ue_bounds e) pt"

definition kMaximumParentDepth :: nat where "kMaximumParentDepth = 12"

text \<open>
  \<open>chain\<close> is the element with its ancestors as the tree walker gives them, nearest first. The result is
  the password property of the matching element, if one matches.
\<close>

fun match_chain :: "(uia_element \<Rightarrow> bool) \<Rightarrow> nat \<Rightarrow> uia_element list \<Rightarrow> bool option option" where
  "match_chain ok 0 chain = None"
| "match_chain ok (Suc depth) [] = None"
| "match_chain ok (Suc depth) (e # ancestors) = (if ok e then Some (ue_password e) else match_chain ok depth ancestors)"

definition TryMatchTextInputElementChain :: "(nat list \<Rightarrow> nat list) \<Rightarrow> (int \<Rightarrow> nat list option) \<Rightarrow> point \<Rightarrow> uia_element list
    \<Rightarrow> bool option option" where
  "TryMatchTextInputElementChain wide img pt chain = match_chain (eligible wide img pt) kMaximumParentDepth chain"

record WindowsTextInputDecision =
  d_active :: bool
  d_secure :: "bool option"
  d_request :: "int option"

record InspectionRequest =
  ir_point :: point
  ir_sequence :: nat
  ir_request :: "int option"

text \<open>
  What UI Automation answers to an inspection: whether a cache request can be made, and the chains of the
  element at the point and of the focused element, if there are such elements.
\<close>

record uia_world =
  uw_cache :: bool
  uw_at_point :: "point \<Rightarrow> uia_element list option"
  uw_focused :: "uia_element list option"
  uw_wide :: "nat list \<Rightarrow> nat list"
  uw_image :: "int \<Rightarrow> nat list option"

definition Inspect :: "uia_world \<Rightarrow> InspectionRequest \<Rightarrow> WindowsTextInputDecision" where
  "Inspect w request =
     (let none = \<lparr>d_active = False, d_secure = None, d_request = ir_request request\<rparr>;
          match = TryMatchTextInputElementChain (uw_wide w) (uw_image w) (ir_point request)
      in if \<not> uw_cache w then none
         else case (case uw_at_point w (ir_point request) of None \<Rightarrow> None | Some chain \<Rightarrow> match chain) of
           Some secure \<Rightarrow> none\<lparr>d_active := True, d_secure := secure\<rparr>
         | None \<Rightarrow> (case (case uw_focused w of None \<Rightarrow> None | Some chain \<Rightarrow> match chain) of
               Some secure \<Rightarrow> none\<lparr>d_active := True, d_secure := secure\<rparr>
             | None \<Rightarrow> none))"

section \<open>The worker\<close>

text \<open>
  Where the worker thread is: it waits for a click, lets the focus settle for 80 ms, inspects a request,
  has decided and is about to call back, or has ended.
\<close>

datatype worker_phase =
    Waiting
  | Settling
  | Inspecting InspectionRequest
  | Delivering InspectionRequest WindowsTextInputDecision
  | Finished

record WorkerState =
  ws_running :: bool
  ws_callback :: bool
  ws_stop_event :: bool
  ws_request_event :: bool
  ws_pending :: "InspectionRequest option"
  ws_next_sequence :: nat
  ws_signal_due :: bool
  ws_phase :: worker_phase

definition started_worker :: WorkerState where
  "started_worker = \<lparr>ws_running = True, ws_callback = True, ws_stop_event = False, ws_request_event = False,
     ws_pending = None, ws_next_sequence = 0, ws_signal_due = False, ws_phase = Waiting\<rparr>"

text \<open>\<open>cursor\<close>: the position of the cursor, if it can be read; \<open>pt\<close> overrides it.\<close>

definition InspectAfterRemotePointerUp :: "int option \<Rightarrow> point option \<Rightarrow> point option \<Rightarrow> WorkerState \<Rightarrow> WorkerState" where
  "InspectAfterRemotePointerUp request_id pt cursor s =
     (if \<not> ws_running s then s
      else case (case pt of Some p \<Rightarrow> Some p | None \<Rightarrow> cursor) of
        None \<Rightarrow> s
      | Some p \<Rightarrow> s\<lparr>ws_next_sequence := ws_next_sequence s + 1,
            ws_pending := Some \<lparr>ir_point = p, ir_sequence = ws_next_sequence s + 1, ir_request = request_id\<rparr>,
            ws_signal_due := True\<rparr>)"

text \<open>\<open>SetEvent\<close> after the lock has been released.\<close>

definition signal_request :: "WorkerState \<Rightarrow> WorkerState" where
  "signal_request s = (if ws_signal_due s then s\<lparr>ws_signal_due := False, ws_request_event := True\<rparr> else s)"

definition Stop_requests :: "WorkerState \<Rightarrow> WorkerState" where
  "Stop_requests s = s\<lparr>ws_running := False, ws_callback := False, ws_pending := None, ws_stop_event := True\<rparr>"

text \<open>
  The steps of the worker. The stop event wins when both are set; the request event resets itself when it
  wakes the worker.
\<close>

definition worker_wake :: "WorkerState \<Rightarrow> WorkerState" where
  "worker_wake s =
     (if ws_phase s = Waiting \<or> ws_phase s = Settling then
        (if ws_stop_event s then s\<lparr>ws_phase := Finished, ws_running := False\<rparr>
         else if ws_request_event s then s\<lparr>ws_request_event := False, ws_phase := Settling\<rparr>
         else s)
      else s)"

definition worker_timeout :: "WorkerState \<Rightarrow> WorkerState" where
  "worker_timeout s =
     (if ws_phase s = Settling \<and> \<not> ws_stop_event s \<and> \<not> ws_request_event s then
        (case ws_pending s of
           Some r \<Rightarrow> s\<lparr>ws_pending := None, ws_phase := Inspecting r\<rparr>
         | None \<Rightarrow> s\<lparr>ws_phase := Waiting\<rparr>)
      else s)"

text \<open>A wait that fails, the first or the one for the focus to settle, ends the worker.\<close>

definition worker_wait_fails :: "WorkerState \<Rightarrow> WorkerState" where
  "worker_wait_fails s =
     (if ws_phase s = Waiting \<or> ws_phase s = Settling then s\<lparr>ws_phase := Finished, ws_running := False\<rparr> else s)"

text \<open>The inspection and the check whether it has been superseded; \<open>None\<close> keeps the decision.\<close>

definition worker_inspect :: "uia_world \<Rightarrow> WorkerState \<Rightarrow> WorkerState" where
  "worker_inspect w s =
     (case ws_phase s of
        Inspecting r \<Rightarrow>
          (let superseded = (case ws_pending s of None \<Rightarrow> False | Some p \<Rightarrow> ir_sequence p > ir_sequence r)
           in if superseded then s\<lparr>ws_phase := Waiting\<rparr> else s\<lparr>ws_phase := Delivering r (Inspect w r)\<rparr>)
      | _ \<Rightarrow> s)"

definition worker_deliver :: "WorkerState \<Rightarrow> WorkerState \<times> (InspectionRequest \<times> WindowsTextInputDecision) list" where
  "worker_deliver s =
     (case ws_phase s of
        Delivering r d \<Rightarrow> (s\<lparr>ws_phase := Waiting\<rparr>, if ws_callback s then [(r, d)] else [])
      | _ \<Rightarrow> (s, []))"

datatype worker_op =
    Click "int option" "point option" "point option"
  | Signal
  | StopMonitor
  | Wake
  | Timeout
  | WaitFails
  | InspectNow uia_world
  | Deliver

fun worker_step :: "worker_op \<Rightarrow> WorkerState \<Rightarrow> WorkerState \<times> (InspectionRequest \<times> WindowsTextInputDecision) list" where
  "worker_step (Click i p c) s = (InspectAfterRemotePointerUp i p c s, [])"
| "worker_step Signal s = (signal_request s, [])"
| "worker_step StopMonitor s = (Stop_requests s, [])"
| "worker_step Wake s = (worker_wake s, [])"
| "worker_step Timeout s = (worker_timeout s, [])"
| "worker_step WaitFails s = (worker_wait_fails s, [])"
| "worker_step (InspectNow w) s = (worker_inspect w s, [])"
| "worker_step Deliver s = worker_deliver s"

fun worker_run :: "worker_op list \<Rightarrow> WorkerState \<Rightarrow> WorkerState \<times> (InspectionRequest \<times> WindowsTextInputDecision) list" where
  "worker_run [] s = (s, [])"
| "worker_run (op # ops) s = (let (s1, o1) = worker_step op s; (s2, o2) = worker_run ops s1 in (s2, o1 @ o2))"

section \<open>Bringing the decision to the platform thread\<close>

text \<open>\<open>windows_editing_message_posted_\<close> and the decision waiting; \<open>ds_queue\<close>: the messages in the window's queue.\<close>

record DecisionSlot =
  ds_pending :: "WindowsTextInputDecision option"
  ds_posted :: bool
  ds_queue :: nat

definition QueueWindowsTextInputDecision :: "bool \<Rightarrow> WindowsTextInputDecision \<Rightarrow> DecisionSlot \<Rightarrow> DecisionSlot" where
  "QueueWindowsTextInputDecision post_ok decision s =
     (let s1 = s\<lparr>ds_pending := Some decision\<rparr> in
      if ds_posted s1 then s1
      else if \<not> post_ok then s1\<lparr>ds_pending := None, ds_posted := False\<rparr>
      else s1\<lparr>ds_posted := True, ds_queue := ds_queue s1 + 1\<rparr>)"

definition SendWindowsTextInputDecision :: "bool \<Rightarrow> WindowsTextInputDecision \<Rightarrow> WindowsTextInputDecision list" where
  "SendWindowsTextInputDecision channel decision = (if \<not> channel then [] else [decision])"

definition decision_message :: "bool \<Rightarrow> DecisionSlot \<Rightarrow> DecisionSlot \<times> WindowsTextInputDecision list" where
  "decision_message channel s =
     (if ds_queue s = 0 then (s, [])
      else (s\<lparr>ds_pending := None, ds_posted := False, ds_queue := ds_queue s - 1\<rparr>,
            case ds_pending s of None \<Rightarrow> [] | Some d \<Rightarrow> SendWindowsTextInputDecision channel d))"

text \<open>Stopping empties the slot and removes the messages.\<close>

definition StopWindowsEditingEventMonitor :: "DecisionSlot \<Rightarrow> DecisionSlot" where
  "StopWindowsEditingEventMonitor s = s\<lparr>ds_pending := None, ds_posted := False, ds_queue := 0\<rparr>"

section \<open>Lemmas\<close>

text \<open>The requests the clicks of a run make.\<close>

fun made_by :: "worker_op \<Rightarrow> WorkerState \<Rightarrow> InspectionRequest list" where
  "made_by (Click i p c) s =
     (if \<not> ws_running s then []
      else case (case p of Some q \<Rightarrow> Some q | None \<Rightarrow> c) of None \<Rightarrow> []
      | Some q \<Rightarrow> [\<lparr>ir_point = q, ir_sequence = ws_next_sequence s + 1, ir_request = i\<rparr>])"
| "made_by _ s = []"

fun made :: "worker_op list \<Rightarrow> WorkerState \<Rightarrow> InspectionRequest list" where
  "made [] s = []"
| "made (op # ops) s = made_by op s @ made ops (fst (worker_step op s))"

fun phase_requests :: "worker_phase \<Rightarrow> InspectionRequest list" where
  "phase_requests (Inspecting r) = [r]"
| "phase_requests (Delivering r d) = [r]"
| "phase_requests _ = []"

definition held :: "WorkerState \<Rightarrow> InspectionRequest list" where
  "held s = phase_requests (ws_phase s) @ (case ws_pending s of None \<Rightarrow> [] | Some r \<Rightarrow> [r])"

definition worker_ok :: "WorkerState \<Rightarrow> bool" where
  "worker_ok s \<longleftrightarrow> (ws_pending s \<noteq> None \<longrightarrow> ws_request_event s \<or> ws_signal_due s \<or> ws_phase s = Settling
         \<or> ws_phase s = Finished)
     \<and> (ws_stop_event s \<longrightarrow> ws_pending s = None \<and> \<not> ws_running s)
     \<and> (\<forall>r d. ws_phase s = Delivering r d \<longrightarrow> d_request d = ir_request r)"

lemma Inspect_request: "d_request (Inspect w r) = ir_request r"
  by (auto simp: Inspect_def Let_def split: option.splits)

lemma worker_step_ok:
  assumes "worker_step op s = (s', o1)" "worker_ok s"
  shows "worker_ok s' \<and> subseq (map fst o1 @ held s') (held s @ made_by op s)
    \<and> list_all (\<lambda>(r, d). d_request d = ir_request r) o1 \<and> (\<not> ws_callback s \<longrightarrow> o1 = [] \<and> \<not> ws_callback s')"
proof (cases op)
  case (Click i p c)
  have k: "subseq (phase_requests ph @ [x]) (phase_requests ph @ ys @ [x])" for ph x and ys :: "InspectionRequest list"
    by (intro list_emb_append_mono list_emb_append2) simp_all
  show ?thesis
    using assms Click k [of "ws_phase s" _ "case ws_pending s of None \<Rightarrow> [] | Some r \<Rightarrow> [r]"]
    by (auto simp: InspectAfterRemotePointerUp_def held_def worker_ok_def split: option.splits)
next
  case Signal
  then show ?thesis using assms by (cases "ws_signal_due s") (auto simp: signal_request_def held_def worker_ok_def split: if_splits)
next
  case StopMonitor
  have "subseq (phase_requests ph) (phase_requests ph @ ys)" for ph ys by (rule list_emb_prefix) simp
  then show ?thesis using assms StopMonitor by (auto simp: Stop_requests_def held_def worker_ok_def)
next
  case Wake
  then show ?thesis using assms
    by (cases "ws_phase s") (auto simp: worker_wake_def held_def worker_ok_def split: if_splits)
next
  case Timeout
  then show ?thesis using assms
    by (cases "ws_pending s"; cases "ws_phase s") (auto simp: worker_timeout_def held_def worker_ok_def split: if_splits)
next
  case WaitFails
  then show ?thesis using assms by (auto simp: worker_wait_fails_def held_def worker_ok_def split: if_splits)
next
  case (InspectNow w)
  then show ?thesis using assms
    by (cases "ws_phase s"; cases "ws_pending s") (auto simp: worker_inspect_def held_def worker_ok_def Let_def Inspect_request split: if_splits)
next
  case Deliver
  then show ?thesis using assms
    by (cases "ws_phase s"; cases "ws_pending s") (auto simp: worker_deliver_def held_def worker_ok_def)
qed

lemma worker_run_ok:
  "worker_run ops s = (s', out) \<Longrightarrow> worker_ok s \<Longrightarrow>
   worker_ok s' \<and> subseq (map fst out) (held s @ made ops s)
     \<and> list_all (\<lambda>(r, d). d_request d = ir_request r) out \<and> (\<not> ws_callback s \<longrightarrow> out = [])"
proof (induction ops arbitrary: s out)
  case Nil
  then show ?case by auto
next
  case (Cons op ops)
  obtain s1 o1 o2 where st: "worker_step op s = (s1, o1)" and rn: "worker_run ops s1 = (s', o2)" and out: "out = o1 @ o2"
    using Cons.prems(1) by (auto split: prod.splits)
  note a = worker_step_ok [OF st Cons.prems(2)]
  then have "worker_ok s1" by blast
  note b = Cons.IH [OF rn this]
  have b2: "subseq (map fst o2) (held s1 @ made ops s1)" using b by blast
  have a2: "subseq (map fst o1 @ held s1) (held s @ made_by op s)" using a by blast
  have "subseq (map fst o1 @ map fst o2) (map fst o1 @ held s1 @ made ops s1)"
    by (rule list_emb_append_mono [OF subseq_order.order_refl b2])
  also have "subseq \<dots> ((held s @ made_by op s) @ made ops s1)"
    using list_emb_append_mono [OF a2 subseq_order.order_refl [of "made ops s1"]] by simp
  finally show ?case using a b out st by auto
qed

text \<open>The worker ends because it was told to or because a wait has failed.\<close>

lemma worker_step_finishes:
  assumes "ws_phase s = Finished \<longrightarrow> ws_stop_event s" "op \<noteq> WaitFails"
  shows "ws_phase (fst (worker_step op s)) = Finished \<longrightarrow> ws_stop_event (fst (worker_step op s))"
  using assms
  by (cases op) (auto simp: InspectAfterRemotePointerUp_def signal_request_def Stop_requests_def worker_wake_def
      worker_timeout_def worker_inspect_def worker_deliver_def Let_def split: option.splits worker_phase.splits)

lemma worker_run_finishes:
  assumes "ws_phase s = Finished \<longrightarrow> ws_stop_event s" "WaitFails \<notin> set ops"
  shows "ws_phase (fst (worker_run ops s)) = Finished \<longrightarrow> ws_stop_event (fst (worker_run ops s))"
  using assms
proof (induction ops arbitrary: s)
  case (Cons op ops)
  then have "ws_phase (fst (worker_step op s)) = Finished \<longrightarrow> ws_stop_event (fst (worker_step op s))"
    by (intro worker_step_finishes) auto
  from Cons.IH [OF this] Cons.prems(2) show ?case by (simp add: case_prod_beta)
qed simp

lemma worker_run_append:
  "worker_run (xs @ ys) s = (let (s1, o1) = worker_run xs s; (s2, o2) = worker_run ys s1 in (s2, o1 @ o2))"
  by (induction xs arbitrary: s) (auto split: prod.splits simp: Let_def)

section \<open>Properties\<close>

text \<open>C8: for every interleaving of the platform thread with the worker, the decisions reported are those
  of a subsequence of the clicks, in order and once each, under the identifiers of these clicks; after the
  monitor has been stopped none is reported. A click that still waits for its decision is not forgotten: the
  worker has not ended, and its wake-up is due, signalled or already seen; unless a wait of the worker has
  failed, which ends the worker.\<close>

theorem clicks_answered_in_order:
  "let (s, out) = worker_run ops started_worker; (s2, out2) = worker_run ops2 (fst (worker_step StopMonitor s)) in
     subseq (map fst out) (made ops started_worker)
     \<and> map (\<lambda>(r, d). d_request d) out = map (\<lambda>(r, d). ir_request r) out
     \<and> out2 = []
     \<and> (ws_pending s = None \<or> WaitFails \<in> set ops \<and> ws_phase s = Finished
        \<or> ws_phase s \<noteq> Finished \<and> (ws_request_event s \<or> ws_signal_due s \<or> ws_phase s = Settling))"
proof -
  obtain s out where rn: "worker_run ops started_worker = (s, out)" by fastforce
  obtain s2 out2 where rn2: "worker_run ops2 (fst (worker_step StopMonitor s)) = (s2, out2)" by fastforce
  have i: "worker_ok started_worker" "held started_worker = []" by (simp_all add: started_worker_def worker_ok_def held_def)
  note a = worker_run_ok [OF rn i(1)]
  then have "worker_ok (fst (worker_step StopMonitor s))"
    by (metis worker_step_ok prod.collapse)
  from worker_run_ok [OF rn2 this] have "out2 = []" by (simp add: Stop_requests_def)
  moreover have "map (\<lambda>(r, d). d_request d) out = map (\<lambda>(r, d). ir_request r) out"
    using a by (auto simp: list_all_iff)
  moreover have "WaitFails \<notin> set ops \<longrightarrow> ws_phase s = Finished \<longrightarrow> ws_stop_event s"
    using worker_run_finishes [of started_worker ops] rn by (simp add: started_worker_def)
  ultimately show ?thesis using a i(2) rn rn2 by (auto simp: worker_ok_def)
qed

text \<open>A run in which the second click comes while the first is inspected.\<close>

definition demo_uia :: uia_world where
  "demo_uia = \<lparr>uw_cache = True,
     uw_at_point = (\<lambda>p. Some [\<lparr>ue_enabled = True, ue_focusable = True, ue_control_type = EditControl, ue_process_id = 4,
        ue_bounds = \<lparr>r_left = 0, r_top = 0, r_right = 100, r_bottom = 20\<rparr>, ue_text = Some True, ue_value = Some True,
        ue_text_edit = None, ue_read_only = Some False, ue_password = Some False, ue_caret = None\<rparr>]),
     uw_focused = None, uw_wide = (\<lambda>n. n), uw_image = (\<lambda>_. None)\<rparr>"

definition demo_clicks :: "worker_op list" where
  "demo_clicks = [Click (Some 1) None (Some \<lparr>p_x = 0, p_y = 0\<rparr>), Signal, Wake, Timeout,
     Click (Some 2) None (Some \<lparr>p_x = 5, p_y = 5\<rparr>), InspectNow demo_uia, Signal, Wake, Timeout,
     InspectNow demo_uia, Deliver]"

lemma demo_clicks_run:
  "snd (worker_run demo_clicks started_worker)
   = [(\<lparr>ir_point = \<lparr>p_x = 5, p_y = 5\<rparr>, ir_sequence = 2, ir_request = Some 2\<rparr>,
       \<lparr>d_active = True, d_secure = Some False, d_request = Some 2\<rparr>)]"
  "ws_phase (fst (worker_run (take 6 demo_clicks) started_worker)) = Waiting"
  "ws_signal_due (fst (worker_run (take 6 demo_clicks) started_worker))"
  by code_simp+

theorem clicks_answered_in_order_witness:
  "subseq [2] (map ir_sequence (made demo_clicks started_worker))
   \<and> ws_pending (fst (worker_run demo_clicks started_worker)) = None"
proof -
  obtain s out where rn: "worker_run demo_clicks started_worker = (s, out)" by fastforce
  have out: "map fst out = [\<lparr>ir_point = \<lparr>p_x = 5, p_y = 5\<rparr>, ir_sequence = 2, ir_request = Some 2\<rparr>]"
    using demo_clicks_run(1) rn by simp
  have "WaitFails \<notin> set demo_clicks" by (simp add: demo_clicks_def)
  with clicks_answered_in_order [of demo_clicks "[]"] rn
  have sub: "subseq (map fst out) (made demo_clicks started_worker)"
    and p: "ws_pending s = None \<or> ws_request_event s \<or> ws_signal_due s \<or> ws_phase s = Settling"
    by (auto simp: Let_def)
  have "\<not> ws_request_event (fst (worker_run demo_clicks started_worker)) \<and> \<not> ws_signal_due (fst (worker_run demo_clicks started_worker))
    \<and> ws_phase (fst (worker_run demo_clicks started_worker)) = Waiting" by code_simp
  with p rn have "ws_pending s = None" by simp
  then show ?thesis using subseq_map [OF sub, of ir_sequence] out rn by simp
qed

section \<open>Decisions\<close>

text \<open>The walk finds the nearest eligible element among the twelve lowest.\<close>

lemma match_chain_find: "match_chain ok n chain = map_option ue_password (find ok (take n chain))"
proof (induction n arbitrary: chain)
  case 0
  show ?case by simp
next
  case (Suc n)
  show ?case
  proof (cases chain)
    case Nil
    then show ?thesis by simp
  next
    case (Cons e ancestors)
    show ?thesis unfolding Cons match_chain.simps Suc.IH by simp
  qed
qed

lemma Inspect_active:
  "uw_cache w \<Longrightarrow> d_active (Inspect w r) \<longleftrightarrow>
   (\<exists>chain. (uw_at_point w (ir_point r) = Some chain \<or> uw_focused w = Some chain)
     \<and> list_ex (eligible (uw_wide w) (uw_image w) (ir_point r)) (take kMaximumParentDepth chain))"
proof -
  let ?ok = "eligible (uw_wide w) (uw_image w) (ir_point r)"
  let ?m = "TryMatchTextInputElementChain (uw_wide w) (uw_image w) (ir_point r)"
  have m: "?m chain \<noteq> None \<longleftrightarrow> list_ex ?ok (take kMaximumParentDepth chain)" for chain
    unfolding TryMatchTextInputElementChain_def match_chain_find
    by (auto simp: find_None_iff list_ex_iff)
  assume "uw_cache w"
  then have "d_active (Inspect w r) \<longleftrightarrow>
    (\<exists>chain. (uw_at_point w (ir_point r) = Some chain \<or> uw_focused w = Some chain) \<and> ?m chain \<noteq> None)"
    by (cases "uw_at_point w (ir_point r)"; cases "uw_focused w") (auto simp: Inspect_def Let_def split: option.splits)
  then show ?thesis by (simp only: m)
qed

text \<open>A read-only document of the word processor is a target; a read-only field of a form is not.\<close>

lemma read_only_targets:
  "control_type_id t = DocumentControl \<Longrightarrow> supports_text_pattern t \<Longrightarrow> known_rich_text_editor t \<Longrightarrow> IsWindowsTextInputCandidate t"
  "control_type_id t = EditControl \<Longrightarrow> read_only t \<Longrightarrow> \<not> IsWindowsTextInputCandidate t"
  by (auto simp: IsWindowsTextInputCandidate_def Let_def)

text \<open>The slot: a message is posted exactly while a decision waits, and the message takes the last one.\<close>

definition slot_ok :: "DecisionSlot \<Rightarrow> bool" where
  "slot_ok s \<longleftrightarrow> (ds_pending s \<noteq> None \<longleftrightarrow> ds_posted s) \<and> ds_queue s = (if ds_posted s then 1 else 0)"

lemma slot_steps_ok:
  "slot_ok s \<Longrightarrow> slot_ok (QueueWindowsTextInputDecision post_ok d s)"
  "slot_ok s \<Longrightarrow> slot_ok (fst (decision_message channel s))"
  "slot_ok (StopWindowsEditingEventMonitor s)"
  by (auto simp: slot_ok_def QueueWindowsTextInputDecision_def decision_message_def StopWindowsEditingEventMonitor_def Let_def)

lemma last_decision_sent:
  "slot_ok s \<Longrightarrow> snd (decision_message True (QueueWindowsTextInputDecision True d s)) = [d]"
  by (auto simp: slot_ok_def QueueWindowsTextInputDecision_def decision_message_def SendWindowsTextInputDecision_def Let_def)

end
