(* ===== verification/EditWorker.thy ===== *)
theory EditWorker
  imports EditFocus
begin

text \<open>
  The life of a monitor and its worker thread, \<open>windows/windows_editing_event_monitor.cc\<close>: \<open>Start\<close>, \<open>Stop\<close>, and
  the beginning and the end of \<open>WorkerMain\<close>. The state is shared by the monitor and the thread; the last to
  let it go closes its events. Workers are numbered in the order they are made; what the worker does in
  between is in \<open>EditFocus\<close>.
\<close>

section \<open>State\<close>

datatype event_kind = StopEvent | RequestEvent | FinishedEvent

datatype worker_call =
    CreateEvent event_kind
  | CloseEvent event_kind
  | StartWorkerThread
  | JoinWorker
  | DetachWorker
  | CoInitialize
  | CoUninitialize
  | CoEnableCallCancellation
  | CoDisableCallCancellation
  | CreateAutomation
  | ReleaseAutomation
  | CoCancelCall

datatype thread_life = NoThread | Alive | Ended

datatype thread_handle = NoHandle | Joinable | Joined | Detached

record worker =
  wk_events :: "event_kind list"
  wk_thread :: thread_life
  wk_handle :: thread_handle
  wk_com :: bool
  wk_cancellation :: bool
  wk_automation :: bool
  wk_running :: bool
  wk_callback :: bool
  wk_stop_event :: bool
  wk_cancelled :: nat          \<comment> \<open>calls of \<open>CoCancelCall\<close>\<close>

record edit_monitor =
  em_workers :: "worker list"
  em_state :: "nat option"     \<comment> \<open>\<open>state_\<close>\<close>

definition no_monitor :: edit_monitor where
  "no_monitor = \<lparr>em_workers = [], em_state = None\<rparr>"

text \<open>What Windows answers while the monitor starts.\<close>

record worker_answers =
  wa_stop_event :: bool
  wa_request_event :: bool
  wa_finished_event :: bool
  wa_com :: bool
  wa_cancellation :: bool
  wa_automation :: bool
  wa_quick :: bool             \<comment> \<open>a worker that is not ready ends before \<open>Stop\<close> looks at it\<close>
  wa_in_time :: bool           \<comment> \<open>otherwise: it ends while \<open>Stop\<close> waits\<close>

section \<open>Operations\<close>

definition set_worker :: "nat \<Rightarrow> worker \<Rightarrow> edit_monitor \<Rightarrow> edit_monitor" where
  "set_worker i w s = s\<lparr>em_workers := (em_workers s)[i := w]\<rparr>"

definition is_running :: "edit_monitor \<Rightarrow> bool" where
  "is_running s = (case em_state s of None \<Rightarrow> False | Some i \<Rightarrow> wk_running (em_workers s ! i))"

text \<open>The destructor of the shared state.\<close>

definition close_events :: "worker \<Rightarrow> worker_call list" where
  "close_events w = map CloseEvent (filter (\<lambda>k. k \<in> set (wk_events w)) [RequestEvent, StopEvent, FinishedEvent])"

text \<open>\<open>WorkerMain\<close> up to the answer to \<open>Start\<close>: whether it is ready for its loop.\<close>

definition worker_begins :: "worker_answers \<Rightarrow> worker \<Rightarrow> worker \<times> worker_call list" where
  "worker_begins a w =
     (let com_initialized = wa_com a;
          cancellation_enabled = com_initialized \<and> wa_cancellation a;
          ready = com_initialized \<and> wa_automation a
      in (w\<lparr>wk_thread := Alive, wk_com := com_initialized, wk_cancellation := cancellation_enabled, wk_automation := ready,
            wk_running := ready\<rparr>,
          (if com_initialized then [CoInitialize] else []) @ (if cancellation_enabled then [CoEnableCallCancellation] else []) @
          (if ready then [CreateAutomation] else [])))"

text \<open>\<open>WorkerMain\<close> to its end: after its loop, or at once if it is not ready.\<close>

definition worker_ends :: "worker \<Rightarrow> worker \<times> worker_call list" where
  "worker_ends w =
     (if wk_automation w then
        (w\<lparr>wk_thread := Ended, wk_running := False\<rparr>,
         [ReleaseAutomation] @ (if wk_cancellation w then [CoDisableCallCancellation] else []) @ [CoUninitialize])
      else
        (w\<lparr>wk_thread := Ended\<rparr>,
         (if wk_cancellation w then [CoDisableCallCancellation] else []) @ (if wk_com w then [CoUninitialize] else [])))"

text \<open>
  \<open>Stop\<close> for a state. \<open>in_time\<close>: a worker that is alive gets to its end while \<open>Stop\<close> waits for it. The last of the
  two that hold the state closes its events.
\<close>

definition stop_worker :: "bool \<Rightarrow> worker \<Rightarrow> worker \<times> worker_call list" where
  "stop_worker in_time w =
     (let cancel = (wk_thread w = Alive);
          w = w\<lparr>wk_running := False, wk_callback := False, wk_stop_event := True,
                wk_cancelled := wk_cancelled w + (if cancel then 1 else 0)\<rparr>;
          (w, ending) = (if wk_handle w = Joinable \<and> wk_thread w = Alive \<and> in_time then worker_ends w else (w, []));
          (w, handle) = (if wk_handle w \<noteq> Joinable then (w, [])
                         else if wk_thread w = Ended then (w\<lparr>wk_handle := Joined\<rparr>, [JoinWorker])
                         else (w\<lparr>wk_handle := Detached\<rparr>, [DetachWorker]))
      in (w, (if cancel then [CoCancelCall] else []) @ ending @ handle @
             (if wk_thread w = Alive then [] else close_events w)))"

text \<open>Every call is marked with the number of its worker.\<close>

definition Stop :: "bool \<Rightarrow> edit_monitor \<Rightarrow> edit_monitor \<times> (nat \<times> worker_call) list" where
  "Stop in_time s =
     (case em_state s of
        None \<Rightarrow> (s, [])
      | Some i \<Rightarrow>
          let (w, calls) = stop_worker in_time (em_workers s ! i)
          in ((set_worker i w s)\<lparr>em_state := None\<rparr>, map (Pair i) calls))"

text \<open>A worker reaches its end: it is not ready, it was told to stop, or waiting for its events has failed.\<close>

definition thread_ends :: "nat \<Rightarrow> edit_monitor \<Rightarrow> edit_monitor \<times> (nat \<times> worker_call) list" where
  "thread_ends i s =
     (if i < length (em_workers s) \<and> wk_thread (em_workers s ! i) = Alive then
        let (w, calls) = worker_ends (em_workers s ! i)
        in (set_worker i w s, map (Pair i) (calls @ (if em_state s = Some i then [] else close_events w)))
      else (s, []))"

text \<open>
  \<open>None\<close>: the monitor has a state whose worker no longer runs. Its thread object is joinable, and assigning a
  new thread to it terminates the program. (That the new events cannot be created in that state is left out.)
\<close>

definition Start :: "worker_answers \<Rightarrow> edit_monitor \<Rightarrow> (edit_monitor \<times> (nat \<times> worker_call) list \<times> bool) option" where
  "Start a s =
     (if is_running s then Some (s, [], True)
      else if em_state s \<noteq> None then None
      else
        let i = length (em_workers s);
            events = (if wa_stop_event a then [StopEvent] else []) @ (if wa_request_event a then [RequestEvent] else []) @
              (if wa_finished_event a then [FinishedEvent] else []);
            w = \<lparr>wk_events = events, wk_thread = NoThread, wk_handle = NoHandle, wk_com = False, wk_cancellation = False,
              wk_automation = False, wk_running = False, wk_callback = True, wk_stop_event = False, wk_cancelled = 0\<rparr>;
            s = s\<lparr>em_workers := em_workers s @ [w], em_state := Some i\<rparr>;
            created = map CreateEvent events
        in if \<not> (wa_stop_event a \<and> wa_request_event a \<and> wa_finished_event a)
           then (let (s, calls) = Stop True s in Some (s, map (Pair i) created @ calls, False))
           else
             let (w, calls) = worker_begins a w;
                 s = set_worker i (w\<lparr>wk_handle := Joinable\<rparr>) s;
                 calls = map (Pair i) (created @ [StartWorkerThread] @ calls)
             in if wk_running w then Some (s, calls, True)
                else (let (s, ending) = (if wa_quick a then thread_ends i s else (s, []));
                          (s, stopping) = Stop (wa_in_time a) s
                      in Some (s, calls @ ending @ stopping, False)))"

datatype monitor_event = StartMonitor worker_answers | StopMonitorNow bool | ThreadEnds nat

fun monitor_step :: "monitor_event \<Rightarrow> edit_monitor \<Rightarrow> (edit_monitor \<times> (nat \<times> worker_call) list) option" where
  "monitor_step (StartMonitor a) s = map_option (\<lambda>(s', calls, ok). (s', calls)) (Start a s)"
| "monitor_step (StopMonitorNow in_time) s = Some (Stop in_time s)"
| "monitor_step (ThreadEnds i) s = Some (thread_ends i s)"

fun monitor_run :: "monitor_event list \<Rightarrow> edit_monitor \<Rightarrow> (edit_monitor \<times> (nat \<times> worker_call) list) option" where
  "monitor_run [] s = Some (s, [])"
| "monitor_run (e # es) s =
     (case monitor_step e s of None \<Rightarrow> None
      | Some (s1, o1) \<Rightarrow> (case monitor_run es s1 of None \<Rightarrow> None | Some (s2, o2) \<Rightarrow> Some (s2, o1 @ o2)))"

interpretation monitor_life: partial_machine monitor_step monitor_run
  by unfold_locales simp_all

section \<open>The ledger\<close>

text \<open>How often each call has been made for a worker is determined by its state and by whether the monitor holds it.\<close>

definition worker_count :: "bool \<Rightarrow> worker \<Rightarrow> worker_call \<Rightarrow> nat" where
  "worker_count kept w c =
     (case c of
        CreateEvent k \<Rightarrow> of_bool (k \<in> set (wk_events w))
      | CloseEvent k \<Rightarrow> of_bool (k \<in> set (wk_events w) \<and> \<not> kept \<and> wk_thread w \<noteq> Alive)
      | StartWorkerThread \<Rightarrow> of_bool (wk_handle w \<noteq> NoHandle)
      | JoinWorker \<Rightarrow> of_bool (wk_handle w = Joined)
      | DetachWorker \<Rightarrow> of_bool (wk_handle w = Detached)
      | CoInitialize \<Rightarrow> of_bool (wk_com w)
      | CoUninitialize \<Rightarrow> of_bool (wk_com w \<and> wk_thread w \<noteq> Alive)
      | CoEnableCallCancellation \<Rightarrow> of_bool (wk_cancellation w)
      | CoDisableCallCancellation \<Rightarrow> of_bool (wk_cancellation w \<and> wk_thread w \<noteq> Alive)
      | CreateAutomation \<Rightarrow> of_bool (wk_automation w)
      | ReleaseAutomation \<Rightarrow> of_bool (wk_automation w \<and> wk_thread w \<noteq> Alive)
      | CoCancelCall \<Rightarrow> wk_cancelled w)"

definition ledger :: "edit_monitor \<Rightarrow> nat \<times> worker_call \<Rightarrow> nat" where
  "ledger s ic = (if fst ic < length (em_workers s)
     then worker_count (em_state s = Some (fst ic)) (em_workers s ! fst ic) (snd ic) else 0)"

definition worker_wf :: "bool \<Rightarrow> worker \<Rightarrow> bool" where
  "worker_wf kept w \<longleftrightarrow> distinct (wk_events w) \<and> (wk_automation w \<or> wk_cancellation w \<longrightarrow> wk_com w) \<and>
     (wk_handle w = Joinable \<longleftrightarrow> kept) \<and> (wk_running w \<longrightarrow> wk_thread w = Alive \<and> wk_automation w) \<and> (wk_callback w \<longleftrightarrow> kept) \<and>
     (wk_thread w = NoThread \<longleftrightarrow> wk_handle w = NoHandle) \<and> wk_cancelled w \<le> (if kept then 0 else 1)"

definition monitor_wf :: "edit_monitor \<Rightarrow> bool" where
  "monitor_wf s \<longleftrightarrow> (case em_state s of None \<Rightarrow> True | Some i \<Rightarrow> i < length (em_workers s)) \<and>
     (\<forall>i < length (em_workers s). worker_wf (em_state s = Some i) (em_workers s ! i))"

definition booked :: "edit_monitor \<Rightarrow> edit_monitor \<times> (nat \<times> worker_call) list \<Rightarrow> bool" where
  "booked s r \<longleftrightarrow> monitor_wf (fst r) \<and> (\<forall>ic. ledger (fst r) ic = ledger s ic + count_list (snd r) ic)"

lemma booked_refl: "monitor_wf s \<Longrightarrow> booked s (s, [])"
  by (simp add: booked_def)

lemma booked_trans: "booked s (s1, o1) \<Longrightarrow> booked s1 (s2, o2) \<Longrightarrow> booked s (s2, o1 @ o2)"
  by (simp add: booked_def count_list_append)

lemma count_marked: "count_list (map (Pair i) cs) (j, c) = (if i = j then count_list cs c else 0)"
  by (induction cs) auto

lemma count_created: "distinct ks \<Longrightarrow> count_list (map CreateEvent ks) (CreateEvent k) = of_bool (k \<in> set ks)"
  by (induction ks) auto

lemma count_other: "(\<And>k. c \<noteq> f k) \<Longrightarrow> count_list (map f ks) c = 0"
  by (induction ks) auto

lemma count_closed: "count_list (close_events w) c = (case c of CloseEvent k \<Rightarrow> of_bool (k \<in> set (wk_events w)) | _ \<Rightarrow> 0)"
proof (cases c)
  case (CloseEvent k)
  then show ?thesis by (cases k) (auto simp: close_events_def)
qed (auto simp: close_events_def)

text \<open>What the thread and \<open>Stop\<close> do to one worker.\<close>

lemma stop_worker_cases:
  assumes "wk_handle w = Joinable"
  shows "wk_thread w = Ended \<Longrightarrow> stop_worker in_time w =
      (w\<lparr>wk_running := False, wk_callback := False, wk_stop_event := True, wk_handle := Joined\<rparr>, JoinWorker # close_events w)"
    and "wk_thread w = Alive \<Longrightarrow> in_time \<Longrightarrow> stop_worker in_time w =
      (w\<lparr>wk_running := False, wk_callback := False, wk_stop_event := True, wk_cancelled := wk_cancelled w + 1,
         wk_thread := Ended, wk_handle := Joined\<rparr>,
       CoCancelCall # snd (worker_ends w) @ JoinWorker # close_events w)"
    and "wk_thread w = Alive \<Longrightarrow> \<not> in_time \<Longrightarrow> stop_worker in_time w =
      (w\<lparr>wk_running := False, wk_callback := False, wk_stop_event := True, wk_cancelled := wk_cancelled w + 1,
         wk_handle := Detached\<rparr>, [CoCancelCall, DetachWorker])"
  using assms by (simp_all add: stop_worker_def worker_ends_def close_events_def)

lemma count_ends:
  "count_list (snd (worker_ends w)) c = (case c of ReleaseAutomation \<Rightarrow> of_bool (wk_automation w) | CoUninitialize \<Rightarrow> of_bool (wk_automation w \<or> wk_com w)
     | CoDisableCallCancellation \<Rightarrow> of_bool (wk_cancellation w) | _ \<Rightarrow> 0)"
  by (cases c) (simp_all add: worker_ends_def)

lemma stop_worker_booked:
  assumes w: "worker_wf True w"
  shows "worker_wf False (fst (stop_worker in_time w))"
    and "worker_count False (fst (stop_worker in_time w)) c = worker_count True w c + count_list (snd (stop_worker in_time w)) c"
proof -
  have h: "wk_handle w = Joinable" "wk_thread w \<noteq> NoThread" "wk_cancelled w = 0" using w by (auto simp: worker_wf_def)
  note d = stop_worker_cases [OF h(1), of in_time]
  consider "wk_thread w = Ended" | "wk_thread w = Alive" "in_time" | "wk_thread w = Alive" "\<not> in_time"
    using h(2) by (cases "wk_thread w") auto
  then have "worker_wf False (fst (stop_worker in_time w)) \<and>
    worker_count False (fst (stop_worker in_time w)) c = worker_count True w c + count_list (snd (stop_worker in_time w)) c"
  proof cases
    case 1
    with w h show ?thesis unfolding d(1) [OF 1] by (cases c) (simp_all add: worker_wf_def worker_count_def count_closed)
  next
    case 2
    with w h show ?thesis unfolding d(2) [OF 2]
      by (cases c) (simp_all add: worker_wf_def worker_count_def count_closed count_ends)
  next
    case 3
    with w h show ?thesis unfolding d(3) [OF 3] by (cases c) (simp_all add: worker_wf_def worker_count_def)
  qed
  then show "worker_wf False (fst (stop_worker in_time w))"
    and "worker_count False (fst (stop_worker in_time w)) c = worker_count True w c + count_list (snd (stop_worker in_time w)) c"
    by simp_all
qed

lemma worker_ends_booked:
  assumes w: "worker_wf kept w" "wk_thread w = Alive"
  shows "worker_wf kept (fst (worker_ends w))"
    and "worker_count kept (fst (worker_ends w)) c =
      worker_count kept w c + count_list (snd (worker_ends w) @ (if kept then [] else close_events (fst (worker_ends w)))) c"
proof -
  have e: "fst (worker_ends w) = w\<lparr>wk_thread := Ended, wk_running := wk_running w \<and> \<not> wk_automation w\<rparr>"
    by (simp add: worker_ends_def)
  show "worker_wf kept (fst (worker_ends w))" using w unfolding e by (simp add: worker_wf_def)
  show "worker_count kept (fst (worker_ends w)) c =
      worker_count kept w c + count_list (snd (worker_ends w) @ (if kept then [] else close_events (fst (worker_ends w)))) c"
    using w unfolding e count_list_append count_ends
    by (cases kept; cases c) (simp_all add: worker_count_def worker_wf_def count_closed)
qed

text \<open>A worker that changes, and a new one.\<close>

lemma update_booked:
  assumes s: "monitor_wf s" and i: "i < length (em_workers s)" and st: "st = None \<and> em_state s = Some i \<or> st = em_state s"
    and w: "worker_wf (st = Some i) w"
    and c: "\<And>c. worker_count (st = Some i) w c = worker_count (em_state s = Some i) (em_workers s ! i) c + count_list cs c"
  shows "booked s ((set_worker i w s)\<lparr>em_state := st\<rparr>, map (Pair i) cs)"
proof -
  have other: "j \<noteq> i \<Longrightarrow> (st = Some j) = (em_state s = Some j)" for j using st by auto
  have "monitor_wf ((set_worker i w s)\<lparr>em_state := st\<rparr>)"
    using s i st w other by (auto simp: monitor_wf_def set_worker_def nth_list_update split: option.splits)
  moreover have "ledger ((set_worker i w s)\<lparr>em_state := st\<rparr>) (j, k) = ledger s (j, k) + count_list (map (Pair i) cs) (j, k)" for j k
    using i c other [of j] by (cases "j = i") (simp_all add: ledger_def set_worker_def count_marked)
  ultimately show ?thesis by (simp add: booked_def split_paired_all)
qed

lemma append_booked:
  assumes s: "monitor_wf s" "em_state s = None" and w: "worker_wf kept w" and c: "\<And>c. worker_count kept w c = count_list cs c"
  shows "booked s (s\<lparr>em_workers := em_workers s @ [w], em_state := if kept then Some (length (em_workers s)) else None\<rparr>,
    map (Pair (length (em_workers s))) cs)"
proof -
  let ?s = "s\<lparr>em_workers := em_workers s @ [w], em_state := if kept then Some (length (em_workers s)) else None\<rparr>"
  have "monitor_wf ?s" using s w by (auto simp: monitor_wf_def nth_append less_Suc_eq)
  moreover have "ledger ?s (j, k) = ledger s (j, k) + count_list (map (Pair (length (em_workers s))) cs) (j, k)" for j k
    using s c by (auto simp: ledger_def count_marked nth_append)
  ultimately show ?thesis by (simp add: booked_def split_paired_all)
qed

lemma Stop_booked: "monitor_wf s \<Longrightarrow> booked s (Stop in_time s)"
proof (cases "em_state s")
  case (Some i)
  assume s: "monitor_wf s"
  then have i: "i < length (em_workers s)" "worker_wf True (em_workers s ! i)" using Some by (auto simp: monitor_wf_def)
  have "booked s ((set_worker i (fst (stop_worker in_time (em_workers s ! i))) s)\<lparr>em_state := None\<rparr>,
      map (Pair i) (snd (stop_worker in_time (em_workers s ! i))))"
    by (rule update_booked [OF s i(1)]) (use Some stop_worker_booked [OF i(2)] in simp_all)
  then show ?thesis by (simp add: Stop_def Some case_prod_beta)
qed (simp add: Stop_def booked_refl)

lemma thread_ends_booked: "monitor_wf s \<Longrightarrow> booked s (thread_ends i s)"
proof (cases "i < length (em_workers s) \<and> wk_thread (em_workers s ! i) = Alive")
  case True
  assume s: "monitor_wf s"
  let ?k = "em_state s = Some i" and ?w = "em_workers s ! i"
  have w: "worker_wf ?k ?w" using s True by (simp add: monitor_wf_def)
  have "booked s ((set_worker i (fst (worker_ends ?w)) s)\<lparr>em_state := em_state s\<rparr>,
      map (Pair i) (snd (worker_ends ?w) @ (if ?k then [] else close_events (fst (worker_ends ?w)))))"
    by (rule update_booked [OF s]) (use True worker_ends_booked [OF w] in simp_all)
  moreover have "(set_worker i v s)\<lparr>em_state := em_state s\<rparr> = set_worker i v s" for v by (simp add: set_worker_def)
  ultimately show ?thesis using True by (simp add: thread_ends_def case_prod_beta)
qed (auto simp: thread_ends_def booked_refl)

text \<open>A new worker, and one that has begun.\<close>

definition new_worker :: "event_kind list \<Rightarrow> worker" where
  "new_worker ks = \<lparr>wk_events = ks, wk_thread = NoThread, wk_handle = NoHandle, wk_com = False, wk_cancellation = False,
      wk_automation = False, wk_running = False, wk_callback = True, wk_stop_event = False, wk_cancelled = 0\<rparr>"

lemma stop_new_worker: "stop_worker t (new_worker ks) = ((new_worker ks)\<lparr>wk_callback := False, wk_stop_event := True\<rparr>,
    close_events (new_worker ks))"
  by (simp add: stop_worker_def new_worker_def close_events_def)

lemma stop_new_worker_booked:
  assumes "distinct ks"
  shows "worker_wf False (fst (stop_worker t (new_worker ks)))"
    and "worker_count False (fst (stop_worker t (new_worker ks))) c =
      count_list (map CreateEvent ks @ snd (stop_worker t (new_worker ks))) c"
  unfolding stop_new_worker
  subgoal using assms by (simp add: worker_wf_def new_worker_def)
  subgoal using assms by (cases c) (simp_all add: worker_count_def new_worker_def count_closed count_created count_other)
  done

lemma begun_booked:
  assumes "distinct ks" and b_def: "b = (fst (worker_begins a (new_worker ks)))\<lparr>wk_handle := Joinable\<rparr>"
  shows "worker_wf True b" "wk_thread b = Alive" "wk_running b \<longleftrightarrow> wa_com a \<and> wa_automation a"
    and "worker_count True b c = count_list (map CreateEvent ks @ [StartWorkerThread] @ snd (worker_begins a (new_worker ks))) c"
proof -
  have b: "b = (new_worker ks)\<lparr>wk_thread := Alive, wk_handle := Joinable, wk_com := wa_com a,
      wk_cancellation := wa_com a \<and> wa_cancellation a, wk_automation := wa_com a \<and> wa_automation a,
      wk_running := wa_com a \<and> wa_automation a\<rparr>"
    by (simp add: b_def worker_begins_def Let_def)
  show "worker_wf True b" "wk_thread b = Alive" "wk_running b \<longleftrightarrow> wa_com a \<and> wa_automation a"
    using assms(1) by (auto simp: b worker_wf_def new_worker_def)
  show "worker_count True b c = count_list (map CreateEvent ks @ [StartWorkerThread] @ snd (worker_begins a (new_worker ks))) c"
    unfolding b using assms(1)
    by (cases c; cases "wa_com a"; cases "wa_cancellation a"; cases "wa_automation a")
       (simp_all add: worker_begins_def worker_count_def new_worker_def count_created count_other Let_def)
qed

lemma Start_booked:
  assumes s: "monitor_wf s" and r: "Start a s = Some (s', calls, ok)"
  shows "booked s (s', calls)"
proof (cases "is_running s")
  case True
  with r s show ?thesis by (auto simp: Start_def booked_refl)
next
  case False
  then have n: "em_state s = None" using r by (auto simp: Start_def split: if_splits)
  let ?i = "length (em_workers s)"
  define ks where "ks = (if wa_stop_event a then [StopEvent] else []) @ (if wa_request_event a then [RequestEvent] else []) @
      (if wa_finished_event a then [FinishedEvent] else [])"
  have ks: "distinct ks" by (simp add: ks_def)
  let ?at = "\<lambda>w. s\<lparr>em_workers := em_workers s @ [w], em_state := Some ?i\<rparr>"
  have at: "set_worker ?i v (?at u) = ?at v" for u v by (simp add: set_worker_def)
  have stop: "Stop t (?at u) = (s\<lparr>em_workers := em_workers s @ [fst (stop_worker t u)], em_state := None\<rparr>,
      map (Pair ?i) (snd (stop_worker t u)))" for t u
    by (simp add: Stop_def at [of _ u] set_worker_def case_prod_beta)
  show ?thesis
  proof (cases "wa_stop_event a \<and> wa_request_event a \<and> wa_finished_event a")
    case ev: False
    have e: "s' = s\<lparr>em_workers := em_workers s @ [fst (stop_worker True (new_worker ks))], em_state := None\<rparr>"
      "calls = map (Pair ?i) (map CreateEvent ks @ snd (stop_worker True (new_worker ks)))"
      using r False n ev by (simp_all add: Start_def Let_def ks_def [symmetric] new_worker_def [symmetric] stop)
    from append_booked [OF s n, where kept = False, OF stop_new_worker_booked [OF ks]] show ?thesis unfolding e by simp
  next
    case ev: True
    let ?b = "(fst (worker_begins a (new_worker ks)))\<lparr>wk_handle := Joinable\<rparr>"
    let ?cs = "map CreateEvent ks @ [StartWorkerThread] @ snd (worker_begins a (new_worker ks))"
    note b = begun_booked [OF ks refl, of a]
    have begun: "booked s (?at ?b, map (Pair ?i) ?cs)"
      using append_booked [OF s n b(1) b(4)] by simp
    have u: "wk_running (fst (worker_begins a (new_worker ks))) \<longleftrightarrow> wk_running ?b" by simp
    note start = r [unfolded Start_def Let_def, folded ks_def, folded new_worker_def]
    show ?thesis
    proof (cases "wk_running ?b")
      case True
      have "s' = ?at ?b" "calls = map (Pair ?i) ?cs"
        using start False n ev True by (simp_all add: at case_prod_beta)
      with begun show ?thesis by simp
    next
      case nr: False
      define q where "q = (if wa_quick a then thread_ends ?i (?at ?b) else (?at ?b, []))"
      have e: "s' = fst (Stop (wa_in_time a) (fst q))" "calls = map (Pair ?i) ?cs @ snd q @ snd (Stop (wa_in_time a) (fst q))"
        using start False n ev nr by (simp_all add: q_def at case_prod_beta split: if_splits)
      have "booked (?at ?b) q" using begun thread_ends_booked by (auto simp: q_def booked_def)
      then have "booked s (fst q, map (Pair ?i) ?cs @ snd q)" using booked_trans [OF begun] by (metis prod.collapse)
      moreover from this have "booked (fst q) (Stop (wa_in_time a) (fst q))" by (intro Stop_booked) (simp add: booked_def)
      ultimately show ?thesis unfolding e by (metis append.assoc booked_trans prod.collapse)
    qed
  qed
qed

lemma monitor_step_booked:
  assumes "monitor_wf s" "monitor_step e s = Some r"
  shows "booked s r"
  using assms Start_booked by (cases e) (auto simp: Stop_booked thread_ends_booked)

lemma no_monitor_wf: "monitor_wf no_monitor" "ledger no_monitor ic = 0"
  by (simp_all add: no_monitor_def monitor_wf_def ledger_def)

lemma monitor_run_booked: "monitor_wf s \<Longrightarrow> monitor_run es s = Some r \<Longrightarrow> booked s r"
  by (rule monitor_life.run_ok [where legal = monitor_wf])
    (auto intro: booked_refl booked_trans monitor_step_booked simp: booked_def [of _ "(_, _)"])

lemma all_booked:
  assumes "monitor_run es no_monitor = Some (s, calls)"
  shows "monitor_wf s" "count_list calls ic = ledger s ic"
  using monitor_run_booked [OF no_monitor_wf(1) assms] by (simp_all only: booked_def fst_conv snd_conv no_monitor_wf(2) add_0)

text \<open>C9: However a monitor is started and stopped and whenever its threads get to their end, each worker's
  resources are accounted for. No event is created or closed twice; none is closed while the monitor holds
  the state or the thread is alive, and every event that was created is closed once neither does. COM,
  call cancellation and UI Automation are each given back exactly once when the thread has ended, if they were
  obtained, and not before. A thread that was started is joined or detached, exactly once, when the
  monitor lets it go, and at most one call is cancelled for it; from then on there is no callback.
\<close>

theorem worker_resources_balanced:
  assumes "monitor_run es no_monitor = Some (s, calls)" "i < length (em_workers s)"
  defines "w \<equiv> em_workers s ! i" and "kept \<equiv> em_state s = Some i" and "n \<equiv> \<lambda>c. count_list calls (i, c)"
  shows "(\<forall>k. n (CreateEvent k) \<le> 1 \<and> n (CloseEvent k) = (if kept \<or> wk_thread w = Alive then 0 else n (CreateEvent k))) \<and>
    n CoInitialize \<le> 1 \<and> n CoUninitialize = (if wk_thread w = Alive then 0 else n CoInitialize) \<and>
    n CoEnableCallCancellation \<le> n CoInitialize \<and>
    n CoDisableCallCancellation = (if wk_thread w = Alive then 0 else n CoEnableCallCancellation) \<and>
    n CreateAutomation \<le> n CoInitialize \<and> n ReleaseAutomation = (if wk_thread w = Alive then 0 else n CreateAutomation) \<and>
    n StartWorkerThread \<le> 1 \<and> n JoinWorker + n DetachWorker = (if kept then 0 else n StartWorkerThread) \<and>
    n CoCancelCall \<le> (if kept then 0 else 1) \<and> (wk_callback w \<longleftrightarrow> kept)"
proof -
  have w: "worker_wf kept w" using all_booked(1) [OF assms(1)] assms(2) by (simp add: monitor_wf_def w_def kept_def)
  have n: "n c = worker_count kept w c" for c
    using all_booked(2) [OF assms(1)] assms(2) by (simp add: n_def ledger_def w_def kept_def)
  show ?thesis using w unfolding n by (cases "wk_handle w") (auto simp: worker_count_def worker_wf_def)
qed

definition demo_worker_answers :: worker_answers where
  "demo_worker_answers = \<lparr>wa_stop_event = True, wa_request_event = True, wa_finished_event = True, wa_com = True,
     wa_cancellation = True, wa_automation = True, wa_quick = False, wa_in_time = False\<rparr>"

theorem worker_resources_balanced_witness:
  "\<exists>s calls. monitor_run [StartMonitor demo_worker_answers, StopMonitorNow False, ThreadEnds 0] no_monitor = Some (s, calls) \<and>
     count_list calls (0, CloseEvent StopEvent) = 1 \<and> count_list calls (0, DetachWorker) = 1"
proof -
  obtain s calls where r: "monitor_run [StartMonitor demo_worker_answers, StopMonitorNow False, ThreadEnds 0] no_monitor = Some (s, calls)"
    and w: "length (em_workers s) = 1" "em_state s = None" "wk_thread (em_workers s ! 0) = Ended"
      "count_list calls (0, CreateEvent StopEvent) = 1" "count_list calls (0, StartWorkerThread) = 1"
      "count_list calls (0, JoinWorker) = 0"
    by (simp add: Start_def is_running_def no_monitor_def demo_worker_answers_def worker_begins_def set_worker_def Stop_def
        stop_worker_def thread_ends_def worker_ends_def close_events_def Let_def)
  show ?thesis using worker_resources_balanced [OF r, of 0] r w by fastforce
qed

end
