(* ===== verification/Notification.thy ===== *)
theory Notification
  imports Floats "HOL-Library.AList"
begin

text \<open>
  \<open>windows/notification_window.cc\<close>: the window that announces a connection. Showing it runs a message loop of
  its own until a quit message is retrieved; loops nest when another notification is shown meanwhile. The
  object of a window deletes itself while the window is destroyed; a use of it after that is an effect,
  \<open>UsesFreed\<close>. Objects are numbered in the order of their creation.
\<close>

section \<open>State\<close>

definition ANIMATION_DURATION :: int where "ANIMATION_DURATION = 3000"

record notification =
  nt_hwnd :: "nat option"
  nt_fullMessage :: "u16 list"
  nt_buttonHovered :: bool
  nt_animationActive :: bool
  nt_lineX :: int

record notifier =
  nt_instanceCount :: int
  nt_dpi :: rat
  nt_WINDOW_WIDTH :: int
  nt_WINDOW_HEIGHT :: int
  nt_BUTTON_WIDTH :: int
  nt_BUTTON_HEIGHT :: int
  nt_objects :: "(nat \<times> notification) list"  \<comment> \<open>those not deleted\<close>
  nt_next :: nat
  nt_userdata :: "(nat \<times> nat) list"           \<comment> \<open>the object of each window\<close>
  nt_loops :: nat                          \<comment> \<open>calls of \<open>RunMessageLoop\<close> that have not returned\<close>
  nt_quit :: bool                          \<comment> \<open>a quit message waits\<close>

definition init_notifier :: notifier where
  "init_notifier = \<lparr>nt_instanceCount = 0, nt_dpi = 0, nt_WINDOW_WIDTH = 300, nt_WINDOW_HEIGHT = 100, nt_BUTTON_WIDTH = 80,
     nt_BUTTON_HEIGHT = 30, nt_objects = [], nt_next = 0, nt_userdata = [], nt_loops = 0, nt_quit = False\<rparr>"

datatype drawing =
    Background int int
  | MessageText "u16 list"
  | Button bool int int int int
  | ButtonText int int
  | AnimationLine int int int int

datatype notification_call =
    GdiplusStartup
  | GdiplusShutdown
  | RegisterClass
  | CreateWindow int int int int
  | ShowWindow nat
  | UpdateWindow nat
  | SetTimer nat int
  | KillTimer nat
  | InvalidateRect nat
  | Draw "drawing list"
  | DefWindowProc nat
  | PostQuitMessage
  | WindowGone nat
  | UsesFreed nat
  | LoopReturns
  | ApplicationQuits

section \<open>Showing\<close>

text \<open>The products of doubles are cut off towards zero; \<open>n\<close> is the resolution of the temporary window.\<close>

definition GetDpiFromTemporaryWindow :: "nat option \<Rightarrow> int" where
  "GetDpiFromTemporaryWindow n = (case n of None \<Rightarrow> 96 | Some dpi \<Rightarrow> int dpi)"

definition scale_dpi :: "int \<Rightarrow> rat \<Rightarrow> int" where
  "scale_dpi k dpi = trunc (fl 53 (-1074) (of_int k * dpi))"

definition measure_window :: "nat option \<Rightarrow> notifier \<Rightarrow> notifier" where
  "measure_window n s =
     (let dpi = fl 53 (-1074) (of_int (GetDpiFromTemporaryWindow n) / 96)
      in s\<lparr>nt_dpi := dpi, nt_WINDOW_WIDTH := scale_dpi 300 dpi, nt_WINDOW_HEIGHT := scale_dpi 100 dpi,
           nt_BUTTON_WIDTH := scale_dpi 80 dpi, nt_BUTTON_HEIGHT := scale_dpi 30 dpi\<rparr>)"

definition in_button :: "notifier \<Rightarrow> int \<Rightarrow> int \<Rightarrow> bool" where
  "in_button s x y \<longleftrightarrow>
     x \<ge> c_div (nt_WINDOW_WIDTH s) 2 - c_div (nt_BUTTON_WIDTH s) 2 \<and> x \<le> c_div (nt_WINDOW_WIDTH s) 2 + c_div (nt_BUTTON_WIDTH s) 2 \<and>
     y \<ge> nt_WINDOW_HEIGHT s - nt_BUTTON_HEIGHT s - 10 \<and> y \<le> nt_WINDOW_HEIGHT s - 10"

definition DrawWindow :: "notification \<Rightarrow> notifier \<Rightarrow> drawing list" where
  "DrawWindow w s =
     (let left = c_div (nt_WINDOW_WIDTH s) 2 - c_div (nt_BUTTON_WIDTH s) 2;
          top_edge = nt_WINDOW_HEIGHT s - nt_BUTTON_HEIGHT s - 10;
          line_y = nt_WINDOW_HEIGHT s - scale_dpi 5 (nt_dpi s)
      in [Background (nt_WINDOW_WIDTH s) (nt_WINDOW_HEIGHT s), MessageText (nt_fullMessage w),
          Button (nt_buttonHovered w) left top_edge (nt_BUTTON_WIDTH s) (nt_BUTTON_HEIGHT s),
          ButtonText (left + scale_dpi 19 (nt_dpi s)) (top_edge + scale_dpi 5 (nt_dpi s))] @
         (if nt_animationActive w then [AnimationLine (nt_lineX w) line_y (nt_lineX w + scale_dpi 1 (nt_dpi s)) line_y] else []))"

text \<open>
  \<open>created\<close>: the window, if it could be created. \<open>None\<close>: the interval of the timer is divided by a width of
  zero. The two operands are unsigned, for widths and resolutions that are not negative. \<open>UpdateWindow\<close> paints
  at once, before the animation is active.
\<close>

definition CreateAndShowWindow ::
  "nat option \<Rightarrow> int \<Rightarrow> int \<Rightarrow> nat option \<Rightarrow> nat \<Rightarrow> notifier \<Rightarrow> (notifier \<times> notification_call list) option" where
  "CreateAndShowWindow n screenWidth screenHeight created obj s =
     (let s = measure_window n s;
          create = CreateWindow (screenWidth - nt_WINDOW_WIDTH s - scale_dpi 10 (nt_dpi s))
            (screenHeight - nt_WINDOW_HEIGHT s - scale_dpi 40 (nt_dpi s)) (nt_WINDOW_WIDTH s) (nt_WINDOW_HEIGHT s)
      in case created of
           None \<Rightarrow> Some (s, [create])
         | Some hwnd \<Rightarrow>
             if nt_WINDOW_WIDTH s = 0 then None
             else let w = (the (map_of (nt_objects s) obj))\<lparr>nt_hwnd := Some hwnd\<rparr>
                  in Some (s\<lparr>nt_userdata := (hwnd, obj) # nt_userdata s,
                       nt_objects := AList.update obj (w\<lparr>nt_animationActive := True\<rparr>) (nt_objects s)\<rparr>,
                     [create, ShowWindow hwnd, UpdateWindow hwnd, Draw (DrawWindow w s),
                      SetTimer hwnd (scale_dpi ANIMATION_DURATION (nt_dpi s) div nt_WINDOW_WIDTH s)]))"

text \<open>\<open>Show\<close> up to the message loop, which it enters.\<close>

definition Show :: "u16 list \<Rightarrow> nat option \<Rightarrow> int \<Rightarrow> int \<Rightarrow> nat option \<Rightarrow> notifier \<Rightarrow> (notifier \<times> notification_call list) option" where
  "Show fullMessage n screenWidth screenHeight created s =
     (let startup = (if nt_instanceCount s = 0 then [GdiplusStartup] else []);
          obj = nt_next s;
          instance0 = \<lparr>nt_hwnd = None, nt_fullMessage = fullMessage, nt_buttonHovered = False, nt_animationActive = False, nt_lineX = 0\<rparr>;
          s = s\<lparr>nt_instanceCount := nt_instanceCount s + 1, nt_next := obj + 1, nt_objects := (obj, instance0) # nt_objects s\<rparr>
      in case CreateAndShowWindow n screenWidth screenHeight created obj s of
           None \<Rightarrow> None
         | Some (s, calls) \<Rightarrow> Some (s\<lparr>nt_loops := nt_loops s + 1\<rparr>, startup @ [RegisterClass] @ calls))"

section \<open>Messages\<close>

text \<open>\<open>DestroyWindow\<close>: the handling of \<open>WM_DESTROY\<close>, then \<open>WM_NCDESTROY\<close>, for which the window still has its object.\<close>

definition on_destroy :: "nat \<Rightarrow> nat \<Rightarrow> notifier \<Rightarrow> notifier \<times> notification_call list" where
  "on_destroy hwnd obj s =
     (let n = nt_instanceCount s - 1
      in (s\<lparr>nt_objects := AList.delete obj (nt_objects s), nt_instanceCount := n, nt_quit := True\<rparr>,
          [KillTimer hwnd] @ (if n = 0 then [GdiplusShutdown] else []) @ [PostQuitMessage]))"

definition DestroyWindow :: "nat \<Rightarrow> nat \<Rightarrow> notifier \<Rightarrow> notifier \<times> notification_call list" where
  "DestroyWindow hwnd obj s =
     (let (s, calls) = on_destroy hwnd obj s
      in (s\<lparr>nt_userdata := AList.delete hwnd (nt_userdata s)\<rparr>, calls @ [UsesFreed obj, WindowGone hwnd]))"

datatype window_message =
    WmEraseBkgnd
  | WmPaint
  | WmTimer int
  | WmMouseMove int int
  | WmLButtonDown int int
  | WmClose
  | OtherMessage

definition TIMER_ID :: int where "TIMER_ID = 1"

definition set_object :: "nat \<Rightarrow> notification \<Rightarrow> notifier \<Rightarrow> notifier" where
  "set_object obj w s = s\<lparr>nt_objects := AList.update obj w (nt_objects s)\<rparr>"

definition HandleMessage :: "nat \<Rightarrow> nat \<Rightarrow> notification \<Rightarrow> window_message \<Rightarrow> notifier \<Rightarrow> notifier \<times> notification_call list" where
  "HandleMessage hwnd obj w message s =
     (case message of
        WmEraseBkgnd \<Rightarrow> (s, [])
      | WmPaint \<Rightarrow> (s, [Draw (DrawWindow w s)])
      | WmTimer timer \<Rightarrow>
          if timer \<noteq> TIMER_ID then (s, [])
          else let w = w\<lparr>nt_lineX := nt_lineX w + 2\<rparr>
               in if nt_lineX w \<ge> nt_WINDOW_WIDTH s
                  then let (s, calls) = DestroyWindow hwnd obj (set_object obj (w\<lparr>nt_lineX := 0, nt_animationActive := False\<rparr>) s)
                       in (s, [KillTimer hwnd] @ calls @ [UsesFreed obj])
                  else (set_object obj w s, [InvalidateRect hwnd])
      | WmMouseMove x y \<Rightarrow>
          if in_button s x y \<noteq> nt_buttonHovered w
          then (set_object obj (w\<lparr>nt_buttonHovered := in_button s x y\<rparr>) s, [InvalidateRect hwnd])
          else (s, [])
      | WmLButtonDown x y \<Rightarrow> if in_button s x y then DestroyWindow hwnd obj s else (s, [])
      | WmClose \<Rightarrow> (let (s, calls) = DestroyWindow hwnd obj s in (s, [DefWindowProc hwnd] @ calls))
      | OtherMessage \<Rightarrow> (s, [DefWindowProc hwnd]))"

text \<open>The window procedure; a message for a window that is gone is not delivered.\<close>

definition WndProc :: "nat \<Rightarrow> window_message \<Rightarrow> notifier \<Rightarrow> notifier \<times> notification_call list" where
  "WndProc hwnd message s =
     (case map_of (nt_userdata s) hwnd of
        None \<Rightarrow> (s, [])
      | Some obj \<Rightarrow>
          (case map_of (nt_objects s) obj of
             None \<Rightarrow> (s, [UsesFreed obj])
           | Some w \<Rightarrow> HandleMessage hwnd obj w message s))"

text \<open>
  A waiting quit message ends the innermost loop, or that of the application. \<open>PostQuit\<close> is a quit message from
  elsewhere in the thread; two that wait are one. The handle of a new window is not in use.
\<close>

datatype notification_event =
    ShowOp "u16 list" "nat option" int int "nat option"
  | MessageOp nat window_message
  | PostQuit
  | RetrieveQuit

fun notifier_step :: "notification_event \<Rightarrow> notifier \<Rightarrow> (notifier \<times> notification_call list) option" where
  "notifier_step (ShowOp msg n sw sh created) s =
     (if (case created of None \<Rightarrow> False | Some hwnd \<Rightarrow> map_of (nt_userdata s) hwnd \<noteq> None) then Some (s, [])
      else Show msg n sw sh created s)"
| "notifier_step (MessageOp hwnd message) s = Some (WndProc hwnd message s)"
| "notifier_step PostQuit s = Some (s\<lparr>nt_quit := True\<rparr>, [])"
| "notifier_step RetrieveQuit s =
     (if \<not> nt_quit s then Some (s, [])
      else if nt_loops s = 0 then Some (s\<lparr>nt_quit := False\<rparr>, [ApplicationQuits])
      else Some (s\<lparr>nt_quit := False, nt_loops := nt_loops s - 1\<rparr>, [LoopReturns]))"

fun notifier_run :: "notification_event list \<Rightarrow> notifier \<Rightarrow> (notifier \<times> notification_call list) option" where
  "notifier_run [] s = Some (s, [])"
| "notifier_run (e # es) s =
     (case notifier_step e s of None \<Rightarrow> None
      | Some (s1, o1) \<Rightarrow> (case notifier_run es s1 of None \<Rightarrow> None | Some (s2, o2) \<Rightarrow> Some (s2, o1 @ o2)))"

interpretation notifications: partial_machine notifier_step notifier_run
  by unfold_locales simp_all

section \<open>Lifetimes\<close>

definition notifier_wf :: "notifier \<Rightarrow> bool" where
  "notifier_wf s \<longleftrightarrow> nt_instanceCount s = int (length (nt_objects s)) \<and> distinct (map fst (nt_objects s)) \<and>
     list_all (\<lambda>(obj, w). obj < nt_next s) (nt_objects s) \<and> distinct (map fst (nt_userdata s)) \<and> distinct (map snd (nt_userdata s)) \<and>
     list_all (\<lambda>(hwnd, obj). map_option nt_hwnd (map_of (nt_objects s) obj) = Some (Some hwnd)) (nt_userdata s)"

text \<open>GDI+ is started and shut down alternately.\<close>

fun gdiplus :: "notification_call list \<Rightarrow> bool \<Rightarrow> bool option" where
  "gdiplus [] b = Some b"
| "gdiplus (GdiplusStartup # cs) b = (if b then None else gdiplus cs True)"
| "gdiplus (GdiplusShutdown # cs) b = (if b then gdiplus cs False else None)"
| "gdiplus (_ # cs) b = gdiplus cs b"

lemma gdiplus_append: "gdiplus (cs @ ds) b = (case gdiplus cs b of None \<Rightarrow> None | Some b' \<Rightarrow> gdiplus ds b')"
  by (induction cs b rule: gdiplus.induct) auto

definition lively :: "notifier \<Rightarrow> notifier \<times> notification_call list \<Rightarrow> bool" where
  "lively s r \<longleftrightarrow> notifier_wf (fst r) \<and> gdiplus (snd r) (nt_objects s \<noteq> []) = Some (nt_objects (fst r) \<noteq> [])"

lemma lively_refl: "notifier_wf s \<Longrightarrow> lively s (s, [])"
  by (simp add: lively_def)

lemma lively_trans: "lively s (s1, o1) \<Longrightarrow> lively s1 (s2, o2) \<Longrightarrow> lively s (s2, o1 @ o2)"
  by (simp add: lively_def gdiplus_append)

lemma init_notifier_wf: "notifier_wf init_notifier"
  by (simp add: notifier_wf_def init_notifier_def)

text \<open>An object that is changed keeps its place.\<close>

lemma update_existing:
  fixes m :: "('k \<times> 'v) list"
  assumes "map_of m k = Some v"
  shows "map fst (AList.update k v' m) = map fst m" "length (AList.update k v' m) = length m"
    "list_all (\<lambda>(k, v). P k) (AList.update k v' m) = list_all (\<lambda>(k, v). P k) m"
proof -
  show k: "map fst (AList.update k v' m) = map fst m"
    using assms by (simp add: update_keys) (metis fst_conv image_eqI map_of_SomeD)
  show "length (AList.update k v' m) = length m" using arg_cong [OF k, of length] by simp
  have "list_all (\<lambda>(k, v). P k) m' = list_all P (map fst m')" for m' :: "('k \<times> 'v) list"
    by (induction m') auto
  then show "list_all (\<lambda>(k, v). P k) (AList.update k v' m) = list_all (\<lambda>(k, v). P k) m" by (simp add: k)
qed

lemma set_object_wf:
  assumes "notifier_wf s" "map_of (nt_objects s) obj = Some w" "nt_hwnd w' = nt_hwnd w"
  shows "notifier_wf (set_object obj w' s)" "nt_objects (set_object obj w' s) \<noteq> []"
proof -
  show "notifier_wf (set_object obj w' s)"
    using assms update_existing [OF assms(2), where v' = w'] by (auto simp: notifier_wf_def set_object_def list_all_iff update_conv')
  show "nt_objects (set_object obj w' s) \<noteq> []"
    using assms(2) update_existing(2) [OF assms(2), where v' = w'] by (auto simp: set_object_def)
qed

lemma delete_length: "distinct (map fst m) \<Longrightarrow> map_of m k = Some v \<Longrightarrow> Suc (length (AList.delete k m)) = length m"
proof (induction m)
  case (Cons x m)
  have "fst x = k \<Longrightarrow> AList.delete k m = m" using Cons.prems(1) by (intro delete_id) auto
  with Cons show ?case by (cases x) (auto split: if_splits)
qed simp

lemma DestroyWindow_lively:
  assumes s: "notifier_wf s" and u: "map_of (nt_userdata s) hwnd = Some obj" and o: "map_of (nt_objects s) obj = Some w"
  shows "lively s (DestroyWindow hwnd obj s)"
proof -
  let ?os = "AList.delete obj (nt_objects s)" and ?us = "AList.delete hwnd (nt_userdata s)"
  have l: "Suc (length ?os) = length (nt_objects s)" using s o by (auto simp: notifier_wf_def intro: delete_length)
  have "distinct (map fst ?os)" "distinct (map fst ?us)" "distinct (map snd ?us)"
    using s by (auto simp: notifier_wf_def AList.delete_eq distinct_map_filter)
  moreover have "list_all (\<lambda>(obj, w). obj < nt_next s) ?os"
    using s by (auto simp: notifier_wf_def AList.delete_eq list_all_iff)
  moreover have "map_option nt_hwnd (map_of ?os o1) = Some (Some h)" if h: "(h, o1) \<in> set ?us" for h o1
  proof -
    have m: "(h, o1) \<in> set (nt_userdata s)" "h \<noteq> hwnd" using h by (auto simp: AList.delete_eq)
    have "o1 \<noteq> obj"
    proof
      assume "o1 = obj"
      moreover have "(hwnd, obj) \<in> set (nt_userdata s)" using u by (rule map_of_SomeD)
      ultimately show False using m s
        by (auto simp: notifier_wf_def distinct_map dest: inj_onD [where x = "(h, obj)" and y = "(hwnd, obj)"])
    qed
    with m(1) s show ?thesis by (auto simp: notifier_wf_def delete_conv' list_all_iff)
  qed
  ultimately have "notifier_wf (fst (DestroyWindow hwnd obj s))"
    using s l by (auto simp: notifier_wf_def DestroyWindow_def on_destroy_def list_all_iff)
  moreover have "nt_instanceCount s = 1 \<longleftrightarrow> ?os = []" "nt_objects s \<noteq> []"
    using s l by (auto simp: notifier_wf_def)
  then have "gdiplus (snd (DestroyWindow hwnd obj s)) (nt_objects s \<noteq> []) = Some (nt_objects (fst (DestroyWindow hwnd obj s)) \<noteq> [])"
    by (simp add: DestroyWindow_def on_destroy_def)
  ultimately show ?thesis by (simp add: lively_def)
qed

lemma HandleMessage_lively:
  assumes s: "notifier_wf s" and u: "map_of (nt_userdata s) hwnd = Some obj" and o: "map_of (nt_objects s) obj = Some w"
  shows "lively s (HandleMessage hwnd obj w message s)"
proof -
  have set: "lively s (set_object obj w' s, [InvalidateRect hwnd])" if "nt_hwnd w' = nt_hwnd w" for w'
    using set_object_wf [OF s o that] o by (auto simp: lively_def)
  have gone: "lively s (s1, pre @ calls @ post)"
    if "lively s (s1, calls)" "\<And>b. gdiplus pre b = Some b" "\<And>b. gdiplus post b = Some b" for s1 pre calls post
    using that by (simp add: lively_def gdiplus_append)
  show ?thesis
  proof (cases message)
    case (WmTimer timer)
    let ?w = "w\<lparr>nt_lineX := nt_lineX w + 2\<rparr>"
    let ?s = "set_object obj (?w\<lparr>nt_lineX := 0, nt_animationActive := False\<rparr>) s"
    have ws: "notifier_wf ?s" "nt_objects ?s \<noteq> []" using set_object_wf [OF s o, of "?w\<lparr>nt_lineX := 0, nt_animationActive := False\<rparr>"] by auto
    have "map_of (nt_userdata ?s) hwnd = Some obj" using u by (simp add: set_object_def)
    moreover have "map_of (nt_objects ?s) obj = Some (?w\<lparr>nt_lineX := 0, nt_animationActive := False\<rparr>)"
      by (simp add: set_object_def update_conv')
    ultimately have "lively ?s (DestroyWindow hwnd obj ?s)" by (rule DestroyWindow_lively [OF ws(1)])
    moreover have "nt_objects s \<noteq> []" using o by auto
    ultimately have "lively s (DestroyWindow hwnd obj ?s)" using ws(2) by (simp add: lively_def)
    then obtain s1 calls where d: "DestroyWindow hwnd obj ?s = (s1, calls)" "lively s (s1, calls)"
      by (metis prod.collapse)
    then have "lively s (s1, [KillTimer hwnd] @ calls @ [UsesFreed obj])" by (intro gone) simp_all
    with d(1) WmTimer s set [of ?w] show ?thesis by (simp add: HandleMessage_def lively_refl Let_def)
  next
    case WmClose
    obtain s1 calls where d: "DestroyWindow hwnd obj s = (s1, calls)" by fastforce
    have "lively s (s1, [DefWindowProc hwnd] @ calls @ [])"
      using DestroyWindow_lively [OF s u o] d by (intro gone) simp_all
    with d WmClose show ?thesis by (simp add: HandleMessage_def)
  next
    case (WmMouseMove x y)
    have "lively s (set_object obj (w\<lparr>nt_buttonHovered := b\<rparr>) s, [InvalidateRect hwnd])" for b by (rule set) simp
    with s WmMouseMove show ?thesis by (simp add: HandleMessage_def lively_refl)
  next
    case (WmLButtonDown x y)
    with s DestroyWindow_lively [OF s u o] show ?thesis by (simp add: HandleMessage_def lively_refl)
  qed (use s in \<open>simp_all add: HandleMessage_def lively_def\<close>)
qed

lemma WndProc_lively: "notifier_wf s \<Longrightarrow> lively s (WndProc hwnd message s)"
  by (auto simp: WndProc_def lively_def HandleMessage_lively [unfolded lively_def] split: option.splits)

text \<open>A new object, with or without a window of its own.\<close>

lemma add_object_wf:
  assumes "notifier_wf s"
  shows "notifier_wf (s\<lparr>nt_instanceCount := nt_instanceCount s + 1, nt_next := nt_next s + 1, nt_objects := (nt_next s, w) # nt_objects s\<rparr>)"
  using assms by (auto simp: notifier_wf_def list_all_iff dest!: map_of_SomeD)

lemma measured [simp]:
  "notifier_wf (measure_window n s) = notifier_wf s" "nt_objects (measure_window n s) = nt_objects s"
  "nt_userdata (measure_window n s) = nt_userdata s" "nt_loops (measure_window n s) = nt_loops s"
  "nt_quit (measure_window n s) = nt_quit s" "notifier_wf (s\<lparr>nt_loops := l\<rparr>) = notifier_wf s"
  "notifier_wf (s\<lparr>nt_quit := q\<rparr>) = notifier_wf s"
  by (simp_all add: measure_window_def Let_def notifier_wf_def)

lemma add_window_wf:
  assumes s: "notifier_wf s" and o: "map_of (nt_objects s) obj = Some w" and h: "map_of (nt_userdata s) hwnd = None"
    and new: "obj \<notin> snd ` set (nt_userdata s)" and w': "nt_hwnd w' = Some hwnd"
  shows "notifier_wf (s\<lparr>nt_userdata := (hwnd, obj) # nt_userdata s, nt_objects := AList.update obj w' (nt_objects s)\<rparr>)"
proof -
  have "(a, obj) \<notin> set (nt_userdata s)" for a using new by (metis image_eqI snd_conv)
  with s update_existing [OF o, where v' = w'] h new w' show ?thesis
    by (auto simp: notifier_wf_def list_all_iff update_conv' map_of_eq_None_iff)
qed

lemma Show_lively:
  assumes s: "notifier_wf s" and r: "Show msg n sw sh created s = Some r"
    and h: "case created of None \<Rightarrow> True | Some hwnd \<Rightarrow> map_of (nt_userdata s) hwnd = None"
  shows "lively s r"
proof -
  define w where "w = \<lparr>nt_hwnd = None, nt_fullMessage = msg, nt_buttonHovered = False, nt_animationActive = False, nt_lineX = 0\<rparr>"
  define s1 where "s1 = s\<lparr>nt_instanceCount := nt_instanceCount s + 1, nt_next := nt_next s + 1, nt_objects := (nt_next s, w) # nt_objects s\<rparr>"
  have s1: "notifier_wf s1" unfolding s1_def by (rule add_object_wf [OF s])
  have new: "nt_next s \<notin> snd ` set (nt_userdata s)"
    using s by (auto simp: notifier_wf_def list_all_iff dest!: map_of_SomeD) fastforce
  obtain s2 calls where c: "CreateAndShowWindow n sw sh created (nt_next s) s1 = Some (s2, calls)"
    and r': "r = (s2\<lparr>nt_loops := nt_loops s2 + 1\<rparr>, (if nt_instanceCount s = 0 then [GdiplusStartup] else []) @ [RegisterClass] @ calls)"
    using r by (auto simp: Show_def Let_def w_def s1_def split: option.splits)
  have "notifier_wf s2 \<and> nt_objects s2 \<noteq> [] \<and> (\<forall>b. gdiplus calls b = Some b)"
  proof (cases created)
    case None
    with c s1 show ?thesis by (auto simp: CreateAndShowWindow_def Let_def s1_def)
  next
    case (Some hwnd)
    let ?m = "measure_window n s1"
    let ?w = "the (map_of (nt_objects s1) (nt_next s))\<lparr>nt_hwnd := Some hwnd, nt_animationActive := True\<rparr>"
    have "notifier_wf (?m\<lparr>nt_userdata := (hwnd, nt_next s) # nt_userdata ?m, nt_objects := AList.update (nt_next s) ?w (nt_objects ?m)\<rparr>)"
      by (rule add_window_wf [where w = w]) (use s1 h Some new in \<open>simp_all add: s1_def\<close>)
    with c Some show ?thesis by (auto simp: CreateAndShowWindow_def Let_def s1_def split: if_splits)
  qed
  moreover have "nt_instanceCount s = 0 \<longleftrightarrow> nt_objects s = []" using s by (simp add: notifier_wf_def)
  ultimately show ?thesis by (simp add: lively_def r' gdiplus_append)
qed

lemma notifier_step_lively: "notifier_wf s \<Longrightarrow> notifier_step e s = Some r \<Longrightarrow> lively s r"
proof (cases e)
  case (ShowOp msg n sw sh created)
  assume "notifier_wf s" "notifier_step e s = Some r"
  with ShowOp Show_lively [of s msg n sw sh created r] show ?thesis
    by (auto simp: lively_refl split: if_splits option.splits)
next
  case (MessageOp hwnd message)
  assume "notifier_wf s" "notifier_step e s = Some r"
  with MessageOp WndProc_lively [of s hwnd message] show ?thesis by simp
qed (auto simp: lively_def split: if_splits)

lemma notifier_run_lively: "notifier_wf s \<Longrightarrow> notifier_run es s = Some r \<Longrightarrow> lively s r"
proof (rule notifications.run_ok [where legal = notifier_wf and ok = lively])
  show "\<And>s s1 o1. lively s (s1, o1) \<Longrightarrow> notifier_wf s1" by (simp add: lively_def)
  show "\<And>e s r. notifier_wf s \<Longrightarrow> notifier_step e s = Some r \<Longrightarrow> lively s r" by (rule notifier_step_lively)
qed (auto intro: lively_refl lively_trans)

text \<open>Every closing uses the deleted object: once for the last message of the window, once more after a tick.\<close>

lemma WndProc_closing:
  assumes "map_of (nt_userdata s) hwnd = Some obj" "map_of (nt_objects s) obj = Some w"
  shows "count_list (snd (WndProc hwnd message s)) (UsesFreed obj) =
    (if map_of (nt_userdata (fst (WndProc hwnd message s))) hwnd \<noteq> None then 0 else case message of WmTimer t \<Rightarrow> 2 | _ \<Rightarrow> 1)"
  using assms
  by (cases message) (auto simp: WndProc_def HandleMessage_def DestroyWindow_def on_destroy_def set_object_def delete_conv' Let_def)

section \<open>How long a notification is shown\<close>

definition tick :: "nat \<Rightarrow> notification_event" where
  "tick hwnd = MessageOp hwnd (WmTimer TIMER_ID)"

lemma one_tick:
  assumes "map_of (nt_userdata s) hwnd = Some obj" "map_of (nt_objects s) obj = Some w"
  shows "\<exists>s' calls. notifier_step (tick hwnd) s = Some (s', calls) \<and>
    (nt_WINDOW_WIDTH s \<le> nt_lineX w + 2 \<longrightarrow> map_of (nt_userdata s') hwnd = None) \<and>
    (nt_lineX w + 2 < nt_WINDOW_WIDTH s \<longrightarrow> s' = set_object obj (w\<lparr>nt_lineX := nt_lineX w + 2\<rparr>) s)"
proof (cases "nt_lineX w + 2 < nt_WINDOW_WIDTH s")
  case True
  with assms show ?thesis by (simp add: tick_def WndProc_def HandleMessage_def)
next
  case False
  with assms show ?thesis
    by (simp add: tick_def WndProc_def HandleMessage_def DestroyWindow_def on_destroy_def delete_conv' Let_def)
qed

lemma ticks_after_closing:
  "map_of (nt_userdata s) hwnd = None \<Longrightarrow> notifier_run (replicate k (tick hwnd)) s = Some (s, [])"
  by (induction k) (simp_all add: tick_def WndProc_def)

lemma ticks:
  assumes "map_of (nt_userdata s) hwnd = Some obj" "map_of (nt_objects s) obj = Some w" "nt_lineX w < nt_WINDOW_WIDTH s"
  shows "\<exists>s' calls. notifier_run (replicate k (tick hwnd)) s = Some (s', calls) \<and>
    (map_of (nt_userdata s') hwnd \<noteq> None \<longleftrightarrow> nt_lineX w + 2 * int k < nt_WINDOW_WIDTH s)"
  using assms
proof (induction k arbitrary: s w)
  case (Suc k)
  obtain s1 o1 where 1: "notifier_step (tick hwnd) s = Some (s1, o1)"
    "nt_WINDOW_WIDTH s \<le> nt_lineX w + 2 \<Longrightarrow> map_of (nt_userdata s1) hwnd = None"
    "nt_lineX w + 2 < nt_WINDOW_WIDTH s \<Longrightarrow> s1 = set_object obj (w\<lparr>nt_lineX := nt_lineX w + 2\<rparr>) s"
    using one_tick [OF Suc.prems(1,2)] by blast
  show ?case
  proof (cases "nt_lineX w + 2 < nt_WINDOW_WIDTH s")
    case True
    let ?w = "w\<lparr>nt_lineX := nt_lineX w + 2\<rparr>"
    have s1: "s1 = set_object obj ?w s" using 1(3) True .
    have "\<exists>s' calls. notifier_run (replicate k (tick hwnd)) s1 = Some (s', calls) \<and>
        (map_of (nt_userdata s') hwnd \<noteq> None \<longleftrightarrow> nt_lineX ?w + 2 * int k < nt_WINDOW_WIDTH s1)"
      by (rule Suc.IH) (use Suc.prems True in \<open>simp_all add: s1 set_object_def update_conv'\<close>)
    with 1(1) show ?thesis by (auto simp: s1 set_object_def)
  next
    case False
    with 1 ticks_after_closing [of s1 hwnd k] show ?thesis by auto
  qed
qed auto

text \<open>A click that closes lies in the button that is drawn, its edges included.\<close>

lemma in_button_drawn:
  assumes "in_button s x y" "0 \<le> nt_WINDOW_WIDTH s" "0 \<le> nt_BUTTON_WIDTH s"
  shows "\<exists>left upper b. Button b left upper (nt_BUTTON_WIDTH s) (nt_BUTTON_HEIGHT s) \<in> set (DrawWindow w s) \<and>
    left \<le> x \<and> x \<le> left + nt_BUTTON_WIDTH s \<and> upper \<le> y \<and> y \<le> upper + nt_BUTTON_HEIGHT s"
proof -
  have "c_div (nt_BUTTON_WIDTH s) 2 = nt_BUTTON_WIDTH s div 2" using assms(3) by (auto simp: c_div_def sgn_if)
  with assms show ?thesis by (auto simp: DrawWindow_def in_button_def Let_def)
qed

section \<open>The loops\<close>

text \<open>While only notifications post quit messages, each open window has a loop, and none of them ends the application.\<close>

definition loops_ok :: "notifier \<Rightarrow> bool" where
  "loops_ok s \<longleftrightarrow> length (nt_userdata s) + (if nt_quit s then 1 else 0) \<le> nt_loops s"

lemma userdata_delete: "map_of m k = Some v \<Longrightarrow> Suc (length (AList.delete k m)) \<le> length m"
proof (induction m)
  case (Cons x m)
  then show ?case using length_delete_le [of k m] by (cases x) (auto split: if_splits)
qed simp

lemma WndProc_loops:
  assumes "loops_ok s"
  shows "loops_ok (fst (WndProc hwnd message s)) \<and> ApplicationQuits \<notin> set (snd (WndProc hwnd message s))"
proof (cases "map_of (nt_userdata s) hwnd")
  case (Some obj)
  from assms userdata_delete [OF Some] show ?thesis
    by (cases message) (auto simp: WndProc_def Some HandleMessage_def DestroyWindow_def on_destroy_def set_object_def
        loops_ok_def Let_def split: option.split)
qed (use assms in \<open>simp add: WndProc_def\<close>)

lemma Show_loops:
  "loops_ok s \<Longrightarrow> Show msg n sw sh created s = Some (s', calls) \<Longrightarrow> loops_ok s' \<and> ApplicationQuits \<notin> set calls"
  by (auto simp: Show_def CreateAndShowWindow_def measure_window_def loops_ok_def Let_def split: option.splits if_splits)

lemma notifier_run_loops:
  "loops_ok s \<Longrightarrow> PostQuit \<notin> set es \<Longrightarrow> notifier_run es s = Some (s', calls) \<Longrightarrow> loops_ok s' \<and> ApplicationQuits \<notin> set calls"
proof (induction es arbitrary: s s' calls)
  case (Cons e es)
  obtain s1 o1 o2 where 1: "notifier_step e s = Some (s1, o1)" "notifier_run es s1 = Some (s', o2)" "calls = o1 @ o2"
    using Cons.prems(3) by (auto split: option.splits)
  have "loops_ok s1 \<and> ApplicationQuits \<notin> set o1"
  proof (cases e)
    case (ShowOp msg n sw sh created)
    with 1(1) Cons.prems(1) Show_loops [of s msg n sw sh created s1 o1] show ?thesis by (auto split: if_splits option.splits)
  next
    case (MessageOp hwnd message)
    with 1(1) WndProc_loops [OF Cons.prems(1), of hwnd message] show ?thesis by simp
  next
    case RetrieveQuit
    with 1(1) Cons.prems(1) show ?thesis by (auto simp: loops_ok_def split: if_splits)
  qed (use Cons.prems(2) in simp)
  with Cons.IH [OF _ _ 1(2)] Cons.prems(2) 1(3) show ?case by auto
qed simp

section \<open>Properties\<close>


lemma demo_notification:
  "\<exists>s calls. notifier_run [ShowOp [67] None 1920 1080 (Some 7)] init_notifier = Some (s, calls) \<and>
     map_of (nt_userdata s) 7 = Some 0 \<and> nt_WINDOW_WIDTH s = 300"
proof -
  have "fl 53 (- 1074) (of_int 1) = 1" "fl 53 (- 1074) (of_int 300) = 300" using fl_int [of 1 53 "- 1074"] fl_int [of 300 53 "- 1074"] by auto
  then have "fl 53 (- 1074) 1 = 1" "trunc (fl 53 (- 1074) 300) = 300" using trunc_of_int [of 300] by auto
  then show ?thesis
    by (simp add: init_notifier_def Show_def CreateAndShowWindow_def measure_window_def GetDpiFromTemporaryWindow_def
        scale_dpi_def Let_def)
qed


text \<open>A notification closes with the tick that takes its line across the window, two pixels each.\<close>

lemma notification_closes_by_itself:
  assumes "notifier_wf s" "map_of (nt_userdata s) hwnd = None" "Show msg n sw sh (Some hwnd) s = Some (s1, o1)"
    "0 < nt_WINDOW_WIDTH s1"
  shows "\<exists>s' calls. notifier_run (replicate k (tick hwnd)) s1 = Some (s', calls) \<and>
    (map_of (nt_userdata s') hwnd \<noteq> None \<longleftrightarrow> 2 * int k < nt_WINDOW_WIDTH s1)"
proof -
  obtain w where "map_of (nt_userdata s1) hwnd = Some (nt_next s)" "map_of (nt_objects s1) (nt_next s) = Some w" "nt_lineX w = 0"
    using assms(3) by (auto simp: Show_def CreateAndShowWindow_def measure_window_def update_conv' Let_def split: if_splits)
  with ticks [of s1 hwnd "nt_next s" w k] assms(4) show ?thesis by simp
qed

text \<open>
  Open windows always have a loop, and their quit messages stay with the loops. A quit message of the
  application is taken by the loop of a notification all the same.
\<close>

lemma notification_loops:
  assumes "PostQuit \<notin> set es" "notifier_run es init_notifier = Some (s, calls)"
  shows "length (nt_userdata s) \<le> nt_loops s \<and> ApplicationQuits \<notin> set calls"
  using notifier_run_loops [OF _ assms] by (auto simp: loops_ok_def init_notifier_def split: if_splits)

lemma quit_taken_by_loop:
  assumes "0 < nt_loops s"
  shows "\<exists>s'. notifier_run [PostQuit, RetrieveQuit] s = Some (s', [LoopReturns]) \<and> \<not> nt_quit s'"
  using assms by simp

text \<open>A window that cannot be created leaves its object, and a loop that only a quit message from elsewhere ends.\<close>

lemma failed_window_leaks:
  assumes "Show msg n sw sh None s = Some (s1, o1)"
  shows "length (nt_objects s1) = Suc (length (nt_objects s)) \<and> nt_userdata s1 = nt_userdata s \<and> nt_loops s1 = Suc (nt_loops s)"
  using assms by (auto simp: Show_def CreateAndShowWindow_def measure_window_def Let_def)

end
