(* ===== verification/LinuxKeyboard.thy ===== *)
theory LinuxKeyboard
  imports Prelude
begin

text \<open>
  The Linux keyboard of \<open>linux/linux_keyboard.h\<close>: a \<open>uinput\<close> device and the set of keys it holds
  down. Every write to the device may fail; the answers of the kernel are the list \<open>ui_answers\<close>, read
  one per write (no error when it is exhausted), and every write is logged with its answer. The mapping
  of Windows key codes belongs to \<open>inputtino\<close> and is a parameter.
\<close>

section \<open>The device\<close>

datatype uinput_event = EV_KEY int bool | SYN_REPORT

record uinput =
  ui_answers :: "int list"
  ui_log :: "(uinput_event \<times> int) list"

definition libevdev_uinput_write_event :: "uinput_event \<Rightarrow> uinput \<Rightarrow> int \<times> uinput" where
  "libevdev_uinput_write_event e u =
     (let r = (case ui_answers u of [] \<Rightarrow> 0 | a # _ \<Rightarrow> a)
      in (r, u\<lparr>ui_answers := tl (ui_answers u), ui_log := ui_log u @ [(e, r)]\<rparr>))"

section \<open>The keyboard\<close>

text \<open>\<open>std::set\<close> is an ordered list without repetition.\<close>

record LinuxKeyboard =
  lk_device :: bool
  lk_pressed :: "int list"
  lk_sync_pending :: bool

definition new_keyboard :: LinuxKeyboard where
  "new_keyboard = \<lparr>lk_device = False, lk_pressed = [], lk_sync_pending = False\<rparr>"

definition EINVAL :: int where "EINVAL = 22"
definition ENOMEM :: int where "ENOMEM = 12"

definition keycode :: "(int \<Rightarrow> int option) \<Rightarrow> int \<Rightarrow> int" where
  "keycode key_mappings vk =
     (if vk < 0 \<or> vk > 0xff then 0
      else case key_mappings vk of None \<Rightarrow> 0 | Some linux_code \<Rightarrow> linux_code)"

text \<open>
  \<open>create\<close> is the outcome of creating the device: \<open>None\<close> when \<open>libevdev_new\<close> fails, otherwise the
  result of \<open>libevdev_uinput_create_from_device\<close>, which sets the device only when it is not negative.
\<close>

definition initialize :: "int option \<Rightarrow> LinuxKeyboard \<Rightarrow> int \<times> LinuxKeyboard" where
  "initialize create k =
     (if lk_device k then (0, k)
      else case create of None \<Rightarrow> (- ENOMEM, k)
      | Some result \<Rightarrow> (result, if result < 0 then k else k\<lparr>lk_device := True\<rparr>))"

definition synchronize :: "LinuxKeyboard \<Rightarrow> uinput \<Rightarrow> int \<times> LinuxKeyboard \<times> uinput" where
  "synchronize k u =
     (let (result, u') = libevdev_uinput_write_event SYN_REPORT u
      in (result, k\<lparr>lk_sync_pending := (result < 0)\<rparr>, u'))"

definition send :: "(int \<Rightarrow> int option) \<Rightarrow> int option \<Rightarrow> int \<Rightarrow> bool \<Rightarrow> LinuxKeyboard \<Rightarrow> uinput
    \<Rightarrow> int \<times> LinuxKeyboard \<times> uinput" where
  "send key_mappings create vk down k u =
     (let code = keycode key_mappings vk in
      if code = 0 then (- EINVAL, k, u)
      else let (init, k1) = initialize create k in
        if init < 0 then (init, k1, u)
        else if down = (code \<in> set (lk_pressed k1)) then
          (if lk_sync_pending k1 then synchronize k1 u else (0, k1, u))
        else let (result, u1) = libevdev_uinput_write_event (EV_KEY code down) u in
          if result < 0 then (result, k1, u1)
          else synchronize (k1\<lparr>lk_pressed := (if down then insort code (lk_pressed k1)
                                             else remove1 code (lk_pressed k1))\<rparr>) u1)"

text \<open>The loop of \<open>clear\<close>: the keys whose release failed stay, and the last such error is kept.\<close>

fun release_keys :: "int list \<Rightarrow> int \<Rightarrow> uinput \<Rightarrow> int list \<times> int \<times> uinput" where
  "release_keys [] error u = ([], error, u)"
| "release_keys (c # cs) error u =
     (let (result, u1) = libevdev_uinput_write_event (EV_KEY c False) u in
      if result < 0 then let (kept, e, u2) = release_keys cs result u1 in (c # kept, e, u2)
      else release_keys cs error u1)"

definition clear_keys :: "LinuxKeyboard \<Rightarrow> uinput \<Rightarrow> int \<times> LinuxKeyboard \<times> uinput" where
  "clear_keys k u =
     (let (kept, error, u1) = release_keys (lk_pressed k) 0 u;
          k1 = k\<lparr>lk_pressed := kept\<rparr>
      in if lk_device k1 then
           let (result, k2, u2) = synchronize k1 u1 in ((if result < 0 then result else error), k2, u2)
         else (error, k1, u1))"

section \<open>What the kernel sees\<close>

text \<open>
  Key events the device accepted take effect for its readers with the next accepted \<open>SYN_REPORT\<close>.
\<close>

record kernel_keys =
  kk_written :: "int set"
  kk_reported :: "int set"

definition kernel_step :: "kernel_keys \<Rightarrow> uinput_event \<times> int \<Rightarrow> kernel_keys" where
  "kernel_step s e =
     (if snd e < 0 then s
      else case fst e of
        EV_KEY c down \<Rightarrow> s\<lparr>kk_written := (if down then insert c (kk_written s) else kk_written s - {c})\<rparr>
      | SYN_REPORT \<Rightarrow> s\<lparr>kk_reported := kk_written s\<rparr>)"

definition kernel :: "uinput \<Rightarrow> kernel_keys" where
  "kernel u = foldl kernel_step \<lparr>kk_written = {}, kk_reported = {}\<rparr> (ui_log u)"

datatype key_request = SendKey int bool | ClearKeys

text \<open>The contract: a request that succeeds has its whole effect, one that fails may have a part of it.\<close>

fun key_spec :: "(int \<Rightarrow> int option) \<Rightarrow> key_request \<Rightarrow> int \<Rightarrow> int set \<Rightarrow> int set \<Rightarrow> bool" where
  "key_spec km (SendKey vk down) r P P' =
     (let c = keycode km vk; Q = (if down then insert c P else P - {c})
      in if r < 0 then P' = P \<or> c \<noteq> 0 \<and> P' = Q else c \<noteq> 0 \<and> P' = Q)"
| "key_spec km ClearKeys r P P' = (if r < 0 then P' \<subseteq> P else P' = {})"

fun key_step :: "(int \<Rightarrow> int option) \<Rightarrow> int option \<Rightarrow> key_request \<Rightarrow> LinuxKeyboard \<Rightarrow> uinput
    \<Rightarrow> int \<times> LinuxKeyboard \<times> uinput" where
  "key_step km create (SendKey vk down) k u = send km create vk down k u"
| "key_step km create ClearKeys k u = clear_keys k u"

text \<open>A run of requests, each with what creating the device would answer then.\<close>

fun key_run :: "(int \<Rightarrow> int option) \<Rightarrow> (key_request \<times> int option) list \<Rightarrow> LinuxKeyboard \<Rightarrow> uinput
    \<Rightarrow> int list \<times> LinuxKeyboard \<times> uinput" where
  "key_run km [] k u = ([], k, u)"
| "key_run km ((q, create) # qs) k u =
     (let (r, k1, u1) = key_step km create q k u; (rs, k2, u2) = key_run km qs k1 u1 in (r # rs, k2, u2))"

fun key_spec_run :: "(int \<Rightarrow> int option) \<Rightarrow> (key_request \<times> int option) list \<Rightarrow> int list \<Rightarrow> int set \<Rightarrow> int set \<Rightarrow> bool" where
  "key_spec_run km [] [] P P' = (P' = P)"
| "key_spec_run km ((q, _) # qs) (r # rs) P P' = (\<exists>P1. key_spec km q r P P1 \<and> key_spec_run km qs rs P1 P')"
| "key_spec_run km _ _ P P' = False"

section \<open>Lemmas\<close>

definition keyboard_ok :: "LinuxKeyboard \<Rightarrow> uinput \<Rightarrow> bool" where
  "keyboard_ok k u \<longleftrightarrow> sorted (lk_pressed k) \<and> distinct (lk_pressed k)
     \<and> kk_written (kernel u) = set (lk_pressed k)
     \<and> (\<not> lk_sync_pending k \<longrightarrow> kk_reported (kernel u) = kk_written (kernel u))
     \<and> (\<not> lk_device k \<longrightarrow> lk_pressed k = [] \<and> \<not> lk_sync_pending k)"

definition in_sync :: "uinput \<Rightarrow> bool" where
  "in_sync u \<longleftrightarrow> kk_reported (kernel u) = kk_written (kernel u)"

lemma write_event_kernel:
  "libevdev_uinput_write_event e u = (r, u') \<Longrightarrow> kernel u' = kernel_step (kernel u) (e, r)"
  by (auto simp: libevdev_uinput_write_event_def kernel_def Let_def)

lemma synchronize_ok:
  assumes "synchronize k u = (r, k', u')" "sorted (lk_pressed k)" "distinct (lk_pressed k)"
    "kk_written (kernel u) = set (lk_pressed k)" "lk_device k"
  shows "keyboard_ok k' u' \<and> lk_pressed k' = lk_pressed k \<and> lk_device k' = lk_device k \<and> (0 \<le> r \<longrightarrow> in_sync u')"
proof -
  obtain u1 where w: "libevdev_uinput_write_event SYN_REPORT u = (r, u1)" and
    k: "k' = k\<lparr>lk_sync_pending := (r < 0)\<rparr>" "u' = u1"
    using assms(1) by (auto simp: synchronize_def split: prod.splits)
  from write_event_kernel [OF w] show ?thesis
    using k assms(2-) by (auto simp: keyboard_ok_def in_sync_def kernel_step_def)
qed

lemma release_keys_ok:
  assumes "release_keys cs e u = (kept, e', u')" "sorted cs" "distinct cs" "set cs \<subseteq> W" "kk_written (kernel u) = W"
  shows "sorted kept \<and> distinct kept \<and> set kept \<subseteq> set cs \<and> kk_written (kernel u') = W - set cs \<union> set kept
    \<and> (kept \<noteq> [] \<longrightarrow> e' < 0) \<and> (kept = [] \<longrightarrow> e' = e)"
  using assms
proof (induction cs e u arbitrary: kept e' u' W rule: release_keys.induct)
  case (1 e u)
  then show ?case by simp
next
  case (2 c cs e u)
  obtain r u1 where w: "libevdev_uinput_write_event (EV_KEY c False) u = (r, u1)" by fastforce
  note kern = write_event_kernel [OF w]
  show ?case
  proof (cases "r < 0")
    case True
    obtain kept1 where rk: "release_keys cs r u1 = (kept1, e', u')" and kept: "kept = c # kept1"
      using "2.prems"(1) w True by (auto split: prod.splits)
    have "kk_written (kernel u1) = W" using kern True "2.prems"(5) by (simp add: kernel_step_def)
    from "2.IH"(1) [OF w [symmetric] refl True rk _ _ _ this] "2.prems"
    have "sorted kept1 \<and> distinct kept1 \<and> set kept1 \<subseteq> set cs \<and> kk_written (kernel u') = W - set cs \<union> set kept1
      \<and> (kept1 \<noteq> [] \<longrightarrow> e' < 0) \<and> (kept1 = [] \<longrightarrow> e' = r)" by simp
    then show ?thesis using kept "2.prems" True by auto
  next
    case False
    have rk: "release_keys cs e u1 = (kept, e', u')" using "2.prems"(1) w False by simp
    have kw: "kk_written (kernel u1) = W - {c}" using kern False "2.prems"(5) by (simp add: kernel_step_def)
    from "2.IH"(2) [OF w [symmetric] refl False rk _ _ _ kw] "2.prems" show ?thesis by auto
  qed
qed

lemma send_ok:
  assumes "keyboard_ok k u" "send km create vk down k u = (r, k', u')"
  shows "keyboard_ok k' u' \<and> key_spec km (SendKey vk down) r (kk_written (kernel u)) (kk_written (kernel u'))
    \<and> (0 \<le> r \<longrightarrow> in_sync u')"
proof -
  let ?c = "keycode km vk"
  show ?thesis
  proof (cases "?c = 0 \<or> fst (initialize create k) < 0")
    case True
    then have "k' = k" "u' = u" "r < 0"
      using assms(2) by (auto simp: send_def initialize_def EINVAL_def ENOMEM_def Let_def split: option.splits if_splits)
    then show ?thesis using assms(1) by simp
  next
    case False
    define k1 where "k1 = k\<lparr>lk_device := True\<rparr>"
    have init: "\<exists>i. initialize create k = (i, k1) \<and> \<not> i < 0"
      using False by (auto simp: initialize_def k1_def ENOMEM_def split: option.splits if_splits)
    have k1: "sorted (lk_pressed k1)" "distinct (lk_pressed k1)" "kk_written (kernel u) = set (lk_pressed k1)"
      "lk_device k1" "\<not> lk_sync_pending k1 \<longrightarrow> in_sync u" "keyboard_ok k1 u"
      using assms(1) by (auto simp: keyboard_ok_def k1_def in_sync_def)
    show ?thesis
    proof (cases "down = (?c \<in> set (lk_pressed k1))")
      case True
      have same: "(if down then insert ?c (set (lk_pressed k1)) else set (lk_pressed k1) - {?c}) = set (lk_pressed k1)"
        using True by auto
      show ?thesis
      proof (cases "lk_sync_pending k1")
        case True
        then have s: "synchronize k1 u = (r, k', u')"
          using assms(2) init False \<open>down = _\<close> by (auto simp: send_def Let_def)
        from synchronize_ok [OF s k1(1-4)] show ?thesis using k1 same False by (auto simp: keyboard_ok_def Let_def)
      next
        case False
        then have "r = 0" "k' = k1" "u' = u"
          using assms(2) init \<open>\<not> (?c = 0 \<or> _)\<close> \<open>down = _\<close> by (auto simp: send_def Let_def)
        then show ?thesis using k1 same False \<open>\<not> (?c = 0 \<or> _)\<close> by (simp add: Let_def)
      qed
    next
      case fresh: False
      obtain w u1 where we: "libevdev_uinput_write_event (EV_KEY ?c down) u = (w, u1)" by fastforce
      note kern = write_event_kernel [OF we]
      show ?thesis
      proof (cases "w < 0")
        case True
        then have "r = w" "k' = k1" "u' = u1" using assms(2) init False fresh we by (auto simp: send_def Let_def)
        then show ?thesis using k1(6) kern True by (simp add: keyboard_ok_def kernel_step_def)
      next
        case wok: False
        let ?k2 = "k1\<lparr>lk_pressed := (if down then insort ?c (lk_pressed k1) else remove1 ?c (lk_pressed k1))\<rparr>"
        have s: "synchronize ?k2 u1 = (r, k', u')"
          using assms(2) init False fresh we wok by (auto simp: send_def Let_def)
        have kw: "kk_written (kernel u1) = (if down then insert ?c (set (lk_pressed k1)) else set (lk_pressed k1) - {?c})"
          using kern wok k1(3) by (simp add: kernel_step_def)
        moreover have k2set: "set (lk_pressed ?k2) = (if down then insert ?c (set (lk_pressed k1)) else set (lk_pressed k1) - {?c})"
          and "sorted (lk_pressed ?k2)" "distinct (lk_pressed ?k2)"
          using k1 fresh by (auto simp: set_insort_key sorted_insort distinct_insort sorted_remove1)
        ultimately have "keyboard_ok k' u' \<and> lk_pressed k' = lk_pressed ?k2 \<and> (0 \<le> r \<longrightarrow> in_sync u')"
          using synchronize_ok [OF s] k1(4) by simp
        moreover have "set (lk_pressed ?k2) = kk_written (kernel u')" using calculation by (auto simp: keyboard_ok_def)
        ultimately show ?thesis using kw k2set k1(3) False by (auto simp: Let_def)
      qed
    qed
  qed
qed

lemma clear_ok:
  assumes "keyboard_ok k u" "clear_keys k u = (r, k', u')"
  shows "keyboard_ok k' u' \<and> key_spec km ClearKeys r (kk_written (kernel u)) (kk_written (kernel u'))
    \<and> (0 \<le> r \<longrightarrow> in_sync u')"
proof -
  obtain kept e u1 where rk: "release_keys (lk_pressed k) 0 u = (kept, e, u1)" by (metis prod_cases3)
  let ?k1 = "k\<lparr>lk_pressed := kept\<rparr>"
  have inv: "sorted (lk_pressed k)" "distinct (lk_pressed k)" "kk_written (kernel u) = set (lk_pressed k)"
    using assms(1) by (auto simp: keyboard_ok_def)
  from release_keys_ok [OF rk inv(1,2) subset_refl inv(3)]
  have rel: "sorted kept" "distinct kept" "set kept \<subseteq> set (lk_pressed k)" "kk_written (kernel u1) = set kept"
    "kept \<noteq> [] \<longrightarrow> e < 0" "kept = [] \<longrightarrow> e = 0" by auto
  show ?thesis
  proof (cases "lk_device k")
    case True
    obtain s k2 u2 where sy: "synchronize ?k1 u1 = (s, k2, u2)" by (metis prod_cases3)
    have res: "r = (if s < 0 then s else e)" "k' = k2" "u' = u2"
      using assms(2) rk True sy by (auto simp: clear_keys_def)
    from synchronize_ok [OF sy] rel True
    have ok: "keyboard_ok k' u'" "lk_pressed k' = kept" "0 \<le> s \<longrightarrow> in_sync u'" using res by auto
    then have kw: "kk_written (kernel u') = set kept" by (simp add: keyboard_ok_def)
    have "key_spec km ClearKeys r (kk_written (kernel u)) (kk_written (kernel u'))"
      using rel(3,5) unfolding kw inv(3) res(1) by (cases kept) (simp_all split: if_splits)
    moreover have "0 \<le> r \<longrightarrow> in_sync u'" using ok(3) res(1) by (simp split: if_splits)
    ultimately show ?thesis using ok(1) by simp
  next
    case False
    then have "lk_pressed k = []" "\<not> lk_sync_pending k" using assms(1) by (auto simp: keyboard_ok_def)
    then show ?thesis using assms False by (auto simp: clear_keys_def keyboard_ok_def in_sync_def)
  qed
qed

lemma key_step_ok:
  assumes "keyboard_ok k u" "key_step km create q k u = (r, k', u')"
  shows "keyboard_ok k' u' \<and> key_spec km q r (kk_written (kernel u)) (kk_written (kernel u')) \<and> (0 \<le> r \<longrightarrow> in_sync u')"
proof (cases q)
  case (SendKey vk down)
  then have "send km create vk down k u = (r, k', u')" using assms(2) by simp
  from send_ok [OF assms(1) this] show ?thesis unfolding SendKey .
next
  case ClearKeys
  then have "clear_keys k u = (r, k', u')" using assms(2) by simp
  from clear_ok [OF assms(1) this] show ?thesis unfolding ClearKeys .
qed

lemma key_run_ok:
  "keyboard_ok k u \<Longrightarrow> key_run km qs k u = (rs, k', u') \<Longrightarrow>
   keyboard_ok k' u' \<and> key_spec_run km qs rs (kk_written (kernel u)) (kk_written (kernel u'))
   \<and> (rs \<noteq> [] \<and> 0 \<le> List.last rs \<longrightarrow> in_sync u')"
proof (induction qs arbitrary: k u rs)
  case Nil
  then show ?case by simp
next
  case (Cons q qs)
  obtain q' create where q: "q = (q', create)" by fastforce
  obtain r k1 u1 where st: "key_step km create q' k u = (r, k1, u1)" by (metis prod_cases3)
  obtain rs1 where rn: "key_run km qs k1 u1 = (rs1, k', u')" and rs: "rs = r # rs1"
    using Cons.prems(2) st q by (auto split: prod.splits)
  from key_step_ok [OF Cons.prems(1) st]
  have s: "keyboard_ok k1 u1" "key_spec km q' r (kk_written (kernel u)) (kk_written (kernel u1))" "0 \<le> r \<longrightarrow> in_sync u1"
    by simp_all
  from Cons.IH [OF s(1) rn] s q rs rn show ?case by (cases qs) (auto split: prod.splits)
qed

text \<open>C7: the keyboard implements a set of held keys. Whatever the device answers, the requests carried
  out form a run of the contract on the keys written to the device: a successful request has its exact
  effect, a refused one all or a part of it, and after a success the readers of the device see exactly
  these keys, which are the ones the keyboard remembers.\<close>

theorem keyboard_refines_key_set:
  "let (rs, k, u) = key_run km qs new_keyboard \<lparr>ui_answers = answers, ui_log = []\<rparr>
   in key_spec_run km qs rs {} (set (lk_pressed k))
      \<and> kk_written (kernel u) = set (lk_pressed k)
      \<and> (rs \<noteq> [] \<and> 0 \<le> List.last rs \<longrightarrow> kk_reported (kernel u) = set (lk_pressed k))"
proof -
  obtain rs k u where rn: "key_run km qs new_keyboard \<lparr>ui_answers = answers, ui_log = []\<rparr> = (rs, k, u)"
    by (metis prod_cases3)
  have "keyboard_ok new_keyboard \<lparr>ui_answers = answers, ui_log = []\<rparr>"
    by (simp add: keyboard_ok_def new_keyboard_def kernel_def)
  from key_run_ok [OF this rn] show ?thesis
    using rn by (auto simp: keyboard_ok_def in_sync_def kernel_def)
qed

text \<open>The report fails after the press: the request fails, yet the key counts as pressed, and repeating
  the request only reports it.\<close>

theorem keyboard_refines_key_set_witness:
  "let (rs, k, u) = key_run (\<lambda>vk. if vk = 0x41 then Some 30 else None)
        [(SendKey 0x41 True, Some 0), (SendKey 0x41 True, None)]
        new_keyboard \<lparr>ui_answers = [0, - 5, 0], ui_log = []\<rparr>
   in rs = [- 5, 0] \<and> kk_reported (kernel u) = {30} \<and> lk_pressed k = [30]
      \<and> map fst (ui_log u) = [EV_KEY 30 True, SYN_REPORT, SYN_REPORT]"
proof -
  let ?km = "\<lambda>vk. if vk = 0x41 then Some (30 :: int) else None"
  let ?qs = "[(SendKey 0x41 True, Some 0), (SendKey 0x41 True, None)]"
  obtain rs k u where rn: "key_run ?km ?qs new_keyboard \<lparr>ui_answers = [0, - 5, 0], ui_log = []\<rparr> = (rs, k, u)"
    by (metis prod_cases3)
  then have "rs = [- 5, 0] \<and> lk_pressed k = [30] \<and> map fst (ui_log u) = [EV_KEY 30 True, SYN_REPORT, SYN_REPORT]"
    by (auto simp: send_def keycode_def initialize_def new_keyboard_def libevdev_uinput_write_event_def synchronize_def)
  moreover from this keyboard_refines_key_set [of ?km ?qs "[0, - 5, 0]"] rn
  have "kk_reported (kernel u) = {30}" by simp
  ultimately show ?thesis using rn by simp
qed

text \<open>A repeated request writes nothing while the keys are reported.\<close>

lemma repeated_request_writes_nothing:
  "lk_device k \<Longrightarrow> \<not> lk_sync_pending k \<Longrightarrow> keycode km vk \<in> set (lk_pressed k) \<Longrightarrow> keycode km vk \<noteq> 0 \<Longrightarrow>
   send km create vk True k u = (0, k, u)"
  by (simp add: send_def initialize_def Let_def)

end
