(* ===== verification/LinuxMouse.thy ===== *)
theory LinuxMouse
  imports Coords Scroll "HOL-Library.AList"
begin

text \<open>
  The Linux mouse: the wheel of \<open>linux/linux_mouse.cc\<close>, and the monitor geometry, argument access and
  mouse requests of \<open>linux/hardware_simulator_plugin.cc\<close>. The device itself is \<open>inputtino\<close>'s: what is
  asked of it is returned as a list of calls, and what it and the X server answer are parameters.
\<close>

section \<open>Arguments and responses\<close>

datatype flvalue = FlNull | FlBool bool | FlInt int | FlFloat dbl | FlString string | FlMap "(string \<times> flvalue) list"

datatype fl_response = Success flvalue | Failure string string | NotImplemented

definition success_null :: fl_response where "success_null = Success FlNull"
definition success_bool :: "bool \<Rightarrow> fl_response" where "success_bool b = Success (FlBool b)"
definition success_int :: "int \<Rightarrow> fl_response" where "success_int n = Success (FlInt n)"
definition bad_args :: "string \<Rightarrow> fl_response" where "bad_args m = Failure ''BAD_ARGS'' m"
definition unsupported :: "string \<Rightarrow> fl_response" where "unsupported m = Failure ''UNSUPPORTED'' m"

definition linux_display_error :: fl_response where
  "linux_display_error = Failure ''DISPLAY_UNAVAILABLE''
     ''Linux hardware simulation requires an X11 DISPLAY for monitor geometry.''"

definition linux_mouse_error :: "string \<Rightarrow> fl_response" where
  "linux_mouse_error mouse_error = Failure ''UINPUT_UNAVAILABLE''
     (''Linux mouse simulation requires permission to create uinput devices. ''
      @ ''Install linux/udev/rules.d/60-cloudplayplus-hardware-simulator.rules ''
      @ ''or grant the current user access to /dev/uinput.''
      @ (if mouse_error \<noteq> [] then '' inputtino error: '' @ mouse_error else []))"

text \<open>A value that is no map has no entries.\<close>

definition fl_value_lookup_string :: "flvalue \<Rightarrow> string \<Rightarrow> flvalue option" where
  "fl_value_lookup_string v key = (case v of FlMap kvs \<Rightarrow> map_of kvs key | _ \<Rightarrow> None)"

text \<open>The getters return the value and whether it was found; a missing one is 0 or false.\<close>

definition get_double_arg :: "flvalue option \<Rightarrow> string \<Rightarrow> (dbl \<times> bool)" where
  "get_double_arg args key =
     (case args of None \<Rightarrow> (Fin 0, False)
      | Some a \<Rightarrow> (case fl_value_lookup_string a key of
            Some (FlFloat d) \<Rightarrow> (d, True)
          | Some (FlInt i) \<Rightarrow> (to_double (of_int i), True)
          | _ \<Rightarrow> (Fin 0, False)))"

definition get_int_arg :: "flvalue option \<Rightarrow> string \<Rightarrow> (int \<times> bool)" where
  "get_int_arg args key =
     (case args of None \<Rightarrow> (0, False)
      | Some a \<Rightarrow> (case fl_value_lookup_string a key of
            Some (FlInt i) \<Rightarrow> (signed_take_bit 31 i, True)
          | _ \<Rightarrow> (0, False)))"

definition get_bool_arg :: "flvalue option \<Rightarrow> string \<Rightarrow> (bool \<times> bool)" where
  "get_bool_arg args key =
     (case args of None \<Rightarrow> (False, False)
      | Some a \<Rightarrow> (case fl_value_lookup_string a key of
            Some (FlBool b) \<Rightarrow> (b, True)
          | _ \<Rightarrow> (False, False)))"

section \<open>Monitor geometry\<close>

record MonitorBounds =
  mb_x :: int
  mb_y :: int
  mb_width :: int
  mb_height :: int

text \<open>
  What the X server answers: the monitors with their number of outputs, if the list can be read, and the
  size of the default screen.
\<close>

record x_display =
  xd_monitors :: "(int \<times> MonitorBounds) list option"
  xd_width :: int
  xd_height :: int

definition get_monitors :: "x_display \<Rightarrow> MonitorBounds list" where
  "get_monitors d =
     (let monitors = (case xd_monitors d of None \<Rightarrow> []
        | Some ms \<Rightarrow> map snd (filter (\<lambda>(noutput, _). \<not> noutput \<le> 0) ms))
      in if monitors = [] then [\<lparr>mb_x = 0, mb_y = 0, mb_width = xd_width d, mb_height = xd_height d\<rparr>]
         else monitors)"

definition widen :: "MonitorBounds \<Rightarrow> int \<times> int \<times> int \<times> int \<Rightarrow> int \<times> int \<times> int \<times> int" where
  "widen m bounds = (case bounds of (l, t, r, b) \<Rightarrow>
     (min l (mb_x m), min t (mb_y m), max r (mb_x m + mb_width m), max b (mb_y m + mb_height m)))"

definition get_root_bounds :: "MonitorBounds list \<Rightarrow> MonitorBounds" where
  "get_root_bounds monitors =
     (case monitors of [] \<Rightarrow> \<lparr>mb_x = 0, mb_y = 0, mb_width = 1, mb_height = 1\<rparr>
      | m # _ \<Rightarrow>
          let (l, t, r, b) =
                fold widen monitors (mb_x m, mb_y m, mb_x m + mb_width m, mb_y m + mb_height m)
          in \<lparr>mb_x = l, mb_y = t, mb_width = max 1 (r - l), mb_height = max 1 (b - t)\<rparr>)"

section \<open>The mouse\<close>

datatype MouseMode = kRelative | kAbsolute

datatype mouse_button = LEFT | MIDDLE | RIGHT | SIDE | EXTRA

datatype rel_code = REL_WHEEL | REL_HWHEEL | REL_WHEEL_HI_RES | REL_HWHEEL_HI_RES

datatype mouse_call =
    move int int
  | move_abs int int int int
  | press mouse_button
  | release mouse_button
  | EV_REL MouseMode rel_code int
  | EV_SYN MouseMode

text \<open>The remainders are indexed by the mode and by whether the wheel is the vertical one.\<close>

record linux_mouse =
  g_mouse :: bool
  wheel_remainder :: "MouseMode \<Rightarrow> bool \<Rightarrow> int"
  g_pressed_mouse_buttons :: "(mouse_button \<times> MouseMode) list"
  g_mouse_error :: string
  g_current_mouse_mode :: MouseMode
  g_last_abs_x :: int
  g_last_abs_y :: int
  g_last_abs_width :: int
  g_last_abs_height :: int

definition initial_mouse :: linux_mouse where
  "initial_mouse = \<lparr>g_mouse = False, wheel_remainder = (\<lambda>_ _. 0), g_pressed_mouse_buttons = [], g_mouse_error = [],
     g_current_mouse_mode = kRelative, g_last_abs_x = 0, g_last_abs_y = 0, g_last_abs_width = 1, g_last_abs_height = 1\<rparr>"

text \<open>
  \<open>absolute\<close> and \<open>device\<close> are read from the device's state: the mode of its last movement and whether
  the device of that mode exists.
\<close>

definition scroll :: "bool \<Rightarrow> bool \<Rightarrow> int \<Rightarrow> bool \<Rightarrow> linux_mouse \<Rightarrow> linux_mouse \<times> mouse_call list" where
  "scroll absolute device distance vertical s =
     (let mode = (if absolute then kAbsolute else kRelative) in
      if \<not> device then (s, [])
      else let total = wheel_remainder s mode vertical + distance;
               detents = c_div total 120
           in (s\<lparr>wheel_remainder := (wheel_remainder s)(mode := (wheel_remainder s mode)(vertical := c_mod total 120))\<rparr>,
               (if detents \<noteq> 0 then [EV_REL mode (if vertical then REL_WHEEL else REL_HWHEEL) detents] else [])
               @ [EV_REL mode (if vertical then REL_WHEEL_HI_RES else REL_HWHEEL_HI_RES) distance, EV_SYN mode]))"

definition vertical_scroll :: "bool \<Rightarrow> bool \<Rightarrow> int \<Rightarrow> linux_mouse \<Rightarrow> linux_mouse \<times> mouse_call list" where
  "vertical_scroll absolute device distance = scroll absolute device distance True"

definition horizontal_scroll :: "bool \<Rightarrow> bool \<Rightarrow> int \<Rightarrow> linux_mouse \<Rightarrow> linux_mouse \<times> mouse_call list" where
  "horizontal_scroll absolute device distance = scroll absolute device distance False"

text \<open>\<open>create\<close> is the error message with which creating the device fails, if it does.\<close>

definition get_mouse :: "string option \<Rightarrow> linux_mouse \<Rightarrow> bool \<times> linux_mouse" where
  "get_mouse create s =
     (if g_mouse s then (True, s)
      else case create of Some message \<Rightarrow> (False, s\<lparr>g_mouse_error := message\<rparr>)
      | None \<Rightarrow> (True, s\<lparr>g_mouse := True, g_mouse_error := []\<rparr>))"

definition set_mouse_mode :: "MouseMode \<Rightarrow> linux_mouse \<Rightarrow> linux_mouse \<times> mouse_call list" where
  "set_mouse_mode mode s =
     (s\<lparr>g_current_mouse_mode := mode\<rparr>,
      [if mode = kAbsolute then move_abs (g_last_abs_x s) (g_last_abs_y s) (g_last_abs_width s) (g_last_abs_height s)
       else move 0 0])"

definition mouse_button_to_inputtino :: "int \<Rightarrow> mouse_button option" where
  "mouse_button_to_inputtino button_id =
     (if button_id = 1 then Some LEFT else if button_id = 2 then Some MIDDLE else if button_id = 3 then Some RIGHT
      else if button_id = 4 then Some SIDE else if button_id = 5 then Some EXTRA else None)"

text \<open>\<open>static_cast<int>(std::round(x))\<close> is defined for results an \<open>int\<close> can hold.\<close>

definition round_to_int :: "dbl \<Rightarrow> int option" where
  "round_to_int d = (case dlround d of None \<Rightarrow> None
     | Some n \<Rightarrow> if - (2 ^ 31) \<le> n \<and> n < 2 ^ 31 then Some n else None)"

definition perform_mouse_move_relative :: "string option \<Rightarrow> flvalue option \<Rightarrow> linux_mouse
    \<Rightarrow> (fl_response \<times> linux_mouse \<times> mouse_call list) option" where
  "perform_mouse_move_relative create args s =
     (let (x, ok1) = get_double_arg args ''x''; (y, ok2) = get_double_arg args ''y'';
          (_, ok3) = get_int_arg args ''screenId''
      in if \<not> (ok1 \<and> ok2 \<and> ok3) then Some (bad_args ''Missing or incorrect arguments for mouseMoveR'', s, [])
         else let (mouse, s1) = get_mouse create s in
           if \<not> mouse then Some (linux_mouse_error (g_mouse_error s1), s1, [])
           else case (round_to_int x, round_to_int y) of
             (Some dx, Some dy) \<Rightarrow> Some (success_null, s1\<lparr>g_current_mouse_mode := kRelative\<rparr>, [move dx dy])
           | _ \<Rightarrow> None)"

definition std_min :: "dbl \<Rightarrow> dbl \<Rightarrow> dbl" where
  "std_min a b = (if dlt b a then b else a)"

definition std_max :: "dbl \<Rightarrow> dbl \<Rightarrow> dbl" where
  "std_max a b = (if dlt a b then b else a)"

definition on_axis :: "dbl \<Rightarrow> int \<Rightarrow> int option" where
  "on_axis x extent = round_to_int (dmul (std_max (Fin 0) (std_min (Fin 1) x)) (Fin (of_int (extent - 1))))"

definition perform_mouse_move_absolute :: "string option \<Rightarrow> x_display option \<Rightarrow> flvalue option \<Rightarrow> linux_mouse
    \<Rightarrow> (fl_response \<times> linux_mouse \<times> mouse_call list) option" where
  "perform_mouse_move_absolute create display args s =
     (let (x, ok1) = get_double_arg args ''x''; (y, ok2) = get_double_arg args ''y'';
          (screen_id, ok3) = get_int_arg args ''screenId''
      in if \<not> (ok1 \<and> ok2 \<and> ok3) then Some (bad_args ''Missing or incorrect arguments for mouseMoveA'', s, [])
         else let (mouse, s1) = get_mouse create s in
           if \<not> mouse then Some (linux_mouse_error (g_mouse_error s1), s1, [])
           else case display of None \<Rightarrow> Some (linux_display_error, s1, [])
           | Some d \<Rightarrow>
               let monitors = get_monitors d in
               if screen_id < 0 \<or> screen_id \<ge> int (length monitors)
               then Some (bad_args ''Invalid screenId for mouseMoveA'', s1, [])
               else
                 let root = get_root_bounds monitors; monitor = monitors ! nat screen_id in
                 case (on_axis x (mb_width monitor), on_axis y (mb_height monitor)) of
                   (Some ax, Some ay) \<Rightarrow>
                     let target_x = mb_x monitor - mb_x root + ax; target_y = mb_y monitor - mb_y root + ay in
                     Some (success_null,
                       s1\<lparr>g_current_mouse_mode := kAbsolute, g_last_abs_x := target_x, g_last_abs_y := target_y,
                          g_last_abs_width := mb_width root, g_last_abs_height := mb_height root\<rparr>,
                       [move_abs target_x target_y (mb_width root) (mb_height root)])
                 | _ \<Rightarrow> None)"

definition perform_mouse_button :: "string option \<Rightarrow> flvalue option \<Rightarrow> linux_mouse
    \<Rightarrow> fl_response \<times> linux_mouse \<times> mouse_call list" where
  "perform_mouse_button create args s =
     (let (button_id, ok1) = get_int_arg args ''buttonId''; (is_down, ok2) = get_bool_arg args ''isDown'' in
      if \<not> (ok1 \<and> ok2) then (bad_args ''Missing or incorrect arguments for mousePress'', s, [])
      else case mouse_button_to_inputtino button_id of
        None \<Rightarrow> (unsupported ''Unsupported mouse button id.'', s, [])
      | Some button \<Rightarrow>
          let (mouse, s1) = get_mouse create s in
          if \<not> mouse then (linux_mouse_error (g_mouse_error s1), s1, [])
          else if is_down then
            (success_null,
             s1\<lparr>g_pressed_mouse_buttons := AList.update button (g_current_mouse_mode s1) (g_pressed_mouse_buttons s1)\<rparr>,
             [press button])
          else (case map_of (g_pressed_mouse_buttons s1) button of
              None \<Rightarrow> (success_null, s1, [release button])
            | Some mode \<Rightarrow>
                let (s2, calls) = set_mouse_mode mode s1 in
                (success_null, s2\<lparr>g_pressed_mouse_buttons := AList.delete button (g_pressed_mouse_buttons s2)\<rparr>,
                 calls @ [release button])))"

text \<open>The device's answers to the two scroll calls are given for each.\<close>

definition perform_mouse_scroll :: "string option \<Rightarrow> bool \<times> bool \<Rightarrow> bool \<times> bool \<Rightarrow> flvalue option \<Rightarrow> linux_mouse
    \<Rightarrow> (fl_response \<times> linux_mouse \<times> mouse_call list) option" where
  "perform_mouse_scroll create vdev hdev args s =
     (let (dx, ok1) = get_double_arg args ''dx''; (dy, ok2) = get_double_arg args ''dy'' in
      if \<not> (ok1 \<and> ok2) then Some (bad_args ''Missing or incorrect arguments for mouseScroll'', s, [])
      else let (mouse, s1) = get_mouse create s in
        if \<not> mouse then Some (linux_mouse_error (g_mouse_error s1), s1, [])
        else case (logical_scroll_to_linux_wheel dy True, logical_scroll_to_linux_wheel dx False) of
          (Some v, Some h) \<Rightarrow>
            let (s2, c1) = (if v \<noteq> 0 then vertical_scroll (fst vdev) (snd vdev) v s1 else (s1, []));
                (s3, c2) = (if h \<noteq> 0 then horizontal_scroll (fst hdev) (snd hdev) h s2 else (s2, []))
            in Some (success_null, s3, c1 @ c2)
        | _ \<Rightarrow> None)"

definition get_monitor_count :: "x_display option \<Rightarrow> fl_response" where
  "get_monitor_count display = (case display of None \<Rightarrow> linux_display_error
     | Some d \<Rightarrow> success_int (int (length (get_monitors d))))"

fun release_buttons :: "(mouse_button \<times> MouseMode) list \<Rightarrow> linux_mouse \<Rightarrow> linux_mouse \<times> mouse_call list" where
  "release_buttons [] s = (s, [])"
| "release_buttons ((b, mode) # bs) s =
     (let (s1, c1) = set_mouse_mode mode s; (s2, c2) = release_buttons bs s1 in (s2, c1 @ release b # c2))"

text \<open>The map is iterated in the order of \<open>inputtino\<close>'s enumeration, given by \<open>rank\<close>.\<close>

definition clear_all_pressed_mouse_buttons :: "(mouse_button \<Rightarrow> nat) \<Rightarrow> string option \<Rightarrow> linux_mouse
    \<Rightarrow> fl_response option \<times> linux_mouse \<times> mouse_call list" where
  "clear_all_pressed_mouse_buttons rank create s =
     (let buttons = g_pressed_mouse_buttons s; s0 = s\<lparr>g_pressed_mouse_buttons := []\<rparr> in
      if buttons = [] then (None, s0, [])
      else let (mouse, s1) = get_mouse create s0 in
        if \<not> mouse then (Some (linux_mouse_error (g_mouse_error s1)), s1\<lparr>g_pressed_mouse_buttons := buttons\<rparr>, [])
        else let (s2, calls) = release_buttons (sort_key (\<lambda>b. rank (fst b)) buttons) s1 in (None, s2, calls))"

section \<open>Runs\<close>

datatype mouse_op =
    MoveR "string option" "flvalue option"
  | MoveA "string option" "x_display option" "flvalue option"
  | Button "string option" "flvalue option"
  | Wheel "string option" "bool \<times> bool" "bool \<times> bool" "flvalue option"
  | ClearButtons "string option"

fun mouse_step :: "(mouse_button \<Rightarrow> nat) \<Rightarrow> mouse_op \<Rightarrow> linux_mouse \<Rightarrow> (fl_response option \<times> linux_mouse \<times> mouse_call list) option" where
  "mouse_step rank (MoveR create args) s =
     map_option (\<lambda>(r, s', c). (Some r, s', c)) (perform_mouse_move_relative create args s)"
| "mouse_step rank (MoveA create display args) s =
     map_option (\<lambda>(r, s', c). (Some r, s', c)) (perform_mouse_move_absolute create display args s)"
| "mouse_step rank (Button create args) s =
     (case perform_mouse_button create args s of (r, s', c) \<Rightarrow> Some (Some r, s', c))"
| "mouse_step rank (Wheel create vdev hdev args) s =
     map_option (\<lambda>(r, s', c). (Some r, s', c)) (perform_mouse_scroll create vdev hdev args s)"
| "mouse_step rank (ClearButtons create) s = Some (clear_all_pressed_mouse_buttons rank create s)"

fun mouse_run :: "(mouse_button \<Rightarrow> nat) \<Rightarrow> mouse_op list \<Rightarrow> linux_mouse \<Rightarrow> (linux_mouse \<times> mouse_call list) option" where
  "mouse_run rank [] s = Some (s, [])"
| "mouse_run rank (op # ops) s =
     (case mouse_step rank op s of None \<Rightarrow> None
      | Some (_, s1, c1) \<Rightarrow> (case mouse_run rank ops s1 of None \<Rightarrow> None
          | Some (s2, c2) \<Rightarrow> Some (s2, c1 @ c2)))"

text \<open>
  The device under these calls: the mode of its last movement, and the mode in which each held button
  was pressed. Releasing a button in another mode is not accepted.
\<close>

fun track :: "mouse_call list \<Rightarrow> MouseMode \<times> (mouse_button \<Rightarrow> MouseMode option)
    \<Rightarrow> (MouseMode \<times> (mouse_button \<Rightarrow> MouseMode option)) option" where
  "track [] t = Some t"
| "track (move _ _ # cs) (m, p) = track cs (kRelative, p)"
| "track (move_abs _ _ _ _ # cs) (m, p) = track cs (kAbsolute, p)"
| "track (press b # cs) (m, p) = track cs (m, p(b \<mapsto> m))"
| "track (release b # cs) (m, p) = (if p b = None \<or> p b = Some m then track cs (m, p(b := None)) else None)"
| "track (_ # cs) t = track cs t"

text \<open>The sum of what is written to one wheel axis of the device of one mode.\<close>

fun wheel_sum :: "MouseMode \<Rightarrow> rel_code \<Rightarrow> mouse_call list \<Rightarrow> int" where
  "wheel_sum m k [] = 0"
| "wheel_sum m k (EV_REL m' k' d # cs) = (if m' = m \<and> k' = k then d else 0) + wheel_sum m k cs"
| "wheel_sum m k (_ # cs) = wheel_sum m k cs"

section \<open>Lemmas\<close>

lemma track_append: "track (xs @ ys) t = Option.bind (track xs t) (track ys)"
  by (induction xs t rule: track.induct) auto

lemma wheel_sum_append [simp]: "wheel_sum m k (xs @ ys) = wheel_sum m k xs + wheel_sum m k ys"
  by (induction m k xs rule: wheel_sum.induct) auto

definition mouse_ok :: "linux_mouse \<Rightarrow> bool" where
  "mouse_ok s \<longleftrightarrow> distinct (map fst (g_pressed_mouse_buttons s))"

text \<open>The calls of one step take the device from the state before to the state after.\<close>

definition tracks :: "linux_mouse \<Rightarrow> mouse_call list \<Rightarrow> linux_mouse \<Rightarrow> bool" where
  "tracks s c s' \<longleftrightarrow> track c (g_current_mouse_mode s, map_of (g_pressed_mouse_buttons s))
     = Some (g_current_mouse_mode s', map_of (g_pressed_mouse_buttons s'))"

lemma tracks_Nil: "tracks s [] s' \<longleftrightarrow> g_current_mouse_mode s' = g_current_mouse_mode s
    \<and> map_of (g_pressed_mouse_buttons s') = map_of (g_pressed_mouse_buttons s)"
  by (auto simp: tracks_def)

lemma tracks_trans: "tracks s c s' \<Longrightarrow> tracks s' d s'' \<Longrightarrow> tracks s (c @ d) s''"
  by (simp add: tracks_def track_append)

lemma get_mouse_same:
  "get_mouse create s = (b, s') \<Longrightarrow> g_pressed_mouse_buttons s' = g_pressed_mouse_buttons s
     \<and> g_current_mouse_mode s' = g_current_mouse_mode s \<and> wheel_remainder s' = wheel_remainder s
     \<and> g_last_abs_x s' = g_last_abs_x s \<and> g_last_abs_y s' = g_last_abs_y s
     \<and> g_last_abs_width s' = g_last_abs_width s \<and> g_last_abs_height s' = g_last_abs_height s"
  by (auto simp: get_mouse_def split: if_splits option.splits)

lemma scroll_same:
  "scroll a d n v s = (s', c) \<Longrightarrow> g_pressed_mouse_buttons s' = g_pressed_mouse_buttons s
     \<and> g_current_mouse_mode s' = g_current_mouse_mode s
     \<and> g_last_abs_x s' = g_last_abs_x s \<and> g_last_abs_y s' = g_last_abs_y s
     \<and> g_last_abs_width s' = g_last_abs_width s \<and> g_last_abs_height s' = g_last_abs_height s
     \<and> track c t = Some t"
  by (cases t) (auto simp: scroll_def Let_def split: if_splits)

lemma release_buttons_track:
  assumes "release_buttons bs s = (s', c)" "distinct (map fst bs)" "\<forall>(b, m) \<in> set bs. p b = Some m"
  shows "track c (g_current_mouse_mode s, p)
     = Some (g_current_mouse_mode s', \<lambda>b. if b \<in> fst ` set bs then None else p b)
     \<and> g_pressed_mouse_buttons s' = g_pressed_mouse_buttons s \<and> wheel_remainder s' = wheel_remainder s
     \<and> g_last_abs_x s' = g_last_abs_x s \<and> g_last_abs_y s' = g_last_abs_y s
     \<and> g_last_abs_width s' = g_last_abs_width s \<and> g_last_abs_height s' = g_last_abs_height s
     \<and> wheel_sum m k c = 0"
  using assms
proof (induction bs arbitrary: s s' c p)
  case Nil
  then show ?case by simp
next
  case (Cons x bs)
  obtain b m where x: "x = (b, m)" by fastforce
  obtain s1 c1 where sm: "set_mouse_mode m s = (s1, c1)" by fastforce
  obtain c2 where rb: "release_buttons bs s1 = (s', c2)" and c: "c = c1 @ release b # c2"
    using Cons.prems(1) x sm by (auto split: prod.splits)
  have mode: "g_current_mouse_mode s1 = m" "g_pressed_mouse_buttons s1 = g_pressed_mouse_buttons s"
    "track c1 (g_current_mouse_mode s, p) = Some (m, p)" "wheel_remainder s1 = wheel_remainder s"
    "g_last_abs_x s1 = g_last_abs_x s" "g_last_abs_y s1 = g_last_abs_y s" "g_last_abs_width s1 = g_last_abs_width s"
    "g_last_abs_height s1 = g_last_abs_height s"
    using sm by (cases m; auto simp: set_mouse_mode_def)+
  have ws: "wheel_sum m' k' c1 = 0" for m' k' using sm by (auto simp: set_mouse_mode_def)
  have pm: "p b = Some m" using Cons.prems(3) x by simp
  have "\<forall>(b', m') \<in> set bs. (p(b := None)) b' = Some m'"
    using Cons.prems(2,3) x by (force simp: image_iff)
  note ih = Cons.IH [OF rb _ this]
  have fe: "(\<lambda>b'. if b' \<in> fst ` set bs then None else (p(b := None)) b')
      = (\<lambda>b'. if b' \<in> fst ` set (x # bs) then None else p b')"
    using x by auto
  have "track c (g_current_mouse_mode s, p) = track c2 (m, p(b := None))"
    using mode pm c by (simp add: track_append)
  then show ?case using ih [unfolded fe mode(1)] Cons.prems(2) mode c ws x by (simp add: fun_upd_def)
qed

lemma clear_buttons_track:
  assumes "mouse_ok s" "clear_all_pressed_mouse_buttons rank create s = (r, s', c)"
  shows "tracks s c s' \<and> mouse_ok s' \<and> wheel_remainder s' = wheel_remainder s \<and> wheel_sum m k c = 0
     \<and> g_last_abs_x s' = g_last_abs_x s \<and> g_last_abs_y s' = g_last_abs_y s
     \<and> g_last_abs_width s' = g_last_abs_width s \<and> g_last_abs_height s' = g_last_abs_height s"
proof (cases "g_pressed_mouse_buttons s = []")
  case True
  then show ?thesis using assms by (auto simp: clear_all_pressed_mouse_buttons_def tracks_Nil mouse_ok_def)
next
  case False
  obtain ok s1 where gm: "get_mouse create (s\<lparr>g_pressed_mouse_buttons := []\<rparr>) = (ok, s1)" by fastforce
  note same = get_mouse_same [OF gm]
  show ?thesis
  proof (cases ok)
    case True
    let ?bs = "sort_key (\<lambda>b. rank (fst b)) (g_pressed_mouse_buttons s)"
    obtain c' where rb: "release_buttons ?bs s1 = (s', c)"
      using assms(2) False gm True by (auto simp: clear_all_pressed_mouse_buttons_def split: prod.splits)
    have d: "distinct (map fst ?bs)"
      using assms(1) unfolding mouse_ok_def
      by (metis distinct_map distinct_sort set_sort)
    have "\<forall>(b, m) \<in> set ?bs. map_of (g_pressed_mouse_buttons s) b = Some m"
      using assms(1) by (auto simp: mouse_ok_def)
    from release_buttons_track [OF rb d this] same show ?thesis
      by (auto simp: tracks_def mouse_ok_def fun_eq_iff dom_map_of_conv_image_fst [symmetric] domIff)
  next
    case f: False
    then show ?thesis using assms False gm same
      by (auto simp: clear_all_pressed_mouse_buttons_def tracks_Nil mouse_ok_def)
  qed
qed

text \<open>What a step writes to the wheels is accounted for in the remainders.\<close>

definition wheel_code :: "bool \<Rightarrow> rel_code" where
  "wheel_code vertical = (if vertical then REL_WHEEL else REL_HWHEEL)"

definition hires_code :: "bool \<Rightarrow> rel_code" where
  "hires_code vertical = (if vertical then REL_WHEEL_HI_RES else REL_HWHEEL_HI_RES)"

definition wheels_ok :: "linux_mouse \<Rightarrow> bool" where
  "wheels_ok s \<longleftrightarrow> (\<forall>m v. \<bar>wheel_remainder s m v\<bar> < 120)"

definition wheels_balance :: "linux_mouse \<Rightarrow> mouse_call list \<Rightarrow> linux_mouse \<Rightarrow> bool" where
  "wheels_balance s c s' \<longleftrightarrow> (\<forall>m v. 120 * wheel_sum m (wheel_code v) c + wheel_remainder s' m v
     = wheel_remainder s m v + wheel_sum m (hires_code v) c)"

lemma wheels_quiet:
  "wheel_remainder s' = wheel_remainder s \<Longrightarrow> (\<And>m k. wheel_sum m k c = 0) \<Longrightarrow> wheels_balance s c s'"
  by (simp add: wheels_balance_def)

lemma wheels_balance_trans: "wheels_balance s c s' \<Longrightarrow> wheels_balance s' d s'' \<Longrightarrow> wheels_balance s (c @ d) s''"
  unfolding wheels_balance_def wheel_sum_append by (smt (verit) distrib_left)

lemma wheel_sum_scroll:
  "wheel_sum m k ((if q \<noteq> 0 then [EV_REL mode kd q] else []) @ [EV_REL mode kh n, EV_SYN mode])
     = (if mode = m \<and> kd = k then q else 0) + (if mode = m \<and> kh = k then n else 0)"
  by simp

lemma scroll_wheels:
  assumes "scroll a dev n v s = (s', c)"
  shows "wheels_balance s c s' \<and> (wheels_ok s \<longrightarrow> wheels_ok s')"
proof (cases dev)
  case False
  then show ?thesis using assms by (auto simp: scroll_def wheels_quiet)
next
  case True
  define mode where "mode = (if a then kAbsolute else kRelative)"
  let ?t = "wheel_remainder s mode v + n"
  have "scroll a dev n v s = (s\<lparr>wheel_remainder := (wheel_remainder s)(mode := (wheel_remainder s mode)(v := c_mod ?t 120))\<rparr>,
      (if c_div ?t 120 \<noteq> 0 then [EV_REL mode (wheel_code v) (c_div ?t 120)] else [])
      @ [EV_REL mode (hires_code v) n, EV_SYN mode])"
    unfolding scroll_def Let_def mode_def [symmetric] wheel_code_def [symmetric] hires_code_def [symmetric]
    using True by (simp only: not_True_eq_False if_False)
  then have s': "s' = s\<lparr>wheel_remainder := (wheel_remainder s)(mode := (wheel_remainder s mode)(v := c_mod ?t 120))\<rparr>"
    and c: "c = (if c_div ?t 120 \<noteq> 0 then [EV_REL mode (wheel_code v) (c_div ?t 120)] else [])
      @ [EV_REL mode (hires_code v) n, EV_SYN mode]"
    unfolding assms by (simp_all only: prod.inject)
  have d: "120 * c_div ?t 120 + c_mod ?t 120 = ?t" by (rule c_div_mod)
  have b: "\<bar>c_mod ?t 120\<bar> < 120" using c_mod_bound [of 120 ?t] by simp
  define q where "q = c_div ?t 120"
  define z where "z = c_mod ?t 120"
  have codes: "wheel_sum m (wheel_code w) c = (if m = mode \<and> w = v then q else 0)"
    "wheel_sum m (hires_code w) c = (if m = mode \<and> w = v then n else 0)" for m w
    unfolding c q_def [symmetric] wheel_sum_scroll by (auto simp: wheel_code_def hires_code_def)
  have rem: "wheel_remainder s' m w = (if m = mode \<and> w = v then z else wheel_remainder s m w)" for m w
    unfolding s' z_def [symmetric] by simp
  have "wheels_balance s c s'" using d unfolding wheels_balance_def codes rem q_def [symmetric] z_def [symmetric] by auto
  moreover have "wheels_ok s \<longrightarrow> wheels_ok s'" using b unfolding wheels_ok_def rem z_def [symmetric] by auto
  ultimately show ?thesis by blast
qed

text \<open>The last absolute position lies inside the area it was measured in.\<close>

definition position_ok :: "linux_mouse \<Rightarrow> bool" where
  "position_ok s \<longleftrightarrow> 0 \<le> g_last_abs_x s \<and> g_last_abs_x s < g_last_abs_width s
     \<and> 0 \<le> g_last_abs_y s \<and> g_last_abs_y s < g_last_abs_height s"

definition bounds_ok :: "MonitorBounds \<Rightarrow> bool" where
  "bounds_ok m \<longleftrightarrow> 0 < mb_width m \<and> mb_width m < 2 ^ 31 \<and> 0 < mb_height m \<and> mb_height m < 2 ^ 31"

definition display_ok :: "x_display \<Rightarrow> bool" where
  "display_ok d \<longleftrightarrow> list_all bounds_ok (get_monitors d)"

fun op_display_ok :: "mouse_op \<Rightarrow> bool" where
  "op_display_ok (MoveA _ (Some d) _) = display_ok d"
| "op_display_ok _ = True"

lemma fold_widen:
  assumes "fold widen ms (l, t, r, b) = (l', t', r', b')"
  shows "l' \<le> l \<and> t' \<le> t \<and> r \<le> r' \<and> b \<le> b'
    \<and> (\<forall>m \<in> set ms. l' \<le> mb_x m \<and> t' \<le> mb_y m \<and> mb_x m + mb_width m \<le> r' \<and> mb_y m + mb_height m \<le> b')"
  using assms
proof (induction ms arbitrary: l t r b)
  case Nil
  then show ?case by simp
next
  case (Cons m ms)
  have "fold widen ms (min l (mb_x m), min t (mb_y m), max r (mb_x m + mb_width m), max b (mb_y m + mb_height m)) = (l', t', r', b')"
    using Cons.prems by (simp add: widen_def [of m])
  from Cons.IH [OF this] show ?case by auto
qed

lemma root_bounds:
  assumes "m \<in> set monitors"
  shows "let root = get_root_bounds monitors in mb_x root \<le> mb_x m \<and> mb_y root \<le> mb_y m
    \<and> mb_x m + mb_width m \<le> mb_x root + mb_width root \<and> mb_y m + mb_height m \<le> mb_y root + mb_height root"
proof -
  obtain m0 ms where ms: "monitors = m0 # ms" using assms by (cases monitors) auto
  obtain l t r b where f: "fold widen monitors (mb_x m0, mb_y m0, mb_x m0 + mb_width m0, mb_y m0 + mb_height m0) = (l, t, r, b)"
    by (metis prod_cases4)
  have root: "get_root_bounds monitors = \<lparr>mb_x = l, mb_y = t, mb_width = max 1 (r - l), mb_height = max 1 (b - t)\<rparr>"
    using f ms by (simp add: get_root_bounds_def)
  from fold_widen [OF f] assms have "l \<le> mb_x m" "t \<le> mb_y m" "mb_x m + mb_width m \<le> r" "mb_y m + mb_height m \<le> b" by auto
  then show ?thesis unfolding root Let_def by auto
qed

lemma clamped_unit: "\<exists>q. std_max (Fin 0) (std_min (Fin 1) x) = Fin (qclamp q 0 1)"
proof (cases x)
  case (Fin q)
  then show ?thesis by (intro exI [of _ q]) (auto simp: std_max_def std_min_def qclamp_def)
next
  case PInf
  then show ?thesis by (intro exI [of _ 1]) (auto simp: std_max_def std_min_def qclamp_def)
next
  case NInf
  then show ?thesis by (intro exI [of _ 0]) (auto simp: std_max_def std_min_def qclamp_def)
next
  case NaN
  then show ?thesis by (intro exI [of _ 1]) (auto simp: std_max_def std_min_def qclamp_def)
qed

lemma on_axis_inside:
  assumes "0 < extent" "extent < 2 ^ 31"
  shows "\<exists>k. on_axis x extent = Some k \<and> 0 \<le> k \<and> k < extent"
proof -
  obtain q where q: "std_max (Fin 0) (std_min (Fin 1) x) = Fin (qclamp q 0 1)" using clamped_unit by blast
  obtain k where "dlround (dmul (Fin (qclamp q 0 1)) (Fin (of_int (extent - 1)))) = Some k" "0 \<le> k" "k \<le> extent - 1"
    using scaled_share [of "extent - 1" q] assms by auto
  then show ?thesis using assms by (simp add: on_axis_def q round_to_int_def del: of_int_diff)
qed

lemma absolute_position:
  assumes "perform_mouse_move_absolute create display args s = Some (r, s', c)"
    "position_ok s" "\<And>d. display = Some d \<Longrightarrow> display_ok d"
  shows "position_ok s'"
proof -
  obtain x ok1 where x: "get_double_arg args ''x'' = (x, ok1)" by fastforce
  obtain y ok2 where y: "get_double_arg args ''y'' = (y, ok2)" by fastforce
  obtain i ok3 where i: "get_int_arg args ''screenId'' = (i, ok3)" by fastforce
  obtain g s1 where gm: "get_mouse create s = (g, s1)" by fastforce
  have p1: "position_ok s1" using get_mouse_same [OF gm] assms(2) by (simp add: position_ok_def)
  note u = assms(1) [unfolded perform_mouse_move_absolute_def x y i gm Let_def prod.case]
  show ?thesis
  proof (cases "ok1 \<and> ok2 \<and> ok3 \<and> g")
    case False
    then show ?thesis using u p1 assms(2) by (auto split: if_splits)
  next
    case oks: True
    show ?thesis
    proof (cases display)
      case None
      then show ?thesis using u oks p1 by simp
    next
      case (Some d)
      let ?ms = "get_monitors d" and ?root = "get_root_bounds (get_monitors d)"
      show ?thesis
      proof (cases "i < 0 \<or> i \<ge> int (length ?ms)")
        case True
        then show ?thesis using u oks p1 Some by (auto split: if_splits)
      next
        case False
        define m where "m = ?ms ! nat i"
        have m: "m \<in> set ?ms" using False unfolding m_def by (intro nth_mem) linarith
        have bo: "bounds_ok m" using assms(3) [OF Some] m by (simp add: display_ok_def list_all_iff)
        obtain ax where ax: "on_axis x (mb_width m) = Some ax" "0 \<le> ax" "ax < mb_width m"
          using on_axis_inside bo unfolding bounds_ok_def by blast
        obtain ay where ay: "on_axis y (mb_height m) = Some ay" "0 \<le> ay" "ay < mb_height m"
          using on_axis_inside bo unfolding bounds_ok_def by blast
        have "s' = s1\<lparr>g_current_mouse_mode := kAbsolute, g_last_abs_x := mb_x m - mb_x ?root + ax,
            g_last_abs_y := mb_y m - mb_y ?root + ay,
            g_last_abs_width := mb_width ?root, g_last_abs_height := mb_height ?root\<rparr>"
          using u oks False Some ax ay by (simp add: m_def)
        then show ?thesis using root_bounds [OF m] ax ay by (simp add: position_ok_def Let_def)
      qed
    qed
  qed
qed

text \<open>Everything a step guarantees.\<close>

definition step_ok :: "linux_mouse \<Rightarrow> mouse_call list \<Rightarrow> linux_mouse \<Rightarrow> bool" where
  "step_ok s c s' \<longleftrightarrow> tracks s c s' \<and> mouse_ok s' \<and> wheels_balance s c s' \<and> (wheels_ok s \<longrightarrow> wheels_ok s')"

text \<open>The pressed buttons, the mode and the remainders are untouched and the calls are quiet.\<close>

lemma step_ok_quiet:
  assumes "mouse_ok s" "g_pressed_mouse_buttons s' = g_pressed_mouse_buttons s"
    "wheel_remainder s' = wheel_remainder s" "\<And>m k. wheel_sum m k c = 0"
    "track c (g_current_mouse_mode s, map_of (g_pressed_mouse_buttons s))
       = Some (g_current_mouse_mode s', map_of (g_pressed_mouse_buttons s))"
  shows "step_ok s c s'"
  using assms wheels_quiet [OF assms(3,4)] by (simp add: step_ok_def tracks_def mouse_ok_def wheels_ok_def)

lemma step_ok_trans: "step_ok s c s' \<Longrightarrow> step_ok s' d s'' \<Longrightarrow> step_ok s (c @ d) s''"
  unfolding step_ok_def by (blast intro: tracks_trans wheels_balance_trans)

lemma move_relative_ok:
  assumes "perform_mouse_move_relative create args s = Some (r, s', c)" "mouse_ok s"
  shows "step_ok s c s' \<and> (position_ok s \<longrightarrow> position_ok s')"
proof -
  obtain g s1 where gm: "get_mouse create s = (g, s1)" by fastforce
  note same = get_mouse_same [OF gm]
  have "c = [] \<and> (s' = s \<or> s' = s1) \<or> (\<exists>a b. c = [move a b] \<and> s' = s1\<lparr>g_current_mouse_mode := kRelative\<rparr>)"
    using assms(1) by (auto simp: perform_mouse_move_relative_def gm split: prod.splits if_splits option.splits)
  then show ?thesis using same assms(2) by (auto intro!: step_ok_quiet simp: position_ok_def)
qed

lemma move_absolute_ok:
  assumes "perform_mouse_move_absolute create display args s = Some (r, s', c)" "mouse_ok s"
  shows "step_ok s c s'"
proof -
  obtain g s1 where gm: "get_mouse create s = (g, s1)" by fastforce
  note same = get_mouse_same [OF gm]
  have "c = [] \<and> (s' = s \<or> s' = s1) \<or>
    (\<exists>x y w h. c = [move_abs x y w h] \<and> s' = s1\<lparr>g_current_mouse_mode := kAbsolute, g_last_abs_x := x, g_last_abs_y := y,
       g_last_abs_width := w, g_last_abs_height := h\<rparr>)"
    using assms(1)
    by (auto simp: perform_mouse_move_absolute_def gm Let_def split: prod.splits if_splits option.splits)
  then show ?thesis using same assms(2) by (auto intro!: step_ok_quiet)
qed

lemma button_ok:
  assumes "perform_mouse_button create args s = (r, s', c)" "mouse_ok s"
  shows "step_ok s c s' \<and> (position_ok s \<longrightarrow> position_ok s')"
proof -
  obtain g s1 where gm: "get_mouse create s = (g, s1)" by fastforce
  note same = get_mouse_same [OF gm]
  obtain i ok1 where i: "get_int_arg args ''buttonId'' = (i, ok1)" by fastforce
  obtain down ok2 where d: "get_bool_arg args ''isDown'' = (down, ok2)" by fastforce
  note u = assms(1) [unfolded perform_mouse_button_def i d gm Let_def prod.case]
  show ?thesis
  proof (cases "ok1 \<and> ok2 \<and> g \<and> mouse_button_to_inputtino i \<noteq> None")
    case False
    then have "c = [] \<and> (s' = s \<or> s' = s1)" using u by (auto split: if_splits option.splits)
    then show ?thesis using same assms(2) by (auto intro!: step_ok_quiet simp: position_ok_def)
  next
    case True
    then obtain b where b: "mouse_button_to_inputtino i = Some b" by blast
    show ?thesis
    proof (cases down)
      case True
      then have s': "s' = s1\<lparr>g_pressed_mouse_buttons := AList.update b (g_current_mouse_mode s1) (g_pressed_mouse_buttons s1)\<rparr>"
        and c: "c = [press b]" using u b \<open>_ \<and> _ \<and> g \<and> _\<close> by auto
      have "tracks s c s'" using same c s' by (simp add: tracks_def update_conv')
      moreover have "mouse_ok s'" using same assms(2) s' by (simp add: mouse_ok_def distinct_update)
      moreover have "wheels_balance s c s'" using same s' c by (intro wheels_quiet) simp_all
      ultimately show ?thesis using same s' by (simp add: step_ok_def wheels_ok_def position_ok_def)
    next
      case False
      show ?thesis
      proof (cases "map_of (g_pressed_mouse_buttons s1) b")
        case None
        then have "s' = s1" "c = [release b]" using u b \<open>_ \<and> _ \<and> g \<and> _\<close> False by auto
        moreover have "(map_of (g_pressed_mouse_buttons s1))(b := None) = map_of (g_pressed_mouse_buttons s1)"
          using None by (simp add: fun_upd_idem)
        ultimately show ?thesis using same assms(2) None by (auto intro!: step_ok_quiet simp: position_ok_def)
      next
        case (Some mode)
        obtain s2 calls where sm: "set_mouse_mode mode s1 = (s2, calls)" by fastforce
        have s': "s' = s2\<lparr>g_pressed_mouse_buttons := AList.delete b (g_pressed_mouse_buttons s2)\<rparr>"
          and c: "c = calls @ [release b]" using u b \<open>_ \<and> _ \<and> g \<and> _\<close> False Some sm by auto
        have s2: "s2 = s1\<lparr>g_current_mouse_mode := mode\<rparr>" "\<And>m k. wheel_sum m k calls = 0"
          "\<And>m p. track calls (m, p) = Some (mode, p)"
          using sm by (cases mode; auto simp: set_mouse_mode_def)+
        have "tracks s c s'" using same c s' s2 Some by (simp add: tracks_def track_append delete_conv')
        moreover have "mouse_ok s'" using same assms(2) s' s2 by (simp add: mouse_ok_def distinct_delete)
        moreover have "wheels_balance s c s'" using same s' s2 c by (intro wheels_quiet) simp_all
        ultimately show ?thesis using same s' s2 by (simp add: step_ok_def wheels_ok_def position_ok_def)
      qed
    qed
  qed
qed

lemma wheel_step_ok:
  assumes "perform_mouse_scroll create vdev hdev args s = Some (r, s', c)" "mouse_ok s"
  shows "step_ok s c s' \<and> (position_ok s \<longrightarrow> position_ok s')"
proof -
  obtain g s1 where gm: "get_mouse create s = (g, s1)" by fastforce
  note same = get_mouse_same [OF gm]
  have one: "step_ok t c t' \<and> (position_ok t \<longrightarrow> position_ok t')"
    if "(if n \<noteq> 0 then scroll a d n v t else (t, [])) = (t', c)" "mouse_ok t" for n a d v t t' c
    using scroll_wheels [of a d n v t t' c] scroll_same [of a d n v t t' c] that
    by (auto simp: step_ok_def tracks_def mouse_ok_def position_ok_def wheels_quiet split: if_splits)
  obtain dx ok1 where dx: "get_double_arg args ''dx'' = (dx, ok1)" by fastforce
  obtain dy ok2 where dy: "get_double_arg args ''dy'' = (dy, ok2)" by fastforce
  note u = assms(1) [unfolded perform_mouse_scroll_def dx dy gm Let_def prod.case vertical_scroll_def horizontal_scroll_def]
  consider "c = [] \<and> (s' = s \<or> s' = s1)"
    | v h s2 c1 c2 where "(if v \<noteq> 0 then scroll (fst vdev) (snd vdev) v True s1 else (s1, [])) = (s2, c1)"
      "(if h \<noteq> 0 then scroll (fst hdev) (snd hdev) h False s2 else (s2, [])) = (s', c2)" "c = c1 @ c2"
  proof (cases "ok1 \<and> ok2 \<and> g")
    case False
    then show ?thesis using u that(1) by (auto split: if_splits)
  next
    case True
    then obtain v h where vh: "logical_scroll_to_linux_wheel dy True = Some v" "logical_scroll_to_linux_wheel dx False = Some h"
      using u by (auto split: option.splits)
    obtain s2 c1 where a: "(if v \<noteq> 0 then scroll (fst vdev) (snd vdev) v True s1 else (s1, [])) = (s2, c1)"
      by (cases "if v \<noteq> 0 then scroll (fst vdev) (snd vdev) v True s1 else (s1, [])")
    obtain s3 c2 where b: "(if h \<noteq> 0 then scroll (fst hdev) (snd hdev) h False s2 else (s2, [])) = (s3, c2)"
      by (cases "if h \<noteq> 0 then scroll (fst hdev) (snd hdev) h False s2 else (s2, [])")
    have "s' = s3" "c = c1 @ c2" using u [unfolded vh option.case prod.case a b] True by simp_all
    then show ?thesis using that(2) [OF a] b by blast
  qed
  then show ?thesis
  proof cases
    case 1
    then show ?thesis using same assms(2) by (auto intro!: step_ok_quiet simp: position_ok_def)
  next
    case 2
    have m1: "mouse_ok s1" using assms(2) same by (simp add: mouse_ok_def)
    have s1: "step_ok s [] s1 \<and> (position_ok s \<longrightarrow> position_ok s1)"
      using same assms(2) by (auto intro!: step_ok_quiet simp: position_ok_def)
    note a = one [OF 2(1) m1]
    then have "mouse_ok s2" by (simp add: step_ok_def)
    note b = one [OF 2(2) this]
    have "step_ok s ([] @ c1 @ c2) s'" using s1 a b by (blast intro: step_ok_trans)
    then show ?thesis using s1 a b 2(3) by simp
  qed
qed

lemma mouse_step_ok:
  assumes "mouse_step rank op s = Some (r, s', c)" "mouse_ok s"
  shows "step_ok s c s' \<and> (op_display_ok op \<and> position_ok s \<longrightarrow> position_ok s')"
proof (cases op)
  case (MoveR create args)
  then show ?thesis using assms move_relative_ok by (auto split: prod.splits)
next
  case (MoveA create display args)
  then obtain r' where m: "perform_mouse_move_absolute create display args s = Some (r', s', c)"
    using assms(1) by auto
  have "op_display_ok op \<and> position_ok s \<longrightarrow> position_ok s'"
    using absolute_position [OF m] MoveA by (cases display) auto
  then show ?thesis using move_absolute_ok [OF m assms(2)] by blast
next
  case (Button create args)
  then show ?thesis using assms button_ok by (auto split: prod.splits)
next
  case (Wheel create vdev hdev args)
  then obtain r' where "perform_mouse_scroll create vdev hdev args s = Some (r', s', c)" using assms(1) by auto
  from wheel_step_ok [OF this assms(2)] show ?thesis by blast
next
  case (ClearButtons create)
  then have m: "clear_all_pressed_mouse_buttons rank create s = (r, s', c)" using assms(1) by simp
  note k = clear_buttons_track [OF assms(2) m]
  then have "wheels_balance s c s'" by (intro wheels_quiet) blast+
  then show ?thesis using k by (simp add: step_ok_def wheels_ok_def position_ok_def)
qed

lemma mouse_run_ok:
  "mouse_run rank ops s = Some (s', c) \<Longrightarrow> mouse_ok s \<Longrightarrow>
   step_ok s c s' \<and> (list_all op_display_ok ops \<and> position_ok s \<longrightarrow> position_ok s')"
proof (induction ops arbitrary: s c)
  case Nil
  then show ?case by (auto intro!: step_ok_quiet)
next
  case (Cons op ops)
  obtain r s1 c1 c2 where st: "mouse_step rank op s = Some (r, s1, c1)"
    and rn: "mouse_run rank ops s1 = Some (s', c2)" and c: "c = c1 @ c2"
    using Cons.prems(1) by (auto split: option.splits)
  note a = mouse_step_ok [OF st Cons.prems(2)]
  then have "mouse_ok s1" by (simp add: step_ok_def)
  from Cons.IH [OF rn this] a c show ?case by (auto intro: step_ok_trans)
qed

lemma initial_mouse_ok: "mouse_ok initial_mouse" "wheels_ok initial_mouse" "position_ok initial_mouse"
  by (simp_all add: initial_mouse_def mouse_ok_def wheels_ok_def position_ok_def)

definition demo_display :: x_display where
  "demo_display = \<lparr>xd_monitors = Some [(1, \<lparr>mb_x = 0, mb_y = 0, mb_width = 1920, mb_height = 1080\<rparr>),
     (1, \<lparr>mb_x = - 1280, mb_y = 100, mb_width = 1280, mb_height = 1024\<rparr>)], xd_width = 3200, xd_height = 1124\<rparr>"

definition demo_mouse_ops :: "mouse_op list" where
  "demo_mouse_ops =
    [Button None (Some (FlMap [(''buttonId'', FlInt 1), (''isDown'', FlBool True)])),
     MoveA None (Some demo_display) (Some (FlMap [(''x'', FlInt 0), (''y'', FlInt 1), (''screenId'', FlInt 1)])),
     Wheel None (True, True) (True, True) (Some (FlMap [(''dx'', FlInt 0), (''dy'', FlInt (- 100))])),
     Wheel None (True, True) (True, True) (Some (FlMap [(''dx'', FlInt 0), (''dy'', FlInt (- 100))])),
     Button None (Some (FlMap [(''buttonId'', FlInt 1), (''isDown'', FlBool False)]))]"

definition demo_calls :: "mouse_call list" where
  "demo_calls = [press LEFT, move_abs 0 1123 3200 1124, EV_REL kAbsolute REL_WHEEL_HI_RES 100, EV_SYN kAbsolute,
     EV_REL kAbsolute REL_WHEEL 1, EV_REL kAbsolute REL_WHEEL_HI_RES 100, EV_SYN kAbsolute, move 0 0, release LEFT]"

lemma to_double_int: "\<bar>m\<bar> \<le> 2 ^ 53 \<Longrightarrow> to_double (of_int m) = Fin (of_int m)"
  by (rule to_double_representable) (rule representable_int)

lemma demo_numbers:
  "to_double 0 = Fin 0" "to_double 1 = Fin 1" "to_double (- 100) = Fin (- 100)"
  "on_axis (Fin 0) 1280 = Some 0" "on_axis (Fin 1) 1024 = Some 1023"
  "logical_scroll_to_linux_wheel (Fin (- 100)) True = Some 100" "logical_scroll_to_linux_wheel (Fin 0) False = Some 0"
proof -
  have d: "to_double 0 = Fin 0" "to_double 1 = Fin 1" "to_double (- 100) = Fin (- 100)"
    "to_double 100 = Fin 100" "to_double 1023 = Fin 1023"
    using to_double_int [of 0] to_double_int [of 1] to_double_int [of "- 100"] to_double_int [of 100]
      to_double_int [of 1023] by simp_all
  show "to_double 0 = Fin 0" "to_double 1 = Fin 1" "to_double (- 100) = Fin (- 100)" by (fact d)+
  have l: "lround 1023 = 1023" "lround 100 = 100" "lround 0 = 0"
    using lround_of_int [of 1023] lround_of_int [of 100] lround_of_int [of 0] by simp_all
  show "on_axis (Fin 0) 1280 = Some 0" "on_axis (Fin 1) 1024 = Some 1023"
    by (simp_all add: on_axis_def std_max_def std_min_def d round_to_int_def dlround_def l)
  show "logical_scroll_to_linux_wheel (Fin (- 100)) True = Some 100" "logical_scroll_to_linux_wheel (Fin 0) False = Some 0"
    by (simp_all add: logical_scroll_to_linux_wheel_def is_finite_def d dclamp_def kMaxLinuxWheelDistance_def dlround_def l)
qed

lemmas demo_defs = demo_mouse_ops_def initial_mouse_def perform_mouse_button_def perform_mouse_move_absolute_def
  perform_mouse_scroll_def get_int_arg_def get_bool_arg_def get_double_arg_def fl_value_lookup_string_def
  get_mouse_def mouse_button_to_inputtino_def demo_display_def get_monitors_def get_root_bounds_def widen_def
  vertical_scroll_def scroll_def c_div_def c_mod_def set_mouse_mode_def demo_numbers demo_calls_def

lemma demo_eval:
  "\<exists>s. mouse_run (\<lambda>_. 0) demo_mouse_ops initial_mouse = Some (s, demo_calls)
     \<and> g_pressed_mouse_buttons s = [] \<and> g_last_abs_height s = 1124 \<and> wheel_remainder s kAbsolute True = 80"
  by (simp add: demo_defs)

section \<open>Properties\<close>

text \<open>Whatever the requests, a held button is released in the mode in which it was pressed, as the
  device would otherwise never see it released: replaying the calls never meets a release in another
  mode, and ends in the recorded mode with exactly the recorded buttons held.\<close>

theorem buttons_released_in_press_mode:
  assumes "mouse_run rank ops initial_mouse = Some (s, calls)"
  shows "track calls (kRelative, Map.empty) = Some (g_current_mouse_mode s, map_of (g_pressed_mouse_buttons s))"
  using mouse_run_ok [OF assms initial_mouse_ok(1)] by (simp add: step_ok_def tracks_def initial_mouse_def)

theorem buttons_released_in_press_mode_witness:
  "track demo_calls (kRelative, Map.empty) = Some (kRelative, Map.empty)"
proof -
  obtain s where run: "mouse_run (\<lambda>_. 0) demo_mouse_ops initial_mouse = Some (s, demo_calls)"
    and "g_pressed_mouse_buttons s = []" using demo_eval by blast
  with buttons_released_in_press_mode [OF run] show ?thesis by (simp add: demo_calls_def)
qed

text \<open>No wheel movement is lost: in each mode and on each axis the whole notches sent and the kept
  remainder, less than a notch, add up to the distances of the high-resolution events.\<close>

theorem wheel_detents_whole:
  assumes "mouse_run rank ops initial_mouse = Some (s, calls)"
  shows "120 * wheel_sum m (if v then REL_WHEEL else REL_HWHEEL) calls + wheel_remainder s m v
      = wheel_sum m (if v then REL_WHEEL_HI_RES else REL_HWHEEL_HI_RES) calls
    \<and> \<bar>wheel_remainder s m v\<bar> < 120"
  using mouse_run_ok [OF assms initial_mouse_ok(1)] initial_mouse_ok(2)
  by (simp add: step_ok_def wheels_balance_def wheels_ok_def wheel_code_def hires_code_def initial_mouse_def)

theorem wheel_detents_whole_witness:
  "\<exists>s. mouse_run (\<lambda>_. 0) demo_mouse_ops initial_mouse = Some (s, demo_calls)
     \<and> 120 * 1 + wheel_remainder s kAbsolute True = wheel_sum kAbsolute REL_WHEEL_HI_RES demo_calls"
proof -
  obtain s where run: "mouse_run (\<lambda>_. 0) demo_mouse_ops initial_mouse = Some (s, demo_calls)" using demo_eval by blast
  from wheel_detents_whole [OF run, of kAbsolute True]
  have "120 * wheel_sum kAbsolute REL_WHEEL demo_calls + wheel_remainder s kAbsolute True
    = wheel_sum kAbsolute REL_WHEEL_HI_RES demo_calls" by simp
  moreover have "wheel_sum kAbsolute REL_WHEEL demo_calls = 1" by (simp add: demo_calls_def)
  ultimately show ?thesis using run by (intro exI [of _ s]) simp
qed

text \<open>The stored absolute position always lies in the area stored with it, so that returning to the
  absolute mode for a release stays on the desktop.\<close>

theorem absolute_position_wf:
  assumes "mouse_run rank ops initial_mouse = Some (s, calls)" "list_all op_display_ok ops"
  shows "0 \<le> g_last_abs_x s \<and> g_last_abs_x s < g_last_abs_width s
    \<and> 0 \<le> g_last_abs_y s \<and> g_last_abs_y s < g_last_abs_height s"
  using mouse_run_ok [OF assms(1) initial_mouse_ok(1)] assms(2) initial_mouse_ok(3) by (simp add: position_ok_def)

theorem absolute_position_wf_witness:
  "\<exists>s. mouse_run (\<lambda>_. 0) demo_mouse_ops initial_mouse = Some (s, demo_calls)
     \<and> g_last_abs_y s < 1124 \<and> g_last_abs_height s = 1124"
proof -
  obtain s where run: "mouse_run (\<lambda>_. 0) demo_mouse_ops initial_mouse = Some (s, demo_calls)"
    and h: "g_last_abs_height s = 1124" using demo_eval by blast
  have "list_all op_display_ok demo_mouse_ops"
    by (simp add: demo_mouse_ops_def demo_display_def display_ok_def get_monitors_def bounds_ok_def)
  from absolute_position_wf [OF run this] run h show ?thesis by (intro exI [of _ s]) simp
qed

end
