(* ===== verification/LinuxText.thy ===== *)
theory LinuxText
  imports Prelude "HOL-Library.Multiset"
begin

text \<open>
  Committed text on Linux, \<open>linux/linux_text_input.cc\<close>: a transaction borrows the global IBus engine,
  types through it and gives it back. The D-Bus calls return later: a pending call is a continuation of
  the state, and the answer to it is an event, so that every interleaving of answers, timer, focus
  changes and new requests is a run. A request is named by a number; completing it is an effect. When
  a completion makes a new request at once, that request is the next event of the run.

  Whether the bus is connected and its connection open, and the validation of UTF-8, are parameters;
  tokens and revisions are natural numbers, their 64 bits are never exhausted.
\<close>

section \<open>Texts\<close>

definition valid_text :: "(string \<Rightarrow> bool) \<Rightarrow> string \<Rightarrow> bool" where
  "valid_text g_utf8_validate text \<longleftrightarrow>
     \<not> (length text > 4096 \<or> \<not> g_utf8_validate text)
     \<and> list_all (\<lambda>ch. \<not> ((of_char ch :: nat) < 0x20 \<or> (of_char ch :: nat) = 0x7f)) text"

section \<open>State\<close>

text \<open>What happens when the earlier engine has been selected again.\<close>

datatype after_restore =
    AnswerPrepare nat
  | AnswerFinish nat bool
  | AnswerNobody

datatype continuation =
    Initialized
  | ContextRead nat
  | EngineRead nat
  | EngineSelected nat
  | ContextChecked nat
  | RestoreEngineRead after_restore
  | RestoreEngineSet after_restore

datatype dbus_method = RegisterComponent | CurrentInputContext | GetGlobalEngine | SetGlobalEngine string

datatype text_effect =
    DBusCall dbus_method
  | AvailableDone nat bool
  | PreparedDone nat nat
  | FinishDone nat bool
  | ForwardBackspace bool
  | CommitText string
  | TimerStarted
  | TimerRemoved
  | NewEngine nat

record Backend =
  b_bus :: bool
  b_factory :: bool
  b_engine :: "nat option"
  b_name :: string
  b_previous :: string
  b_context :: string
  b_ready :: bool
  b_initializing :: bool
  b_busy :: bool
  b_focused :: bool
  b_next_token :: nat
  b_token :: nat
  b_focus_revision :: nat
  b_prepared_focus :: nat
  b_engine_id :: nat
  b_expiry :: bool
  b_waiters :: "nat list"
  b_pending :: "continuation list"

definition new_backend :: Backend where
  "new_backend = \<lparr>b_bus = False, b_factory = False, b_engine = None, b_name = [], b_previous = [], b_context = [],
     b_ready = False, b_initializing = False, b_busy = False, b_focused = False, b_next_token = 0, b_token = 0,
     b_focus_revision = 0, b_prepared_focus = 0, b_engine_id = 0, b_expiry = False, b_waiters = [], b_pending = []\<rparr>"

text \<open>
  What the environment answers during a step: whether the present bus and a new one are connected,
  whether the connection is open, the engine name made of the process number, and valid UTF-8.
\<close>

record text_world =
  tw_connected :: bool
  tw_new_connected :: bool
  tw_open :: bool
  tw_name :: string
  tw_utf8 :: "string \<Rightarrow> bool"

text \<open>A call on a closed connection is answered with a failure at once.\<close>

definition dbus_call :: "text_world \<Rightarrow> dbus_method \<Rightarrow> continuation \<Rightarrow> (Backend \<Rightarrow> Backend \<times> text_effect list)
    \<Rightarrow> Backend \<Rightarrow> Backend \<times> text_effect list" where
  "dbus_call w m k failed s =
     (if b_bus s \<and> tw_open w then (s\<lparr>b_pending := b_pending s @ [k]\<rparr>, [DBusCall m]) else failed s)"

section \<open>Restoring the engine\<close>

fun restored :: "after_restore \<Rightarrow> bool \<Rightarrow> text_effect list" where
  "restored (AnswerPrepare r) ok = [PreparedDone r 0]"
| "restored (AnswerFinish r good) ok = [FinishDone r (good \<and> ok)]"
| "restored AnswerNobody ok = []"

definition on_engine_set :: "after_restore \<Rightarrow> bool \<Rightarrow> Backend \<Rightarrow> Backend \<times> text_effect list" where
  "on_engine_set a ok s = (s\<lparr>b_busy := False, b_ready := (if ok then b_ready s else False)\<rparr>, restored a ok)"

text \<open>An unreadable engine has the empty name.\<close>

definition engine_name :: "string option \<Rightarrow> string" where
  "engine_name answer = (case answer of None \<Rightarrow> [] | Some name \<Rightarrow> name)"

definition on_restore_engine :: "text_world \<Rightarrow> after_restore \<Rightarrow> string \<Rightarrow> Backend \<Rightarrow> Backend \<times> text_effect list" where
  "on_restore_engine w a name s =
     (if name \<noteq> b_name s
      then (s\<lparr>b_busy := False, b_ready := (if name = [] then False else b_ready s)\<rparr>, restored a (name \<noteq> []))
      else dbus_call w (SetGlobalEngine (b_previous s)) (RestoreEngineSet a) (on_engine_set a False) s)"

definition restore :: "text_world \<Rightarrow> after_restore \<Rightarrow> Backend \<Rightarrow> Backend \<times> text_effect list" where
  "restore w a s = dbus_call w GetGlobalEngine (RestoreEngineRead a) (on_restore_engine w a []) s"

section \<open>Requests\<close>

definition initialized :: "bool \<Rightarrow> Backend \<Rightarrow> Backend \<times> text_effect list" where
  "initialized ok s =
     (s\<lparr>b_ready := ok, b_initializing := False, b_waiters := []\<rparr>, map (\<lambda>r. AvailableDone r ok) (b_waiters s))"

definition available :: "text_world \<Rightarrow> nat \<Rightarrow> Backend \<Rightarrow> Backend \<times> text_effect list" where
  "available w r s =
     (if \<not> b_initializing s \<and> b_ready s \<and> b_bus s \<and> tw_connected w then (s, [AvailableDone r True])
      else if b_busy s then (s, [AvailableDone r False])
      else let s1 = s\<lparr>b_waiters := b_waiters s @ [r]\<rparr> in
        if b_initializing s1 then (s1, [])
        else
          let s2 = s1\<lparr>b_initializing := True, b_ready := False, b_factory := False, b_bus := True,
                      b_engine := None, b_focused := False\<rparr> in
          if \<not> tw_new_connected w then initialized False s2
          else dbus_call w RegisterComponent Initialized (initialized False)
                 (s2\<lparr>b_name := tw_name w, b_factory := True\<rparr>))"

definition fake_context :: string where
  "fake_context = ''/org/freedesktop/IBus/InputContext_1''"

definition on_context_checked :: "text_world \<Rightarrow> nat \<Rightarrow> string option \<Rightarrow> Backend \<Rightarrow> Backend \<times> text_effect list" where
  "on_context_checked w r path s =
     (if path \<noteq> Some (b_context s) \<or> b_engine s = None \<or> \<not> b_focused s then restore w (AnswerPrepare r) s
      else let t = b_next_token s + 1 in
        (s\<lparr>b_next_token := t, b_token := t, b_prepared_focus := b_focus_revision s, b_expiry := True\<rparr>,
         [TimerStarted, PreparedDone r t]))"

definition on_engine_selected :: "text_world \<Rightarrow> nat \<Rightarrow> bool \<Rightarrow> Backend \<Rightarrow> Backend \<times> text_effect list" where
  "on_engine_selected w r selected s =
     (if \<not> selected then restore w (AnswerPrepare r) s
      else dbus_call w CurrentInputContext (ContextChecked r) (on_context_checked w r None) s)"

definition on_engine_read :: "text_world \<Rightarrow> nat \<Rightarrow> string \<Rightarrow> Backend \<Rightarrow> Backend \<times> text_effect list" where
  "on_engine_read w r name s =
     (if name = [] \<or> name = b_name s then (s\<lparr>b_busy := False\<rparr>, [PreparedDone r 0])
      else dbus_call w (SetGlobalEngine (b_name s)) (EngineSelected r) (on_engine_selected w r False)
             (s\<lparr>b_previous := name\<rparr>))"

definition on_context_read :: "text_world \<Rightarrow> nat \<Rightarrow> string option \<Rightarrow> Backend \<Rightarrow> Backend \<times> text_effect list" where
  "on_context_read w r path s =
     (case path of None \<Rightarrow> (s\<lparr>b_busy := False\<rparr>, [PreparedDone r 0])
      | Some p \<Rightarrow>
          if p = fake_context then (s\<lparr>b_busy := False\<rparr>, [PreparedDone r 0])
          else dbus_call w GetGlobalEngine (EngineRead r) (on_engine_read w r []) (s\<lparr>b_context := p\<rparr>))"

definition prepare :: "text_world \<Rightarrow> nat \<Rightarrow> Backend \<Rightarrow> Backend \<times> text_effect list" where
  "prepare w r s =
     (if \<not> b_ready s \<or> b_busy s \<or> \<not> tw_connected w then (s, [PreparedDone r 0])
      else dbus_call w CurrentInputContext (ContextRead r) (on_context_read w r None) (s\<lparr>b_busy := True\<rparr>))"

text \<open>The timer callback.\<close>

definition expire :: "text_world \<Rightarrow> Backend \<Rightarrow> Backend \<times> text_effect list" where
  "expire w s = (if b_expiry s then restore w AnswerNobody (s\<lparr>b_expiry := False, b_token := 0\<rparr>) else (s, []))"

definition finish :: "text_world \<Rightarrow> nat \<Rightarrow> nat \<Rightarrow> int \<Rightarrow> string \<Rightarrow> Backend \<Rightarrow> Backend \<times> text_effect list" where
  "finish w r token backspaces text s =
     (if token = 0 \<or> token \<noteq> b_token s then (s, [FinishDone r False])
      else
        let s1 = s\<lparr>b_token := 0, b_expiry := False\<rparr>;
            o1 = (if b_expiry s then [TimerRemoved] else []);
            valid = (valid_text (tw_utf8 w) text \<and> backspaces \<ge> 0 \<and> backspaces \<le> 4096);
            active = (b_engine s1 \<noteq> None \<and> b_focused s1 \<and> b_prepared_focus s1 = b_focus_revision s1 \<and> tw_connected w);
            o2 = (if valid \<and> active
                  then concat (replicate (nat backspaces) [ForwardBackspace True, ForwardBackspace False])
                       @ (if text \<noteq> [] then [CommitText text] else [])
                  else []);
            (s2, o3) = restore w (AnswerFinish r (valid \<and> active)) s1
        in (s2, o1 @ o2 @ o3))"

section \<open>The engine's signals\<close>

definition create_engine :: "string \<Rightarrow> Backend \<Rightarrow> Backend \<times> text_effect list" where
  "create_engine name s =
     (if b_name s \<noteq> name then (s, [])
      else let e = b_engine_id s + 1 in
        (s\<lparr>b_engine_id := e, b_engine := Some e, b_focused := False\<rparr>, [NewEngine e]))"

definition focus_in :: "text_world \<Rightarrow> nat \<Rightarrow> Backend \<Rightarrow> Backend \<times> text_effect list" where
  "focus_in w e s =
     (if b_engine s \<noteq> Some e then (s, [])
      else let s1 = s\<lparr>b_focused := True, b_focus_revision := b_focus_revision s + 1\<rparr> in
        if \<not> b_busy s1 \<and> b_previous s1 \<noteq> [] then restore w AnswerNobody (s1\<lparr>b_busy := True\<rparr>)
        else (s1, []))"

text \<open>The handlers of \<open>focus-out\<close> and \<open>disable\<close> are the same.\<close>

definition focus_out :: "nat \<Rightarrow> Backend \<Rightarrow> Backend \<times> text_effect list" where
  "focus_out e s =
     (if b_engine s \<noteq> Some e then (s, [])
      else (s\<lparr>b_focused := False, b_focus_revision := b_focus_revision s + 1\<rparr>, []))"

definition destroyed :: "nat \<Rightarrow> Backend \<Rightarrow> Backend \<times> text_effect list" where
  "destroyed e s = (if b_engine s = Some e then (s\<lparr>b_engine := None, b_focused := False\<rparr>, []) else (s, []))"

section \<open>Runs\<close>

text \<open>An answer carries the result as a string where the caller reads one; \<open>None\<close> is an error.\<close>

fun answered :: "text_world \<Rightarrow> continuation \<Rightarrow> string option \<Rightarrow> Backend \<Rightarrow> Backend \<times> text_effect list" where
  "answered w Initialized a s = initialized (a \<noteq> None) s"
| "answered w (ContextRead r) a s = on_context_read w r a s"
| "answered w (EngineRead r) a s = on_engine_read w r (engine_name a) s"
| "answered w (EngineSelected r) a s = on_engine_selected w r (a \<noteq> None) s"
| "answered w (ContextChecked r) a s = on_context_checked w r a s"
| "answered w (RestoreEngineRead k) a s = on_restore_engine w k (engine_name a) s"
| "answered w (RestoreEngineSet k) a s = on_engine_set k (a \<noteq> None) s"

datatype text_event =
    Available nat
  | Prepare nat
  | Finish nat nat int string
  | Answer nat "string option"
  | Expire
  | CreateEngine string
  | FocusIn nat
  | FocusOut nat
  | Destroy nat
  | Disconnected

fun text_step :: "text_world \<Rightarrow> text_event \<Rightarrow> Backend \<Rightarrow> Backend \<times> text_effect list" where
  "text_step w (Available r) s = available w r s"
| "text_step w (Prepare r) s = prepare w r s"
| "text_step w (Finish r t n x) s = finish w r t n x s"
| "text_step w (Answer i a) s =
     (if i < length (b_pending s)
      then answered w (b_pending s ! i) a (s\<lparr>b_pending := take i (b_pending s) @ drop (Suc i) (b_pending s)\<rparr>)
      else (s, []))"
| "text_step w Expire s = expire w s"
| "text_step w (CreateEngine n) s = create_engine n s"
| "text_step w (FocusIn e) s = focus_in w e s"
| "text_step w (FocusOut e) s = focus_out e s"
| "text_step w (Destroy e) s = destroyed e s"
| "text_step w Disconnected s = (s\<lparr>b_ready := False\<rparr>, [])"

fun text_run :: "(text_world \<times> text_event) list \<Rightarrow> Backend \<Rightarrow> Backend \<times> text_effect list list" where
  "text_run [] s = (s, [])"
| "text_run ((w, e) # es) s = (let (s1, o1) = text_step w e s; (s2, os) = text_run es s1 in (s2, o1 # os))"

section \<open>Requests and answers\<close>

datatype request = OfAvailable nat | OfPrepare nat | OfFinish nat

fun asks :: "text_event \<Rightarrow> request list" where
  "asks (Available r) = [OfAvailable r]"
| "asks (Prepare r) = [OfPrepare r]"
| "asks (Finish r _ _ _) = [OfFinish r]"
| "asks _ = []"

fun answers :: "text_effect \<Rightarrow> request list" where
  "answers (AvailableDone r _) = [OfAvailable r]"
| "answers (PreparedDone r _) = [OfPrepare r]"
| "answers (FinishDone r _) = [OfFinish r]"
| "answers _ = []"

fun owes_restored :: "after_restore \<Rightarrow> request list" where
  "owes_restored (AnswerPrepare r) = [OfPrepare r]"
| "owes_restored (AnswerFinish r _) = [OfFinish r]"
| "owes_restored AnswerNobody = []"

fun owes :: "continuation \<Rightarrow> request list" where
  "owes Initialized = []"
| "owes (ContextRead r) = [OfPrepare r]"
| "owes (EngineRead r) = [OfPrepare r]"
| "owes (EngineSelected r) = [OfPrepare r]"
| "owes (ContextChecked r) = [OfPrepare r]"
| "owes (RestoreEngineRead a) = owes_restored a"
| "owes (RestoreEngineSet a) = owes_restored a"

definition asked :: "text_event list \<Rightarrow> request multiset" where
  "asked es = mset (concat (map asks es))"

definition given :: "text_effect list \<Rightarrow> request multiset" where
  "given os = mset (concat (map answers os))"

text \<open>The requests a pending call or the initialisation will answer.\<close>

definition outstanding :: "Backend \<Rightarrow> request multiset" where
  "outstanding s = mset (concat (map owes (b_pending s))) + mset (map OfAvailable (b_waiters s))"

definition transactions :: "Backend \<Rightarrow> continuation list" where
  "transactions s = filter (\<lambda>k. k \<noteq> Initialized) (b_pending s)"

definition init_ok :: "Backend \<Rightarrow> bool" where
  "init_ok s \<longleftrightarrow> filter (\<lambda>k. k = Initialized) (b_pending s) = (if b_initializing s then [Initialized] else [])
     \<and> (b_waiters s \<noteq> [] \<longrightarrow> b_initializing s)"

text \<open>Somebody holds the transaction: one pending call or the timer.\<close>

definition text_ok :: "Backend \<Rightarrow> bool" where
  "text_ok s \<longleftrightarrow> init_ok s \<and> (b_expiry s \<longleftrightarrow> b_token s \<noteq> 0) \<and> b_token s \<le> b_next_token s
     \<and> length (transactions s) + (if b_expiry s then 1 else 0) = (if b_busy s then 1 else 0)"

text \<open>A handler runs while it holds the transaction.\<close>

definition running :: "Backend \<Rightarrow> bool" where
  "running s \<longleftrightarrow> init_ok s \<and> b_busy s \<and> b_token s = 0 \<and> \<not> b_expiry s \<and> transactions s = []"

definition settles :: "request list \<Rightarrow> Backend \<Rightarrow> Backend \<times> text_effect list \<Rightarrow> bool" where
  "settles debt s r \<longleftrightarrow> text_ok (fst r) \<and> given (snd r) + outstanding (fst r) = mset debt + outstanding s"

lemma given_simps [simp]: "given [] = {#}" "given (e # es) = mset (answers e) + given es"
  "given (xs @ ys) = given xs + given ys"
  by (simp_all add: given_def)

lemma given_map_available [simp]: "given (map (\<lambda>r. AvailableDone r ok) rs) = mset (map OfAvailable rs)"
  by (induction rs) (simp_all add: given_def)

lemma given_restored [simp]: "given (restored a ok) = mset (owes_restored a)"
  by (cases a) simp_all

lemma settles_idle:
  "running s \<Longrightarrow> b_pending s' = b_pending s \<Longrightarrow> b_initializing s' = b_initializing s \<Longrightarrow> b_waiters s' = b_waiters s \<Longrightarrow>
   b_token s' = 0 \<Longrightarrow> \<not> b_expiry s' \<Longrightarrow> \<not> b_busy s' \<Longrightarrow> given o1 = mset debt \<Longrightarrow> settles debt s (s', o1)"
  by (auto simp: settles_def running_def text_ok_def init_ok_def transactions_def outstanding_def)

lemma settles_same: "settles debt s' r \<Longrightarrow> outstanding s' = outstanding s \<Longrightarrow> settles debt s r"
  by (simp add: settles_def)

lemma dbus_call_settles:
  assumes "running s" "k \<noteq> Initialized" "owes k = debt" "settles debt s (failed s)"
  shows "settles debt s (dbus_call w m k failed s)"
  using assms by (auto simp: dbus_call_def settles_def running_def text_ok_def init_ok_def transactions_def outstanding_def)

lemma on_engine_set_settles: "running s \<Longrightarrow> settles (owes_restored a) s (on_engine_set a ok s)"
  unfolding on_engine_set_def by (rule settles_idle) (auto simp: running_def)

lemma on_restore_engine_settles: "running s \<Longrightarrow> settles (owes_restored a) s (on_restore_engine w a name s)"
  unfolding on_restore_engine_def
  by (auto intro!: dbus_call_settles on_engine_set_settles settles_idle simp: running_def)

lemma restore_settles: "running s \<Longrightarrow> settles (owes_restored a) s (restore w a s)"
  unfolding restore_def by (auto intro!: dbus_call_settles on_restore_engine_settles)

lemma on_context_checked_settles: "running s \<Longrightarrow> settles [OfPrepare r] s (on_context_checked w r p s)"
  using restore_settles [of s "AnswerPrepare r" w]
  by (auto simp: on_context_checked_def Let_def settles_def running_def text_ok_def init_ok_def transactions_def outstanding_def)

lemma on_engine_selected_settles: "running s \<Longrightarrow> settles [OfPrepare r] s (on_engine_selected w r ok s)"
  using restore_settles [of s "AnswerPrepare r" w]
  by (auto simp: on_engine_selected_def intro!: dbus_call_settles on_context_checked_settles)

lemma on_engine_read_settles:
  assumes "running s"
  shows "settles [OfPrepare r] s (on_engine_read w r name s)"
proof -
  let ?s = "s\<lparr>b_previous := name\<rparr>"
  have "running ?s" "outstanding ?s = outstanding s"
    using assms by (auto simp: running_def init_ok_def transactions_def outstanding_def)
  then have "settles [OfPrepare r] s (dbus_call w (SetGlobalEngine (b_name s)) (EngineSelected r) (on_engine_selected w r False) ?s)"
    by (auto intro!: settles_same [OF dbus_call_settles] on_engine_selected_settles)
  then show ?thesis using assms by (auto simp: on_engine_read_def running_def intro!: settles_idle)
qed

lemma on_context_read_settles:
  assumes "running s"
  shows "settles [OfPrepare r] s (on_context_read w r path s)"
proof (cases "path = None \<or> path = Some fake_context")
  case True
  then show ?thesis using assms by (auto simp: on_context_read_def running_def intro!: settles_idle)
next
  case False
  then obtain p where p: "path = Some p" "p \<noteq> fake_context" by auto
  let ?s = "s\<lparr>b_context := p\<rparr>"
  have "running ?s" "outstanding ?s = outstanding s"
    using assms by (auto simp: running_def init_ok_def transactions_def outstanding_def)
  then have "settles [OfPrepare r] s (dbus_call w GetGlobalEngine (EngineRead r) (on_engine_read w r []) ?s)"
    by (auto intro!: settles_same [OF dbus_call_settles] on_engine_read_settles)
  then show ?thesis using p by (simp add: on_context_read_def)
qed

lemma text_ok_idle: "text_ok s \<Longrightarrow> \<not> b_busy s \<Longrightarrow> b_token s = 0 \<and> \<not> b_expiry s \<and> transactions s = []"
  by (auto simp: text_ok_def split: if_splits)

lemma settles_nothing: "text_ok s \<Longrightarrow> given o1 = mset debt \<Longrightarrow> settles debt s (s, o1)"
  by (simp add: settles_def)



lemma initialized_ok:
  assumes "filter (\<lambda>k. k = Initialized) (b_pending s) = []" "b_expiry s \<longleftrightarrow> b_token s \<noteq> 0" "b_token s \<le> b_next_token s"
    "length (transactions s) + (if b_expiry s then 1 else 0) = (if b_busy s then 1 else 0)"
  shows "settles [] s (initialized ok s)"
  using assms by (auto simp: initialized_def settles_def text_ok_def init_ok_def transactions_def outstanding_def)

text \<open>Starting the initialisation with one more waiting request.\<close>

lemma initializing_ok:
  assumes "text_ok s" "\<not> b_initializing s" "\<not> b_busy s"
    and t: "b_pending t = b_pending s" "b_initializing t" "b_busy t = b_busy s" "b_token t = b_token s"
      "b_next_token t = b_next_token s" "b_expiry t = b_expiry s" "b_waiters t = b_waiters s @ [r]"
  shows "settles [OfAvailable r] s (initialized False t)"
    "settles [OfAvailable r] s (dbus_call w RegisterComponent Initialized (initialized False) t)"
proof -
  have p: "filter (\<lambda>k. k = Initialized) (b_pending t) = []" "transactions t = []" "b_token t = 0" "\<not> b_expiry t" "\<not> b_busy t"
    using assms text_ok_idle [OF assms(1,3)] by (auto simp: text_ok_def init_ok_def transactions_def)
  have o: "outstanding t = outstanding s + mset [OfAvailable r]" using t by (simp add: outstanding_def)
  have i: "settles [] t (initialized False t)" by (rule initialized_ok) (use p in auto)
  then show "settles [OfAvailable r] s (initialized False t)" unfolding settles_def o by simp
  have c: "settles [] t (t\<lparr>b_pending := b_pending t @ [Initialized]\<rparr>, [DBusCall RegisterComponent])"
    using p t by (simp add: settles_def text_ok_def init_ok_def transactions_def outstanding_def)
  have "settles [] t (dbus_call w RegisterComponent Initialized (initialized False) t)"
    unfolding dbus_call_def using i c by (simp split: if_split)
  then show "settles [OfAvailable r] s (dbus_call w RegisterComponent Initialized (initialized False) t)"
    unfolding settles_def o by simp
qed

lemma available_settles:
  assumes "text_ok s"
  shows "settles [OfAvailable r] s (available w r s)"
proof (cases "\<not> b_initializing s \<and> b_ready s \<and> b_bus s \<and> tw_connected w \<or> b_busy s")
  case True
  then show ?thesis using assms by (auto simp: available_def intro!: settles_nothing)
next
  case False
  then have nb: "\<not> b_busy s" by blast
  show ?thesis
  proof (cases "b_initializing s")
    case True
    then show ?thesis using assms nb text_ok_idle [OF assms nb]
      by (simp add: available_def settles_def text_ok_def init_ok_def transactions_def outstanding_def)
  next
    case ni: False
    show ?thesis
      unfolding available_def Let_def using False nb ni
      by (simp, intro conjI impI initializing_ok [OF assms ni nb]; simp)
  qed
qed

lemma prepare_settles:
  assumes "text_ok s"
  shows "settles [OfPrepare r] s (prepare w r s)"
proof (cases "\<not> b_ready s \<or> b_busy s \<or> \<not> tw_connected w")
  case True
  then show ?thesis using assms by (auto simp: prepare_def intro!: settles_nothing)
next
  case False
  let ?s = "s\<lparr>b_busy := True\<rparr>"
  have "running ?s" "outstanding ?s = outstanding s"
    using assms False text_ok_idle [OF assms] by (auto simp: running_def text_ok_def init_ok_def transactions_def outstanding_def)
  then have "settles [OfPrepare r] s (dbus_call w CurrentInputContext (ContextRead r) (on_context_read w r None) ?s)"
    by (auto intro!: settles_same [OF dbus_call_settles] on_context_read_settles)
  then show ?thesis using False by (simp add: prepare_def)
qed

lemma release_token:
  assumes "text_ok s" "b_expiry s"
  shows "running (s\<lparr>b_token := 0, b_expiry := False\<rparr>) \<and> outstanding (s\<lparr>b_token := 0, b_expiry := False\<rparr>) = outstanding s"
  using assms by (auto simp: running_def text_ok_def init_ok_def transactions_def outstanding_def split: if_splits)

lemma expire_settles:
  assumes "text_ok s"
  shows "settles [] s (expire w s)"
proof (cases "b_expiry s")
  case True
  have e: "s\<lparr>b_expiry := False, b_token := 0\<rparr> = s\<lparr>b_token := 0, b_expiry := False\<rparr>" by simp
  from release_token [OF assms True] restore_settles [of _ AnswerNobody w] have
    "settles [] (s\<lparr>b_token := 0, b_expiry := False\<rparr>) (restore w AnswerNobody (s\<lparr>b_token := 0, b_expiry := False\<rparr>))"
    "outstanding (s\<lparr>b_token := 0, b_expiry := False\<rparr>) = outstanding s" by fastforce+
  then show ?thesis using True settles_same unfolding expire_def e by simp
next
  case False
  then show ?thesis using assms by (simp add: expire_def settles_nothing)
qed

text \<open>What a finished transaction types.\<close>

definition typed :: "text_world \<Rightarrow> nat \<Rightarrow> int \<Rightarrow> string \<Rightarrow> Backend \<Rightarrow> text_effect list" where
  "typed w token backspaces text s =
     (if valid_text (tw_utf8 w) text \<and> backspaces \<ge> 0 \<and> backspaces \<le> 4096 \<and> b_engine s \<noteq> None \<and> b_focused s
         \<and> b_prepared_focus s = b_focus_revision s \<and> tw_connected w
      then concat (replicate (nat backspaces) [ForwardBackspace True, ForwardBackspace False])
           @ (if text \<noteq> [] then [CommitText text] else [])
      else [])"

lemma given_backspaces: "given (concat (replicate n [ForwardBackspace True, ForwardBackspace False])) = {#}"
  by (induction n) simp_all

lemma given_typed [simp]: "given (typed w t n x s) = {#}"
  by (simp add: typed_def given_backspaces)

lemma finish_eq:
  assumes "text_ok s" "token \<noteq> 0" "token = b_token s"
  shows "\<exists>good. finish w r token n x s =
    (let (s2, o3) = restore w (AnswerFinish r good) (s\<lparr>b_token := 0, b_expiry := False\<rparr>)
     in (s2, TimerRemoved # typed w token n x s @ o3)) \<and> b_expiry s"
proof -
  have e: "b_expiry s" using assms by (auto simp: text_ok_def)
  show ?thesis
    using assms(2,3) e
    by (intro exI [of _ "valid_text (tw_utf8 w) x \<and> n \<ge> 0 \<and> n \<le> 4096 \<and> b_engine s \<noteq> None \<and> b_focused s
        \<and> b_prepared_focus s = b_focus_revision s \<and> tw_connected w"])
      (auto simp: finish_def typed_def Let_def split: prod.splits)
qed

lemma finish_settles:
  assumes "text_ok s"
  shows "settles [OfFinish r] s (finish w r token n x s)"
proof (cases "token = 0 \<or> token \<noteq> b_token s")
  case True
  then show ?thesis using assms by (auto simp: finish_def intro!: settles_nothing)
next
  case False
  let ?s1 = "s\<lparr>b_token := 0, b_expiry := False\<rparr>"
  obtain good where f: "finish w r token n x s =
    (let (s2, o3) = restore w (AnswerFinish r good) ?s1 in (s2, TimerRemoved # typed w token n x s @ o3))"
    and e: "b_expiry s" using finish_eq [OF assms] False by blast
  obtain s2 o3 where re: "restore w (AnswerFinish r good) ?s1 = (s2, o3)" by fastforce
  note rt = release_token [OF assms e]
  from restore_settles [of ?s1 "AnswerFinish r good" w] rt re
  have "settles [OfFinish r] ?s1 (s2, o3)" by simp
  then show ?thesis using rt unfolding f re by (simp add: settles_def)
qed

text \<open>Steps that touch neither the transaction nor the initialisation.\<close>

lemma settles_fields:
  assumes "text_ok s" "b_pending s' = b_pending s" "b_initializing s' = b_initializing s" "b_waiters s' = b_waiters s"
    "b_busy s' = b_busy s" "b_token s' = b_token s" "b_next_token s' = b_next_token s" "b_expiry s' = b_expiry s"
    "given o1 = {#}"
  shows "settles [] s (s', o1)"
proof -
  have "text_ok s'" using assms(1) unfolding text_ok_def init_ok_def transactions_def assms(2-8) .
  moreover have "outstanding s' = outstanding s" by (simp add: outstanding_def assms)
  ultimately show ?thesis by (simp add: settles_def assms(9))
qed

text \<open>Taking a pending call out.\<close>

lemma take_out:
  assumes "i < length xs"
  shows "filter P xs = filter P (take i xs) @ filter P [xs ! i] @ filter P (drop (Suc i) xs)"
    "mset (concat (map f xs)) = mset (f (xs ! i)) + mset (concat (map f (take i xs @ drop (Suc i) xs)))"
  using id_take_nth_drop [OF assms]
  by (metis append_Cons append_Nil filter_append)
    (subst id_take_nth_drop [OF assms], simp)

lemma answer_settles:
  assumes "text_ok s" "i < length (b_pending s)"
  shows "settles [] s (answered w (b_pending s ! i) a (s\<lparr>b_pending := take i (b_pending s) @ drop (Suc i) (b_pending s)\<rparr>))"
proof -
  let ?k = "b_pending s ! i"
  let ?s = "s\<lparr>b_pending := take i (b_pending s) @ drop (Suc i) (b_pending s)\<rparr>"
  have out: "outstanding s = mset (owes ?k) + outstanding ?s"
    unfolding outstanding_def using take_out(2) [OF assms(2), of owes] by simp
  have fl: "filter P (b_pending s) = filter P (take i (b_pending s)) @ filter P [?k] @ filter P (drop (Suc i) (b_pending s))" for P
    by (rule take_out(1) [OF assms(2)])
  show ?thesis
  proof (cases "?k = Initialized")
    case True
    have "b_initializing s" "filter (\<lambda>k. k = Initialized) (b_pending ?s) = []"
      using assms(1) True fl [of "\<lambda>k. k = Initialized"]
      by (simp_all add: text_ok_def init_ok_def append_eq_Cons_conv split: if_splits)
    moreover have "transactions ?s = transactions s" using True fl [of "\<lambda>k. k \<noteq> Initialized"] by (simp add: transactions_def)
    ultimately have "settles [] ?s (initialized (a \<noteq> None) ?s)"
      using assms(1) by (cases "b_expiry s"; cases "b_busy s"; intro initialized_ok; simp add: text_ok_def)
    then show ?thesis using True out by (simp add: settles_def)
  next
    case False
    have "length (transactions s) = Suc (length (transactions ?s))"
      using False fl [of "\<lambda>k. k \<noteq> Initialized"] by (simp add: transactions_def)
    moreover have "filter (\<lambda>k. k = Initialized) (b_pending ?s) = filter (\<lambda>k. k = Initialized) (b_pending s)"
      using False fl [of "\<lambda>k. k = Initialized"] by simp
    ultimately have r: "running ?s" using assms(1)
      by (auto simp: running_def text_ok_def init_ok_def split: if_splits)
    have "settles (owes ?k) ?s (answered w ?k a ?s)"
      using False r on_context_read_settles on_engine_read_settles on_engine_selected_settles on_context_checked_settles
        on_restore_engine_settles on_engine_set_settles by (cases ?k) simp_all
    then show ?thesis using out by (simp add: settles_def)
  qed
qed

lemma focus_in_settles:
  assumes "text_ok s"
  shows "settles [] s (focus_in w e s)"
proof (cases "b_engine s = Some e")
  case False
  then show ?thesis using assms by (simp add: focus_in_def settles_fields)
next
  case e: True
  define t where "t = s\<lparr>b_focused := True, b_focus_revision := b_focus_revision s + 1\<rparr>"
  have f: "focus_in w e s = (if \<not> b_busy t \<and> b_previous t \<noteq> [] then restore w AnswerNobody (t\<lparr>b_busy := True\<rparr>) else (t, []))"
    using e by (simp add: focus_in_def t_def Let_def)
  show ?thesis
  proof (cases "\<not> b_busy t \<and> b_previous t \<noteq> []")
    case False
    then have "focus_in w e s = (t, [])" using f by (simp only: if_False)
    moreover have "settles [] s (t, [])" using assms by (rule settles_fields) (simp_all add: t_def)
    ultimately show ?thesis by simp
  next
    case True
    let ?u = "t\<lparr>b_busy := True\<rparr>"
    have i: "b_token s = 0 \<and> \<not> b_expiry s \<and> transactions s = []" using text_ok_idle [OF assms] True by (simp add: t_def)
    have "init_ok s" using assms by (simp only: text_ok_def)
    then have "running ?u" using i unfolding running_def init_ok_def transactions_def t_def by simp
    then have "settles (owes_restored AnswerNobody) ?u (restore w AnswerNobody ?u)" by (rule restore_settles)
    moreover have "outstanding ?u = outstanding s" by (simp add: outstanding_def t_def)
    moreover have "focus_in w e s = restore w AnswerNobody ?u" using f True by simp
    ultimately show ?thesis by (simp only: settles_def owes_restored.simps)
  qed
qed

lemma text_step_settles:
  assumes "text_ok s"
  shows "settles (asks e) s (text_step w e s)"
proof (cases e)
  case (Answer i a)
  then show ?thesis using assms answer_settles by (auto intro: settles_nothing)
next
  case (CreateEngine n)
  then show ?thesis using assms by (cases "b_name s = n") (simp_all add: create_engine_def Let_def settles_fields)
next
  case (FocusOut k)
  then show ?thesis using assms by (cases "b_engine s = Some k") (simp_all add: focus_out_def settles_fields)
next
  case (Destroy k)
  then show ?thesis using assms by (cases "b_engine s = Some k") (simp_all add: destroyed_def settles_fields)
next
  case Disconnected
  then show ?thesis using assms by (simp add: settles_fields)
qed (use assms available_settles prepare_settles finish_settles expire_settles focus_in_settles in simp_all)

lemma text_run_settles:
  "text_ok s \<Longrightarrow> text_run es s = (s', os) \<Longrightarrow>
   text_ok s' \<and> given (concat os) + outstanding s' = asked (map snd es) + outstanding s"
proof (induction es arbitrary: s os)
  case Nil
  then show ?case by (auto simp: asked_def)
next
  case (Cons we es)
  obtain w e where we: "we = (w, e)" by fastforce
  obtain s1 o1 os' where st: "text_step w e s = (s1, o1)" and rn: "text_run es s1 = (s', os')" and os: "os = o1 # os'"
    using Cons.prems(2) we by (auto split: prod.splits)
  have a: "text_ok s1" "given o1 + outstanding s1 = mset (asks e) + outstanding s"
    using text_step_settles [OF Cons.prems(1), of e w] st by (simp_all add: settles_def)
  from Cons.IH [OF a(1) rn] a(2) show ?case
    by (simp add: os we asked_def ac_simps)
qed

lemma new_backend_ok: "text_ok new_backend" "outstanding new_backend = {#}"
  by (simp_all add: new_backend_def text_ok_def init_ok_def transactions_def outstanding_def)

section \<open>Typing\<close>

fun typing :: "text_effect \<Rightarrow> bool" where
  "typing (ForwardBackspace _) = True"
| "typing (CommitText _) = True"
| "typing _ = False"

text \<open>The tokens whose steps typed something, and the tokens handed out, in order.\<close>

fun typed_tokens :: "(text_world \<times> text_event) list \<Rightarrow> text_effect list list \<Rightarrow> nat list" where
  "typed_tokens ((_, Finish _ t _ _) # es) (o1 # os) = (if list_ex typing o1 then [t] else []) @ typed_tokens es os"
| "typed_tokens (_ # es) (_ # os) = typed_tokens es os"
| "typed_tokens _ _ = []"

fun token_of :: "text_effect \<Rightarrow> nat list" where
  "token_of (PreparedDone _ t) = (if t = 0 then [] else [t])"
| "token_of _ = []"

definition issued_tokens :: "text_effect list list \<Rightarrow> nat list" where
  "issued_tokens os = concat (map token_of (concat os))"

text \<open>Nothing is typed; at most one token is handed out, the next one, and only then is there a new one.\<close>

definition silent :: "Backend \<Rightarrow> Backend \<times> text_effect list \<Rightarrow> bool" where
  "silent s r \<longleftrightarrow> \<not> list_ex typing (snd r)
     \<and> (concat (map token_of (snd r)) = [] \<and> b_next_token (fst r) = b_next_token s \<and> (b_token (fst r) = b_token s \<or> b_token (fst r) = 0)
        \<or> concat (map token_of (snd r)) = [Suc (b_next_token s)] \<and> b_next_token (fst r) = Suc (b_next_token s)
          \<and> b_token (fst r) = Suc (b_next_token s))"

lemma silent_dbus_call: "silent s (failed s) \<Longrightarrow> silent s (dbus_call w m k failed s)"
  by (simp add: dbus_call_def silent_def)

lemma silent_same:
  "silent s' r \<Longrightarrow> b_next_token s' = b_next_token s \<Longrightarrow> b_token s' = b_token s \<or> b_token s' = 0 \<Longrightarrow> silent s r"
  by (auto simp: silent_def)

lemma silent_plain:
  "\<not> list_ex typing o1 \<Longrightarrow> concat (map token_of o1) = [] \<Longrightarrow> b_next_token s' = b_next_token s
    \<Longrightarrow> b_token s' = b_token s \<or> b_token s' = 0 \<Longrightarrow> silent s (s', o1)"
  by (simp add: silent_def)

lemma restored_quiet [simp]: "\<not> list_ex typing (restored a ok)" "concat (map token_of (restored a ok)) = []"
  by (cases a; simp)+

lemma waiters_quiet [simp]: "\<not> list_ex typing (map (\<lambda>r. AvailableDone r ok) rs)"
  "concat (map token_of (map (\<lambda>r. AvailableDone r ok) rs)) = []"
  by (induction rs) simp_all

lemma silent_restore [intro!]:
  "silent s (on_engine_set a ok s)" "silent s (on_restore_engine w a name s)" "silent s (restore w a s)"
proof -
  show 1: "silent s (on_engine_set a ok s)" for a ok and s by (simp add: on_engine_set_def silent_plain)
  show 2: "silent s (on_restore_engine w a name s)" for a name and s
    using 1 by (simp add: on_restore_engine_def silent_plain silent_dbus_call)
  show "silent s (restore w a s)" unfolding restore_def by (intro silent_dbus_call 2)
qed

lemma silent_prepare:
  "silent s (on_context_checked w r p s)" "silent s (on_engine_selected w r sel s)" "silent s (on_engine_read w r name s)"
  "silent s (on_context_read w r p s)" "silent s (prepare w r s)"
proof -
  show 1: "silent s (on_context_checked w r p s)" for p and s
    using silent_restore(3) [of s w "AnswerPrepare r"] by (simp add: on_context_checked_def Let_def) (simp add: silent_def)
  show 2: "silent s (on_engine_selected w r sel s)" for sel and s
    using silent_restore(3) [of s w "AnswerPrepare r"] 1 by (simp add: on_engine_selected_def silent_dbus_call)
  show 3: "silent s (on_engine_read w r name s)" for name and s
  proof -
    have "silent s (dbus_call w (SetGlobalEngine (b_name s)) (EngineSelected r) (on_engine_selected w r False) (s\<lparr>b_previous := name\<rparr>))"
      by (rule silent_same [of "s\<lparr>b_previous := name\<rparr>"]) (simp_all add: 2 silent_dbus_call)
    then show ?thesis by (simp add: on_engine_read_def silent_plain)
  qed
  show 4: "silent s (on_context_read w r p s)" for p and s
  proof -
    have "silent s (dbus_call w GetGlobalEngine (EngineRead r) (on_engine_read w r []) (s\<lparr>b_context := q\<rparr>))" for q
      by (rule silent_same [of "s\<lparr>b_context := q\<rparr>"]) (simp_all add: 3 silent_dbus_call)
    then show ?thesis by (simp add: on_context_read_def silent_plain split: option.split)
  qed
  have "silent s (dbus_call w CurrentInputContext (ContextRead r) (on_context_read w r None) (s\<lparr>b_busy := True\<rparr>))"
    by (rule silent_same [of "s\<lparr>b_busy := True\<rparr>"]) (simp_all add: 4 silent_dbus_call)
  then show "silent s (prepare w r s)" by (simp add: prepare_def silent_plain)
qed

lemma silent_available: "silent s (available w r s)"
proof -
  have i: "silent t (initialized ok t)" for t ok by (simp add: initialized_def silent_plain)
  let ?t = "s\<lparr>b_waiters := b_waiters s @ [r], b_initializing := True, b_ready := False, b_factory := False,
    b_bus := True, b_engine := None, b_focused := False\<rparr>"
  have 1: "silent s (initialized False ?t)" by (rule silent_same [of ?t]) (simp_all add: i)
  let ?u = "?t\<lparr>b_name := tw_name w, b_factory := True\<rparr>"
  have 2: "silent s (dbus_call w RegisterComponent Initialized (initialized False) ?u)"
    by (rule silent_same [of ?u]) (simp_all add: i silent_dbus_call)
  show ?thesis using 1 2 by (simp add: available_def Let_def silent_plain)
qed

lemma silent_answered: "silent s (answered w k a s)"
  by (cases k) (simp_all add: silent_prepare silent_restore initialized_def silent_plain)

lemma silent_step:
  assumes "\<And>r t n x. e \<noteq> Finish r t n x"
  shows "silent s (text_step w e s)"
proof (cases e)
  case (Answer i a)
  show ?thesis
  proof (cases "i < length (b_pending s)")
    case True
    let ?s = "s\<lparr>b_pending := take i (b_pending s) @ drop (Suc i) (b_pending s)\<rparr>"
    have "silent s (answered w (b_pending s ! i) a ?s)" by (rule silent_same [of ?s]) (simp_all add: silent_answered)
    then show ?thesis using True Answer by simp
  next
    case False
    then show ?thesis using Answer by (simp add: silent_plain)
  qed
next
  case Expire
  have "silent s (restore w AnswerNobody (s\<lparr>b_expiry := False, b_token := 0\<rparr>))"
    by (rule silent_same [of "s\<lparr>b_expiry := False, b_token := 0\<rparr>"]) (auto simp: silent_restore)
  then show ?thesis using Expire by (simp add: expire_def silent_plain)
next
  case (FocusIn k)
  let ?t = "s\<lparr>b_focused := True, b_focus_revision := b_focus_revision s + 1, b_busy := True\<rparr>"
  have "silent s (restore w AnswerNobody ?t)" by (rule silent_same [of ?t]) (auto simp: silent_restore)
  then show ?thesis using FocusIn by (simp add: focus_in_def Let_def silent_plain)
qed (use assms in \<open>simp_all add: silent_available silent_prepare create_engine_def focus_out_def destroyed_def silent_plain Let_def\<close>)

lemma finish_tokens:
  assumes "finish w r t n x s = (s', o1)"
  shows "b_next_token s' = b_next_token s \<and> concat (map token_of o1) = [] \<and>
    (list_ex typing o1 \<longrightarrow> t = b_token s \<and> t \<noteq> 0 \<and> b_focused s \<and> b_prepared_focus s = b_focus_revision s) \<and>
    (t = b_token s \<and> t \<noteq> 0 \<longrightarrow> b_token s' = 0) \<and> (b_token s' = b_token s \<or> b_token s' = 0)"
proof (cases "t = 0 \<or> t \<noteq> b_token s")
  case True
  then show ?thesis using assms by (auto simp: finish_def)
next
  case False
  let ?s1 = "s\<lparr>b_token := 0, b_expiry := False\<rparr>"
  let ?good = "valid_text (tw_utf8 w) x \<and> n \<ge> 0 \<and> n \<le> 4096 \<and> b_engine s \<noteq> None \<and> b_focused s
        \<and> b_prepared_focus s = b_focus_revision s \<and> tw_connected w"
  obtain s2 o3 where re: "restore w (AnswerFinish r ?good) ?s1 = (s2, o3)" by fastforce
  have q: "\<not> list_ex typing o3" "concat (map token_of o3) = []" "b_next_token s2 = b_next_token s" "b_token s2 = 0"
    using silent_restore(3) [of ?s1 w "AnswerFinish r ?good"] re False
    by (auto simp: restore_def on_restore_engine_def on_engine_set_def dbus_call_def split: if_splits)
  have t: "\<not> list_ex typing (if b_expiry s then [TimerRemoved] else [])" "concat (map token_of (typed w t n x s)) = []"
    "concat (map token_of (if b_expiry s then [TimerRemoved] else [])) = []"
    by (auto simp: typed_def)
  have o: "s' = s2 \<and> o1 = (if b_expiry s then [TimerRemoved] else []) @ typed w t n x s @ o3"
    using assms re False by (auto simp: finish_def typed_def Let_def split: prod.splits if_splits)
  have "list_ex typing (typed w t n x s) \<longrightarrow> b_focused s \<and> b_prepared_focus s = b_focus_revision s" by (simp add: typed_def)
  then show ?thesis using o q t False by auto
qed

lemma typing_run:
  assumes "b_token s \<le> b_next_token s" "text_run es s = (s', os)"
  shows "sorted_wrt (<) (typed_tokens es os)
    \<and> (\<forall>t \<in> set (typed_tokens es os). t \<noteq> 0 \<and> (t = b_token s \<or> b_next_token s < t \<and> t \<in> set (issued_tokens os)))
    \<and> sorted_wrt (<) (issued_tokens os) \<and> (\<forall>t \<in> set (issued_tokens os). b_next_token s < t)"
  using assms
proof (induction es arbitrary: s os)
  case Nil
  then show ?case by (auto simp: issued_tokens_def)
next
  case (Cons we es)
  obtain w e where we: "we = (w, e)" by fastforce
  obtain s1 o1 os' where st: "text_step w e s = (s1, o1)" and rn: "text_run es s1 = (s', os')" and os: "os = o1 # os'"
    using Cons.prems(2) we by (auto split: prod.splits)
  have iss: "issued_tokens os = concat (map token_of o1) @ issued_tokens os'" by (simp add: issued_tokens_def os)
  show ?case
  proof (cases "\<exists>r t n x. e = Finish r t n x")
    case True
    then obtain r t n x where e: "e = Finish r t n x" by blast
    have f: "finish w r t n x s = (s1, o1)" using st e by simp
    note ft = finish_tokens [OF f]
    have io: "issued_tokens os = issued_tokens os'" unfolding iss using ft by (metis append_Nil)
    have "b_token s1 \<le> b_next_token s1" using ft Cons.prems(1) by auto
    note ih = Cons.IH [OF this rn]
    show ?thesis
    proof (cases "list_ex typing o1")
      case True
      then have t: "t = b_token s" "t \<noteq> 0" "b_token s1 = 0" using ft by auto
      have "\<forall>u \<in> set (typed_tokens es os'). t < u" using ih t ft Cons.prems(1) by fastforce
      then show ?thesis using ih ft t True io we e os by auto
    next
      case False
      then show ?thesis using ih ft io we e os by auto
    qed
  next
    case False
    then have sl: "silent s (s1, o1)" using silent_step [of e s w] st by auto
    then have "b_token s1 \<le> b_next_token s1" using Cons.prems(1) by (auto simp: silent_def)
    note ih = Cons.IH [OF this rn]
    have tt: "typed_tokens (we # es) os = typed_tokens es os'" using False we os by (cases e) auto
    from sl consider (old) "concat (map token_of o1) = []" "b_next_token s1 = b_next_token s" "b_token s1 = b_token s \<or> b_token s1 = 0"
      | (new) "concat (map token_of o1) = [Suc (b_next_token s)]" "b_next_token s1 = Suc (b_next_token s)" "b_token s1 = Suc (b_next_token s)"
      by (auto simp: silent_def)
    then show ?thesis
    proof cases
      case old
      have "issued_tokens os = issued_tokens os'" unfolding iss old(1) by simp
      then show ?thesis using ih old(2,3) tt by auto
    next
      case new
      have "issued_tokens os = Suc (b_next_token s) # issued_tokens os'" unfolding iss new(1) by simp
      then show ?thesis using ih new(2,3) tt by fastforce
    qed
  qed
qed

section \<open>Properties\<close>

text \<open>Every request to the text service is answered exactly once, whatever the bus answers and in
  whatever order: the requests made are those answered together with those still owed by a pending call
  or the initialisation. One call or the timer holds a transaction, never two, and a transaction is in
  progress exactly while one of them does, so that the service is never left busy.\<close>

theorem text_requests_settled:
  "let (s, os) = text_run es new_backend in
     asked (map snd es) = given (concat os) + outstanding s
     \<and> length (transactions s) + (if b_expiry s then 1 else 0) = (if b_busy s then 1 else 0)
     \<and> (b_pending s = [] \<longrightarrow> outstanding s = {#})"
proof -
  obtain s os where rn: "text_run es new_backend = (s, os)" by fastforce
  note r = text_run_settles [OF new_backend_ok(1) rn]
  have "b_pending s = [] \<longrightarrow> outstanding s = {#}"
    using r by (auto simp: text_ok_def init_ok_def outstanding_def split: if_splits)
  moreover have "length (transactions s) + (if b_expiry s then 1 else 0) = (if b_busy s then 1 else 0)"
    using r unfolding text_ok_def by blast
  moreover have "asked (map snd es) = given (concat os) + outstanding s" using r new_backend_ok(2) by simp
  ultimately show ?thesis unfolding rn Let_def prod.case by blast
qed

definition demo_world :: text_world where
  "demo_world = \<lparr>tw_connected = True, tw_new_connected = True, tw_open = True, tw_name = ''cpp'', tw_utf8 = (\<lambda>_. True)\<rparr>"

definition demo_events :: "text_event list" where
  "demo_events = [Available 1, Answer 0 (Some []), Prepare 2, Answer 0 (Some ''/ctx/7''), Answer 0 (Some ''xkb:us''),
     CreateEngine ''cpp'', FocusIn 1, Answer 0 (Some []), Answer 0 (Some ''/ctx/7''),
     Finish 3 1 1 ''hi'', Answer 0 (Some ''cpp''), Answer 0 (Some [])]"

lemma demo_run:
  "\<exists>s. text_run (map (Pair demo_world) demo_events) new_backend = (s,
     [[DBusCall RegisterComponent], [AvailableDone 1 True], [DBusCall CurrentInputContext], [DBusCall GetGlobalEngine],
      [DBusCall (SetGlobalEngine ''cpp'')], [NewEngine 1], [], [DBusCall CurrentInputContext],
      [TimerStarted, PreparedDone 2 1],
      [TimerRemoved, ForwardBackspace True, ForwardBackspace False, CommitText ''hi'', DBusCall GetGlobalEngine],
      [DBusCall (SetGlobalEngine ''xkb:us'')], [FinishDone 3 True]]) \<and> b_pending s = [] \<and> \<not> b_busy s"
  by (simp add: demo_events_def demo_world_def new_backend_def available_def dbus_call_def initialized_def prepare_def
      on_context_read_def fake_context_def on_engine_read_def engine_name_def create_engine_def focus_in_def
      on_engine_selected_def on_context_checked_def finish_def valid_text_def restore_def on_restore_engine_def
      on_engine_set_def numeral_eq_Suc Let_def)

theorem text_requests_settled_witness:
  "asked demo_events = given [AvailableDone 1 True, PreparedDone 2 1, FinishDone 3 True]"
proof -
  obtain s os where rn: "text_run (map (Pair demo_world) demo_events) new_backend = (s, os)" "b_pending s = []"
    "given (concat os) = given [AvailableDone 1 True, PreparedDone 2 1, FinishDone 3 True]"
    using demo_run by force
  from text_requests_settled [of "map (Pair demo_world) demo_events"] rn show ?thesis
    by (simp add: comp_def)
qed

text \<open>C12: text is typed at most once for each token, and only for tokens that were handed out: the tokens
  handed out increase, and so do those whose request typed something.\<close>

theorem text_typed_once:
  "let (s, os) = text_run es new_backend in
     sorted_wrt (<) (typed_tokens es os) \<and> sorted_wrt (<) (issued_tokens os)
     \<and> set (typed_tokens es os) \<subseteq> set (issued_tokens os)"
proof -
  obtain s os where rn: "text_run es new_backend = (s, os)" by fastforce
  have "b_token new_backend \<le> b_next_token new_backend" by (simp add: new_backend_def)
  from typing_run [OF this rn] show ?thesis unfolding rn by (auto simp: new_backend_def)
qed

text \<open>Text is typed only while the engine has kept the focus it had when the token was handed out.\<close>

lemma typing_needs_focus:
  "finish w r t n x s = (s', o1) \<Longrightarrow> list_ex typing o1 \<Longrightarrow>
   t = b_token s \<and> b_focused s \<and> b_prepared_focus s = b_focus_revision s"
  using finish_tokens by blast

end
