(* ===== verification/LinuxPointer.thy ===== *)
theory LinuxPointer
  imports Floats
begin

text \<open>
  Capturing the pointer in a GTK window, \<open>linux/linux_pointer_capture.cc\<close>, under X11 and under Wayland.
  The state holds what the object has acquired; a step is given what GTK, X11 and Wayland answer while it
  runs and returns what it asks of them and what it reports, in order. Objects of the libraries are
  flags, a window is a number.
\<close>

section \<open>State\<close>

datatype session = X11 | Wayland | OtherDisplay

record Capture =
  pc_view :: bool
  pc_top :: bool
  pc_generation :: int
  pc_requested :: bool
  pc_active :: bool
  pc_timeout :: bool
  pc_window :: bool
  pc_raw_display :: bool
  pc_raw_source :: bool
  pc_relative_devices :: "(int \<times> bool) list"
  pc_grabbed :: bool
  pc_cursor_hidden :: bool
  pc_registry :: bool
  pc_constraints :: bool
  pc_relative_manager :: bool
  pc_locked :: bool
  pc_relative :: bool
  pc_constraints_name :: int
  pc_relative_name :: int

definition new_capture :: Capture where
  "new_capture = \<lparr>pc_view = True, pc_top = False, pc_generation = 0, pc_requested = False, pc_active = False,
     pc_timeout = False, pc_window = False, pc_raw_display = False, pc_raw_source = False, pc_relative_devices = [],
     pc_grabbed = False, pc_cursor_hidden = False, pc_registry = False, pc_constraints = False,
     pc_relative_manager = False, pc_locked = False, pc_relative = False, pc_constraints_name = 0, pc_relative_name = 0\<rparr>"

datatype capture_effect =
    StateChanged int bool string
  | Motion int dbl dbl
  | SetBlankCursor
  | RestoreCursor
  | XUngrabPointer
  | XWarpPointer int int
  | SetPositionHint dbl dbl
  | WlSurfaceCommit
  | DestroyLock
  | DestroyRelative
  | CloseRawDisplay
  | RemoveRawSource
  | RemoveTimeout
  | AddTimeout

section \<open>Acquiring and releasing\<close>

text \<open>\<open>gone\<close>: the window has been destroyed.\<close>

definition hide :: "Capture \<Rightarrow> Capture \<times> capture_effect list" where
  "hide s = (if pc_cursor_hidden s then (s, []) else (s\<lparr>pc_cursor_hidden := True\<rparr>, [SetBlankCursor]))"

definition confirm :: "Capture \<Rightarrow> Capture \<times> capture_effect list" where
  "confirm s =
     (if \<not> pc_requested s \<or> pc_active s then (s, [])
      else let (s1, o1) = hide (s\<lparr>pc_active := True\<rparr>) in
        (s1\<lparr>pc_timeout := False\<rparr>,
         o1 @ (if pc_timeout s1 then [RemoveTimeout] else []) @ [StateChanged (pc_generation s1) True ''locked'']))"

definition release :: "bool \<Rightarrow> string \<Rightarrow> Capture \<Rightarrow> Capture \<times> capture_effect list" where
  "release gone reason s =
     (s\<lparr>pc_requested := False, pc_active := False, pc_relative_devices := [], pc_timeout := False,
        pc_locked := False, pc_relative := False,
        pc_grabbed := (if pc_window s then False else pc_grabbed s),
        pc_raw_source := False, pc_raw_display := False,
        pc_cursor_hidden := (if pc_window s then False else pc_cursor_hidden s), pc_window := False\<rparr>,
      (if pc_timeout s then [RemoveTimeout] else [])
      @ (if pc_locked s then [DestroyLock] else [])
      @ (if pc_relative s then [DestroyRelative] else [])
      @ (if pc_grabbed s \<and> pc_window s then [XUngrabPointer] else [])
      @ (if pc_raw_source s then [RemoveRawSource] else [])
      @ (if pc_raw_display s then [CloseRawDisplay] else [])
      @ (if pc_window s \<and> pc_cursor_hidden s \<and> \<not> gone then [RestoreCursor] else [])
      @ (if pc_requested s then [StateChanged (pc_generation s) False reason] else []))"

section \<open>Releasing at a position\<close>

text \<open>
  The geometry GTK answers: the display, whether the window is destroyed, the offset of the view in its
  surface if it can be translated, the view's size, the way to the native window (its offset from the
  captured one) and the scale.
\<close>

record reseed_world =
  rw_session :: session
  rw_gone :: bool
  rw_offset :: "(int \<times> int) option"
  rw_width :: int
  rw_height :: int
  rw_to_native :: "dbl \<times> dbl \<Rightarrow> dbl \<times> dbl"
  rw_scale :: int
  rw_lround :: "dbl \<Rightarrow> int"

definition std_min_d :: "dbl \<Rightarrow> dbl \<Rightarrow> dbl" where
  "std_min_d a b = (if dlt b a then b else a)"

definition reseed_axis :: "int \<Rightarrow> dbl \<Rightarrow> int \<Rightarrow> dbl" where
  "reseed_axis offset x extent =
     dadd (Fin (of_int offset))
       (std_min_d (dmul (dclamp x (Fin 0) (Fin 1)) (Fin (of_int extent))) (Fin (of_int (extent - 1))))"

definition reseed_and_release :: "reseed_world \<Rightarrow> dbl \<Rightarrow> dbl \<Rightarrow> Capture \<Rightarrow> Capture \<times> capture_effect list" where
  "reseed_and_release w x y s =
     (if \<not> pc_active s \<or> \<not> pc_window s \<or> \<not> pc_view s \<or> rw_gone w \<or> \<not> is_finite x \<or> \<not> is_finite y
      then release (rw_gone w) ''released'' s
      else case rw_offset w of None \<Rightarrow> release (rw_gone w) ''released'' s
      | Some (offset_x, offset_y) \<Rightarrow>
          let (px, py) = rw_to_native w (reseed_axis offset_x x (rw_width w), reseed_axis offset_y y (rw_height w))
          in if rw_session w = Wayland then
               let (s1, o1) = release (rw_gone w) ''released'' s
               in (s1, (if pc_locked s then [SetPositionHint px py, WlSurfaceCommit] else []) @ o1)
             else
               let (s1, o1) = release (rw_gone w) ''released'' (s\<lparr>pc_active := False, pc_grabbed := False\<rparr>);
                   warp = XWarpPointer (rw_lround w (dmul px (Fin (of_int (rw_scale w)))))
                            (rw_lround w (dmul py (Fin (of_int (rw_scale w)))))
               in (s1, [XUngrabPointer, warp] @ o1))"

section \<open>The Wayland registry\<close>

datatype wl_interface = PointerConstraints | RelativePointerManager | OtherInterface

definition registry_global :: "int \<Rightarrow> wl_interface \<Rightarrow> Capture \<Rightarrow> Capture" where
  "registry_global name iface s =
     (case iface of
        PointerConstraints \<Rightarrow> s\<lparr>pc_constraints := True, pc_constraints_name := name\<rparr>
      | RelativePointerManager \<Rightarrow> s\<lparr>pc_relative_manager := True, pc_relative_name := name\<rparr>
      | OtherInterface \<Rightarrow> s)"

definition registry_removed :: "bool \<Rightarrow> int \<Rightarrow> Capture \<Rightarrow> Capture \<times> capture_effect list" where
  "registry_removed gone name s =
     (if name = pc_constraints_name s \<or> name = pc_relative_name s then
        let (s1, o1) = release gone ''unsupported'' s;
            s2 = (if name = pc_constraints_name s1 \<and> pc_constraints s1 then s1\<lparr>pc_constraints := False\<rparr> else s1);
            s3 = (if name = pc_relative_name s2 \<and> pc_relative_manager s2 then s2\<lparr>pc_relative_manager := False\<rparr> else s2)
        in (s3, o1)
      else (s, []))"

section \<open>Support\<close>

text \<open>
  \<open>sw_xinput\<close> is the version of XInput, if its extension and version can be asked; \<open>sw_globals\<close> what the
  registry announces during the roundtrip, \<open>None\<close> if the roundtrip fails.
\<close>

record support_world =
  sw_session :: session
  sw_xinput :: "(int \<times> int) option"
  sw_globals :: "(int \<times> wl_interface) list"
  sw_roundtrip :: bool

definition supported :: "support_world \<Rightarrow> Capture \<Rightarrow> bool \<times> Capture" where
  "supported w s =
     (if \<not> pc_view s then (False, s)
      else if sw_session w = X11 then
        (case sw_xinput w of None \<Rightarrow> (False, s)
         | Some (major, minor) \<Rightarrow> (major > 2 \<or> major = 2 \<and> minor \<ge> 1, s))
      else if sw_session w \<noteq> Wayland then (False, s)
      else if \<not> pc_registry s then
        let s1 = fold (\<lambda>(name, iface). registry_global name iface) (sw_globals w) (s\<lparr>pc_registry := True\<rparr>)
        in if \<not> sw_roundtrip w then (False, s1) else (pc_constraints s1 \<and> pc_relative_manager s1, s1)
      else (pc_constraints s \<and> pc_relative_manager s, s))"

section \<open>Locking\<close>

text \<open>
  \<open>lw_ready\<close>: the view is mapped, in a window, which is active; \<open>lw_raw\<close>: the second connection with its
  extension could be opened (\<open>lw_raw_open\<close> alone: it could be opened, but the extension failed).
\<close>

record lock_world =
  lw_support :: support_world
  lw_gone :: bool
  lw_ready :: bool
  lw_realized :: bool
  lw_raw_open :: bool
  lw_raw :: bool
  lw_grab :: bool
  lw_pointer_surface :: bool

definition lock :: "lock_world \<Rightarrow> int \<Rightarrow> Capture \<Rightarrow> string \<times> Capture \<times> capture_effect list" where
  "lock w gen s0 =
     (let (s1, o1) = release (lw_gone w) ''replaced'' s0;
          (ok, s2) = supported (lw_support w) s1
      in if \<not> ok then (''Pointer capture is not supported by this display server'', s2, o1)
         else let s3 = s2\<lparr>pc_top := True\<rparr> in
           if \<not> lw_ready w then (''Focus the remote window before capturing the mouse'', s3, o1)
           else if \<not> lw_realized w then (''Remote window is not realized'', s3, o1)
           else
             let s4 = s3\<lparr>pc_window := True, pc_generation := gen, pc_requested := True\<rparr> in
             if sw_session (lw_support w) = X11 then
               let s5 = s4\<lparr>pc_raw_display := lw_raw_open w\<rparr> in
               if \<not> lw_raw_open w \<or> \<not> lw_raw w then
                 let (s6, o6) = release (lw_gone w) ''failed'' s5 in (''XInput2 connection failed'', s6, o1 @ o6)
               else let (s6, o6) = hide s5 in
                 if \<not> lw_grab w then
                   let (s7, o7) = release (lw_gone w) ''failed'' s6 in
                   (''Another application owns the pointer, or the window is unavailable'', s7, o1 @ o6 @ o7)
                 else let (s7, o7) = confirm (s6\<lparr>pc_grabbed := True, pc_raw_source := True\<rparr>) in
                   ([], s7, o1 @ o6 @ o7)
             else if \<not> lw_pointer_surface w then
               let (s5, o5) = release (lw_gone w) ''failed'' s4 in (''Wayland pointer or surface is unavailable'', s5, o1 @ o5)
             else ([], s4\<lparr>pc_relative := True, pc_locked := True, pc_timeout := True\<rparr>, o1 @ [AddTimeout]))"

section \<open>Events\<close>

text \<open>The timer forgets its identifier before it releases.\<close>

definition timed_out :: "bool \<Rightarrow> Capture \<Rightarrow> Capture \<times> capture_effect list" where
  "timed_out gone s = (if pc_timeout s then release gone ''timeout'' (s\<lparr>pc_timeout := False\<rparr>) else (s, []))"

text \<open>The relative axes of a device, read once: \<open>axes\<close> are the numbers of its relative valuators.\<close>

definition relative_device :: "int list \<Rightarrow> int \<Rightarrow> Capture \<Rightarrow> bool \<times> Capture" where
  "relative_device axes source s =
     (case map_of (pc_relative_devices s) source of
        Some r \<Rightarrow> (r, s)
      | None \<Rightarrow> let r = (0 \<in> set axes \<and> 1 \<in> set axes) in
          (r, s\<lparr>pc_relative_devices := (source, r) # pc_relative_devices s\<rparr>))"

text \<open>The values of a raw event are packed: only the axes in the mask have one.\<close>

fun raw_axes :: "nat \<Rightarrow> bool list \<Rightarrow> dbl list \<Rightarrow> dbl \<times> dbl \<Rightarrow> dbl \<times> dbl" where
  "raw_axes i [] vs (dx, dy) = (dx, dy)"
| "raw_axes i (False # ms) vs (dx, dy) = raw_axes (Suc i) ms vs (dx, dy)"
| "raw_axes i (True # ms) [] (dx, dy) = (dx, dy)"
| "raw_axes i (True # ms) (v # vs) (dx, dy) =
     raw_axes (Suc i) ms vs (if i = 0 then v else dx, if i = 1 then v else dy)"

definition raw_motion :: "int list \<Rightarrow> int \<Rightarrow> bool list \<Rightarrow> dbl list \<Rightarrow> Capture \<Rightarrow> Capture \<times> capture_effect list" where
  "raw_motion axes source m values s =
     (if \<not> pc_active s then (s, [])
      else let (relative, s1) = relative_device axes source s in
        if \<not> relative then (s1, [])
        else let (dx, dy) = raw_axes 0 m values (Fin 0, Fin 0) in
          (s1, if is_finite dx \<and> is_finite dy \<and> (dx \<noteq> Fin 0 \<or> dy \<noteq> Fin 0)
               then [Motion (pc_generation s1) dx dy] else []))"

text \<open>Raw events of one reading; the connection can fail instead.\<close>

fun raw_motions :: "(int list \<times> int \<times> bool list \<times> dbl list) list \<Rightarrow> Capture \<Rightarrow> Capture \<times> capture_effect list" where
  "raw_motions [] s = (s, [])"
| "raw_motions ((axes, source, m, vs) # es) s =
     (let (s1, o1) = raw_motion axes source m vs s; (s2, o2) = raw_motions es s1 in (s2, o1 @ o2))"

definition read_raw :: "bool \<Rightarrow> bool \<Rightarrow> (int list \<times> int \<times> bool list \<times> dbl list) list \<Rightarrow> Capture \<Rightarrow> Capture \<times> capture_effect list" where
  "read_raw gone hangup es s =
     (if \<not> pc_raw_source s then (s, [])
      else if hangup then release gone ''connection-lost'' (s\<lparr>pc_raw_source := False\<rparr>)
      else if pc_raw_display s then raw_motions es s else (s, []))"

definition wayland_motion :: "dbl \<Rightarrow> dbl \<Rightarrow> Capture \<Rightarrow> Capture \<times> capture_effect list" where
  "wayland_motion dx dy s =
     (if pc_relative s \<and> pc_active s then (s, [Motion (pc_generation s) dx dy]) else (s, []))"

definition unlock_generation :: "bool \<Rightarrow> int \<Rightarrow> Capture \<Rightarrow> Capture \<times> capture_effect list" where
  "unlock_generation gone gen s = (if pc_generation s = gen then release gone ''released'' s else (s, []))"

definition unlock_and_reseed_generation :: "reseed_world \<Rightarrow> int \<Rightarrow> dbl \<Rightarrow> dbl \<Rightarrow> Capture \<Rightarrow> Capture \<times> capture_effect list" where
  "unlock_and_reseed_generation w gen x y s = (if pc_generation s = gen then reseed_and_release w x y s else (s, []))"

text \<open>The signals of the window and of the lock.\<close>

datatype capture_signal = FocusOut | Unmap | DestroyWindow | WaylandUnlocked

definition signal_reason :: "capture_signal \<Rightarrow> string" where
  "signal_reason g = (case g of FocusOut \<Rightarrow> ''focus-lost'' | Unmap \<Rightarrow> ''unmapped'' | DestroyWindow \<Rightarrow> ''destroyed''
     | WaylandUnlocked \<Rightarrow> ''system-unlocked'')"

datatype capture_op =
    Lock lock_world int
  | Unlock bool string
  | UnlockGeneration bool int
  | Reseed reseed_world int dbl dbl
  | LockedEvent
  | Signal bool capture_signal
  | TimedOut bool
  | ReadRaw bool bool "(int list \<times> int \<times> bool list \<times> dbl list) list"
  | WaylandMotion dbl dbl
  | RegistryRemoved bool int
  | AskSupported support_world
  | ViewGone

fun capture_step :: "capture_op \<Rightarrow> Capture \<Rightarrow> Capture \<times> capture_effect list" where
  "capture_step (Lock w g) s = snd (lock w g s)"
| "capture_step (Unlock gone r) s = release gone r s"
| "capture_step (UnlockGeneration gone g) s = unlock_generation gone g s"
| "capture_step (Reseed w g x y) s = unlock_and_reseed_generation w g x y s"
| "capture_step LockedEvent s = (if pc_locked s then confirm s else (s, []))"
| "capture_step (Signal gone g) s =
     (if (if g = WaylandUnlocked then pc_locked s else pc_top s) then release gone (signal_reason g) s else (s, []))"
| "capture_step (TimedOut gone) s = timed_out gone s"
| "capture_step (ReadRaw gone hangup es) s = read_raw gone hangup es s"
| "capture_step (WaylandMotion dx dy) s = wayland_motion dx dy s"
| "capture_step (RegistryRemoved gone n) s = registry_removed gone n s"
| "capture_step (AskSupported w) s = (snd (supported w s), [])"
| "capture_step ViewGone s = (s\<lparr>pc_view := False\<rparr>, [])"

fun capture_run :: "capture_op list \<Rightarrow> Capture \<Rightarrow> Capture \<times> capture_effect list" where
  "capture_run [] s = (s, [])"
| "capture_run (op # ops) s = (let (s1, o1) = capture_step op s; (s2, o2) = capture_run ops s1 in (s2, o1 @ o2))"

section \<open>What is reported\<close>

text \<open>
  The reader of the reports: the generation locked now. A lock is reported only when none is, motion and
  an unlock only for the generation that is locked (an unlock also for one that never was).
\<close>

fun follow :: "capture_effect list \<Rightarrow> int option \<Rightarrow> int option option" where
  "follow [] c = Some c"
| "follow (StateChanged g True _ # es) c = (if c = None then follow es (Some g) else None)"
| "follow (StateChanged g False _ # es) c = (if c = None \<or> c = Some g then follow es None else None)"
| "follow (Motion g _ _ # es) c = (if c = Some g then follow es c else None)"
| "follow (_ # es) c = follow es c"

lemma follow_append: "follow (xs @ ys) c = Option.bind (follow xs c) (follow ys)"
  by (induction xs c rule: follow.induct) auto

definition locked_now :: "Capture \<Rightarrow> int option" where
  "locked_now s = (if pc_active s then Some (pc_generation s) else None)"

text \<open>Nothing is held without a request.\<close>

definition capture_ok :: "Capture \<Rightarrow> bool" where
  "capture_ok s \<longleftrightarrow> (pc_window s \<longleftrightarrow> pc_requested s)
     \<and> (\<not> pc_requested s \<longrightarrow> \<not> pc_active s \<and> \<not> pc_timeout s \<and> \<not> pc_locked s \<and> \<not> pc_relative s \<and> \<not> pc_grabbed s
          \<and> \<not> pc_raw_source s \<and> \<not> pc_raw_display s \<and> \<not> pc_cursor_hidden s \<and> pc_relative_devices s = [])"

definition idle :: "Capture \<Rightarrow> bool" where
  "idle s \<longleftrightarrow> capture_ok s \<and> \<not> pc_requested s"

definition follows :: "Capture \<Rightarrow> Capture \<times> capture_effect list \<Rightarrow> bool" where
  "follows s r \<longleftrightarrow> capture_ok (fst r) \<and> follow (snd r) (locked_now s) = Some (locked_now (fst r))"

lemma reports_trans: "follows s (s1, o1) \<Longrightarrow> follows s1 (s2, o2) \<Longrightarrow> follows s (s2, o1 @ o2)"
  by (simp add: follows_def follow_append)

lemma reports_same: "capture_ok s \<Longrightarrow> follows s (s, [])"
  by (simp add: follows_def)

lemma release_reports:
  "follow (snd (release gone reason s)) c =
     (if pc_requested s then (if c = None \<or> c = Some (pc_generation s) then Some None else None) else Some c)"
  by (simp add: release_def)

text \<open>Also when the caller has already given up the grab or the source.\<close>

lemma release_idle:
  "pc_window s = pc_requested s \<Longrightarrow> (\<not> pc_requested s \<longrightarrow> \<not> pc_grabbed s \<and> \<not> pc_cursor_hidden s) \<Longrightarrow>
   idle (fst (release gone reason s))"
  by (auto simp: release_def idle_def capture_ok_def)

lemma release_follows:
  assumes "capture_ok s"
  shows "follows s (release gone reason s) \<and> idle (fst (release gone reason s))"
proof -
  have i: "idle (fst (release gone reason s))" using assms by (intro release_idle) (auto simp: capture_ok_def)
  then have "locked_now (fst (release gone reason s)) = None" by (auto simp: idle_def capture_ok_def locked_now_def)
  moreover have "follow (snd (release gone reason s)) (locked_now s) = Some None"
    using assms by (auto simp: release_reports locked_now_def capture_ok_def)
  ultimately show ?thesis using i by (simp add: follows_def idle_def)
qed

text \<open>Giving up the activity, the grab, the source or the timer first changes nothing.\<close>

lemma release_follows':
  assumes "capture_ok s" "pc_window t = pc_window s" "pc_requested t = pc_requested s" "pc_generation t = pc_generation s"
    "pc_cursor_hidden t = pc_cursor_hidden s" "pc_grabbed t \<longrightarrow> pc_grabbed s"
  shows "follows s (release gone reason t)"
proof -
  have i: "idle (fst (release gone reason t))" using assms by (intro release_idle) (auto simp: capture_ok_def)
  then have "locked_now (fst (release gone reason t)) = None" by (auto simp: idle_def capture_ok_def locked_now_def)
  moreover have "follow (snd (release gone reason t)) (locked_now s) = Some None"
    using assms by (auto simp: release_reports locked_now_def capture_ok_def)
  ultimately show ?thesis using i by (simp add: follows_def idle_def)
qed

lemma confirm_follows:
  assumes "capture_ok s"
  shows "follows s (confirm s)"
  using assms by (cases "pc_requested s"; cases "pc_active s"; cases "pc_cursor_hidden s")
    (simp_all add: confirm_def hide_def follows_def capture_ok_def locked_now_def)

lemma supported_same:
  assumes "supported w s = (ok, s')"
  shows "\<exists>r c m cn mn. s' = s\<lparr>pc_registry := r, pc_constraints := c, pc_relative_manager := m,
    pc_constraints_name := cn, pc_relative_name := mn\<rparr>"
proof -
  have f: "\<exists>c m cn mn. fold (\<lambda>(name, iface). registry_global name iface) gs t
      = t\<lparr>pc_constraints := c, pc_relative_manager := m, pc_constraints_name := cn, pc_relative_name := mn\<rparr>" for gs t
  proof (induction gs arbitrary: t)
    case Nil
    show ?case by (intro exI [of _ "pc_constraints t"] exI [of _ "pc_relative_manager t"]
          exI [of _ "pc_constraints_name t"] exI [of _ "pc_relative_name t"]) simp
  next
    case (Cons g gs)
    obtain n i where g: "g = (n, i)" by fastforce
    obtain c m cn mn where "registry_global n i t
      = t\<lparr>pc_constraints := c, pc_relative_manager := m, pc_constraints_name := cn, pc_relative_name := mn\<rparr>"
      by (cases i; cases t) (auto simp: registry_global_def)
    with Cons.IH [of "registry_global n i t"] g show ?case by auto
  qed
  have id: "s = s\<lparr>pc_registry := pc_registry s, pc_constraints := pc_constraints s, pc_relative_manager := pc_relative_manager s,
    pc_constraints_name := pc_constraints_name s, pc_relative_name := pc_relative_name s\<rparr>" by simp
  obtain c m cn mn where "fold (\<lambda>(name, iface). registry_global name iface) (sw_globals w) (s\<lparr>pc_registry := True\<rparr>)
      = s\<lparr>pc_registry := True, pc_constraints := c, pc_relative_manager := m, pc_constraints_name := cn, pc_relative_name := mn\<rparr>"
    using f [of "sw_globals w" "s\<lparr>pc_registry := True\<rparr>"] by auto
  with assms id show ?thesis unfolding supported_def Let_def by (auto split: if_splits option.splits; blast)
qed

lemma supported_follows:
  assumes "supported w s = (ok, s')" "capture_ok s"
  shows "follows s (s', [])" "idle s \<Longrightarrow> idle s'"
  using supported_same [OF assms(1)] assms(2) by (auto simp: follows_def capture_ok_def locked_now_def idle_def)

lemma reports_silent:
  "capture_ok t \<Longrightarrow> locked_now t = locked_now s \<Longrightarrow> follow o1 (locked_now s) = Some (locked_now s) \<Longrightarrow> follows s (t, o1)"
  by (simp add: follows_def)

text \<open>An idle object that has started to request a generation.\<close>

definition requesting :: "int \<Rightarrow> Capture \<Rightarrow> Capture" where
  "requesting gen s = s\<lparr>pc_window := True, pc_generation := gen, pc_requested := True\<rparr>"

lemma requesting_follows: "idle s \<Longrightarrow> follows s (requesting gen s, [])"
  by (auto simp: idle_def capture_ok_def follows_def requesting_def locked_now_def)

lemma lock_x11_follows:
  fixes gen :: int
  assumes "idle s"
  defines "t \<equiv> requesting gen s"
  shows "follows s (release gone r (t\<lparr>pc_raw_display := b\<rparr>))"
    and "follows s (let (s6, o6) = hide (t\<lparr>pc_raw_display := b\<rparr>); (s7, o7) = release gone r s6 in (s7, o6 @ o7))"
    and "follows s (let (s6, o6) = hide (t\<lparr>pc_raw_display := b\<rparr>);
        (s7, o7) = confirm (s6\<lparr>pc_grabbed := True, pc_raw_source := True\<rparr>) in (s7, o6 @ o7))"
proof -
  let ?u = "t\<lparr>pc_raw_display := b\<rparr>"
  have i: "\<not> pc_active s" "\<not> pc_cursor_hidden s" "\<not> pc_timeout s" "\<not> pc_grabbed s"
    using assms(1) by (auto simp: idle_def capture_ok_def)
  have u: "capture_ok ?u" "locked_now ?u = locked_now s"
    using assms(1) by (auto simp: idle_def capture_ok_def t_def requesting_def locked_now_def)
  then have fu: "follows s (?u, [])" by (simp add: reports_silent)
  have "follows s (release gone r ?u)"
    using reports_trans [OF fu, of "fst (release gone r ?u)" "snd (release gone r ?u)"] release_follows [OF u(1)] by simp
  then show "follows s (release gone r ?u)" .
  define v where "v = ?u\<lparr>pc_cursor_hidden := True\<rparr>"
  have h: "hide ?u = (v, [SetBlankCursor])" using i by (simp add: hide_def v_def t_def requesting_def)
  have v: "capture_ok v" "locked_now v = locked_now s" using u by (auto simp: v_def capture_ok_def locked_now_def t_def requesting_def)
  then have fv: "follows s (v, [SetBlankCursor])" by (simp add: reports_silent)
  show "follows s (let (s6, o6) = hide ?u; (s7, o7) = release gone r s6 in (s7, o6 @ o7))"
    using reports_trans [OF fv, of "fst (release gone r v)" "snd (release gone r v)"] release_follows [OF v(1)]
    by (simp add: h split_beta)
  let ?w = "v\<lparr>pc_grabbed := True, pc_raw_source := True\<rparr>"
  have w: "capture_ok ?w" "locked_now ?w = locked_now s" using v by (auto simp: v_def capture_ok_def locked_now_def t_def requesting_def)
  then have "follows s (?w, [SetBlankCursor])" by (simp add: reports_silent)
  from reports_trans [OF this, of "fst (confirm ?w)" "snd (confirm ?w)"] confirm_follows [OF w(1)]
  show "follows s (let (s6, o6) = hide ?u;
        (s7, o7) = confirm (s6\<lparr>pc_grabbed := True, pc_raw_source := True\<rparr>) in (s7, o6 @ o7))"
    by (simp add: h split_beta)
qed

lemma lock_wayland_follows:
  fixes gen :: int
  assumes "idle s"
  defines "t \<equiv> requesting gen s"
  shows "follows s (release gone r t)"
    and "follows s (t\<lparr>pc_relative := True, pc_locked := True, pc_timeout := True\<rparr>, [AddTimeout])"
proof -
  note ft = requesting_follows [OF assms(1), of gen, folded t_def]
  then have "capture_ok t" by (simp add: follows_def)
  then show "follows s (release gone r t)"
    using reports_trans [OF ft, of "fst (release gone r t)" "snd (release gone r t)"] release_follows by simp
  show "follows s (t\<lparr>pc_relative := True, pc_locked := True, pc_timeout := True\<rparr>, [AddTimeout])"
    using assms(1) by (auto simp: idle_def capture_ok_def follows_def requesting_def locked_now_def t_def)
qed

lemma lock_eq:
  fixes gen :: int
  assumes "release (lw_gone w) ''replaced'' s = (s1, o1)" "supported (lw_support w) s1 = (ok, s2)"
  defines "s3 \<equiv> s2\<lparr>pc_top := True\<rparr>"
  defines "t \<equiv> requesting gen s3"
  shows "snd (lock w gen s) = (s2, o1) \<or> snd (lock w gen s) = (s3, o1) \<or>
    (\<exists>r b. let (s', o') = release (lw_gone w) r (t\<lparr>pc_raw_display := b\<rparr>) in snd (lock w gen s) = (s', o1 @ o')) \<or>
    (\<exists>r b. let (s6, o6) = hide (t\<lparr>pc_raw_display := b\<rparr>); (s7, o7) = release (lw_gone w) r s6 in snd (lock w gen s) = (s7, o1 @ o6 @ o7)) \<or>
    (\<exists>b. let (s6, o6) = hide (t\<lparr>pc_raw_display := b\<rparr>); (s7, o7) = confirm (s6\<lparr>pc_grabbed := True, pc_raw_source := True\<rparr>)
       in snd (lock w gen s) = (s7, o1 @ o6 @ o7)) \<or>
    (\<exists>r. let (s', o') = release (lw_gone w) r t in snd (lock w gen s) = (s', o1 @ o')) \<or>
    snd (lock w gen s) = (t\<lparr>pc_relative := True, pc_locked := True, pc_timeout := True\<rparr>, o1 @ [AddTimeout])"
proof -
  note l = lock_def [of w gen s, unfolded assms(1,2) Let_def prod.case, folded s3_def]
  have t': "s3\<lparr>pc_window := True, pc_generation := gen, pc_requested := True\<rparr> = t" by (simp add: t_def requesting_def)
  note l' = l [unfolded t']
  show ?thesis
  proof (cases "ok \<and> lw_ready w \<and> lw_realized w")
    case False
    then show ?thesis unfolding l' by (auto split: if_splits)
  next
    case True
    show ?thesis
    proof (cases "sw_session (lw_support w) = X11")
      case x: True
      show ?thesis
      proof (cases "\<not> lw_raw_open w \<or> \<not> lw_raw w")
        case f: True
        have "let (s', o') = release (lw_gone w) ''failed'' (t\<lparr>pc_raw_display := lw_raw_open w\<rparr>) in snd (lock w gen s) = (s', o1 @ o')"
          unfolding l' using True x f by (simp add: split_beta)
        then show ?thesis by blast
      next
        case r: False
        show ?thesis
        proof (cases "lw_grab w")
          case False
          have "let (s6, o6) = hide (t\<lparr>pc_raw_display := lw_raw_open w\<rparr>); (s7, o7) = release (lw_gone w) ''failed'' s6
            in snd (lock w gen s) = (s7, o1 @ o6 @ o7)"
            unfolding l' using True x r False by (simp add: split_beta)
          then show ?thesis by blast
        next
          case g: True
          have "let (s6, o6) = hide (t\<lparr>pc_raw_display := lw_raw_open w\<rparr>); (s7, o7) = confirm (s6\<lparr>pc_grabbed := True, pc_raw_source := True\<rparr>)
            in snd (lock w gen s) = (s7, o1 @ o6 @ o7)"
            unfolding l' using True x r g by (simp add: split_beta)
          then show ?thesis by blast
        qed
      qed
    next
      case x: False
      show ?thesis
      proof (cases "lw_pointer_surface w")
        case p: True
        show ?thesis unfolding l' using True x p by simp
      next
        case False
        have "let (s', o') = release (lw_gone w) ''failed'' t in snd (lock w gen s) = (s', o1 @ o')"
          unfolding l' using True x False by (simp add: split_beta)
        then show ?thesis by blast
      qed
    qed
  qed
qed

lemma lock_follows:
  assumes "capture_ok s"
  shows "follows s (snd (lock w gen s))"
proof -
  obtain s1 o1 where re: "release (lw_gone w) ''replaced'' s = (s1, o1)" by fastforce
  obtain ok s2 where su: "supported (lw_support w) s1 = (ok, s2)" by fastforce
  let ?s3 = "s2\<lparr>pc_top := True\<rparr>"
  have f1: "follows s (s1, o1)" "idle s1" using release_follows [OF assms, of "lw_gone w" "''replaced''"] re by auto
  have "capture_ok s1" using f1 by (simp add: follows_def)
  note su' = supported_follows [OF su this]
  have f2: "follows s (s2, o1)" using reports_trans [OF f1(1) su'(1)] by simp
  have i3: "idle ?s3" using su'(2) [OF f1(2)] by (simp add: idle_def capture_ok_def)
  have "follows s2 (?s3, [])" using f2 by (auto simp: follows_def capture_ok_def locked_now_def)
  then have f3: "follows s (?s3, o1)" using reports_trans [OF f2] by fastforce
  note chain = reports_trans [OF f3]
  show ?thesis
    using lock_eq [OF re su, of gen] f2 f3
  proof (elim disjE exE)
    fix r b
    assume "let (s', o') = release (lw_gone w) r (requesting gen ?s3\<lparr>pc_raw_display := b\<rparr>) in snd (lock w gen s) = (s', o1 @ o')"
    then show ?thesis using lock_x11_follows(1) [OF i3, where gen = gen and gone = "lw_gone w" and r = r and b = b] chain by (auto simp: split_beta)
  next
    fix r b
    assume "let (s6, o6) = hide (requesting gen ?s3\<lparr>pc_raw_display := b\<rparr>); (s7, o7) = release (lw_gone w) r s6
      in snd (lock w gen s) = (s7, o1 @ o6 @ o7)"
    then show ?thesis using lock_x11_follows(2) [OF i3, where gen = gen and gone = "lw_gone w" and r = r and b = b] chain by (auto simp: split_beta)
  next
    fix b
    assume "let (s6, o6) = hide (requesting gen ?s3\<lparr>pc_raw_display := b\<rparr>); (s7, o7) = confirm (s6\<lparr>pc_grabbed := True, pc_raw_source := True\<rparr>)
       in snd (lock w gen s) = (s7, o1 @ o6 @ o7)"
    then show ?thesis using lock_x11_follows(3) [OF i3, where gen = gen and b = b] chain by (auto simp: split_beta)
  next
    fix r
    assume "let (s', o') = release (lw_gone w) r (requesting gen ?s3) in snd (lock w gen s) = (s', o1 @ o')"
    then show ?thesis using lock_wayland_follows(1) [OF i3, where gen = gen and gone = "lw_gone w" and r = r] chain by (auto simp: split_beta)
  next
    assume "snd (lock w gen s) = (requesting gen ?s3\<lparr>pc_relative := True, pc_locked := True, pc_timeout := True\<rparr>, o1 @ [AddTimeout])"
    then show ?thesis using lock_wayland_follows(2) [OF i3, where gen = gen] chain by simp
  qed simp_all
qed

lemma reseed_follows:
  assumes "capture_ok s"
  shows "follows s (reseed_and_release w x y s)"
proof -
  have r: "follows s (release (rw_gone w) r s)" for r using release_follows [OF assms] by blast
  have q: "follows s (fst (release g r t), pre @ snd (release g r t))"
    if "pc_window t = pc_window s" "pc_requested t = pc_requested s" "pc_generation t = pc_generation s"
      "pc_cursor_hidden t = pc_cursor_hidden s" "pc_grabbed t \<longrightarrow> pc_grabbed s" "\<And>c. follow pre c = Some c" for g r t pre
    using release_follows' [OF assms that(1-5)] that(6) by (simp add: follows_def follow_append)
  show ?thesis
  proof (cases "\<not> pc_active s \<or> \<not> pc_window s \<or> \<not> pc_view s \<or> rw_gone w \<or> \<not> is_finite x \<or> \<not> is_finite y \<or> rw_offset w = None")
    case True
    then show ?thesis using r by (auto simp: reseed_and_release_def split: option.split)
  next
    case False
    then obtain ox oy where o: "rw_offset w = Some (ox, oy)" by fastforce
    obtain px py where p: "rw_to_native w (reseed_axis ox x (rw_width w), reseed_axis oy y (rw_height w)) = (px, py)" by fastforce
    show ?thesis
    proof (cases "rw_session w = Wayland")
      case True
      then show ?thesis using False o p
        q [of s "if pc_locked s then [SetPositionHint px py, WlSurfaceCommit] else []" "rw_gone w" "''released''"]
        by (auto simp: reseed_and_release_def split_beta)
    next
      case x: False
      define pre where "pre = [XUngrabPointer, XWarpPointer (rw_lround w (dmul px (Fin (of_int (rw_scale w)))))
          (rw_lround w (dmul py (Fin (of_int (rw_scale w)))))]"
      have "\<And>c. follow pre c = Some c" by (simp add: pre_def)
      from q [of "s\<lparr>pc_active := False, pc_grabbed := False\<rparr>" pre "rw_gone w" "''released''", OF _ _ _ _ _ this]
      show ?thesis using False o p x
        by (auto simp: reseed_and_release_def split_beta pre_def [symmetric])
          (simp add: pre_def)
    qed
  qed
qed

lemma raw_motion_follows:
  assumes "capture_ok s"
  shows "follows s (raw_motion axes source m vs s)"
proof (cases "pc_active s")
  case False
  then show ?thesis using assms by (simp add: raw_motion_def reports_same)
next
  case True
  obtain rel s1 where rd: "relative_device axes source s = (rel, s1)" by fastforce
  have "\<exists>d. s1 = s\<lparr>pc_relative_devices := d\<rparr>"
    using rd by (cases s) (auto simp: relative_device_def Let_def split: option.splits)
  then have s1: "capture_ok s1" "locked_now s1 = locked_now s" "pc_generation s1 = pc_generation s" "pc_active s1"
    using assms True by (auto simp: capture_ok_def locked_now_def)
  obtain dx dy where "raw_axes 0 m vs (Fin 0, Fin 0) = (dx, dy)" by fastforce
  then show ?thesis using s1 True by (auto simp: raw_motion_def rd follows_def locked_now_def)
qed

lemma raw_motions_follows: "capture_ok s \<Longrightarrow> follows s (raw_motions es s)"
proof (induction es s rule: raw_motions.induct)
  case (1 s)
  then show ?case by (simp add: reports_same)
next
  case (2 axes source m vs es s)
  obtain s1 o1 where a: "raw_motion axes source m vs s = (s1, o1)" by fastforce
  obtain s2 o2 where b: "raw_motions es s1 = (s2, o2)" by fastforce
  have f1: "follows s (s1, o1)" using raw_motion_follows [OF "2.prems", of axes source m vs] a by simp
  then have "capture_ok s1" by (simp add: follows_def)
  from "2.IH" [OF a [symmetric] refl this] b have "follows s1 (s2, o2)" by simp
  from reports_trans [OF f1 this] show ?case by (simp add: a b)
qed

lemma registry_removed_follows:
  assumes "capture_ok s"
  shows "follows s (registry_removed gone name s)"
proof -
  obtain s1 o1 where re: "release gone ''unsupported'' s = (s1, o1)" by fastforce
  have f: "follows s (s1, o1)" using release_follows [OF assms] re by metis
  then show ?thesis using assms
    by (auto simp: registry_removed_def re Let_def follows_def reports_same capture_ok_def locked_now_def)
qed

lemma capture_step_follows:
  assumes "capture_ok s"
  shows "follows s (capture_step op s)"
proof (cases op)
  case (AskSupported w)
  obtain ok s' where su: "supported w s = (ok, s')" by fastforce
  then show ?thesis using supported_follows(1) [OF su assms] AskSupported by simp
next
  case ViewGone
  then show ?thesis using assms by (simp add: follows_def capture_ok_def locked_now_def)
next
  case (TimedOut gone)
  then show ?thesis using release_follows' [OF assms, of "s\<lparr>pc_timeout := False\<rparr>"] assms
    by (simp add: timed_out_def reports_same)
next
  case (ReadRaw gone hangup es)
  then show ?thesis using release_follows' [OF assms, of "s\<lparr>pc_raw_source := False\<rparr>"] raw_motions_follows [OF assms] assms
    by (simp add: read_raw_def reports_same)
next
  case (WaylandMotion dx dy)
  then show ?thesis using assms by (auto simp: wayland_motion_def follows_def locked_now_def)
qed (use assms lock_follows release_follows reseed_follows confirm_follows registry_removed_follows reports_same
    in \<open>simp_all add: unlock_generation_def unlock_and_reseed_generation_def\<close>)

interpretation pointer_capture: machine capture_step capture_run
  by unfold_locales simp_all

lemma capture_run_follows: "capture_ok s \<Longrightarrow> follows s (capture_run ops s)"
  by (rule pointer_capture.run_ok [where legal = capture_ok])
    (auto intro: reports_same reports_trans capture_step_follows, simp add: follows_def)

lemma new_capture_ok: "capture_ok new_capture" "locked_now new_capture = None"
  by (simp_all add: new_capture_def capture_ok_def locked_now_def)

section \<open>Properties\<close>

text \<open>C11: whatever window signals, timers, replies and requests occur, the reports are coherent: a
  generation is reported locked only when none is, pointer motion is reported only for the generation
  locked at that moment, and an unlock only for it or for a request that never became a lock. When
  nothing is requested nothing is held: no grab, no lock, no source, no timer, no hidden cursor.\<close>

theorem capture_reports_coherent:
  "let (s, out) = capture_run ops new_capture in
     follow out None = Some (if pc_active s then Some (pc_generation s) else None)
     \<and> (pc_requested s \<or> \<not> (pc_active s \<or> pc_window s \<or> pc_grabbed s \<or> pc_locked s \<or> pc_relative s \<or> pc_raw_source s
          \<or> pc_raw_display s \<or> pc_timeout s \<or> pc_cursor_hidden s))"
  using capture_run_follows [OF new_capture_ok(1), of ops] new_capture_ok(2)
  by (auto simp: follows_def capture_ok_def locked_now_def split: prod.splits)

text \<open>A capture under X11, two movements of a mouse, one of a tablet, and the loss of the focus.\<close>

definition demo_lock :: lock_world where
  "demo_lock = \<lparr>lw_support = \<lparr>sw_session = X11, sw_xinput = Some (2, 3), sw_globals = [], sw_roundtrip = True\<rparr>,
     lw_gone = False, lw_ready = True, lw_realized = True, lw_raw_open = True, lw_raw = True, lw_grab = True,
     lw_pointer_surface = False\<rparr>"

theorem capture_reports_coherent_witness:
  "let (s, out) = capture_run [Lock demo_lock 7, ReadRaw False False [([0, 1], 11, [True, True], [Fin 3, Fin 4]),
        ([], 12, [True], [Fin 9]), ([], 11, [False, True], [Fin (- 1)])], Signal False FocusOut] new_capture
   in out = [SetBlankCursor, StateChanged 7 True ''locked'', Motion 7 (Fin 3) (Fin 4), Motion 7 (Fin 0) (Fin (- 1)),
        XUngrabPointer, RemoveRawSource, CloseRawDisplay, RestoreCursor, StateChanged 7 False ''focus-lost'']
      \<and> follow out None = Some None \<and> \<not> pc_grabbed s"
proof -
  let ?ops = "[Lock demo_lock 7, ReadRaw False False [([0, 1], 11, [True, True], [Fin 3, Fin 4]),
        ([], 12, [True], [Fin 9]), ([], 11, [False, True], [Fin (- 1)])], Signal False FocusOut]"
  obtain s out where rn: "capture_run ?ops new_capture = (s, out)" by fastforce
  then have "out = [SetBlankCursor, StateChanged 7 True ''locked'', Motion 7 (Fin 3) (Fin 4), Motion 7 (Fin 0) (Fin (- 1)),
        XUngrabPointer, RemoveRawSource, CloseRawDisplay, RestoreCursor, StateChanged 7 False ''focus-lost'']
    \<and> \<not> pc_active s \<and> \<not> pc_requested s"
    by (auto simp: lock_def demo_lock_def new_capture_def release_def supported_def hide_def confirm_def read_raw_def
        raw_motion_def relative_device_def is_finite_def signal_reason_def Let_def)
  with capture_reports_coherent [of ?ops] rn show ?thesis by simp
qed

end
