(* ===== verification/LinuxImmersive.thy ===== *)
theory LinuxImmersive
  imports Prelude
begin

text \<open>
  Capturing the keyboard of a GTK window, \<open>linux/linux_immersive_input.cc\<close>: a grab under X11, an inhibitor of
  the compositor's shortcuts under Wayland. While the Wayland registry is first read, events are
  dispatched: the events that arrive then are part of the answers of that call.
\<close>

section \<open>State\<close>

datatype display_kind = X11Display | WaylandDisplay | UnknownDisplay

record Immersive =
  im_view :: bool
  im_top :: bool
  im_window :: bool
  im_grabbed :: bool
  im_wanted :: bool
  im_preparing :: bool
  im_focus_watch :: bool
  im_registry :: bool
  im_manager :: bool
  im_inhibitor :: bool
  im_manager_name :: int

definition new_immersive :: Immersive where
  "new_immersive = \<lparr>im_view = True, im_top = False, im_window = False, im_grabbed = False, im_wanted = False,
     im_preparing = False, im_focus_watch = False, im_registry = False, im_manager = False, im_inhibitor = False,
     im_manager_name = 0\<rparr>"

datatype immersive_effect =
    XGrabKeyboard
  | XUngrabKeyboard
  | InhibitShortcuts
  | DestroyInhibitor
  | AddFocusWatch
  | RemoveFocusWatch
  | Flush

definition release_keyboard :: "Immersive \<Rightarrow> Immersive \<times> immersive_effect list" where
  "release_keyboard s =
     (s\<lparr>im_focus_watch := False, im_inhibitor := False,
        im_grabbed := (if im_window s then False else im_grabbed s), im_window := False\<rparr>,
      (if im_focus_watch s then [RemoveFocusWatch] else [])
      @ (if im_inhibitor s then [DestroyInhibitor] else [])
      @ (if im_grabbed s \<and> im_window s then [XUngrabKeyboard] else [])
      @ (if im_window s then [Flush] else []))"

section \<open>Events during the roundtrip\<close>

text \<open>
  \<open>set_enabled\<close> is entered again from a handler only with \<open>im_preparing\<close> set, where it does no more than
  record the wish, or with \<open>false\<close>.
\<close>

datatype nested_event =
    Deactivated
  | Activated
  | UnmapOrDestroy
  | Global int bool
  | Removed int
  | ViewGone
  | TopGone

definition manager_removed :: "int \<Rightarrow> Immersive \<Rightarrow> Immersive \<times> immersive_effect list" where
  "manager_removed name s =
     (if name \<noteq> im_manager_name s then (s, [])
      else let (s1, o1) = release_keyboard s in (s1\<lparr>im_manager := False, im_manager_name := 0\<rparr>, o1))"

text \<open>\<open>Global name is_manager\<close> announces an interface.\<close>

fun nested :: "nested_event \<Rightarrow> Immersive \<Rightarrow> Immersive \<times> immersive_effect list" where
  "nested Deactivated s = release_keyboard s"
| "nested Activated s = (s, [])"
| "nested UnmapOrDestroy s = release_keyboard (s\<lparr>im_wanted := False\<rparr>)"
| "nested (Global name is_manager) s =
     (if is_manager then s\<lparr>im_manager := True, im_manager_name := name\<rparr> else s, [])"
| "nested (Removed name) s = manager_removed name s"
| "nested ViewGone s = (s\<lparr>im_view := False\<rparr>, [])"
| "nested TopGone s = (s\<lparr>im_top := False\<rparr>, [])"

fun nested_all :: "nested_event list \<Rightarrow> Immersive \<Rightarrow> Immersive \<times> immersive_effect list" where
  "nested_all [] s = (s, [])"
| "nested_all (e # es) s = (let (s1, o1) = nested e s; (s2, o2) = nested_all es s1 in (s2, o1 @ o2))"

section \<open>Switching\<close>

text \<open>
  The answers: whether the toplevel of the view is a window, it is mapped and active, has a native window,
  the display, whether the grab succeeds, the events and the success of the roundtrip, whether seat and
  surface exist, and after the roundtrip whether the window is still there, mapped, and active.
\<close>

record immersive_world =
  iw_toplevel :: bool
  iw_mapped :: bool
  iw_active :: bool
  iw_native :: bool
  iw_kind :: display_kind
  iw_grab :: bool
  iw_events :: "nested_event list"
  iw_roundtrip :: bool
  iw_seat_surface :: bool
  iw_still_there :: bool
  iw_still_active :: bool

definition refuse :: "Immersive \<Rightarrow> bool \<times> Immersive \<times> immersive_effect list" where
  "refuse s = (False, s\<lparr>im_wanted := False\<rparr>, [])"

text \<open>The end of a successful switch.\<close>

definition captured :: "Immersive \<Rightarrow> immersive_effect list \<Rightarrow> bool \<times> Immersive \<times> immersive_effect list" where
  "captured s out =
     (True, s\<lparr>im_window := True, im_focus_watch := (if im_grabbed s then True else im_focus_watch s)\<rparr>,
      out @ (if im_grabbed s then [AddFocusWatch] else []) @ [Flush])"

definition capture_wayland :: "immersive_world \<Rightarrow> Immersive \<Rightarrow> bool \<times> Immersive \<times> immersive_effect list" where
  "capture_wayland w s =
     (let (s1, o1) = (if im_registry s then (s, []) else nested_all (iw_events w) (s\<lparr>im_registry := True\<rparr>))
      in if \<not> im_registry s \<and> \<not> iw_roundtrip w then (False, s1\<lparr>im_wanted := False\<rparr>, o1)
         else if \<not> im_wanted s1 \<or> \<not> im_manager s1 \<or> \<not> iw_seat_surface w \<or> \<not> im_top s1 \<or> \<not> im_view s1
                 \<or> \<not> iw_still_there w
         then (False, s1\<lparr>im_wanted := False\<rparr>, o1)
         else if \<not> iw_still_active w then (True, s1, o1)
         else captured (s1\<lparr>im_inhibitor := True\<rparr>) (o1 @ [InhibitShortcuts]))"

definition enable :: "immersive_world \<Rightarrow> Immersive \<Rightarrow> bool \<times> Immersive \<times> immersive_effect list" where
  "enable w s =
     (if \<not> im_view s then refuse s
      else let s1 = (if im_top s \<or> \<not> iw_toplevel w then s else s\<lparr>im_top := True\<rparr>) in
        if \<not> im_top s1 \<or> \<not> iw_mapped w then
          let (s2, o2) = release_keyboard (s1\<lparr>im_wanted := False\<rparr>) in (False, s2, o2)
        else if \<not> iw_active w then let (s2, o2) = release_keyboard s1 in (True, s2, o2)
        else if im_window s1 then (True, s1, [])
        else if \<not> iw_native w then refuse s1
        else if iw_kind w = X11Display then
          (if \<not> iw_grab w then (False, s1\<lparr>im_wanted := False\<rparr>, [])
           else captured (s1\<lparr>im_grabbed := True\<rparr>) [XGrabKeyboard])
        else if iw_kind w = WaylandDisplay then capture_wayland w s1
        else refuse s1)"

definition set_enabled :: "immersive_world \<Rightarrow> bool \<Rightarrow> Immersive \<Rightarrow> bool \<times> Immersive \<times> immersive_effect list" where
  "set_enabled w enabled s =
     (let s0 = s\<lparr>im_wanted := enabled\<rparr> in
      if \<not> enabled then let (s1, o1) = release_keyboard s0 in (True, s1, o1)
      else if im_preparing s0 then (True, s0, [])
      else let (ok, s1, o1) = enable w (s0\<lparr>im_preparing := True\<rparr>) in (ok, s1\<lparr>im_preparing := False\<rparr>, o1))"

section \<open>Events\<close>

text \<open>\<open>has_focus\<close>: the X11 focus is in the captured window.\<close>

definition check_focus :: "bool \<Rightarrow> Immersive \<Rightarrow> Immersive \<times> immersive_effect list" where
  "check_focus has_focus s =
     (if \<not> im_focus_watch s \<or> has_focus then (s, []) else release_keyboard (s\<lparr>im_focus_watch := False\<rparr>))"

definition activity_changed :: "immersive_world \<Rightarrow> bool \<Rightarrow> Immersive \<Rightarrow> Immersive \<times> immersive_effect list" where
  "activity_changed w active s =
     (if \<not> active then release_keyboard s
      else if im_wanted s then snd (set_enabled w True s)
      else (s, []))"

datatype immersive_op =
    SetEnabled immersive_world bool
  | ActivityChanged immersive_world bool
  | UnmapOrDestroyed immersive_world
  | CheckFocus bool
  | Outside nested_event

fun immersive_step :: "immersive_op \<Rightarrow> Immersive \<Rightarrow> Immersive \<times> immersive_effect list" where
  "immersive_step (SetEnabled w b) s = snd (set_enabled w b s)"
| "immersive_step (ActivityChanged w b) s = activity_changed w b s"
| "immersive_step (UnmapOrDestroyed w) s = snd (set_enabled w False s)"
| "immersive_step (CheckFocus b) s = check_focus b s"
| "immersive_step (Outside e) s = (case e of Global n b \<Rightarrow> nested e s | Removed n \<Rightarrow> nested e s | ViewGone \<Rightarrow> nested e s
     | TopGone \<Rightarrow> nested e s | _ \<Rightarrow> (s, []))"

fun immersive_run :: "immersive_op list \<Rightarrow> Immersive \<Rightarrow> Immersive \<times> immersive_effect list" where
  "immersive_run [] s = (s, [])"
| "immersive_run (op # ops) s = (let (s1, o1) = immersive_step op s; (s2, o2) = immersive_run ops s1 in (s2, o1 @ o2))"

section \<open>What is held\<close>

text \<open>Grabs and inhibitors as the display sees them: at most one, and each given back.\<close>

datatype hold = Nothing | Grab | Inhibition

fun holds :: "immersive_effect list \<Rightarrow> hold \<Rightarrow> hold option" where
  "holds [] h = Some h"
| "holds (XGrabKeyboard # es) h = (if h = Nothing then holds es Grab else None)"
| "holds (InhibitShortcuts # es) h = (if h = Nothing then holds es Inhibition else None)"
| "holds (XUngrabKeyboard # es) h = (if h = Grab then holds es Nothing else None)"
| "holds (DestroyInhibitor # es) h = (if h = Inhibition then holds es Nothing else None)"
| "holds (_ # es) h = holds es h"

definition held_now :: "Immersive \<Rightarrow> hold" where
  "held_now s = (if im_grabbed s then Grab else if im_inhibitor s then Inhibition else Nothing)"

definition immersive_ok :: "Immersive \<Rightarrow> bool" where
  "immersive_ok s \<longleftrightarrow> (im_window s \<longleftrightarrow> im_grabbed s \<or> im_inhibitor s) \<and> \<not> (im_grabbed s \<and> im_inhibitor s)
     \<and> (im_focus_watch s \<longleftrightarrow> im_grabbed s)"

definition keeps :: "Immersive \<Rightarrow> Immersive \<times> immersive_effect list \<Rightarrow> bool" where
  "keeps s r \<longleftrightarrow> immersive_ok (fst r) \<and> holds (snd r) (held_now s) = Some (held_now (fst r))"

lemma holds_append: "holds (xs @ ys) h = Option.bind (holds xs h) (holds ys)"
  by (induction xs h rule: holds.induct) auto

lemma keeps_trans: "keeps s (s1, o1) \<Longrightarrow> keeps s1 (s2, o2) \<Longrightarrow> keeps s (s2, o1 @ o2)"
  by (simp add: keeps_def holds_append)

text \<open>Fields the capture does not depend on.\<close>

lemma keeps_fields:
  "immersive_ok s \<Longrightarrow> im_window t = im_window s \<Longrightarrow> im_grabbed t = im_grabbed s \<Longrightarrow> im_inhibitor t = im_inhibitor s \<Longrightarrow>
   im_focus_watch t = im_focus_watch s \<Longrightarrow> keeps s (t, [])"
  by (simp add: keeps_def immersive_ok_def held_now_def)

lemma release_keyboard_keeps:
  assumes "immersive_ok s" "im_window t = im_window s" "im_grabbed t = im_grabbed s" "im_inhibitor t = im_inhibitor s"
  shows "keeps s (release_keyboard t) \<and> \<not> im_window (fst (release_keyboard t)) \<and> held_now (fst (release_keyboard t)) = Nothing
    \<and> im_wanted (fst (release_keyboard t)) = im_wanted t"
  using assms by (auto simp: release_keyboard_def keeps_def immersive_ok_def held_now_def)

lemma nested_keeps: "immersive_ok s \<Longrightarrow> keeps s (nested e s)"
proof (cases e)
  case (Removed n)
  assume ok: "immersive_ok s"
  obtain s1 o1 where re: "release_keyboard s = (s1, o1)" by fastforce
  have "keeps s (s1, o1)" using release_keyboard_keeps [OF ok, of s] re by simp
  then have "keeps s (s1\<lparr>im_manager := False, im_manager_name := 0\<rparr>, o1)"
    by (simp add: keeps_def immersive_ok_def held_now_def)
  then show ?thesis using Removed re ok by (simp add: manager_removed_def keeps_fields)
qed (use release_keyboard_keeps in \<open>auto intro!: keeps_fields\<close>)

lemma nested_all_keeps: "immersive_ok s \<Longrightarrow> keeps s (nested_all es s)"
proof (induction es arbitrary: s)
  case Nil
  then show ?case by (simp add: keeps_fields)
next
  case (Cons e es)
  obtain s1 o1 where a: "nested e s = (s1, o1)" by fastforce
  obtain s2 o2 where b: "nested_all es s1 = (s2, o2)" by fastforce
  have f: "keeps s (s1, o1)" using nested_keeps [OF Cons.prems, of e] a by simp
  then have "immersive_ok s1" by (simp add: keeps_def)
  from keeps_trans [OF f] Cons.IH [OF this] b show ?case by (simp add: a b)
qed

lemma captured_keeps:
  assumes "immersive_ok s" "\<not> im_window s" "held_now s = Nothing"
  shows "keeps s (snd (captured (s\<lparr>im_grabbed := True\<rparr>) [XGrabKeyboard]))"
    "keeps s (snd (captured (s\<lparr>im_inhibitor := True\<rparr>) [InhibitShortcuts]))"
  using assms by (auto simp: captured_def keeps_def immersive_ok_def held_now_def split: if_splits)

text \<open>Nothing is captured while nothing is captured and the registry is read.\<close>

lemma nested_idle:
  "immersive_ok s \<Longrightarrow> \<not> im_window s \<Longrightarrow> \<not> im_window (fst (nested e s))"
  by (cases e) (auto simp: release_keyboard_def manager_removed_def)

lemma nested_all_idle:
  "immersive_ok s \<Longrightarrow> \<not> im_window s \<Longrightarrow> \<not> im_window (fst (nested_all es s))"
proof (induction es arbitrary: s)
  case Nil
  then show ?case by simp
next
  case (Cons e es)
  obtain s1 o1 where a: "nested e s = (s1, o1)" by fastforce
  have "immersive_ok s1" "\<not> im_window s1"
    using nested_keeps [OF Cons.prems(1), of e] nested_idle [OF Cons.prems, of e] a by (simp_all add: keeps_def)
  from Cons.IH [OF this] show ?case by (simp add: a split_beta)
qed

lemma idle_holds_nothing: "immersive_ok s \<Longrightarrow> \<not> im_window s \<Longrightarrow> held_now s = Nothing"
  by (auto simp: immersive_ok_def held_now_def)

lemma capture_wayland_keeps:
  assumes "immersive_ok s" "\<not> im_window s"
  shows "keeps s (snd (capture_wayland w s))"
proof -
  obtain s1 o1 where r: "(if im_registry s then (s, []) else nested_all (iw_events w) (s\<lparr>im_registry := True\<rparr>)) = (s1, o1)"
    by (cases "if im_registry s then (s, []) else nested_all (iw_events w) (s\<lparr>im_registry := True\<rparr>)")
  let ?u = "s\<lparr>im_registry := True\<rparr>"
  have u: "immersive_ok ?u" "\<not> im_window ?u" "held_now ?u = held_now s"
    using assms by (simp_all add: immersive_ok_def held_now_def)
  have k: "keeps s (s1, o1) \<and> \<not> im_window s1"
    using r u assms nested_all_keeps [OF u(1), of "iw_events w"] nested_all_idle [OF u(1,2), of "iw_events w"]
    by (cases "im_registry s") (auto simp: keeps_def)
  then have s1: "immersive_ok s1" "\<not> im_window s1" by (auto simp: keeps_def)
  have w: "keeps s (s1\<lparr>im_wanted := False\<rparr>, o1)" using k by (simp add: keeps_def immersive_ok_def held_now_def)
  have c: "keeps s (snd (captured (s1\<lparr>im_inhibitor := True\<rparr>) (o1 @ [InhibitShortcuts])))"
  proof -
    have "keeps s1 (snd (captured (s1\<lparr>im_inhibitor := True\<rparr>) [InhibitShortcuts]))"
      by (rule captured_keeps(2) [OF s1 idle_holds_nothing [OF s1]])
    then show ?thesis using k unfolding captured_def keeps_def by (simp add: holds_append)
  qed
  show ?thesis using k w c by (simp add: capture_wayland_def r)
qed

lemma enable_keeps:
  assumes "immersive_ok s"
  shows "keeps s (snd (enable w s))"
proof -
  define s1 where "s1 = (if im_top s \<or> \<not> iw_toplevel w then s else s\<lparr>im_top := True\<rparr>)"
  have s1: "immersive_ok s1" "held_now s1 = held_now s" using assms by (auto simp: s1_def immersive_ok_def held_now_def)
  have lift: "keeps s1 r \<Longrightarrow> keeps s r" for r using s1(2) by (simp add: keeps_def)
  have r: "keeps s1 (release_keyboard s1)" "keeps s1 (release_keyboard (s1\<lparr>im_wanted := False\<rparr>))"
    using release_keyboard_keeps [OF s1(1), of s1] release_keyboard_keeps [OF s1(1), of "s1\<lparr>im_wanted := False\<rparr>"] by simp_all
  have f: "keeps s1 (snd (refuse s1))" "keeps s (snd (refuse s))" "keeps s1 (s1, [])" "keeps s1 (s1\<lparr>im_wanted := False\<rparr>, [])"
    using s1 assms by (auto simp: refuse_def intro!: keeps_fields)
  show ?thesis
  proof (cases "im_window s1")
    case True
    then show ?thesis using r f lift by (auto simp: enable_def Let_def s1_def [symmetric] split_beta)
  next
    case False
    have c: "keeps s1 (snd (captured (s1\<lparr>im_grabbed := True\<rparr>) [XGrabKeyboard]))"
      by (rule captured_keeps(1) [OF s1(1) False idle_holds_nothing [OF s1(1) False]])
    have v: "keeps s1 (snd (capture_wayland w s1))" by (rule capture_wayland_keeps [OF s1(1) False])
    show ?thesis using r f c v lift by (auto simp: enable_def Let_def s1_def [symmetric] split_beta)
  qed
qed

lemma set_enabled_keeps:
  assumes "immersive_ok s"
  shows "keeps s (snd (set_enabled w b s))" "\<not> b \<Longrightarrow> \<not> im_window (fst (snd (set_enabled w b s)))"
proof -
  have r: "keeps s (release_keyboard (s\<lparr>im_wanted := b\<rparr>)) \<and> \<not> im_window (fst (release_keyboard (s\<lparr>im_wanted := b\<rparr>)))"
    using release_keyboard_keeps [OF assms, of "s\<lparr>im_wanted := b\<rparr>"] by simp
  let ?t = "s\<lparr>im_wanted := b, im_preparing := True\<rparr>"
  have t: "immersive_ok ?t" "held_now ?t = held_now s" using assms by (simp_all add: immersive_ok_def held_now_def)
  obtain ok s1 o1 where e: "enable w ?t = (ok, s1, o1)" by (metis prod_cases3)
  have "keeps s (s1\<lparr>im_preparing := False\<rparr>, o1)"
    using enable_keeps [OF t(1), of w] e t(2) by (simp add: keeps_def immersive_ok_def held_now_def)
  moreover have "keeps s (s\<lparr>im_wanted := b\<rparr>, [])" using assms by (simp add: keeps_fields)
  ultimately show "keeps s (snd (set_enabled w b s))"
    using r e by (cases b) (simp_all add: set_enabled_def Let_def split_beta)
  show "\<not> b \<Longrightarrow> \<not> im_window (fst (snd (set_enabled w b s)))"
    using r by (simp add: set_enabled_def Let_def split_beta)
qed

lemma immersive_step_keeps: "immersive_ok s \<Longrightarrow> keeps s (immersive_step op s)"
proof (cases op)
  case (CheckFocus b)
  assume ok: "immersive_ok s"
  have "keeps s (release_keyboard (s\<lparr>im_focus_watch := False\<rparr>))"
    using release_keyboard_keeps [OF ok, of "s\<lparr>im_focus_watch := False\<rparr>"] by simp
  then show ?thesis using CheckFocus ok by (simp add: check_focus_def keeps_fields)
next
  case (ActivityChanged w b)
  assume ok: "immersive_ok s"
  then show ?thesis using ActivityChanged release_keyboard_keeps [OF ok, of s] set_enabled_keeps(1) [OF ok]
    by (simp add: activity_changed_def keeps_fields)
next
  case (Outside e)
  assume ok: "immersive_ok s"
  then show ?thesis using Outside nested_keeps [OF ok, of e] by (cases e) (simp_all add: keeps_fields)
qed (simp_all add: set_enabled_keeps)

interpretation keyboard_capture: machine immersive_step immersive_run
  by unfold_locales simp_all

lemma immersive_run_keeps: "immersive_ok s \<Longrightarrow> keeps s (immersive_run ops s)"
  by (rule keyboard_capture.run_ok [where legal = immersive_ok])
    (auto intro: keeps_fields keeps_trans immersive_step_keeps, simp add: keeps_def)

text \<open>
  Whatever happens, the display sees at most one grab or inhibitor at a time, exactly the one recorded, and
  switching off leaves none.
\<close>

lemma keyboard_capture_balanced:
  "let (s, out) = immersive_run ops new_immersive in
     holds out Nothing = Some (held_now s) \<and> held_now (fst (snd (set_enabled w False s))) = Nothing"
proof -
  have i: "immersive_ok new_immersive" "held_now new_immersive = Nothing"
    by (simp_all add: new_immersive_def immersive_ok_def held_now_def)
  obtain s out where rn: "immersive_run ops new_immersive = (s, out)" by fastforce
  have k: "immersive_ok s" "holds out Nothing = Some (held_now s)" using immersive_run_keeps [OF i(1), of ops] rn i(2) by (simp_all add: keeps_def)
  then have "held_now (fst (snd (set_enabled w False s))) = Nothing"
    using set_enabled_keeps [OF k(1), where w = w and b = False] idle_holds_nothing by (auto simp: keeps_def)
  then show ?thesis using rn k by simp
qed

text \<open>When the view is gone, enabling refuses but does not release a capture that is held.\<close>

lemma refusal_keeps_capture:
  "\<not> im_view s \<Longrightarrow> \<not> im_preparing s \<Longrightarrow> im_window s \<Longrightarrow>
   fst (set_enabled w True s) = False \<and> im_window (fst (snd (set_enabled w True s))) \<and> \<not> im_wanted (fst (snd (set_enabled w True s)))"
  by (simp add: set_enabled_def enable_def refuse_def Let_def split_beta)

end
