(* ===== verification/LinuxEditFocus.thy ===== *)
theory LinuxEditFocus
  imports Main
begin

text \<open>
  Whether a remote click on Linux landed in a text input, \<open>linux/linux_edit_focus.cc\<close>: the focused object
  known from accessibility events or found by a bounded search, and one inspection, 80 ms after the last
  click. The accessibility tree and its answers are parameters; objects are numbers.
\<close>

section \<open>Searching the focus\<close>

text \<open>
  \<open>ai_focused\<close>: focused and editable; \<open>ai_contains\<close>: whether its component contains the point, if it has
  one. A child that cannot be read is missing.
\<close>

record accessible_info =
  ai_id :: nat
  ai_focused :: bool
  ai_contains :: "bool option"

datatype accessible = Missing | Object accessible_info "accessible list"

text \<open>
  \<open>late n\<close>: the deadline has passed when the clock is read for the \<open>n\<close>-th time. The state of the search is
  the budget of objects left and the number of readings. \<open>find_children\<close> visits \<open>count\<close> children at most.
\<close>

fun find_focus :: "(nat \<Rightarrow> bool) \<Rightarrow> accessible \<Rightarrow> nat \<Rightarrow> int \<Rightarrow> nat \<Rightarrow> nat option \<times> int \<times> nat"
  and find_children :: "(nat \<Rightarrow> bool) \<Rightarrow> accessible list \<Rightarrow> nat \<Rightarrow> nat \<Rightarrow> int \<Rightarrow> nat \<Rightarrow> nat option \<times> int \<times> nat" where
  "find_focus late Missing depth remaining t = (None, remaining, t)"
| "find_focus late (Object i children) depth remaining t =
     (if depth > 32 then (None, remaining, t)
      else if remaining - 1 < 0 then (None, remaining - 1, t)
      else if late t then (None, remaining - 1, t + 1)
      else if (depth \<ge> 2 \<or> ai_focused i) \<and> ai_contains i = Some False then (None, remaining - 1, t + 1)
      else if ai_focused i then (Some (ai_id i), remaining - 1, t + 1)
      else find_children late children (nat (min (int (length children)) (remaining - 1))) depth (remaining - 1) (t + 1))"
| "find_children late [] count depth remaining t = (None, remaining, t)"
| "find_children late (c # cs) count depth remaining t =
     (if count = 0 \<or> \<not> remaining > 0 then (None, remaining, t)
      else if late t then (None, remaining, t + 1)
      else case find_focus late c (depth + 1) remaining (t + 1) of
        (Some r, remaining', t') \<Rightarrow> (Some r, remaining', t')
      | (None, remaining', t') \<Rightarrow> find_children late cs (count - 1) depth remaining' t')"

fun objects :: "accessible \<Rightarrow> accessible_info list" where
  "objects Missing = []"
| "objects (Object i children) = i # concat (map objects children)"

text \<open>What is found is a focused, editable object of the tree whose component does not exclude the point.\<close>

lemma find_focus_sound:
  "fst (find_focus late a depth remaining t) = Some k \<Longrightarrow>
     \<exists>i \<in> set (objects a). ai_id i = k \<and> ai_focused i \<and> ai_contains i \<noteq> Some False"
  "fst (find_children late as count depth remaining t) = Some k \<Longrightarrow>
     \<exists>i \<in> set (concat (map objects as)). ai_id i = k \<and> ai_focused i \<and> ai_contains i \<noteq> Some False"
proof (induction late a depth remaining t and late as count depth remaining t rule: find_focus_find_children.induct)
  case (4 late c cs count depth remaining t)
  then show ?case
    by (fastforce split: if_splits option.splits prod.splits)
qed (auto split: if_splits)

text \<open>
  The budget: whatever the tree, the search counts at most one object beyond it.
\<close>

lemma find_focus_bounded:
  "0 \<le> remaining \<Longrightarrow> (case find_focus late a depth remaining t of
     (_, remaining', t') \<Rightarrow> -1 \<le> remaining' \<and> remaining' \<le> remaining)"
  "-1 \<le> remaining \<Longrightarrow> (case find_children late as count depth remaining t of
     (_, remaining', t') \<Rightarrow> -1 \<le> remaining' \<and> remaining' \<le> remaining)"
proof (induction late a depth remaining t and late as count depth remaining t rule: find_focus_find_children.induct)
  case (4 late c cs count depth remaining t)
  show ?case
  proof (cases "count = 0 \<or> \<not> remaining > 0 \<or> late t")
    case True
    then show ?thesis using 4 by auto
  next
    case False
    obtain r rem' t' where ff: "find_focus late c (depth + 1) remaining (t + 1) = (r, rem', t')" by (metis prod_cases3)
    have a: "-1 \<le> rem' \<and> rem' \<le> remaining" using "4.IH"(1) False ff by simp
    show ?thesis
    proof (cases r)
      case (Some k)
      then show ?thesis using False ff a by simp
    next
      case None
      have "case find_children late cs (count - 1) depth rem' t' of (_, remaining', t') \<Rightarrow> -1 \<le> remaining' \<and> remaining' \<le> rem'"
        using "4.IH"(2) [OF _ _ ff [symmetric] None refl] False a by simp
      then show ?thesis using False ff a None by (auto split: prod.splits)
    qed
  qed
qed (auto split: prod.splits)

section \<open>State\<close>

record EditFocusState =
  ef_pending :: bool
  ef_listener :: bool
  ef_focused :: "nat option"
  ef_request :: int
  ef_x :: int
  ef_y :: int
  ef_callback :: bool

definition new_edit_focus :: EditFocusState where
  "new_edit_focus = \<lparr>ef_pending = False, ef_listener = False, ef_focused = None, ef_request = 0, ef_x = 0, ef_y = 0,
     ef_callback = False\<rparr>"

text \<open>A focus event: whether the source gained the focus.\<close>

definition focus_event :: "bool \<Rightarrow> nat \<Rightarrow> EditFocusState \<Rightarrow> EditFocusState" where
  "focus_event gained source s =
     (if gained then s\<lparr>ef_focused := Some source\<rparr>
      else if ef_focused s = Some source then s\<lparr>ef_focused := None\<rparr> else s)"

definition stop_edit_focus :: "EditFocusState \<Rightarrow> EditFocusState" where
  "stop_edit_focus s = s\<lparr>ef_pending := False, ef_callback := False, ef_listener := False, ef_focused := None\<rparr>"

text \<open>\<open>init\<close>: the accessibility library is or can be initialised; \<open>registered\<close>: the listener could be registered.\<close>

definition start_edit_focus :: "bool \<Rightarrow> bool \<Rightarrow> EditFocusState \<Rightarrow> bool \<times> EditFocusState" where
  "start_edit_focus init registered s =
     (if ef_listener s then (True, s)
      else if \<not> init then (False, s)
      else let s1 = s\<lparr>ef_listener := True\<rparr> in (registered, if registered then s1 else stop_edit_focus s1))"

definition inspect :: "int \<Rightarrow> int \<Rightarrow> int \<Rightarrow> EditFocusState \<Rightarrow> EditFocusState" where
  "inspect request x y s =
     (if \<not> ef_listener s then s
      else s\<lparr>ef_request := request, ef_x := x, ef_y := y, ef_callback := True, ef_pending := True\<rparr>)"

text \<open>
  What the object answers when the timer fires: its states focused, editable, enabled and defunct, if they
  can be read; its role, \<open>None\<close> for an error; and whether its component contains the point, if it has one,
  an error counting as no.
\<close>

record target_answers =
  ta_states :: "(bool \<times> bool \<times> bool \<times> bool) option"
  ta_password :: "bool option"
  ta_contains :: "bool option"

definition decide :: "target_answers \<Rightarrow> bool \<times> bool" where
  "decide a =
     (case ta_states a of None \<Rightarrow> (False, False)
      | Some (focused, editable, enabled, defunct) \<Rightarrow>
          if focused \<and> editable \<and> enabled \<and> \<not> defunct then
            (ta_password a \<noteq> None \<and> ta_contains a = Some True, ta_password a = Some True)
          else (False, False))"

text \<open>\<open>desktop\<close> is the tree at the point, \<open>answers\<close> what its objects say.\<close>

definition timer_fired :: "(int \<Rightarrow> int \<Rightarrow> accessible) \<Rightarrow> (nat \<Rightarrow> bool) \<Rightarrow> (nat \<Rightarrow> int \<Rightarrow> int \<Rightarrow> target_answers) \<Rightarrow> EditFocusState
    \<Rightarrow> EditFocusState \<times> (int \<times> bool \<times> bool) list" where
  "timer_fired desktop late answers s =
     (if \<not> ef_pending s then (s, [])
      else
        let focused = (if ef_focused s = None then fst (find_focus late (desktop (ef_x s) (ef_y s)) 0 256 0) else ef_focused s);
            (active, secure) = (case focused of None \<Rightarrow> (False, False) | Some k \<Rightarrow> decide (answers k (ef_x s) (ef_y s)))
        in (s\<lparr>ef_pending := False, ef_focused := focused, ef_callback := False\<rparr>,
            if ef_callback s then [(ef_request s, active, secure)] else []))"

text \<open>Only the last click before the timer is answered, once, and none after stopping.\<close>

lemma last_click_answered:
  "ef_listener s \<Longrightarrow> map fst (snd (timer_fired d l a (inspect r2 x2 y2 (inspect r1 x1 y1 s)))) = [r2]"
  "snd (timer_fired d l a (fst (timer_fired d l a s))) = []"
  "snd (timer_fired d l a (stop_edit_focus s)) = []"
  by (auto simp: timer_fired_def inspect_def stop_edit_focus_def split_beta Let_def)

text \<open>A positive answer names an object that contains the point and is focused, editable and enabled.\<close>

lemma active_answer:
  assumes "(r, True, sec) \<in> set (snd (timer_fired d l a s))"
  shows "\<exists>k. ta_contains (a k (ef_x s) (ef_y s)) = Some True
    \<and> (ta_states (a k (ef_x s) (ef_y s)) = Some (True, True, True, False))
    \<and> (ef_focused s = Some k \<or> (\<exists>i \<in> set (objects (d (ef_x s) (ef_y s))). ai_id i = k \<and> ai_focused i))"
proof -
  let ?f = "if ef_focused s = None then fst (find_focus l (d (ef_x s) (ef_y s)) 0 256 0) else ef_focused s"
  have d: "(True, sec) = (case ?f of None \<Rightarrow> (False, False) | Some k \<Rightarrow> decide (a k (ef_x s) (ef_y s)))"
    using assms by (auto simp: timer_fired_def Let_def split: if_splits prod.splits)
  then obtain k where k: "?f = Some k" "decide (a k (ef_x s) (ef_y s)) = (True, sec)" by (auto split: option.splits)
  have "ef_focused s = Some k \<or> (\<exists>i \<in> set (objects (d (ef_x s) (ef_y s))). ai_id i = k \<and> ai_focused i)"
    using k(1) find_focus_sound(1) by (fastforce split: if_splits)
  then show ?thesis using k(2) by (intro exI [of _ k]) (auto simp: decide_def split: option.splits if_splits)
qed

end
