(* ===== verification/LinuxSetup.thy ===== *)
theory LinuxSetup
  imports Main "HOL-Library.Char_ord"
begin

text \<open>
  The input method setting of GNOME, \<open>linux/linux_text_input_setup.cc\<close>: reading the entry
  \<open>Gtk/IMModule\<close> of the overrides and replacing it if it still is what the caller has seen. The settings
  store, the printing and parsing of its values and the process environment are parameters; an entry is
  kept in its printed form, the empty string for none.
\<close>

record settings_world =
  sw_settings :: bool
  sw_writable :: bool
  sw_set :: bool
  sw_parse :: "string \<Rightarrow> string option"
  sw_getenv :: "string \<Rightarrow> string option"

text \<open>The default schema source, the schema and its key, in the order they are looked up.\<close>

definition open_settings :: "bool \<Rightarrow> bool \<Rightarrow> bool \<Rightarrow> bool" where
  "open_settings source schema key = (if \<not> source then False else if \<not> schema then False else key)"

text \<open>\<open>g_ascii_strcasecmp\<close> and \<open>g_strsplit\<close> with a single separator.\<close>

definition ascii_lower :: "char \<Rightarrow> char" where
  "ascii_lower c = (if CHR ''A'' \<le> c \<and> c \<le> CHR ''Z'' then char_of (of_char c + (32 :: nat)) else c)"

fun split_names :: "char \<Rightarrow> string \<Rightarrow> string list" where
  "split_names sep [] = [[]]"
| "split_names sep (c # cs) =
     (if c = sep then [] # split_names sep cs
      else case split_names sep cs of n # ns \<Rightarrow> (c # n) # ns | [] \<Rightarrow> [[c]])"

definition supported_desktop :: "settings_world \<Rightarrow> bool" where
  "supported_desktop w =
     (case sw_getenv w ''XDG_CURRENT_DESKTOP'' of None \<Rightarrow> False
      | Some [] \<Rightarrow> False
      | Some desktop \<Rightarrow> list_ex (\<lambda>name. map ascii_lower name = map ascii_lower ''GNOME'') (split_names (CHR '':'') desktop))"

definition contains_string :: "string \<Rightarrow> string \<Rightarrow> bool" where
  "contains_string pattern s = list_ex (\<lambda>i. take (length pattern) (drop i s) = pattern) [0..<Suc (length s)]"

definition competing_input_method :: "settings_world \<Rightarrow> bool" where
  "competing_input_method w =
     list_ex (\<lambda>name. case sw_getenv w name of None \<Rightarrow> False | Some v \<Rightarrow> contains_string ''fcitx'' v)
       [''GTK_IM_MODULE'', ''QT_IM_MODULE'', ''XMODIFIERS'']"

text \<open>\<open>current\<close> reads the entry; the state of the store is the entry itself.\<close>

definition replace_setting :: "settings_world \<Rightarrow> string \<Rightarrow> string \<Rightarrow> string \<Rightarrow> bool \<times> string" where
  "replace_setting w expected v current =
     (if \<not> sw_writable w \<or> current \<noteq> expected then (False, current)
      else if v \<noteq> [] \<and> sw_parse w v = None then (False, current)
      else let updated = (case sw_parse w v of Some parsed \<Rightarrow> if v \<noteq> [] then parsed else [] | None \<Rightarrow> []);
               current' = (if sw_set w then updated else current)
           in (sw_set w \<and> current' = v, current'))"

section \<open>Lemmas\<close>

text \<open>The pieces of a split have no separator and give the string back.\<close>

lemma split_names_pieces:
  "split_names sep s \<noteq> [] \<and> list_all (\<lambda>n. sep \<notin> set n) (split_names sep s)
     \<and> concat (map (\<lambda>n. sep # n) (split_names sep s)) = sep # s"
  by (induction s) (auto split: list.splits)

lemma contains_string_iff: "contains_string p s \<longleftrightarrow> (\<exists>a b. s = a @ p @ b)"
proof
  assume "contains_string p s"
  then obtain i where i: "i \<le> length s" "take (length p) (drop i s) = p" 
    by (auto simp: contains_string_def list_ex_iff less_Suc_eq_le simp del: upt_Suc)
  then have "s = take i s @ p @ drop (length p) (drop i s)" by (metis append_take_drop_id)
  then show "\<exists>a b. s = a @ p @ b" by blast
next
  assume "\<exists>a b. s = a @ p @ b"
  then obtain a b where "s = a @ p @ b" by blast
  then have "length a < Suc (length s)" "take (length p) (drop (length a) s) = p" by simp_all
  then show "contains_string p s" 
    by (auto simp: contains_string_def list_ex_iff simp del: upt_Suc intro!: bexI [of _ "length a"])
qed

text \<open>
  A compare and set: the entry changes only if it was the expected one, and a success means it now is the
  one asked for.
\<close>

lemma replace_setting_guarded:
  assumes "replace_setting w expected v current = (ok, current')"
  shows "current' \<noteq> current \<longrightarrow> current = expected \<and> sw_writable w"
    and "ok \<longrightarrow> current = expected \<and> current' = v"
  using assms by (auto simp: replace_setting_def Let_def split: if_splits)

text \<open>
  A value whose printed form is another one is reported as a failure although it has been stored.
\<close>

lemma replace_setting_other_spelling:
  "sw_writable w \<Longrightarrow> sw_set w \<Longrightarrow> v \<noteq> [] \<Longrightarrow> sw_parse w v = Some p \<Longrightarrow> p \<noteq> v \<Longrightarrow>
   replace_setting w current v current = (False, p)"
  by (simp add: replace_setting_def)

end
