(* ===== verification/LinuxPlugin.thy ===== *)
theory LinuxPlugin
  imports LinuxKeyboard LinuxMouse LinuxText LinuxPointer LinuxImmersive LinuxEditFocus LinuxSetup
begin

text \<open>
  The method channel of \<open>linux/hardware_simulator_plugin.cc\<close>: how its calls and the events of the system
  drive the keyboard, the mouse, the text transactions, the two captures and the edit focus together.
  A call is known by its number. Text requests are made under the number of their call; the closures the
  code hands over with them are data of the state, and the functions \<open>on_\<dots>_effect\<close> are what they do.
\<close>

section \<open>State\<close>

datatype closure =
    ToAvailable
  | ToPrepare
  | TypeWhenAvailable int string
  | TypeWhenPrepared int string
  | ToFinish

text \<open>\<open>lp_send\<close>: the pointer to the native sender's function is set. \<open>lp_overrides\<close>: the desktop's setting.\<close>

record linux_plugin =
  lp_keyboard :: LinuxKeyboard
  lp_uinput :: uinput
  lp_mouse :: linux_mouse
  lp_text :: Backend
  lp_closures :: "(nat \<times> closure) list"
  lp_next :: nat
  lp_edit_focus :: EditFocusState
  lp_capture :: "Capture option"
  lp_immersive :: "Immersive option"
  lp_relative_sender :: int
  lp_send :: bool
  lp_channel :: bool
  lp_overrides :: string
  lp_disposed :: bool

datatype plugin_effect =
    Respond nat fl_response
  | MouseIO mouse_call
  | TextIO text_effect
  | CaptureIO capture_effect
  | ImmersiveIO immersive_effect
  | InvokeCapture int bool string
  | InvokeMotion int dbl dbl
  | InvokeDecision int bool "bool option"
  | SendRelative int dbl dbl

text \<open>Registering the plugin; \<open>view\<close>: the registrar has a view.\<close>

definition new_plugin :: "uinput \<Rightarrow> string \<Rightarrow> bool \<Rightarrow> linux_plugin" where
  "new_plugin u overrides view =
     \<lparr>lp_keyboard = new_keyboard, lp_uinput = u, lp_mouse = initial_mouse, lp_text = new_backend, lp_closures = [],
      lp_next = 0, lp_edit_focus = new_edit_focus, lp_capture = (if view then Some new_capture else None),
      lp_immersive = (if view then Some new_immersive else None), lp_relative_sender = 0, lp_send = False,
      lp_channel = True, lp_overrides = overrides, lp_disposed = False\<rparr>"

text \<open>
  The answers of the environment to one step. \<open>pw_valid\<close>, \<open>pw_send\<close>: the symbols of the native sender are
  found; \<open>pw_sender_valid\<close> is its answer. \<open>pw_pointer\<close>: the position of the pointer, if the display can be
  opened and answers.
\<close>

record plugin_world =
  pw_version :: string
  pw_rank :: "mouse_button \<Rightarrow> nat"
  pw_create_mouse :: "string option"
  pw_vertical_wheel :: "bool \<times> bool"
  pw_horizontal_wheel :: "bool \<times> bool"
  pw_key_mappings :: "int \<Rightarrow> int option"
  pw_create_keyboard :: "int option"
  pw_strerror :: "int \<Rightarrow> string"
  pw_display :: "x_display option"
  pw_pointer :: "(int \<times> int) option"
  pw_text :: text_world
  pw_settings :: settings_world
  pw_atspi :: "bool \<times> bool"
  pw_desktop :: "int \<Rightarrow> int \<Rightarrow> accessible"
  pw_late :: "nat \<Rightarrow> bool"
  pw_target :: "nat \<Rightarrow> int \<Rightarrow> int \<Rightarrow> target_answers"
  pw_immersive :: immersive_world
  pw_support :: support_world
  pw_lock :: lock_world
  pw_reseed :: reseed_world
  pw_gone :: bool
  pw_valid :: bool
  pw_send :: bool
  pw_sender_valid :: "int \<Rightarrow> bool"

section \<open>Keyboard and release\<close>

definition perform_key_event :: "plugin_world \<Rightarrow> flvalue option \<Rightarrow> linux_plugin \<Rightarrow> fl_response \<times> linux_plugin" where
  "perform_key_event w args s =
     (let (code, ok1) = get_int_arg args ''code''; (is_down, ok2) = get_bool_arg args ''isDown'' in
      if \<not> (ok1 \<and> ok2) then (bad_args ''Missing or incorrect arguments for KeyPress'', s)
      else if keycode (pw_key_mappings w) code = 0 then (unsupported ''Unsupported Windows virtual-key code.'', s)
      else let (result, k, u) = send (pw_key_mappings w) (pw_create_keyboard w) code is_down (lp_keyboard s) (lp_uinput s);
               s1 = s\<lparr>lp_keyboard := k, lp_uinput := u\<rparr>
        in (if result < 0 then Failure ''UINPUT_UNAVAILABLE'' (''Linux keyboard requires /dev/uinput access: '' @ pw_strerror w (- result))
            else success_null, s1))"

text \<open>A failure of the mouse does not keep the keyboard from being cleared.\<close>

definition clear_all_pressed_events :: "plugin_world \<Rightarrow> linux_plugin \<Rightarrow> fl_response \<times> linux_plugin \<times> plugin_effect list" where
  "clear_all_pressed_events w s =
     (let (mouse_error, m, calls) = clear_all_pressed_mouse_buttons (pw_rank w) (pw_create_mouse w) (lp_mouse s);
          (result, k, u) = clear_keys (lp_keyboard s) (lp_uinput s)
      in (case mouse_error of Some e \<Rightarrow> e
          | None \<Rightarrow> if result < 0 then Failure ''UINPUT_UNAVAILABLE'' (pw_strerror w (- result)) else success_null,
          s\<lparr>lp_mouse := m, lp_keyboard := k, lp_uinput := u\<rparr>, map MouseIO calls))"

section \<open>Callbacks of the text transactions\<close>

text \<open>\<open>fl_method_call_respond\<close> on a call that was kept; its closure is gone.\<close>

definition respond_kept :: "nat \<Rightarrow> fl_response \<Rightarrow> linux_plugin \<Rightarrow> linux_plugin \<times> plugin_effect list" where
  "respond_kept c r s = (s\<lparr>lp_closures := filter (\<lambda>(k, _). k \<noteq> c) (lp_closures s)\<rparr>, [Respond c r])"

definition keep_call :: "nat \<Rightarrow> closure \<Rightarrow> linux_plugin \<Rightarrow> linux_plugin" where
  "keep_call c k s = s\<lparr>lp_closures := (c, k) # filter (\<lambda>(k, _). k \<noteq> c) (lp_closures s)\<rparr>"

definition on_finish_effect :: "text_effect \<Rightarrow> linux_plugin \<Rightarrow> linux_plugin \<times> plugin_effect list" where
  "on_finish_effect e s =
     (case e of
        FinishDone c ok \<Rightarrow>
          (if map_of (lp_closures s) c = Some ToFinish
           then respond_kept c (if ok then success_null else Failure ''TEXT_INPUT_UNAVAILABLE'' ''IBus text transaction failed.'') s
           else (s, []))
      | PreparedDone _ _ \<Rightarrow> (s, [])
      | AvailableDone _ _ \<Rightarrow> (s, [])
      | _ \<Rightarrow> (s, [TextIO e]))"

text \<open>The closure \<open>finish\<close> of \<open>performTextInput\<close> and \<open>finishLinuxTextInput\<close>.\<close>

definition finish_call :: "plugin_world \<Rightarrow> nat \<Rightarrow> nat \<Rightarrow> int \<Rightarrow> string \<Rightarrow> linux_plugin \<Rightarrow> linux_plugin \<times> plugin_effect list" where
  "finish_call w c token backspaces v s =
     (let (b, os) = finish (pw_text w) c token backspaces v (lp_text s)
      in deliver on_finish_effect os (keep_call c ToFinish (s\<lparr>lp_text := b\<rparr>)))"

definition on_prepare_effect :: "plugin_world \<Rightarrow> text_effect \<Rightarrow> linux_plugin \<Rightarrow> linux_plugin \<times> plugin_effect list" where
  "on_prepare_effect w e s =
     (case e of
        PreparedDone c token \<Rightarrow>
          (case map_of (lp_closures s) c of
             Some ToPrepare \<Rightarrow> respond_kept c (Success (FlInt (int token))) s
           | Some (TypeWhenPrepared n v) \<Rightarrow> finish_call w c token n v s
           | _ \<Rightarrow> (s, []))
      | _ \<Rightarrow> on_finish_effect e s)"

definition prepare_call :: "plugin_world \<Rightarrow> nat \<Rightarrow> closure \<Rightarrow> linux_plugin \<Rightarrow> linux_plugin \<times> plugin_effect list" where
  "prepare_call w c k s =
     (let (b, os) = prepare (pw_text w) c (lp_text s)
      in deliver (on_prepare_effect w) os (keep_call c k (s\<lparr>lp_text := b\<rparr>)))"

definition on_available_effect :: "plugin_world \<Rightarrow> text_effect \<Rightarrow> linux_plugin \<Rightarrow> linux_plugin \<times> plugin_effect list" where
  "on_available_effect w e s =
     (case e of
        AvailableDone c ok \<Rightarrow>
          (case map_of (lp_closures s) c of
             Some ToAvailable \<Rightarrow>
               if ok then let (r, k) = initialize (pw_create_keyboard w) (lp_keyboard s)
                          in respond_kept c (success_bool (r = 0)) (s\<lparr>lp_keyboard := k\<rparr>)
               else respond_kept c (success_bool False) s
           | Some (TypeWhenAvailable n v) \<Rightarrow>
               if ok then prepare_call w c (TypeWhenPrepared n v) s else finish_call w c 0 n v s
           | _ \<Rightarrow> (s, []))
      | _ \<Rightarrow> on_prepare_effect w e s)"

definition available_call :: "plugin_world \<Rightarrow> nat \<Rightarrow> closure \<Rightarrow> linux_plugin \<Rightarrow> linux_plugin \<times> plugin_effect list" where
  "available_call w c k s =
     (let (b, os) = available (pw_text w) c (lp_text s)
      in deliver (on_available_effect w) os (keep_call c k (s\<lparr>lp_text := b\<rparr>)))"

text \<open>The call that types: the closure is prepared or makes its own transaction.\<close>

definition arg :: "flvalue option \<Rightarrow> string \<Rightarrow> flvalue option" where
  "arg args key = (case args of Some v \<Rightarrow> fl_value_lookup_string v key | None \<Rightarrow> None)"

definition handle_text :: "plugin_world \<Rightarrow> nat \<Rightarrow> bool \<Rightarrow> flvalue option \<Rightarrow> linux_plugin
    \<Rightarrow> fl_response option \<times> linux_plugin \<times> plugin_effect list" where
  "handle_text w c prepared args s =
     (let text = (case arg args ''text'' of Some (FlString v) \<Rightarrow> Some v | _ \<Rightarrow> None);
          numbers = (if \<not> prepared then Some (0, 0)
                     else case (arg args ''backspaces'', arg args ''token'') of
                       (Some (FlInt n), Some (FlInt t)) \<Rightarrow> if t > 0 then Some (n, t) else None
                     | _ \<Rightarrow> None)
      in case (text, numbers) of
        (Some v, Some (backspaces, token)) \<Rightarrow>
          if \<not> valid_text (tw_utf8 (pw_text w)) v \<or> backspaces < 0 \<or> backspaces > 4096
          then (Some (bad_args ''Invalid committed text edit.''), s, [])
          else if prepared then (None, finish_call w c (nat token) backspaces v s)
          else (None, available_call w c (TypeWhenAvailable backspaces v) s)
      | _ \<Rightarrow> (Some (bad_args ''Invalid committed text edit.''), s, []))"

section \<open>Callbacks of the pointer capture\<close>

text \<open>With a native sender the movements do not pass through Dart.\<close>

definition on_capture_effect :: "capture_effect \<Rightarrow> linux_plugin \<Rightarrow> linux_plugin \<times> plugin_effect list" where
  "on_capture_effect e s =
     (case e of
        StateChanged generation locked reason \<Rightarrow>
          (if locked then s else s\<lparr>lp_relative_sender := 0\<rparr>, if lp_channel s then [InvokeCapture generation locked reason] else [])
      | Motion generation dx dy \<Rightarrow>
          (s, if lp_relative_sender s \<noteq> 0 \<and> lp_send s then [SendRelative (lp_relative_sender s) dx dy]
              else if lp_channel s then [InvokeMotion generation dx dy] else [])
      | _ \<Rightarrow> (s, [CaptureIO e]))"

definition captured_step :: "Capture \<Rightarrow> capture_effect list \<Rightarrow> linux_plugin \<Rightarrow> linux_plugin \<times> plugin_effect list" where
  "captured_step p os s = deliver on_capture_effect os (s\<lparr>lp_capture := Some p\<rparr>)"

definition handle_lock :: "plugin_world \<Rightarrow> flvalue option \<Rightarrow> linux_plugin \<Rightarrow> fl_response \<times> linux_plugin \<times> plugin_effect list" where
  "handle_lock w args s =
     (case (arg args ''generation'', lp_capture s) of
        (Some (FlInt gen), Some p) \<Rightarrow>
          let sender = (case arg args ''relativeSender'' of Some (FlInt i) \<Rightarrow> take_bit 64 i | _ \<Rightarrow> 0) in
          if sender \<noteq> 0 \<and> (\<not> pw_valid w \<or> \<not> pw_send w \<or> \<not> pw_sender_valid w sender) then
            let (p1, os) = LinuxPointer.release (pw_gone w) ''invalid_sender'' p; (s1, o1) = captured_step p1 os s
            in (bad_args ''Native relative sender is unavailable'', s1\<lparr>lp_relative_sender := 0\<rparr>, o1)
          else
            let (error, p1, os) = lock (pw_lock w) gen p; (s1, o1) = captured_step p1 os s in
            if error = [] then (success_null, s1\<lparr>lp_relative_sender := sender, lp_send := pw_send w\<rparr>, o1)
            else (Failure ''POINTER_CAPTURE_FAILED'' error, s1, o1)
      | _ \<Rightarrow> (bad_args ''Linux capture requires a generation and a view'', s, []))"

definition handle_reseed :: "plugin_world \<Rightarrow> flvalue option \<Rightarrow> linux_plugin \<Rightarrow> fl_response \<times> linux_plugin \<times> plugin_effect list" where
  "handle_reseed w args s =
     (case (arg args ''generation'', arg args ''x'', arg args ''y'') of
        (Some (FlInt gen), Some (FlFloat x), Some (FlFloat y)) \<Rightarrow>
          (success_null, case lp_capture s of None \<Rightarrow> (s, [])
           | Some p \<Rightarrow> let (p1, os) = unlock_and_reseed_generation (pw_reseed w) gen x y p in captured_step p1 os s)
      | _ \<Rightarrow> (bad_args ''Linux reseed requires generation and position'', s, []))"

definition handle_unlock :: "plugin_world \<Rightarrow> flvalue option \<Rightarrow> linux_plugin \<Rightarrow> fl_response \<times> linux_plugin \<times> plugin_effect list" where
  "handle_unlock w args s =
     (success_null,
      case (lp_capture s, arg args ''generation'') of
        (Some p, Some (FlInt gen)) \<Rightarrow> let (p1, os) = unlock_generation (pw_gone w) gen p in captured_step p1 os s
      | _ \<Rightarrow> (s, []))"

section \<open>Method calls\<close>

definition get_text_input_setup :: "plugin_world \<Rightarrow> linux_plugin \<Rightarrow> fl_response" where
  "get_text_input_setup w s =
     (let v = (if sw_settings (pw_settings w) then lp_overrides s else []);
          other = (competing_input_method (pw_settings w)
            \<or> (v \<noteq> [] \<and> v \<noteq> [CHR 0x27] @ ''ibus'' @ [CHR 0x27] \<and> v \<noteq> [CHR 0x27] @ ''gtk-im-context-simple'' @ [CHR 0x27]))
      in Success (FlMap [(''gnome'', FlBool (supported_desktop (pw_settings w))),
           (''writable'', FlBool (sw_settings (pw_settings w) \<and> sw_writable (pw_settings w))),
           (''otherInputMethod'', FlBool other), (''override'', FlString v)]))"

definition set_text_input_setup :: "plugin_world \<Rightarrow> flvalue option \<Rightarrow> linux_plugin \<Rightarrow> fl_response \<times> linux_plugin" where
  "set_text_input_setup w args s =
     (case (arg args ''expected'', arg args ''value'') of
        (Some (FlString expected), Some (FlString v)) \<Rightarrow>
          if sw_settings (pw_settings w) \<and> supported_desktop (pw_settings w) then
            let (ok, current) = replace_setting (pw_settings w) expected v (lp_overrides s)
            in (success_bool ok, s\<lparr>lp_overrides := current\<rparr>)
          else (success_bool False, s)
      | _ \<Rightarrow> (bad_args ''Invalid input method settings.'', s))"

text \<open>A successful release of the left button that names a request starts an inspection at the pointer.\<close>

definition handle_mouse_press :: "plugin_world \<Rightarrow> flvalue option \<Rightarrow> linux_plugin \<Rightarrow> fl_response \<times> linux_plugin \<times> plugin_effect list" where
  "handle_mouse_press w args s =
     (let (response, m, calls) = perform_mouse_button (pw_create_mouse w) args (lp_mouse s);
          (button, ok1) = get_int_arg args ''buttonId''; (down, ok2) = get_bool_arg args ''isDown'';
          s1 = s\<lparr>lp_mouse := m\<rparr>
      in (response,
          case (if ok1 \<and> ok2 then arg args ''editFocusRequestId'' else None) of
            Some (FlInt request) \<Rightarrow>
              if button = 1 \<and> \<not> down \<and> (case response of Success _ \<Rightarrow> True | _ \<Rightarrow> False) then
                (case pw_pointer w of None \<Rightarrow> s1
                 | Some (x, y) \<Rightarrow> s1\<lparr>lp_edit_focus := inspect request x y (lp_edit_focus s1)\<rparr>)
              else s1
          | _ \<Rightarrow> s1,
          map MouseIO calls))"

definition handle_immersive :: "plugin_world \<Rightarrow> flvalue option \<Rightarrow> linux_plugin \<Rightarrow> fl_response \<times> linux_plugin \<times> plugin_effect list" where
  "handle_immersive w args s =
     (let (enabled, ok) = get_bool_arg args ''enabled'' in
      if \<not> ok then (bad_args ''enabled must be a boolean'', s, [])
      else case lp_immersive s of None \<Rightarrow> (success_bool False, s, [])
      | Some i \<Rightarrow> let (r, i1, os) = set_enabled (pw_immersive w) enabled i
                  in (success_bool r, s\<lparr>lp_immersive := Some i1\<rparr>, map ImmersiveIO os))"

definition handle_supported :: "plugin_world \<Rightarrow> linux_plugin \<Rightarrow> fl_response \<times> linux_plugin" where
  "handle_supported w s =
     (case lp_capture s of None \<Rightarrow> (success_bool False, s)
      | Some p \<Rightarrow> let (ok, p1) = supported (pw_support w) p in (success_bool ok, s\<lparr>lp_capture := Some p1\<rparr>))"

datatype linux_method =
    GetPlatformVersion | StartDecisionCapture | StopDecisionCapture | IsEditFocusAvailable | GetMonitorCount
  | GetTextInputSetup | SetTextInputSetup | IsTextInputAvailable | PrepareTextInput | FinishTextInput
  | PerformTextInput | KeyPress | MouseMoveR | MouseMoveA | MousePress | MouseScroll | ClearAllPressedEvents
  | PutImmersiveMode | IsPointerCaptureSupported | LockCursor | UnlockCursorAndReseed | UnlockCursor
  | IsRunningAsSystem | SetPrimaryDisplay | Ignored

definition linux_methods :: "(string \<times> linux_method) list" where
  "linux_methods =
     [(''getPlatformVersion'', GetPlatformVersion), (''startTextInputDecisionCapture'', StartDecisionCapture),
      (''stopTextInputDecisionCapture'', StopDecisionCapture), (''isLinuxEditFocusAvailable'', IsEditFocusAvailable),
      (''getMonitorCount'', GetMonitorCount), (''getLinuxTextInputSetup'', GetTextInputSetup),
      (''setLinuxTextInputSetup'', SetTextInputSetup), (''isLinuxTextInputAvailable'', IsTextInputAvailable),
      (''prepareLinuxTextInput'', PrepareTextInput), (''finishLinuxTextInput'', FinishTextInput),
      (''performTextInput'', PerformTextInput), (''KeyPress'', KeyPress), (''mouseMoveR'', MouseMoveR),
      (''mouseMoveA'', MouseMoveA), (''mousePress'', MousePress), (''mouseScroll'', MouseScroll),
      (''clearAllPressedEvents'', ClearAllPressedEvents), (''putImmersiveModeEnabled'', PutImmersiveMode),
      (''isLinuxPointerCaptureSupported'', IsPointerCaptureSupported), (''lockCursor'', LockCursor),
      (''unlockCursorAndReseed'', UnlockCursorAndReseed), (''unlockCursor'', UnlockCursor),
      (''mouseMoveToWindowPosition'', Ignored), (''isRunningAsSystem'', IsRunningAsSystem),
      (''setPrimaryDisplay'', SetPrimaryDisplay), (''touchEvent'', Ignored), (''touchMove'', Ignored),
      (''penEvent'', Ignored), (''penMove'', Ignored), (''penHover'', Ignored), (''hookCursorImage'', Ignored),
      (''unhookCursorImage'', Ignored), (''hookCursorPosition'', Ignored), (''unhookCursorPosition'', Ignored),
      (''addDisplayCountChangedCallback'', Ignored), (''removeDisplayCountChangedCallback'', Ignored)]"

text \<open>
  The outcome of a method: the response if it is ready, the state and the effects; \<open>None\<close> where a conversion
  of the mouse has no defined result.
\<close>

type_synonym outcome = "fl_response option \<times> linux_plugin \<times> plugin_effect list"

definition now :: "fl_response \<times> linux_plugin \<times> plugin_effect list \<Rightarrow> outcome option" where
  "now r = (case r of (response, s, os) \<Rightarrow> Some (Some response, s, os))"

definition moused :: "linux_plugin \<Rightarrow> (fl_response \<times> linux_mouse \<times> mouse_call list) option \<Rightarrow> outcome option" where
  "moused s r = (case r of None \<Rightarrow> None | Some (response, m, calls) \<Rightarrow> now (response, s\<lparr>lp_mouse := m\<rparr>, map MouseIO calls))"

fun run_method :: "plugin_world \<Rightarrow> nat \<Rightarrow> linux_method \<Rightarrow> flvalue option \<Rightarrow> linux_plugin \<Rightarrow> outcome option" where
  "run_method w c GetPlatformVersion args s = now (Success (FlString (''Linux '' @ pw_version w)), s, [])"
| "run_method w c StartDecisionCapture args s =
     (let (ok, f) = start_edit_focus (fst (pw_atspi w)) (snd (pw_atspi w)) (lp_edit_focus s)
      in now (success_bool ok, s\<lparr>lp_edit_focus := f\<rparr>, []))"
| "run_method w c StopDecisionCapture args s = now (success_null, s\<lparr>lp_edit_focus := stop_edit_focus (lp_edit_focus s)\<rparr>, [])"
| "run_method w c IsEditFocusAvailable args s = now (success_bool (ef_listener (lp_edit_focus s)), s, [])"
| "run_method w c GetMonitorCount args s = now (get_monitor_count (pw_display w), s, [])"
| "run_method w c GetTextInputSetup args s = now (get_text_input_setup w s, s, [])"
| "run_method w c SetTextInputSetup args s = (let (r, s1) = set_text_input_setup w args s in now (r, s1, []))"
| "run_method w c IsTextInputAvailable args s = Some (None, available_call w c ToAvailable s)"
| "run_method w c PrepareTextInput args s = Some (None, prepare_call w c ToPrepare s)"
| "run_method w c FinishTextInput args s = Some (handle_text w c True args s)"
| "run_method w c PerformTextInput args s = Some (handle_text w c False args s)"
| "run_method w c KeyPress args s = (let (r, s1) = perform_key_event w args s in now (r, s1, []))"
| "run_method w c MouseMoveR args s = moused s (perform_mouse_move_relative (pw_create_mouse w) args (lp_mouse s))"
| "run_method w c MouseMoveA args s =
     moused s (perform_mouse_move_absolute (pw_create_mouse w) (pw_display w) args (lp_mouse s))"
| "run_method w c MousePress args s = now (handle_mouse_press w args s)"
| "run_method w c MouseScroll args s =
     moused s (perform_mouse_scroll (pw_create_mouse w) (pw_vertical_wheel w) (pw_horizontal_wheel w) args (lp_mouse s))"
| "run_method w c ClearAllPressedEvents args s = now (clear_all_pressed_events w s)"
| "run_method w c PutImmersiveMode args s = now (handle_immersive w args s)"
| "run_method w c IsPointerCaptureSupported args s = (let (r, s1) = handle_supported w s in now (r, s1, []))"
| "run_method w c LockCursor args s = now (handle_lock w args s)"
| "run_method w c UnlockCursorAndReseed args s = now (handle_reseed w args s)"
| "run_method w c UnlockCursor args s = now (handle_unlock w args s)"
| "run_method w c IsRunningAsSystem args s = now (success_bool True, s, [])"
| "run_method w c SetPrimaryDisplay args s = now (success_bool False, s, [])"
| "run_method w c Ignored args s = now (success_null, s, [])"

definition handle_method_call :: "plugin_world \<Rightarrow> string \<Rightarrow> flvalue option \<Rightarrow> linux_plugin
    \<Rightarrow> (linux_plugin \<times> plugin_effect list) option" where
  "handle_method_call w name args s =
     (let c = lp_next s; s0 = s\<lparr>lp_next := Suc c\<rparr> in
      case (case map_of linux_methods name of None \<Rightarrow> now (NotImplemented, s0, []) | Some m \<Rightarrow> run_method w c m args s0) of
        None \<Rightarrow> None
      | Some (None, s1, os) \<Rightarrow> Some (s1, os)
      | Some (Some response, s1, os) \<Rightarrow> Some (s1, os @ [Respond c response]))"

section \<open>Steps\<close>

text \<open>
  The events the parts of the plugin see from outside; the requests among the operations of a part come from
  method calls only. After the plugin has been disposed of it has no handler and no callback is left.
\<close>

datatype plugin_event =
    Method string "flvalue option"
  | TextEvent text_event
  | PointerEvent capture_op
  | KeyboardEvent immersive_op
  | FocusEvent bool nat
  | FocusTimer
  | ChannelGone
  | Dispose

fun pointer_event :: "capture_op \<Rightarrow> bool" where
  "pointer_event (Lock _ _) = False"
| "pointer_event (Unlock _ _) = False"
| "pointer_event (UnlockGeneration _ _) = False"
| "pointer_event (Reseed _ _ _ _) = False"
| "pointer_event (AskSupported _) = False"
| "pointer_event _ = True"

definition focus_timer :: "plugin_world \<Rightarrow> linux_plugin \<Rightarrow> linux_plugin \<times> plugin_effect list" where
  "focus_timer w s =
     (let (f, decisions) = timer_fired (pw_desktop w) (pw_late w) (pw_target w) (lp_edit_focus s)
      in (s\<lparr>lp_edit_focus := f\<rparr>,
          if lp_channel s
          then map (\<lambda>(request, active, secure). InvokeDecision request active (if active then Some secure else None)) decisions
          else []))"

definition plugin_dispose :: "plugin_world \<Rightarrow> linux_plugin \<Rightarrow> linux_plugin \<times> plugin_effect list" where
  "plugin_dispose w s =
     (let o1 = (case lp_immersive s of None \<Rightarrow> [] | Some i \<Rightarrow> map ImmersiveIO (snd (release_keyboard i)));
          (s2, o2) = (case lp_capture s of None \<Rightarrow> (s, [])
            | Some p \<Rightarrow> let (p1, os) = LinuxPointer.release (pw_gone w) ''disposed'' p in captured_step p1 os s)
      in (s2\<lparr>lp_immersive := None, lp_capture := None, lp_edit_focus := stop_edit_focus (lp_edit_focus s2),
             lp_channel := False, lp_disposed := True\<rparr>, o1 @ o2))"

fun plugin_step :: "plugin_world \<times> plugin_event \<Rightarrow> linux_plugin \<Rightarrow> (linux_plugin \<times> plugin_effect list) option" where
  "plugin_step (w, Method name args) s = (if lp_disposed s then None else handle_method_call w name args s)"
| "plugin_step (w, TextEvent e) s =
     Some (if asks e = [] then
             let (b, os) = text_step (pw_text w) e (lp_text s) in deliver (on_available_effect w) os (s\<lparr>lp_text := b\<rparr>)
           else (s, []))"
| "plugin_step (w, PointerEvent e) s =
     Some (case lp_capture s of None \<Rightarrow> (s, [])
           | Some p \<Rightarrow> if pointer_event e then let (p1, os) = capture_step e p in captured_step p1 os s else (s, []))"
| "plugin_step (w, KeyboardEvent e) s =
     Some (case (lp_immersive s, e) of
             (Some i, SetEnabled _ _) \<Rightarrow> (s, [])
           | (Some i, _) \<Rightarrow> let (i1, os) = immersive_step e i in (s\<lparr>lp_immersive := Some i1\<rparr>, map ImmersiveIO os)
           | _ \<Rightarrow> (s, []))"
| "plugin_step (w, FocusEvent gained source) s =
     Some (if ef_listener (lp_edit_focus s) then (s\<lparr>lp_edit_focus := focus_event gained source (lp_edit_focus s)\<rparr>, []) else (s, []))"
| "plugin_step (w, FocusTimer) s = Some (focus_timer w s)"
| "plugin_step (w, ChannelGone) s = Some (s\<lparr>lp_channel := False\<rparr>, [])"
| "plugin_step (w, Dispose) s = Some (if lp_disposed s then (s, []) else plugin_dispose w s)"

fun plugin_run :: "(plugin_world \<times> plugin_event) list \<Rightarrow> linux_plugin \<Rightarrow> (linux_plugin \<times> plugin_effect list) option" where
  "plugin_run [] s = Some (s, [])"
| "plugin_run (e # es) s =
     (case plugin_step e s of None \<Rightarrow> None
      | Some (s1, o1) \<Rightarrow> (case plugin_run es s1 of None \<Rightarrow> None | Some (s2, o2) \<Rightarrow> Some (s2, o1 @ o2)))"

interpretation plugin: partial_machine plugin_step plugin_run
  by unfold_locales simp_all

section \<open>Every call is answered once\<close>

text \<open>The text request a kept call waits for.\<close>

fun request_of :: "nat \<times> closure \<Rightarrow> request" where
  "request_of (c, ToAvailable) = OfAvailable c"
| "request_of (c, TypeWhenAvailable _ _) = OfAvailable c"
| "request_of (c, ToPrepare) = OfPrepare c"
| "request_of (c, TypeWhenPrepared _ _) = OfPrepare c"
| "request_of (c, ToFinish) = OfFinish c"

fun responded :: "plugin_effect \<Rightarrow> nat list" where
  "responded (Respond c _) = [c]"
| "responded _ = []"

definition responses :: "plugin_effect list \<Rightarrow> nat multiset" where
  "responses os = mset (concat (map responded os))"

definition waiting :: "linux_plugin \<Rightarrow> nat multiset" where
  "waiting s = mset (map fst (lp_closures s))"

definition others :: "nat \<Rightarrow> linux_plugin \<Rightarrow> (nat \<times> closure) list" where
  "others c s = filter (\<lambda>(k, _). k \<noteq> c) (lp_closures s)"

text \<open>\<open>os\<close> are effects of the text transactions that have not been delivered yet.\<close>

definition calls_ok :: "text_effect list \<Rightarrow> linux_plugin \<Rightarrow> bool" where
  "calls_ok os s \<longleftrightarrow> text_ok (lp_text s) \<and> distinct (map fst (lp_closures s))
     \<and> given os + outstanding (lp_text s) = mset (map request_of (lp_closures s))"

text \<open>The same with one call left out, which is being taken on or passed on.\<close>

definition taking :: "nat \<Rightarrow> text_effect list \<Rightarrow> linux_plugin \<Rightarrow> bool" where
  "taking c os s \<longleftrightarrow> text_ok (lp_text s) \<and> distinct (map fst (lp_closures s))
     \<and> given os + outstanding (lp_text s) = mset (map request_of (others c s))"

definition delivers :: "nat multiset \<Rightarrow> text_effect list \<Rightarrow> linux_plugin \<Rightarrow> linux_plugin \<times> plugin_effect list \<Rightarrow> bool" where
  "delivers before os s r \<longleftrightarrow> calls_ok os (fst r) \<and> responses (snd r) + waiting (fst r) = before
     \<and> lp_next (fst r) = lp_next s \<and> lp_disposed (fst r) = lp_disposed s"

lemma responses_simps [simp]: "responses [] = {#}" "responses (e # es) = mset (responded e) + responses es"
  "responses (xs @ ys) = responses xs + responses ys"
  by (simp_all add: responses_def)

lemma closure_out:
  assumes "distinct (map fst xs)" "(c, k) \<in> set xs"
  shows "mset xs = add_mset (c, k) (mset (filter (\<lambda>(k', _). k' \<noteq> c) xs))"
  using assms
proof (induction xs)
  case (Cons x xs)
  show ?case
  proof (cases "fst x = c")
    case True
    then have x: "x = (c, k)" and "c \<notin> fst ` set xs" using Cons.prems by (auto simp: rev_image_eqI)
    then have "filter (\<lambda>(k', _). k' \<noteq> c) xs = xs" by (force simp: filter_id_conv)
    then show ?thesis using x by simp
  next
    case False
    then show ?thesis using Cons by (auto simp: split_beta)
  qed
qed simp

text \<open>A request that is owed belongs to exactly one kept call.\<close>

lemma owed_closure:
  assumes "calls_ok (e # os) s" "r \<in> set (answers e)" "answers e = [r]"
  obtains c k where "(c, k) \<in> set (lp_closures s)" "request_of (c, k) = r" "map_of (lp_closures s) c = Some k" "taking c os s"
    "waiting s = add_mset c (mset (map fst (others c s)))"
proof -
  have d: "distinct (map fst (lp_closures s))" using assms(1) by (simp add: calls_ok_def)
  have "r \<in># mset (map request_of (lp_closures s))"
    using assms unfolding calls_ok_def by (metis given_simps(2) union_iff set_mset_mset)
  then obtain c k where k: "(c, k) \<in> set (lp_closures s)" "request_of (c, k) = r" by auto
  note m = closure_out [OF d k(1), folded others_def]
  have "mset (map request_of (lp_closures s)) = add_mset r (mset (map request_of (others c s)))"
    using arg_cong [OF m, of "image_mset request_of"] k(2) by simp
  then have "taking c os s" using assms by (simp add: calls_ok_def taking_def)
  moreover have "waiting s = add_mset c (mset (map fst (others c s)))"
    using arg_cong [OF m, of "image_mset fst"] by (simp add: waiting_def)
  ultimately show ?thesis using that k d by simp
qed

lemma request_closure:
  "request_of (c, k) = OfFinish c' \<longleftrightarrow> c = c' \<and> k = ToFinish"
  "request_of (c, k) = OfPrepare c' \<longleftrightarrow> c = c' \<and> (k = ToPrepare \<or> (\<exists>n v. k = TypeWhenPrepared n v))"
  "request_of (c, k) = OfAvailable c' \<longleftrightarrow> c = c' \<and> (k = ToAvailable \<or> (\<exists>n v. k = TypeWhenAvailable n v))"
  by (cases k; auto)+

lemma distinct_filter_fst: "distinct (map fst xs) \<Longrightarrow> distinct (map fst (filter P xs))"
  by (induction xs) auto

lemma respond_kept_delivers:
  "taking c os s \<Longrightarrow> delivers (add_mset c (mset (map fst (others c s)))) os s (respond_kept c r s)"
  by (auto simp: delivers_def respond_kept_def calls_ok_def taking_def others_def waiting_def distinct_filter_fst)

lemma keep_call_ok:
  assumes "taking c os s" "settles [r] (lp_text s) (b, os')" "request_of (c, k) = r"
  shows "calls_ok (os' @ os) (keep_call c k (s\<lparr>lp_text := b\<rparr>))
    \<and> waiting (keep_call c k (s\<lparr>lp_text := b\<rparr>)) = add_mset c (mset (map fst (others c s)))"
proof -
  have "distinct (map fst (lp_closures s))" "text_ok b"
    "given os + outstanding (lp_text s) = mset (map request_of (others c s))"
    "given os' + outstanding b = mset [r] + outstanding (lp_text s)"
    using assms(1,2) by (simp_all add: taking_def settles_def)
  moreover from this have "given os' + given os + outstanding b = add_mset r (mset (map request_of (others c s)))"
    by (metis add_mset_add_single mset_single_iff union_assoc union_commute union_mset_add_mset_left mset.simps add_0)
  ultimately show ?thesis using assms(3)
    by (auto simp: calls_ok_def keep_call_def others_def waiting_def distinct_filter_fst)
qed

lemma deliver_delivers:
  assumes "\<And>e os s. P e \<Longrightarrow> calls_ok (e # os) s \<Longrightarrow> delivers (waiting s) os s (f e s)"
  shows "list_all P es \<Longrightarrow> calls_ok (es @ os) s \<Longrightarrow> delivers (waiting s) os s (deliver f es s)"
proof (induction es arbitrary: s)
  case Nil
  then show ?case by (simp add: delivers_def)
next
  case (Cons e es)
  obtain s1 o1 where f: "f e s = (s1, o1)" by fastforce
  have d: "delivers (waiting s) (es @ os) s (s1, o1)" using assms [of e "es @ os" s] Cons.prems f by simp
  then have "delivers (waiting s1) os s1 (deliver f es s1)" using Cons by (simp add: delivers_def)
  then show ?case using d by (simp add: f delivers_def split_beta add.assoc)
qed

text \<open>Which answers a request of each kind can bring.\<close>

fun finish_effect :: "text_effect \<Rightarrow> bool" where
  "finish_effect (PreparedDone _ _) = False"
| "finish_effect (AvailableDone _ _) = False"
| "finish_effect _ = True"

fun prepare_effect :: "text_effect \<Rightarrow> bool" where
  "prepare_effect (AvailableDone _ _) = False"
| "prepare_effect _ = True"

lemma dbus_call_effects: "list_all P (snd (failed s)) \<Longrightarrow> (\<And>m. P (DBusCall m)) \<Longrightarrow> list_all P (snd (dbus_call w m k failed s))"
  by (simp add: dbus_call_def)

lemma restore_effects:
  assumes "\<And>ok. list_all P (restored a ok)" "\<And>m. P (DBusCall m)"
  shows "list_all P (snd (restore w a s))"
  unfolding restore_def on_restore_engine_def on_engine_set_def
  by (intro dbus_call_effects assms(2)) (auto intro!: dbus_call_effects simp: assms)

lemma finish_effects: "list_all finish_effect (snd (finish w r token n v s))"
proof -
  have "list_all finish_effect (snd (restore w (AnswerFinish r good) s1))" for good s1
    by (rule restore_effects) simp_all
  then show ?thesis by (auto simp: finish_def Let_def split_beta list_all_iff)
qed

lemma prepare_effects: "list_all prepare_effect (snd (prepare w r s))"
proof -
  have re: "list_all prepare_effect (snd (restore w (AnswerPrepare r) s1))" for s1
    by (rule restore_effects) simp_all
  have c: "list_all prepare_effect (snd (on_context_checked w r p s1))" for p s1
    using re by (simp add: on_context_checked_def Let_def)
  have e: "list_all prepare_effect (snd (on_engine_selected w r ok s1))" for ok s1
    using re c by (auto simp: on_engine_selected_def intro!: dbus_call_effects)
  have g: "list_all prepare_effect (snd (on_engine_read w r n s1))" for n s1
    using e by (auto simp: on_engine_read_def intro!: dbus_call_effects)
  have x: "list_all prepare_effect (snd (on_context_read w r p s1))" for p s1
    using g by (auto simp: on_context_read_def intro!: dbus_call_effects split: option.split)
  show ?thesis using x by (auto simp: prepare_def intro!: dbus_call_effects)
qed

lemma on_finish_effect_delivers:
  assumes "finish_effect e" "calls_ok (e # os) s"
  shows "delivers (waiting s) os s (on_finish_effect e s)"
proof (cases "\<exists>c ok. e = FinishDone c ok")
  case True
  then obtain c ok where e: "e = FinishDone c ok" by blast
  obtain c' k where k: "request_of (c', k) = OfFinish c" "map_of (lp_closures s) c' = Some k" "taking c' os s"
    "waiting s = add_mset c' (mset (map fst (others c' s)))"
    by (rule owed_closure [OF assms(2), of "OfFinish c"]) (simp_all add: e)
  then show ?thesis using respond_kept_delivers by (simp add: request_closure e on_finish_effect_def)
next
  case False
  then show ?thesis using assms by (cases e) (simp_all add: on_finish_effect_def delivers_def calls_ok_def)
qed

lemma finish_call_delivers:
  assumes "taking c os s"
  shows "delivers (add_mset c (mset (map fst (others c s)))) os s (finish_call w c t n v s)"
proof -
  obtain b os' where f: "finish (pw_text w) c t n v (lp_text s) = (b, os')" by fastforce
  have "settles [OfFinish c] (lp_text s) (b, os')"
    using finish_settles [of "lp_text s" c "pw_text w" t n v] assms f by (simp add: taking_def)
  note k = keep_call_ok [OF assms this, of ToFinish]
  have "delivers (waiting (keep_call c ToFinish (s\<lparr>lp_text := b\<rparr>))) os (keep_call c ToFinish (s\<lparr>lp_text := b\<rparr>))
      (deliver on_finish_effect os' (keep_call c ToFinish (s\<lparr>lp_text := b\<rparr>)))"
    using finish_effects [of "pw_text w" c t n v "lp_text s"] k f
    by (intro deliver_delivers [where P = finish_effect] on_finish_effect_delivers) simp_all
  then show ?thesis using k by (simp add: finish_call_def f delivers_def keep_call_def)
qed

lemma on_prepare_effect_delivers:
  assumes "prepare_effect e" "calls_ok (e # os) s"
  shows "delivers (waiting s) os s (on_prepare_effect w e s)"
proof (cases "\<exists>c t. e = PreparedDone c t")
  case True
  then obtain c t where e: "e = PreparedDone c t" by blast
  obtain c' k where k: "request_of (c', k) = OfPrepare c" "map_of (lp_closures s) c' = Some k" "taking c' os s"
    "waiting s = add_mset c' (mset (map fst (others c' s)))"
    by (rule owed_closure [OF assms(2), of "OfPrepare c"]) (simp_all add: e)
  then show ?thesis using respond_kept_delivers finish_call_delivers by (auto simp: request_closure e on_prepare_effect_def)
next
  case False
  then show ?thesis using assms on_finish_effect_delivers by (cases e) (simp_all add: on_prepare_effect_def)
qed

lemma prepare_call_delivers:
  assumes "taking c os s" "request_of (c, k) = OfPrepare c"
  shows "delivers (add_mset c (mset (map fst (others c s)))) os s (prepare_call w c k s)"
proof -
  obtain b os' where f: "prepare (pw_text w) c (lp_text s) = (b, os')" by fastforce
  have "settles [OfPrepare c] (lp_text s) (b, os')"
    using prepare_settles [of "lp_text s" c "pw_text w"] assms f by (simp add: taking_def)
  note k = keep_call_ok [OF assms(1) this assms(2)]
  have "delivers (waiting (keep_call c k (s\<lparr>lp_text := b\<rparr>))) os (keep_call c k (s\<lparr>lp_text := b\<rparr>))
      (deliver (on_prepare_effect w) os' (keep_call c k (s\<lparr>lp_text := b\<rparr>)))"
    using prepare_effects [of "pw_text w" c "lp_text s"] k f
    by (intro deliver_delivers [where P = prepare_effect] on_prepare_effect_delivers) simp_all
  then show ?thesis using k by (simp add: prepare_call_def f delivers_def keep_call_def)
qed

lemma taking_fields:
  "taking c os s \<Longrightarrow> lp_text s' = lp_text s \<Longrightarrow> lp_closures s' = lp_closures s \<Longrightarrow> taking c os s' \<and> others c s' = others c s"
  by (simp add: taking_def others_def)

lemma on_available_effect_delivers:
  assumes "calls_ok (e # os) s"
  shows "delivers (waiting s) os s (on_available_effect w e s)"
proof (cases "\<exists>c ok. e = AvailableDone c ok")
  case True
  then obtain c ok where e: "e = AvailableDone c ok" by blast
  obtain c' k where k: "request_of (c', k) = OfAvailable c" "map_of (lp_closures s) c' = Some k" "taking c' os s"
    "waiting s = add_mset c' (mset (map fst (others c' s)))"
    by (rule owed_closure [OF assms(1), of "OfAvailable c"]) (simp_all add: e)
  obtain r kb where i: "initialize (pw_create_keyboard w) (lp_keyboard s) = (r, kb)" by fastforce
  have "delivers (waiting s) os s (respond_kept c' (success_bool (r = 0)) (s\<lparr>lp_keyboard := kb\<rparr>))"
    using respond_kept_delivers [of c' os "s\<lparr>lp_keyboard := kb\<rparr>" "success_bool (r = 0)"] taking_fields [OF k(3), of "s\<lparr>lp_keyboard := kb\<rparr>"] k(4)
    by (simp add: delivers_def)
  then show ?thesis using k respond_kept_delivers finish_call_delivers prepare_call_delivers
    by (auto simp: request_closure e i on_available_effect_def)
next
  case False
  then show ?thesis using assms on_prepare_effect_delivers by (cases e) (simp_all add: on_available_effect_def)
qed

lemma available_call_delivers:
  assumes "taking c os s" "request_of (c, k) = OfAvailable c"
  shows "delivers (add_mset c (mset (map fst (others c s)))) os s (available_call w c k s)"
proof -
  obtain b os' where f: "available (pw_text w) c (lp_text s) = (b, os')" by fastforce
  have "settles [OfAvailable c] (lp_text s) (b, os')"
    using available_settles [of "lp_text s" c "pw_text w"] assms f by (simp add: taking_def)
  note k = keep_call_ok [OF assms(1) this assms(2)]
  have "delivers (waiting (keep_call c k (s\<lparr>lp_text := b\<rparr>))) os (keep_call c k (s\<lparr>lp_text := b\<rparr>))
      (deliver (on_available_effect w) os' (keep_call c k (s\<lparr>lp_text := b\<rparr>)))"
    using k f by (intro deliver_delivers [where P = "\<lambda>_. True"] on_available_effect_delivers) (simp_all add: list_all_iff)
  then show ?thesis using k by (simp add: available_call_def f delivers_def keep_call_def)
qed

text \<open>What does not concern the kept calls.\<close>

definition apart :: "linux_plugin \<Rightarrow> linux_plugin \<times> plugin_effect list \<Rightarrow> bool" where
  "apart s r \<longleftrightarrow> lp_text (fst r) = lp_text s \<and> lp_closures (fst r) = lp_closures s \<and> lp_next (fst r) = lp_next s
     \<and> responses (snd r) = {#}"

lemma on_capture_effect_apart: "apart s (on_capture_effect e s) \<and> lp_disposed (fst (on_capture_effect e s)) = lp_disposed s"
  by (auto simp: on_capture_effect_def apart_def split: capture_effect.split)

lemma captured_step_apart: "apart s (captured_step p os s) \<and> lp_disposed (fst (captured_step p os s)) = lp_disposed s"
proof -
  have "apart t (deliver on_capture_effect os t) \<and> lp_disposed (fst (deliver on_capture_effect os t)) = lp_disposed t" for t
    by (rule callbacks.run_ok [where legal = "\<lambda>_. True"])
      (use on_capture_effect_apart in \<open>auto simp: apart_def\<close>)
  from this [of "s\<lparr>lp_capture := Some p\<rparr>"] show ?thesis by (simp add: captured_step_def apart_def)
qed

lemma responses_maps [simp]:
  "responses (map MouseIO cs) = {#}" "responses (map ImmersiveIO is) = {#}"
  by (induction cs; simp) (induction "is"; simp)

text \<open>Every method answers at once or keeps its call; \<open>now\<close> never does both.\<close>

definition answers_call :: "nat \<Rightarrow> linux_plugin \<Rightarrow> outcome \<Rightarrow> bool" where
  "answers_call c s r = (case r of
     (Some _, s', os) \<Rightarrow> apart s (s', os)
   | (None, s', os) \<Rightarrow> delivers (add_mset c (waiting s)) [] s (s', os))"

lemma now_apart: "now (r, s', os) = Some v \<Longrightarrow> apart s (s', os) \<Longrightarrow> answers_call c s v"
  by (auto simp: now_def answers_call_def)

lemma handlers_apart:
  "apart s (snd (handle_lock w args s))"
  "apart s (snd (handle_reseed w args s))"
  "apart s (snd (handle_unlock w args s))"
  "apart s (snd (handle_immersive w args s))"
  "apart s (snd (handle_mouse_press w args s))"
  "apart s (snd (clear_all_pressed_events w s))"
  "apart s (snd (handle_supported w s), [])"
  "apart s (snd (perform_key_event w args s), [])"
  "apart s (snd (set_text_input_setup w args s), [])"
proof -
  have id: "apart s (s, [])" by (simp add: apart_def)
  note cs = captured_step_apart
  have un: "apart s ((fst (captured_step p os s))\<lparr>lp_relative_sender := k\<rparr>, snd (captured_step p os s))"
    "apart s ((fst (captured_step p os s))\<lparr>lp_relative_sender := k, lp_send := b\<rparr>, snd (captured_step p os s))" for p os k b
    using cs [of s p os] by (simp_all add: apart_def)
  show "apart s (snd (handle_lock w args s))"
    using id cs un by (auto simp: handle_lock_def Let_def split_beta split: option.split flvalue.split)
  show "apart s (snd (handle_reseed w args s))"
    using id cs by (auto simp: handle_reseed_def split_beta split: option.split flvalue.split)
  show "apart s (snd (handle_unlock w args s))"
    using id cs by (auto simp: handle_unlock_def split_beta split: option.split flvalue.split)
  show "apart s (snd (handle_immersive w args s))"
    using id by (auto simp: handle_immersive_def apart_def split_beta split: option.split)
  show "apart s (snd (handle_mouse_press w args s))"
    by (auto simp: handle_mouse_press_def apart_def Let_def split_beta split: option.split flvalue.split)
  show "apart s (snd (clear_all_pressed_events w s))"
    by (auto simp: clear_all_pressed_events_def apart_def Let_def split_beta)
  show "apart s (snd (handle_supported w s), [])"
    by (auto simp: handle_supported_def apart_def split_beta split: option.split)
  show "apart s (snd (perform_key_event w args s), [])"
    by (auto simp: perform_key_event_def apart_def Let_def split_beta)
  show "apart s (snd (set_text_input_setup w args s), [])"
    by (auto simp: set_text_input_setup_def apart_def split_beta split: option.split flvalue.split)
qed

lemma fresh_taking:
  assumes "calls_ok [] s" "c \<notin> fst ` set (lp_closures s)"
  shows "taking c [] s \<and> mset (map fst (others c s)) = waiting s"
proof -
  have "others c s = lp_closures s" using assms(2) by (auto simp: others_def filter_id_conv rev_image_eqI)
  then show ?thesis using assms(1) by (simp add: calls_ok_def taking_def waiting_def)
qed

lemma run_method_answers:
  assumes "run_method w c m args s = Some r" "calls_ok [] s" "c \<notin> fst ` set (lp_closures s)"
  shows "answers_call c s r"
proof -
  note t = fresh_taking [OF assms(2,3)]
  have d: "delivers (add_mset c (waiting s)) [] s (finish_call w c k n v s)"
    "delivers (add_mset c (waiting s)) [] s (prepare_call w c ToPrepare s)"
    "delivers (add_mset c (waiting s)) [] s (available_call w c ToAvailable s)"
    "delivers (add_mset c (waiting s)) [] s (available_call w c (TypeWhenAvailable n v) s)" for k n v
    using t finish_call_delivers [of c "[]" s w k n v] prepare_call_delivers [of c "[]" s ToPrepare w]
      available_call_delivers [of c "[]" s ToAvailable w] available_call_delivers [of c "[]" s "TypeWhenAvailable n v" w]
    by simp_all
  have x: "answers_call c s (handle_text w c b args s)" for b
    using d by (auto simp: handle_text_def Let_def answers_call_def apart_def split: option.split flvalue.split)
  have mo: "moused s q = Some r \<Longrightarrow> answers_call c s r" for q
    by (auto simp: moused_def now_def answers_call_def apart_def split: option.splits)
  show ?thesis
    using assms(1) d x mo handlers_apart [where s = s]
    by (cases m) (auto simp: answers_call_def now_def split_beta apart_def)
qed

definition plugin_ok :: "linux_plugin \<Rightarrow> bool" where
  "plugin_ok s \<longleftrightarrow> calls_ok [] s \<and> (\<forall>c \<in># waiting s. c < lp_next s)"

definition accounts :: "linux_plugin \<Rightarrow> linux_plugin \<times> plugin_effect list \<Rightarrow> bool" where
  "accounts s r \<longleftrightarrow> plugin_ok (fst r) \<and> lp_next s \<le> lp_next (fst r)
     \<and> responses (snd r) + waiting (fst r) = waiting s + mset [lp_next s..<lp_next (fst r)]"

lemma accounts_refl: "plugin_ok s \<Longrightarrow> accounts s (s, [])"
  by (simp add: accounts_def)

lemma accounts_trans:
  assumes "accounts s (s1, o1)" "accounts s1 (s2, o2)"
  shows "accounts s (s2, o1 @ o2)"
proof -
  have "mset [lp_next s..<lp_next s2] = mset [lp_next s..<lp_next s1] + mset [lp_next s1..<lp_next s2]"
    using assms by (metis accounts_def fst_conv le_iff_add mset_append upt_add_eq_append)
  then show ?thesis using assms by (auto simp: accounts_def ac_simps)
qed

definition settled :: "linux_plugin \<Rightarrow> linux_plugin \<times> plugin_effect list \<Rightarrow> bool" where
  "settled s r \<longleftrightarrow> accounts s r \<and> lp_next (fst r) = lp_next s"

fun is_method :: "plugin_event \<Rightarrow> bool" where
  "is_method (Method _ _) = True"
| "is_method _ = False"

lemma apart_settled: "plugin_ok s \<Longrightarrow> apart s r \<Longrightarrow> settled s r"
  by (auto simp: settled_def accounts_def apart_def plugin_ok_def calls_ok_def waiting_def)

lemma delivers_settled:
  assumes "plugin_ok s" "delivers (waiting s) [] s r"
  shows "settled s r"
proof -
  have "waiting (fst r) \<subseteq># waiting s" using assms(2) by (metis delivers_def mset_subset_eq_add_right)
  then show ?thesis using assms by (auto simp: settled_def accounts_def delivers_def plugin_ok_def dest: mset_subset_eqD)
qed

lemma method_accounts:
  assumes "plugin_ok s" "handle_method_call w name args s = Some r"
  shows "accounts s r \<and> lp_next (fst r) = Suc (lp_next s)"
proof -
  define s0 where "s0 = s\<lparr>lp_next := Suc (lp_next s)\<rparr>"
  have s0: "calls_ok [] s0" "lp_next s \<notin> fst ` set (lp_closures s0)" "waiting s0 = waiting s" "lp_next s0 = Suc (lp_next s)"
    using assms(1) by (auto simp: s0_def plugin_ok_def calls_ok_def waiting_def)
  have lt: "\<forall>c \<in># waiting s. c < Suc (lp_next s)" using assms(1) by (auto simp: plugin_ok_def less_Suc_eq)
  obtain v where v: "(case map_of linux_methods name of None \<Rightarrow> now (NotImplemented, s0, []) | Some m \<Rightarrow> run_method w (lp_next s) m args s0) = Some v"
    and r: "(case v of (None, s1, os) \<Rightarrow> Some (s1, os) | (Some response, s1, os) \<Rightarrow> Some (s1, os @ [Respond (lp_next s) response])) = Some r"
    using assms(2) by (auto simp: handle_method_call_def s0_def [symmetric] Let_def split: if_splits option.splits)
  have a: "answers_call (lp_next s) s0 v"
  proof (cases "map_of linux_methods name")
    case None
    then show ?thesis using v by (auto simp: now_def answers_call_def apart_def)
  next
    case (Some m)
    then show ?thesis using v run_method_answers [OF _ s0(1,2), of w m args v] by simp
  qed
  obtain p s1 os where p: "v = (p, s1, os)" by (metis prod_cases3)
  show ?thesis
  proof (cases p)
    case None
    then have "delivers (add_mset (lp_next s) (waiting s)) [] s0 (s1, os)" "r = (s1, os)" using a r p s0 by (simp_all add: answers_call_def)
    moreover from this have "waiting s1 \<subseteq># add_mset (lp_next s) (waiting s)"
      by (metis delivers_def fst_conv mset_subset_eq_add_right snd_conv)
    then have "\<forall>c \<in># waiting s1. c < Suc (lp_next s)" using lt by (auto dest!: mset_subset_eqD)
    ultimately show ?thesis using s0(4) by (simp add: accounts_def plugin_ok_def delivers_def)
  next
    case (Some response)
    then have "apart s0 (s1, os)" "r = (s1, os @ [Respond (lp_next s) response])" using a r p by (simp_all add: answers_call_def)
    moreover from this have "waiting s1 = waiting s" using s0(3) by (simp add: apart_def waiting_def)
    ultimately show ?thesis using lt s0 by (auto simp: accounts_def plugin_ok_def apart_def calls_ok_def)
  qed
qed

lemma event_settled:
  assumes "plugin_ok s" "plugin_step (w, e) s = Some r" "\<not> is_method e"
  shows "settled s r"
proof -
  have id: "settled s (s, [])" by (rule apart_settled [OF assms(1)]) (simp add: apart_def)
  show ?thesis
  proof (cases e)
    case (Method name args)
    then show ?thesis using assms(3) by simp
  next
    case (TextEvent t)
    obtain b os where t: "text_step (pw_text w) t (lp_text s) = (b, os)" by fastforce
    have "settled s (deliver (on_available_effect w) os (s\<lparr>lp_text := b\<rparr>))" if "asks t = []"
    proof -
      have st: "settles [] (lp_text s) (b, os)"
        using text_step_settles [of "lp_text s" t "pw_text w"] assms(1) t that by (simp add: plugin_ok_def calls_ok_def)
      then have "calls_ok (os @ []) (s\<lparr>lp_text := b\<rparr>)"
        using assms(1) by (simp add: settles_def plugin_ok_def calls_ok_def)
      then have "delivers (waiting (s\<lparr>lp_text := b\<rparr>)) [] (s\<lparr>lp_text := b\<rparr>) (deliver (on_available_effect w) os (s\<lparr>lp_text := b\<rparr>))"
        by (intro deliver_delivers [where P = "\<lambda>_. True"] on_available_effect_delivers) (simp_all add: list_all_iff)
      then have "delivers (waiting s) [] s (deliver (on_available_effect w) os (s\<lparr>lp_text := b\<rparr>))"
        by (simp add: delivers_def waiting_def)
      then show ?thesis by (rule delivers_settled [OF assms(1)])
    qed
    then show ?thesis using assms(2) id t by (auto simp: TextEvent split: if_splits)
  next
    case (PointerEvent c)
    have "settled s (captured_step p os s)" for p os
      using captured_step_apart by (blast intro: apart_settled [OF assms(1)])
    then show ?thesis using assms(2) id PointerEvent
      by (auto simp: split_beta split: option.splits if_splits)
  next
    case (KeyboardEvent c)
    have "settled s (s\<lparr>lp_immersive := i\<rparr>, map ImmersiveIO os)" for i os
      by (rule apart_settled [OF assms(1)]) (simp add: apart_def)
    then show ?thesis using assms(2) id KeyboardEvent
      by (auto simp: split_beta split: option.splits immersive_op.splits)
  next
    case (FocusEvent g n)
    then show ?thesis using assms(2) id apart_settled [OF assms(1), of r] by (auto simp: apart_def split: if_splits)
  next
    case FocusTimer
    have "responses (map (\<lambda>(request, active, secure). InvokeDecision request active (if active then Some secure else None)) ds) = {#}" for ds
      by (induction ds) auto
    then have "apart s (focus_timer w s)" by (simp add: focus_timer_def apart_def split_beta)
    then have "settled s (focus_timer w s)" by (rule apart_settled [OF assms(1)])
    then show ?thesis using assms(2) FocusTimer by simp
  next
    case ChannelGone
    then show ?thesis using assms(2) apart_settled [OF assms(1), of r] by (auto simp: apart_def)
  next
    case Dispose
    have "apart s (plugin_dispose w s)"
      using captured_step_apart [of s] by (auto simp: plugin_dispose_def apart_def Let_def split_beta split: option.split)
    then have "settled s (plugin_dispose w s)" by (rule apart_settled [OF assms(1)])
    then show ?thesis using assms(2) id Dispose by (auto simp: split: if_splits)
  qed
qed

lemma plugin_step_accounts:
  assumes "plugin_ok s" "plugin_step we s = Some r"
  shows "accounts s r \<and> lp_next (fst r) = lp_next s + (if is_method (snd we) then 1 else 0)"
proof -
  obtain w e where we: "we = (w, e)" by fastforce
  show ?thesis
  proof (cases "is_method e")
    case True
    then obtain name args where "e = Method name args" by (cases e) auto
    then show ?thesis using assms method_accounts [OF assms(1)] by (auto simp: we split: if_splits)
  next
    case False
    then show ?thesis using event_settled [OF assms(1), of w e r] assms(2) by (simp add: we settled_def)
  qed
qed

lemma plugin_run_next:
  "plugin_ok s \<Longrightarrow> plugin_run es s = Some r \<Longrightarrow> lp_next (fst r) = lp_next s + length (filter (is_method \<circ> snd) es)"
proof (induction es arbitrary: s r)
  case (Cons we es)
  obtain s1 o1 s2 o2 where a: "plugin_step we s = Some (s1, o1)" "plugin_run es s1 = Some (s2, o2)" "r = (s2, o1 @ o2)"
    using Cons.prems(2) by (auto split: option.splits)
  have "plugin_ok s1" "lp_next s1 = lp_next s + (if is_method (snd we) then 1 else 0)"
    using plugin_step_accounts [OF Cons.prems(1) a(1)] by (auto simp: accounts_def)
  then show ?case using Cons.IH [OF _ a(2)] a(3) by simp
qed auto

lemma plugin_run_accounts: "plugin_ok s \<Longrightarrow> plugin_run es s = Some r \<Longrightarrow> accounts s r"
  by (rule plugin.run_ok [where legal = plugin_ok])
    (auto intro: accounts_refl accounts_trans dest: plugin_step_accounts, simp add: accounts_def)

lemma new_plugin_ok: "plugin_ok (new_plugin u p view)" "waiting (new_plugin u p view) = {#}" "lp_next (new_plugin u p view) = 0"
  using new_backend_ok by (simp_all add: new_plugin_def plugin_ok_def calls_ok_def waiting_def)

section \<open>Where the movements go\<close>

text \<open>The steps of a run with the effects of each.\<close>

fun plugin_log :: "(plugin_world \<times> plugin_event) list \<Rightarrow> linux_plugin \<Rightarrow> (plugin_event \<times> plugin_effect list) list option" where
  "plugin_log [] s = Some []"
| "plugin_log (e # es) s =
     (case plugin_step e s of None \<Rightarrow> None
      | Some (s1, o1) \<Rightarrow> map_option (\<lambda>l. (snd e, o1) # l) (plugin_log es s1))"

fun succeeds :: "plugin_effect \<Rightarrow> bool" where
  "succeeds (Respond _ (Success _)) = True"
| "succeeds _ = False"

text \<open>The grant of the last lock: its generation and its native sender, 0 for none.\<close>

definition granted :: "plugin_event \<Rightarrow> plugin_effect list \<Rightarrow> (int \<times> int) option \<Rightarrow> (int \<times> int) option" where
  "granted e os grant = (case e of
     Method name args \<Rightarrow>
       if name = ''lockCursor'' then
         (case arg args ''generation'' of
            Some (FlInt gen) \<Rightarrow>
              if list_ex succeeds os
              then Some (gen, case arg args ''relativeSender'' of Some (FlInt i) \<Rightarrow> take_bit 64 i | _ \<Rightarrow> 0) else None
          | _ \<Rightarrow> grant)
       else grant
   | _ \<Rightarrow> grant)"

fun permitted :: "(int \<times> int) option \<Rightarrow> plugin_effect \<Rightarrow> bool" where
  "permitted grant (SendRelative v _ _) = (v \<noteq> 0 \<and> (\<exists>gen. grant = Some (gen, v)))"
| "permitted grant (InvokeMotion gen _ _) = (grant = Some (gen, 0))"
| "permitted grant _ = True"

fun permitted_log :: "(plugin_event \<times> plugin_effect list) list \<Rightarrow> (int \<times> int) option \<Rightarrow> bool" where
  "permitted_log [] grant = True"
| "permitted_log ((e, os) # l) grant = (list_all (permitted grant) os \<and> permitted_log l (granted e os grant))"

text \<open>The part of the state the movements depend on.\<close>

definition route :: "linux_plugin \<Rightarrow> (int option) option \<times> int \<times> bool" where
  "route s = (map_option (\<lambda>p. if pc_requested p then Some (pc_generation p) else None) (lp_capture s),
     lp_relative_sender s, lp_send s)"

definition routed :: "(int \<times> int) option \<Rightarrow> linux_plugin \<Rightarrow> bool" where
  "routed grant s \<longleftrightarrow> (case route s of
     (Some (Some gen), sender, known) \<Rightarrow> grant = Some (gen, sender) \<and> (sender \<noteq> 0 \<longrightarrow> known)
   | (_, sender, _) \<Rightarrow> sender = 0)"

fun quiet :: "plugin_effect \<Rightarrow> bool" where
  "quiet (SendRelative _ _ _) = False"
| "quiet (InvokeMotion _ _ _) = False"
| "quiet _ = True"

definition still :: "linux_plugin \<Rightarrow> linux_plugin \<times> plugin_effect list \<Rightarrow> bool" where
  "still s r \<longleftrightarrow> lp_capture (fst r) = lp_capture s \<and> lp_relative_sender (fst r) = lp_relative_sender s
     \<and> lp_send (fst r) = lp_send s \<and> list_all quiet (snd r)"

lemma quiet_permitted: "list_all quiet os \<Longrightarrow> list_all (permitted g) os"
proof -
  have "quiet e \<Longrightarrow> permitted g e" for e by (cases e) simp_all
  then show "list_all quiet os \<Longrightarrow> list_all (permitted g) os" by (auto simp: list_all_iff)
qed

lemma quiet_maps [simp]: "list_all quiet (map MouseIO cs)" "list_all quiet (map ImmersiveIO is)"
  by (simp_all add: list_all_iff)

lemma deliver_still: "(\<And>e s. still s (f e s)) \<Longrightarrow> still s (deliver f es s)"
  by (rule callbacks.run_ok [where legal = "\<lambda>_. True"]) (auto simp: still_def)

lemma respond_kept_still: "still s (respond_kept c r s)"
  by (simp add: respond_kept_def still_def)

lemma on_finish_effect_still: "still s (on_finish_effect e s)"
  using respond_kept_still by (auto simp: on_finish_effect_def still_def split: text_effect.split)

lemma still_from:
  "still t r \<Longrightarrow> lp_capture t = lp_capture s \<Longrightarrow> lp_relative_sender t = lp_relative_sender s \<Longrightarrow> lp_send t = lp_send s \<Longrightarrow>
   still s r"
  by (simp add: still_def)

lemma finish_call_still: "still s (finish_call w c t n v s)"
  unfolding finish_call_def split_beta Let_def
  by (rule still_from [OF deliver_still [of on_finish_effect, OF on_finish_effect_still]]) (simp_all add: keep_call_def)

lemma on_prepare_effect_still: "still s (on_prepare_effect w e s)"
  using respond_kept_still finish_call_still on_finish_effect_still
  by (auto simp: on_prepare_effect_def still_def split: text_effect.split option.split closure.split)

lemma prepare_call_still: "still s (prepare_call w c k s)"
  unfolding prepare_call_def split_beta Let_def
  by (rule still_from [OF deliver_still [of "on_prepare_effect w", OF on_prepare_effect_still]]) (simp_all add: keep_call_def)

lemma on_available_effect_still: "still s (on_available_effect w e s)"
proof -
  have "still s (respond_kept c r (s\<lparr>lp_keyboard := k\<rparr>))" for c r k
    by (rule still_from [OF respond_kept_still]) simp_all
  moreover have "still s (s, [])" by (simp add: still_def)
  ultimately show ?thesis
    using respond_kept_still finish_call_still prepare_call_still on_prepare_effect_still
    by (auto simp: on_available_effect_def split_beta split: text_effect.split option.split closure.split)
qed

lemma available_call_still: "still s (available_call w c k s)"
  unfolding available_call_def split_beta Let_def
  by (rule still_from [OF deliver_still [of "on_available_effect w", OF on_available_effect_still]]) (simp_all add: keep_call_def)

lemma handle_text_still: "still s (snd (handle_text w c b args s))"
  using finish_call_still available_call_still
  by (auto simp: handle_text_def Let_def still_def split: option.split flvalue.split)

text \<open>What an operation of the capture other than a lock does to the routing.\<close>

definition mild :: "Capture \<Rightarrow> Capture \<times> capture_effect list \<Rightarrow> bool" where
  "mild p r \<longleftrightarrow> pc_generation (fst r) = pc_generation p \<and> (pc_requested (fst r) \<longrightarrow> pc_requested p)
     \<and> (pc_requested p \<and> \<not> pc_requested (fst r) \<longleftrightarrow> (\<exists>g reason. StateChanged g False reason \<in> set (snd r)))
     \<and> (\<forall>g dx dy. Motion g dx dy \<in> set (snd r) \<longrightarrow> pc_requested (fst r) \<and> g = pc_generation p)"

lemma mild_refl: "mild p (p, [])"
  by (simp add: mild_def)

lemma release_mild: "mild p (LinuxPointer.release gone reason p)"
  by (auto simp: mild_def LinuxPointer.release_def)

lemma release_mild':
  "pc_requested q = pc_requested p \<Longrightarrow> pc_generation q = pc_generation p \<Longrightarrow> mild p (LinuxPointer.release gone reason q)"
  by (auto simp: mild_def LinuxPointer.release_def)

lemma confirm_mild: "mild p (confirm p)"
  by (auto simp: mild_def confirm_def hide_def Let_def)

lemma supported_mild:
  assumes "supported w p = (ok, p')"
  shows "mild p (p', []) \<and> pc_requested p' = pc_requested p"
  using supported_same [OF assms] by (auto simp: mild_def)

lemma raw_motion_mild:
  assumes "pc_active p \<longrightarrow> pc_requested p"
  shows "mild p (raw_motion axes source m vs p) \<and> pc_active (fst (raw_motion axes source m vs p)) = pc_active p
    \<and> pc_requested (fst (raw_motion axes source m vs p)) = pc_requested p"
  using assms
  by (cases "raw_axes 0 m vs (Fin 0, Fin 0)")
    (auto simp: mild_def raw_motion_def relative_device_def Let_def split: option.splits)

lemma mild_trans:
  assumes "mild p (p1, o1)" "mild p1 (p2, o2)" "pc_requested p1 = pc_requested p" "pc_requested p2 = pc_requested p1"
  shows "mild p (p2, o1 @ o2)"
  using assms unfolding mild_def fst_conv snd_conv set_append Un_iff by metis

lemma raw_motions_mild:
  "pc_active p \<longrightarrow> pc_requested p \<Longrightarrow> mild p (raw_motions es p) \<and> pc_requested (fst (raw_motions es p)) = pc_requested p"
proof (induction es p rule: raw_motions.induct)
  case (2 axes source m vs es p)
  obtain p1 o1 where a: "raw_motion axes source m vs p = (p1, o1)" by fastforce
  obtain p2 o2 where b: "raw_motions es p1 = (p2, o2)" by fastforce
  have m: "mild p (p1, o1)" "pc_active p1 = pc_active p" "pc_requested p1 = pc_requested p"
    using raw_motion_mild [OF "2.prems", of axes source m vs] a by simp_all
  with "2.IH" [OF a [symmetric] refl] "2.prems" b have "mild p1 (p2, o2)" "pc_requested p2 = pc_requested p1" by simp_all
  then show ?case using mild_trans [OF m(1)] m by (simp add: a b)
qed (simp add: mild_refl)

lemma pointer_event_mild:
  assumes "pointer_event e" "capture_ok p"
  shows "mild p (capture_step e p)"
proof (cases e)
  case (ReadRaw gone hangup es)
  then show ?thesis using release_mild' [of "p\<lparr>pc_raw_source := False\<rparr>" p] raw_motions_mild [of p es] assms(2) mild_refl
    by (auto simp: read_raw_def capture_ok_def)
next
  case (TimedOut gone)
  then show ?thesis using release_mild' [of "p\<lparr>pc_timeout := False\<rparr>" p] mild_refl by (simp add: timed_out_def)
next
  case (WaylandMotion dx dy)
  then show ?thesis using assms(2) by (auto simp: wayland_motion_def mild_def capture_ok_def)
next
  case (RegistryRemoved gone n)
  obtain p1 o1 where r: "LinuxPointer.release gone ''unsupported'' p = (p1, o1)" by fastforce
  have "mild p (p1, o1)" using release_mild [of p gone "''unsupported''"] r by simp
  then show ?thesis using RegistryRemoved r by (auto simp: registry_removed_def mild_def Let_def)
next
  case ViewGone
  then show ?thesis by (simp add: mild_def)
qed (use assms release_mild confirm_mild mild_refl in simp_all)

fun unlocks :: "capture_effect \<Rightarrow> bool" where
  "unlocks (StateChanged _ locked _) = (\<not> locked)"
| "unlocks _ = False"

fun moves :: "capture_effect \<Rightarrow> bool" where
  "moves (Motion _ _ _) = True"
| "moves _ = False"

lemma deliver_capture_state:
  "fst (deliver on_capture_effect os s) = s\<lparr>lp_relative_sender := (if list_ex unlocks os then 0 else lp_relative_sender s)\<rparr>"
proof (induction os arbitrary: s)
  case (Cons e os)
  have "fst (on_capture_effect e s) = s\<lparr>lp_relative_sender := (if unlocks e then 0 else lp_relative_sender s)\<rparr>"
    by (cases e) (auto simp: on_capture_effect_def)
  then show ?case using Cons by (simp add: split_beta)
qed simp

lemma deliver_capture_quiet: "\<not> list_ex moves os \<Longrightarrow> list_all quiet (snd (deliver on_capture_effect os s))"
proof (induction os arbitrary: s)
  case (Cons e os)
  then have "list_all quiet (snd (on_capture_effect e s))" by (cases e) (auto simp: on_capture_effect_def)
  then show ?case using Cons by (simp add: split_beta)
qed simp

lemma deliver_capture_permitted:
  assumes "\<not> list_ex unlocks os" "\<forall>gen dx dy. Motion gen dx dy \<in> set os \<longrightarrow> grant = Some (gen, lp_relative_sender s)"
    "lp_relative_sender s \<noteq> 0 \<longrightarrow> lp_send s"
  shows "list_all (permitted grant) (snd (deliver on_capture_effect os s))"
  using assms
proof (induction os arbitrary: s)
  case (Cons e os)
  have s1: "fst (on_capture_effect e s) = s" using Cons.prems(1) by (cases e) (auto simp: on_capture_effect_def)
  have "list_all (permitted grant) (snd (on_capture_effect e s))"
    using Cons.prems by (cases e) (auto simp: on_capture_effect_def)
  moreover have "list_all (permitted grant) (snd (deliver on_capture_effect os s))"
    using Cons.prems by (intro Cons.IH) auto
  ultimately show ?case using s1 by (simp add: split_beta)
qed simp

lemma unlocks_iff: "list_ex unlocks os \<longleftrightarrow> (\<exists>g reason. StateChanged g False reason \<in> set os)"
  unfolding list_ex_iff by (metis unlocks.elims(2) unlocks.simps(1))

lemma moves_iff: "list_ex moves os \<longleftrightarrow> (\<exists>g dx dy. Motion g dx dy \<in> set os)"
  unfolding list_ex_iff by (metis moves.elims(2) moves.simps(1))

text \<open>An operation of the capture that is no lock.\<close>

lemma captured_step_routed:
  assumes "routed grant s" "lp_capture s = Some p" "mild p (p', os)"
  shows "list_all (permitted grant) (snd (captured_step p' os s)) \<and> routed grant (fst (captured_step p' os s))"
proof -
  let ?s = "s\<lparr>lp_capture := Some p'\<rparr>"
  have st: "fst (captured_step p' os s) = ?s\<lparr>lp_relative_sender := (if list_ex unlocks os then 0 else lp_relative_sender s)\<rparr>"
    by (simp add: captured_step_def deliver_capture_state)
  have r: "routed grant (fst (captured_step p' os s))"
    using assms unlocks_iff [of os] unfolding st by (auto simp: routed_def route_def mild_def split: if_splits)
  have "list_all (permitted grant) (snd (deliver on_capture_effect os ?s))"
  proof (cases "list_ex moves os")
    case True
    then have q: "pc_requested p'" "pc_requested p" "\<not> list_ex unlocks os"
      using assms(3) moves_iff [of os] unlocks_iff [of os] by (auto simp: mild_def)
    have g: "grant = Some (pc_generation p, lp_relative_sender s)" "lp_relative_sender s \<noteq> 0 \<longrightarrow> lp_send s"
      using assms(1,2) q by (simp_all add: routed_def route_def)
    show ?thesis
      by (rule deliver_capture_permitted [OF q(3)]) (use assms(3) g in \<open>auto simp: mild_def\<close>)
  next
    case False
    then show ?thesis by (intro quiet_permitted deliver_capture_quiet)
  qed
  then show ?thesis using r by (simp add: captured_step_def)
qed

definition steady :: "linux_plugin \<Rightarrow> bool" where
  "steady s \<longleftrightarrow> (\<forall>p. lp_capture s = Some p \<longrightarrow> capture_ok p)"

definition routes :: "(int \<times> int) option \<Rightarrow> (int \<times> int) option \<Rightarrow> linux_plugin \<times> plugin_effect list \<Rightarrow> bool" where
  "routes grant grant' r \<longleftrightarrow> list_all (permitted grant) (snd r) \<and> routed grant' (fst r) \<and> steady (fst r)"

lemma still_routes: "still s r \<Longrightarrow> routed grant s \<Longrightarrow> steady s \<Longrightarrow> routes grant grant r"
  by (auto simp: still_def routes_def routed_def route_def steady_def quiet_permitted)

lemma captured_step_capture: "lp_capture (fst (captured_step p os s)) = Some p"
  by (simp add: captured_step_def deliver_capture_state)

lemma captured_step_routes:
  assumes "routed grant s" "steady s" "lp_capture s = Some p" "mild p (capture_step op p)"
  shows "routes grant grant (captured_step (fst (capture_step op p)) (snd (capture_step op p)) s)"
proof -
  have "capture_ok (fst (capture_step op p))"
    using capture_step_follows [of p op] assms(2,3) by (simp add: steady_def follows_def)
  then show ?thesis
    using captured_step_routed [OF assms(1,3), of "fst (capture_step op p)" "snd (capture_step op p)"] assms(4)
    by (simp add: routes_def steady_def captured_step_capture)
qed

lemma reseed_mild: "mild p (reseed_and_release w x y p)"
proof -
  have r: "mild p (fst (LinuxPointer.release g ''released'' q), pre @ snd (LinuxPointer.release g ''released'' q))"
    if "pc_requested q = pc_requested p" "pc_generation q = pc_generation p" "\<not> list_ex unlocks pre" "\<not> list_ex moves pre" for g q pre
    using release_mild' [OF that(1,2), of g "''released''"] that(3,4) unfolding mild_def unlocks_iff moves_iff by auto
  note r0 = r [of p "[]"]
  show ?thesis
  proof (cases "rw_offset w")
    case None
    then show ?thesis using r0 by (simp add: reseed_and_release_def)
  next
    case (Some o1)
    then show ?thesis using r0
      by (auto simp: reseed_and_release_def split_beta intro!: r)
        (auto intro!: r [of _ "[_, _]", simplified])
  qed
qed

lemma requests_mild:
  "mild p (capture_step (UnlockGeneration gone g) p)"
  "mild p (capture_step (Reseed w g x y) p)"
  "mild p (capture_step (Unlock gone reason) p)"
  using release_mild reseed_mild mild_refl by (simp_all add: unlock_generation_def unlock_and_reseed_generation_def)

lemma handle_unlock_routes:
  "routed grant s \<Longrightarrow> steady s \<Longrightarrow> routes grant grant (snd (handle_unlock w args s))"
  "routed grant s \<Longrightarrow> steady s \<Longrightarrow> routes grant grant (snd (handle_reseed w args s))"
  using captured_step_routes [OF _ _ _ requests_mild(1)] captured_step_routes [OF _ _ _ requests_mild(2)]
    still_routes [of s "(s, [])" grant]
  by (auto simp: handle_unlock_def handle_reseed_def split_beta still_def split: option.split flvalue.split)

text \<open>A lock: it ends the earlier one, moves nothing, and holds the new generation exactly if it succeeds.\<close>

lemma lock_effects:
  assumes "lock w gen p = (error, p', os)" "capture_ok p"
  shows "\<not> list_ex moves os \<and> (pc_requested p \<longrightarrow> list_ex unlocks os)
    \<and> (if error = [] then pc_requested p' \<and> pc_generation p' = gen else \<not> pc_requested p')"
proof -
  obtain p1 o1 where re: "LinuxPointer.release (lw_gone w) ''replaced'' p = (p1, o1)" by fastforce
  obtain ok p2 where su: "supported (lw_support w) p1 = (ok, p2)" by fastforce
  have rel: "\<not> pc_requested (fst (LinuxPointer.release g r q)) \<and> \<not> list_ex moves (snd (LinuxPointer.release g r q))
      \<and> (pc_requested q \<longrightarrow> list_ex unlocks (snd (LinuxPointer.release g r q)))" for g r q
    unfolding LinuxPointer.release_def by simp
  have p1: "\<not> pc_requested p1" "\<not> list_ex moves o1" "pc_requested p \<longrightarrow> list_ex unlocks o1"
    using rel [of "lw_gone w" "''replaced''" p] re by simp_all
  have p2: "\<not> pc_requested p2" using supported_mild [OF su] p1 by simp
  have hid: "pc_requested (fst (hide q)) = pc_requested q \<and> pc_generation (fst (hide q)) = pc_generation q
      \<and> \<not> list_ex moves (snd (hide q))" for q
    by (simp add: hide_def)
  have con: "pc_requested (fst (confirm q)) = pc_requested q \<and> pc_generation (fst (confirm q)) = pc_generation q
      \<and> \<not> list_ex moves (snd (confirm q))" for q
    by (auto simp: confirm_def hide_def Let_def)
  show ?thesis
    using assms(1) p1 p2 rel hid con
    by (auto simp: lock_def re su Let_def split_beta split: if_splits)
qed

lemma sender_updates:
  "lp_capture (t\<lparr>lp_relative_sender := k\<rparr>) = lp_capture t" "lp_capture (t\<lparr>lp_relative_sender := k, lp_send := b\<rparr>) = lp_capture t"
  by simp_all

text \<open>The grant after a call of \<open>lockCursor\<close>, read off its arguments and its response.\<close>

definition lock_grant :: "flvalue option \<Rightarrow> fl_response \<Rightarrow> (int \<times> int) option \<Rightarrow> (int \<times> int) option" where
  "lock_grant args response grant =
     (case arg args ''generation'' of
        Some (FlInt gen) \<Rightarrow>
          (case response of
             Success _ \<Rightarrow> Some (gen, case arg args ''relativeSender'' of Some (FlInt i) \<Rightarrow> take_bit 64 i | _ \<Rightarrow> 0)
           | _ \<Rightarrow> None)
      | _ \<Rightarrow> grant)"

lemma handle_lock_routes:
  assumes "routed grant s" "steady s" "handle_lock w args s = (response, s', os)"
  shows "routes grant (lock_grant args response grant) (s', os)"
proof (cases "\<exists>gen p. arg args ''generation'' = Some (FlInt gen) \<and> lp_capture s = Some p")
  case False
  then have u: "s' = s" "os = []" "response = bad_args ''Linux capture requires a generation and a view''"
    using assms(3) by (auto simp: handle_lock_def split: option.splits flvalue.splits)
  have "lp_capture s = None" if "arg args ''generation'' = Some (FlInt gen)" for gen using False that by (cases "lp_capture s") auto
  then have "routed (lock_grant args response grant) s"
    using assms(1) u by (auto simp: lock_grant_def bad_args_def routed_def route_def split: option.splits flvalue.splits)
  then show ?thesis using u assms(2) by (simp add: routes_def)
next
  case True
  then obtain gen p where g: "arg args ''generation'' = Some (FlInt gen)" and p: "lp_capture s = Some p" by blast
  have ok: "capture_ok p" using assms(2) p by (simp add: steady_def)
  define sender where "sender = (case arg args ''relativeSender'' of Some (FlInt i) \<Rightarrow> take_bit 64 i | _ \<Rightarrow> 0)"
  note u = assms(3) [unfolded handle_lock_def g p option.case flvalue.case prod.case Let_def, folded sender_def]
  have z: "lp_relative_sender s = 0" if "\<not> pc_requested p" using assms(1) p that by (simp add: routed_def route_def)
  show ?thesis
  proof (cases "sender \<noteq> 0 \<and> (\<not> pw_valid w \<or> \<not> pw_send w \<or> \<not> pw_sender_valid w sender)")
    case True
    obtain p1 os1 where re: "LinuxPointer.release (pw_gone w) ''invalid_sender'' p = (p1, os1)" by fastforce
    obtain s1 o1 where cs: "captured_step p1 os1 s = (s1, o1)" by fastforce
    have r: "response = bad_args ''Native relative sender is unavailable''" "s' = s1\<lparr>lp_relative_sender := 0\<rparr>" "os = o1"
      using u [unfolded if_P [OF True] re cs prod.case] by simp_all
    have st: "capture_step (Unlock (pw_gone w) ''invalid_sender'') p = (p1, os1)" using re by simp
    have "routes grant grant (s1, o1)"
      using captured_step_routes [OF assms(1,2) p requests_mild(3), of "pw_gone w" "''invalid_sender''"] st cs by simp
    moreover have "lp_capture s1 = Some p1" using captured_step_capture [of p1 os1 s] cs by simp
    moreover have "\<not> pc_requested p1" using re by (auto simp: LinuxPointer.release_def)
    ultimately show ?thesis using r g
      by (simp add: routes_def routed_def route_def steady_def lock_grant_def bad_args_def)
  next
    case False
    obtain error p1 os1 where lo: "lock (pw_lock w) gen p = (error, p1, os1)" by (metis prod_cases3)
    obtain s1 o1 where cs: "captured_step p1 os1 s = (s1, o1)" by fastforce
    note le = lock_effects [OF lo ok]
    have o1: "list_all (permitted grant) o1"
      using deliver_capture_quiet [of os1 "s\<lparr>lp_capture := Some p1\<rparr>"] le cs by (auto simp: captured_step_def intro: quiet_permitted)
    have s1: "s1 = s\<lparr>lp_capture := Some p1, lp_relative_sender := (if list_ex unlocks os1 then 0 else lp_relative_sender s)\<rparr>"
      using deliver_capture_state [of os1 "s\<lparr>lp_capture := Some p1\<rparr>"] cs by (simp add: captured_step_def)
    have k: "capture_ok p1" using capture_step_follows [OF ok, of "Lock (pw_lock w) gen"] lo by (simp add: follows_def)
    have sd: "sender \<noteq> 0 \<longrightarrow> pw_send w" using False by blast
    show ?thesis
    proof (cases "error = []")
      case True
      then have "response = success_null" "s' = s1\<lparr>lp_relative_sender := sender, lp_send := pw_send w\<rparr>" "os = o1"
        using u [unfolded if_not_P [OF False] lo cs prod.case] True by simp_all
      then show ?thesis using o1 s1 k le True g sd
        by (simp add: routes_def routed_def route_def steady_def lock_grant_def success_null_def sender_def)
    next
      case er: False
      then have "response = Failure ''POINTER_CAPTURE_FAILED'' error" "s' = s1" "os = o1"
        using u [unfolded if_not_P [OF False] lo cs prod.case] er by simp_all
      then show ?thesis using o1 s1 k le er g z
        by (auto simp: routes_def routed_def route_def steady_def lock_grant_def)
    qed
  qed
qed

lemma handle_supported_routes:
  assumes "routed grant s" "steady s" "handle_supported w s = (r, s')"
  shows "routes grant grant (s', [])"
proof (cases "lp_capture s")
  case None
  then show ?thesis using assms by (simp add: handle_supported_def routes_def)
next
  case (Some p)
  obtain ok p1 where su: "supported (pw_support w) p = (ok, p1)" by fastforce
  have "capture_ok p1" using supported_follows(1) [OF su] assms(2) Some by (simp add: steady_def follows_def)
  moreover have "pc_requested p1 = pc_requested p" "pc_generation p1 = pc_generation p"
    using supported_mild [OF su] by (simp_all add: mild_def)
  ultimately show ?thesis using assms Some su
    by (auto simp: handle_supported_def routes_def routed_def route_def steady_def)
qed

lemma others_still:
  "still s (snd (handle_immersive w args s))"
  "still s (snd (handle_mouse_press w args s))"
  "still s (snd (clear_all_pressed_events w s))"
  "still s (snd (perform_key_event w args s), [])"
  "still s (snd (set_text_input_setup w args s), [])"
  by (auto simp: handle_immersive_def handle_mouse_press_def clear_all_pressed_events_def perform_key_event_def
      set_text_input_setup_def still_def Let_def split_beta split: option.split flvalue.split)

lemma run_method_routes:
  assumes "run_method w c m args s = Some (r, s', os)" "m \<noteq> LockCursor" "routed grant s" "steady s"
  shows "routes grant grant (s', os)"
proof -
  note st = still_routes [OF _ assms(3,4)]
  have id: "still s (s, [])" by (simp add: still_def)
  have mo: "moused s q = Some (r, s', os) \<Longrightarrow> still s (s', os)" for q
    by (auto simp: moused_def now_def still_def split: option.splits)
  have fo: "still s (s\<lparr>lp_edit_focus := f\<rparr>, [])" for f by (simp add: still_def)
  show ?thesis
  proof (cases m)
    case LockCursor
    then show ?thesis using assms(2) by simp
  next
    case UnlockCursorAndReseed
    then show ?thesis using assms(1) handle_unlock_routes(2) [OF assms(3,4), of w args] by (auto simp: now_def split: prod.splits)
  next
    case UnlockCursor
    then show ?thesis using assms(1) handle_unlock_routes(1) [OF assms(3,4), of w args] by (auto simp: now_def split: prod.splits)
  next
    case IsPointerCaptureSupported
    then show ?thesis using assms(1) handle_supported_routes [OF assms(3,4)] by (auto simp: now_def split: prod.splits)
  next
    case MousePress
    then show ?thesis using assms(1) st [OF others_still(2), of w args] by (auto simp: now_def split: prod.splits)
  next
    case PutImmersiveMode
    then show ?thesis using assms(1) st [OF others_still(1), of w args] by (auto simp: now_def split: prod.splits)
  next
    case ClearAllPressedEvents
    then show ?thesis using assms(1) st [OF others_still(3), of w] by (auto simp: now_def split: prod.splits)
  next
    case KeyPress
    then show ?thesis using assms(1) st [OF others_still(4), of w args] by (auto simp: now_def split: prod.splits)
  next
    case SetTextInputSetup
    then show ?thesis using assms(1) st [OF others_still(5), of w args] by (auto simp: now_def split: prod.splits)
  next
    case FinishTextInput
    then show ?thesis using assms(1) st [OF handle_text_still, of w c True args] by auto
  next
    case PerformTextInput
    then show ?thesis using assms(1) st [OF handle_text_still, of w c False args] by auto
  next
    case IsTextInputAvailable
    then show ?thesis using assms(1) st [OF available_call_still, of w c ToAvailable] by auto
  next
    case PrepareTextInput
    then show ?thesis using assms(1) st [OF prepare_call_still, of w c ToPrepare] by auto
  qed (use assms(1) st id fo mo in \<open>auto simp: now_def split: prod.splits\<close>)
qed

lemma lock_method: "map_of linux_methods name = Some LockCursor \<longleftrightarrow> name = ''lockCursor''"
proof
  assume "map_of linux_methods name = Some LockCursor"
  then have "(name, LockCursor) \<in> set linux_methods" by (rule map_of_SomeD)
  then show "name = ''lockCursor''" by (auto simp: linux_methods_def)
qed (simp add: linux_methods_def)

lemma no_response: "responses os = {#} \<Longrightarrow> \<not> list_ex succeeds os"
proof (induction os)
  case (Cons e os)
  then show ?case by (cases e) simp_all
qed simp

lemma method_routes:
  assumes "handle_method_call w name args s = Some (s', os)" "routed grant s" "steady s"
  shows "routes grant (granted (Method name args) os grant) (s', os)"
proof -
  define s0 where "s0 = s\<lparr>lp_next := Suc (lp_next s)\<rparr>"
  have s0: "routed grant s0" "steady s0" using assms(2,3) by (simp_all add: s0_def routed_def route_def steady_def)
  note h = assms(1) [unfolded handle_method_call_def Let_def, folded s0_def]
  show ?thesis
  proof (cases "name = ''lockCursor''")
    case True
    obtain response s1 o1 where l: "handle_lock w args s0 = (response, s1, o1)" by (metis prod_cases3)
    have "map_of linux_methods name = Some LockCursor" using True by (simp add: lock_method)
    then have r: "s' = s1" "os = o1 @ [Respond (lp_next s) response]" using h l by (simp_all add: now_def)
    have "\<not> list_ex succeeds o1" using handlers_apart(1) [of s0 w args] l by (intro no_response) (simp add: apart_def)
    then have "granted (Method name args) os grant = lock_grant args response grant"
      using r True by (cases response) (simp_all add: granted_def lock_grant_def split: option.split flvalue.split)
    moreover have "list_all (permitted grant) [Respond (lp_next s) response]" by simp
    ultimately show ?thesis using handle_lock_routes [OF s0 l] r by (simp add: routes_def)
  next
    case False
    then have g: "granted (Method name args) os grant = grant" by (simp add: granted_def)
    show ?thesis
    proof (cases "map_of linux_methods name")
      case None
      then show ?thesis using h s0 g by (auto simp: now_def routes_def)
    next
      case (Some m)
      then have "m \<noteq> LockCursor" using False lock_method by blast
      then show ?thesis using h Some g run_method_routes [OF _ _ s0, of w "lp_next s" m args]
        by (auto simp: routes_def split: option.splits)
    qed
  qed
qed

lemma plugin_step_routes:
  assumes "plugin_step (w, e) s = Some (s', os)" "routed grant s" "steady s"
  shows "routes grant (granted e os grant) (s', os)"
proof -
  note st = still_routes [OF _ assms(2,3)]
  have id: "routes grant grant (s, [])" by (rule st) (simp add: still_def)
  show ?thesis
  proof (cases e)
    case (Method name args)
    then show ?thesis using assms method_routes by (simp split: if_splits)
  next
    case (TextEvent t)
    have "still s (deliver (on_available_effect w) os (s\<lparr>lp_text := b\<rparr>))" for os b
      by (rule still_from [OF deliver_still [OF on_available_effect_still]]) simp_all
    then have "routes grant grant (deliver (on_available_effect w) os (s\<lparr>lp_text := b\<rparr>))" for os b by (rule st)
    then show ?thesis using assms(1) id TextEvent by (auto simp: granted_def split_beta split: if_splits) metis+
  next
    case (PointerEvent c)
    then show ?thesis
    proof (cases "lp_capture s")
      case (Some p)
      then have "pointer_event c \<Longrightarrow> mild p (capture_step c p)"
        using pointer_event_mild assms(3) by (simp add: steady_def)
      then show ?thesis using assms(1) id PointerEvent Some captured_step_routes [OF assms(2,3) Some, of c]
        by (auto simp: granted_def split_beta split: if_splits)
    qed (use assms(1) id in \<open>simp add: granted_def\<close>)
  next
    case (KeyboardEvent c)
    have "still s (s\<lparr>lp_immersive := i\<rparr>, map ImmersiveIO os)" for i os by (simp add: still_def)
    then show ?thesis using assms(1) st id KeyboardEvent
      by (auto simp: granted_def split_beta split: option.splits immersive_op.splits)
  next
    case (FocusEvent g n)
    have "still s (s\<lparr>lp_edit_focus := f\<rparr>, [])" for f by (simp add: still_def)
    then show ?thesis using assms(1) st id FocusEvent by (auto simp: granted_def split: if_splits)
  next
    case FocusTimer
    have "still s (focus_timer w s)" by (auto simp: focus_timer_def still_def split_beta list_all_iff)
    then show ?thesis using assms(1) st [of "(s', os)"] FocusTimer by (simp add: granted_def)
  next
    case ChannelGone
    have "still s (s\<lparr>lp_channel := False\<rparr>, [])" by (simp add: still_def)
    then show ?thesis using assms(1) st ChannelGone by (auto simp: granted_def)
  next
    case Dispose
    show ?thesis
    proof (cases "lp_disposed s \<or> lp_capture s = None")
      case True
      have "routed grant (s\<lparr>lp_immersive := i, lp_capture := None, lp_edit_focus := f, lp_channel := b, lp_disposed := b'\<rparr>)"
        if "lp_capture s = None" for i f b b'
        using assms(2) that by (simp add: routed_def route_def)
      then show ?thesis using True assms(1) id Dispose
        by (auto simp: granted_def plugin_dispose_def routes_def steady_def quiet_permitted Let_def split: if_splits option.splits)
    next
      case False
      then obtain p where p: "lp_capture s = Some p" by blast
      obtain p1 os1 where re: "LinuxPointer.release (pw_gone w) ''disposed'' p = (p1, os1)" by fastforce
      obtain s2 o2 where cs: "captured_step p1 os1 s = (s2, o2)" by fastforce
      have k: "routes grant grant (s2, o2)"
        using captured_step_routes [OF assms(2,3) p requests_mild(3), of "pw_gone w" "''disposed''"] re cs by simp
      have "lp_capture s2 = Some p1" "\<not> pc_requested p1"
        using captured_step_capture [of p1 os1 s] cs re by (auto simp: LinuxPointer.release_def)
      then have "lp_relative_sender s2 = 0" using k by (simp add: routes_def routed_def route_def)
      then show ?thesis using k False p assms(1) Dispose re cs
        by (auto simp: granted_def plugin_dispose_def routes_def routed_def route_def steady_def quiet_permitted
            split: option.splits)
    qed
  qed
qed

lemma plugin_log_permitted:
  "routed grant s \<Longrightarrow> steady s \<Longrightarrow> plugin_log es s = Some l \<Longrightarrow> permitted_log l grant"
proof (induction es arbitrary: s l grant)
  case (Cons we es)
  obtain w e where we: "we = (w, e)" by fastforce
  obtain s1 o1 l' where a: "plugin_step (w, e) s = Some (s1, o1)" "plugin_log es s1 = Some l'" "l = (e, o1) # l'"
    using Cons.prems(3) we by (auto split: option.splits)
  from plugin_step_routes [OF a(1) Cons.prems(1,2)] have "list_all (permitted grant) o1"
    "routed (granted e o1 grant) s1" "steady s1" by (simp_all add: routes_def)
  with Cons.IH a(2,3) show ?case by simp
qed simp

section \<open>Properties\<close>

lemma new_plugin_routed: "routed None (new_plugin u p view)" "steady (new_plugin u p view)"
  using new_capture_ok by (auto simp: new_plugin_def routed_def route_def steady_def new_capture_def)

text \<open>C5: every call of a method is answered exactly once, or is kept and then waits for exactly one text
  request that is still owed: when no text transaction is under way, no call is left unanswered.\<close>

theorem every_call_answered_once:
  assumes "plugin_run es (new_plugin u overrides view) = Some (s, out)"
  shows "responses out + waiting s = mset [0..<length (filter (is_method \<circ> snd) es)]
    \<and> mset (map request_of (lp_closures s)) = outstanding (lp_text s)"
  using plugin_run_accounts [OF new_plugin_ok(1) assms] plugin_run_next [OF new_plugin_ok(1) assms]
  by (simp add: new_plugin_ok accounts_def plugin_ok_def calls_ok_def)

definition demo_plugin_world :: plugin_world where
  "demo_plugin_world = \<lparr>pw_version = ''6'', pw_rank = (\<lambda>_. 0), pw_create_mouse = None, pw_vertical_wheel = (False, True),
     pw_horizontal_wheel = (False, True), pw_key_mappings = (\<lambda>_. None), pw_create_keyboard = Some 0, pw_strerror = (\<lambda>_. []),
     pw_display = None, pw_pointer = None, pw_text = demo_world,
     pw_settings = \<lparr>sw_settings = False, sw_writable = False, sw_set = False, sw_parse = (\<lambda>_. None), sw_getenv = (\<lambda>_. None)\<rparr>,
     pw_atspi = (True, True), pw_desktop = (\<lambda>_ _. Missing), pw_late = (\<lambda>_. False),
     pw_target = (\<lambda>_ _ _. \<lparr>ta_states = None, ta_password = None, ta_contains = None\<rparr>),
     pw_immersive = \<lparr>iw_toplevel = True, iw_mapped = True, iw_active = True, iw_native = True, iw_kind = X11Display,
       iw_grab = True, iw_events = [], iw_roundtrip = True, iw_seat_surface = True, iw_still_there = True, iw_still_active = True\<rparr>,
     pw_support = lw_support demo_lock, pw_lock = demo_lock,
     pw_reseed = \<lparr>rw_session = X11, rw_gone = False, rw_offset = None, rw_width = 0, rw_height = 0, rw_to_native = (\<lambda>p. p),
       rw_scale = 1, rw_lround = (\<lambda>_. 0)\<rparr>,
     pw_gone = False, pw_valid = True, pw_send = True, pw_sender_valid = (\<lambda>_. True)\<rparr>"

text \<open>A text is typed before the bus has answered: the call waits, the answer is a failure; another call is answered at once.\<close>

definition demo_plugin_events :: "(plugin_world \<times> plugin_event) list" where
  "demo_plugin_events = map (Pair demo_plugin_world)
     [Method ''performTextInput'' (Some (FlMap [(''text'', FlString ''hi'')])), Method ''isRunningAsSystem'' None,
      TextEvent (Answer 0 None)]"

lemma demo_plugin_run:
  "\<exists>s. plugin_run demo_plugin_events (new_plugin \<lparr>ui_answers = [], ui_log = []\<rparr> [] False) = Some (s,
     [TextIO (DBusCall RegisterComponent), Respond 1 (success_bool True),
      Respond 0 (Failure ''TEXT_INPUT_UNAVAILABLE'' ''IBus text transaction failed.'')])"
  by (simp add: demo_plugin_events_def demo_plugin_world_def demo_world_def new_plugin_def handle_method_call_def
      linux_methods_def handle_text_def arg_def fl_value_lookup_string_def valid_text_def available_call_def available_def
      new_backend_def dbus_call_def keep_call_def on_available_effect_def on_prepare_effect_def on_finish_effect_def now_def
      initialized_def finish_call_def finish_def respond_kept_def Let_def of_char_def)

theorem every_call_answered_once_witness:
  "\<exists>s out. plugin_run demo_plugin_events (new_plugin \<lparr>ui_answers = [], ui_log = []\<rparr> [] False) = Some (s, out)
     \<and> responses out + waiting s = {#0, 1#} \<and> responses out = {#0, 1#}"
proof -
  obtain s where r: "plugin_run demo_plugin_events (new_plugin \<lparr>ui_answers = [], ui_log = []\<rparr> [] False) = Some (s,
     [TextIO (DBusCall RegisterComponent), Respond 1 (success_bool True),
      Respond 0 (Failure ''TEXT_INPUT_UNAVAILABLE'' ''IBus text transaction failed.'')])" using demo_plugin_run by blast
  from every_call_answered_once [OF r] r show ?thesis
    by (intro exI conjI) (assumption, simp_all add: demo_plugin_events_def)
qed

text \<open>C10: movements of a captured pointer are delivered on behalf of the last \<open>lockCursor\<close> call that
  succeeded and of no other: to the native sender it named, if it named one, and otherwise to Dart under its
  generation; none is delivered after a lock that failed.\<close>

theorem motions_follow_grants:
  assumes "plugin_log es (new_plugin u overrides view) = Some l"
  shows "permitted_log l None"
  by (rule plugin_log_permitted [OF new_plugin_routed assms])

definition demo_motion_events :: "(plugin_world \<times> plugin_event) list" where
  "demo_motion_events = map (Pair demo_plugin_world)
     [Method ''lockCursor'' (Some (FlMap [(''generation'', FlInt 7), (''relativeSender'', FlInt 9)])),
      PointerEvent (ReadRaw False False [([0, 1], 11, [True, True], [Fin 3, Fin 4])]),
      Method ''lockCursor'' (Some (FlMap [(''generation'', FlInt 8)])),
      PointerEvent (ReadRaw False False [([0, 1], 11, [True], [Fin 5])])]"

theorem motions_follow_grants_witness:
  "\<exists>l. plugin_log demo_motion_events (new_plugin \<lparr>ui_answers = [], ui_log = []\<rparr> [] True) = Some l
     \<and> permitted_log l None \<and> snd (l ! 1) = [SendRelative 9 (Fin 3) (Fin 4)] \<and> snd (l ! 3) = [InvokeMotion 8 (Fin 5) (Fin 0)]"
proof -
  obtain l where l: "plugin_log demo_motion_events (new_plugin \<lparr>ui_answers = [], ui_log = []\<rparr> [] True) = Some l"
    "snd (l ! 1) = [SendRelative 9 (Fin 3) (Fin 4)]" "snd (l ! 3) = [InvokeMotion 8 (Fin 5) (Fin 0)]"
    by (simp add: demo_motion_events_def demo_plugin_world_def new_plugin_def handle_method_call_def
      linux_methods_def handle_lock_def arg_def fl_value_lookup_string_def captured_step_def lock_def demo_lock_def
      new_capture_def LinuxPointer.release_def supported_def hide_def confirm_def read_raw_def
      raw_motion_def relative_device_def is_finite_def on_capture_effect_def now_def take_bit_int_def success_null_def Let_def)
  from motions_follow_grants [OF l(1)] l show ?thesis by blast
qed

end
