(* ===== verification/WinCursor.thy ===== *)
theory WinCursor
  imports WinInput Displays
begin

text \<open>
  The cursor lock of \<open>windows/hardware_simulator_plugin.cpp\<close>, in which a viewer's pointer is held at one
  place, hidden, and followed by its raw movements, and the table of monitors with the callbacks that
  are told how many there are. What Windows and the registrar answer is the record \<open>lock_env\<close>; a window
  handle is a number, 0 for null. Calls that change something of Windows or of Dart are returned in order,
  with their answer where the code looks at it. \<open>le_client\<close> answers for the given window or, for null, for
  the one the keyboard blocker knows.
\<close>

section \<open>State and calls\<close>

definition WM_MOUSEMOVE :: u32 where "WM_MOUSEMOVE = 0x200"
definition WM_INPUT :: u32 where "WM_INPUT = 0xFF"
definition WM_DPICHANGED :: u32 where "WM_DPICHANGED = 0x2E0"
definition WM_DISPLAYCHANGE :: u32 where "WM_DISPLAYCHANGE = 0x7E"
definition kCursorReseedExtraInfo :: u64 where "kCursorReseedExtraInfo = 0x43505052"

datatype plugin_call =
    ClipCursorTo rect bool
  | Unclip
  | ShowCursor bool
  | RegisterRawInput nat bool
  | RemoveRawInput
  | RegisterDelegate int
  | UnregisterDelegate int
  | Sent effect
  | CursorMoved dbl dbl
  | DisplayCountChanged int int

text \<open>\<open>registrar_->GetView()\<close> may be null, \<open>None\<close>; otherwise it has a native window.\<close>

record lock_env =
  le_registrar :: bool
  le_view :: "nat option"
  le_parent :: "nat \<Rightarrow> nat"
  le_runner_window :: nat
  le_flutter_window :: nat
  le_cursor_pos :: "point option"
  le_clip_ok :: bool
  le_register_ok :: bool
  le_proc_id :: int
  le_client :: "nat \<Rightarrow> client_area option"

record cursor_lock =
  cursor_locked :: bool
  clip_rect :: rect
  locked_cursor_pos :: point
  main_window :: nat
  raw_input_registered :: bool
  raw_input_proc_id :: "int option"
  static_monitors :: "monitor_info list"
  display_count_callbacks :: "(int \<times> (int \<Rightarrow> plugin_call)) list"

definition init_cursor_lock :: cursor_lock where
  "init_cursor_lock = \<lparr>cursor_locked = False,
     clip_rect = \<lparr>r_left = 0, r_top = 0, r_right = 0, r_bottom = 0\<rparr>,
     locked_cursor_pos = \<lparr>p_x = 0, p_y = 0\<rparr>, main_window = 0, raw_input_registered = False,
     raw_input_proc_id = None, static_monitors = [], display_count_callbacks = []\<rparr>"

section \<open>Monitors\<close>

text \<open>A corner plus an unsigned length is an unsigned sum, stored as a \<open>LONG\<close>.\<close>

definition MonitorInfo_of :: "display_world \<Rightarrow> nat \<Rightarrow> adapter_device \<Rightarrow> monitor_info option" where
  "MonitorInfo_of world deviceNum displayDevice =
     (if \<not> has_flag (ad_StateFlags displayDevice) DEVICE_ACTIVE then None
      else case dw_current world (ad_DeviceName displayDevice) of
          None \<Rightarrow> None
        | Some devMode \<Rightarrow> Some \<lparr>
            mi_rect = \<lparr>r_left = dmX devMode, r_top = dmY devMode,
              r_right = sint (of_int (dmX devMode) + dmPelsWidth devMode),
              r_bottom = sint (of_int (dmY devMode) + dmPelsHeight devMode)\<rparr>,
            mi_is_primary = has_flag (ad_StateFlags displayDevice) DEVICE_PRIMARY,
            mi_screen_id = int deviceNum\<rparr>)"

definition notifyDisplayCountChanged :: "int \<Rightarrow> cursor_lock \<Rightarrow> plugin_call list" where
  "notifyDisplayCountChanged displayCount s =
     map (\<lambda>(callbackId, callback). callback displayCount) (display_count_callbacks s)"

fun enumerated :: "display_world \<Rightarrow> nat \<Rightarrow> adapter_device list \<Rightarrow> monitor_info list" where
  "enumerated world deviceNum [] = []"
| "enumerated world deviceNum (d # ds) =
     (case MonitorInfo_of world deviceNum d of None \<Rightarrow> [] | Some info \<Rightarrow> [info]) @ enumerated world (Suc deviceNum) ds"

definition UpdateStaticMonitors :: "display_world \<Rightarrow> cursor_lock \<Rightarrow> cursor_lock \<times> plugin_call list" where
  "UpdateStaticMonitors world s =
     (let s = s\<lparr>static_monitors := enumerated world 0 (dw_adapters world)\<rparr>
      in (s, notifyDisplayCountChanged (int (length (static_monitors s))) s))"

definition addDisplayCountChangedCallback :: "(int \<Rightarrow> plugin_call) \<Rightarrow> int \<Rightarrow> cursor_lock \<Rightarrow> cursor_lock" where
  "addDisplayCountChangedCallback callback callbackId s =
     s\<lparr>display_count_callbacks := oput callbackId callback (display_count_callbacks s)\<rparr>"

definition removeDisplayCountChangedCallback :: "int \<Rightarrow> cursor_lock \<Rightarrow> cursor_lock" where
  "removeDisplayCountChangedCallback callbackId s =
     s\<lparr>display_count_callbacks := odel callbackId (display_count_callbacks s)\<rparr>"

text \<open>The only callback there is, made by the handler of the method \<open>addDisplayCountChangedCallback\<close>.\<close>

definition display_count_lambda :: "int \<Rightarrow> int \<Rightarrow> plugin_call" where
  "display_count_lambda callbackID displayCount = DisplayCountChanged callbackID displayCount"

section \<open>Raw input\<close>

text \<open>\<open>None\<close> is the use of a null view.\<close>

definition SubscribeToRawInputData :: "lock_env \<Rightarrow> cursor_lock \<Rightarrow> (cursor_lock \<times> plugin_call list \<times> bool) option" where
  "SubscribeToRawInputData e s =
     (if raw_input_registered s then Some (s, [], True)
      else if \<not> le_registrar e then Some (s, [], False)
      else case le_view e of
          None \<Rightarrow> None
        | Some view \<Rightarrow>
            let register = RegisterRawInput (le_parent e view) (le_register_ok e) in
            if \<not> le_register_ok e then Some (s, [register], False)
            else Some (s\<lparr>raw_input_proc_id := Some (le_proc_id e), raw_input_registered := True\<rparr>,
                       [register, RegisterDelegate (le_proc_id e)], True))"

definition UnsubscribeFromRawInputData :: "cursor_lock \<Rightarrow> cursor_lock \<times> plugin_call list" where
  "UnsubscribeFromRawInputData s =
     (if \<not> raw_input_registered s then (s, [])
      else
        let (s, calls) = (case raw_input_proc_id s of
              Some proc_id \<Rightarrow> (s\<lparr>raw_input_proc_id := None\<rparr>, [UnregisterDelegate proc_id])
            | None \<Rightarrow> (s, []))
        in (s\<lparr>raw_input_registered := False\<rparr>, calls @ [RemoveRawInput]))"

text \<open>
  What the delegate of the raw input does with a message: \<open>raw\<close> is the movement that
  \<open>GetRawInputData\<close> read, if it succeeded for a mouse. \<open>channel_\<close> is set before any handler exists and
  never reset, so its tests succeed. The delegate of the registration only looks at the display
  messages. Neither consumes the message.
\<close>

definition display_message :: "u32 \<Rightarrow> bool" where
  "display_message message \<longleftrightarrow> message = WM_DPICHANGED \<or> message = WM_DISPLAYCHANGE"

definition raw_input_delegate ::
  "u32 \<Rightarrow> (u32 \<times> u32) option \<Rightarrow> display_world \<Rightarrow> cursor_lock \<Rightarrow> cursor_lock \<times> plugin_call list" where
  "raw_input_delegate message raw world s =
     (let moved = (if message = WM_INPUT \<and> cursor_locked s
                   then (case raw of
                       Some (deltaX, deltaY) \<Rightarrow> [CursorMoved (Fin (of_int (sint deltaX))) (Fin (of_int (sint deltaY)))]
                     | None \<Rightarrow> [])
                   else []);
          (s, told) = (if display_message message then UpdateStaticMonitors world s else (s, []))
      in (s, moved @ told))"

definition dpi_delegate :: "u32 \<Rightarrow> display_world \<Rightarrow> cursor_lock \<Rightarrow> cursor_lock \<times> plugin_call list" where
  "dpi_delegate message world s = (if display_message message then UpdateStaticMonitors world s else (s, []))"

text \<open>The window procedure in front of Flutter's view: \<open>Some 0\<close> consumes the message.\<close>

definition CursorReseedSubclassProc :: "u32 \<Rightarrow> u64 \<Rightarrow> int option" where
  "CursorReseedSubclassProc message extra_info =
     (if message = WM_MOUSEMOVE \<and> extra_info = kCursorReseedExtraInfo then Some 0 else None)"

section \<open>The lock\<close>

definition FindFlutterWindow :: "lock_env \<Rightarrow> nat option" where
  "FindFlutterWindow e =
     (if \<not> le_registrar e then Some 0
      else case le_view e of
          None \<Rightarrow> None
        | Some view \<Rightarrow> Some
            (if le_parent e view \<noteq> 0 then le_parent e view
             else if le_runner_window e \<noteq> 0 then le_runner_window e
             else le_flutter_window e))"

text \<open>\<open>Inl\<close>: a null view is used, after these calls.\<close>

definition LockCursor :: "lock_env \<Rightarrow> cursor_lock \<Rightarrow> plugin_call list + cursor_lock \<times> plugin_call list" where
  "LockCursor e s =
     (if cursor_locked s then Inr (s, [])
      else case FindFlutterWindow e of
          None \<Rightarrow> Inl []
        | Some window \<Rightarrow>
            let s = s\<lparr>main_window := window\<rparr> in
            if window = 0 then Inr (s, [])
            else case le_cursor_pos e of
                None \<Rightarrow> Inr (s, [])
              | Some pos \<Rightarrow>
                  let area = \<lparr>r_left = p_x pos, r_top = p_y pos, r_right = p_x pos, r_bottom = p_y pos\<rparr>;
                      s = s\<lparr>locked_cursor_pos := pos, clip_rect := area\<rparr>;
                      clip = ClipCursorTo area (le_clip_ok e)
                  in if \<not> le_clip_ok e then Inr (s, [clip])
                     else case SubscribeToRawInputData e (s\<lparr>cursor_locked := True\<rparr>) of
                         None \<Rightarrow> Inl [clip, ShowCursor False]
                       | Some (s, calls, subscribed) \<Rightarrow>
                           if \<not> subscribed
                           then Inr (s\<lparr>cursor_locked := False\<rparr>,
                                  [clip, ShowCursor False] @ calls @ [Unclip, ShowCursor True])
                           else Inr (s, [clip, ShowCursor False] @ calls))"

definition UnlockCursor :: "cursor_lock \<Rightarrow> cursor_lock \<times> plugin_call list" where
  "UnlockCursor s =
     (if \<not> cursor_locked s then (s, [])
      else
        let (s, calls) = UnsubscribeFromRawInputData s
        in (s\<lparr>cursor_locked := False, main_window := 0\<rparr>, [Unclip] @ calls @ [ShowCursor True]))"

text \<open>
  \<open>Inl\<close>: the conversion of the target position has no defined result; by then the pointer has been
  released and the raw input removed.
\<close>

definition UnlockCursorAndReseed ::
  "win_env \<Rightarrow> lock_env \<Rightarrow> dbl \<Rightarrow> dbl \<Rightarrow> cursor_lock \<Rightarrow> plugin_call list + cursor_lock \<times> plugin_call list" where
  "UnlockCursorAndReseed we e window_x_percent window_y_percent s =
     (if \<not> cursor_locked s then Inr (s, [])
      else
        let (s, calls) = UnsubscribeFromRawInputData s; target = main_window s; s = s\<lparr>cursor_locked := False\<rparr>
        in case performMouseMoveToWindowPosition we window_x_percent window_y_percent (le_client e target) True of
             None \<Rightarrow> Inl ([Unclip] @ calls)
           | Some moves \<Rightarrow>
               Inr (s\<lparr>main_window := 0\<rparr>, [Unclip] @ calls @ map Sent moves @ [ShowCursor True]))"

definition CleanupCursorLock :: "cursor_lock \<Rightarrow> cursor_lock \<times> plugin_call list" where
  "CleanupCursorLock s = (if cursor_locked s then UnlockCursor s else (s, []))"

section \<open>Runs\<close>

text \<open>
  Everything that can happen to the lock. The raw input delegate only runs while it is registered,
  which is what the registrar documents of delegates.
\<close>

datatype lock_step =
    Lock lock_env
  | Unlock
  | UnlockAndReseed win_env lock_env dbl dbl
  | Cleanup
  | RawDelegate u32 "(u32 \<times> u32) option" display_world
  | DpiDelegate u32 display_world
  | UpdateMonitors display_world
  | AddCallback int
  | RemoveCallback int

fun lock_do :: "lock_step \<Rightarrow> cursor_lock \<Rightarrow> (cursor_lock \<times> plugin_call list) option" where
  "lock_do (Lock e) s = defined (LockCursor e s)"
| "lock_do Unlock s = Some (UnlockCursor s)"
| "lock_do (UnlockAndReseed we e x y) s = defined (UnlockCursorAndReseed we e x y s)"
| "lock_do Cleanup s = Some (CleanupCursorLock s)"
| "lock_do (RawDelegate message raw world) s =
     Some (if raw_input_proc_id s \<noteq> None then raw_input_delegate message raw world s else (s, []))"
| "lock_do (DpiDelegate message world) s = Some (dpi_delegate message world s)"
| "lock_do (UpdateMonitors world) s = Some (UpdateStaticMonitors world s)"
| "lock_do (AddCallback callbackId) s =
     Some (addDisplayCountChangedCallback (display_count_lambda callbackId) callbackId s, [])"
| "lock_do (RemoveCallback callbackId) s = Some (removeDisplayCountChangedCallback callbackId s, [])"

fun lock_run :: "lock_step list \<Rightarrow> cursor_lock \<Rightarrow> (cursor_lock \<times> plugin_call list) option" where
  "lock_run [] s = Some (s, [])"
| "lock_run (e # es) s =
     (case lock_do e s of None \<Rightarrow> None
      | Some (s1, o1) \<Rightarrow> (case lock_run es s1 of None \<Rightarrow> None | Some (s2, o2) \<Rightarrow> Some (s2, o1 @ o2)))"

interpretation cursor_locks: partial_machine lock_do lock_run
  by unfold_locales simp_all

section \<open>What the calls do to the pointer\<close>

text \<open>
  The viewer's pointer as the calls change it: held or free, hidden or visible, its raw movements
  delivered or not, and the delegate that receives them. A call out of place has no result: holding a
  pointer that is held, hiding it twice, showing it while it is held or its movements are delivered,
  reporting a movement when not all of this is in force, or placing it when it is not hidden and free.
\<close>

record pointer_view =
  v_clipped :: bool
  v_hidden :: bool
  v_raw :: bool
  v_delegate :: "int option"

definition free_pointer :: pointer_view where
  "free_pointer = \<lparr>v_clipped = False, v_hidden = False, v_raw = False, v_delegate = None\<rparr>"

fun observe :: "plugin_call \<Rightarrow> pointer_view \<Rightarrow> pointer_view option" where
  "observe (ClipCursorTo area ok) v = (if v_clipped v \<or> v_hidden v then None else Some (v\<lparr>v_clipped := ok\<rparr>))"
| "observe Unclip v = (if v_clipped v then Some (v\<lparr>v_clipped := False\<rparr>) else None)"
| "observe (ShowCursor shown) v =
     (if shown then if v_hidden v \<and> \<not> v_clipped v \<and> \<not> v_raw v then Some (v\<lparr>v_hidden := False\<rparr>) else None
      else if v_clipped v \<and> \<not> v_hidden v then Some (v\<lparr>v_hidden := True\<rparr>) else None)"
| "observe (RegisterRawInput window ok) v = (if v_raw v \<or> \<not> v_hidden v then None else Some (v\<lparr>v_raw := ok\<rparr>))"
| "observe RemoveRawInput v = (if v_raw v \<and> v_delegate v = None then Some (v\<lparr>v_raw := False\<rparr>) else None)"
| "observe (RegisterDelegate i) v =
     (if v_raw v \<and> v_delegate v = None then Some (v\<lparr>v_delegate := Some i\<rparr>) else None)"
| "observe (UnregisterDelegate i) v = (if v_delegate v = Some i then Some (v\<lparr>v_delegate := None\<rparr>) else None)"
| "observe (Sent out) v = (if v_hidden v \<and> \<not> v_clipped v \<and> \<not> v_raw v then Some v else None)"
| "observe (CursorMoved dx dy) v =
     (if v_clipped v \<and> v_hidden v \<and> v_raw v \<and> v_delegate v \<noteq> None then Some v else None)"
| "observe (DisplayCountChanged callbackID displayCount) v = Some v"

fun watch :: "plugin_call list \<Rightarrow> pointer_view \<Rightarrow> pointer_view option" where
  "watch [] v = Some v"
| "watch (c # cs) v = (case observe c v of None \<Rightarrow> None | Some v' \<Rightarrow> watch cs v')"

definition view_of :: "cursor_lock \<Rightarrow> pointer_view" where
  "view_of s = \<lparr>v_clipped = cursor_locked s, v_hidden = cursor_locked s, v_raw = raw_input_registered s,
     v_delegate = raw_input_proc_id s\<rparr>"

definition callbacks_wf :: "(int \<times> (int \<Rightarrow> plugin_call)) list \<Rightarrow> bool" where
  "callbacks_wf m \<longleftrightarrow> okeys m \<and> list_all (\<lambda>(i, callback). callback = display_count_lambda i) m"

lemma callbacks_wf_oput: "callbacks_wf m \<Longrightarrow> callbacks_wf (oput i (display_count_lambda i) m)"
proof -
  assume m: "callbacks_wf m"
  have "list_all (\<lambda>(i, callback). callback = display_count_lambda i) (oput i (display_count_lambda i) m)"
    using m unfolding callbacks_wf_def by (induction m) (auto simp: okeys_def)
  with m show ?thesis by (simp add: callbacks_wf_def okeys_oput)
qed

lemma callbacks_wf_odel: "callbacks_wf m \<Longrightarrow> callbacks_wf (odel i m)"
  by (auto simp: callbacks_wf_def okeys_odel list_all_iff) (auto simp: odel_def)

lemma callbacks_told:
  "callbacks_wf m \<Longrightarrow> map (\<lambda>(i, callback). callback n) m = map (\<lambda>(i, callback). DisplayCountChanged i n) m"
  by (induction m) (auto simp: callbacks_wf_def display_count_lambda_def okeys_def)

text \<open>Lock, registration and delegate go together; the held area is the one point.\<close>

definition lock_wf :: "cursor_lock \<Rightarrow> bool" where
  "lock_wf s \<longleftrightarrow>
     (raw_input_registered s \<longleftrightarrow> cursor_locked s) \<and> (raw_input_proc_id s \<noteq> None \<longleftrightarrow> cursor_locked s) \<and>
     (cursor_locked s \<longrightarrow> main_window s \<noteq> 0 \<and>
        clip_rect s = \<lparr>r_left = p_x (locked_cursor_pos s), r_top = p_y (locked_cursor_pos s),
          r_right = p_x (locked_cursor_pos s), r_bottom = p_y (locked_cursor_pos s)\<rparr>) \<and>
     callbacks_wf (display_count_callbacks s)"

lemma init_lock_wf: "lock_wf init_cursor_lock"
  by (simp add: lock_wf_def init_cursor_lock_def okeys_def callbacks_wf_def)

lemma watch_append: "watch (cs @ ds) v = (case watch cs v of None \<Rightarrow> None | Some v' \<Rightarrow> watch ds v')"
  by (induction cs arbitrary: v) (auto split: option.splits)

text \<open>A step keeps the invariant, and its calls take the pointer from the old state to the new.\<close>

definition coherent :: "cursor_lock \<Rightarrow> cursor_lock \<times> plugin_call list \<Rightarrow> bool" where
  "coherent s r \<longleftrightarrow> lock_wf (fst r) \<and> watch (snd r) (view_of s) = Some (view_of (fst r))"

lemma coherent_refl: "lock_wf s \<Longrightarrow> coherent s (s, [])"
  by (simp add: coherent_def)

lemma coherent_trans: "coherent s (s1, o1) \<Longrightarrow> coherent s1 (s2, o2) \<Longrightarrow> coherent s (s2, o1 @ o2)"
  by (simp add: coherent_def watch_append)

lemma watch_told: "watch (map (\<lambda>(i, callback). DisplayCountChanged i n) m) v = Some v"
  by (induction m) auto

lemma UpdateStaticMonitors_coherent: "lock_wf s \<Longrightarrow> coherent s (UpdateStaticMonitors world s)"
  by (simp add: coherent_def UpdateStaticMonitors_def notifyDisplayCountChanged_def lock_wf_def view_of_def
      callbacks_told watch_told Let_def)

lemma dpi_delegate_coherent: "lock_wf s \<Longrightarrow> coherent s (dpi_delegate message world s)"
  by (simp add: dpi_delegate_def UpdateStaticMonitors_coherent coherent_refl)

lemma raw_input_delegate_coherent:
  assumes "lock_wf s"
  shows "coherent s (raw_input_delegate message raw world s)"
proof -
  let ?moved = "if message = WM_INPUT \<and> cursor_locked s
    then (case raw of Some (dx, dy) \<Rightarrow> [CursorMoved (Fin (of_int (sint dx))) (Fin (of_int (sint dy)))] | None \<Rightarrow> [])
    else []"
  have "coherent s (s, ?moved)"
    using assms by (auto simp: coherent_def lock_wf_def view_of_def split: option.splits)
  from coherent_trans [OF this, of "fst (dpi_delegate message world s)" "snd (dpi_delegate message world s)"]
  have "coherent s (fst (dpi_delegate message world s), ?moved @ snd (dpi_delegate message world s))"
    using dpi_delegate_coherent [OF assms] by simp
  moreover have "raw_input_delegate message raw world s =
      (fst (dpi_delegate message world s), ?moved @ snd (dpi_delegate message world s))"
    by (simp add: raw_input_delegate_def dpi_delegate_def split: prod.splits)
  ultimately show ?thesis by simp
qed

lemma callbacks_coherent:
  "lock_wf s \<Longrightarrow> coherent s (addDisplayCountChangedCallback (display_count_lambda i) i s, [])"
  "lock_wf s \<Longrightarrow> coherent s (removeDisplayCountChangedCallback i s, [])"
  by (simp_all add: coherent_def addDisplayCountChangedCallback_def removeDisplayCountChangedCallback_def
      lock_wf_def view_of_def callbacks_wf_oput callbacks_wf_odel)

lemma LockCursor_coherent:
  assumes "lock_wf s" "LockCursor e s = Inr r"
  shows "coherent s r"
proof (cases "cursor_locked s")
  case True
  with assms show ?thesis by (auto simp: LockCursor_def coherent_refl)
next
  case False
  then have raw: "\<not> raw_input_registered s" "raw_input_proc_id s = None" using assms(1) by (auto simp: lock_wf_def)
  obtain window where w: "FindFlutterWindow e = Some window" and reg: "window \<noteq> 0 \<Longrightarrow> le_registrar e"
    using assms(2) False by (cases "FindFlutterWindow e") (auto simp: LockCursor_def FindFlutterWindow_def split: if_splits)
  show ?thesis
  proof (cases "window = 0 \<or> le_cursor_pos e = None \<or> \<not> le_clip_ok e")
    case True
    with assms False w raw show ?thesis
      by (auto simp: LockCursor_def coherent_def lock_wf_def view_of_def Let_def split: option.splits if_splits)
  next
    case False
    then obtain pos view where "le_cursor_pos e = Some pos" "le_view e = Some view"
      using reg w by (auto simp: FindFlutterWindow_def split: option.splits)
    with False assms \<open>\<not> cursor_locked s\<close> w raw reg show ?thesis
      by (auto simp: LockCursor_def SubscribeToRawInputData_def coherent_def lock_wf_def view_of_def Let_def
          split: if_splits)
  qed
qed

lemma Unsubscribe_locked:
  assumes "lock_wf s" "cursor_locked s"
  obtains i where "raw_input_proc_id s = Some i"
    "UnsubscribeFromRawInputData s = (s\<lparr>raw_input_proc_id := None, raw_input_registered := False\<rparr>,
       [UnregisterDelegate i, RemoveRawInput])"
  using assms by (auto simp: lock_wf_def UnsubscribeFromRawInputData_def)

lemma UnlockCursor_coherent: "lock_wf s \<Longrightarrow> coherent s (UnlockCursor s)"
proof (cases "cursor_locked s")
  case True
  assume wf: "lock_wf s"
  obtain i where "raw_input_proc_id s = Some i" "UnsubscribeFromRawInputData s =
      (s\<lparr>raw_input_proc_id := None, raw_input_registered := False\<rparr>, [UnregisterDelegate i, RemoveRawInput])"
    by (rule Unsubscribe_locked [OF wf True])
  with wf True show ?thesis by (simp add: UnlockCursor_def coherent_def lock_wf_def view_of_def)
qed (simp add: UnlockCursor_def coherent_refl)

lemma CleanupCursorLock_coherent: "lock_wf s \<Longrightarrow> coherent s (CleanupCursorLock s)"
  by (simp add: CleanupCursorLock_def UnlockCursor_coherent coherent_refl)

lemma UnlockCursorAndReseed_coherent:
  assumes wf: "lock_wf s" and r: "UnlockCursorAndReseed we e x y s = Inr r"
  shows "coherent s r"
proof (cases "cursor_locked s")
  case True
  obtain i where i: "raw_input_proc_id s = Some i" "UnsubscribeFromRawInputData s =
      (s\<lparr>raw_input_proc_id := None, raw_input_registered := False\<rparr>, [UnregisterDelegate i, RemoveRawInput])"
    by (rule Unsubscribe_locked [OF wf True])
  then obtain moves where m: "r = (s\<lparr>raw_input_proc_id := None, raw_input_registered := False,
       cursor_locked := False, main_window := 0\<rparr>,
       [Unclip, UnregisterDelegate i, RemoveRawInput] @ map Sent moves @ [ShowCursor True])"
    using r True by (auto simp: UnlockCursorAndReseed_def split: option.splits)
  have "watch (map Sent moves @ [ShowCursor True]) v = Some (v\<lparr>v_hidden := False\<rparr>)"
    if "v_hidden v" "\<not> v_clipped v" "\<not> v_raw v" for v
    using that by (induction moves) auto
  with m i wf True show ?thesis by (simp add: coherent_def lock_wf_def view_of_def)
qed (use r in \<open>auto simp: UnlockCursorAndReseed_def coherent_refl wf\<close>)

lemma lock_do_coherent: "lock_wf s \<Longrightarrow> lock_do e s = Some r \<Longrightarrow> coherent s r"
  by (cases e)
    (auto simp: LockCursor_coherent UnlockCursor_coherent UnlockCursorAndReseed_coherent CleanupCursorLock_coherent
      raw_input_delegate_coherent dpi_delegate_coherent UpdateStaticMonitors_coherent callbacks_coherent
      coherent_refl simp del: not_None_eq split: if_splits)

lemma lock_run_coherent: "lock_wf s \<Longrightarrow> lock_run es s = Some r \<Longrightarrow> coherent s r"
proof (rule cursor_locks.run_ok [where legal = lock_wf and ok = coherent])
  show "\<And>s s1 o1. coherent s (s1, o1) \<Longrightarrow> lock_wf s1" by (simp add: coherent_def)
qed (auto intro: coherent_refl coherent_trans lock_do_coherent)

text \<open>
  The lock is only undefined where a null view is used, before anything has been called; giving the
  pointer back only where a share is not a number, after the pointer has been let go.
\<close>

lemma LockCursor_undefined:
  "LockCursor e s = Inl calls \<longleftrightarrow> \<not> cursor_locked s \<and> le_registrar e \<and> le_view e = None \<and> calls = []"
  by (auto simp: LockCursor_def FindFlutterWindow_def SubscribeToRawInputData_def Let_def
      split: option.splits if_splits)

lemma UnlockCursorAndReseed_undefined:
  assumes "UnlockCursorAndReseed we e x y s = Inl calls"
  shows "cursor_locked s \<and> calls = Unclip # snd (UnsubscribeFromRawInputData s) \<and> (x = NaN \<or> y = NaN)"
  using assms window_position_undefined
  by (auto simp: UnlockCursorAndReseed_def Let_def split: prod.splits option.splits if_splits)

text \<open>The one move that gives the pointer back is the one the window procedure consumes.\<close>

lemma reseed_is_local:
  assumes "UnlockCursorAndReseed we e x y s = Inr (s', calls)" "Sent out \<in> set calls" "raw_input_proc_id s \<noteq> None"
  shows "\<exists>i. out = LocalInput i"
  using assms by (auto simp: UnlockCursorAndReseed_def UnsubscribeFromRawInputData_def
      performMouseMoveToWindowPosition_def Let_def split: option.splits if_splits)

lemma reseed_consumed:
  "CursorReseedSubclassProc message extra_info = Some 0 \<longleftrightarrow>
     message = WM_MOUSEMOVE \<and> extra_info = kCursorReseedExtraInfo"
  by (simp add: CursorReseedSubclassProc_def)

lemma enumerated_ids: "m \<in> set (enumerated world k ds) \<Longrightarrow> int k \<le> mi_screen_id m"
  by (induction ds arbitrary: k) (fastforce simp: MonitorInfo_of_def split: option.splits if_splits)+

lemma MonitorRect_Nil: "MonitorRectForScreenId [] i = None"
  by (simp add: MonitorRectForScreenId_def)

lemma MonitorRect_Cons:
  "MonitorRectForScreenId (m # ms) i = (if mi_screen_id m = i then Some (mi_rect m) else MonitorRectForScreenId ms i)"
  by (auto simp: MonitorRectForScreenId_def split: option.splits)

lemma enumerated_lookup:
  "MonitorRectForScreenId (enumerated world k ds) (int (k + n)) =
     (if n < length ds then map_option mi_rect (MonitorInfo_of world (k + n) (ds ! n)) else None)"
proof (induction ds arbitrary: k n)
  case Nil
  then show ?case by (simp add: MonitorRect_Nil)
next
  case (Cons d ds)
  have later: "mi_screen_id m \<noteq> int k" if "m \<in> set (enumerated world (Suc k) ds)" for m
    using enumerated_ids [OF that] by simp
  have id: "mi_screen_id m = int k" if "MonitorInfo_of world k d = Some m" for m
    using that by (auto simp: MonitorInfo_of_def split: option.splits if_splits)
  show ?case
  proof (cases n)
    case 0
    with later show ?thesis using id
      by (auto simp: MonitorRect_Cons MonitorRect_None split: option.splits)
  next
    case (Suc j)
    with Cons.IH [of "Suc k" j] show ?thesis using id
      by (auto simp: MonitorRect_Cons split: option.splits)
  qed
qed

section \<open>Properties\<close>

text \<open>C16: Over any run of the lock, its raw input and its releases, the calls made to Windows are in
  place at every moment: the pointer is clipped before it is hidden, released before it is shown, hidden
  and shown alternately, raw input and its delegate are registered and removed in pairs, and movements are
  only reported while all of this is in force. At the end the pointer is held, hidden and followed exactly if
  the plugin believes the cursor locked.\<close>

theorem cursor_lock_balanced:
  assumes "lock_run es init_cursor_lock = Some (s, calls)"
  shows "watch calls free_pointer = Some \<lparr>v_clipped = cursor_locked s, v_hidden = cursor_locked s,
      v_raw = cursor_locked s, v_delegate = raw_input_proc_id s\<rparr> \<and>
    (raw_input_proc_id s \<noteq> None \<longleftrightarrow> cursor_locked s)"
proof -
  have "coherent init_cursor_lock (s, calls)" by (rule lock_run_coherent [OF init_lock_wf assms])
  moreover have "view_of init_cursor_lock = free_pointer"
    by (simp add: view_of_def init_cursor_lock_def free_pointer_def)
  ultimately show ?thesis by (simp add: coherent_def lock_wf_def view_of_def)
qed

theorem cursor_lock_balanced_witness:
  "\<exists>calls. watch calls free_pointer = Some \<lparr>v_clipped = True, v_hidden = True, v_raw = True, v_delegate = Some 7\<rparr> \<and>
    CursorMoved (Fin (- 1)) (Fin 2) \<in> set calls"
proof -
  let ?e = "\<lparr>le_registrar = True, le_view = Some 3, le_parent = \<lambda>w. 2, le_runner_window = 0, le_flutter_window = 0,
     le_cursor_pos = Some \<lparr>p_x = 40, p_y = 50\<rparr>, le_clip_ok = True, le_register_ok = True, le_proc_id = 7,
     le_client = \<lambda>w. None\<rparr>"
  let ?w = "\<lparr>dw_registry = None, dw_adapters = [], dw_current = \<lambda>n. None, dw_modes = \<lambda>n. [], dw_device = \<lambda>n. None,
     dw_monitors = [], dw_junk_time = 0\<rparr>"
  let ?es = "[Lock ?e, RawDelegate WM_INPUT (Some (- 1, 2)) ?w]"
  obtain s calls where r: "lock_run ?es init_cursor_lock = Some (s, calls)"
    "cursor_locked s" "raw_input_proc_id s = Some 7" "CursorMoved (Fin (- 1)) (Fin 2) \<in> set calls"
    by (simp add: LockCursor_def FindFlutterWindow_def SubscribeToRawInputData_def raw_input_delegate_def
        display_message_def WM_INPUT_def WM_DPICHANGED_def WM_DISPLAYCHANGE_def init_cursor_lock_def Let_def)
  from cursor_lock_balanced [OF r(1)] r show ?thesis by auto
qed

text \<open>C39: After an update of the monitors a screen id is the index of a display device: it is mapped to
  the current rectangle of exactly that device if that is active with a readable mode, and to no other
  screen if not; and every registered callback has been told the number of monitors once, in the order
  of the identifiers.\<close>

theorem screen_id_is_device_index:
  assumes "lock_run es init_cursor_lock = Some (s, calls)"
    and "UpdateStaticMonitors world s = (s', told)"
  shows "MonitorRectForScreenId (static_monitors s') (int n) =
      (if n < length (dw_adapters world)
       then map_option mi_rect (MonitorInfo_of world n (dw_adapters world ! n)) else None) \<and>
    told = map (\<lambda>i. DisplayCountChanged i (int (length (static_monitors s')))) (map fst (display_count_callbacks s)) \<and>
    sorted_wrt (<) (map fst (display_count_callbacks s))"
proof -
  have wf: "callbacks_wf (display_count_callbacks s)"
    using lock_run_coherent [OF init_lock_wf assms(1)] by (simp add: coherent_def lock_wf_def)
  then have "sorted_wrt (<) (map fst (display_count_callbacks s))" by (simp add: callbacks_wf_def okeys_def)
  moreover have "static_monitors s' = enumerated world 0 (dw_adapters world)"
    and "told = map (\<lambda>(i, callback). callback (int (length (static_monitors s')))) (display_count_callbacks s)"
    using assms(2) by (auto simp: UpdateStaticMonitors_def notifyDisplayCountChanged_def Let_def)
  ultimately show ?thesis
    using enumerated_lookup [of world 0 "dw_adapters world" n] callbacks_told [OF wf] by (auto simp: case_prod_beta)
qed

theorem screen_id_is_device_index_witness:
  "\<exists>world s' told. UpdateStaticMonitors world (fst (the (lock_run [AddCallback 4, AddCallback 2] init_cursor_lock))) = (s', told) \<and>
    MonitorRectForScreenId (static_monitors s') (int 1) = Some \<lparr>r_left = - 10, r_top = 0, r_right = 90, r_bottom = 50\<rparr> \<and>
    told = [DisplayCountChanged 2 1, DisplayCountChanged 4 1]"
proof -
  let ?w = "\<lparr>dw_registry = None, dw_adapters = [\<lparr>ad_DeviceName = ''a'', ad_StateFlags = 0, ad_monitors = []\<rparr>,
       \<lparr>ad_DeviceName = ''b'', ad_StateFlags = 1, ad_monitors = []\<rparr>],
     dw_current = \<lambda>n. Some \<lparr>dmPelsWidth = 100, dmPelsHeight = 50, dmDisplayFrequency = 60, dmDisplayOrientation = 0,
       dmX = - 10, dmY = 0\<rparr>, dw_modes = \<lambda>n. [], dw_device = \<lambda>n. None, dw_monitors = [], dw_junk_time = 0\<rparr>"
  let ?es = "[AddCallback 4, AddCallback 2]"
  obtain s where s: "lock_run ?es init_cursor_lock = Some (s, [])"
    "map fst (display_count_callbacks s) = [2, 4]"
    by (simp add: addDisplayCountChangedCallback_def init_cursor_lock_def)
  obtain s' told where u: "UpdateStaticMonitors ?w s = (s', told)" by (cases "UpdateStaticMonitors ?w s")
  then have l: "length (static_monitors s') = 1"
    by (auto simp: UpdateStaticMonitors_def MonitorInfo_of_def has_flag_def DEVICE_ACTIVE_def Let_def)
  have m: "MonitorInfo_of ?w 1 (dw_adapters ?w ! 1) = Some \<lparr>mi_rect = \<lparr>r_left = - 10, r_top = 0, r_right = 90,
      r_bottom = 50\<rparr>, mi_is_primary = False, mi_screen_id = 1\<rparr>"
    by (simp add: MonitorInfo_of_def has_flag_def DEVICE_ACTIVE_def DEVICE_PRIMARY_def)
  from screen_id_is_device_index [OF s(1) u, of 1] u s l m show ?thesis by fastforce
qed

end
