(* ===== verification/WinCall.thy ===== *)
theory WinCall
  imports WinPointer Gamepad KeyBlocker CursorHooks EditFocus WinCursor
begin

text \<open>
  What the method channel of \<open>windows/hardware_simulator_plugin.cpp\<close> works on: the values a call carries
  and how a handler reads them, the answers it may give, the state of the plugin with all its parts, and
  the operations of the file that belong to no other part: starting and stopping the editing monitor and
  the repeat thread, the helpers that start a process or look at the user, and two display settings.
\<close>

section \<open>Calls and answers\<close>

text \<open>
  \<open>flutter::EncodableValue\<close> with the alternatives a call can hold; the keys of a map that the code looks
  up are strings. An argument that is no map leaves the handlers without arguments, \<open>None\<close>.
\<close>

datatype encodable =
    ENull
  | EBool bool
  | EInt32 int
  | EInt64 int
  | EDouble dbl
  | EString string
  | EList "encodable list"
  | EMap "(string \<times> encodable) list"

type_synonym arguments = "(string \<times> encodable) list option"

datatype answer = Success encodable | Failed string string | NotImplemented

text \<open>
  How a handler ends: it has answered; it returns without an answer; a thread will answer; \<open>std::get\<close>
  has thrown; it waits forever for a retry loop; or it has used an iterator at the end of the map, or something
  else C++ leaves undefined. Beside \<open>Hanging\<close> and \<open>Undefined\<close> a handler returns what it did up to that step;
  the state beside them has no meaning, and no run goes on from it.
\<close>

datatype verdict = Answered answer | Unanswered | AnsweredLater answer | Thrown | Hanging | Undefined

definition call_arguments :: "encodable \<Rightarrow> arguments" where
  "call_arguments v = (case v of EMap m \<Rightarrow> Some m | _ \<Rightarrow> None)"

text \<open>A handler that stops before it has done anything, and reading an argument in the code's two steps.\<close>

type_synonym ('s, 'o) handler = "'s \<Rightarrow> 's \<times> 'o list \<times> verdict"

definition stop_with :: "verdict \<Rightarrow> ('s, 'o) handler" where
  "stop_with v s = (s, [], v)"

definition need :: "arguments \<Rightarrow> string \<Rightarrow> (encodable \<Rightarrow> ('s, 'o) handler) \<Rightarrow> ('s, 'o) handler" where
  "need args key k =
     (case args of None \<Rightarrow> stop_with Undefined
      | Some m \<Rightarrow> (case map_of m key of None \<Rightarrow> stop_with Undefined | Some v \<Rightarrow> k v))"

definition get_int :: "encodable \<Rightarrow> (int \<Rightarrow> ('s, 'o) handler) \<Rightarrow> ('s, 'o) handler" where
  "get_int v k = (case v of EInt32 i \<Rightarrow> k i | _ \<Rightarrow> stop_with Thrown)"

definition get_bool :: "encodable \<Rightarrow> (bool \<Rightarrow> ('s, 'o) handler) \<Rightarrow> ('s, 'o) handler" where
  "get_bool v k = (case v of EBool b \<Rightarrow> k b | _ \<Rightarrow> stop_with Thrown)"

definition get_double :: "encodable \<Rightarrow> (dbl \<Rightarrow> ('s, 'o) handler) \<Rightarrow> ('s, 'o) handler" where
  "get_double v k = (case v of EDouble d \<Rightarrow> k d | _ \<Rightarrow> stop_with Thrown)"

definition get_string :: "encodable \<Rightarrow> (string \<Rightarrow> ('s, 'o) handler) \<Rightarrow> ('s, 'o) handler" where
  "get_string v k = (case v of EString t \<Rightarrow> k t | _ \<Rightarrow> stop_with Thrown)"

definition get_list :: "encodable \<Rightarrow> (encodable list \<Rightarrow> ('s, 'o) handler) \<Rightarrow> ('s, 'o) handler" where
  "get_list v k = (case v of EList vs \<Rightarrow> k vs | _ \<Rightarrow> stop_with Thrown)"

text \<open>An argument that is looked up with a test of the iterator; the map itself is used unchecked.\<close>

definition lookup_or :: "answer \<Rightarrow> arguments \<Rightarrow> string \<Rightarrow> (encodable \<Rightarrow> ('s, 'o) handler) \<Rightarrow> ('s, 'o) handler" where
  "lookup_or missing args key k =
     (case args of None \<Rightarrow> stop_with Undefined
      | Some m \<Rightarrow> (case map_of m key of None \<Rightarrow> stop_with (Answered missing) | Some v \<Rightarrow> k v))"

definition ReadOptionalInt64 :: "arguments \<Rightarrow> string \<Rightarrow> int option" where
  "ReadOptionalInt64 args key =
     (case args of None \<Rightarrow> None
      | Some m \<Rightarrow> (case map_of m key of
            Some (EInt32 i) \<Rightarrow> Some i
          | Some (EInt64 i) \<Rightarrow> Some i
          | _ \<Rightarrow> None))"

section \<open>State\<close>

text \<open>
  The editing monitor as the plugin holds it: the worker, its slot, and where its message goes. \<open>ed_detached\<close>: the
  workers of earlier monitors that were let go before they had ended; their threads go on by themselves.
\<close>

record editing =
  ed_worker :: "WorkerState option"
  ed_detached :: "WorkerState list"
  ed_slot :: DecisionSlot
  ed_window :: nat
  ed_message :: u32
  ed_proc :: "int option"

definition no_slot :: DecisionSlot where
  "no_slot = \<lparr>ds_pending = None, ds_posted = False, ds_queue = 0\<rparr>"

definition no_editing :: editing where
  "no_editing = \<lparr>ed_worker = None, ed_detached = [], ed_slot = no_slot, ed_window = 0, ed_message = 0, ed_proc = None\<rparr>"

record win_plugin =
  pl_win :: win
  pl_trackpad :: "dbl \<times> dbl"
  pl_gamepads :: Gamepads
  pl_rumble_proc :: "int option"
  pl_rumble_message :: u32
  pl_rumble_window :: nat
  pl_cursors :: Monitor
  pl_lock :: cursor_lock
  pl_blocker :: Blocker
  pl_vdd :: VddState
  pl_ctl :: ctl
  pl_backend :: backend
  pl_registry :: vdd_registry
  pl_editing :: editing
  pl_ratio :: dbl
  pl_view_window :: nat
  pl_thread_running :: bool
  pl_dpi_proc :: "int option"

datatype win_out =
    InputOut effect
  | CursorOut cursor_effect
  | LockOut plugin_call
  | GamepadOut vigem_call
  | KeyOut blocker_effect
  | DisplayOut system_call
  | RegisterWindowMessage string
  | RumbleEvent GamepadRumbleEvent
  | DecisionEvent WindowsTextInputDecision
  | RunAs string string bool
  | WaitForProcess
  | SetDragFullWindows bool
  | ShowNotification "u16 list"
  | DiscardMessages nat u32
  | SubclassView nat
  | UnsubclassView nat
  | StartThread
  | JoinThread
  | DestroyDevice pointer_type
  | StartWorker
  | JoinWorker
  | DetachWorker

text \<open>
  How the monitor starts: its worker runs; an event could not be made; or the thread could not set itself up.
\<close>

datatype worker_start = Started | NoEvents | NotReady

text \<open>
  What the world answers while one call or event is handled; see the parts for the meaning of each.
  \<open>ce_root\<close>: \<open>GetAncestor\<close> of a window; \<open>ce_message\<close>: \<open>RegisterWindowMessage\<close>; \<open>ce_user32\<close>: whether \<open>user32.dll\<close> exports the functions that create, feed and destroy
  a synthetic pointer device; \<open>ce_in_time\<close>: a worker that is told to stop has ended within the 250 ms that \<open>Stop\<close> waits.
\<close>

record exe_env =
  xe_module :: "string option"
  xe_directory :: "string \<Rightarrow> string option"
  xe_combine :: "string \<Rightarrow> string \<Rightarrow> string option"
  xe_exists :: "string \<Rightarrow> bool"
  xe_started :: bool
  xe_process :: bool
  xe_error :: u32

record token_env =
  tk_opened :: bool
  tk_sized :: bool
  tk_allocated :: bool
  tk_user :: "nat option"
  tk_system :: "nat option"

record call_env =
  ce_now :: int
  ce_win :: win_env
  ce_os :: os
  ce_user32 :: "(bool \<times> bool \<times> bool) option"
  ce_lock :: lock_env
  ce_decode :: "u8 list \<Rightarrow> u16 list option"
  ce_wide :: "u8 list \<Rightarrow> u16 list"
  ce_cursor :: cursor_world
  ce_cursor_pos :: "point option"
  ce_vigem :: vigem_answers
  ce_gamepad :: XINPUT_GAMEPAD
  ce_nextparam :: int
  ce_desktop :: desktop
  ce_hook :: "nat option"
  ce_world :: display_world
  ce_worlds :: "nat \<Rightarrow> display_world"
  ce_driver :: "u32 option"
  ce_status :: DeviceStatus
  ce_interfaces :: "nat option list"
  ce_console :: console_world
  ce_change_ok :: bool
  ce_database :: "query_answer list"
  ce_active :: "query_answer list"
  ce_query :: query_answer
  ce_names :: source_names
  ce_os_result :: int
  ce_apply1 :: apply_answer
  ce_apply2 :: apply_answer
  ce_ctl :: ctl_env
  ce_reg_opened :: bool
  ce_reg_created :: "nat \<Rightarrow> bool"
  ce_reg_deleted :: "nat \<Rightarrow> bool"
  ce_start :: start_answers
  ce_monitor_count :: int
  ce_version :: nat
  ce_message :: u32
  ce_root :: "nat \<Rightarrow> nat"
  ce_proc :: int
  ce_editing :: worker_start
  ce_in_time :: bool
  ce_exe :: exe_env
  ce_token :: token_env
  ce_reg_desktop :: bool

text \<open>The handlers for input look monitors up in the plugin's own table.\<close>

definition input_env :: "call_env \<Rightarrow> win_plugin \<Rightarrow> win_env" where
  "input_env e s = (ce_win e)\<lparr>monitors := static_monitors (pl_lock s)\<rparr>"

definition utf8 :: "string \<Rightarrow> u8 list" where
  "utf8 t = map (\<lambda>c. of_char c) t"

section \<open>Processes and the user\<close>

text \<open>
  Starting a file that lies beside the program as an administrator; the error code is written on a failure,
  and is that of Windows, a wrong path, 3, or a wrong name, 123.
\<close>

definition run_as_admin :: "exe_env \<Rightarrow> string \<Rightarrow> string \<Rightarrow> bool \<Rightarrow> bool \<Rightarrow> u32 option \<times> bool \<times> win_out list" where
  "run_as_admin x file parameters visible bWait =
     (case xe_module x of
        None \<Rightarrow> (Some (xe_error x), False, [])
      | Some exePath \<Rightarrow>
          (case xe_directory x exePath of
             None \<Rightarrow> (Some 3, False, [])
           | Some exeDir \<Rightarrow>
               (case xe_combine x exeDir file of
                  None \<Rightarrow> (Some 123, False, [])
                | Some target \<Rightarrow>
                    if \<not> xe_exists x target then (Some (xe_error x), False, [])
                    else if \<not> xe_started x then (Some (xe_error x), False, [])
                    else (None, True, [RunAs target parameters visible] @
                           (if bWait \<and> xe_process x then [WaitForProcess] else [])))))"

definition RunBatchAsAdmin :: "exe_env \<Rightarrow> string \<Rightarrow> bool \<Rightarrow> u32 option \<times> bool \<times> win_out list" where
  "RunBatchAsAdmin x batch bWait = run_as_admin x batch [] True bWait"

definition RunExeAsAdmin :: "exe_env \<Rightarrow> string \<Rightarrow> string \<Rightarrow> bool \<Rightarrow> u32 option \<times> bool \<times> win_out list" where
  "RunExeAsAdmin x exe arguments bWait = run_as_admin x exe arguments False bWait"

text \<open>Whether the process runs as the system, with what it acquires and gives back on the way.\<close>

datatype token_call = OpenToken | CloseToken | AllocUser | FreeUser | AllocSid | FreeSid

definition IsRunningAsSystem :: "token_env \<Rightarrow> bool \<times> token_call list" where
  "IsRunningAsSystem t =
     (if \<not> tk_opened t then (False, [])
      else if \<not> tk_sized t then (False, [OpenToken, CloseToken])
      else if \<not> tk_allocated t then (False, [OpenToken, CloseToken])
      else case tk_user t of
          None \<Rightarrow> (False, [OpenToken, AllocUser, FreeUser, CloseToken])
        | Some user \<Rightarrow>
            (case tk_system t of
               None \<Rightarrow> (False, [OpenToken, AllocUser, FreeUser, CloseToken])
             | Some system \<Rightarrow> (user = system, [OpenToken, AllocUser, AllocSid, FreeSid, FreeUser, CloseToken])))"

text \<open>What is acquired is given back once.\<close>

lemma token_balanced:
  "count_list (snd (IsRunningAsSystem t)) OpenToken = count_list (snd (IsRunningAsSystem t)) CloseToken \<and>
   count_list (snd (IsRunningAsSystem t)) AllocUser = count_list (snd (IsRunningAsSystem t)) FreeUser \<and>
   count_list (snd (IsRunningAsSystem t)) AllocSid = count_list (snd (IsRunningAsSystem t)) FreeSid"
  by (auto simp: IsRunningAsSystem_def split: option.splits)

section \<open>Display settings of the file\<close>

definition setDragWindowContents :: "bool \<Rightarrow> bool \<Rightarrow> win_out list" where
  "setDragWindowContents opened enable = (if opened then [SetDragFullWindows enable] else [])"

text \<open>The settings written are the current ones at the origin; no index beyond the devices answers.\<close>

definition setPrimaryDisplay :: "display_world \<Rightarrow> bool \<Rightarrow> int \<Rightarrow> bool \<times> win_out list" where
  "setPrimaryDisplay world changed displayIndex =
     (if displayIndex < 0 \<or> int (length (dw_adapters world)) \<le> displayIndex then (False, [])
      else
        let device = ad_DeviceName (dw_adapters world ! nat displayIndex) in
        case dw_current world device of
          None \<Rightarrow> (False, [])
        | Some devMode \<Rightarrow>
            (changed, [DisplayOut (ChangeDisplaySettingsEx device (devMode\<lparr>dmX := 0, dmY := 0\<rparr>)
               [''DM_POSITION'', ''CDS_SET_PRIMARY'', ''CDS_UPDATEREGISTRY''])]))"

section \<open>Synthetic devices\<close>

text \<open>
  The three functions are looked up before a device is made, and again as long as the first of them is
  missing; what the library exports does not change. \<open>built\<close>: the device could be made.
\<close>

definition initTouchAPI :: "(bool \<times> bool \<times> bool) option \<Rightarrow> bool" where
  "initTouchAPI exports = (case exports of None \<Rightarrow> False | Some (create, inject, destroy) \<Rightarrow> create \<and> inject \<and> destroy)"

definition createTouchDevice :: "(bool \<times> bool \<times> bool) option \<Rightarrow> bool \<Rightarrow> bool" where
  "createTouchDevice exports built = (case exports of None \<Rightarrow> False | Some (create, inject, destroy) \<Rightarrow> create \<and> built)"

definition createPenDevice :: "(bool \<times> bool \<times> bool) option \<Rightarrow> bool \<Rightarrow> bool" where
  "createPenDevice exports built = (case exports of None \<Rightarrow> False | Some (create, inject, destroy) \<Rightarrow> create \<and> built)"

definition can_destroy :: "(bool \<times> bool \<times> bool) option \<Rightarrow> bool" where
  "can_destroy exports = (case exports of None \<Rightarrow> False | Some (create, inject, destroy) \<Rightarrow> destroy)"

definition destroyTouchDevice :: "(bool \<times> bool \<times> bool) option \<Rightarrow> backend \<Rightarrow> backend \<times> win_out list" where
  "destroyTouchDevice exports b =
     (if be_touch_device b \<and> can_destroy exports then (b\<lparr>be_touch_device := False\<rparr>, [DestroyDevice PT_TOUCH]) else (b, []))"

text \<open>The device of the pen; the rest of \<open>destroyPenDevice\<close> is in the theory of the pen.\<close>

definition destroy_pen_device :: "(bool \<times> bool \<times> bool) option \<Rightarrow> backend \<Rightarrow> backend \<times> win_out list" where
  "destroy_pen_device exports b =
     (if be_pen_device b \<and> can_destroy exports then (b\<lparr>be_pen_device := False\<rparr>, [DestroyDevice PT_PEN]) else (b, []))"

definition input_os :: "call_env \<Rightarrow> os" where
  "input_os e = (ce_os e)\<lparr>device_ok := \<lambda>n. createTouchDevice (ce_user32 e) (device_ok (ce_os e) n)\<rparr>"

section \<open>The repeat thread\<close>

definition StopMonitorThread :: "win_plugin \<Rightarrow> win_plugin \<times> win_out list" where
  "StopMonitorThread s =
     (if pl_thread_running s then (s\<lparr>pl_thread_running := False\<rparr>, [JoinThread]) else (s, []))"

definition StartMonitorThread :: "win_plugin \<Rightarrow> win_plugin \<times> win_out list" where
  "StartMonitorThread s =
     (if \<not> pl_thread_running s then (s\<lparr>pl_thread_running := True\<rparr>, [StartThread]) else (s, []))"

section \<open>The editing monitor of the plugin\<close>

text \<open>
  \<open>Stop\<close> of the monitor: the worker loses its callback and its request, is told to stop and waited for; one that
  has not ended by then is detached and goes on by itself.
\<close>

definition stop_thread :: "bool \<Rightarrow> WorkerState \<Rightarrow> WorkerState list \<times> win_out list" where
  "stop_thread in_time w =
     (let w = Stop_requests w in if in_time then ([], [JoinWorker]) else ([w], [DetachWorker]))"

definition stop_editing :: "bool \<Rightarrow> bool \<Rightarrow> editing \<Rightarrow> editing \<times> win_out list" where
  "stop_editing in_time registrar ed =
     (let (left, o1) = (case ed_worker ed of None \<Rightarrow> ([], []) | Some w \<Rightarrow> stop_thread in_time w);
          discard = ed_window ed \<noteq> 0 \<and> ed_message ed \<noteq> 0;
          slot = (if discard then EditFocus.StopWindowsEditingEventMonitor (ed_slot ed)
                  else (ed_slot ed)\<lparr>ds_pending := None, ds_posted := False\<rparr>)
      in (\<lparr>ed_worker = None, ed_detached = ed_detached ed @ left, ed_slot = slot, ed_window = 0, ed_message = 0, ed_proc = None\<rparr>,
          o1 @
          (if discard then [DiscardMessages (ed_window ed) (ed_message ed)] else []) @
          (case ed_proc ed of
             Some proc_id \<Rightarrow> if registrar then [LockOut (UnregisterDelegate proc_id)] else []
           | None \<Rightarrow> [])))"

text \<open>A worker that could not set itself up has left its loop out and is at its end.\<close>

definition unready_worker :: WorkerState where
  "unready_worker = started_worker\<lparr>ws_running := False, ws_phase := Finished\<rparr>"

text \<open>
  A new worker is as \<open>started_worker\<close>. When the monitor cannot be started, its own \<open>Stop\<close> is called before the
  plugin's. \<open>Inl\<close>: a null view is used, after an earlier monitor has been stopped.
\<close>

definition StartWindowsEditingEventMonitor ::
  "lock_env \<Rightarrow> u32 \<Rightarrow> int \<Rightarrow> worker_start \<Rightarrow> bool \<Rightarrow> editing \<Rightarrow> win_out list + editing \<times> win_out list \<times> bool" where
  "StartWindowsEditingEventMonitor e message proc_id start in_time ed =
     (if (case ed_worker ed of Some w \<Rightarrow> ws_running w | None \<Rightarrow> False) then Inr (ed, [], True)
      else
        let (ed, o1) = (if ed_worker ed \<noteq> None \<or> ed_proc ed \<noteq> None then stop_editing in_time (le_registrar e) ed else (ed, []))
        in if \<not> le_registrar e then Inr (ed, o1, False)
           else case FindFlutterWindow e of
               None \<Rightarrow> Inl o1
             | Some window \<Rightarrow>
                 let ed = ed\<lparr>ed_window := window, ed_message := message\<rparr>;
                     o2 = o1 @ [RegisterWindowMessage ''CloudPlayPlus.HardwareSimulator.WindowsTextInputDecision'']
                 in if window = 0 \<or> message = 0
                    then (let (ed, o3) = stop_editing in_time True ed in Inr (ed, o2 @ o3, False))
                    else
                      let ed = ed\<lparr>ed_proc := Some proc_id\<rparr>; o3 = o2 @ [LockOut (RegisterDelegate proc_id)]
                      in (case start of
                            Started \<Rightarrow> Inr (ed\<lparr>ed_worker := Some started_worker\<rparr>, o3 @ [StartWorker], True)
                          | NoEvents \<Rightarrow> (let (ed, o4) = stop_editing in_time True ed in Inr (ed, o3 @ o4, False))
                          | NotReady \<Rightarrow>
                              let (left, stopping) = stop_thread in_time unready_worker;
                                  (ed, o4) = stop_editing in_time True (ed\<lparr>ed_detached := ed_detached ed @ left\<rparr>)
                              in Inr (ed, o3 @ [StartWorker] @ stopping @ o4, False)))"

text \<open>The delegate that takes a decision out of its slot; \<open>None\<close> passes the message on.\<close>

definition editing_delegate :: "u32 \<Rightarrow> bool \<Rightarrow> editing \<Rightarrow> editing \<times> win_out list \<times> int option" where
  "editing_delegate message own ed =
     (if message \<noteq> ed_message ed \<or> \<not> own then (ed, [], None)
      else
        let (slot, decisions) = decision_message True (ed_slot ed)
        in (ed\<lparr>ed_slot := slot\<rparr>, map DecisionEvent decisions, Some 0))"

section \<open>What holds of every handler\<close>

text \<open>
  A claim about a handler that holds when it stops at once need only be shown where all arguments have been
  read. What stops a handler at once is an answer, an exception or undefined behaviour.
\<close>

definition stops :: "verdict \<Rightarrow> bool" where
  "stops v \<longleftrightarrow> (case v of Answered _ \<Rightarrow> True | Thrown \<Rightarrow> True | Undefined \<Rightarrow> True | _ \<Rightarrow> False)"

locale handler_contract =
  fixes ok :: "'s \<Rightarrow> 's \<times> 'o list \<times> verdict \<Rightarrow> bool"
  assumes stopped: "stops v \<Longrightarrow> ok s (s, [], v)"
begin

lemma stop_with [intro]:
  "ok s (stop_with (Answered a) s)" "ok s (stop_with Thrown s)" "ok s (stop_with Undefined s)"
  by (simp_all add: stop_with_def stopped stops_def)

lemma need [intro]: "(\<And>v. ok s (k v s)) \<Longrightarrow> ok s (need args key k s)"
  by (auto simp: need_def split: option.split)

lemma get_int [intro]: "(\<And>i. ok s (k i s)) \<Longrightarrow> ok s (get_int v k s)"
  by (auto simp: get_int_def split: encodable.split)

lemma get_bool [intro]: "(\<And>b. ok s (k b s)) \<Longrightarrow> ok s (get_bool v k s)"
  by (auto simp: get_bool_def split: encodable.split)

lemma get_double [intro]: "(\<And>d. ok s (k d s)) \<Longrightarrow> ok s (get_double v k s)"
  by (auto simp: get_double_def split: encodable.split)

lemma get_string [intro]: "(\<And>t. ok s (k t s)) \<Longrightarrow> ok s (get_string v k s)"
  by (auto simp: get_string_def split: encodable.split)

lemma get_list [intro]: "(\<And>vs. ok s (k vs s)) \<Longrightarrow> ok s (get_list v k s)"
  by (auto simp: get_list_def split: encodable.split)

lemma lookup_or [intro]: "(\<And>v. ok s (k v s)) \<Longrightarrow> ok s (lookup_or missing args key k s)"
  by (auto simp: lookup_or_def split: option.split)

lemmas reads = stop_with need get_int get_bool get_double get_string get_list lookup_or

end

end
