(* ===== verification/WinMethods.thy ===== *)
theory WinMethods
  imports WinCall
begin

text \<open>
  \<open>HandleMethodCall\<close> of \<open>windows/hardware_simulator_plugin.cpp\<close>: a handler for each method of the channel,
  composed over the models of the parts, and the table that finds it. A handler reads its arguments in the
  order of the code, so that a missing or ill-typed argument ends it where the code ends.
\<close>

section \<open>Common steps\<close>

type_synonym win_handler = "(win_plugin, win_out) handler"

definition answering :: "answer \<Rightarrow> win_plugin \<times> win_out list \<Rightarrow> win_plugin \<times> win_out list \<times> verdict" where
  "answering a r = (fst r, snd r, Answered a)"

text \<open>
  A handler goes on when what it sends has been sent; a retry loop may keep it forever, \<open>Inl\<close> with what was
  sent before the input that is being retried.
\<close>

type_synonym sending = "win_out list + win_plugin \<times> win_out list"

definition after :: "sending \<Rightarrow> (win_plugin \<Rightarrow> win_plugin) \<Rightarrow> answer \<Rightarrow> win_handler" where
  "after r k a s = (case r of Inl outs \<Rightarrow> (s, outs, Hanging) | Inr (s', outs) \<Rightarrow> answering a (k s', outs))"

text \<open>Undefined behaviour once something has been sent.\<close>

definition undefined_after :: "sending \<Rightarrow> win_handler" where
  "undefined_after r s = (case r of Inl outs \<Rightarrow> (s, outs, Hanging) | Inr (s', outs) \<Rightarrow> (s, outs, Undefined))"

definition null_answer :: answer where
  "null_answer = Success ENull"

definition truth :: "bool \<Rightarrow> answer" where
  "truth b = Success (EBool b)"

text \<open>\<open>registrar_\<close> is set when the plugin is registered and never reset.\<close>

definition lock_answers :: "call_env \<Rightarrow> lock_env" where
  "lock_answers e = (ce_lock e)\<lparr>le_registrar := True\<rparr>"

text \<open>A name between apostrophes.\<close>

definition quoted :: "string \<Rightarrow> string" where
  "quoted t = CHR 0x27 # t @ [CHR 0x27]"

text \<open>What an input handler sends, one after the other, with the cursor synchronised where it asks for that.\<close>

fun send_effects :: "call_env \<Rightarrow> effect list \<Rightarrow> win_plugin \<Rightarrow> sending" where
  "send_effects e [] s = Inr (s, [])"
| "send_effects e (f # fs) s =
     (case dispatch (input_os e) [f] (pl_backend s) of
        None \<Rightarrow> Inl []
      | Some b \<Rightarrow>
          let s = s\<lparr>pl_backend := b\<rparr>;
              (s1, o1) = (if f = SyncCursor then (let (m, calls) = syncNow (ce_cursor e) (pl_cursors s)
                                                  in (s\<lparr>pl_cursors := m\<rparr>, map CursorOut calls))
                          else (s, [InputOut f]))
          in sent_before o1 (send_effects e fs s1))"

definition inputs :: "call_env \<Rightarrow> win \<times> effect list \<Rightarrow> win_plugin \<Rightarrow> sending" where
  "inputs e r s = send_effects e (snd r) (s\<lparr>pl_win := fst r\<rparr>)"

definition inspect_after_up :: "call_env \<Rightarrow> int option \<Rightarrow> point option \<Rightarrow> win_plugin \<Rightarrow> win_plugin" where
  "inspect_after_up e request pt s =
     (case ed_worker (pl_editing s) of
        None \<Rightarrow> s
      | Some w \<Rightarrow> s\<lparr>pl_editing := (pl_editing s)\<lparr>ed_worker :=
          Some (signal_request (InspectAfterRemotePointerUp request pt (ce_cursor_pos e) w))\<rparr>\<rparr>)"

text \<open>After a touch or the pen has been lifted on a known screen.\<close>

definition inspect_lift :: "call_env \<Rightarrow> arguments \<Rightarrow> bool \<Rightarrow> int \<Rightarrow> dbl \<Rightarrow> dbl \<Rightarrow> win_plugin \<Rightarrow> win_plugin" where
  "inspect_lift e args down screen_id x y s =
     (case PointerPointForScreen (static_monitors (pl_lock s)) screen_id x y of
        None \<Rightarrow> s
      | Some pt \<Rightarrow> if down then s else inspect_after_up e (ReadOptionalInt64 args ''editFocusRequestId'') (Some pt) s)"

section \<open>Keyboard, mouse and text\<close>

definition on_getPlatformVersion :: "call_env \<Rightarrow> arguments \<Rightarrow> win_handler" where
  "on_getPlatformVersion e args s =
     (s, [], Answered (Success (EString (''Windows '' @
        (if 10 \<le> ce_version e then ''10+'' else if 8 \<le> ce_version e then ''8''
         else if 7 \<le> ce_version e then ''7'' else [])))))"

definition on_startTextInputDecisionCapture :: "call_env \<Rightarrow> arguments \<Rightarrow> win_handler" where
  "on_startTextInputDecisionCapture e args s =
     (case StartWindowsEditingEventMonitor (lock_answers e) (ce_message e) (ce_proc e) (ce_editing e) (ce_in_time e)
         (pl_editing s) of
        Inl outs \<Rightarrow> (s, outs, Undefined)
      | Inr (ed, outs, ok) \<Rightarrow> (s\<lparr>pl_editing := ed\<rparr>, outs, Answered (truth ok)))"

definition on_stopTextInputDecisionCapture :: "call_env \<Rightarrow> arguments \<Rightarrow> win_handler" where
  "on_stopTextInputDecisionCapture e args s =
     (let (ed, outs) = stop_editing (ce_in_time e) (le_registrar (lock_answers e)) (pl_editing s)
      in (s\<lparr>pl_editing := ed\<rparr>, outs, Answered null_answer))"

definition on_setDesktopServiceAvailable :: "call_env \<Rightarrow> arguments \<Rightarrow> win_handler" where
  "on_setDesktopServiceAvailable e args s =
     (let available = (case args of None \<Rightarrow> False
            | Some m \<Rightarrow> (case map_of m ''available'' of Some (EBool b) \<Rightarrow> b | _ \<Rightarrow> False))
      in (s\<lparr>pl_backend := (pl_backend s)\<lparr>be_svc := SetServiceAvailable (ce_start e) available (be_svc (pl_backend s))\<rparr>\<rparr>, [],
          Answered null_answer))"

definition on_getMonitorCount :: "call_env \<Rightarrow> arguments \<Rightarrow> win_handler" where
  "on_getMonitorCount e args s = (s, [], Answered (Success (EInt32 (ce_monitor_count e))))"

definition on_KeyPress :: "call_env \<Rightarrow> arguments \<Rightarrow> win_handler" where
  "on_KeyPress e args =
     need args ''code'' (\<lambda>keyCode. need args ''isDown'' (\<lambda>isDown.
     get_int keyCode (\<lambda>code. get_bool isDown (\<lambda>down s.
       after (inputs e
         (performKeyEvent (input_env e s) (ce_now e) (of_int code) down False (pl_win s)) s) id null_answer s))))"

definition on_performTextInput :: "call_env \<Rightarrow> arguments \<Rightarrow> win_handler" where
  "on_performTextInput e args s =
     (case args of
        None \<Rightarrow> stop_with (Answered (Failed ''INVALID_TEXT'' ''Missing text input arguments'')) s
      | Some m \<Rightarrow>
          (case map_of m ''text'' of
             Some (EString t) \<Rightarrow>
               (case BuildWindowsUnicodeTextInputs (ce_decode e) (utf8 t) of
                  None \<Rightarrow> stop_with (Answered (Failed ''INVALID_TEXT'' ''Text input is invalid or too long'')) s
                | Some is \<Rightarrow> after (inputs e (pl_win s, map Input is) s) id null_answer s)
           | _ \<Rightarrow> stop_with (Answered (Failed ''INVALID_TEXT'' ''Text input must be a string'')) s))"

text \<open>Inputs that keep no state; \<open>None\<close> has no defined behaviour.\<close>

definition sends :: "call_env \<Rightarrow> effect list option \<Rightarrow> win_handler" where
  "sends e r s =
     (case r of None \<Rightarrow> stop_with Undefined s
      | Some fs \<Rightarrow> after (inputs e (pl_win s, fs) s) id null_answer s)"

definition on_mouseMoveR :: "call_env \<Rightarrow> arguments \<Rightarrow> win_handler" where
  "on_mouseMoveR e args =
     need args ''x'' (\<lambda>deltax. need args ''y'' (\<lambda>deltay.
     get_double deltax (\<lambda>dx. get_double deltay (\<lambda>dy. sends e (performMouseMoveRelative dx dy)))))"

definition on_mouseMoveA :: "call_env \<Rightarrow> arguments \<Rightarrow> win_handler" where
  "on_mouseMoveA e args =
     need args ''x'' (\<lambda>percentx. need args ''y'' (\<lambda>percenty. need args ''screenId'' (\<lambda>screenId.
     get_double percentx (\<lambda>x. get_double percenty (\<lambda>y. get_int screenId (\<lambda>screen s.
       sends e (Some (performMouseMoveAbsl (input_env e s) x y screen)) s))))))"

definition on_mouseMoveToWindowPosition :: "call_env \<Rightarrow> arguments \<Rightarrow> win_handler" where
  "on_mouseMoveToWindowPosition e args =
     need args ''x'' (\<lambda>percentx. need args ''y'' (\<lambda>percenty.
     get_double percentx (\<lambda>x. get_double percenty (\<lambda>y s.
       sends e (performMouseMoveToWindowPosition (input_env e s) x y (le_client (lock_answers e) 0) False) s))))"

definition on_mousePress :: "call_env \<Rightarrow> arguments \<Rightarrow> win_handler" where
  "on_mousePress e args =
     need args ''buttonId'' (\<lambda>buttonid. need args ''isDown'' (\<lambda>isDown.
     get_int buttonid (\<lambda>button. get_bool isDown (\<lambda>down s.
       after (inputs e (pl_win s, performMouseButton button (\<not> down)) s)
         (\<lambda>s. if button = 1 \<and> \<not> down then inspect_after_up e (ReadOptionalInt64 args ''editFocusRequestId'') None s else s)
         null_answer s))))"

definition on_mouseScroll :: "call_env \<Rightarrow> arguments \<Rightarrow> win_handler" where
  "on_mouseScroll e args =
     need args ''dx'' (\<lambda>dx. need args ''dy'' (\<lambda>dy.
     get_double dx (\<lambda>x. get_double dy (\<lambda>y. sends e (performMouseScroll x y)))))"

definition on_trackpadScroll :: "call_env \<Rightarrow> arguments \<Rightarrow> win_handler" where
  "on_trackpadScroll e args =
     need args ''dx'' (\<lambda>dx. need args ''dy'' (\<lambda>dy.
     get_double dx (\<lambda>x. get_double dy (\<lambda>y s.
       case performTrackpadScroll x y (pl_trackpad s) of
         None \<Rightarrow> stop_with Undefined s
       | Some (acc, fs) \<Rightarrow> sends e (Some fs) (s\<lparr>pl_trackpad := acc\<rparr>)))))"

section \<open>Touch and pen\<close>

definition on_touchEvent :: "call_env \<Rightarrow> arguments \<Rightarrow> win_handler" where
  "on_touchEvent e args =
     need args ''screenId'' (\<lambda>screenId. need args ''x'' (\<lambda>x. need args ''y'' (\<lambda>y.
     need args ''touchId'' (\<lambda>touchId. need args ''isDown'' (\<lambda>isDown.
     get_int screenId (\<lambda>screen_id. get_double x (\<lambda>x_value. get_double y (\<lambda>y_value.
     get_bool isDown (\<lambda>down. get_int touchId (\<lambda>touch s.
       after (inputs e (performTouchEvent (input_env e s) (ce_now e) screen_id x_value y_value
           (of_int touch) down False (pl_win s)) s)
         (inspect_lift e args down screen_id x_value y_value) null_answer s))))))))))"

definition on_touchMove :: "call_env \<Rightarrow> arguments \<Rightarrow> win_handler" where
  "on_touchMove e args =
     need args ''screenId'' (\<lambda>screenId. need args ''x'' (\<lambda>x. need args ''y'' (\<lambda>y. need args ''touchId'' (\<lambda>touchId.
     get_int screenId (\<lambda>screen_id. get_double x (\<lambda>x_value. get_double y (\<lambda>y_value. get_int touchId (\<lambda>touch s.
       after (inputs e (performTouchMove (input_env e s) (ce_now e) screen_id x_value y_value
         (of_int touch) (pl_win s)) s) id null_answer s))))))))"

text \<open>\<open>None\<close>: the conversion of the pressure has no defined result.\<close>

definition on_penEvent :: "call_env \<Rightarrow> arguments \<Rightarrow> win_handler" where
  "on_penEvent e args =
     need args ''screenId'' (\<lambda>screenId. need args ''x'' (\<lambda>x. need args ''y'' (\<lambda>y. need args ''isDown'' (\<lambda>isDown.
     need args ''hasButton'' (\<lambda>hasButton. need args ''pressure'' (\<lambda>pressure. need args ''rotation'' (\<lambda>rotation.
     need args ''tilt'' (\<lambda>tilt.
     get_int screenId (\<lambda>screen_id. get_double x (\<lambda>x_value. get_double y (\<lambda>y_value. get_bool isDown (\<lambda>down.
     get_bool hasButton (\<lambda>button. get_double pressure (\<lambda>p. get_double rotation (\<lambda>r. get_double tilt (\<lambda>t s.
       case performPenEvent (input_env e s) (ce_now e) screen_id x_value y_value down button p r t (pl_win s) of
         None \<Rightarrow> stop_with Undefined s
       | Some w \<Rightarrow> after (inputs e w s) (inspect_lift e args down screen_id x_value y_value) null_answer s))))))))))))))))"

definition on_penMove :: "call_env \<Rightarrow> arguments \<Rightarrow> win_handler" where
  "on_penMove e args =
     need args ''screenId'' (\<lambda>screenId. need args ''x'' (\<lambda>x. need args ''y'' (\<lambda>y.
     need args ''hasButton'' (\<lambda>hasButton. need args ''pressure'' (\<lambda>pressure. need args ''rotation'' (\<lambda>rotation.
     need args ''tilt'' (\<lambda>tilt.
     get_int screenId (\<lambda>screen_id. get_double x (\<lambda>x_value. get_double y (\<lambda>y_value. get_bool hasButton (\<lambda>button.
     get_double pressure (\<lambda>p. get_double rotation (\<lambda>r. get_double tilt (\<lambda>t s.
       case performPenMove (input_env e s) (ce_now e) screen_id x_value y_value button p r t (pl_win s) of
         None \<Rightarrow> stop_with Undefined s
       | Some w \<Rightarrow> after (inputs e w s) id null_answer s))))))))))))))"

definition on_penHover :: "call_env \<Rightarrow> arguments \<Rightarrow> win_handler" where
  "on_penHover e args =
     need args ''screenId'' (\<lambda>screenId. need args ''x'' (\<lambda>x. need args ''y'' (\<lambda>y.
     get_int screenId (\<lambda>screen_id. get_double x (\<lambda>x_value. get_double y (\<lambda>y_value s.
       after (inputs e (performPenHover (input_env e s) (ce_now e) screen_id x_value y_value (pl_win s)) s) id null_answer s))))))"

definition on_clearAllPressedEvents :: "call_env \<Rightarrow> arguments \<Rightarrow> win_handler" where
  "on_clearAllPressedEvents e args s =
     (case WinPointer.clearAllPressedEvents (input_env e s) (ce_now e) (pl_win s) of
        Inl fs \<Rightarrow> undefined_after (inputs e (pl_win s, fs) s) s
      | Inr r \<Rightarrow> after (inputs e r s) id null_answer s)"

section \<open>Subscriptions and gamepads\<close>

text \<open>An identifier is looked up and read before the next argument is looked up.\<close>

definition need_int :: "arguments \<Rightarrow> string \<Rightarrow> (int \<Rightarrow> win_handler) \<Rightarrow> win_handler" where
  "need_int args key k = need args key (\<lambda>v. get_int v k)"

definition cursors :: "Monitor \<times> cursor_effect list \<Rightarrow> win_plugin \<Rightarrow> win_plugin \<times> win_out list \<times> verdict" where
  "cursors r s = (s\<lparr>pl_cursors := fst r\<rparr>, map CursorOut (snd r), Answered null_answer)"

definition on_hookCursorImage :: "call_env \<Rightarrow> arguments \<Rightarrow> win_handler" where
  "on_hookCursorImage e args =
     need_int args ''callbackID'' (\<lambda>callbackID. need args ''hookAll'' (\<lambda>v. get_bool v (\<lambda>hookAll s.
       cursors (startHook (ce_cursor e) callbackID hookAll (pl_ratio s) (pl_cursors s)) s)))"

definition on_unhookCursorImage :: "call_env \<Rightarrow> arguments \<Rightarrow> win_handler" where
  "on_unhookCursorImage e args =
     need_int args ''callbackID'' (\<lambda>callbackID s. cursors (endHook callbackID (pl_cursors s)) s)"

definition on_hookCursorPosition :: "call_env \<Rightarrow> arguments \<Rightarrow> win_handler" where
  "on_hookCursorPosition e args =
     need_int args ''callbackID'' (\<lambda>callbackID s. cursors (startPositionHook (ce_cursor e) callbackID (pl_cursors s)) s)"

definition on_unhookCursorPosition :: "call_env \<Rightarrow> arguments \<Rightarrow> win_handler" where
  "on_unhookCursorPosition e args =
     need_int args ''callbackID'' (\<lambda>callbackID s. cursors (endPositionHook callbackID (pl_cursors s)) s)"

definition on_addDisplayCountChangedCallback :: "call_env \<Rightarrow> arguments \<Rightarrow> win_handler" where
  "on_addDisplayCountChangedCallback e args =
     need_int args ''callbackID'' (\<lambda>callbackID s.
       (s\<lparr>pl_lock := addDisplayCountChangedCallback (display_count_lambda callbackID) callbackID (pl_lock s)\<rparr>, [],
        Answered null_answer))"

definition on_removeDisplayCountChangedCallback :: "call_env \<Rightarrow> arguments \<Rightarrow> win_handler" where
  "on_removeDisplayCountChangedCallback e args =
     need_int args ''callbackID'' (\<lambda>callbackID s.
       (s\<lparr>pl_lock := removeDisplayCountChangedCallback callbackID (pl_lock s)\<rparr>, [], Answered null_answer))"

text \<open>
  The first subscription to motor feedback registers a message and a delegate. A failure on the way keeps
  what was found so far; the next subscription begins again.
\<close>

definition prepare_rumble :: "call_env \<Rightarrow> win_plugin \<Rightarrow> win_plugin \<times> win_out list \<times> string option" where
  "prepare_rumble e s =
     (if pl_rumble_proc s \<noteq> None then (s, [], None)
      else
        let window = (if le_registrar (lock_answers e) then (case le_view (lock_answers e) of Some w \<Rightarrow> w | None \<Rightarrow> 0) else 0)
        in if window = 0 then (s, [], Some ''No window for gamepad feedback'')
           else
             let s = s\<lparr>pl_rumble_message := ce_message e, pl_rumble_window := ce_root e window\<rparr>;
                 o1 = [RegisterWindowMessage ''CloudPlayPlus.GamepadRumble'']
             in if pl_rumble_message s = 0 \<or> pl_rumble_window s = 0
                then (s, o1, Some ''Unable to initialize gamepad feedback window'')
                else (s\<lparr>pl_rumble_proc := Some (ce_proc e)\<rparr>, o1 @ [LockOut (RegisterDelegate (ce_proc e))], None))"

definition on_subscribeGamepadRumble :: "call_env \<Rightarrow> arguments \<Rightarrow> win_handler" where
  "on_subscribeGamepadRumble e args s =
     (case args of
        None \<Rightarrow> stop_with (Answered (Failed ''rumble_unavailable'' ''Missing gamepad feedback arguments'')) s
      | Some m \<Rightarrow>
          let (s, o1, problem) = prepare_rumble e s;
              refused = Failed ''rumble_unavailable'' ''Unable to subscribe to virtual gamepad feedback''
          in (case problem of
                Some message \<Rightarrow> (s, o1, Answered (Failed ''rumble_unavailable'' message))
              | None \<Rightarrow>
                  (case (map_of m ''id'', map_of m ''token'') of
                     (Some (EInt32 cid), Some (EInt32 token)) \<Rightarrow>
                       let (ok, g, calls) = SubscribeRumble (ce_vigem e) cid token
                             (if pl_rumble_window s = 0 then None else Some (pl_rumble_window s)) (pl_rumble_message s)
                             (pl_gamepads s)
                       in (s\<lparr>pl_gamepads := g\<rparr>, o1 @ map GamepadOut calls, Answered (if ok then null_answer else refused))
                   | _ \<Rightarrow> (s, o1, Answered refused))))"

definition on_createGameController :: "call_env \<Rightarrow> arguments \<Rightarrow> win_handler" where
  "on_createGameController e args s =
     (let (hr, g, calls) = CreateGameController (ce_vigem e) (pl_gamepads s)
      in (s\<lparr>pl_gamepads := g\<rparr>, map GamepadOut calls, Answered (Success (EInt32 hr))))"

text \<open>The result is a \<open>bool\<close> that is stored in an \<open>int\<close>.\<close>

definition on_removeGameController :: "call_env \<Rightarrow> arguments \<Rightarrow> win_handler" where
  "on_removeGameController e args =
     need_int args ''id'' (\<lambda>cid s.
       let (ok, g, calls) = RemoveGameController (ce_vigem e) cid (pl_gamepads s)
       in (s\<lparr>pl_gamepads := g\<rparr>, map GamepadOut calls, Answered (Success (EInt32 (if ok then 1 else 0)))))"

definition on_doControlAction :: "call_env \<Rightarrow> arguments \<Rightarrow> win_handler" where
  "on_doControlAction e args s =
     (case args of
        None \<Rightarrow> stop_with (Answered (Failed ''NullArguments'' ''Arguments are null for doControlAction'')) s
      | Some m \<Rightarrow>
          (case (map_of m ''id'', map_of m ''action'') of
             (Some (EInt32 cid), Some (EString action)) \<Rightarrow>
               (s, map GamepadOut (snd (DoControllerAction (ce_vigem e) (ce_gamepad e) (ce_nextparam e) cid action (pl_gamepads s))),
                Answered null_answer)
           | _ \<Rightarrow> stop_with (Answered (Failed ''InvalidArguments'' ''Missing or invalid arguments for doControlAction'')) s))"

section \<open>Processes and notifications\<close>

definition on_registerService :: "call_env \<Rightarrow> arguments \<Rightarrow> win_handler" where
  "on_registerService e args s =
     (let (code, allowed_to_run, outs) = RunExeAsAdmin (ce_exe e) ''cloudplayplus_desktop_svc.exe'' ''--install'' True
      in (s, outs, Answered (truth allowed_to_run)))"

definition on_unregisterService :: "call_env \<Rightarrow> arguments \<Rightarrow> win_handler" where
  "on_unregisterService e args s =
     (let (code, allowed_to_run, outs) = RunExeAsAdmin (ce_exe e) ''cloudplayplus_desktop_svc.exe'' ''--uninstall'' True
      in (s, outs, Answered null_answer))"

definition on_isRunningAsSystem :: "call_env \<Rightarrow> arguments \<Rightarrow> win_handler" where
  "on_isRunningAsSystem e args s = (s, [], Answered (truth (fst (IsRunningAsSystem (ce_token e)))))"

text \<open>The result of this method is never completed.\<close>

definition on_showNotification :: "call_env \<Rightarrow> arguments \<Rightarrow> win_handler" where
  "on_showNotification e args =
     need args ''content'' (\<lambda>v. get_string v (\<lambda>content s.
       (s, [ShowNotification (ce_wide e (utf8 content))], Unanswered)))"

section \<open>Displays\<close>

definition on_setPrimaryDisplay :: "call_env \<Rightarrow> arguments \<Rightarrow> win_handler" where
  "on_setPrimaryDisplay e args =
     need_int args ''displayIndex'' (\<lambda>displayIndex s.
       let (success, outs) = setPrimaryDisplay (ce_world e) (ce_change_ok e) displayIndex
       in (s, outs, Answered (truth success)))"

text \<open>A thread of its own makes the calls and answers.\<close>

definition on_ensureConsoleForDisplay :: "call_env \<Rightarrow> arguments \<Rightarrow> win_handler" where
  "on_ensureConsoleForDisplay e args s =
     (let (ok, calls) = EnsureConsoleForDisplay (ce_console e) in (s, map DisplayOut calls, AnsweredLater (truth ok)))"

definition on_initParsecVdd :: "call_env \<Rightarrow> arguments \<Rightarrow> win_handler" where
  "on_initParsecVdd e args s =
     (if \<not> vs_initialized (pl_vdd s) then
        let (ok, d, calls) = Initialize (ce_console e) (ce_status e) (ce_interfaces e) (pl_vdd s)
        in (s\<lparr>pl_vdd := d\<rparr>, map DisplayOut calls,
            Answered (if ok then truth True else Failed ''INIT_FAILED'' ''Failed to initialize ParsecVdd''))
      else (s, [], Answered (truth True)))"

definition not_initialized :: answer where
  "not_initialized = Failed ''NOT_INITIALIZED'' ''Parsec not initialized''"

definition on_createDisplay :: "call_env \<Rightarrow> arguments \<Rightarrow> win_handler" where
  "on_createDisplay e args s =
     (if vs_initialized (pl_vdd s) then
        let (displayId, d, calls) = AddDisplay (ce_driver e) (ce_worlds e) (pl_vdd s)
        in (s\<lparr>pl_vdd := d\<rparr>, map DisplayOut calls,
            Answered (if 0 \<le> displayId then Success (EInt32 displayId)
                      else Failed ''CREATE_FAILED'' ''Failed to create display''))
      else stop_with (Answered not_initialized) s)"

text \<open>Whether the display could be removed is not looked at.\<close>

definition on_removeDisplay :: "call_env \<Rightarrow> arguments \<Rightarrow> win_handler" where
  "on_removeDisplay e args =
     lookup_or (Failed ''MISSING_ARGUMENT'' (''Missing '' @ quoted ''displayUid'' @ '' argument'')) args ''displayUid'' (\<lambda>displayId s.
       if vs_initialized (pl_vdd s) then
         get_int displayId (\<lambda>uid s.
           let (removed, d, calls) = RemoveDisplay uid (pl_vdd s)
           in (s\<lparr>pl_vdd := d\<rparr>, map DisplayOut calls, Answered (truth True))) s
       else stop_with (Answered not_initialized) s)"

definition on_checkVddStatus :: "call_env \<Rightarrow> arguments \<Rightarrow> win_handler" where
  "on_checkVddStatus e args s = (s, [], Answered (truth (CheckVddStatus (ce_status e))))"

definition on_getAllDisplays :: "call_env \<Rightarrow> arguments \<Rightarrow> win_handler" where
  "on_getAllDisplays e args s =
     (let ds = GetAllDisplays (ce_world e)
      in (s\<lparr>pl_vdd := (pl_vdd s)\<lparr>vs_displays := ds\<rparr>\<rparr>, [], Answered (Success (EInt32 (int (length ds))))))"

definition display_map :: "DetailedDisplayInfo \<Rightarrow> encodable" where
  "display_map d =
     (let c = ddi_config d; i = ddi_info d in EMap
       [(''index'', EInt32 (int (ddi_index d))), (''width'', EInt32 (dcf_width c)), (''height'', EInt32 (dcf_height c)),
        (''refreshRate'', EInt32 (dcf_refresh_rate c)), (''active'', EBool (di_active i)),
        (''displayUid'', EInt32 (ddi_uid d)), (''rawScreenId'', EInt32 (di_raw_screen_id i)),
        (''deviceName'', EString (di_device_name i)), (''displayName'', EString (di_display_name i)),
        (''isVirtual'', EBool (di_is_virtual i)), (''orientation'', EInt32 (sint (ddi_orientation d))),
        (''left'', EInt32 (r_left (di_rect i))), (''top'', EInt32 (r_top (di_rect i))),
        (''right'', EInt32 (r_right (di_rect i))), (''bottom'', EInt32 (r_bottom (di_rect i))),
        (''isPrimary'', EBool (di_is_primary i))])"

definition on_getDisplayList :: "call_env \<Rightarrow> arguments \<Rightarrow> win_handler" where
  "on_getDisplayList e args s =
     (let (displays, d) = GetDetailedDisplayList (ce_world e) (pl_vdd s)
      in (s\<lparr>pl_vdd := d\<rparr>, [], Answered (Success (EList (map display_map displays)))))"

definition missing_argument :: "string \<Rightarrow> answer" where
  "missing_argument message = Failed ''MISSING_ARGUMENT'' message"

definition on_changeDisplaySettings :: "call_env \<Rightarrow> arguments \<Rightarrow> win_handler" where
  "on_changeDisplaySettings e args =
     (if args = None then stop_with (Answered (Failed ''INVALID_ARGUMENTS'' ''Arguments must be a map''))
      else
        lookup_or (missing_argument (''Missing '' @ quoted ''displayUid'' @ '' argument'')) args ''displayUid'' (\<lambda>uid_it. get_int uid_it (\<lambda>display_uid.
        let missing = missing_argument ''Missing width, height, or refreshRate arguments'' in
        lookup_or missing args ''width'' (\<lambda>width_it. lookup_or missing args ''height'' (\<lambda>height_it.
        lookup_or missing args ''refreshRate'' (\<lambda>refresh_rate_it.
        get_int width_it (\<lambda>width. get_int height_it (\<lambda>height. get_int refresh_rate_it (\<lambda>refresh_rate s.
          let (success, calls) = ChangeDisplaySettings (ce_change_ok e) display_uid
                \<lparr>dcf_width = width, dcf_height = height, dcf_refresh_rate = refresh_rate\<rparr> (pl_vdd s)
          in (s, map DisplayOut calls, Answered (truth success)))))))))))"

definition config_map :: "DisplayConfig \<Rightarrow> encodable" where
  "config_map c = EMap [(''width'', EInt32 (dcf_width c)), (''height'', EInt32 (dcf_height c)),
     (''refreshRate'', EInt32 (dcf_refresh_rate c))]"

definition on_getDisplayConfigs :: "call_env \<Rightarrow> arguments \<Rightarrow> win_handler" where
  "on_getDisplayConfigs e args =
     lookup_or (missing_argument (''Missing '' @ quoted ''displayUid'' @ '' argument'')) args ''displayUid'' (\<lambda>v. get_int v (\<lambda>display_uid s.
       let (displays, d) = GetDetailedDisplayList (ce_world e) (pl_vdd s); s = s\<lparr>pl_vdd := d\<rparr> in
       if find_index (\<lambda>display. ddi_uid display = display_uid) displays = None
       then (s, [], Answered (Failed ''DISPLAY_NOT_FOUND'' ''Display not found''))
       else
         let (configs, d) = GetDisplayConfigs (ce_world e) display_uid (pl_vdd s)
         in (s\<lparr>pl_vdd := d\<rparr>, [], Answered (Success (EList (map config_map configs))))))"

text \<open>The desktop service is asked first, then the registry.\<close>

definition on_getCustomDisplayConfigs :: "call_env \<Rightarrow> arguments \<Rightarrow> win_handler" where
  "on_getCustomDisplayConfigs e args s =
     (let (c, served, configs) = GetCustomDisplayConfigs (ce_ctl e) [] (pl_ctl s);
          configs = (if served then configs else RegGetCustomDisplayConfigs (ce_reg_opened e) (pl_registry s))
      in (s\<lparr>pl_ctl := c\<rparr>, [], Answered (Success (EList (map config_map configs)))))"

text \<open>The list of configurations: an item that is no map, or has a value of another type, throws; one without all
  three values is left out.\<close>

fun read_config_list :: "encodable list \<Rightarrow> DisplayConfig list option" where
  "read_config_list [] = Some []"
| "read_config_list (v # vs) =
     (case v of
        EMap m \<Rightarrow>
          (case (map_of m ''width'', map_of m ''height'', map_of m ''refreshRate'') of
             (Some w, Some h, Some r) \<Rightarrow>
               (case (w, h, r) of
                  (EInt32 width, EInt32 height, EInt32 refresh_rate) \<Rightarrow>
                    map_option (Cons \<lparr>dcf_width = width, dcf_height = height, dcf_refresh_rate = refresh_rate\<rparr>) (read_config_list vs)
                | _ \<Rightarrow> None)
           | _ \<Rightarrow> read_config_list vs)
      | _ \<Rightarrow> None)"

definition on_setCustomDisplayConfigs :: "call_env \<Rightarrow> arguments \<Rightarrow> win_handler" where
  "on_setCustomDisplayConfigs e args =
     lookup_or (missing_argument (''Missing '' @ quoted ''configs'' @ '' argument'')) args ''configs'' (\<lambda>v. get_list v (\<lambda>configs_list s.
       case read_config_list configs_list of
         None \<Rightarrow> stop_with Thrown s
       | Some configs \<Rightarrow>
           let (c, served, success) = SetCustomDisplayConfigs (ce_ctl e) configs (pl_ctl s);
               s = s\<lparr>pl_ctl := c\<rparr>
           in if served then (s, [], Answered (truth success))
              else
                let (success, reg) = RegSetCustomDisplayConfigs (ce_reg_opened e) (ce_reg_created e) (ce_reg_deleted e)
                      configs (pl_registry s)
                in (s\<lparr>pl_registry := reg\<rparr>, [], Answered (truth success))))"

definition on_setDisplayOrientation :: "call_env \<Rightarrow> arguments \<Rightarrow> win_handler" where
  "on_setDisplayOrientation e args =
     (let missing = missing_argument ''Missing required arguments'' in
      lookup_or missing args ''displayUid'' (\<lambda>display_uid_it. lookup_or missing args ''orientation'' (\<lambda>orientation_it.
      get_int display_uid_it (\<lambda>display_uid. get_int orientation_it (\<lambda>orientation s.
        let (success, d, calls) = SetDisplayOrientation (ce_world e) (ce_change_ok e) display_uid (of_int orientation) (pl_vdd s)
        in (s\<lparr>pl_vdd := d\<rparr>, map DisplayOut calls, Answered (truth success)))))))"

definition on_getDisplayOrientation :: "call_env \<Rightarrow> arguments \<Rightarrow> win_handler" where
  "on_getDisplayOrientation e args =
     lookup_or (missing_argument ''Missing displayUid argument'') args ''displayUid'' (\<lambda>v. get_int v (\<lambda>display_uid s.
       (s, [], Answered (Success (EInt32 (sint (GetDisplayOrientation display_uid (pl_vdd s))))))))"

definition mode_of_int :: "int \<Rightarrow> MultiDisplayMode" where
  "mode_of_int i = (if i = 0 then Extend else if i = 1 then PrimaryOnly else if i = 2 then SecondaryOnly
     else if i = 3 then Duplicate else UnknownMode)"

definition int_of_mode :: "MultiDisplayMode \<Rightarrow> int" where
  "int_of_mode m = (case m of Extend \<Rightarrow> 0 | PrimaryOnly \<Rightarrow> 1 | SecondaryOnly \<Rightarrow> 2 | Duplicate \<Rightarrow> 3 | UnknownMode \<Rightarrow> 4)"

definition on_setMultiDisplayMode :: "call_env \<Rightarrow> arguments \<Rightarrow> win_handler" where
  "on_setMultiDisplayMode e args =
     lookup_or (missing_argument ''Missing mode argument'') args ''mode'' (\<lambda>mode_it. get_int mode_it (\<lambda>mode s.
       let switch = (let (success, calls) = SetMultiDisplayMode (mode_of_int mode) (ce_os_result e)
                     in (s, map (\<lambda>c. DisplayOut (topology_call c)) calls, Answered (truth success)))
       in case args of
            None \<Rightarrow> switch
          | Some m \<Rightarrow>
              (case map_of m ''primaryDisplayId'' of
                 None \<Rightarrow> switch
               | Some (EInt32 primary_display_id) \<Rightarrow> switch
               | Some _ \<Rightarrow> stop_with Thrown s)))"

definition on_getCurrentMultiDisplayMode :: "call_env \<Rightarrow> arguments \<Rightarrow> win_handler" where
  "on_getCurrentMultiDisplayMode e args s =
     (s, [], Answered (Success (EInt32 (int_of_mode (GetCurrentMultiDisplayMode (ce_query e))))))"

definition on_setPrimaryDisplayOnly :: "call_env \<Rightarrow> arguments \<Rightarrow> win_handler" where
  "on_setPrimaryDisplayOnly e args =
     lookup_or (missing_argument ''Missing displayUid argument'') args ''displayUid'' (\<lambda>v. get_int v (\<lambda>display_uid s.
       let d = pl_vdd s;
           (success, b, calls) = SetPrimaryDisplayOnly (ce_database e) (ce_active e) (ce_query e) (ce_names e) (ce_os_result e)
             (map (\<lambda>v. (vd_uid v, di_device_name (vd_info v))) (vs_displays d)) display_uid (vs_backup d)
       in (s\<lparr>pl_vdd := d\<lparr>vs_backup := b\<rparr>\<rparr>, map (\<lambda>c. DisplayOut (topology_call c)) calls, Answered (truth success))))"

definition restore_displays :: "call_env \<Rightarrow> win_plugin \<Rightarrow> bool \<times> win_plugin \<times> win_out list" where
  "restore_displays e s =
     (let (success, b, calls) = RestoreDisplayConfiguration (ce_apply1 e) (ce_apply2 e) (vs_backup (pl_vdd s))
      in (success, s\<lparr>pl_vdd := (pl_vdd s)\<lparr>vs_backup := b\<rparr>\<rparr>, map (\<lambda>c. DisplayOut (topology_call c)) calls))"

definition on_restoreDisplayConfiguration :: "call_env \<Rightarrow> arguments \<Rightarrow> win_handler" where
  "on_restoreDisplayConfiguration e args s =
     (let (success, s, outs) = restore_displays e s in (s, outs, Answered (truth success)))"

definition on_hasPendingConfiguration :: "call_env \<Rightarrow> arguments \<Rightarrow> win_handler" where
  "on_hasPendingConfiguration e args s = (s, [], Answered (truth (has_backup (vs_backup (pl_vdd s)))))"

section \<open>Immersive mode and the cursor lock\<close>

definition on_putImmersiveModeEnabled :: "call_env \<Rightarrow> arguments \<Rightarrow> win_handler" where
  "on_putImmersiveModeEnabled e args =
     need args ''enabled'' (\<lambda>v. get_bool v (\<lambda>enabled s.
       let (b, outs) = SetImmersiveMode (ce_desktop e) (ce_hook e) enabled (pl_blocker s)
       in (s\<lparr>pl_blocker := b\<rparr>, map KeyOut outs, Answered (truth True))))"

definition on_setDragWindowContents :: "call_env \<Rightarrow> arguments \<Rightarrow> win_handler" where
  "on_setDragWindowContents e args =
     need args ''enabled'' (\<lambda>v. get_bool v (\<lambda>enabled s.
       (s, setDragWindowContents (ce_reg_desktop e) enabled, Answered null_answer)))"

text \<open>The one input the lock sends goes to \<open>SendInput\<close> directly, whose answer is not looked at.\<close>

fun local_sends :: "os \<Rightarrow> plugin_call list \<Rightarrow> backend \<Rightarrow> backend" where
  "local_sends os [] b = b"
| "local_sends os (c # cs) b =
     local_sends os cs (case c of Sent (LocalInput i) \<Rightarrow> fst (SendInput os i b) | _ \<Rightarrow> b)"

definition locks :: "call_env \<Rightarrow> answer \<Rightarrow> plugin_call list + cursor_lock \<times> plugin_call list \<Rightarrow> win_handler" where
  "locks e a r s =
     (case r of Inl calls \<Rightarrow> (s, map LockOut calls, Undefined)
      | Inr (l, calls) \<Rightarrow>
          (s\<lparr>pl_lock := l, pl_backend := local_sends (input_os e) calls (pl_backend s)\<rparr>, map LockOut calls, Answered a))"

definition on_lockCursor :: "call_env \<Rightarrow> arguments \<Rightarrow> win_handler" where
  "on_lockCursor e args s = locks e (truth True) (LockCursor (lock_answers e) (pl_lock s)) s"

definition on_unlockCursor :: "call_env \<Rightarrow> arguments \<Rightarrow> win_handler" where
  "on_unlockCursor e args s = locks e (truth True) (Inr (UnlockCursor (pl_lock s))) s"

definition on_unlockCursorAndReseed :: "call_env \<Rightarrow> arguments \<Rightarrow> win_handler" where
  "on_unlockCursorAndReseed e args =
     need args ''x'' (\<lambda>percentx. need args ''y'' (\<lambda>percenty.
     get_double percentx (\<lambda>x. get_double percenty (\<lambda>y s.
       locks e (truth True) (UnlockCursorAndReseed (input_env e s) (lock_answers e) x y (pl_lock s)) s))))"

definition on_updateStaticMonitors :: "call_env \<Rightarrow> arguments \<Rightarrow> win_handler" where
  "on_updateStaticMonitors e args s = locks e null_answer (Inr (UpdateStaticMonitors (ce_world e) (pl_lock s))) s"

section \<open>Dispatch\<close>

definition win_methods :: "(string \<times> (call_env \<Rightarrow> arguments \<Rightarrow> win_handler)) list" where
  "win_methods = [(''getPlatformVersion'', on_getPlatformVersion),
   (''startTextInputDecisionCapture'', on_startTextInputDecisionCapture),
   (''startWindowsTextInputDecisionCapture'', on_startTextInputDecisionCapture),
   (''stopTextInputDecisionCapture'', on_stopTextInputDecisionCapture),
   (''stopWindowsTextInputDecisionCapture'', on_stopTextInputDecisionCapture),
   (''setDesktopServiceAvailable'', on_setDesktopServiceAvailable),
   (''getMonitorCount'', on_getMonitorCount),
   (''KeyPress'', on_KeyPress),
   (''performTextInput'', on_performTextInput),
   (''mouseMoveR'', on_mouseMoveR),
   (''mouseMoveA'', on_mouseMoveA),
   (''mouseMoveToWindowPosition'', on_mouseMoveToWindowPosition),
   (''mousePress'', on_mousePress),
   (''mouseScroll'', on_mouseScroll),
   (''trackpadScroll'', on_trackpadScroll),
   (''hookCursorImage'', on_hookCursorImage),
   (''unhookCursorImage'', on_unhookCursorImage),
   (''hookCursorPosition'', on_hookCursorPosition),
   (''unhookCursorPosition'', on_unhookCursorPosition),
   (''addDisplayCountChangedCallback'', on_addDisplayCountChangedCallback),
   (''removeDisplayCountChangedCallback'', on_removeDisplayCountChangedCallback),
   (''subscribeGamepadRumble'', on_subscribeGamepadRumble),
   (''createGameController'', on_createGameController),
   (''removeGameController'', on_removeGameController),
   (''doControlAction'', on_doControlAction),
   (''registerService'', on_registerService),
   (''unregisterService'', on_unregisterService),
   (''isRunningAsSystem'', on_isRunningAsSystem),
   (''showNotification'', on_showNotification),
   (''touchEvent'', on_touchEvent),
   (''touchMove'', on_touchMove),
   (''penEvent'', on_penEvent),
   (''penMove'', on_penMove),
   (''penHover'', on_penHover),
   (''clearAllPressedEvents'', on_clearAllPressedEvents),
   (''setPrimaryDisplay'', on_setPrimaryDisplay),
   (''ensureConsoleForDisplay'', on_ensureConsoleForDisplay),
   (''initParsecVdd'', on_initParsecVdd),
   (''createDisplay'', on_createDisplay),
   (''removeDisplay'', on_removeDisplay),
   (''checkVddStatus'', on_checkVddStatus),
   (''getAllDisplays'', on_getAllDisplays),
   (''getDisplayList'', on_getDisplayList),
   (''changeDisplaySettings'', on_changeDisplaySettings),
   (''getDisplayConfigs'', on_getDisplayConfigs),
   (''getCustomDisplayConfigs'', on_getCustomDisplayConfigs),
   (''setCustomDisplayConfigs'', on_setCustomDisplayConfigs),
   (''setDisplayOrientation'', on_setDisplayOrientation),
   (''getDisplayOrientation'', on_getDisplayOrientation),
   (''setMultiDisplayMode'', on_setMultiDisplayMode),
   (''getCurrentMultiDisplayMode'', on_getCurrentMultiDisplayMode),
   (''setPrimaryDisplayOnly'', on_setPrimaryDisplayOnly),
   (''restoreDisplayConfiguration'', on_restoreDisplayConfiguration),
   (''hasPendingConfiguration'', on_hasPendingConfiguration),
   (''putImmersiveModeEnabled'', on_putImmersiveModeEnabled),
   (''setDragWindowContents'', on_setDragWindowContents),
   (''lockCursor'', on_lockCursor),
   (''unlockCursor'', on_unlockCursor),
   (''unlockCursorAndReseed'', on_unlockCursorAndReseed),
   (''updateStaticMonitors'', on_updateStaticMonitors)]"

definition HandleMethodCall :: "call_env \<Rightarrow> string \<Rightarrow> encodable \<Rightarrow> win_handler" where
  "HandleMethodCall e method_name v s =
     (case map_of win_methods method_name of
        None \<Rightarrow> (s, [], Answered NotImplemented)
      | Some handler \<Rightarrow> handler e (call_arguments v) s)"

section \<open>Life of the plugin\<close>

text \<open>What the static members hold before the plugin is registered, and the members after its constructor.\<close>

definition new_win_plugin :: "vdd_registry \<Rightarrow> win_plugin" where
  "new_win_plugin reg =
     \<lparr>pl_win = init_win, pl_trackpad = (Fin 0, Fin 0), pl_gamepads = init_gamepads, pl_rumble_proc = None,
      pl_rumble_message = 0, pl_rumble_window = 0, pl_cursors = init_monitor, pl_lock = init_cursor_lock,
      pl_blocker = init_blocker, pl_vdd = init_vdd, pl_ctl = init_ctl, pl_backend = \<lparr>be_svc = init_svc, be_touch_device = False,
      be_pen_device = False, be_calls = 0, be_taken = []\<rparr>, pl_registry = reg,
      pl_editing = no_editing, pl_ratio = Fin 1, pl_view_window = 0, pl_thread_running = False, pl_dpi_proc = None\<rparr>"

text \<open>\<open>ratio\<close>: \<open>CursorMonitor::sourceDevicePixelRatioForWindow\<close> of the view.\<close>

definition RegisterWithRegistrar :: "call_env \<Rightarrow> dbl \<Rightarrow> win_plugin \<Rightarrow> win_plugin \<times> win_out list" where
  "RegisterWithRegistrar e ratio s =
     (let (s, o1) = (case le_view (lock_answers e) of
            None \<Rightarrow> (s, [])
          | Some w \<Rightarrow> (s\<lparr>pl_view_window := w\<rparr>, if w \<noteq> 0 then [SubclassView w] else []));
          s = s\<lparr>pl_ratio := ratio\<rparr>;
          (s, o2) = (if g_auto_repeat_enabled (pl_win s) then StartMonitorThread s else (s, []));
          (l, told) = UpdateStaticMonitors (ce_world e) (pl_lock s)
      in (s\<lparr>pl_lock := l, pl_dpi_proc := Some (ce_proc e)\<rparr>,
          o1 @ o2 @ map LockOut (told @ [RegisterDelegate (ce_proc e)])))"

text \<open>
  The destructor. While \<open>Close\<close> waits, the input thread runs to its end; \<open>thread\<close> are its steps. \<open>None\<close>:
  they do not lead there. The delegate of the motor feedback is not reset, the object is gone.
\<close>

definition destroy_plugin :: "call_env \<Rightarrow> label list \<Rightarrow> win_plugin \<Rightarrow> (win_plugin \<times> win_out list) option" where
  "destroy_plugin e thread s =
     (let (g, c1) = StopRumbleNotifications (pl_gamepads s);
          o1 = map GamepadOut c1 @
            (case pl_rumble_proc s of Some proc_id \<Rightarrow> [LockOut (UnregisterDelegate proc_id)] | None \<Rightarrow> []) @
            (if pl_rumble_window s \<noteq> 0 \<and> pl_rumble_message s \<noteq> 0
             then [DiscardMessages (pl_rumble_window s) (pl_rumble_message s)] else []);
          (ed, o2) = stop_editing (ce_in_time e) True (pl_editing s);
          o3 = (if pl_view_window s \<noteq> 0 then [UnsubclassView (pl_view_window s)] else []);
          (restored, s, o4) = restore_displays e
            (s\<lparr>pl_gamepads := g, pl_editing := ed, pl_view_window := 0, pl_rumble_proc := None\<rparr>)
      in case svc_run ([CloseRequest] @ thread @ [CloseJoined]) (be_svc (pl_backend s)) of
           None \<Rightarrow> None
         | Some svc \<Rightarrow>
             let (s, o5) = StopMonitorThread s;
                 (b, o6) = destroyTouchDevice (ce_user32 e) ((pl_backend s)\<lparr>be_svc := svc\<rparr>);
                 (b, o7) = destroy_pen_device (ce_user32 e) b;
                 s = s\<lparr>pl_backend := b, pl_win := WinPointer.destroyPenDevice (pl_win s)\<rparr>;
                 (l, c8) = CleanupCursorLock (pl_lock s);
                 c9 = (case pl_dpi_proc s of Some proc_id \<Rightarrow> [UnregisterDelegate proc_id] | None \<Rightarrow> [])
             in Some (s\<lparr>pl_lock := l, pl_dpi_proc := None\<rparr>,
                      o1 @ o2 @ o3 @ o4 @ o5 @ o6 @ o7 @ map LockOut (c8 @ c9)))"

section \<open>Events\<close>

text \<open>
  What happens between registration and destruction: calls, the messages of the top-level window for the
  delegate that is registered for them, events of the cursor and the keyboard, and the steps of the threads.
\<close>

datatype win_event =
    MethodCall string encodable
  | RumbleMessage u32 u64 u64
  | EditingMessage u32 bool
  | RawMessage u32 "(u32 \<times> u32) option"
  | DpiMessage u32
  | CursorChanged cursor_event bool
  | KeyboardHook hook_event
  | RepeatTick
  | EditingWorker worker_op bool
  | DetachedWorker nat worker_op bool
  | InputThread label

text \<open>What the worker thread does itself.\<close>

definition thread_op :: "worker_op \<Rightarrow> bool" where
  "thread_op op = (case op of EditFocus.Wake \<Rightarrow> True | Timeout \<Rightarrow> True | WaitFails \<Rightarrow> True | InspectNow w \<Rightarrow> True | Deliver \<Rightarrow> True | _ \<Rightarrow> False)"

text \<open>A decision that the worker delivers is put into the slot; \<open>posted\<close>: \<open>PostMessage\<close> succeeds.\<close>

definition queue_decision :: "bool \<Rightarrow> editing \<Rightarrow> WindowsTextInputDecision \<Rightarrow> editing" where
  "queue_decision posted ed d = ed\<lparr>ed_slot := QueueWindowsTextInputDecision posted d (ed_slot ed)\<rparr>"

definition win_step :: "call_env \<times> win_event \<Rightarrow> win_plugin \<Rightarrow> (win_plugin \<times> win_out list) option" where
  "win_step ev s =
     (let e = fst ev in
      case snd ev of
        MethodCall method_name v \<Rightarrow>
          (case HandleMethodCall e method_name v s of (s', outs, verdict) \<Rightarrow>
             if verdict = Undefined \<or> verdict = Hanging then None else Some (s', outs))
      | RumbleMessage message cookie motors \<Rightarrow>
          (if pl_rumble_proc s = None then Some (s, [])
           else (case rumble_delegate (pl_rumble_message s) (pl_gamepads s) message cookie motors of
               Some (Some rumble) \<Rightarrow> Some (s, [RumbleEvent rumble])
             | _ \<Rightarrow> Some (s, [])))
      | EditingMessage message own \<Rightarrow>
          (if ed_proc (pl_editing s) = None then Some (s, [])
           else (case editing_delegate message own (pl_editing s) of (ed, outs, _) \<Rightarrow> Some (s\<lparr>pl_editing := ed\<rparr>, outs)))
      | RawMessage message raw \<Rightarrow>
          map_option (\<lambda>(l, calls). (s\<lparr>pl_lock := l\<rparr>, map LockOut calls))
            (lock_do (RawDelegate message raw (ce_world e)) (pl_lock s))
      | DpiMessage message \<Rightarrow>
          map_option (\<lambda>(l, calls). (s\<lparr>pl_lock := l\<rparr>, map LockOut calls))
            (lock_do (DpiDelegate message (ce_world e)) (pl_lock s))
      | CursorChanged event about_cursor \<Rightarrow>
          (let (m, calls) = CursorChangedEventProc (ce_cursor e) event about_cursor (pl_cursors s)
           in Some (s\<lparr>pl_cursors := m\<rparr>, map CursorOut calls))
      | KeyboardHook event \<Rightarrow>
          map_option (\<lambda>(blocked, b, outs). (s\<lparr>pl_blocker := b\<rparr>, map KeyOut outs))
            (KeyboardHookProc (ce_desktop e) True event (pl_blocker s))
      | RepeatTick \<Rightarrow>
          (if pl_thread_running s then defined (inputs e (monitor_tick (input_env e s) (ce_now e) (pl_win s)) s) else Some (s, []))
      | EditingWorker op posted \<Rightarrow>
          (case ed_worker (pl_editing s) of
             None \<Rightarrow> Some (s, [])
           | Some w \<Rightarrow>
               let (w, delivered) = (if thread_op op then worker_step op w else (w, []))
               in Some (s\<lparr>pl_editing := foldl (\<lambda>ed (r, d). queue_decision posted ed d)
                      ((pl_editing s)\<lparr>ed_worker := Some w\<rparr>) delivered\<rparr>, []))
      | DetachedWorker i op posted \<Rightarrow>
          (if i < length (ed_detached (pl_editing s)) \<and> thread_op op
           then (let (w, delivered) = worker_step op (ed_detached (pl_editing s) ! i)
                 in Some (s\<lparr>pl_editing := foldl (\<lambda>ed (r, d). queue_decision posted ed d)
                      ((pl_editing s)\<lparr>ed_detached := (ed_detached (pl_editing s))[i := w]\<rparr>) delivered\<rparr>, []))
           else Some (s, []))
      | InputThread l \<Rightarrow>
          (if loop_label l
           then map_option (\<lambda>svc. (s\<lparr>pl_backend := (pl_backend s)\<lparr>be_svc := svc\<rparr>\<rparr>, []))
                  (svc_step l (be_svc (pl_backend s)))
           else Some (s, [])))"

fun win_run :: "(call_env \<times> win_event) list \<Rightarrow> win_plugin \<Rightarrow> (win_plugin \<times> win_out list) option" where
  "win_run [] s = Some (s, [])"
| "win_run (ev # evs) s =
     (case win_step ev s of None \<Rightarrow> None
      | Some (s1, o1) \<Rightarrow> (case win_run evs s1 of None \<Rightarrow> None | Some (s2, o2) \<Rightarrow> Some (s2, o1 @ o2)))"

interpretation win_machine: partial_machine win_step win_run
  by unfold_locales simp_all

end
