(* ===== verification/WinPlugin.thy ===== *)
theory WinPlugin
  imports WinMethods "HOL-Library.Multiset"
begin

text \<open>
  What holds of the Windows plugin as a whole, over every run of calls, messages, events and thread steps
  from its registration to its destruction: the invariants of its parts, the delegates it registers, how
  its calls are answered, and what a failed call leaves behind.
\<close>

section \<open>Touch slots and the pen\<close>

definition slots_bounded :: "win \<Rightarrow> bool" where
  "slots_bounded w \<longleftrightarrow> length (g_touchInfo w) = 10 \<and> g_activeTouchSlots w \<le> 10"

definition win_wf :: "win \<Rightarrow> bool" where
  "win_wf w \<longleftrightarrow> slots_bounded w \<and> pen_ok w"

lemma win_wf_init: "win_wf init_win"
  using slots_ok_init pen_ok_init by (simp add: win_wf_def slots_bounded_def slots_ok_def)

lemma same_slots:
  "g_touchInfo w' = g_touchInfo w \<Longrightarrow> g_activeTouchSlots w' = g_activeTouchSlots w \<Longrightarrow> slots_bounded w' = slots_bounded w"
  by (simp add: slots_bounded_def)

lemma find_slot_bounded:
  assumes "slots_bounded w" "find_slot t w = (w', k)"
  shows "slots_bounded w' \<and> pen_flags_of w' = pen_flags_of w"
proof (cases "find_index (\<lambda>p. slot_id p = t) (g_touchInfo w)")
  case None
  show ?thesis
  proof (cases "find_index (\<lambda>p. slot_flags p = POINTER_FLAG_NONE) (g_touchInfo w)")
    case (Some i)
    then have "i < 10" using assms(1) by (auto simp: slots_bounded_def dest: find_index_Some)
    with assms None Some show ?thesis by (auto simp: find_slot_def slots_bounded_def pen_flags_of_def)
  qed (use assms \<open>find_index _ _ = None\<close> in \<open>auto simp: find_slot_def\<close>)
qed (use assms in \<open>auto simp: find_slot_def\<close>)

lemma touch_event_wf: "win_wf w \<Longrightarrow> win_wf (fst (performTouchEvent e now sc x y t d r w))"
proof -
  assume w: "win_wf w"
  obtain w1 k where f: "find_slot t w = (w1, k)" by (cases "find_slot t w")
  with w have "slots_bounded w1" by (auto simp: win_wf_def dest: find_slot_bounded)
  then have "slots_bounded (fst (performTouchEvent e now sc x y t d r w))"
    by (auto simp: performTouchEvent_def f slots_bounded_def Let_def split: option.split prod.split)
  with w show ?thesis by (simp add: win_wf_def pen_ok_def)
qed

lemma touch_move_wf: "win_wf w \<Longrightarrow> win_wf (fst (performTouchMove e now sc x y t w))"
  by (auto simp: win_wf_def performTouchMove_def slots_bounded_def pen_ok_def pen_flags_of_def Let_def
      split: option.split prod.split)

lemma key_wf: "win_wf w \<Longrightarrow> win_wf (fst (performKeyEvent e now k d r w))"
  by (auto simp: win_wf_def pen_ok_def slots_bounded_def performKeyEvent_def pen_flags_of_def Let_def)

lemma pen_slots:
  "slots_bounded (map_pen f w) = slots_bounded w" "slots_bounded (pen_begin w) = slots_bounded w"
  "slots_bounded (pen_at pt w) = slots_bounded w" "slots_bounded (set_pen_flags flags w) = slots_bounded w"
  "slots_bounded (fst (pen_send now w)) = slots_bounded w" "slots_bounded (fst (clearActivePenPointer w)) = slots_bounded w"
  by (simp_all add: slots_bounded_def map_pen_def pen_begin_def pen_at_def set_pen_flags_def pen_send_def
      recordPenInputAfterSend_def clearPenEdgeTriggeredFlags_def clearActivePenPointer_def Let_def)

lemma pen_state_slots: "pen_state e c b p r t w = Some w' \<Longrightarrow> slots_bounded w' = slots_bounded w"
  by (auto simp: pen_state_def pen_slots Let_def split: option.splits prod.splits)

lemma pen_event_wf: "performPenEvent e now sc x y d b p r t w = Some v \<Longrightarrow> win_wf w \<Longrightarrow> win_wf (fst v)"
proof -
  assume v: "performPenEvent e now sc x y d b p r t w = Some v" and w: "win_wf w"
  have "slots_bounded (fst v)"
    using v w by (auto simp: performPenEvent_def win_wf_def pen_slots Let_def dest!: pen_state_slots
        split: prod.splits if_splits option.splits)
  then show ?thesis using pen_event_flags(1) [of e now sc x y d b p r t w "fst v" "snd v"] v w
    by (simp add: win_wf_def pen_ok_def)
qed

lemma pen_move_wf: "performPenMove e now sc x y b p r t w = Some v \<Longrightarrow> win_wf w \<Longrightarrow> win_wf (fst v)"
proof -
  assume v: "performPenMove e now sc x y b p r t w = Some v" and w: "win_wf w"
  have "slots_bounded (fst v)"
    using v w by (auto simp: performPenMove_def win_wf_def pen_slots Let_def dest!: pen_state_slots
        split: prod.splits if_splits)
  then show ?thesis using pen_move_flags [of e now sc x y b p r t w "fst v" "snd v"] v w
    by (simp add: win_wf_def pen_ok_def)
qed

lemma pen_hover_wf: "win_wf w \<Longrightarrow> win_wf (fst (performPenHover e now sc x y w))"
  by (simp add: win_wf_def pen_ok_def pen_hover_flags)
    (simp add: performPenHover_def pen_slots Let_def split: prod.split)

lemma clear_pen_wf: "win_wf w \<Longrightarrow> win_wf (fst (clearActivePenPointer w))"
  by (simp add: win_wf_def pen_slots) (simp add: pen_ok_def clear_pen_flags)

lemma other_states [simp]:
  "win_wf (w\<lparr>g_touch_states := m\<rparr>) = win_wf w" "win_wf (w\<lparr>g_key_states := k\<rparr>) = win_wf w"
  "win_wf (w\<lparr>g_last_known_key_down := c\<rparr>) = win_wf w" "win_wf (w\<lparr>g_last_pen_refresh_time := i\<rparr>) = win_wf w"
  by (simp_all add: win_wf_def slots_bounded_def pen_ok_def pen_flags_of_def)

lemma touch_event_wf': "performTouchEvent e now sc x y t d r w = (w', o1) \<Longrightarrow> win_wf w \<Longrightarrow> win_wf w'"
  using touch_event_wf [of w e now sc x y t d r] by simp

lemma key_wf': "performKeyEvent e now k d r w = (w', o1) \<Longrightarrow> win_wf w \<Longrightarrow> win_wf w'"
  using key_wf [of w e now k d r] by simp

lemma repeat_touches_wf: "win_wf w \<Longrightarrow> win_wf (fst (repeat_touches e now ts w))"
proof (induction e now ts w rule: repeat_touches.induct)
  case (2 e now i st rest w)
  show ?case
  proof (cases "ts_isDown st \<and> 300 \<le> elapsed_ms now (ts_lastEventTime st)")
    case True
    obtain w1 o1 where p: "performTouchEvent e now (ts_screenId st) (ts_x st) (ts_y st) i True True w = (w1, o1)"
      by (cases "performTouchEvent e now (ts_screenId st) (ts_x st) (ts_y st) i True True w")
    with True 2(1) [OF True p [symmetric] refl refl] touch_event_wf' [OF p 2(3)] show ?thesis
      by (auto simp: Let_def split: prod.split)
  qed (use 2 in auto)
qed simp

lemma monitor_tick_wf: "win_wf w \<Longrightarrow> win_wf (fst (monitor_tick e now w))"
proof -
  assume w: "win_wf w"
  obtain w1 o1 where 1: "repeat_key e now w = (w1, o1)" by (cases "repeat_key e now w")
  obtain w2 o2 where 2: "repeat_touches e now (g_touch_states w1) w1 = (w2, o2)"
    by (cases "repeat_touches e now (g_touch_states w1) w1")
  have w1: "win_wf w1" using 1 w by (auto simp: repeat_key_def split: option.splits if_splits dest: key_wf')
  then have "win_wf w2" using repeat_touches_wf [of w1 e now "g_touch_states w1"] 2 by simp
  then have "win_wf (fst (refresh_pen now w2))" by (simp add: refresh_pen_def clear_pen_wf)
  with w show ?thesis by (auto simp: monitor_tick_def 1 2 split: prod.split)
qed

lemma release_keys_wf: "win_wf w \<Longrightarrow> release_keys e now ks w = Inr v \<Longrightarrow> win_wf (fst v)"
proof (induction e now ks w arbitrary: v rule: release_keys.induct)
  case (2 e now k st rest w)
  show ?case
  proof (cases "ks_isDown st")
    case False
    with 2 show ?thesis by simp
  next
    case True
    obtain w' o1 where p: "performKeyEvent e now k False False w = (w', o1)" by (cases "performKeyEvent e now k False False w")
    from key_wf' [OF p 2(3)] have "win_wf w'" .
    with True 2(1) [OF True p [symmetric]] 2(4) p show ?thesis
      by (cases v) (auto simp: sent_before_eq split: if_splits)
  qed
qed auto

lemma release_touches_wf: "win_wf w \<Longrightarrow> release_touches e now ts w = Inr v \<Longrightarrow> win_wf (fst v)"
proof (induction e now ts w arbitrary: v rule: release_touches.induct)
  case (2 e now i st rest w)
  show ?case
  proof (cases "ts_isDown st")
    case False
    with 2 show ?thesis by simp
  next
    case True
    let ?p = "performTouchEvent e now (ts_screenId st) (ts_x st) (ts_y st) i False False w"
    obtain w' o1 where p: "?p = (w', o1)" by (cases ?p)
    from touch_event_wf' [OF p 2(3)] have "win_wf w'" .
    with True 2(1) [OF True p [symmetric]] 2(4) p show ?thesis
      by (cases v) (auto simp: sent_before_eq split: if_splits)
  qed
qed auto

lemma clear_pressed_wf:
  assumes "WinPointer.clearAllPressedEvents e now w = Inr v" and w: "win_wf w"
  shows "win_wf (fst v)"
proof -
  obtain w1 s1 where k: "release_keys e now (g_key_states w) w = Inr (w1, s1)"
    using assms(1) by (auto simp: WinPointer.clearAllPressedEvents_def split: sum.splits)
  let ?w1 = "w1\<lparr>g_key_states := [], g_last_known_key_down := 0\<rparr>"
  obtain w2 s2 where t: "release_touches e now (g_touch_states ?w1) ?w1 = Inr (w2, s2)"
    using assms(1) k by (auto simp: WinPointer.clearAllPressedEvents_def Let_def split: sum.splits)
  have "win_wf ?w1" using release_keys_wf [OF w k] by simp
  from release_touches_wf [OF this t] have "win_wf (w2\<lparr>g_touch_states := []\<rparr>)" by simp
  from clear_pen_wf [OF this] assms(1) k t show ?thesis
    by (auto simp: WinPointer.clearAllPressedEvents_def Let_def split: prod.splits)
qed

section \<open>The service while inputs are sent\<close>

definition live_svc :: "svc \<Rightarrow> bool" where
  "live_svc s \<longleftrightarrow> reachable s \<and> \<not> closing s"

lemma live_init: "live_svc init_svc"
  by (simp add: live_svc_def reachable_init) (simp add: init_svc_def)

lemma live_step: "live_svc s \<Longrightarrow> svc_step l s = Some s' \<Longrightarrow> closing s' = closing s \<Longrightarrow> live_svc s'"
  by (auto simp: live_svc_def intro: reachable_step)

lemma enqueue_closing: "closing (fst (EnqueueLocked m s)) = closing s"
  by (simp add: EnqueueLocked_def)

lemma send_live:
  "live_svc s \<Longrightarrow> live_svc (fst (SendInputMessage i s))" "live_svc s \<Longrightarrow> live_svc (fst (SendTouchInput ps s))"
  "live_svc s \<Longrightarrow> live_svc (fst (SendPenInput p s))"
proof -
  assume s: "live_svc s"
  have "closing (fst (SendInputMessage i s)) = closing s" "closing (fst (SendTouchInput ps s)) = closing s"
    "closing (fst (SendPenInput p s)) = closing s"
    by (auto simp: SendInputMessage_def SendKeyboardLocked_def SendMouseLocked_def SendTouchInput_def SendPenInput_def
        enqueue_closing split: INPUT.split option.split)
  then show "live_svc (fst (SendInputMessage i s))" "live_svc (fst (SendTouchInput ps s))" "live_svc (fst (SendPenInput p s))"
    using live_step [OF s, of "Send i"] live_step [OF s, of "SendTouch ps"] live_step [OF s, of "SendPen p"] by simp_all
qed

definition live_backend :: "backend \<Rightarrow> bool" where
  "live_backend b \<longleftrightarrow> live_svc (be_svc b)"

lemma live_fields [simp]:
  "live_backend (b\<lparr>be_calls := n\<rparr>) = live_backend b" "live_backend (b\<lparr>be_taken := t\<rparr>) = live_backend b"
  "live_backend (b\<lparr>be_touch_device := d\<rparr>) = live_backend b" "live_backend (b\<lparr>be_pen_device := d\<rparr>) = live_backend b"
  by (simp_all add: live_backend_def)

text \<open>What an attempt keeps, its retries keep.\<close>

lemma retry_keeps:
  assumes step: "\<And>b. live_backend b \<Longrightarrow> live_backend (fst (attempt b))"
    and r: "retry_loop os attempt desk b = Some b'" and b: "live_backend b"
  shows "live_backend b'"
proof -
  let ?P = "\<lambda>(os' :: os) attempt' (desk' :: nat option) b b'.
    attempt' = attempt \<longrightarrow> live_backend b \<longrightarrow> live_backend b'"
  have "?P os attempt desk b b'"
  proof (rule retry_loop.raw_induct [OF _ r, where P = ?P])
    fix rec os' attempt' desk' b b'
    assume ih: "\<And>o1 a1 d1 b1 b1'. rec o1 a1 d1 b1 = Some b1' \<Longrightarrow> ?P o1 a1 d1 b1 b1'"
      and st: "(let (b, sent) = attempt' b
         in if sent then Some b
            else let hDesk = input_desktop os' (be_calls b); b = b\<lparr>be_calls := be_calls b + 1\<rparr>
                 in if desk' \<noteq> hDesk then rec os' attempt' hDesk b else Some b) = Some b'"
    show "?P os' attempt' desk' b b'"
      using st step [of b] by (auto simp: Let_def split: prod.splits if_splits dest: ih)
  qed
  with b show ?thesis by simp
qed

lemma SendInput_live: "live_backend (fst (SendInput os i b)) = live_backend b"
  by (simp add: SendInput_def Let_def)

lemma attempts_live:
  "live_backend b \<Longrightarrow> live_backend (fst (sendTouchInput os ps b))"
  "live_backend b \<Longrightarrow> live_backend (fst (sendPenInput os p b))"
proof -
  assume "live_backend b"
  then have "live_svc (fst (SendTouchInput ps (be_svc b)))" "live_svc (fst (SendPenInput p (be_svc b)))"
    by (simp_all add: live_backend_def send_live)
  then show "live_backend (fst (sendTouchInput os ps b))" "live_backend (fst (sendPenInput os p b))"
    by (auto simp: sendTouchInput_def sendPenInput_def live_backend_def Let_def split: prod.split)
qed

lemma retried_live:
  assumes step: "\<And>b. live_backend b \<Longrightarrow> live_backend (fst (attempt b))"
    and b: "live_backend b"
    and s: "(let (b, ok) = attempt b in if \<not> ok then retry_loop os attempt None b else Some b) = Some b'"
  shows "live_backend b'"
proof -
  obtain c ok where c: "attempt b = (c, ok)" by (cases "attempt b")
  have l: "live_backend c" using step [OF b] c by simp
  show ?thesis
  proof (cases ok)
    case True
    with s c l show ?thesis by simp
  next
    case False
    then have "retry_loop os attempt None c = Some b'" using s c by simp
    from retry_keeps [OF step this l] show ?thesis .
  qed
qed

lemma send_one_live:
  "send_input os i b = Some b' \<Longrightarrow> live_backend b \<Longrightarrow> live_backend b'"
  "send_touch_input os ps b = Some b' \<Longrightarrow> live_backend b \<Longrightarrow> live_backend b'"
  "send_pen_input os p b = Some b' \<Longrightarrow> live_backend b \<Longrightarrow> live_backend b'"
proof -
  assume s: "send_input os i b = Some b'" and b: "live_backend b"
  obtain s1 sent where m: "SendInputMessage i (be_svc b) = (s1, sent)" by (cases "SendInputMessage i (be_svc b)")
  have l: "live_backend (b\<lparr>be_svc := s1\<rparr>)" using b send_live(1) [of "be_svc b" i] m by (simp add: live_backend_def)
  show "live_backend b'"
  proof (cases sent)
    case True
    with s m l show ?thesis by (simp add: send_input_def)
  next
    case False
    then have "(let (b, ok) = SendInput os i (b\<lparr>be_svc := s1\<rparr>)
        in if \<not> ok then retry_loop os (SendInput os i) None b else Some b) = Some b'"
      using s m by (simp add: send_input_def) (simp only: async_send_input_retry_def)
    from retried_live [OF _ l this] SendInput_live show ?thesis by blast
  qed
next
  assume s: "send_touch_input os ps b = Some b'" and b: "live_backend b"
  show "live_backend b'"
    by (rule retried_live [OF attempts_live(1) b s [unfolded send_touch_input_def async_send_touch_input_retry_def]])
next
  assume s: "send_pen_input os p b = Some b'" and b: "live_backend b"
  show "live_backend b'"
    by (rule retried_live [OF attempts_live(2) b s [unfolded send_pen_input_def async_send_pen_input_retry_def]])
qed

lemma dispatch_live: "dispatch os fs b = Some b' \<Longrightarrow> live_backend b \<Longrightarrow> live_backend b'"
  by (induction fs arbitrary: b)
    (auto simp: SendInput_live split: option.splits effect.splits dest: send_one_live)

lemma local_sends_live: "live_backend b \<Longrightarrow> live_backend (local_sends os cs b)"
  by (induction cs arbitrary: b) (auto simp: SendInput_live split: plugin_call.split effect.split)

section \<open>The plugin\<close>

definition slot_wf :: "DecisionSlot \<Rightarrow> bool" where
  "slot_wf d \<longleftrightarrow> (if ds_posted d then ds_queue d = 1 else ds_queue d = 0 \<and> ds_pending d = None)"

text \<open>A detached worker has been told to stop and has lost its callback; it never delivers anything again.\<close>

definition let_go :: "WorkerState \<Rightarrow> bool" where
  "let_go w \<longleftrightarrow> \<not> ws_running w \<and> \<not> ws_callback w \<and> ws_stop_event w"

lemma let_go_step: "let_go w \<Longrightarrow> let_go (fst (worker_step op w)) \<and> snd (worker_step op w) = []"
  by (cases op) (auto simp: let_go_def InspectAfterRemotePointerUp_def signal_request_def Stop_requests_def worker_wake_def
      worker_timeout_def worker_wait_fails_def worker_inspect_def worker_deliver_def split: worker_phase.split)

lemma let_go_run: "let_go w \<Longrightarrow> snd (worker_run ops w) = []"
proof (induction ops arbitrary: w)
  case (Cons op ops)
  from let_go_step [OF Cons.prems, of op] Cons.IH show ?case by (simp add: case_prod_beta)
qed simp

definition editing_wf :: "editing \<Rightarrow> bool" where
  "editing_wf ed \<longleftrightarrow> slot_wf (ed_slot ed) \<and> (ed_worker ed \<noteq> None \<longleftrightarrow> ed_proc ed \<noteq> None) \<and>
     (ed_proc ed \<noteq> None \<longrightarrow> ed_window ed \<noteq> 0 \<and> ed_message ed \<noteq> 0) \<and>
     (ed_worker ed = None \<longrightarrow> \<not> ds_posted (ed_slot ed)) \<and> list_all let_go (ed_detached ed)"

definition plugin_wf :: "win_plugin \<Rightarrow> bool" where
  "plugin_wf s \<longleftrightarrow> win_wf (pl_win s) \<and> gp_inv (pl_gamepads s) \<and> tables_ok (pl_cursors s) \<and> hook_ok (pl_cursors s) \<and>
     lock_wf (pl_lock s) \<and> live_backend (pl_backend s) \<and> editing_wf (pl_editing s) \<and>
     (pl_rumble_proc s \<noteq> None \<longrightarrow> pl_rumble_window s \<noteq> 0 \<and> pl_rumble_message s \<noteq> 0) \<and> carry_ok (pl_trackpad s)"

text \<open>
  What the plugin holds of the system and has to give back: the delegates it has registered, the thread of the
  editing worker, the workers it has let go, whose threads may still run, and the repeat thread. \<open>believed\<close>:
  what its members say; \<open>holdings\<close>: what its calls have made of it.
\<close>

datatype holding = Delegate int | EditingThread | DetachedThread | RepeatThread

definition opt_mset :: "int option \<Rightarrow> holding multiset" where
  "opt_mset v = (case v of None \<Rightarrow> {#} | Some x \<Rightarrow> {#Delegate x#})"

definition flag_mset :: "bool \<Rightarrow> holding \<Rightarrow> holding multiset" where
  "flag_mset b h = (if b then {#h#} else {#})"

lemma opt_mset_simps [simp]: "opt_mset None = {#}" "opt_mset (Some x) = {#Delegate x#}"
  by (simp_all add: opt_mset_def)

lemma flag_mset_simps [simp]: "flag_mset True h = {#h#}" "flag_mset False h = {#}"
  by (simp_all add: flag_mset_def)

definition editing_holds :: "editing \<Rightarrow> holding multiset" where
  "editing_holds ed = opt_mset (ed_proc ed) + flag_mset (ed_worker ed \<noteq> None) EditingThread +
     replicate_mset (length (ed_detached ed)) DetachedThread"

definition believed :: "win_plugin \<Rightarrow> holding multiset" where
  "believed s = opt_mset (pl_rumble_proc s) + editing_holds (pl_editing s) +
     opt_mset (raw_input_proc_id (pl_lock s)) + opt_mset (pl_dpi_proc s) + flag_mset (pl_thread_running s) RepeatThread"

definition give_back :: "holding \<Rightarrow> holding multiset \<Rightarrow> holding multiset option" where
  "give_back h m = (if h \<in># m then Some (m - {#h#}) else None)"

lemma give_back_add [simp]: "give_back h (add_mset h m) = Some m"
  by (simp add: give_back_def)

fun holding_change :: "win_out \<Rightarrow> holding multiset \<Rightarrow> holding multiset option" where
  "holding_change (LockOut (RegisterDelegate i)) m = Some (add_mset (Delegate i) m)"
| "holding_change (LockOut (UnregisterDelegate i)) m = give_back (Delegate i) m"
| "holding_change StartWorker m = Some (add_mset EditingThread m)"
| "holding_change JoinWorker m = give_back EditingThread m"
| "holding_change DetachWorker m = map_option (add_mset DetachedThread) (give_back EditingThread m)"
| "holding_change StartThread m = Some (add_mset RepeatThread m)"
| "holding_change JoinThread m = give_back RepeatThread m"
| "holding_change _ m = Some m"

fun holdings :: "win_out list \<Rightarrow> holding multiset \<Rightarrow> holding multiset option" where
  "holdings [] m = Some m"
| "holdings (c # cs) m = (case holding_change c m of None \<Rightarrow> None | Some m' \<Rightarrow> holdings cs m')"

lemma delegates_append: "holdings (cs @ ds) m = (case holdings cs m of None \<Rightarrow> None | Some m' \<Rightarrow> holdings ds m')"
  by (induction cs arbitrary: m) (auto split: option.splits)

lemma delegates_then: "holdings cs m = Some m' \<Longrightarrow> holdings (cs @ ds) m = holdings ds m'"
  by (simp add: delegates_append)

definition calm :: "win_out \<Rightarrow> bool" where
  "calm c \<longleftrightarrow> (\<forall>m. holding_change c m = Some m)"

lemma calm_simps [simp]:
  "calm (InputOut f)" "calm (CursorOut c)" "calm (GamepadOut v)" "calm (KeyOut k)" "calm (DisplayOut d)"
  "calm (RegisterWindowMessage t)" "calm (RumbleEvent r)" "calm (DecisionEvent w)" "calm (RunAs t u b)"
  "calm WaitForProcess" "calm (SetDragFullWindows b)" "calm (ShowNotification us)" "calm (DiscardMessages n m)"
  "calm (SubclassView n)" "calm (UnsubclassView n)" "calm (DestroyDevice y)"
  by (simp_all add: calm_def)

lemma delegates_calm: "list_all calm cs \<Longrightarrow> holdings cs m = Some m"
  by (induction cs) (auto simp: calm_def)

lemma calm_maps [simp]:
  "list_all calm (map CursorOut cs)" "list_all calm (map GamepadOut vs)" "list_all calm (map KeyOut ks)"
  "list_all calm (map DisplayOut ds)" "list_all calm (map DecisionEvent ws)" "list_all calm (map InputOut fs)"
  by (simp_all add: list_all_iff)

text \<open>The delegate of the lock among the others.\<close>

lemma observe_delegates:
  "observe c v = Some v' \<Longrightarrow>
     holding_change (LockOut c) (opt_mset (v_delegate v) + m) = Some (opt_mset (v_delegate v') + m)"
  by (cases c) (auto split: if_splits)

lemma watch_delegates:
  "watch cs v = Some v' \<Longrightarrow>
     holdings (map LockOut cs) (opt_mset (v_delegate v) + m) = Some (opt_mset (v_delegate v') + m)"
proof (induction cs arbitrary: v)
  case (Cons c cs)
  then obtain v1 where 1: "observe c v = Some v1" "watch cs v1 = Some v'" by (auto split: option.splits)
  from observe_delegates [OF 1(1), of m] Cons.IH [OF 1(2)] show ?case by simp
qed simp

lemma coherent_delegates:
  "coherent l (l', cs) \<Longrightarrow>
     holdings (map LockOut cs) (opt_mset (raw_input_proc_id l) + m) = Some (opt_mset (raw_input_proc_id l') + m)"
  using watch_delegates [of cs "view_of l" "view_of l'" m] by (simp add: coherent_def view_of_def)

text \<open>A step keeps the invariants, and its calls take the delegates from the old belief to the new.\<close>

definition orderly :: "win_plugin \<Rightarrow> win_plugin \<times> win_out list \<Rightarrow> bool" where
  "orderly s r \<longleftrightarrow> plugin_wf (fst r) \<and> holdings (snd r) (believed s) = Some (believed (fst r))"

lemma orderly_refl: "plugin_wf s \<Longrightarrow> orderly s (s, [])"
  by (simp add: orderly_def)

lemma orderly_trans: "orderly s (s1, o1) \<Longrightarrow> orderly s1 (s2, o2) \<Longrightarrow> orderly s (s2, o1 @ o2)"
  by (simp add: orderly_def delegates_append)

lemma orderly_calm: "plugin_wf s' \<Longrightarrow> believed s' = believed s \<Longrightarrow> list_all calm outs \<Longrightarrow> orderly s (s', outs)"
  by (simp add: orderly_def delegates_calm)

section \<open>Every step is orderly\<close>

text \<open>Updates of one part: the invariant asks for that part only.\<close>

lemma plugin_wfD:
  assumes "plugin_wf s"
  shows "win_wf (pl_win s)" "gp_inv (pl_gamepads s)" "tables_ok (pl_cursors s)" "hook_ok (pl_cursors s)"
    "lock_wf (pl_lock s)" "live_backend (pl_backend s)" "editing_wf (pl_editing s)" "carry_ok (pl_trackpad s)"
  using assms by (simp_all add: plugin_wf_def)

lemma part_wf:
  assumes "plugin_wf s"
  shows "win_wf w \<Longrightarrow> plugin_wf (s\<lparr>pl_win := w\<rparr>)"
    and "gp_inv g \<Longrightarrow> plugin_wf (s\<lparr>pl_gamepads := g\<rparr>)"
    and "tables_ok m \<Longrightarrow> hook_ok m \<Longrightarrow> plugin_wf (s\<lparr>pl_cursors := m\<rparr>)"
    and "lock_wf l \<Longrightarrow> plugin_wf (s\<lparr>pl_lock := l\<rparr>)"
    and "live_backend b \<Longrightarrow> plugin_wf (s\<lparr>pl_backend := b\<rparr>)"
    and "editing_wf ed \<Longrightarrow> plugin_wf (s\<lparr>pl_editing := ed\<rparr>)"
    and "plugin_wf (s\<lparr>pl_vdd := d\<rparr>)" "plugin_wf (s\<lparr>pl_ctl := c\<rparr>)" "plugin_wf (s\<lparr>pl_registry := reg\<rparr>)"
      "plugin_wf (s\<lparr>pl_blocker := k\<rparr>)" and "carry_ok t \<Longrightarrow> plugin_wf (s\<lparr>pl_trackpad := t\<rparr>)" and "plugin_wf (s\<lparr>pl_ratio := q\<rparr>)"
      "plugin_wf (s\<lparr>pl_view_window := v\<rparr>)" "plugin_wf (s\<lparr>pl_thread_running := r\<rparr>)" "plugin_wf (s\<lparr>pl_dpi_proc := p\<rparr>)"
  using assms by (simp_all add: plugin_wf_def)

lemma believed_parts [simp]:
  "believed (s\<lparr>pl_win := w\<rparr>) = believed s" "believed (s\<lparr>pl_gamepads := g\<rparr>) = believed s"
  "believed (s\<lparr>pl_cursors := m\<rparr>) = believed s" "believed (s\<lparr>pl_backend := b\<rparr>) = believed s"
  "believed (s\<lparr>pl_vdd := d\<rparr>) = believed s" "believed (s\<lparr>pl_ctl := c\<rparr>) = believed s"
  "believed (s\<lparr>pl_registry := reg\<rparr>) = believed s" "believed (s\<lparr>pl_blocker := k\<rparr>) = believed s"
  "believed (s\<lparr>pl_trackpad := t\<rparr>) = believed s" "believed (s\<lparr>pl_ratio := q\<rparr>) = believed s"
  "believed (s\<lparr>pl_view_window := v\<rparr>) = believed s"
  "believed (s\<lparr>pl_rumble_message := rm\<rparr>) = believed s" "believed (s\<lparr>pl_rumble_window := rw\<rparr>) = believed s"
  by (simp_all add: believed_def)

text \<open>Any operation on the cursor subscriptions.\<close>

lemma cursor_part_wf:
  assumes "plugin_wf s" "cursor_step op (pl_cursors s) = (m, calls)"
  shows "plugin_wf (s\<lparr>pl_cursors := m\<rparr>)"
  using CursorHooks.cursor_run_ok [of "pl_cursors s" "[op]"] assms plugin_wfD(3,4) [OF assms(1)]
  by (auto intro: part_wf(3))

lemma cursor_part_orderly:
  assumes "plugin_wf s" "cursor_step op (pl_cursors s) = (m, calls)"
  shows "orderly s (s\<lparr>pl_cursors := m\<rparr>, map CursorOut calls)"
  by (rule orderly_calm) (simp_all add: cursor_part_wf [OF assms])

lemma send_effects_orderly:
  "send_effects e fs s = Inr r \<Longrightarrow> plugin_wf s \<Longrightarrow> orderly s r"
proof (induction fs arbitrary: s r)
  case Nil
  then show ?case by (auto intro: orderly_refl)
next
  case (Cons f fs)
  obtain b where b: "dispatch (input_os e) [f] (pl_backend s) = Some b"
    using Cons.prems(1) by (auto simp del: dispatch.simps split: option.splits)
  let ?s = "s\<lparr>pl_backend := b\<rparr>"
  have wf: "plugin_wf ?s" using dispatch_live [OF b] Cons.prems(2) by (simp add: part_wf(5) plugin_wfD(6))
  obtain m calls where m: "syncNow (ce_cursor e) (pl_cursors ?s) = (m, calls)" by fastforce
  let ?r = "if f = SyncCursor then (?s\<lparr>pl_cursors := m\<rparr>, map CursorOut calls) else (?s, [InputOut f])"
  have first: "orderly ?s ?r"
    using cursor_part_orderly [OF wf, of "SyncOp (ce_cursor e)" m calls] m wf by (auto intro: orderly_calm)
  then have "orderly s ?r" by (simp add: orderly_def)
  moreover obtain s2 o2 where rest: "send_effects e fs (fst ?r) = Inr (s2, o2)" "r = (s2, snd ?r @ o2)"
    using Cons.prems(1) b m by (cases r) (auto simp del: dispatch.simps simp: Let_def sent_before_eq split: if_splits)
  moreover have "orderly (fst ?r) (s2, o2)"
    by (rule Cons.IH [OF rest(1)]) (use first in \<open>simp add: orderly_def\<close>)
  ultimately show ?case using orderly_trans [of s "fst ?r" "snd ?r" s2 o2] by simp
qed

lemma inputs_orderly:
  assumes "inputs e v s = Inr r" "win_wf (fst v)" "plugin_wf s"
  shows "orderly s r"
proof -
  have "orderly (s\<lparr>pl_win := fst v\<rparr>) r"
    by (rule send_effects_orderly [OF assms(1) [unfolded inputs_def]]) (rule part_wf(1) [OF assms(3,2)])
  then show ?thesis by (simp add: orderly_def)
qed

text \<open>The editing monitor.\<close>

lemma let_go_stopped: "let_go (Stop_requests w)"
  by (simp add: let_go_def Stop_requests_def)

lemma replicate_mset_add: "replicate_mset (a + b) x = replicate_mset a x + replicate_mset b x"
  by (induction a) simp_all

lemma stop_thread_wf: "list_all let_go (fst (stop_thread in_time w))"
  by (simp add: stop_thread_def let_go_stopped Let_def)

lemma stop_thread_holdings:
  "holdings (snd (stop_thread in_time w) @ cs) (add_mset EditingThread m) =
     holdings cs (m + replicate_mset (length (fst (stop_thread in_time w))) DetachedThread)"
  by (simp add: stop_thread_def Let_def)

lemma stop_editing_wf: "editing_wf ed \<Longrightarrow> editing_wf (fst (stop_editing in_time r ed))"
  using stop_thread_wf [of in_time "the (ed_worker ed)"]
  by (auto simp: stop_editing_def editing_wf_def slot_wf_def EditFocus.StopWindowsEditingEventMonitor_def Let_def
      split: prod.split option.split)

lemma stop_editing_none [simp]:
  "ed_worker (fst (stop_editing in_time r ed)) = None" "ed_proc (fst (stop_editing in_time r ed)) = None"
  by (simp_all add: stop_editing_def case_prod_beta Let_def)

lemma stop_editing_delegates:
  "holdings (snd (stop_editing in_time True ed)) (editing_holds ed + m) =
     Some (editing_holds (fst (stop_editing in_time True ed)) + m)"
proof -
  define tail where "tail = (if ed_window ed \<noteq> 0 \<and> ed_message ed \<noteq> 0 then [DiscardMessages (ed_window ed) (ed_message ed)] else []) @
      (case ed_proc ed of Some p \<Rightarrow> if True then [LockOut (UnregisterDelegate p)] else [] | None \<Rightarrow> [])"
  define left where "left = (case ed_worker ed of None \<Rightarrow> [] | Some w \<Rightarrow> fst (stop_thread in_time w))"
  have tail: "holdings tail (opt_mset (ed_proc ed) + n) = Some n" for n
    unfolding tail_def by (cases "ed_proc ed") simp_all
  have outs: "snd (stop_editing in_time True ed) = (case ed_worker ed of None \<Rightarrow> [] | Some w \<Rightarrow> snd (stop_thread in_time w)) @ tail"
    unfolding tail_def stop_editing_def Let_def by (cases "ed_worker ed") (simp_all only: option.case case_prod_beta fst_conv snd_conv)
  have "ed_detached (fst (stop_editing in_time True ed)) = ed_detached ed @ left"
    unfolding left_def stop_editing_def Let_def by (cases "ed_worker ed") (simp_all add: case_prod_beta)
  then have after: "editing_holds (fst (stop_editing in_time True ed)) =
      replicate_mset (length (ed_detached ed)) DetachedThread + replicate_mset (length left) DetachedThread"
    by (simp add: editing_holds_def replicate_mset_add)
  show ?thesis
  proof (cases "ed_worker ed")
    case None
    with tail [of "replicate_mset (length (ed_detached ed)) DetachedThread + m"] show ?thesis
      unfolding outs after by (simp add: editing_holds_def left_def ac_simps)
  next
    case (Some w)
    with tail [of "replicate_mset (length (ed_detached ed)) DetachedThread + replicate_mset (length left) DetachedThread + m"]
    show ?thesis unfolding outs after by (simp add: editing_holds_def left_def stop_thread_holdings ac_simps)
  qed
qed

text \<open>A change of the editing monitor alone.\<close>

lemma editing_orderly:
  assumes s: "plugin_wf s" and ed: "editing_wf ed"
    and h: "\<And>m. holdings outs (editing_holds (pl_editing s) + m) = Some (editing_holds ed + m)"
  shows "orderly s (s\<lparr>pl_editing := ed\<rparr>, outs)"
  using h [of "opt_mset (pl_rumble_proc s) + opt_mset (raw_input_proc_id (pl_lock s)) + opt_mset (pl_dpi_proc s) +
      flag_mset (pl_thread_running s) RepeatThread"] part_wf(6) [OF s ed]
  by (simp add: orderly_def believed_def ac_simps)

lemma stop_editing_orderly:
  assumes "plugin_wf s" "stop_editing in_time True (pl_editing s) = (ed, outs)"
  shows "orderly s (s\<lparr>pl_editing := ed\<rparr>, outs)"
  using assms stop_editing_wf [OF plugin_wfD(7) [OF assms(1)], of in_time True]
    stop_editing_delegates [of in_time "pl_editing s"]
  by (intro editing_orderly) simp_all

text \<open>Starting: each stage keeps the invariant and the books; a failure stops what there is.\<close>

lemma holdings_steps:
  "(\<And>m. holdings o1 (h + m) = Some (h1 + m)) \<Longrightarrow> (\<And>m. holdings o2 (h1 + m) = Some (h2 + m)) \<Longrightarrow>
     holdings (o1 @ o2) (h + m) = Some (h2 + m)"
  by (simp add: delegates_append)

lemma start_editing_ok:
  assumes wf: "editing_wf ed0" and reg: "le_registrar e"
    and start: "StartWindowsEditingEventMonitor e message proc_id start in_time ed0 = Inr (ed, outs, ok)"
  shows "editing_wf ed \<and> (\<forall>m. holdings outs (editing_holds ed0 + m) = Some (editing_holds ed + m))"
proof (cases "case ed_worker ed0 of Some w \<Rightarrow> ws_running w | None \<Rightarrow> False")
  case True
  with start wf show ?thesis by (simp add: StartWindowsEditingEventMonitor_def)
next
  case False
  obtain ed1 o1 where 1: "(if ed_worker ed0 \<noteq> None \<or> ed_proc ed0 \<noteq> None then stop_editing in_time True ed0 else (ed0, [])) = (ed1, o1)"
    by fastforce
  have e1: "editing_wf ed1" "ed_worker ed1 = None" "ed_proc ed1 = None"
      "\<And>m. holdings o1 (editing_holds ed0 + m) = Some (editing_holds ed1 + m)"
  proof -
    have e: "ed1 = (if ed_worker ed0 \<noteq> None \<or> ed_proc ed0 \<noteq> None then fst (stop_editing in_time True ed0) else ed0)"
      using 1 by (auto split: if_splits)
    show "editing_wf ed1" "ed_worker ed1 = None" "ed_proc ed1 = None"
      using wf stop_editing_wf [OF wf, of in_time True] by (simp_all add: e)
    show "holdings o1 (editing_holds ed0 + m) = Some (editing_holds ed1 + m)" for m
      using 1 stop_editing_delegates [of in_time ed0 m] by (auto split: if_splits)
  qed
  have slot: "slot_wf (ed_slot ed1)" "\<not> ds_posted (ed_slot ed1)" "list_all let_go (ed_detached ed1)"
    using e1 by (simp_all add: editing_wf_def)
  have restart: "(if ed_worker ed0 \<noteq> None \<or> ed_proc ed0 \<noteq> None then stop_editing in_time (le_registrar e) ed0 else (ed0, [])) = (ed1, o1)"
    using 1 by (simp only: reg)
  note start = start [unfolded StartWindowsEditingEventMonitor_def if_not_P [OF False] Let_def restart prod.case]
  obtain window where w: "FindFlutterWindow e = Some window"
    using start reg by (auto split: option.splits)
  define ed2 where "ed2 = ed1\<lparr>ed_window := window, ed_message := message\<rparr>"
  define ed3 where "ed3 = ed2\<lparr>ed_proc := Some proc_id\<rparr>"
  define o2 where "o2 = o1 @ [RegisterWindowMessage ''CloudPlayPlus.HardwareSimulator.WindowsTextInputDecision'']"
  define o3 where "o3 = o2 @ [LockOut (RegisterDelegate proc_id)]"
  have h2: "holdings o2 (editing_holds ed0 + m) = Some (editing_holds ed2 + m)" for m
    unfolding o2_def using delegates_then [OF e1(4)] by (simp add: ed2_def editing_holds_def)
  have h3: "holdings o3 (editing_holds ed0 + m) = Some (editing_holds ed3 + m)" for m
    unfolding o3_def using delegates_then [OF h2] e1 by (simp add: ed3_def ed2_def editing_holds_def)
  have stopped: "holdings (os @ snd (stop_editing in_time True x)) (editing_holds ed0 + m) =
      Some (editing_holds (fst (stop_editing in_time True x)) + m)"
    if "\<And>m. holdings os (editing_holds ed0 + m) = Some (editing_holds x + m)" for os x m
    by (rule holdings_steps [OF that stop_editing_delegates])
  show ?thesis
  proof (cases "window = 0 \<or> message = 0")
    case True
    have "editing_wf (fst (stop_editing in_time True ed2))"
      using slot e1 True by (auto simp: ed2_def stop_editing_def editing_wf_def slot_wf_def Let_def)
    moreover have "ed = fst (stop_editing in_time True ed2)" "outs = o2 @ snd (stop_editing in_time True ed2)"
      using start True by (auto simp: reg w ed2_def o2_def case_prod_beta)
    ultimately show ?thesis using stopped [OF h2] by simp
  next
    case False
    have set3: "editing_wf (fst (stop_editing in_time True (ed3\<lparr>ed_detached := ds\<rparr>)))" if "list_all let_go ds" for ds
      using slot e1 False that by (auto simp: ed3_def ed2_def stop_editing_def editing_wf_def slot_wf_def
          EditFocus.StopWindowsEditingEventMonitor_def Let_def)
    have r: "(case start of
          Started \<Rightarrow> Inr (ed3\<lparr>ed_worker := Some started_worker\<rparr>, o3 @ [StartWorker], True)
        | NoEvents \<Rightarrow> (let (x, o4) = stop_editing in_time True ed3 in Inr (x, o3 @ o4, False))
        | NotReady \<Rightarrow> (let (left, stopping) = stop_thread in_time unready_worker;
              (x, o4) = stop_editing in_time True (ed3\<lparr>ed_detached := ed_detached ed3 @ left\<rparr>)
            in Inr (x, o3 @ [StartWorker] @ stopping @ o4, False))) = (Inr (ed, outs, ok) :: win_out list + editing \<times> win_out list \<times> bool)"
      using start False unfolding ed3_def ed2_def o3_def o2_def
      by (simp only: reg w option.case not_True_eq_False if_False Let_def if_not_P [OF False])
    show ?thesis
    proof (cases start)
      case Started
      have "editing_wf (ed3\<lparr>ed_worker := Some started_worker\<rparr>)"
        using slot False by (simp add: editing_wf_def ed3_def ed2_def)
      moreover have "holdings (o3 @ [StartWorker]) (editing_holds ed0 + m) = Some (editing_holds (ed3\<lparr>ed_worker := Some started_worker\<rparr>) + m)" for m
        using delegates_then [OF h3] e1 by (simp add: editing_holds_def ed3_def ed2_def)
      ultimately show ?thesis using r Started by auto
    next
      case NoEvents
      have "ed = fst (stop_editing in_time True ed3)" "outs = o3 @ snd (stop_editing in_time True ed3)"
        using r NoEvents by (auto simp: case_prod_beta)
      moreover have "editing_wf (fst (stop_editing in_time True ed3))"
        using set3 [of "ed_detached ed3"] slot by (simp add: ed3_def ed2_def)
      ultimately show ?thesis using stopped [OF h3] by simp
    next
      case NotReady
      let ?l = "fst (stop_thread in_time unready_worker)" and ?c = "snd (stop_thread in_time unready_worker)"
      let ?ed4 = "ed3\<lparr>ed_detached := ed_detached ed3 @ ?l\<rparr>"
      have e: "ed = fst (stop_editing in_time True ?ed4)" "outs = (o3 @ [StartWorker] @ ?c) @ snd (stop_editing in_time True ?ed4)"
        using r NotReady by (auto simp: case_prod_beta)
      have "holdings (o3 @ [StartWorker] @ ?c) (editing_holds ed0 + m) = Some (editing_holds ?ed4 + m)" for m
        using delegates_then [OF h3, of "[StartWorker] @ ?c" m] stop_thread_holdings [of in_time unready_worker "[]" "editing_holds ed3 + m"]
        by (simp add: editing_holds_def replicate_mset_add ac_simps)
      from stopped [OF this] set3 [of "ed_detached ed3 @ ?l"] slot stop_thread_wf show ?thesis
        unfolding e by (simp add: ed3_def ed2_def)
    qed
  qed
qed

lemma start_editing_orderly:
  assumes "plugin_wf s" "StartWindowsEditingEventMonitor (lock_answers e) message proc_id start in_time (pl_editing s) = Inr (ed, outs, ok)"
  shows "orderly s (s\<lparr>pl_editing := ed\<rparr>, outs)"
proof -
  have "le_registrar (lock_answers e)" by (simp add: lock_answers_def)
  from start_editing_ok [OF plugin_wfD(7) [OF assms(1)] this assms(2)] show ?thesis
    by (intro editing_orderly [OF assms(1)]) simp_all
qed

lemma inspect_wf: "plugin_wf s \<Longrightarrow> plugin_wf (inspect_after_up e request pt s) \<and> believed (inspect_after_up e request pt s) = believed s"
  by (auto simp: inspect_after_up_def plugin_wf_def editing_wf_def believed_def editing_holds_def split: option.split)

lemma inspect_lift_wf:
  "plugin_wf s \<Longrightarrow> plugin_wf (inspect_lift e args d sc x y s) \<and> believed (inspect_lift e args d sc x y s) = believed s"
  by (auto simp: inspect_lift_def inspect_wf split: option.split)

lemma lock_part_orderly:
  assumes "plugin_wf s" "coherent (pl_lock s) (l, calls)"
  shows "orderly s (s\<lparr>pl_lock := l, pl_backend := local_sends os calls (pl_backend s)\<rparr>, map LockOut calls)"
    and "orderly s (s\<lparr>pl_lock := l\<rparr>, map LockOut calls)"
proof -
  have l: "lock_wf l" using assms(2) by (simp add: coherent_def)
  have d: "holdings (map LockOut calls) (believed s) = Some (believed (s\<lparr>pl_lock := l\<rparr>))"
    using coherent_delegates [OF assms(2), of "opt_mset (pl_rumble_proc s) + editing_holds (pl_editing s) +
        opt_mset (pl_dpi_proc s) + flag_mset (pl_thread_running s) RepeatThread"] by (simp add: believed_def ac_simps)
  show "orderly s (s\<lparr>pl_lock := l\<rparr>, map LockOut calls)" using d part_wf(4) [OF assms(1) l] by (simp add: orderly_def)
  then show "orderly s (s\<lparr>pl_lock := l, pl_backend := local_sends os calls (pl_backend s)\<rparr>, map LockOut calls)"
    using part_wf(5) [OF part_wf(4) [OF assms(1) l]] plugin_wfD(6) [OF assms(1)] d
    by (simp add: orderly_def local_sends_live)
qed

section \<open>Every handler is orderly\<close>

definition keeps :: "win_plugin \<Rightarrow> win_plugin \<times> win_out list \<times> verdict \<Rightarrow> bool" where
  "keeps s r \<longleftrightarrow> (plugin_wf s \<longrightarrow> snd (snd r) \<noteq> Undefined \<longrightarrow> snd (snd r) \<noteq> Hanging \<longrightarrow> orderly s (fst r, fst (snd r)))"

lemma keeps_stuck [simp]: "keeps s (s', outs, Undefined)" "keeps s (s', outs, Hanging)"
  by (simp_all add: keeps_def)

interpretation kept: handler_contract keeps
  by unfold_locales (simp add: keeps_def orderly_refl)

lemma keepsI: "(plugin_wf s \<Longrightarrow> orderly s (s', outs)) \<Longrightarrow> keeps s (s', outs, v)"
  by (simp add: keeps_def)

lemma keeps_calm:
  "(plugin_wf s \<Longrightarrow> plugin_wf s') \<Longrightarrow> believed s' = believed s \<Longrightarrow> list_all calm outs \<Longrightarrow> keeps s (s', outs, v)"
  by (rule keepsI) (rule orderly_calm)

lemma after_keeps:
  assumes "plugin_wf s \<Longrightarrow> win_wf (fst w)"
    and k: "\<And>s'. plugin_wf s' \<Longrightarrow> plugin_wf (k s') \<and> believed (k s') = believed s'"
  shows "keeps s (after (inputs e w s) k a s)"
proof (cases "inputs e w s")
  case (Inr r)
  show ?thesis
  proof (unfold keeps_def, intro impI)
    assume s: "plugin_wf s"
    from inputs_orderly [OF Inr assms(1) [OF s] s] have "orderly s r" .
    with k [of "fst r"] Inr show "orderly s (fst (after (inputs e w s) k a s), fst (snd (after (inputs e w s) k a s)))"
      by (cases r) (simp add: after_def answering_def orderly_def)
  qed
qed (simp add: after_def)

lemma undefined_after_keeps: "keeps s (undefined_after r s)"
  by (auto simp: undefined_after_def split: sum.split)

lemma after_id_keeps: "(plugin_wf s \<Longrightarrow> win_wf (fst w)) \<Longrightarrow> keeps s (after (inputs e w s) id a s)"
  by (rule after_keeps) simp_all

lemma sends_keeps: "keeps s (sends e r s)"
  by (cases r) (auto simp: sends_def kept.stop_with intro!: after_id_keeps plugin_wfD(1))

lemma on_KeyPress_keeps: "keeps s (on_KeyPress e args s)"
  unfolding on_KeyPress_def by (intro kept.reads after_id_keeps key_wf plugin_wfD(1))

lemma on_performTextInput_keeps: "keeps s (on_performTextInput e args s)"
  by (auto simp: on_performTextInput_def kept.stop_with split: option.split encodable.split
      intro!: after_id_keeps plugin_wfD(1))

lemma mouse_keeps:
  "keeps s (on_mouseMoveR e args s)" "keeps s (on_mouseMoveA e args s)"
  "keeps s (on_mouseMoveToWindowPosition e args s)" "keeps s (on_mouseScroll e args s)"
  unfolding on_mouseMoveR_def on_mouseMoveA_def on_mouseMoveToWindowPosition_def on_mouseScroll_def
  by (intro kept.reads sends_keeps)+

lemma on_mousePress_keeps: "keeps s (on_mousePress e args s)"
  unfolding on_mousePress_def
  by (intro kept.reads after_keeps) (simp_all add: plugin_wfD(1) inspect_wf)

lemma on_trackpadScroll_keeps: "keeps s (on_trackpadScroll e args s)"
proof -
  have "keeps s (case performTrackpadScroll x y (pl_trackpad s) of None \<Rightarrow> stop_with Undefined s
       | Some (acc, fs) \<Rightarrow> sends e (Some fs) (s\<lparr>pl_trackpad := acc\<rparr>))" for x y
  proof (cases "plugin_wf s")
    case True
    from trackpad_carries [OF plugin_wfD(8) [OF True], of x y] obtain acc fs
      where p: "performTrackpadScroll x y (pl_trackpad s) = Some (acc, fs)" "carry_ok acc" by blast
    have "keeps s (sends e (Some fs) (s\<lparr>pl_trackpad := acc\<rparr>))"
      using sends_keeps [of "s\<lparr>pl_trackpad := acc\<rparr>" e "Some fs"] part_wf(11) [OF True p(2)]
      by (auto simp: keeps_def orderly_def)
    with p(1) show ?thesis by simp
  qed (simp add: keeps_def)
  then show ?thesis unfolding on_trackpadScroll_def by (intro kept.reads)
qed

lemma touch_keeps: "keeps s (on_touchEvent e args s)" "keeps s (on_touchMove e args s)"
  unfolding on_touchEvent_def on_touchMove_def
  by (intro kept.reads after_keeps after_id_keeps; simp add: touch_event_wf touch_move_wf plugin_wfD(1) inspect_lift_wf)+

lemma pen_keeps: "keeps s (on_penEvent e args s)" "keeps s (on_penMove e args s)" "keeps s (on_penHover e args s)"
proof -
  show "keeps s (on_penHover e args s)"
    unfolding on_penHover_def by (intro kept.reads after_id_keeps pen_hover_wf plugin_wfD(1))
  have "keeps s (case performPenMove (input_env e s) n sc x y b p r t (pl_win s) of None \<Rightarrow> stop_with Undefined s
      | Some w \<Rightarrow> after (inputs e w s) id null_answer s)" for n sc x y b p r t
    by (auto split: option.split intro!: kept.stop_with after_id_keeps pen_move_wf plugin_wfD(1))
  then show "keeps s (on_penMove e args s)" unfolding on_penMove_def by (intro kept.reads)
  have "keeps s (case performPenEvent (input_env e s) n sc x y d b p r t (pl_win s) of None \<Rightarrow> stop_with Undefined s
      | Some w \<Rightarrow> after (inputs e w s) (inspect_lift e args d sc x y) null_answer s)" for n sc x y d b p r t
    by (auto split: option.split simp: inspect_lift_wf intro!: kept.stop_with after_keeps pen_event_wf plugin_wfD(1))
  then show "keeps s (on_penEvent e args s)" unfolding on_penEvent_def by (intro kept.reads)
qed

lemma on_clearAllPressedEvents_keeps: "keeps s (on_clearAllPressedEvents e args s)"
  by (auto simp: on_clearAllPressedEvents_def undefined_after_keeps split: sum.split
      intro!: after_id_keeps clear_pressed_wf plugin_wfD(1))

lemma pure_keeps:
  "keeps s (on_getPlatformVersion e args s)" "keeps s (on_getMonitorCount e args s)" "keeps s (on_isRunningAsSystem e args s)"
  "keeps s (on_checkVddStatus e args s)" "keeps s (on_getCurrentMultiDisplayMode e args s)"
  "keeps s (on_hasPendingConfiguration e args s)"
  unfolding on_getPlatformVersion_def on_getMonitorCount_def on_isRunningAsSystem_def on_checkVddStatus_def
    on_getCurrentMultiDisplayMode_def on_hasPendingConfiguration_def
  by (simp_all add: keeps_calm)

lemma editing_keeps:
  "keeps s (on_startTextInputDecisionCapture e args s)" "keeps s (on_stopTextInputDecisionCapture e args s)"
proof -
  show "keeps s (on_startTextInputDecisionCapture e args s)"
    by (auto simp: on_startTextInputDecisionCapture_def split: sum.split
        intro!: keepsI intro: start_editing_orderly)
  show "keeps s (on_stopTextInputDecisionCapture e args s)"
    by (auto simp: on_stopTextInputDecisionCapture_def lock_answers_def split: prod.split
        intro!: keepsI intro: stop_editing_orderly)
qed

lemma on_setDesktopServiceAvailable_keeps: "keeps s (on_setDesktopServiceAvailable e args s)"
proof -
  have "live_svc (SetServiceAvailable a b v)" if "live_svc v" for a b v
  proof (rule live_step [OF that])
    show "svc_step (Announce a b) v = Some (SetServiceAvailable a b v)" using that by (simp add: live_svc_def)
    show "closing (SetServiceAvailable a b v) = closing v"
      by (simp add: SetServiceAvailable_def StartInputThreadLocked_def Let_def)
  qed
  then show ?thesis
    by (auto simp: on_setDesktopServiceAvailable_def Let_def live_backend_def intro!: keeps_calm part_wf(5)
        dest: plugin_wfD(6))
qed

lemma cursors_keeps:
  assumes "cursor_step op (pl_cursors s) = r"
  shows "keeps s (cursors r s)"
  using cursor_part_orderly [of s op "fst r" "snd r"] assms by (auto simp: cursors_def intro!: keepsI)

lemma cursor_hooks_keep:
  "keeps s (on_hookCursorImage e args s)" "keeps s (on_unhookCursorImage e args s)"
  "keeps s (on_hookCursorPosition e args s)" "keeps s (on_unhookCursorPosition e args s)"
  unfolding on_hookCursorImage_def on_unhookCursorImage_def on_hookCursorPosition_def on_unhookCursorPosition_def need_int_def
     apply (intro kept.reads cursors_keeps, rule CursorHooks.cursor_step.simps(1))
    apply (intro kept.reads cursors_keeps, rule CursorHooks.cursor_step.simps(2))
   apply (intro kept.reads cursors_keeps, rule CursorHooks.cursor_step.simps(3))
  apply (intro kept.reads cursors_keeps, rule CursorHooks.cursor_step.simps(4))
  done

lemma lock_keeps: "(\<And>l calls. plugin_wf s \<Longrightarrow> r = Inr (l, calls) \<Longrightarrow> coherent (pl_lock s) (l, calls)) \<Longrightarrow> keeps s (locks e a r s)"
  by (auto simp: locks_def split: sum.split intro!: keepsI lock_part_orderly(1))

lemma display_count_keeps:
  "keeps s (on_addDisplayCountChangedCallback e args s)" "keeps s (on_removeDisplayCountChangedCallback e args s)"
proof -
  have "keeps s (s\<lparr>pl_lock := l\<rparr>, [], v)" if "plugin_wf s \<Longrightarrow> coherent (pl_lock s) (l, [])" for l v
    using that lock_part_orderly(2) [of s l "[]"] by (auto intro!: keepsI)
  then show "keeps s (on_addDisplayCountChangedCallback e args s)" "keeps s (on_removeDisplayCountChangedCallback e args s)"
    unfolding on_addDisplayCountChangedCallback_def on_removeDisplayCountChangedCallback_def need_int_def
    by (intro kept.reads; simp add: callbacks_coherent plugin_wfD(5))+
qed

lemma cursor_lock_keeps:
  "keeps s (on_lockCursor e args s)" "keeps s (on_unlockCursor e args s)" "keeps s (on_unlockCursorAndReseed e args s)"
  "keeps s (on_updateStaticMonitors e args s)"
  unfolding on_lockCursor_def on_unlockCursor_def on_unlockCursorAndReseed_def on_updateStaticMonitors_def
     apply (rule lock_keeps, rule LockCursor_coherent [OF plugin_wfD(5)], assumption, assumption)
    apply (rule lock_keeps, simp, metis UnlockCursor_coherent plugin_wfD(5))
   apply (intro kept.reads lock_keeps, rule UnlockCursorAndReseed_coherent [OF plugin_wfD(5)], assumption, assumption)
  apply (rule lock_keeps, simp, metis UpdateStaticMonitors_coherent plugin_wfD(5))
  done

text \<open>Gamepads.\<close>

lemma gamepads_keep:
  assumes "plugin_wf s \<Longrightarrow> gp_inv g" shows "keeps s (s\<lparr>pl_gamepads := g\<rparr>, map GamepadOut calls, v)"
  by (rule keeps_calm) (simp_all add: part_wf(2) assms)

lemma on_createGameController_keeps: "keeps s (on_createGameController e args s)"
  using CreateGameController_inv [OF plugin_wfD(2), of s "ce_vigem e"]
  by (auto simp: on_createGameController_def split: prod.split intro!: gamepads_keep)

lemma on_removeGameController_keeps: "keeps s (on_removeGameController e args s)"
proof -
  have "keeps s (let (ok, g, calls) = RemoveGameController (ce_vigem e) cid (pl_gamepads s)
       in (s\<lparr>pl_gamepads := g\<rparr>, map GamepadOut calls, Answered (Success (EInt32 (if ok then 1 else 0)))))" for cid
    using RemoveGameController_inv [OF plugin_wfD(2), of s "ce_vigem e" cid] by (auto split: prod.split intro!: gamepads_keep)
  then show ?thesis unfolding on_removeGameController_def need_int_def by (intro kept.reads)
qed

lemma on_doControlAction_keeps: "keeps s (on_doControlAction e args s)"
  by (auto simp: on_doControlAction_def split: option.split encodable.split intro!: kept.stop_with keeps_calm)

lemma prepare_rumble_orderly:
  assumes s: "plugin_wf s" and p: "prepare_rumble e s = (s', outs, problem)"
  shows "orderly s (s', outs)"
proof (cases "pl_rumble_proc s = None")
  case False
  with s p show ?thesis by (auto simp: prepare_rumble_def orderly_refl)
next
  case True
  have "plugin_wf (s\<lparr>pl_rumble_message := m, pl_rumble_window := w\<rparr>)" for m w
    using s True by (simp add: plugin_wf_def)
  moreover have "m \<noteq> 0 \<Longrightarrow> w \<noteq> 0 \<Longrightarrow> plugin_wf (s\<lparr>pl_rumble_message := m, pl_rumble_window := w, pl_rumble_proc := p\<rparr>)" for m w p
    using s True by (simp add: plugin_wf_def)
  ultimately show ?thesis using p s True
    by (auto simp: prepare_rumble_def orderly_def believed_def Let_def split: option.splits if_splits)
qed

lemma on_subscribeGamepadRumble_keeps: "keeps s (on_subscribeGamepadRumble e args s)"
proof (cases args)
  case None
  then show ?thesis by (auto simp: on_subscribeGamepadRumble_def intro: kept.stop_with)
next
  case (Some m)
  obtain s1 o1 problem where p: "prepare_rumble e s = (s1, o1, problem)" by (cases "prepare_rumble e s") auto
  have first: "orderly s (s1, o1)" if "plugin_wf s" using prepare_rumble_orderly [OF that p] .
  have sub: "orderly s (s1\<lparr>pl_gamepads := g\<rparr>, o1 @ map GamepadOut calls)"
    if "plugin_wf s" "SubscribeRumble a cid token window message (pl_gamepads s1) = (ok, g, calls)"
    for a cid token window message ok g calls
  proof (rule orderly_trans [OF first [OF that(1)]])
    have s1: "plugin_wf s1" using first [OF that(1)] by (simp add: orderly_def)
    show "orderly s1 (s1\<lparr>pl_gamepads := g\<rparr>, map GamepadOut calls)"
      using SubscribeRumble_inv [OF plugin_wfD(2) [OF s1], of a cid token window message] that(2)
      by (intro orderly_calm part_wf(2) [OF s1]) simp_all
  qed
  show ?thesis unfolding on_subscribeGamepadRumble_def Some p Let_def option.case prod.case
    by (auto split: option.split encodable.split prod.split intro!: keepsI first sub)
qed

text \<open>Processes and displays.\<close>

lemma run_as_admin_calm: "list_all calm (snd (snd (run_as_admin x file parameters visible bWait)))"
  by (auto simp: run_as_admin_def split: option.split)

lemma process_keeps:
  "keeps s (on_registerService e args s)" "keeps s (on_unregisterService e args s)" "keeps s (on_showNotification e args s)"
  "keeps s (on_setDragWindowContents e args s)" "keeps s (on_putImmersiveModeEnabled e args s)"
proof -
  show "keeps s (on_registerService e args s)" "keeps s (on_unregisterService e args s)"
    using run_as_admin_calm unfolding on_registerService_def on_unregisterService_def RunExeAsAdmin_def
    by (auto split: prod.split intro!: keeps_calm, (metis snd_conv)+)
  show "keeps s (on_showNotification e args s)" unfolding on_showNotification_def by (intro kept.reads keeps_calm) simp_all
  show "keeps s (on_setDragWindowContents e args s)" unfolding on_setDragWindowContents_def
    by (intro kept.reads keeps_calm) (simp_all add: setDragWindowContents_def)
  have "keeps s (let (b, outs) = r in (s\<lparr>pl_blocker := b\<rparr>, map KeyOut outs, v))" for r v
    by (auto split: prod.split intro!: keeps_calm part_wf(10))
  then show "keeps s (on_putImmersiveModeEnabled e args s)" unfolding on_putImmersiveModeEnabled_def
    by (intro kept.reads)
qed

lemma vdd_keeps: "list_all calm outs \<Longrightarrow> keeps s (s\<lparr>pl_vdd := d\<rparr>, outs, v)"
  by (rule keeps_calm) (simp_all add: part_wf(7))

lemma same_keeps: "list_all calm outs \<Longrightarrow> keeps s (s, outs, v)"
  by (rule keeps_calm) simp_all

lemma topology_calm [simp]: "list_all calm (map (\<lambda>c. DisplayOut (topology_call c)) cs)"
  by (simp add: list_all_iff)

lemma display_keeps:
  "keeps s (on_ensureConsoleForDisplay e args s)" "keeps s (on_initParsecVdd e args s)" "keeps s (on_createDisplay e args s)"
  "keeps s (on_getAllDisplays e args s)" "keeps s (on_getDisplayList e args s)"
  "keeps s (on_restoreDisplayConfiguration e args s)"
  unfolding on_ensureConsoleForDisplay_def on_initParsecVdd_def on_createDisplay_def on_getAllDisplays_def
    on_getDisplayList_def on_restoreDisplayConfiguration_def restore_displays_def
  by (auto simp: Let_def split: prod.split intro!: vdd_keeps same_keeps kept.stop_with)

lemma on_setPrimaryDisplay_keeps: "keeps s (on_setPrimaryDisplay e args s)"
proof -
  have "list_all calm (snd (setPrimaryDisplay w c i))" for w c i
    by (auto simp: setPrimaryDisplay_def Let_def split: option.split)
  then have "keeps s (let (success, outs) = setPrimaryDisplay w c i in (s, outs, Answered (truth success)))" for w c i
    by (metis (no_types, lifting) case_prod_beta same_keeps)
  then show ?thesis unfolding on_setPrimaryDisplay_def need_int_def by (intro kept.reads)
qed

lemma on_removeDisplay_keeps: "keeps s (on_removeDisplay e args s)"
proof -
  have "keeps s (let (removed, d, calls) = RemoveDisplay uid (pl_vdd s)
      in (s\<lparr>pl_vdd := d\<rparr>, map DisplayOut calls, Answered (truth True)))" for uid
    by (auto split: prod.split intro!: vdd_keeps)
  then show ?thesis unfolding on_removeDisplay_def by (auto intro!: kept.reads)
qed

lemma on_changeDisplaySettings_keeps: "keeps s (on_changeDisplaySettings e args s)"
proof (cases "args = None")
  case True
  then show ?thesis by (simp add: on_changeDisplaySettings_def kept.stop_with)
next
  case False
  have "keeps s (let (success, calls) = r in (s, map DisplayOut calls, Answered (truth success)))" for r
    by (auto split: prod.split intro!: same_keeps)
  then show ?thesis unfolding on_changeDisplaySettings_def if_not_P [OF False] Let_def by (intro kept.reads)
qed

lemma on_getDisplayConfigs_keeps: "keeps s (on_getDisplayConfigs e args s)"
proof -
  have "keeps s (let (displays, d) = GetDetailedDisplayList w (pl_vdd s); s = s\<lparr>pl_vdd := d\<rparr> in
       if find_index (\<lambda>display. ddi_uid display = display_uid) displays = None
       then (s, [], Answered (Failed ''DISPLAY_NOT_FOUND'' ''Display not found''))
       else let (configs, d) = GetDisplayConfigs w display_uid (pl_vdd s)
         in (s\<lparr>pl_vdd := d\<rparr>, [], Answered (Success (EList (map config_map configs)))))" for w display_uid
    by (auto simp: Let_def split: prod.split intro!: vdd_keeps [of "[]"])
  then show ?thesis unfolding on_getDisplayConfigs_def by (intro kept.reads)
qed

lemma custom_configs_keep: "keeps s (on_getCustomDisplayConfigs e args s)" "keeps s (on_setCustomDisplayConfigs e args s)"
proof -
  have "keeps s (s\<lparr>pl_ctl := c\<rparr>, [], v)" "keeps s (s\<lparr>pl_ctl := c, pl_registry := reg\<rparr>, [], v)" for c v reg
    by (rule keeps_calm; simp add: part_wf(8,9))+
  note set = this
  from set(1) show "keeps s (on_getCustomDisplayConfigs e args s)"
    by (auto simp: on_getCustomDisplayConfigs_def Let_def split: prod.split)
  have "keeps s (case read_config_list vs of None \<Rightarrow> stop_with Thrown s
       | Some configs \<Rightarrow>
           let (c, served, success) = SetCustomDisplayConfigs (ce_ctl e) configs (pl_ctl s); s = s\<lparr>pl_ctl := c\<rparr>
           in if served then (s, [], Answered (truth success))
              else let (success, reg) = RegSetCustomDisplayConfigs (ce_reg_opened e) (ce_reg_created e) (ce_reg_deleted e)
                      configs (pl_registry s)
                in (s\<lparr>pl_registry := reg\<rparr>, [], Answered (truth success)))" for vs
    using set by (auto simp: Let_def split: option.split prod.split intro!: kept.stop_with)
  then show "keeps s (on_setCustomDisplayConfigs e args s)" unfolding on_setCustomDisplayConfigs_def by (intro kept.reads)
qed

lemma orientation_keeps: "keeps s (on_setDisplayOrientation e args s)" "keeps s (on_getDisplayOrientation e args s)"
proof -
  have "keeps s (let (success, d, calls) = r in (s\<lparr>pl_vdd := d\<rparr>, map DisplayOut calls, Answered (truth success)))" for r
    by (auto split: prod.split intro!: vdd_keeps)
  then show "keeps s (on_setDisplayOrientation e args s)" unfolding on_setDisplayOrientation_def Let_def [of "missing_argument _"]
    by (intro kept.reads)
  show "keeps s (on_getDisplayOrientation e args s)" unfolding on_getDisplayOrientation_def
    by (intro kept.reads same_keeps) simp
qed

lemma display_mode_keeps: "keeps s (on_setMultiDisplayMode e args s)" "keeps s (on_setPrimaryDisplayOnly e args s)"
proof -
  show "keeps s (on_setMultiDisplayMode e args s)" unfolding on_setMultiDisplayMode_def
    by (intro kept.reads) (auto simp: Let_def split: prod.split option.split encodable.split intro!: same_keeps kept.stop_with)
  show "keeps s (on_setPrimaryDisplayOnly e args s)" unfolding on_setPrimaryDisplayOnly_def
    by (intro kept.reads) (auto simp: Let_def split: prod.split intro!: vdd_keeps)
qed

lemmas handlers_keep = on_KeyPress_keeps on_performTextInput_keeps mouse_keeps on_mousePress_keeps on_trackpadScroll_keeps
  touch_keeps pen_keeps on_clearAllPressedEvents_keeps pure_keeps editing_keeps on_setDesktopServiceAvailable_keeps
  cursor_hooks_keep display_count_keeps cursor_lock_keeps on_createGameController_keeps on_removeGameController_keeps
  on_doControlAction_keeps on_subscribeGamepadRumble_keeps process_keeps display_keeps on_setPrimaryDisplay_keeps
  on_removeDisplay_keeps on_changeDisplaySettings_keeps on_getDisplayConfigs_keeps custom_configs_keep
  orientation_keeps display_mode_keeps

lemma methods_keep: "list_all (\<lambda>(name, h). keeps s (h e args s)) win_methods"
  unfolding win_methods_def by (simp only: list.pred_inject prod.case handlers_keep simp_thms)

lemma HandleMethodCall_keeps: "keeps s (HandleMethodCall e name v s)"
proof (cases "map_of win_methods name")
  case None
  then show ?thesis by (simp add: HandleMethodCall_def same_keeps)
next
  case (Some h)
  then have "keeps s (h e (call_arguments v) s)"
    using methods_keep [of s e "call_arguments v"] by (auto simp: list_all_iff dest: map_of_SomeD)
  with Some show ?thesis by (simp add: HandleMethodCall_def)
qed

end
