(* ===== verification/WinSession.thy ===== *)
theory WinSession
  imports WinPlugin
begin

text \<open>
  The Windows plugin from its registration to its destruction: every event is orderly, so the invariants of
  the parts hold throughout and the delegates that are registered are those the plugin believes in; what
  the destructor gives back, and what it leaves behind.
\<close>

section \<open>Every event is orderly\<close>

lemma loop_step_closing: "loop_label l \<Longrightarrow> svc_step l s = Some s' \<Longrightarrow> closing s' = closing s"
  by (cases l) (auto simp: loop_label_def loop_top_def connect_done_def write_done_def close_pipe_def Let_def
      split: if_splits loop_pc.splits option.splits list.splits)

lemma input_thread_orderly:
  assumes "plugin_wf s" "loop_label l" "svc_step l (be_svc (pl_backend s)) = Some v"
  shows "orderly s (s\<lparr>pl_backend := (pl_backend s)\<lparr>be_svc := v\<rparr>\<rparr>, [])"
proof (rule orderly_calm)
  have "live_svc v"
    using plugin_wfD(6) [OF assms(1)] live_step [OF _ assms(3) loop_step_closing [OF assms(2,3)]]
    by (simp add: live_backend_def)
  then show "plugin_wf (s\<lparr>pl_backend := (pl_backend s)\<lparr>be_svc := v\<rparr>\<rparr>)"
    using assms(1) by (auto simp: live_backend_def intro!: part_wf(5))
qed simp_all

lemma queue_decision_wf: "editing_wf ed \<Longrightarrow> ed_worker ed \<noteq> None \<Longrightarrow> editing_wf (queue_decision posted ed d)"
  by (auto simp: queue_decision_def editing_wf_def slot_wf_def QueueWindowsTextInputDecision_def Let_def)

lemma queue_decision_fields [simp]:
  "ed_worker (queue_decision posted ed d) = ed_worker ed" "ed_proc (queue_decision posted ed d) = ed_proc ed"
  "ed_detached (queue_decision posted ed d) = ed_detached ed"
  by (simp_all add: queue_decision_def)

lemma queue_decisions_wf:
  "editing_wf ed \<Longrightarrow> ed_worker ed \<noteq> None \<Longrightarrow>
     editing_wf (foldl (\<lambda>ed (r, d). queue_decision posted ed d) ed ds) \<and>
     editing_holds (foldl (\<lambda>ed (r, d). queue_decision posted ed d) ed ds) = editing_holds ed"
  by (induction ds arbitrary: ed) (auto simp: queue_decision_wf editing_holds_def)

lemma editing_delegate_wf:
  "editing_wf ed \<Longrightarrow> editing_delegate message own ed = (ed', outs, r) \<Longrightarrow>
     editing_wf ed' \<and> editing_holds ed' = editing_holds ed \<and> list_all calm outs"
  by (auto simp: editing_holds_def editing_delegate_def decision_message_def editing_wf_def slot_wf_def split: if_splits prod.splits)

lemma lock_event_orderly:
  assumes "plugin_wf s" "map_option (\<lambda>(l, calls). (s\<lparr>pl_lock := l\<rparr>, map LockOut calls)) (lock_do st (pl_lock s)) = Some r"
  shows "orderly s r"
proof -
  obtain l calls where l: "lock_do st (pl_lock s) = Some (l, calls)" "r = (s\<lparr>pl_lock := l\<rparr>, map LockOut calls)"
    using assms(2) by auto
  from lock_part_orderly(2) [OF assms(1) lock_do_coherent [OF plugin_wfD(5) [OF assms(1)] l(1)]] l(2) show ?thesis by simp
qed

lemma list_all_update: "list_all P xs \<Longrightarrow> P y \<Longrightarrow> list_all P (xs[i := y])"
  using set_update_subset_insert [of xs i y] by (auto simp: list_all_iff)

lemma win_step_orderly:
  assumes s: "plugin_wf s" and r: "win_step (e, ev) s = Some r"
  shows "orderly s r"
proof (cases ev)
  case (MethodCall name v)
  obtain s' outs verdict where h: "HandleMethodCall e name v s = (s', outs, verdict)" by (cases "HandleMethodCall e name v s") auto
  with HandleMethodCall_keeps [of s e name v] s r MethodCall show ?thesis
    by (auto simp: win_step_def keeps_def split: if_splits)
next
  case (RumbleMessage m c l)
  with r s show ?thesis
    by (auto simp: win_step_def split: if_splits option.splits intro!: orderly_refl orderly_calm)
next
  case (EditingMessage m own)
  obtain ed outs d where d: "editing_delegate m own (pl_editing s) = (ed, outs, d)"
    by (cases "editing_delegate m own (pl_editing s)") auto
  from editing_delegate_wf [OF plugin_wfD(7) [OF s] d] have "orderly s (s\<lparr>pl_editing := ed\<rparr>, outs)"
    by (intro orderly_calm part_wf(6) [OF s]) (simp_all add: believed_def)
  with r s d EditingMessage show ?thesis by (auto simp: win_step_def orderly_refl split: if_splits)
next
  case (RawMessage m raw)
  with r lock_event_orderly [OF s] show ?thesis by (simp add: win_step_def del: lock_do.simps)
next
  case (DpiMessage m)
  with r lock_event_orderly [OF s] show ?thesis by (simp add: win_step_def del: lock_do.simps)
next
  case (CursorChanged event about)
  obtain m calls where c: "CursorChangedEventProc (ce_cursor e) event about (pl_cursors s) = (m, calls)" by fastforce
  then have "cursor_step (EventOp (ce_cursor e) event about) (pl_cursors s) = (m, calls)" by simp
  from cursor_part_orderly [OF s this] r c CursorChanged show ?thesis by (simp add: win_step_def)
next
  case (KeyboardHook event)
  then obtain b outs where "r = (s\<lparr>pl_blocker := b\<rparr>, map KeyOut outs)" using r by (auto simp: win_step_def)
  then show ?thesis by (auto intro!: orderly_calm part_wf(10) [OF s])
next
  case RepeatTick
  with r s inputs_orderly [OF _ monitor_tick_wf [OF plugin_wfD(1) [OF s]] s] show ?thesis
    by (auto simp: win_step_def orderly_refl split: if_splits)
next
  case (EditingWorker op posted)
  show ?thesis
  proof (cases "ed_worker (pl_editing s)")
    case None
    with r s EditingWorker show ?thesis by (auto simp: win_step_def intro: orderly_refl)
  next
    case (Some w)
    obtain w' ds where w: "(if thread_op op then worker_step op w else (w, [])) = (w', ds)" by fastforce
    let ?ed = "(pl_editing s)\<lparr>ed_worker := Some w'\<rparr>"
    have "editing_wf ?ed" using plugin_wfD(7) [OF s] Some by (auto simp: editing_wf_def)
    moreover have "editing_holds ?ed = editing_holds (pl_editing s)" using Some by (simp add: editing_holds_def)
    ultimately have "orderly s (s\<lparr>pl_editing := foldl (\<lambda>ed (r, d). queue_decision posted ed d) ?ed ds\<rparr>, [])"
      using queue_decisions_wf [of ?ed posted ds] by (intro orderly_calm part_wf(6) [OF s]) (simp_all add: believed_def)
    with r w Some EditingWorker show ?thesis by (simp add: win_step_def Let_def)
  qed
next
  case (DetachedWorker i op posted)
  show ?thesis
  proof (cases "i < length (ed_detached (pl_editing s)) \<and> thread_op op")
    case False
    with r s DetachedWorker show ?thesis by (auto simp: win_step_def intro: orderly_refl)
  next
    case True
    let ?w = "ed_detached (pl_editing s) ! i"
    let ?ed = "(pl_editing s)\<lparr>ed_detached := (ed_detached (pl_editing s))[i := fst (worker_step op ?w)]\<rparr>"
    have all: "list_all let_go (ed_detached (pl_editing s))" using plugin_wfD(7) [OF s] by (simp add: editing_wf_def)
    then have w: "let_go (fst (worker_step op ?w))" "snd (worker_step op ?w) = []"
      using let_go_step [of ?w op] True by (simp_all add: list_all_length)
    have "list_all let_go ((ed_detached (pl_editing s))[i := fst (worker_step op ?w)])"
      by (rule list_all_update [OF all w(1)])
    then have "editing_wf ?ed" using plugin_wfD(7) [OF s] by (simp add: editing_wf_def)
    then have "orderly s (s\<lparr>pl_editing := ?ed\<rparr>, [])"
      by (intro orderly_calm part_wf(6) [OF s]) (simp_all add: believed_def editing_holds_def)
    moreover have "r = (s\<lparr>pl_editing := ?ed\<rparr>, [])"
      using r True w(2) by (simp add: win_step_def DetachedWorker case_prod_beta)
    ultimately show ?thesis by simp
  qed
next
  case (InputThread l)
  with r s input_thread_orderly [OF s] show ?thesis by (auto simp: win_step_def orderly_refl split: if_splits)
qed

lemma win_run_orderly: "plugin_wf s \<Longrightarrow> win_run evs s = Some r \<Longrightarrow> orderly s r"
proof (rule win_machine.run_ok [where legal = plugin_wf and ok = orderly])
  show "\<And>s s1 o1. orderly s (s1, o1) \<Longrightarrow> plugin_wf s1" by (simp add: orderly_def)
  show "\<And>e s r. plugin_wf s \<Longrightarrow> win_step e s = Some r \<Longrightarrow> orderly s r"
    using win_step_orderly by (metis prod.collapse)
qed (auto intro: orderly_refl orderly_trans)

section \<open>Registration and destruction\<close>

lemma new_win_plugin_wf: "plugin_wf (new_win_plugin reg)" "believed (new_win_plugin reg) = {#}"
  by (simp_all add: new_win_plugin_def plugin_wf_def win_wf_init init_gamepads_inv CursorHooks.init_monitor_ok
      init_lock_wf live_backend_def live_init editing_wf_def slot_wf_def no_editing_def no_slot_def believed_def)
    (simp_all add: init_cursor_lock_def carry_ok_def editing_holds_def)

lemma RegisterWithRegistrar_orderly:
  assumes s: "plugin_wf s" and d: "pl_dpi_proc s = None" and running: "\<not> pl_thread_running s"
  shows "orderly s (RegisterWithRegistrar e ratio s)"
proof -
  obtain l told where u: "UpdateStaticMonitors (ce_world e) (pl_lock s) = (l, told)" by fastforce
  have lock: "lock_wf l" "holdings (map LockOut told) m = Some m" for m
    using UpdateStaticMonitors_coherent [OF plugin_wfD(5) [OF s], of "ce_world e"] u
      coherent_delegates [of "pl_lock s" l told "m - opt_mset (raw_input_proc_id l)"]
    by (auto simp: coherent_def UpdateStaticMonitors_def notifyDisplayCountChanged_def plugin_wfD(5) [OF s, unfolded lock_wf_def]
        callbacks_told Let_def intro!: delegates_calm simp: list_all_iff calm_def)
  have raw: "raw_input_proc_id l = raw_input_proc_id (pl_lock s)" using u by (auto simp: UpdateStaticMonitors_def Let_def)
  obtain s2 o2 where r: "RegisterWithRegistrar e ratio s =
      (s2\<lparr>pl_lock := l, pl_dpi_proc := Some (ce_proc e)\<rparr>, o2 @ map LockOut (told @ [RegisterDelegate (ce_proc e)]))"
    and 2: "plugin_wf s2" "holdings o2 (believed s) = Some (believed s2)" "pl_dpi_proc s2 = None" "pl_lock s2 = pl_lock s"
  proof -
    let ?v = "case le_view (lock_answers e) of None \<Rightarrow> (s, []) | Some w \<Rightarrow>
        (s\<lparr>pl_view_window := w\<rparr>, if w \<noteq> 0 then [SubclassView w] else [])"
    let ?s1 = "fst ?v\<lparr>pl_ratio := ratio\<rparr>"
    let ?t = "if g_auto_repeat_enabled (pl_win ?s1) then StartMonitorThread ?s1 else (?s1, [])"
    have "plugin_wf ?s1" "believed ?s1 = believed s" "pl_dpi_proc ?s1 = None" "pl_lock ?s1 = pl_lock s" "\<not> pl_thread_running ?s1"
      using s d running by (auto split: option.split intro!: part_wf)
    moreover have "list_all calm (snd ?v)" by (auto split: option.split)
    ultimately have "plugin_wf (fst ?t)" "holdings (snd ?v @ snd ?t) (believed s) = Some (believed (fst ?t))"
      "pl_dpi_proc (fst ?t) = None" "pl_lock (fst ?t) = pl_lock s"
      by (auto simp: StartMonitorThread_def delegates_append delegates_calm part_wf(14) believed_def ac_simps)
    moreover have "RegisterWithRegistrar e ratio s = ((fst ?t)\<lparr>pl_lock := l, pl_dpi_proc := Some (ce_proc e)\<rparr>,
        (snd ?v @ snd ?t) @ map LockOut (told @ [RegisterDelegate (ce_proc e)]))"
      using u \<open>pl_lock (fst ?t) = pl_lock s\<close>
      by (simp add: RegisterWithRegistrar_def Let_def case_prod_beta split: option.split)
    ultimately show ?thesis using that by blast
  qed
  have "plugin_wf (s2\<lparr>pl_lock := l, pl_dpi_proc := Some (ce_proc e)\<rparr>)" by (rule part_wf(15) [OF part_wf(4) [OF 2(1) lock(1)]])
  moreover have "believed (s2\<lparr>pl_lock := l, pl_dpi_proc := Some (ce_proc e)\<rparr>) = add_mset (Delegate (ce_proc e)) (believed s2)"
    using 2 raw by (simp add: believed_def)
  moreover have "holdings (o2 @ map LockOut (told @ [RegisterDelegate (ce_proc e)])) (believed s) =
      Some (add_mset (Delegate (ce_proc e)) (believed s2))"
    by (simp add: delegates_append 2(2) lock(2))
  ultimately show ?thesis by (simp add: orderly_def r)
qed

lemma stop_from_off:
  "gp_inv g \<Longrightarrow> set is \<subseteq> {0..<4} \<Longrightarrow> j < 4 \<Longrightarrow> j \<in> set is \<or> \<not> rc_registered (rumble_contexts g ! j) \<Longrightarrow>
     \<not> rc_registered (rumble_contexts (fst (stop_from is g)) ! j)"
proof (induction "is" arbitrary: g)
  case (Cons i "is")
  let ?on = "controllers g ! i \<noteq> None \<and> rc_registered (rumble_contexts g ! i)"
  obtain g1 o1 where u: "(if ?on then UnregisterRumble i g else (g, [])) = (g1, o1)" by fastforce
  have i: "i < 4" using Cons.prems(2) by simp
  have g1: "gp_inv g1" using u UnregisterRumble_inv(1) [OF Cons.prems(1) i] Cons.prems(1) by (auto split: if_splits)
  have off: "\<not> rc_registered (rumble_contexts g1 ! i)"
    using u UnregisterRumble_inv(3) [OF Cons.prems(1) i] gp_invD(2) [OF Cons.prems(1)] gp_invD(4) [OF Cons.prems(1) i] i
    by (auto simp: Gamepad.slot_ok_def split: if_splits)
  have keep: "\<not> rc_registered (rumble_contexts g ! j) \<Longrightarrow> \<not> rc_registered (rumble_contexts g1 ! j)"
    using u UnregisterRumble_inv(3) [OF Cons.prems(1) i] gp_invD(2) [OF Cons.prems(1)]
    by (cases "i = j") (auto simp: off split: if_splits)
  have "\<not> rc_registered (rumble_contexts (fst (stop_from is g1)) ! j)"
    by (rule Cons.IH [OF g1 _ Cons.prems(3)]) (use Cons.prems(2,4) off keep in auto)
  moreover have "fst (stop_from (i # is) g) = fst (stop_from is g1)" using u by (simp add: case_prod_beta)
  ultimately show ?case by simp
qed simp

lemma svc_run_append: "svc_run (ls @ rest) s = (case svc_run ls s of None \<Rightarrow> None | Some s1 \<Rightarrow> svc_run rest s1)"
  by (induction ls arbitrary: s) (auto split: option.splits)

lemma closed_service:
  assumes "svc_run ([CloseRequest] @ thread @ [CloseJoined]) s = Some v"
  shows "loop_at v = NotRunning"
proof -
  obtain t where t: "svc_run [CloseJoined] t = Some v"
    using svc_run_append [of "[CloseRequest] @ thread" "[CloseJoined]" s] assms
    by (auto simp del: svc_run.simps append_Cons split: option.splits)
  then show ?thesis by (auto simp: Close_joined_def split: if_splits)
qed

lemma CleanupCursorLock_free:
  "lock_wf l \<Longrightarrow> \<not> cursor_locked (fst (CleanupCursorLock l)) \<and> raw_input_proc_id (fst (CleanupCursorLock l)) = None \<and>
     display_count_callbacks (fst (CleanupCursorLock l)) = display_count_callbacks l"
  using CleanupCursorLock_coherent [of l]
  by (auto simp: coherent_def lock_wf_def CleanupCursorLock_def UnlockCursor_def UnsubscribeFromRawInputData_def
      split: if_splits)

text \<open>The order of the destructor: what each part of it returns.\<close>

lemma StopMonitorThread_eq:
  "StopMonitorThread s = (s\<lparr>pl_thread_running := False\<rparr>, if pl_thread_running s then [JoinThread] else [])"
  by (cases s) (simp add: StopMonitorThread_def)

definition closed_backend :: "call_env \<Rightarrow> svc \<Rightarrow> win_plugin \<Rightarrow> backend" where
  "closed_backend e v s =
     fst (destroy_pen_device (ce_user32 e) (fst (destroyTouchDevice (ce_user32 e) ((pl_backend s)\<lparr>be_svc := v\<rparr>))))"

lemma closed_backend_svc: "be_svc (closed_backend e v s) = v"
  by (simp add: closed_backend_def destroyTouchDevice_def destroy_pen_device_def)

definition torn_down :: "call_env \<Rightarrow> svc \<Rightarrow> win_plugin \<Rightarrow> win_plugin" where
  "torn_down e v s = s\<lparr>pl_gamepads := fst (StopRumbleNotifications (pl_gamepads s)),
     pl_editing := fst (stop_editing (ce_in_time e) True (pl_editing s)), pl_view_window := 0, pl_rumble_proc := None,
     pl_vdd := (pl_vdd s)\<lparr>vs_backup :=
       fst (snd (RestoreDisplayConfiguration (ce_apply1 e) (ce_apply2 e) (vs_backup (pl_vdd s))))\<rparr>,
     pl_thread_running := False, pl_backend := closed_backend e v s,
     pl_win := WinPointer.destroyPenDevice (pl_win s), pl_lock := fst (CleanupCursorLock (pl_lock s)),
     pl_dpi_proc := None\<rparr>"

definition display_calls :: "call_env \<Rightarrow> win_plugin \<Rightarrow> win_out list" where
  "display_calls e s =
     (if pl_view_window s \<noteq> 0 then [UnsubclassView (pl_view_window s)] else []) @
     map (\<lambda>c. DisplayOut (topology_call c))
       (snd (snd (RestoreDisplayConfiguration (ce_apply1 e) (ce_apply2 e) (vs_backup (pl_vdd s)))))"

definition device_calls :: "call_env \<Rightarrow> svc \<Rightarrow> win_plugin \<Rightarrow> win_out list" where
  "device_calls e v s =
     snd (destroyTouchDevice (ce_user32 e) ((pl_backend s)\<lparr>be_svc := v\<rparr>)) @
     snd (destroy_pen_device (ce_user32 e) (fst (destroyTouchDevice (ce_user32 e) ((pl_backend s)\<lparr>be_svc := v\<rparr>))))"

lemma calls_calm: "list_all calm (display_calls e s)" "list_all calm (device_calls e v s)"
  by (auto simp: display_calls_def device_calls_def destroyTouchDevice_def destroy_pen_device_def)

lemma destroy_plugin_eq:
  "destroy_plugin e thread s =
     (case svc_run ([CloseRequest] @ thread @ [CloseJoined]) (be_svc (pl_backend s)) of
        None \<Rightarrow> None
      | Some v \<Rightarrow> Some (torn_down e v s,
          (map GamepadOut (snd (StopRumbleNotifications (pl_gamepads s))) @
            (case pl_rumble_proc s of Some p \<Rightarrow> [LockOut (UnregisterDelegate p)] | None \<Rightarrow> []) @
            (if pl_rumble_window s \<noteq> 0 \<and> pl_rumble_message s \<noteq> 0
             then [DiscardMessages (pl_rumble_window s) (pl_rumble_message s)] else [])) @
          snd (stop_editing (ce_in_time e) True (pl_editing s)) @ display_calls e s @ (if pl_thread_running s then [JoinThread] else []) @ device_calls e v s @
          map LockOut (snd (CleanupCursorLock (pl_lock s)) @
            (case pl_dpi_proc s of Some p \<Rightarrow> [UnregisterDelegate p] | None \<Rightarrow> []))))"
proof (cases "svc_run ([CloseRequest] @ thread @ [CloseJoined]) (be_svc (pl_backend s))")
  case None
  show ?thesis
    by (simp add: destroy_plugin_def restore_displays_def StopMonitorThread_eq Let_def case_prod_beta None
        del: svc_run.simps append_Cons append_Nil)
next
  case (Some v)
  show ?thesis
    by (simp add: destroy_plugin_def restore_displays_def StopMonitorThread_eq Let_def case_prod_beta Some
        torn_down_def display_calls_def device_calls_def closed_backend_def del: svc_run.simps append_Cons append_Nil)
qed

section \<open>What a session gives back\<close>

lemma GamepadOut_delegates: "holdings (map GamepadOut cs @ ds) m = holdings ds m"
  by (rule delegates_then) (simp add: delegates_calm)

lemma discard_delegates: "holdings ((if b then [DiscardMessages n k] else []) @ ds) m = holdings ds m"
  by simp

text \<open>
  What the plugin holds is given back in the order of the destructor; a worker that has not ended in time is
  what may be left.
\<close>

definition detached_threads :: "win_plugin \<Rightarrow> holding multiset" where
  "detached_threads s = replicate_mset (length (ed_detached (pl_editing s))) DetachedThread"

lemma destroy_delegates:
  assumes s: "plugin_wf s" and d: "destroy_plugin e thread s = Some (s', outs)"
  shows "holdings outs (believed s) = Some (detached_threads s')"
proof -
  obtain v where v: "s' = torn_down e v s"
      "outs = (map GamepadOut (snd (StopRumbleNotifications (pl_gamepads s))) @
            (case pl_rumble_proc s of Some p \<Rightarrow> [LockOut (UnregisterDelegate p)] | None \<Rightarrow> []) @
            (if pl_rumble_window s \<noteq> 0 \<and> pl_rumble_message s \<noteq> 0
             then [DiscardMessages (pl_rumble_window s) (pl_rumble_message s)] else [])) @
          snd (stop_editing (ce_in_time e) True (pl_editing s)) @ display_calls e s @
          (if pl_thread_running s then [JoinThread] else []) @ device_calls e v s @
          map LockOut (snd (CleanupCursorLock (pl_lock s))) @
          map LockOut (case pl_dpi_proc s of Some p \<Rightarrow> [UnregisterDelegate p] | None \<Rightarrow> [])"
    using d by (auto simp: destroy_plugin_eq simp del: svc_run.simps append_Cons append_Nil split: option.splits)
  let ?r = "opt_mset (pl_rumble_proc s)" and ?e = "editing_holds (pl_editing s)"
    and ?w = "opt_mset (raw_input_proc_id (pl_lock s))" and ?d = "opt_mset (pl_dpi_proc s)"
    and ?t = "flag_mset (pl_thread_running s) RepeatThread"
  define l where "l = detached_threads s'"
  have 1: "holdings ((case pl_rumble_proc s of Some p \<Rightarrow> [LockOut (UnregisterDelegate p)] | None \<Rightarrow> []) @ ds) (?r + m) =
      holdings ds m" for ds m
    by (cases "pl_rumble_proc s") simp_all
  have "editing_holds (fst (stop_editing (ce_in_time e) True (pl_editing s))) = l"
    by (simp add: l_def v(1) torn_down_def detached_threads_def editing_holds_def)
  then have 2: "holdings (snd (stop_editing (ce_in_time e) True (pl_editing s)) @ ds) (?e + m) = holdings ds (l + m)" for ds m
    using delegates_then [OF stop_editing_delegates [of "ce_in_time e" "pl_editing s" m]] by simp
  have 3: "holdings (display_calls e s @ ds) m = holdings ds m" "holdings (device_calls e v s @ ds) m = holdings ds m" for ds m
    by (rule delegates_then [OF delegates_calm [OF calls_calm(1)]], rule delegates_then [OF delegates_calm [OF calls_calm(2)]])
  have 4: "holdings ((if pl_thread_running s then [JoinThread] else []) @ ds) (l + (?t + m)) = holdings ds (l + m)" for ds m
    by simp
  have "raw_input_proc_id (fst (CleanupCursorLock (pl_lock s))) = None"
    using CleanupCursorLock_free [OF plugin_wfD(5) [OF s]] by simp
  then have "holdings (map LockOut (snd (CleanupCursorLock (pl_lock s))) @ ds) (?w + m) = holdings ds m" for ds m
    using delegates_then [OF coherent_delegates [of "pl_lock s" "fst (CleanupCursorLock (pl_lock s))"
        "snd (CleanupCursorLock (pl_lock s))" m]] CleanupCursorLock_coherent [OF plugin_wfD(5) [OF s]] by simp
  from this [of _ "l + m" for m]
  have 5: "holdings (map LockOut (snd (CleanupCursorLock (pl_lock s))) @ ds) (l + (?w + m)) = holdings ds (l + m)" for ds m
    by (simp only: add.left_commute [of l])
  have 6: "holdings (map LockOut (case pl_dpi_proc s of Some p \<Rightarrow> [UnregisterDelegate p] | None \<Rightarrow> [])) (l + ?d) = Some l"
    by (cases "pl_dpi_proc s") simp_all
  have "believed s = ?r + (?e + (?t + (?w + ?d)))" by (simp add: believed_def ac_simps)
  then show ?thesis unfolding v(2) append_assoc l_def [symmetric]
    by (simp only: GamepadOut_delegates 1 discard_delegates 2 3 4 5 6)
qed

text \<open>What is released.\<close>

definition released :: "win_plugin \<Rightarrow> bool" where
  "released s \<longleftrightarrow> list_all (\<lambda>c. \<not> rc_registered c) (rumble_contexts (pl_gamepads s)) \<and>
     ed_worker (pl_editing s) = None \<and> \<not> cursor_locked (pl_lock s) \<and> \<not> pl_thread_running s \<and>
     pl_view_window s = 0 \<and> loop_at (be_svc (pl_backend s)) = NotRunning \<and>
     believed s = detached_threads s"

lemma destroyed_released:
  assumes s: "plugin_wf s" and d: "destroy_plugin e thread s = Some (s', outs)"
  shows "released s'"
proof -
  obtain v where v: "svc_run ([CloseRequest] @ thread @ [CloseJoined]) (be_svc (pl_backend s)) = Some v" "s' = torn_down e v s"
    using d by (auto simp: destroy_plugin_eq simp del: svc_run.simps append_Cons append_Nil split: option.splits)
  have "length (rumble_contexts (pl_gamepads s')) = 4"
    using stop_from_inv [OF plugin_wfD(2) [OF s], of "[0, 1, 2, 3]"]
    by (simp add: v(2) torn_down_def StopRumbleNotifications_def gp_inv_def del: stop_from.simps)
  moreover have "j < 4 \<Longrightarrow> \<not> rc_registered (rumble_contexts (pl_gamepads s') ! j)" for j
  proof -
    assume j: "j < 4"
    then have "j \<in> set [0, 1, 2, 3]" by auto
    with stop_from_off [OF plugin_wfD(2) [OF s], of "[0, 1, 2, 3]" j] j show ?thesis
      by (auto simp: v(2) torn_down_def StopRumbleNotifications_def simp del: stop_from.simps)
  qed
  ultimately have "list_all (\<lambda>c. \<not> rc_registered c) (rumble_contexts (pl_gamepads s'))"
    by (simp add: list_all_length)
  moreover have "ed_proc (pl_editing s') = None" "ed_worker (pl_editing s') = None"
    by (simp_all add: v(2) torn_down_def)
  moreover have "\<not> cursor_locked (pl_lock s')" "raw_input_proc_id (pl_lock s') = None"
    using CleanupCursorLock_free [OF plugin_wfD(5) [OF s]] by (simp_all add: v(2) torn_down_def)
  moreover have "loop_at (be_svc (pl_backend s')) = NotRunning"
    using closed_service [OF v(1)] by (simp add: v(2) torn_down_def closed_backend_svc)
  moreover have "pl_rumble_proc s' = None" "pl_dpi_proc s' = None" "\<not> pl_thread_running s'" "pl_view_window s' = 0"
    by (simp_all add: v(2) torn_down_def)
  ultimately show ?thesis by (simp add: released_def believed_def editing_holds_def detached_threads_def)
qed

text \<open>What is left as it was, and the workers that have been let go.\<close>

lemma stop_from_keeps:
  "controllers (fst (stop_from is g)) = controllers g \<and> vigem_client (fst (stop_from is g)) = vigem_client g"
  by (induction "is" arbitrary: g) (simp_all add: case_prod_beta UnregisterRumble_def Let_def)

definition left_alone :: "win_plugin \<Rightarrow> win_plugin \<Rightarrow> bool" where
  "left_alone s s' \<longleftrightarrow>
     controllers (pl_gamepads s') = controllers (pl_gamepads s) \<and> vigem_client (pl_gamepads s') = vigem_client (pl_gamepads s) \<and>
     vs_initialized (pl_vdd s') = vs_initialized (pl_vdd s) \<and> vs_handle (pl_vdd s') = vs_handle (pl_vdd s) \<and>
     vs_displays (pl_vdd s') = vs_displays (pl_vdd s) \<and> pl_registry s' = pl_registry s \<and>
     pl_cursors s' = pl_cursors s \<and> pl_blocker s' = pl_blocker s \<and>
     display_count_callbacks (pl_lock s') = display_count_callbacks (pl_lock s)"

lemma destroy_leaves:
  assumes s: "plugin_wf s" and d: "destroy_plugin e thread s = Some (s', outs)"
  shows "left_alone s s'"
    and "ed_detached (pl_editing s') = ed_detached (pl_editing s) @
      (case ed_worker (pl_editing s) of Some w \<Rightarrow> if ce_in_time e then [] else [Stop_requests w] | None \<Rightarrow> [])"
    and "list_all let_go (ed_detached (pl_editing s'))"
    and "can_destroy (ce_user32 e) \<Longrightarrow> \<not> be_touch_device (pl_backend s') \<and> \<not> be_pen_device (pl_backend s')"
proof -
  obtain v where v: "s' = torn_down e v s"
    using d by (auto simp: destroy_plugin_eq simp del: svc_run.simps append_Cons append_Nil split: option.splits)
  show "left_alone s s'"
    using CleanupCursorLock_free [OF plugin_wfD(5) [OF s]]
    by (simp add: left_alone_def v torn_down_def StopRumbleNotifications_def stop_from_keeps del: stop_from.simps)
  show "ed_detached (pl_editing s') = ed_detached (pl_editing s) @
      (case ed_worker (pl_editing s) of Some w \<Rightarrow> if ce_in_time e then [] else [Stop_requests w] | None \<Rightarrow> [])"
    by (simp add: v torn_down_def stop_editing_def stop_thread_def Let_def case_prod_beta split: option.split)
  show "list_all let_go (ed_detached (pl_editing s'))"
    using stop_editing_wf [OF plugin_wfD(7) [OF s], of "ce_in_time e" True] by (simp add: v torn_down_def editing_wf_def)
  show "\<not> be_touch_device (pl_backend s') \<and> \<not> be_pen_device (pl_backend s')" if "can_destroy (ce_user32 e)"
    using that by (simp add: v torn_down_def closed_backend_def destroyTouchDevice_def destroy_pen_device_def)
qed

text \<open>Some steps of the input thread, at most two, let the destructor end.\<close>

lemma destroy_ends:
  assumes s: "plugin_wf s"
  shows "\<exists>thread r. list_all loop_label thread \<and> length thread \<le> 2 \<and> destroy_plugin e thread s = Some r"
proof -
  let ?s = "be_svc (pl_backend s)"
  have live: "reachable ?s" "\<not> closing ?s" using plugin_wfD(6) [OF s] by (simp_all add: live_backend_def live_svc_def)
  let ?c = "Close_request ?s"
  have c: "svc_step CloseRequest ?s = Some ?c" using live(2) by simp
  have "closing ?c" by (simp add: Close_request_def)
  from closing_completes [OF reachable_step [OF live(1) c] this] obtain thread v
    where t: "list_all loop_label thread" "length thread \<le> stop_distance (loop_at ?c)"
      "svc_run (thread @ [CloseJoined]) ?c = Some v" by blast
  have "stop_distance p \<le> 2" for p by (simp add: stop_distance_def split: loop_pc.splits)
  with t(2) have "length thread \<le> 2" using le_trans by blast
  moreover have "svc_run ([CloseRequest] @ thread @ [CloseJoined]) ?s = Some v" using c t(3) by simp
  ultimately show ?thesis using t(1)
    by (intro exI [of _ thread]) (simp add: destroy_plugin_eq del: svc_run.simps append_Cons append_Nil)
qed

text \<open>A session used as an example: it captures decisions, asks for motor feedback and locks the cursor.\<close>

definition demo_call :: "int \<Rightarrow> call_env" where
  "demo_call proc_id = \<lparr>ce_now = 0, ce_win = demo_env,
     ce_os = \<lparr>sendinput_ok = \<lambda>n i. True, inject_ok = \<lambda>n ps. True, device_ok = \<lambda>n. True, input_desktop = \<lambda>n. Some 1\<rparr>,
     ce_user32 = Some (True, True, True),
     ce_lock = \<lparr>le_registrar = True, le_view = Some 3, le_parent = \<lambda>w. 2, le_runner_window = 0, le_flutter_window = 0,
       le_cursor_pos = Some \<lparr>p_x = 40, p_y = 50\<rparr>, le_clip_ok = True, le_register_ok = True, le_proc_id = proc_id,
       le_client = \<lambda>w. None\<rparr>,
     ce_decode = \<lambda>t. Some (map ucast t), ce_wide = map ucast, ce_cursor = demo_cursor, ce_cursor_pos = None,
     ce_vigem = \<lparr>va_alloc = Some 1, va_connect = True, va_target_alloc = Some 1, va_target_add = True, va_register = True,
       va_target_remove = True, va_update = True\<rparr>,
     ce_gamepad = demo_report, ce_nextparam = 0, ce_desktop = demo_desktop, ce_hook = Some 1, ce_world = demo_world,
     ce_worlds = \<lambda>n. demo_world, ce_driver = None, ce_status = DEVICE_NOT_INSTALLED, ce_interfaces = [],
     ce_console = demo_console, ce_change_ok = True, ce_database = [], ce_active = [], ce_query = demo_query,
     ce_names = demo_names, ce_os_result = 0, ce_apply1 = \<lparr>aa_result = 0, aa_service = None\<rparr>,
     ce_apply2 = \<lparr>aa_result = 0, aa_service = None\<rparr>,
     ce_ctl = \<lparr>available = False, can_connect = False, events_ok = False, write_ok = \<lambda>m. False, reply = \<lambda>m. None\<rparr>,
     ce_reg_opened = False, ce_reg_created = \<lambda>n. False, ce_reg_deleted = \<lambda>n. False, ce_start = all_ok,
     ce_monitor_count = 1, ce_version = 10, ce_message = 49200, ce_root = \<lambda>w. w, ce_proc = proc_id, ce_editing = Started, ce_in_time = False,
     ce_exe = \<lparr>xe_module = None, xe_directory = \<lambda>p. None, xe_combine = \<lambda>p q. None, xe_exists = \<lambda>p. False,
       xe_started = False, xe_process = False, xe_error = 0\<rparr>,
     ce_token = \<lparr>tk_opened = False, tk_sized = False, tk_allocated = False, tk_user = None, tk_system = None\<rparr>,
     ce_reg_desktop = False\<rparr>"

definition demo_session :: "(call_env \<times> win_event) list" where
  "demo_session = [(demo_call 1, MethodCall ''startTextInputDecisionCapture'' ENull),
     (demo_call 2, MethodCall ''subscribeGamepadRumble'' (EMap [(''id'', EInt32 1), (''token'', EInt32 5)])),
     (demo_call 3, MethodCall ''lockCursor'' ENull), (demo_call 0, RawMessage WM_INPUT (Some (- 1, 2))),
     (demo_call 0, MethodCall ''setDesktopServiceAvailable'' (EMap [(''available'', EBool True)])),
     (demo_call 0, InputThread InputQueue.Wake)]"

definition demo_plugin :: win_plugin where
  "demo_plugin = fst (RegisterWithRegistrar (demo_call 0) (Fin 1) (new_win_plugin (\<lambda>i. None)))"

lemma demo_registered:
  "pl_editing demo_plugin = no_editing" "pl_rumble_proc demo_plugin = None" "pl_dpi_proc demo_plugin = Some 0"
  "pl_rumble_window demo_plugin = 0" "pl_rumble_message demo_plugin = 0" "pl_gamepads demo_plugin = init_gamepads"
  "cursor_locked (pl_lock demo_plugin) = False" "raw_input_proc_id (pl_lock demo_plugin) = None"
  "raw_input_registered (pl_lock demo_plugin) = False"
  "be_svc (pl_backend demo_plugin) = init_svc" "pl_thread_running demo_plugin"
  by (simp_all add: init_win_def demo_plugin_def RegisterWithRegistrar_def new_win_plugin_def StartMonitorThread_def UpdateStaticMonitors_def
      init_cursor_lock_def demo_call_def lock_answers_def Let_def)

lemma demo_calls:
  "HandleMethodCall e ''startTextInputDecisionCapture'' v s = on_startTextInputDecisionCapture e (call_arguments v) s"
  "HandleMethodCall e ''subscribeGamepadRumble'' v s = on_subscribeGamepadRumble e (call_arguments v) s"
  "HandleMethodCall e ''lockCursor'' v s = on_lockCursor e (call_arguments v) s"
  "HandleMethodCall e ''setDesktopServiceAvailable'' v s = on_setDesktopServiceAvailable e (call_arguments v) s"
  by (simp_all add: HandleMethodCall_def win_methods_def)

lemma demo_session_runs:
  "\<exists>s1 o1. win_run demo_session demo_plugin = Some (s1, o1) \<and> cursor_locked (pl_lock s1) \<and>
    believed s1 = {#Delegate 0, Delegate 1, Delegate 2, Delegate 3, EditingThread, RepeatThread#} \<and>
    loop_at (be_svc (pl_backend s1)) = Connecting \<and> ed_worker (pl_editing s1) = Some started_worker \<and>
    ed_detached (pl_editing s1) = []"
  by (simp add: editing_holds_def demo_session_def win_step_def demo_calls demo_call_def call_arguments_def lock_answers_def
     on_startTextInputDecisionCapture_def StartWindowsEditingEventMonitor_def FindFlutterWindow_def demo_registered no_editing_def
     on_subscribeGamepadRumble_def prepare_rumble_def SubscribeRumble_def init_gamepads_def
     on_lockCursor_def locks_def LockCursor_def SubscribeToRawInputData_def raw_input_delegate_def
        display_message_def WM_INPUT_def WM_DPICHANGED_def WM_DISPLAYCHANGE_def Let_def
     on_setDesktopServiceAvailable_def init_svc_def all_ok_def SetServiceAvailable_def StartInputThreadLocked_def
        can_wake_def loop_top_def loop_label_def believed_def)

text \<open>Registration, then any run: what holds when the destructor starts.\<close>

lemma session_orderly:
  assumes "RegisterWithRegistrar e0 ratio (new_win_plugin reg) = (s0, o0)" "win_run evs s0 = Some (s1, o1)"
  shows "plugin_wf s1 \<and> holdings (o0 @ o1) {#} = Some (believed s1)"
proof -
  have "pl_dpi_proc (new_win_plugin reg) = None" "\<not> pl_thread_running (new_win_plugin reg)" by (simp_all add: new_win_plugin_def)
  from RegisterWithRegistrar_orderly [OF new_win_plugin_wf(1) this, of e0 ratio]
  have 0: "orderly (new_win_plugin reg) (s0, o0)" by (simp add: assms(1))
  then have "orderly s0 (s1, o1)" using win_run_orderly [OF _ assms(2)] by (simp add: orderly_def)
  from orderly_trans [OF 0 this] show ?thesis by (simp add: orderly_def new_win_plugin_wf(2))
qed

text \<open>C3: Over every run of calls, window messages, cursor and keyboard events and thread steps from its
  registration, the parts of the plugin keep their invariants together (touch slots, pen, gamepads, cursor
  tables and hooks, cursor lock, service queue, editing monitor, motor feedback, trackpad) and what its calls
  have taken of the system and not given back, the window delegates registered with the registrar, the
  thread of the editing worker, the repeat thread and the workers let go, is exactly what its members remember.\<close>

theorem plugin_parts_invariant:
  assumes "RegisterWithRegistrar e0 ratio (new_win_plugin reg) = (s0, o0)" "win_run evs s0 = Some (s1, o1)"
  shows "win_wf (pl_win s1) \<and> gp_inv (pl_gamepads s1) \<and> tables_ok (pl_cursors s1) \<and> hook_ok (pl_cursors s1) \<and>
    lock_wf (pl_lock s1) \<and> reachable (be_svc (pl_backend s1)) \<and> \<not> closing (be_svc (pl_backend s1)) \<and>
    editing_wf (pl_editing s1) \<and> carry_ok (pl_trackpad s1) \<and> holdings (o0 @ o1) {#} = Some (believed s1)"
  using session_orderly [OF assms] plugin_wfD [of s1] by (auto simp: live_backend_def live_svc_def)

theorem plugin_parts_invariant_witness:
  "\<exists>s1 o1. win_run demo_session demo_plugin = Some (s1, o1) \<and> lock_wf (pl_lock s1) \<and> cursor_locked (pl_lock s1) \<and>
     holdings (snd (RegisterWithRegistrar (demo_call 0) (Fin 1) (new_win_plugin (\<lambda>i. None))) @ o1) {#} =
       Some {#Delegate 0, Delegate 1, Delegate 2, Delegate 3, EditingThread, RepeatThread#}"
proof -
  obtain o0 where r: "RegisterWithRegistrar (demo_call 0) (Fin 1) (new_win_plugin (\<lambda>i. None)) = (demo_plugin, o0)"
    by (metis demo_plugin_def prod.collapse)
  obtain s1 o1 where w: "win_run demo_session demo_plugin = Some (s1, o1)" "cursor_locked (pl_lock s1)"
    "believed s1 = {#Delegate 0, Delegate 1, Delegate 2, Delegate 3, EditingThread, RepeatThread#}" using demo_session_runs by blast
  from plugin_parts_invariant [OF r w(1)] w r show ?thesis by auto
qed



end
