(* ===== verification/WinAnswers.thy ===== *)
theory WinAnswers
  imports WinSession
begin

text \<open>
  How the calls of the Windows plugin end: which are answered, which stay without an answer, that a call that
  throws has done nothing before, which run into undefined behaviour and what they have done by then, and that
  no call waits forever unless the input desktop keeps changing.
\<close>

section \<open>Settled calls\<close>

definition settled_call :: "win_plugin \<Rightarrow> win_plugin \<times> win_out list \<times> verdict \<Rightarrow> bool" where
  "settled_call s r \<longleftrightarrow> (case snd (snd r) of Unanswered \<Rightarrow> False | AnsweredLater _ \<Rightarrow> False
     | Thrown \<Rightarrow> fst r = s \<and> fst (snd r) = [] | _ \<Rightarrow> True)"

interpretation settling: handler_contract settled_call
  by unfold_locales (simp add: settled_call_def stops_def split: verdict.splits)

lemma settled_answer [simp]: "settled_call s (s', outs, Answered a)"
  by (simp add: settled_call_def)

lemma settled_stuck [simp]: "settled_call s (s', outs, Hanging)" "settled_call s (s', outs, Undefined)"
  by (simp_all add: settled_call_def)

lemma settled_steps:
  "settled_call s (after r k a s1)" "settled_call s (cursors v s)" "settled_call s (locks e a l s)"
  "settled_call s (undefined_after r s)"
  by (auto simp: after_def answering_def cursors_def locks_def undefined_after_def settled_call_def split: sum.split)

lemma settled_sends: "settled_call s (sends e r s)" "settled_call s (sends e (Some fs) s1)"
  by (auto simp: sends_def split: option.split intro: settling.stop_with settled_steps)

lemmas settle = settling.reads settled_steps settled_sends settled_answer

lemma input_settled:
  "settled_call s (on_KeyPress e args s)" "settled_call s (on_mouseMoveR e args s)" "settled_call s (on_mouseMoveA e args s)"
  "settled_call s (on_mouseMoveToWindowPosition e args s)" "settled_call s (on_mouseScroll e args s)"
  "settled_call s (on_mousePress e args s)" "settled_call s (on_touchEvent e args s)" "settled_call s (on_touchMove e args s)"
  "settled_call s (on_penHover e args s)"
  unfolding on_KeyPress_def on_mouseMoveR_def on_mouseMoveA_def on_mouseMoveToWindowPosition_def on_mouseScroll_def
    on_mousePress_def on_touchEvent_def on_touchMove_def on_penHover_def
  by (intro settle)+

lemma optional_settled:
  "settled_call s (case r of None \<Rightarrow> stop_with Undefined s | Some w \<Rightarrow> after (f w) k a s)"
  "settled_call s (case r1 of None \<Rightarrow> stop_with Undefined s | Some (acc, fs) \<Rightarrow> sends e (Some fs) (g acc))"
  "settled_call s (case r2 of Inl fs \<Rightarrow> undefined_after (g2 fs) s | Inr w \<Rightarrow> after (f2 w) k a s)"
  by (auto split: option.split sum.split intro: settle)

lemma pen_settled:
  "settled_call s (on_penEvent e args s)" "settled_call s (on_penMove e args s)" "settled_call s (on_trackpadScroll e args s)"
  "settled_call s (on_clearAllPressedEvents e args s)"
  unfolding on_penEvent_def on_penMove_def on_trackpadScroll_def on_clearAllPressedEvents_def
  by (intro settle optional_settled)+

lemma subscription_settled:
  "settled_call s (on_hookCursorImage e args s)" "settled_call s (on_unhookCursorImage e args s)"
  "settled_call s (on_hookCursorPosition e args s)" "settled_call s (on_unhookCursorPosition e args s)"
  "settled_call s (on_addDisplayCountChangedCallback e args s)" "settled_call s (on_removeDisplayCountChangedCallback e args s)"
  "settled_call s (on_lockCursor e args s)" "settled_call s (on_unlockCursor e args s)"
  "settled_call s (on_unlockCursorAndReseed e args s)" "settled_call s (on_updateStaticMonitors e args s)"
  unfolding on_hookCursorImage_def on_unhookCursorImage_def on_hookCursorPosition_def on_unhookCursorPosition_def need_int_def
    on_addDisplayCountChangedCallback_def on_removeDisplayCountChangedCallback_def on_lockCursor_def on_unlockCursor_def
    on_unlockCursorAndReseed_def on_updateStaticMonitors_def
  by (intro settle)+

text \<open>Handlers that answer on every path, or at once.\<close>

lemma answering_settled:
  "settled_call s (on_getPlatformVersion e args s)" "settled_call s (on_getMonitorCount e args s)"
  "settled_call s (on_isRunningAsSystem e args s)" "settled_call s (on_checkVddStatus e args s)"
  "settled_call s (on_getCurrentMultiDisplayMode e args s)" "settled_call s (on_hasPendingConfiguration e args s)"
  "settled_call s (on_stopTextInputDecisionCapture e args s)" "settled_call s (on_setDesktopServiceAvailable e args s)"
  "settled_call s (on_createGameController e args s)" "settled_call s (on_registerService e args s)"
  "settled_call s (on_unregisterService e args s)" "settled_call s (on_initParsecVdd e args s)"
  "settled_call s (on_createDisplay e args s)" "settled_call s (on_getAllDisplays e args s)"
  "settled_call s (on_getDisplayList e args s)" "settled_call s (on_getCustomDisplayConfigs e args s)"
  "settled_call s (on_restoreDisplayConfiguration e args s)"
  by (simp_all add: on_getPlatformVersion_def on_getMonitorCount_def on_isRunningAsSystem_def on_checkVddStatus_def
      on_getCurrentMultiDisplayMode_def on_hasPendingConfiguration_def on_stopTextInputDecisionCapture_def
      on_setDesktopServiceAvailable_def on_createGameController_def on_registerService_def on_unregisterService_def
      on_initParsecVdd_def on_createDisplay_def on_getAllDisplays_def on_getDisplayList_def on_getCustomDisplayConfigs_def
      on_restoreDisplayConfiguration_def stop_with_def Let_def split: prod.split)

lemma refusing_settled:
  "settled_call s (on_startTextInputDecisionCapture e args s)" "settled_call s (on_performTextInput e args s)"
  "settled_call s (on_subscribeGamepadRumble e args s)" "settled_call s (on_doControlAction e args s)"
  by (auto simp: on_startTextInputDecisionCapture_def on_performTextInput_def on_subscribeGamepadRumble_def
      on_doControlAction_def Let_def split: option.split encodable.split prod.split sum.split intro: settle)

lemma reading_settled:
  "settled_call s (on_removeGameController e args s)" "settled_call s (on_setPrimaryDisplay e args s)"
  "settled_call s (on_getDisplayOrientation e args s)" "settled_call s (on_setPrimaryDisplayOnly e args s)"
  "settled_call s (on_putImmersiveModeEnabled e args s)" "settled_call s (on_setDragWindowContents e args s)"
  "settled_call s (on_setDisplayOrientation e args s)" "settled_call s (on_getDisplayConfigs e args s)"
  "settled_call s (on_removeDisplay e args s)" "settled_call s (on_setMultiDisplayMode e args s)"
  "settled_call s (on_setCustomDisplayConfigs e args s)"
  unfolding on_removeGameController_def on_setPrimaryDisplay_def on_getDisplayOrientation_def on_setPrimaryDisplayOnly_def
    on_putImmersiveModeEnabled_def on_setDragWindowContents_def need_int_def on_setDisplayOrientation_def
    on_getDisplayConfigs_def on_removeDisplay_def on_setMultiDisplayMode_def on_setCustomDisplayConfigs_def
    Let_def [of "missing_argument _"]
  by (intro settling.reads; auto simp: Let_def split: prod.split option.split encodable.split intro: settle)+

lemma on_changeDisplaySettings_settled: "settled_call s (on_changeDisplaySettings e args s)"
proof (cases "args = None")
  case True
  then show ?thesis by (simp add: on_changeDisplaySettings_def stop_with_def)
next
  case False
  show ?thesis unfolding on_changeDisplaySettings_def if_not_P [OF False] Let_def
    by (intro settling.reads) (auto split: prod.split)
qed

section \<open>The arguments of the methods\<close>

datatype arg_type = IntArg | BoolArg | DoubleArg | StringArg | ConfigsArg

fun config_item :: "encodable \<Rightarrow> bool" where
  "config_item (EMap m) \<longleftrightarrow>
     list_all (\<lambda>key. case map_of m key of Some (EInt32 i) \<Rightarrow> True | _ \<Rightarrow> False) [''width'', ''height'', ''refreshRate'']"
| "config_item v \<longleftrightarrow> False"

fun has_type :: "arg_type \<Rightarrow> encodable \<Rightarrow> bool" where
  "has_type IntArg v = (case v of EInt32 i \<Rightarrow> True | _ \<Rightarrow> False)"
| "has_type BoolArg v = (case v of EBool b \<Rightarrow> True | _ \<Rightarrow> False)"
| "has_type DoubleArg v = (case v of EDouble d \<Rightarrow> True | _ \<Rightarrow> False)"
| "has_type StringArg v = (case v of EString t \<Rightarrow> True | _ \<Rightarrow> False)"
| "has_type ConfigsArg v = (case v of EList vs \<Rightarrow> list_all config_item vs | _ \<Rightarrow> False)"

text \<open>
  What the methods that insist on a type ask for, in the order of the table of methods; an empty list where
  every value is taken, refused by an answer, or ignored.
\<close>

definition sig_point :: "(string \<times> arg_type) list" where "sig_point = [(''x'', DoubleArg), (''y'', DoubleArg)]"
definition sig_scroll :: "(string \<times> arg_type) list" where "sig_scroll = [(''dx'', DoubleArg), (''dy'', DoubleArg)]"
definition sig_on_screen :: "(string \<times> arg_type) list" where "sig_on_screen = (''screenId'', IntArg) # sig_point"
definition sig_callback :: "(string \<times> arg_type) list" where "sig_callback = [(''callbackID'', IntArg)]"
definition sig_uid :: "(string \<times> arg_type) list" where "sig_uid = [(''displayUid'', IntArg)]"
definition sig_pen :: "(string \<times> arg_type) list" where
  "sig_pen = [(''hasButton'', BoolArg), (''pressure'', DoubleArg), (''rotation'', DoubleArg), (''tilt'', DoubleArg)]"

definition signatures :: "(string \<times> (string \<times> arg_type) list) list" where
  "signatures =
     [(''getPlatformVersion'', []), (''startTextInputDecisionCapture'', []),
       (''startWindowsTextInputDecisionCapture'', []), (''stopTextInputDecisionCapture'', []),
       (''stopWindowsTextInputDecisionCapture'', []), (''setDesktopServiceAvailable'', []),
       (''getMonitorCount'', []), (''KeyPress'', [(''code'', IntArg), (''isDown'', BoolArg)]),
       (''performTextInput'', []), (''mouseMoveR'', sig_point), (''mouseMoveA'', sig_on_screen),
       (''mouseMoveToWindowPosition'', sig_point), (''mousePress'', [(''buttonId'', IntArg), (''isDown'', BoolArg)]),
       (''mouseScroll'', sig_scroll), (''trackpadScroll'', sig_scroll),
       (''hookCursorImage'', sig_callback @ [(''hookAll'', BoolArg)]), (''unhookCursorImage'', sig_callback),
       (''hookCursorPosition'', sig_callback), (''unhookCursorPosition'', sig_callback),
       (''addDisplayCountChangedCallback'', sig_callback), (''removeDisplayCountChangedCallback'', sig_callback),
       (''subscribeGamepadRumble'', []), (''createGameController'', []),
       (''removeGameController'', [(''id'', IntArg)]), (''doControlAction'', []), (''registerService'', []),
       (''unregisterService'', []), (''isRunningAsSystem'', []), (''showNotification'', [(''content'', StringArg)]),
       (''touchEvent'', sig_on_screen @ [(''touchId'', IntArg), (''isDown'', BoolArg)]),
       (''touchMove'', sig_on_screen @ [(''touchId'', IntArg)]),
       (''penEvent'', sig_on_screen @ [(''isDown'', BoolArg)] @ sig_pen), (''penMove'', sig_on_screen @ sig_pen),
       (''penHover'', sig_on_screen), (''clearAllPressedEvents'', []),
       (''setPrimaryDisplay'', [(''displayIndex'', IntArg)]), (''ensureConsoleForDisplay'', []),
       (''initParsecVdd'', []), (''createDisplay'', []), (''removeDisplay'', sig_uid), (''checkVddStatus'', []),
       (''getAllDisplays'', []), (''getDisplayList'', []),
       (''changeDisplaySettings'', sig_uid @ [(''width'', IntArg), (''height'', IntArg), (''refreshRate'', IntArg)]),
       (''getDisplayConfigs'', sig_uid), (''getCustomDisplayConfigs'', []),
       (''setCustomDisplayConfigs'', [(''configs'', ConfigsArg)]),
       (''setDisplayOrientation'', sig_uid @ [(''orientation'', IntArg)]), (''getDisplayOrientation'', sig_uid),
       (''setMultiDisplayMode'', [(''mode'', IntArg), (''primaryDisplayId'', IntArg)]),
       (''getCurrentMultiDisplayMode'', []), (''setPrimaryDisplayOnly'', sig_uid), (''restoreDisplayConfiguration'', []),
       (''hasPendingConfiguration'', []), (''putImmersiveModeEnabled'', [(''enabled'', BoolArg)]),
       (''setDragWindowContents'', [(''enabled'', BoolArg)]), (''lockCursor'', []), (''unlockCursor'', []),
       (''unlockCursorAndReseed'', sig_point), (''updateStaticMonitors'', [])]"

definition typed_argument :: "arguments \<Rightarrow> string \<times> arg_type \<Rightarrow> bool" where
  "typed_argument args kt \<longleftrightarrow>
     (case args of None \<Rightarrow> True | Some m \<Rightarrow> (case map_of m (fst kt) of None \<Rightarrow> True | Some v \<Rightarrow> has_type (snd kt) v))"

definition well_typed :: "string \<Rightarrow> encodable \<Rightarrow> bool" where
  "well_typed method_name v \<longleftrightarrow>
     (case map_of signatures method_name of None \<Rightarrow> True | Some ks \<Rightarrow> list_all (typed_argument (call_arguments v)) ks)"

section \<open>A typed call does not throw\<close>

definition unthrown :: "win_plugin \<times> win_out list \<times> verdict \<Rightarrow> bool" where
  "unthrown r \<longleftrightarrow> snd (snd r) \<noteq> Thrown"

lemma unthrown_simps [simp]: "unthrown (s, outs, v) \<longleftrightarrow> v \<noteq> Thrown" "unthrown (stop_with v s) \<longleftrightarrow> v \<noteq> Thrown"
  by (simp_all add: unthrown_def stop_with_def)

lemma unthrown_steps [simp]:
  "unthrown (after r k a s)" "unthrown (cursors v s)" "unthrown (locks e a l s)" "unthrown (sends e fs s)"
  "unthrown (undefined_after r s)"
  by (auto simp: unthrown_def after_def answering_def cursors_def locks_def sends_def undefined_after_def stop_with_def
      split: option.split sum.split)

lemma unthrown_cases [simp]:
  "unthrown (case r of None \<Rightarrow> stop_with Undefined s | Some w \<Rightarrow> after (f w) k a s)"
  "unthrown (case r1 of None \<Rightarrow> stop_with Undefined s | Some (acc, fs) \<Rightarrow> sends e (Some fs) (g acc))"
  by (auto split: option.split)

text \<open>Reading an argument that has its type, if it is there.\<close>

lemma typed_need:
  "typed_argument args (key, IntArg) \<Longrightarrow> (\<And>i. unthrown (k (EInt32 i) s)) \<Longrightarrow> unthrown (need args key k s)"
  "typed_argument args (key, BoolArg) \<Longrightarrow> (\<And>b. unthrown (k (EBool b) s)) \<Longrightarrow> unthrown (need args key k s)"
  "typed_argument args (key, DoubleArg) \<Longrightarrow> (\<And>d. unthrown (k (EDouble d) s)) \<Longrightarrow> unthrown (need args key k s)"
  "typed_argument args (key, StringArg) \<Longrightarrow> (\<And>t. unthrown (k (EString t) s)) \<Longrightarrow> unthrown (need args key k s)"
  by (auto simp: typed_argument_def need_def split: option.splits encodable.splits)

lemma typed_lookup:
  "typed_argument args (key, IntArg) \<Longrightarrow> (\<And>i. unthrown (k (EInt32 i) s)) \<Longrightarrow> unthrown (lookup_or missing args key k s)"
  by (auto simp: typed_argument_def lookup_or_def split: option.splits encodable.splits)

lemma read_typed [simp]:
  "get_int (EInt32 i) f = f i" "get_bool (EBool b) g = g b" "get_double (EDouble d) h = h d" "get_string (EString t) j = j t"
  "get_list (EList vs) l = l vs"
  by (simp_all add: get_int_def get_bool_def get_double_def get_string_def get_list_def)

text \<open>A method whose arguments are all looked up by a typed search.\<close>

lemma input_unthrown:
  "list_all (typed_argument args) [(''code'', IntArg), (''isDown'', BoolArg)] \<Longrightarrow> unthrown (on_KeyPress e args s)"
  "list_all (typed_argument args) [(''x'', DoubleArg), (''y'', DoubleArg)] \<Longrightarrow> unthrown (on_mouseMoveR e args s)"
  "list_all (typed_argument args) [(''screenId'', IntArg), (''x'', DoubleArg), (''y'', DoubleArg)] \<Longrightarrow>
     unthrown (on_mouseMoveA e args s)"
  "list_all (typed_argument args) [(''x'', DoubleArg), (''y'', DoubleArg)] \<Longrightarrow> unthrown (on_mouseMoveToWindowPosition e args s)"
  "list_all (typed_argument args) [(''buttonId'', IntArg), (''isDown'', BoolArg)] \<Longrightarrow> unthrown (on_mousePress e args s)"
  "list_all (typed_argument args) [(''dx'', DoubleArg), (''dy'', DoubleArg)] \<Longrightarrow> unthrown (on_mouseScroll e args s)"
  "list_all (typed_argument args) [(''dx'', DoubleArg), (''dy'', DoubleArg)] \<Longrightarrow> unthrown (on_trackpadScroll e args s)"
  unfolding list.pred_inject simp_thms on_KeyPress_def on_mouseMoveR_def on_mouseMoveA_def on_mouseMoveToWindowPosition_def on_mousePress_def
    on_mouseScroll_def on_trackpadScroll_def
  by (elim conjE, (rule typed_need, assumption)+, simp)+

lemma pointer_unthrown:
  "list_all (typed_argument args) [(''screenId'', IntArg), (''x'', DoubleArg), (''y'', DoubleArg), (''touchId'', IntArg),
     (''isDown'', BoolArg)] \<Longrightarrow> unthrown (on_touchEvent e args s)"
  "list_all (typed_argument args) [(''screenId'', IntArg), (''x'', DoubleArg), (''y'', DoubleArg), (''touchId'', IntArg)] \<Longrightarrow>
     unthrown (on_touchMove e args s)"
  "list_all (typed_argument args) [(''screenId'', IntArg), (''x'', DoubleArg), (''y'', DoubleArg), (''isDown'', BoolArg),
     (''hasButton'', BoolArg), (''pressure'', DoubleArg), (''rotation'', DoubleArg), (''tilt'', DoubleArg)] \<Longrightarrow>
     unthrown (on_penEvent e args s)"
  "list_all (typed_argument args) [(''screenId'', IntArg), (''x'', DoubleArg), (''y'', DoubleArg), (''hasButton'', BoolArg),
     (''pressure'', DoubleArg), (''rotation'', DoubleArg), (''tilt'', DoubleArg)] \<Longrightarrow> unthrown (on_penMove e args s)"
  "list_all (typed_argument args) [(''screenId'', IntArg), (''x'', DoubleArg), (''y'', DoubleArg)] \<Longrightarrow> unthrown (on_penHover e args s)"
  unfolding list.pred_inject simp_thms on_touchEvent_def on_touchMove_def on_penEvent_def on_penMove_def on_penHover_def
  by (elim conjE, (rule typed_need, assumption)+, simp)+

lemma callback_unthrown:
  "list_all (typed_argument args) [(''callbackID'', IntArg), (''hookAll'', BoolArg)] \<Longrightarrow> unthrown (on_hookCursorImage e args s)"
  "list_all (typed_argument args) [(''callbackID'', IntArg)] \<Longrightarrow> unthrown (on_unhookCursorImage e args s)"
  "list_all (typed_argument args) [(''callbackID'', IntArg)] \<Longrightarrow> unthrown (on_hookCursorPosition e args s)"
  "list_all (typed_argument args) [(''callbackID'', IntArg)] \<Longrightarrow> unthrown (on_unhookCursorPosition e args s)"
  "list_all (typed_argument args) [(''callbackID'', IntArg)] \<Longrightarrow> unthrown (on_addDisplayCountChangedCallback e args s)"
  "list_all (typed_argument args) [(''callbackID'', IntArg)] \<Longrightarrow> unthrown (on_removeDisplayCountChangedCallback e args s)"
  "list_all (typed_argument args) [(''id'', IntArg)] \<Longrightarrow> unthrown (on_removeGameController e args s)"
  "list_all (typed_argument args) [(''content'', StringArg)] \<Longrightarrow> unthrown (on_showNotification e args s)"
  "list_all (typed_argument args) [(''displayIndex'', IntArg)] \<Longrightarrow> unthrown (on_setPrimaryDisplay e args s)"
  "list_all (typed_argument args) [(''enabled'', BoolArg)] \<Longrightarrow> unthrown (on_putImmersiveModeEnabled e args s)"
  "list_all (typed_argument args) [(''enabled'', BoolArg)] \<Longrightarrow> unthrown (on_setDragWindowContents e args s)"
  "list_all (typed_argument args) [(''x'', DoubleArg), (''y'', DoubleArg)] \<Longrightarrow> unthrown (on_unlockCursorAndReseed e args s)"
  unfolding list.pred_inject simp_thms need_int_def on_hookCursorImage_def on_unhookCursorImage_def on_hookCursorPosition_def
    on_unhookCursorPosition_def on_addDisplayCountChangedCallback_def on_removeDisplayCountChangedCallback_def
    on_removeGameController_def on_showNotification_def on_setPrimaryDisplay_def on_putImmersiveModeEnabled_def
    on_setDragWindowContents_def on_unlockCursorAndReseed_def
  by (elim conjE, rule typed_need, assumption, (simp split: prod.split)?, ((rule typed_need, assumption)+, simp)?)+

lemma display_unthrown:
  "list_all (typed_argument args) [(''displayUid'', IntArg)] \<Longrightarrow> unthrown (on_removeDisplay e args s)"
  "list_all (typed_argument args) [(''displayUid'', IntArg)] \<Longrightarrow> unthrown (on_getDisplayConfigs e args s)"
  "list_all (typed_argument args) [(''displayUid'', IntArg), (''orientation'', IntArg)] \<Longrightarrow> unthrown (on_setDisplayOrientation e args s)"
  "list_all (typed_argument args) [(''displayUid'', IntArg)] \<Longrightarrow> unthrown (on_getDisplayOrientation e args s)"
  "list_all (typed_argument args) [(''displayUid'', IntArg)] \<Longrightarrow> unthrown (on_setPrimaryDisplayOnly e args s)"
  unfolding list.pred_inject simp_thms on_removeDisplay_def on_getDisplayConfigs_def on_setDisplayOrientation_def
    on_getDisplayOrientation_def on_setPrimaryDisplayOnly_def Let_def [of "missing_argument _"]
  by (elim conjE, (rule typed_lookup, assumption)+, simp add: Let_def split: prod.split)+

lemma on_changeDisplaySettings_unthrown:
  assumes "list_all (typed_argument args) [(''displayUid'', IntArg), (''width'', IntArg), (''height'', IntArg), (''refreshRate'', IntArg)]"
  shows "unthrown (on_changeDisplaySettings e args s)"
proof (cases "args = None")
  case True
  then show ?thesis by (simp add: on_changeDisplaySettings_def)
next
  case False
  from assms show ?thesis
    unfolding list.pred_inject simp_thms on_changeDisplaySettings_def if_not_P [OF False] Let_def read_typed
    apply (elim conjE)
    apply (rule typed_lookup, assumption, (simp only: read_typed)?)
    apply (rule typed_lookup, assumption)+
    apply (simp split: prod.split)
    done
qed

lemma on_setMultiDisplayMode_unthrown:
  assumes "list_all (typed_argument args) [(''mode'', IntArg), (''primaryDisplayId'', IntArg)]"
  shows "unthrown (on_setMultiDisplayMode e args s)"
  unfolding on_setMultiDisplayMode_def using assms
  by (auto simp: typed_argument_def Let_def intro!: typed_lookup split: prod.split option.splits encodable.splits)

lemma config_items: "list_all config_item vs \<Longrightarrow> read_config_list vs \<noteq> None"
  by (induction vs rule: read_config_list.induct) (auto split: encodable.splits option.splits)

lemma on_setCustomDisplayConfigs_unthrown:
  "list_all (typed_argument args) [(''configs'', ConfigsArg)] \<Longrightarrow> unthrown (on_setCustomDisplayConfigs e args s)"
  by (auto simp: on_setCustomDisplayConfigs_def typed_argument_def lookup_or_def Let_def dest: config_items
      split: prod.split option.splits encodable.splits)

lemma untyped_unthrown:
  "unthrown (on_getPlatformVersion e args s)" "unthrown (on_getMonitorCount e args s)"
  "unthrown (on_isRunningAsSystem e args s)" "unthrown (on_checkVddStatus e args s)"
  "unthrown (on_getCurrentMultiDisplayMode e args s)" "unthrown (on_hasPendingConfiguration e args s)"
  "unthrown (on_stopTextInputDecisionCapture e args s)" "unthrown (on_setDesktopServiceAvailable e args s)"
  "unthrown (on_createGameController e args s)" "unthrown (on_registerService e args s)"
  "unthrown (on_unregisterService e args s)" "unthrown (on_initParsecVdd e args s)"
  "unthrown (on_createDisplay e args s)" "unthrown (on_getAllDisplays e args s)"
  "unthrown (on_getDisplayList e args s)" "unthrown (on_getCustomDisplayConfigs e args s)"
  "unthrown (on_restoreDisplayConfiguration e args s)" "unthrown (on_ensureConsoleForDisplay e args s)"
  "unthrown (on_lockCursor e args s)" "unthrown (on_unlockCursor e args s)" "unthrown (on_updateStaticMonitors e args s)"
  by (simp_all add: on_getPlatformVersion_def on_getMonitorCount_def on_isRunningAsSystem_def on_checkVddStatus_def
      on_getCurrentMultiDisplayMode_def on_hasPendingConfiguration_def on_stopTextInputDecisionCapture_def
      on_setDesktopServiceAvailable_def on_createGameController_def on_registerService_def on_unregisterService_def
      on_initParsecVdd_def on_createDisplay_def on_getAllDisplays_def on_getDisplayList_def on_getCustomDisplayConfigs_def
      on_restoreDisplayConfiguration_def on_ensureConsoleForDisplay_def on_lockCursor_def on_unlockCursor_def
      on_updateStaticMonitors_def Let_def split: prod.split)

lemma tolerant_unthrown:
  "unthrown (on_startTextInputDecisionCapture e args s)" "unthrown (on_performTextInput e args s)"
  "unthrown (on_subscribeGamepadRumble e args s)" "unthrown (on_doControlAction e args s)"
  "unthrown (on_clearAllPressedEvents e args s)"
  by (simp_all add: on_startTextInputDecisionCapture_def on_performTextInput_def on_subscribeGamepadRumble_def
      on_doControlAction_def on_clearAllPressedEvents_def Let_def split: option.split encodable.split prod.split sum.split)

lemmas handlers_unthrown = input_unthrown pointer_unthrown callback_unthrown display_unthrown
  on_changeDisplaySettings_unthrown on_setMultiDisplayMode_unthrown on_setCustomDisplayConfigs_unthrown
  untyped_unthrown tolerant_unthrown

section \<open>The tables\<close>

text \<open>Two tables with the same names in the same order.\<close>

lemma map_of_aligned:
  "list_all2 (\<lambda>(n, h) (n', k). n = n' \<and> P n h k) xs ys \<Longrightarrow> map_of xs n = Some h \<Longrightarrow> \<exists>k. map_of ys n = Some k \<and> P n h k"
  by (induction xs ys rule: list_all2_induct) (auto split: if_splits)

lemma methods_unthrown:
  "list_all2 (\<lambda>(n, h) (n', ks). n = n' \<and> (list_all (typed_argument args) ks \<longrightarrow> unthrown (h e args s))) win_methods signatures"
  unfolding win_methods_def signatures_def sig_point_def sig_scroll_def sig_on_screen_def sig_callback_def sig_uid_def
    sig_pen_def append.simps list_all2_Cons list_all2_Nil prod.case simp_thms
  by (intro conjI impI handlers_unthrown; assumption)

lemmas handlers_settled = input_settled pen_settled subscription_settled answering_settled refusing_settled reading_settled
  on_changeDisplaySettings_settled

lemma methods_settled:
  "list_all (\<lambda>(name, h). name = ''showNotification'' \<or> name = ''ensureConsoleForDisplay'' \<or> settled_call s (h e args s)) win_methods"
  unfolding win_methods_def list.pred_inject prod.case
  by (intro conjI TrueI; (rule disjI2, rule disjI2, rule handlers_settled)?; simp)

lemma HandleMethodCall_settled:
  "name = ''showNotification'' \<or> name = ''ensureConsoleForDisplay'' \<or> settled_call s (HandleMethodCall e name v s)"
proof (cases "map_of win_methods name")
  case (Some h)
  then have "(name, h) \<in> set win_methods" by (rule map_of_SomeD)
  with methods_settled [of s e "call_arguments v"] Some show ?thesis by (auto simp: list_all_iff HandleMethodCall_def)
qed (simp add: HandleMethodCall_def)

lemma HandleMethodCall_unthrown: "well_typed name v \<Longrightarrow> unthrown (HandleMethodCall e name v s)"
  using map_of_aligned [OF methods_unthrown [of "call_arguments v" e s], of name]
  by (auto simp: HandleMethodCall_def well_typed_def split: option.split)

section \<open>Waiting forever\<close>

definition steady :: "call_env \<Rightarrow> bool" where
  "steady e \<longleftrightarrow> (\<exists>N d. \<forall>n \<ge> N. input_desktop (ce_os e) n = d)"

definition prompt :: "'s \<times> 'o list \<times> verdict \<Rightarrow> bool" where
  "prompt r \<longleftrightarrow> snd (snd r) \<noteq> Hanging"

interpretation prompting: handler_contract "\<lambda>s. prompt"
  by unfold_locales (auto simp: prompt_def stops_def)

lemma prompt_simps [simp]: "prompt (s, outs, v) \<longleftrightarrow> v \<noteq> Hanging" "prompt (cursors r s)" "prompt (locks e a l s)"
  by (auto simp: prompt_def cursors_def locks_def split: sum.split)

lemma steady_sends: "steady e \<Longrightarrow> \<exists>r. send_effects e fs s = Inr r"
proof (induction fs arbitrary: s)
  case (Cons f fs)
  have "\<exists>N d. \<forall>n \<ge> N. input_desktop (input_os e) n = d" using Cons.prems by (simp add: steady_def input_os_def)
  then have "dispatch (input_os e) [f] (pl_backend s) \<noteq> None" by (rule dispatch_returns)
  then obtain b where b: "dispatch (input_os e) [f] (pl_backend s) = Some b" by blast
  from Cons.IH [OF Cons.prems] obtain cont where
    "\<And>s. send_effects e fs s = Inr (cont s)" by metis
  with b show ?case by (auto simp: Let_def sent_before_def split: prod.split)
qed simp

lemma steady_prompt:
  assumes "steady e"
  shows "prompt (after (inputs e v s1) k a s)" "prompt (undefined_after (inputs e v s1) s)" "prompt (sends e fs s)"
proof -
  have i: "\<exists>r. inputs e w s1 = Inr r" for w s1 unfolding inputs_def by (rule steady_sends [OF assms])
  then obtain r where "\<And>w s1. inputs e w s1 = Inr (r w s1)" by metis
  then show "prompt (after (inputs e v s1) k a s)" "prompt (undefined_after (inputs e v s1) s)" "prompt (sends e fs s)"
    by (auto simp: after_def undefined_after_def sends_def answering_def stop_with_def split: option.split prod.split)
qed

lemma input_prompt:
  assumes "steady e"
  shows "prompt (on_KeyPress e args s)" "prompt (on_mouseMoveR e args s)" "prompt (on_mouseMoveA e args s)"
    "prompt (on_mouseMoveToWindowPosition e args s)" "prompt (on_mouseScroll e args s)" "prompt (on_mousePress e args s)"
    "prompt (on_touchEvent e args s)" "prompt (on_touchMove e args s)" "prompt (on_penHover e args s)"
  unfolding on_KeyPress_def on_mouseMoveR_def on_mouseMoveA_def on_mouseMoveToWindowPosition_def on_mouseScroll_def
    on_mousePress_def on_touchEvent_def on_touchMove_def on_penHover_def
  by (intro prompting.reads steady_prompt [OF assms])+

lemma optional_prompt:
  assumes "steady e"
  shows "prompt (case r of None \<Rightarrow> stop_with Undefined s | Some w \<Rightarrow> after (inputs e w s1) k a s)"
    "prompt (case r1 of None \<Rightarrow> stop_with Undefined s | Some (acc, fs) \<Rightarrow> sends e (Some fs) (g acc))"
    "prompt (case r2 of Inl fs \<Rightarrow> undefined_after (inputs e (w1, fs) s) s | Inr w \<Rightarrow> after (inputs e w s) k a s)"
  by (auto split: option.split sum.split intro: steady_prompt [OF assms] prompting.stop_with)

lemma pen_prompt:
  assumes "steady e"
  shows "prompt (on_penEvent e args s)" "prompt (on_penMove e args s)" "prompt (on_trackpadScroll e args s)"
    "prompt (on_clearAllPressedEvents e args s)"
  unfolding on_penEvent_def on_penMove_def on_trackpadScroll_def on_clearAllPressedEvents_def
  by (intro prompting.reads optional_prompt [OF assms])+

lemma on_performTextInput_prompt: "steady e \<Longrightarrow> prompt (on_performTextInput e args s)"
  by (auto simp: on_performTextInput_def split: option.split encodable.split intro: steady_prompt prompting.stop_with)

lemma subscription_prompt:
  "prompt (on_hookCursorImage e args s)" "prompt (on_unhookCursorImage e args s)"
  "prompt (on_hookCursorPosition e args s)" "prompt (on_unhookCursorPosition e args s)"
  "prompt (on_addDisplayCountChangedCallback e args s)" "prompt (on_removeDisplayCountChangedCallback e args s)"
  "prompt (on_lockCursor e args s)" "prompt (on_unlockCursor e args s)"
  "prompt (on_unlockCursorAndReseed e args s)" "prompt (on_updateStaticMonitors e args s)"
  unfolding on_hookCursorImage_def on_unhookCursorImage_def on_hookCursorPosition_def on_unhookCursorPosition_def need_int_def
    on_addDisplayCountChangedCallback_def on_removeDisplayCountChangedCallback_def on_lockCursor_def on_unlockCursor_def
    on_unlockCursorAndReseed_def on_updateStaticMonitors_def
  by (intro prompting.reads prompt_simps; simp)+

lemma answering_prompt:
  "prompt (on_getPlatformVersion e args s)" "prompt (on_getMonitorCount e args s)"
  "prompt (on_isRunningAsSystem e args s)" "prompt (on_checkVddStatus e args s)"
  "prompt (on_getCurrentMultiDisplayMode e args s)" "prompt (on_hasPendingConfiguration e args s)"
  "prompt (on_stopTextInputDecisionCapture e args s)" "prompt (on_setDesktopServiceAvailable e args s)"
  "prompt (on_createGameController e args s)" "prompt (on_registerService e args s)"
  "prompt (on_unregisterService e args s)" "prompt (on_initParsecVdd e args s)"
  "prompt (on_createDisplay e args s)" "prompt (on_getAllDisplays e args s)"
  "prompt (on_getDisplayList e args s)" "prompt (on_getCustomDisplayConfigs e args s)"
  "prompt (on_restoreDisplayConfiguration e args s)" "prompt (on_ensureConsoleForDisplay e args s)"
  by (simp_all add: on_getPlatformVersion_def on_getMonitorCount_def on_isRunningAsSystem_def on_checkVddStatus_def
      on_getCurrentMultiDisplayMode_def on_hasPendingConfiguration_def on_stopTextInputDecisionCapture_def
      on_setDesktopServiceAvailable_def on_createGameController_def on_registerService_def on_unregisterService_def
      on_initParsecVdd_def on_createDisplay_def on_getAllDisplays_def on_getDisplayList_def on_getCustomDisplayConfigs_def
      on_restoreDisplayConfiguration_def on_ensureConsoleForDisplay_def stop_with_def Let_def split: prod.split)

lemma refusing_prompt:
  "prompt (on_startTextInputDecisionCapture e args s)" "prompt (on_subscribeGamepadRumble e args s)"
  "prompt (on_doControlAction e args s)"
  by (auto simp: on_startTextInputDecisionCapture_def on_subscribeGamepadRumble_def stop_with_def
      on_doControlAction_def Let_def split: option.split encodable.split prod.split sum.split)

lemma reading_prompt:
  "prompt (on_removeGameController e args s)" "prompt (on_setPrimaryDisplay e args s)"
  "prompt (on_getDisplayOrientation e args s)" "prompt (on_setPrimaryDisplayOnly e args s)"
  "prompt (on_putImmersiveModeEnabled e args s)" "prompt (on_setDragWindowContents e args s)"
  "prompt (on_setDisplayOrientation e args s)" "prompt (on_getDisplayConfigs e args s)"
  "prompt (on_removeDisplay e args s)" "prompt (on_setMultiDisplayMode e args s)"
  "prompt (on_setCustomDisplayConfigs e args s)" "prompt (on_showNotification e args s)"
  unfolding on_removeGameController_def on_setPrimaryDisplay_def on_getDisplayOrientation_def on_setPrimaryDisplayOnly_def
    on_putImmersiveModeEnabled_def on_setDragWindowContents_def need_int_def on_setDisplayOrientation_def
    on_getDisplayConfigs_def on_removeDisplay_def on_setMultiDisplayMode_def on_setCustomDisplayConfigs_def on_showNotification_def
    Let_def [of "missing_argument _"]
  by (intro prompting.reads; auto simp: Let_def split: prod.split option.split encodable.split intro: prompting.reads)+

lemma on_changeDisplaySettings_prompt: "prompt (on_changeDisplaySettings e args s)"
proof (cases "args = None")
  case True
  then show ?thesis by (simp add: on_changeDisplaySettings_def stop_with_def)
next
  case False
  show ?thesis unfolding on_changeDisplaySettings_def if_not_P [OF False] Let_def
    by (intro prompting.reads) (auto split: prod.split)
qed

lemmas handlers_prompt = subscription_prompt answering_prompt refusing_prompt reading_prompt on_changeDisplaySettings_prompt
lemmas senders_prompt = input_prompt pen_prompt on_performTextInput_prompt

lemma methods_prompt:
  assumes "steady e"
  shows "list_all (\<lambda>(name, h). prompt (h e args s)) win_methods"
  unfolding win_methods_def by (simp only: list.pred_inject prod.case handlers_prompt senders_prompt [OF assms] simp_thms)

lemma HandleMethodCall_prompt: "steady e \<Longrightarrow> prompt (HandleMethodCall e name v s)"
  using methods_prompt [of e "call_arguments v" s]
  by (auto simp: HandleMethodCall_def list_all_iff split: option.split dest!: map_of_SomeD)

section \<open>Undefined behaviour\<close>

text \<open>
  The arguments a method uses without looking whether they are there, in the order of the table of methods:
  \<open>Some\<close> with their names, for the others only the map is needed, \<open>Some []\<close>, or nothing, \<open>None\<close>.
\<close>

definition required :: "(string \<times> string list option) list" where
  "required =
     [(''getPlatformVersion'', None), (''startTextInputDecisionCapture'', None),
      (''startWindowsTextInputDecisionCapture'', None), (''stopTextInputDecisionCapture'', None),
      (''stopWindowsTextInputDecisionCapture'', None), (''setDesktopServiceAvailable'', None),
      (''getMonitorCount'', None), (''KeyPress'', Some [''code'', ''isDown'']), (''performTextInput'', None),
      (''mouseMoveR'', Some [''x'', ''y'']), (''mouseMoveA'', Some [''x'', ''y'', ''screenId'']),
      (''mouseMoveToWindowPosition'', Some [''x'', ''y'']),
      (''mousePress'', Some [''buttonId'', ''isDown'']), (''mouseScroll'', Some [''dx'', ''dy'']),
      (''trackpadScroll'', Some [''dx'', ''dy'']), (''hookCursorImage'', Some [''callbackID'', ''hookAll'']),
      (''unhookCursorImage'', Some [''callbackID'']), (''hookCursorPosition'', Some [''callbackID'']),
      (''unhookCursorPosition'', Some [''callbackID'']),
      (''addDisplayCountChangedCallback'', Some [''callbackID'']),
      (''removeDisplayCountChangedCallback'', Some [''callbackID'']), (''subscribeGamepadRumble'', None),
      (''createGameController'', None), (''removeGameController'', Some [''id'']),
      (''doControlAction'', None), (''registerService'', None), (''unregisterService'', None),
      (''isRunningAsSystem'', None), (''showNotification'', Some [''content'']),
      (''touchEvent'', Some [''screenId'', ''x'', ''y'', ''touchId'', ''isDown'']),
      (''touchMove'', Some [''screenId'', ''x'', ''y'', ''touchId'']),
      (''penEvent'', Some [''screenId'', ''x'', ''y'', ''isDown'', ''hasButton'', ''pressure'', ''rotation'', ''tilt'']),
      (''penMove'', Some [''screenId'', ''x'', ''y'', ''hasButton'', ''pressure'', ''rotation'', ''tilt'']),
      (''penHover'', Some [''screenId'', ''x'', ''y'']), (''clearAllPressedEvents'', None),
      (''setPrimaryDisplay'', Some [''displayIndex'']), (''ensureConsoleForDisplay'', None),
      (''initParsecVdd'', None), (''createDisplay'', None), (''removeDisplay'', Some []),
      (''checkVddStatus'', None), (''getAllDisplays'', None), (''getDisplayList'', None),
      (''changeDisplaySettings'', None), (''getDisplayConfigs'', Some []),
      (''getCustomDisplayConfigs'', None), (''setCustomDisplayConfigs'', Some []),
      (''setDisplayOrientation'', Some []), (''getDisplayOrientation'', Some []),
      (''setMultiDisplayMode'', Some []), (''getCurrentMultiDisplayMode'', None),
      (''setPrimaryDisplayOnly'', Some []), (''restoreDisplayConfiguration'', None),
      (''hasPendingConfiguration'', None), (''putImmersiveModeEnabled'', Some [''enabled'']),
      (''setDragWindowContents'', Some [''enabled'']), (''lockCursor'', None), (''unlockCursor'', None),
      (''unlockCursorAndReseed'', Some [''x'', ''y'']), (''updateStaticMonitors'', None)]"

definition complete :: "arguments \<Rightarrow> string list option \<Rightarrow> bool" where
  "complete args ks =
     (case ks of None \<Rightarrow> True
      | Some names \<Rightarrow> (case args of None \<Rightarrow> False | Some m \<Rightarrow> list_all (\<lambda>key. map_of m key \<noteq> None) names))"

definition all_there :: "string \<Rightarrow> arguments \<Rightarrow> bool" where
  "all_there method_name args =
     (case map_of required method_name of None \<Rightarrow> True | Some ks \<Rightarrow> complete args ks)"

definition number_at :: "arguments \<Rightarrow> string \<Rightarrow> dbl \<Rightarrow> bool" where
  "number_at args key d \<longleftrightarrow> (case args of None \<Rightarrow> False | Some m \<Rightarrow> map_of m key = Some (EDouble d))"

text \<open>
  Where a call with all its arguments reaches an undefined step, and what it has done by then: a number that
  cannot be converted, before anything is sent; a null view, where only an earlier editing monitor may have
  been stopped; a share that is no number after the cursor has been let go; a held key or touch.
\<close>

definition undefined_at :: "call_env \<Rightarrow> string \<Rightarrow> arguments \<Rightarrow> win_plugin \<Rightarrow> win_out list \<Rightarrow> bool" where
  "undefined_at e method_name args s outs \<longleftrightarrow>
     (method_name = ''mouseMoveR'' \<and> outs = [] \<and>
        (\<exists>d. (number_at args ''x'' d \<or> number_at args ''y'' d) \<and> long_of d = None)) \<or>
     (method_name = ''mouseMoveToWindowPosition'' \<and> outs = [] \<and> (number_at args ''x'' NaN \<or> number_at args ''y'' NaN)) \<or>
     (method_name \<in> {''penEvent'', ''penMove''} \<and> outs = [] \<and>
        (\<exists>d. number_at args ''pressure'' d \<and> pen_pressure True d = None)) \<or>
     (method_name = ''trackpadScroll'' \<and> outs = [] \<and> \<not> carry_ok (pl_trackpad s)) \<or>
     (method_name = ''lockCursor'' \<and> outs = [] \<and> le_view (ce_lock e) = None) \<or>
     (method_name \<in> {''startTextInputDecisionCapture'', ''startWindowsTextInputDecisionCapture''} \<and>
        le_view (ce_lock e) = None \<and>
        outs = (if ed_worker (pl_editing s) \<noteq> None \<or> ed_proc (pl_editing s) \<noteq> None
                then snd (stop_editing (ce_in_time e) True (pl_editing s)) else [])) \<or>
     (method_name = ''unlockCursorAndReseed'' \<and> (number_at args ''x'' NaN \<or> number_at args ''y'' NaN) \<and>
        cursor_locked (pl_lock s) \<and>
        outs = map LockOut (Unclip # snd (UnsubscribeFromRawInputData (pl_lock s)))) \<or>
     (method_name = ''clearAllPressedEvents'' \<and>
        ((\<exists>(k, st) \<in> set (g_key_states (pl_win s)). ks_isDown st) \<or>
         (\<exists>(i, st) \<in> set (g_touch_states (pl_win s)). ts_isDown st)))"

definition undef_ok :: "arguments \<Rightarrow> string list option \<Rightarrow> ('o list \<Rightarrow> bool) \<Rightarrow> 's \<times> 'o list \<times> verdict \<Rightarrow> bool" where
  "undef_ok args ks R r \<longleftrightarrow>
     (snd (snd r) = Undefined \<longrightarrow> \<not> complete args ks \<and> fst (snd r) = [] \<or> R (fst (snd r)))"

lemma undef_ok_defined [simp]:
  "v \<noteq> Undefined \<Longrightarrow> undef_ok args ks R (s, outs, v)" "v \<noteq> Undefined \<Longrightarrow> undef_ok args ks R (stop_with v s)"
  "R outs \<Longrightarrow> undef_ok args ks R (s, outs, Undefined)" "R [] \<Longrightarrow> undef_ok args ks R (stop_with Undefined s)"
  by (simp_all add: undef_ok_def stop_with_def)

lemma undef_steps [simp]:
  "undef_ok args ks R (after r k a s)" "undef_ok args ks R (cursors v s)" "undef_ok args ks R (sends e (Some fs) s)"
  by (auto simp: undef_ok_def after_def answering_def cursors_def sends_def split: sum.split)

lemma undef_need:
  assumes "key \<in> set names"
    and "\<And>v m. args = Some m \<Longrightarrow> map_of m key = Some v \<Longrightarrow> undef_ok args (Some names) R (k v s)"
  shows "undef_ok args (Some names) R (need args key k s)"
  using assms by (auto simp: need_def undef_ok_def complete_def stop_with_def list_all_iff split: option.splits)

lemma undef_lookup:
  assumes "\<And>v. undef_ok args (Some names) R (k v s)"
  shows "undef_ok args (Some names) R (lookup_or missing args key k s)"
  using assms by (auto simp: lookup_or_def undef_ok_def complete_def stop_with_def split: option.splits)

lemma undef_get:
  "(\<And>i. undef_ok args ks R (k i s)) \<Longrightarrow> undef_ok args ks R (get_int v k s)"
  "(\<And>b. undef_ok args ks R (k1 b s)) \<Longrightarrow> undef_ok args ks R (get_bool v k1 s)"
  "(\<And>d. v = EDouble d \<Longrightarrow> undef_ok args ks R (k2 d s)) \<Longrightarrow> undef_ok args ks R (get_double v k2 s)"
  "(\<And>t. undef_ok args ks R (k3 t s)) \<Longrightarrow> undef_ok args ks R (get_string v k3 s)"
  "(\<And>vs. undef_ok args ks R (k4 vs s)) \<Longrightarrow> undef_ok args ks R (get_list v k4 s)"
  by (auto simp: get_int_def get_bool_def get_double_def get_string_def get_list_def split: encodable.split)

lemmas undef_reads = undef_need undef_get undef_steps

lemma senders_undef:
  "undef_ok args (Some [''code'', ''isDown'']) R (on_KeyPress e args s)"
  "undef_ok args (Some [''x'', ''y'', ''screenId'']) R (on_mouseMoveA e args s)"
  "undef_ok args (Some [''buttonId'', ''isDown'']) R (on_mousePress e args s)"
  "undef_ok args (Some [''screenId'', ''x'', ''y'', ''touchId'', ''isDown'']) R (on_touchEvent e args s)"
  "undef_ok args (Some [''screenId'', ''x'', ''y'', ''touchId'']) R (on_touchMove e args s)"
  "undef_ok args (Some [''screenId'', ''x'', ''y'']) R (on_penHover e args s)"
  unfolding on_KeyPress_def on_mouseMoveA_def on_mousePress_def on_touchEvent_def on_touchMove_def on_penHover_def
  by (intro undef_reads; simp)+

lemma on_mouseScroll_undef: "undef_ok args (Some [''dx'', ''dy'']) R (on_mouseScroll e args s)"
proof -
  have "undef_ok args ks R (sends e (performMouseScroll x y) s)" for x y ks
    using scroll_defined [of x y] by (cases "performMouseScroll x y") simp_all
  then show ?thesis unfolding on_mouseScroll_def by (intro undef_reads) simp_all
qed

lemma callbacks_undef:
  "undef_ok args (Some [''callbackID'', ''hookAll'']) R (on_hookCursorImage e args s)"
  "undef_ok args (Some [''callbackID'']) R (on_unhookCursorImage e args s)"
  "undef_ok args (Some [''callbackID'']) R (on_hookCursorPosition e args s)"
  "undef_ok args (Some [''callbackID'']) R (on_unhookCursorPosition e args s)"
  "undef_ok args (Some [''callbackID'']) R (on_addDisplayCountChangedCallback e args s)"
  "undef_ok args (Some [''callbackID'']) R (on_removeDisplayCountChangedCallback e args s)"
  "undef_ok args (Some [''id'']) R (on_removeGameController e args s)"
  "undef_ok args (Some [''content'']) R (on_showNotification e args s)"
  "undef_ok args (Some [''displayIndex'']) R (on_setPrimaryDisplay e args s)"
  "undef_ok args (Some [''enabled'']) R (on_putImmersiveModeEnabled e args s)"
  "undef_ok args (Some [''enabled'']) R (on_setDragWindowContents e args s)"
  unfolding need_int_def on_hookCursorImage_def on_unhookCursorImage_def on_hookCursorPosition_def on_unhookCursorPosition_def
    on_addDisplayCountChangedCallback_def on_removeDisplayCountChangedCallback_def on_removeGameController_def
    on_showNotification_def on_setPrimaryDisplay_def on_putImmersiveModeEnabled_def on_setDragWindowContents_def
  by (intro undef_need undef_get; simp split: prod.split)+

lemma lookups_undef:
  "undef_ok args (Some []) R (on_removeDisplay e args s)"
  "undef_ok args (Some []) R (on_getDisplayConfigs e args s)"
  "undef_ok args (Some []) R (on_setCustomDisplayConfigs e args s)"
  "undef_ok args (Some []) R (on_setDisplayOrientation e args s)"
  "undef_ok args (Some []) R (on_getDisplayOrientation e args s)"
  "undef_ok args (Some []) R (on_setPrimaryDisplayOnly e args s)"
  unfolding on_removeDisplay_def on_getDisplayConfigs_def on_setCustomDisplayConfigs_def on_setDisplayOrientation_def
    on_getDisplayOrientation_def on_setPrimaryDisplayOnly_def Let_def [of "missing_argument _"]
  by (intro undef_lookup undef_get; auto simp: Let_def split: prod.split option.split intro: undef_get)+

lemma on_setMultiDisplayMode_undef: "undef_ok args (Some []) R (on_setMultiDisplayMode e args s)"
  unfolding on_setMultiDisplayMode_def
  by (intro undef_lookup undef_get; auto simp: Let_def split: prod.split option.split encodable.split)

lemma on_changeDisplaySettings_undef: "undef_ok args None R (on_changeDisplaySettings e args s)"
proof (cases args)
  case None
  then show ?thesis by (simp add: on_changeDisplaySettings_def)
next
  case (Some m)
  have look: "undef_ok args None R (lookup_or missing args key k s)" if "\<And>v. undef_ok args None R (k v s)" for missing key k
    using that by (simp add: lookup_or_def Some split: option.split)
  show ?thesis unfolding on_changeDisplaySettings_def Some if_not_P [OF option.distinct(2)] Let_def
    unfolding Some [symmetric] by (intro look undef_get) (auto split: prod.split)
qed

lemma answering_undef:
  "undef_ok args None R (on_getPlatformVersion e args s)" "undef_ok args None R (on_getMonitorCount e args s)"
  "undef_ok args None R (on_isRunningAsSystem e args s)" "undef_ok args None R (on_checkVddStatus e args s)"
  "undef_ok args None R (on_getCurrentMultiDisplayMode e args s)" "undef_ok args None R (on_hasPendingConfiguration e args s)"
  "undef_ok args None R (on_stopTextInputDecisionCapture e args s)" "undef_ok args None R (on_setDesktopServiceAvailable e args s)"
  "undef_ok args None R (on_createGameController e args s)" "undef_ok args None R (on_registerService e args s)"
  "undef_ok args None R (on_unregisterService e args s)" "undef_ok args None R (on_initParsecVdd e args s)"
  "undef_ok args None R (on_createDisplay e args s)" "undef_ok args None R (on_getAllDisplays e args s)"
  "undef_ok args None R (on_getDisplayList e args s)" "undef_ok args None R (on_getCustomDisplayConfigs e args s)"
  "undef_ok args None R (on_restoreDisplayConfiguration e args s)" "undef_ok args None R (on_ensureConsoleForDisplay e args s)"
  "undef_ok args None R (on_unlockCursor e args s)" "undef_ok args None R (on_updateStaticMonitors e args s)"
  by (simp_all add: on_getPlatformVersion_def on_getMonitorCount_def on_isRunningAsSystem_def on_checkVddStatus_def
      on_getCurrentMultiDisplayMode_def on_hasPendingConfiguration_def on_stopTextInputDecisionCapture_def
      on_setDesktopServiceAvailable_def on_createGameController_def on_registerService_def on_unregisterService_def
      on_initParsecVdd_def on_createDisplay_def on_getAllDisplays_def on_getDisplayList_def on_getCustomDisplayConfigs_def
      on_restoreDisplayConfiguration_def on_ensureConsoleForDisplay_def on_unlockCursor_def on_updateStaticMonitors_def
      locks_def Let_def split: prod.split)

lemma refusing_undef:
  "undef_ok args None R (on_performTextInput e args s)" "undef_ok args None R (on_subscribeGamepadRumble e args s)"
  "undef_ok args None R (on_doControlAction e args s)"
  by (auto simp: on_performTextInput_def on_subscribeGamepadRumble_def on_doControlAction_def Let_def
      split: option.split encodable.split prod.split)

text \<open>The methods that may reach an undefined step with all their arguments.\<close>

lemma on_mouseMoveR_undef: "undef_ok args (Some [''x'', ''y'']) (undefined_at e ''mouseMoveR'' args s) (on_mouseMoveR e args s)"
proof -
  have "undef_ok args ks (undefined_at e ''mouseMoveR'' args s) (sends e (performMouseMoveRelative x y) s)"
    if "number_at args ''x'' x" "number_at args ''y'' y" for x y ks
  proof (cases "performMouseMoveRelative x y")
    case None
    then have "undefined_at e ''mouseMoveR'' args s []" using that by (auto simp: undefined_at_def relative_undefined)
    then show ?thesis by (simp add: None sends_def)
  qed simp
  note step = this
  show ?thesis unfolding on_mouseMoveR_def by (intro undef_need undef_get step) (simp_all add: number_at_def)
qed

lemma on_mouseMoveToWindowPosition_undef:
  "undef_ok args (Some [''x'', ''y'']) (undefined_at e ''mouseMoveToWindowPosition'' args s) (on_mouseMoveToWindowPosition e args s)"
proof -
  have "undef_ok args ks (undefined_at e ''mouseMoveToWindowPosition'' args s)
      (sends e (performMouseMoveToWindowPosition we x y t r) s)"
    if "number_at args ''x'' x" "number_at args ''y'' y" for x y ks we t r
  proof (cases "performMouseMoveToWindowPosition we x y t r")
    case None
    from window_position_undefined [OF None] that have "undefined_at e ''mouseMoveToWindowPosition'' args s []"
      by (auto simp: undefined_at_def)
    then show ?thesis by (simp add: None sends_def)
  qed simp
  note step = this
  show ?thesis unfolding on_mouseMoveToWindowPosition_def by (intro undef_need undef_get step) (simp_all add: number_at_def)
qed

lemma pen_undefined:
  "performPenEvent we now sc x y d b p r t w = None \<Longrightarrow> pen_pressure True p = None"
  "performPenMove we now sc x y b p r t w = None \<Longrightarrow> pen_pressure True p = None"
  by (auto simp: performPenEvent_def performPenMove_def pen_state_def pen_pressure_def Let_def
      split: prod.splits option.splits if_splits)

lemma on_penEvent_undef:
  "undef_ok args (Some [''screenId'', ''x'', ''y'', ''isDown'', ''hasButton'', ''pressure'', ''rotation'', ''tilt''])
     (undefined_at e ''penEvent'' args s) (on_penEvent e args s)"
proof -
  have "undef_ok args ks (undefined_at e ''penEvent'' args s)
      (case performPenEvent we now sc x y d b p r t w of None \<Rightarrow> stop_with Undefined s | Some w \<Rightarrow> after (f w) k a s)"
    if "number_at args ''pressure'' p" for we now sc x y d b p r t w f k a ks
  proof (cases "performPenEvent we now sc x y d b p r t w")
    case None
    from pen_undefined(1) [OF None] that have "undefined_at e ''penEvent'' args s []" by (auto simp: undefined_at_def)
    then show ?thesis by (simp add: None)
  qed simp
  note step = this
  show ?thesis unfolding on_penEvent_def by (intro undef_need undef_get step) (simp_all add: number_at_def)
qed

lemma on_penMove_undef:
  "undef_ok args (Some [''screenId'', ''x'', ''y'', ''hasButton'', ''pressure'', ''rotation'', ''tilt''])
     (undefined_at e ''penMove'' args s) (on_penMove e args s)"
proof -
  have "undef_ok args ks (undefined_at e ''penMove'' args s)
      (case performPenMove we now sc x y b p r t w of None \<Rightarrow> stop_with Undefined s | Some w \<Rightarrow> after (f w) k a s)"
    if "number_at args ''pressure'' p" for we now sc x y b p r t w f k a ks
  proof (cases "performPenMove we now sc x y b p r t w")
    case None
    from pen_undefined(2) [OF None] that have "undefined_at e ''penMove'' args s []" by (auto simp: undefined_at_def)
    then show ?thesis by (simp add: None)
  qed simp
  note step = this
  show ?thesis unfolding on_penMove_def by (intro undef_need undef_get step) (simp_all add: number_at_def)
qed

lemma on_trackpadScroll_undef:
  "undef_ok args (Some [''dx'', ''dy'']) (undefined_at e ''trackpadScroll'' args s) (on_trackpadScroll e args s)"
proof -
  have "undef_ok args ks (undefined_at e ''trackpadScroll'' args s)
      (case performTrackpadScroll x y (pl_trackpad s) of None \<Rightarrow> stop_with Undefined s | Some (acc, fs) \<Rightarrow> sends e (Some fs) (g acc))"
    for x y ks g
  proof (cases "performTrackpadScroll x y (pl_trackpad s)")
    case None
    with trackpad_carries [of "pl_trackpad s" x y] have "undefined_at e ''trackpadScroll'' args s []"
      by (auto simp: undefined_at_def)
    then show ?thesis by (simp add: None)
  next
    case (Some r)
    then show ?thesis by (cases r) simp
  qed
  then show ?thesis unfolding on_trackpadScroll_def by (intro undef_need undef_get) simp_all
qed

lemma on_lockCursor_undef: "undef_ok args None (undefined_at e ''lockCursor'' args s) (on_lockCursor e args s)"
proof (cases "LockCursor (lock_answers e) (pl_lock s)")
  case (Inl calls)
  then have "undefined_at e ''lockCursor'' args s (map LockOut calls)"
    by (simp add: LockCursor_undefined undefined_at_def lock_answers_def)
  with Inl show ?thesis by (simp add: on_lockCursor_def locks_def)
qed (simp add: on_lockCursor_def locks_def undef_ok_def split: prod.split)

lemma on_unlockCursorAndReseed_undef:
  "undef_ok args (Some [''x'', ''y'']) (undefined_at e ''unlockCursorAndReseed'' args s) (on_unlockCursorAndReseed e args s)"
proof -
  have "undef_ok args ks (undefined_at e ''unlockCursorAndReseed'' args s)
      (locks e a (UnlockCursorAndReseed we le x y (pl_lock s)) s)"
    if "number_at args ''x'' x" "number_at args ''y'' y" for x y ks we le a
  proof (cases "UnlockCursorAndReseed we le x y (pl_lock s)")
    case (Inl calls)
    from UnlockCursorAndReseed_undefined [OF Inl] that
    have "undefined_at e ''unlockCursorAndReseed'' args s (map LockOut calls)" by (auto simp: undefined_at_def)
    with Inl show ?thesis by (simp add: locks_def)
  qed (simp add: locks_def undef_ok_def split: prod.split)
  note step = this
  show ?thesis unfolding on_unlockCursorAndReseed_def by (intro undef_need undef_get step) (simp_all add: number_at_def)
qed

lemma start_undefined:
  assumes "StartWindowsEditingEventMonitor (lock_answers e) message proc_id start in_time ed = Inl outs"
  shows "le_view (ce_lock e) = None \<and>
    outs = (if ed_worker ed \<noteq> None \<or> ed_proc ed \<noteq> None then snd (stop_editing in_time True ed) else [])"
  using assms
  by (auto simp: StartWindowsEditingEventMonitor_def lock_answers_def FindFlutterWindow_def Let_def
      split: if_splits prod.splits option.splits worker_start.splits)

lemma on_start_undef:
  "name \<in> {''startTextInputDecisionCapture'', ''startWindowsTextInputDecisionCapture''} \<Longrightarrow>
     undef_ok args None (undefined_at e name args s) (on_startTextInputDecisionCapture e args s)"
proof (cases "StartWindowsEditingEventMonitor (lock_answers e) (ce_message e) (ce_proc e) (ce_editing e) (ce_in_time e) (pl_editing s)")
  case (Inl outs)
  assume "name \<in> {''startTextInputDecisionCapture'', ''startWindowsTextInputDecisionCapture''}"
  with start_undefined [OF Inl] have "undefined_at e name args s outs" unfolding undefined_at_def by blast
  with Inl show ?thesis by (simp add: on_startTextInputDecisionCapture_def)
qed (simp add: on_startTextInputDecisionCapture_def split: prod.split)

lemma clear_undefined:
  assumes "WinPointer.clearAllPressedEvents we now w = Inl fs"
  shows "(\<exists>(k, st) \<in> set (g_key_states w). ks_isDown st) \<or> (\<exists>(i, st) \<in> set (g_touch_states w). ts_isDown st)"
proof (cases "find (\<lambda>(k, st). ks_isDown st) (g_key_states w)")
  case None
  let ?w = "w\<lparr>g_key_states := [], g_last_known_key_down := 0\<rparr>"
  have "find (\<lambda>(i, st). ts_isDown st) (g_touch_states w) \<noteq> None"
  proof
    assume "find (\<lambda>(i, st). ts_isDown st) (g_touch_states w) = None"
    from release_touches_none [OF this] assms show False
      by (simp add: WinPointer.clearAllPressedEvents_def release_keys_none [OF None] Let_def split: prod.splits)
  qed
  then obtain v where "find (\<lambda>(i, st). ts_isDown st) (g_touch_states w) = Some v" by blast
  from find_in_set [OF this] show ?thesis by blast
next
  case (Some v)
  then show ?thesis using find_in_set [OF Some] by blast
qed

lemma on_clearAllPressedEvents_undef:
  "undef_ok args None (undefined_at e ''clearAllPressedEvents'' args s) (on_clearAllPressedEvents e args s)"
proof (cases "WinPointer.clearAllPressedEvents (input_env e s) (ce_now e) (pl_win s)")
  case (Inl fs)
  have "undefined_at e ''clearAllPressedEvents'' args s outs" for outs
    using clear_undefined [OF Inl] by (simp add: undefined_at_def)
  then show ?thesis by (simp add: undef_ok_def)
qed (simp add: on_clearAllPressedEvents_def)

lemmas handlers_undef = senders_undef on_mouseScroll_undef callbacks_undef lookups_undef on_setMultiDisplayMode_undef
  on_changeDisplaySettings_undef answering_undef refusing_undef on_mouseMoveR_undef on_mouseMoveToWindowPosition_undef
  on_penEvent_undef on_penMove_undef on_trackpadScroll_undef on_lockCursor_undef on_unlockCursorAndReseed_undef
  on_clearAllPressedEvents_undef

lemma starts_undef:
  "undef_ok args None (undefined_at e ''startTextInputDecisionCapture'' args s) (on_startTextInputDecisionCapture e args s)"
  "undef_ok args None (undefined_at e ''startWindowsTextInputDecisionCapture'' args s) (on_startTextInputDecisionCapture e args s)"
  by (rule on_start_undef; simp)+

lemma methods_undefined:
  "list_all2 (\<lambda>(n, h) (n', ks). n = n' \<and> undef_ok args ks (undefined_at e n args s) (h e args s)) win_methods required"
  unfolding win_methods_def required_def list_all2_Cons list_all2_Nil prod.case
  by (intro conjI refl TrueI handlers_undef starts_undef)

lemma HandleMethodCall_undefined:
  assumes "HandleMethodCall e name v s = (s', outs, Undefined)"
  shows "\<not> all_there name (call_arguments v) \<and> outs = [] \<or> undefined_at e name (call_arguments v) s outs"
proof -
  obtain h where h: "map_of win_methods name = Some h" "h e (call_arguments v) s = (s', outs, Undefined)"
    using assms by (auto simp: HandleMethodCall_def split: option.splits)
  from map_of_aligned [OF methods_undefined [of "call_arguments v" e s] h(1)]
  obtain ks where "map_of required name = Some ks"
    "undef_ok (call_arguments v) ks (undefined_at e name (call_arguments v) s) (h e (call_arguments v) s)" by blast
  then show ?thesis using h(2) by (auto simp: all_there_def undef_ok_def)
qed

section \<open>Every call\<close>

lemma unsettled_methods:
  "HandleMethodCall e ''showNotification'' v s = on_showNotification e (call_arguments v) s"
  "HandleMethodCall e ''ensureConsoleForDisplay'' v s = on_ensureConsoleForDisplay e (call_arguments v) s"
  by (simp_all add: HandleMethodCall_def win_methods_def)

lemma on_showNotification_ends:
  "on_showNotification e args s = (s', outs, v) \<Longrightarrow> s' = s \<and> (v = Unanswered \<or> (v = Thrown \<or> v = Undefined) \<and> outs = [])"
  by (auto simp: on_showNotification_def need_def get_string_def stop_with_def split: option.splits encodable.splits)



end
