(* ===== verification/Spec2Isabelle.thy ===== *)
theory Spec2Isabelle
  imports Coords Scroll InputQueue PipeIo ControlChannel WinPointer Gamepad KeyBlocker DisplayTopology Displays CursorHooks
    EditWorker Notification LinuxPlugin WinAnswers
begin

text \<open>
  The native parts of the Flutter plugin \<open>hardware_simulator\<close>, which plays a remote user's keyboard, mouse,
  touch, pen and game controllers into a Windows or Linux desktop and reports the cursor, the displays
  and the input focus back.

  PARTS AND THEIR INTERACTION. A request from Dart reaches \<open>windows/hardware_simulator_plugin.cpp\<close> or
  \<open>linux/hardware_simulator_plugin.cc\<close>. On Windows it becomes an input that is first offered to the desktop
  service (\<open>windows/desktop_service_input_client.cpp\<close>: a queue and a thread that write to a named pipe), then
  given to \<open>SendInput\<close> or a synthetic pointer device, and retried over the desktops if that fails. On
  Linux it is written to a \<open>uinput\<close> device or handed to IBus. In the other direction the cursor monitor,
  the keyboard hook, the rumble subscriptions and the editing monitor turn events of the system into
  messages for Dart. The displays are managed through the DisplayConfig API and a virtual display driver.

  THEORIES, in the order of their dependencies.
  \<^item> Prelude: machine integers, C++ division, little- and big-endian codecs, ordered association lists
    (the locale \<open>finite_map\<close> with its interpretation \<open>omap\<close> is the model of \<open>std::map\<close>), decimal numbers.
  \<^item> Floats: IEEE rounding to 53 and 24 bits over the rationals (locale \<open>rounding\<close>, interpreted as \<open>fl64\<close>
    and \<open>fl32\<close>), the type \<open>dbl\<close> with infinities and NaN, clamping, rounding to integers.
  \<^item> Coords: \<open>pointer_coordinates.h\<close> and the \<open>adjust\<close> functions. Scroll: wheel distances of both platforms and
    \<open>trackpad_scroll_accumulator.h\<close>.
  \<^item> InputWire, InputQueue, PipeIo, ControlChannel: \<open>desktop_service_input_client.cpp\<close>; its packed messages, the
    input queue with the steps of its thread and of the callers, the overlapped operations on the pipe, and
    the request-response exchanges.
  \<^item> WinInput, WinPointer: the handlers of \<open>hardware_simulator_plugin.cpp\<close> for keys, buttons, moves, scrolls
    and text (\<open>windows_text_input_injector.cc\<close>), and for touch and pen with the repeat thread; the locale
    \<open>attempt_to_send\<close> is the contract of the retry loops, interpreted for the three transports.
  \<^item> Gamepad: \<open>gamecontroller_manager.cc\<close> and \<open>rumble_callback_registry.h\<close> (locale \<open>callback_registry\<close>).
  \<^item> KeyBlocker: \<open>SmartKeyboardBlocker.cpp\<close>.
  \<^item> DisplayTopology, VddDevice, Displays: \<open>virtual_display_control.cc\<close>, \<open>virtual_display.cc\<close> and
    \<open>parsec-vdd.h\<close>.
  \<^item> CursorImage, CursorHooks: \<open>cursor_monitor.cc\<close> with its two snapshot headers.
  \<^item> EditFocus: \<open>windows_editing_event_monitor.cc\<close> and the message that delivers its decisions; EditWorker:
    how its thread and its shared state begin and end.
  \<^item> Notification: \<open>notification_window.cc\<close>, its windows and its nested message loops.
  \<^item> LinuxKeyboard, LinuxMouse, LinuxText, LinuxPointer: \<open>linux_keyboard.h\<close>, \<open>linux_mouse.cc\<close> with the mouse
    requests of \<open>linux/hardware_simulator_plugin.cc\<close>, \<open>linux_text_input.cc\<close>, \<open>linux_pointer_capture.cc\<close>.
  \<^item> LinuxImmersive, LinuxEditFocus, LinuxSetup: \<open>linux_immersive_input.cc\<close>, \<open>linux_edit_focus.cc\<close> and
    \<open>linux_text_input_setup.cc\<close>.
  \<^item> LinuxPlugin: the method channel of \<open>linux/hardware_simulator_plugin.cc\<close> with the callbacks of the text
    requests and the captures, over the models of all Linux parts.
  \<^item> WinCursor: the table of monitors, the callbacks on its changes, and the cursor lock of
    \<open>windows/hardware_simulator_plugin.cpp\<close> with its raw input.
  \<^item> WinCall: the values of a call, the reading of arguments, the state of the whole Windows plugin and the
    answers of its surroundings, the helpers for processes, pointer devices and the editing monitor; the
    locale \<open>handler_contract\<close>: a claim about a handler need only be shown where its arguments are read.
  \<^item> WinMethods: a handler for each method, \<open>HandleMethodCall\<close>, registration, destruction, and the steps
    between them. WinPlugin: the invariant of the whole plugin (\<open>handler_contract\<close> interpreted as \<open>kept\<close>).
    WinSession: runs from registration to destruction. WinAnswers: how calls end (interpreted as \<open>settling\<close>).
  The locales \<open>machine\<close> and \<open>partial_machine\<close> of the prelude carry an invariant over the runs of a step
  function; they are interpreted for the keyboard capture, the pointer capture and the method channel on
  Linux, and for the cursor lock, the editing worker, the notifications and the whole plugin on Windows.

  CORRESPONDENCE. A definition has the name of the function it models, up to clashes, and takes the state it
  reads as its last argument; members and statics of a component are the fields of one record. It returns
  the new state and the list of effects, calls to the system and to Dart, in the order the code makes
  them. What Windows, X11, Wayland, GTK, IBus, UI Automation, \<open>inputtino\<close> and the SDKs answer is an
  argument: a record of answers, a function, or the list of answers still to come. \<open>None\<close> as the result of
  an operation marks behaviour that C++ leaves undefined, unless its text says otherwise. Threads are
  interleaved steps over the shared state, cut where the code takes or releases a lock, and an asynchronous
  answer is an event of its own. Continuations of D-Bus calls are data of the state.

  WHAT THE LEMMAS SHOW. For each component an invariant that every operation preserves, the behaviour of
  the operations on every branch, and the properties numbered C1 to C40 in the theories: inputs reach the
  service in order and once each, what is parsed is what was written, positions stay on their screens and
  ranges, every key or button that is pressed is released, every subscription is matched by the tables,
  every asynchronous request is answered once, layouts are saved and restored exactly, and errors leave
  the state as promised. \<open>keyboard_refines_key_set\<close> is a refinement of an abstract set of keys with partial
  effects on errors; \<open>outline_in_place\<close> shows an in-place pass equivalent to one that reads the original.

  BOUNDS AND FUEL. Loops over lists are structural recursions. Loops that may not end, the retries over the
  desktops and the climb through the parents of a window, are \<open>partial_function (option)\<close>, and lemmas show
  when they end: on a steady desktop, and in a window tree without cycles. The restore call is bounded by
  its deadline; the walk up the UI Automation tree has the code's limit of twelve elements, the query for
  the display configuration its attempts. Tokens, sequence numbers and revisions of 64 bits are natural
  numbers; those of 32 bits wrap.

  NOT MODELLED. \<open>cursor_monitor_sample.cc\<close>, which no build uses;
  the exported C function that forwards to the registration, runners and tests; logging; the variant of the
  pipe client that is linked directly; the detached thread that keeps the virtual displays alive, which
  sends one request in a loop; the conversion of the text of a notification; the fields of the messages for
  Dart where the model has a constructor with their values; and everything in other languages.
\<close>

end
